(* ===== verification/Prelude.thy ===== *)
theory Prelude
  imports Complex_Main "HOL-Library.Word"
begin

unbundle bit_operations_syntax

text \<open>
  Shared vocabulary of the development: the machine integer types of the C++ sources, the
  block copies that stand for \<open>memcpy\<close> and \<open>RtlCopyMemory\<close>, the little-endian byte
  codecs used by the packet formats, and the generic lemmas on lists and words that
  several components need.
\<close>

named_theorems blit_simps \<open>reading through a block copy\<close>
named_theorems step_simps \<open>one-step unfolding of the components' operations\<close>

type_synonym u8 = "8 word"
type_synonym u16 = "16 word"
type_synonym u32 = "32 word"
type_synonym u64 = "64 word"
type_synonym bytes = "8 word list"

section \<open>Block copies\<close>

text \<open>
  \<open>blit off src dst\<close> is the destination array after \<open>memcpy(dst + off, src, length src)\<close>.
  The sources only copy inside the destination; the lemmas carry that as a premise.
\<close>

definition blit :: "nat \<Rightarrow> 'a list \<Rightarrow> 'a list \<Rightarrow> 'a list" where
  "blit off src dst = take off dst @ src @ drop (off + length src) dst"

lemma length_blit [blit_simps, simp]:
  "off + length src \<le> length dst \<Longrightarrow> length (blit off src dst) = length dst"
  by (simp add: blit_def)

lemma blit_Nil [blit_simps, simp]: "blit off [] dst = dst"
  by (simp add: blit_def)

lemma nth_blit [blit_simps]:
  assumes "off + length src \<le> length dst" and "i < length dst"
  shows "blit off src dst ! i =
    (if off \<le> i \<and> i < off + length src then src ! (i - off) else dst ! i)"
  using assms by (auto simp: blit_def nth_append min_def)

lemma take_drop_blit:
  "off + length src \<le> length dst \<Longrightarrow> take (length src) (drop off (blit off src dst)) = src"
  by (simp add: blit_def min_absorb2)

lemma take_drop_blit_apart:
  assumes "a + n \<le> off \<or> off + length src \<le> a" and "a + n \<le> length dst" and "off + length src \<le> length dst"
  shows "take n (drop a (blit off src dst)) = take n (drop a dst)"
proof (rule nth_equalityI)
  fix k
  assume "k < length (take n (drop a (blit off src dst)))"
  then have k: "k < n" by simp
  then have "a + k < length dst" "\<not> (off \<le> a + k \<and> a + k < off + length src)" using assms by linarith+
  then show "take n (drop a (blit off src dst)) ! k = take n (drop a dst) ! k"
    using k assms(3) nth_blit [OF assms(3), of "a + k"] by auto
qed (use assms in simp)

lemma blit_self: "length src = length dst \<Longrightarrow> blit 0 src dst = src"
  by (simp add: blit_def)

section \<open>Words\<close>

lemma unat_bound: "unat (w :: 'a::len word) < 2 ^ LENGTH('a)"
  by (rule unsigned_less)

lemma unat_mask_mod:
  fixes x :: "'a::len word"
  assumes "k < LENGTH('a)"
  shows "unat (x AND (2 ^ k - 1)) = unat x mod 2 ^ k"
proof -
  have "x AND (2 ^ k - 1) = take_bit k x"
    by (simp only: take_bit_eq_mask mask_eq_exp_minus_1)
  then have "unat (x AND (2 ^ k - 1)) = take_bit k (unat x)"
    by (simp only: unsigned_take_bit_eq)
  then show ?thesis
    by (simp only: take_bit_eq_mod)
qed

lemma unat_add_mod_pow:
  fixes x y :: "'a::len word"
  assumes "k \<le> LENGTH('a)"
  shows "unat (x + y) mod 2 ^ k = (unat x + unat y) mod 2 ^ k"
proof -
  have "(2::nat) ^ k dvd 2 ^ LENGTH('a)"
    using assms by (simp add: le_imp_power_dvd)
  then show ?thesis
    by (simp add: unat_word_ariths mod_mod_cancel)
qed

lemma unat_drop_bit: "unat (drop_bit n (w :: 'a::len word)) = unat w div 2 ^ n"
proof -
  have "unat (drop_bit n w) = drop_bit n (take_bit LENGTH('a) (unat w))"
    by (rule unsigned_drop_bit_eq)
  then show ?thesis by (simp only: drop_bit_eq_div take_bit_nat_eq_self [OF unat_bound])
qed

lemma unat_of_nat_u64: "n < 2 ^ 64 \<Longrightarrow> unat (of_nat n :: u64) = n"
  by (simp add: unsigned_of_nat take_bit_nat_eq_self)

lemma unat_of_nat_u32: "n < 2 ^ 32 \<Longrightarrow> unat (of_nat n :: u32) = n"
  by (simp add: unsigned_of_nat take_bit_nat_eq_self)

lemma unat_diff_add:
  fixes w r :: "'a::len word"
  assumes "unat (w - r) + n < 2 ^ LENGTH('a)"
  shows "unat (w + of_nat n - r) = unat (w - r) + n"
proof -
  have "w + of_nat n - r = (w - r) + of_nat n"
    by simp
  moreover have "unat (of_nat n :: 'a word) = n"
    using assms by (simp add: unsigned_of_nat take_bit_nat_eq_self)
  ultimately have "unat (w + of_nat n - r) = (unat (w - r) + n) mod 2 ^ LENGTH('a)"
    by (simp only: unat_word_ariths)
  then show ?thesis
    using assms by simp
qed

lemma unat_diff_sub:
  fixes w r :: "'a::len word"
  assumes "n \<le> unat (w - r)"
  shows "unat (w - (r + of_nat n)) = unat (w - r) - n"
proof -
  have eq: "w - (r + of_nat n) = (w - r) - of_nat n"
    by simp
  have lt: "n < 2 ^ LENGTH('a)"
    using assms unat_bound [of "w - r"] by linarith
  then have n: "unat (of_nat n :: 'a word) = n"
    by (simp add: unsigned_of_nat take_bit_nat_eq_self)
  have "of_nat n \<le> w - r"
    using assms n by (simp add: word_le_nat_alt)
  then show ?thesis
    by (simp add: eq unat_sub n)
qed

lemma unat_add_no_wrap:
  fixes w :: "'a::len word"
  assumes "unat w + n < 2 ^ LENGTH('a)"
  shows "unat (w + of_nat n) = unat w + n"
  using unat_diff_add [of w 0 n] assms by simp

section \<open>Little-endian integers\<close>

text \<open>
  \<open>le_bytes n w\<close> is the loop \<open>for i < n: out[i] = (w >> 8*i) & 0xFF\<close> of the codecs, and
  \<open>le_word\<close> its inverse \<open>w |= b[i] << 8*i\<close>.
\<close>

definition le_bytes :: "nat \<Rightarrow> 'a::len word \<Rightarrow> bytes" where
  "le_bytes n w = map (\<lambda>i. ucast (drop_bit (8 * i) w)) [0..<n]"

fun le_word :: "bytes \<Rightarrow> 'a::len word" where
  "le_word [] = 0"
| "le_word (b # bs) = ucast b OR push_bit 8 (le_word bs)"

lemma length_le_bytes [simp]: "length (le_bytes n w) = n"
  by (simp add: le_bytes_def)

lemma le_bytes_Suc: "le_bytes (Suc n) w = ucast w # le_bytes n (drop_bit 8 w)"
  by (simp add: le_bytes_def upt_conv_Cons map_Suc_upt [symmetric] del: upt_Suc)
     (simp add: drop_bit_drop_bit algebra_simps)

lemma le_word_le_bytes:
  fixes w :: "'a::len word"
  shows "le_word (le_bytes n w) = take_bit (8 * n) w"
proof (induction n arbitrary: w)
  case 0
  then show ?case by (simp add: le_bytes_def)
next
  case (Suc n)
  show ?case
    unfolding le_bytes_Suc le_word.simps Suc.IH
    by (rule bit_word_eqI)
       (auto simp: bit_or_iff bit_ucast_iff bit_push_bit_iff bit_take_bit_iff bit_drop_bit_eq)
qed

lemma le_word_full:
  fixes w :: "'a::len word"
  assumes "LENGTH('a) \<le> 8 * n"
  shows "le_word (le_bytes n w) = w"
  using assms by (simp only: le_word_le_bytes) (rule take_bit_word_eq_self)

lemma le_bytes_inject:
  fixes v w :: "'a::len word"
  assumes "LENGTH('a) \<le> 8 * n" and "le_bytes n v = le_bytes n w"
  shows "v = w"
  by (metis assms le_word_full)

section \<open>Lists\<close>

lemma replicate_append_nth:
  "i < n \<Longrightarrow> (xs @ replicate (n - length xs) z) ! i = (if i < length xs then xs ! i else z)"
  by (auto simp: nth_append)

end
