(* ===== verification/SourceStateMachine.thy ===== *)
theory SourceStateMachine
  imports Prelude
begin

text \<open>
  The authoritative push-to-talk state machine
  (\<^verbatim>\<open>windows/audio-service/src/source_state_machine.cpp\<close> and its header). The two enums
  and the event enum keep the source's constructors; the object is the record
  \<open>source_state_machine\<close> of its two members; \<open>sm_apply\<close> is \<open>SourceStateMachine::apply\<close>,
  returning the \<open>Transition\<close> and the machine after it. The lemmas show which states each
  mode admits, that mode changes win from everywhere, that press and release are
  idempotent, and that the phone is reached only through an acknowledged arming.
\<close>

section \<open>Types\<close>

datatype source_state =
    LocalActive
  | PhoneArming
  | PhoneActive
  | ReturningToLocal
  | PhoneOnly
  | LocalOnly
  | Muted
  | ErrorRecovery

datatype routing_mode = Mode_Auto | Mode_PhoneOnly | Mode_LocalOnly | Mode_Mute

datatype event =
    Ev_StartPtt
  | Ev_StopPtt
  | Ev_PhoneReady
  | Ev_PhoneLost
  | Ev_ArmTimeout
  | Ev_FadeComplete
  | Ev_SourceFailure
  | Ev_Recovered
  | Ev_ModeAuto
  | Ev_ModePhoneOnly
  | Ev_ModeLocalOnly
  | Ev_ModeMute

record transition =
  tr_accepted :: bool
  tr_from :: source_state
  tr_to :: source_state
  tr_changed :: bool

record source_state_machine =
  sm_state :: source_state
  sm_mode :: routing_mode

definition sm_init :: source_state_machine where
  "sm_init = \<lparr>sm_state = LocalActive, sm_mode = Mode_Auto\<rparr>"

section \<open>Operations\<close>

fun restingStateFor :: "routing_mode \<Rightarrow> source_state" where
  "restingStateFor Mode_Auto = LocalActive"
| "restingStateFor Mode_PhoneOnly = PhoneOnly"
| "restingStateFor Mode_LocalOnly = LocalOnly"
| "restingStateFor Mode_Mute = Muted"

text \<open>
  The switch of \<open>apply\<close>: the mode after the event, the target state and whether the edge
  is legal. Every branch of the source is an equation, in the source's order.
\<close>

fun sm_switch :: "event \<Rightarrow> routing_mode \<Rightarrow> source_state \<Rightarrow> routing_mode \<times> source_state \<times> bool" where
  "sm_switch Ev_ModeAuto mode from = (Mode_Auto, LocalActive, True)"
| "sm_switch Ev_ModePhoneOnly mode from = (Mode_PhoneOnly, PhoneOnly, True)"
| "sm_switch Ev_ModeLocalOnly mode from = (Mode_LocalOnly, LocalOnly, True)"
| "sm_switch Ev_ModeMute mode from = (Mode_Mute, Muted, True)"
| "sm_switch Ev_StartPtt mode from =
     (mode,
      if mode = Mode_Auto \<and> (from = LocalActive \<or> from = ReturningToLocal)
      then PhoneArming else from,
      True)"
| "sm_switch Ev_StopPtt mode from =
     (mode,
      if mode = Mode_Auto then
        (if from = PhoneActive then ReturningToLocal
         else if from = PhoneArming then LocalActive
         else from)
      else from,
      True)"
| "sm_switch Ev_PhoneReady mode from =
     (if from = PhoneArming then (mode, PhoneActive, True)
      else if from = PhoneActive then (mode, from, True)
      else if from = PhoneOnly then (mode, from, True)
      else (mode, from, False))"
| "sm_switch Ev_PhoneLost mode from =
     (if from = PhoneActive then (mode, ReturningToLocal, True)
      else if from = PhoneArming then (mode, ErrorRecovery, True)
      else if from = PhoneOnly then (mode, from, True)
      else (mode, from, False))"
| "sm_switch Ev_ArmTimeout mode from =
     (if from = PhoneArming then (mode, ErrorRecovery, True) else (mode, from, False))"
| "sm_switch Ev_FadeComplete mode from =
     (if from = ReturningToLocal then (mode, LocalActive, True) else (mode, from, False))"
| "sm_switch Ev_SourceFailure mode from = (mode, ErrorRecovery, True)"
| "sm_switch Ev_Recovered mode from =
     (if from = ErrorRecovery then (mode, restingStateFor mode, True) else (mode, from, False))"

definition sm_apply :: "event \<Rightarrow> source_state_machine \<Rightarrow> transition \<times> source_state_machine" where
  "sm_apply e sm =
     (case sm_switch e (sm_mode sm) (sm_state sm) of
        (mode, to, accepted) \<Rightarrow>
          (\<lparr>tr_accepted = accepted,
            tr_from = sm_state sm,
            tr_to = (if accepted then to else sm_state sm),
            tr_changed = (accepted \<and> sm_state sm \<noteq> to)\<rparr>,
           \<lparr>sm_state = (if accepted then to else sm_state sm), sm_mode = mode\<rparr>))"

fun wantsPhone :: "source_state \<Rightarrow> bool" where
  "wantsPhone PhoneActive = True"
| "wantsPhone ReturningToLocal = True"
| "wantsPhone PhoneOnly = True"
| "wantsPhone _ = False"

fun wantsLocal :: "source_state \<Rightarrow> bool" where
  "wantsLocal LocalActive = True"
| "wantsLocal LocalOnly = True"
| "wantsLocal PhoneArming = True"
| "wantsLocal PhoneActive = True"
| "wantsLocal ReturningToLocal = True"
| "wantsLocal _ = False"

fun source_state_toString :: "source_state \<Rightarrow> string" where
  "source_state_toString LocalActive = ''LOCAL_ACTIVE''"
| "source_state_toString PhoneArming = ''PHONE_ARMING''"
| "source_state_toString PhoneActive = ''PHONE_ACTIVE''"
| "source_state_toString ReturningToLocal = ''RETURNING_TO_LOCAL''"
| "source_state_toString PhoneOnly = ''PHONE_ONLY''"
| "source_state_toString LocalOnly = ''LOCAL_ONLY''"
| "source_state_toString Muted = ''MUTED''"
| "source_state_toString ErrorRecovery = ''ERROR_RECOVERY''"

fun routing_mode_toString :: "routing_mode \<Rightarrow> string" where
  "routing_mode_toString Mode_Auto = ''Auto''"
| "routing_mode_toString Mode_PhoneOnly = ''PhoneOnly''"
| "routing_mode_toString Mode_LocalOnly = ''LocalOnly''"
| "routing_mode_toString Mode_Mute = ''Mute''"

fun event_toString :: "event \<Rightarrow> string" where
  "event_toString Ev_StartPtt = ''START_PTT''"
| "event_toString Ev_StopPtt = ''STOP_PTT''"
| "event_toString Ev_PhoneReady = ''PHONE_READY''"
| "event_toString Ev_PhoneLost = ''PHONE_LOST''"
| "event_toString Ev_ArmTimeout = ''ARM_TIMEOUT''"
| "event_toString Ev_FadeComplete = ''FADE_COMPLETE''"
| "event_toString Ev_SourceFailure = ''SOURCE_FAILURE''"
| "event_toString Ev_Recovered = ''RECOVERED''"
| "event_toString Ev_ModeAuto = ''MODE_AUTO''"
| "event_toString Ev_ModePhoneOnly = ''MODE_PHONE_ONLY''"
| "event_toString Ev_ModeLocalOnly = ''MODE_LOCAL_ONLY''"
| "event_toString Ev_ModeMute = ''MODE_MUTE''"

section \<open>One step\<close>

abbreviation sm_next :: "event \<Rightarrow> source_state_machine \<Rightarrow> source_state_machine" where
  "sm_next e sm \<equiv> snd (sm_apply e sm)"

abbreviation sm_trans :: "event \<Rightarrow> source_state_machine \<Rightarrow> transition" where
  "sm_trans e sm \<equiv> fst (sm_apply e sm)"

lemma sm_apply_fields [step_simps]:
  "sm_state (sm_next e sm) = tr_to (sm_trans e sm)"
  "tr_from (sm_trans e sm) = sm_state sm"
  "tr_changed (sm_trans e sm) \<longleftrightarrow> tr_accepted (sm_trans e sm) \<and> tr_from (sm_trans e sm) \<noteq> tr_to (sm_trans e sm)"
  by (auto simp: sm_apply_def split: prod.split)

lemma sm_apply_rejected:
  assumes "\<not> tr_accepted (sm_trans e sm)"
  shows "sm_next e sm = sm"
  using assms by (cases e) (auto simp: sm_apply_def split: if_splits)

lemma sm_apply_unchanged:
  assumes "\<not> tr_changed (sm_trans e sm)"
  shows "sm_state (sm_next e sm) = sm_state sm"
  using assms by (auto simp: sm_apply_def split: prod.splits)

lemma sm_mode_next:
  "sm_mode (sm_next e sm) =
     (case e of Ev_ModeAuto \<Rightarrow> Mode_Auto | Ev_ModePhoneOnly \<Rightarrow> Mode_PhoneOnly
      | Ev_ModeLocalOnly \<Rightarrow> Mode_LocalOnly | Ev_ModeMute \<Rightarrow> Mode_Mute | _ \<Rightarrow> sm_mode sm)"
  by (cases e) (auto simp: sm_apply_def)

text \<open>The regions of the state graph: which states a mode admits.\<close>

fun mode_region :: "routing_mode \<Rightarrow> source_state set" where
  "mode_region Mode_Auto = {LocalActive, PhoneArming, PhoneActive, ReturningToLocal, ErrorRecovery}"
| "mode_region Mode_PhoneOnly = {PhoneOnly, ErrorRecovery}"
| "mode_region Mode_LocalOnly = {LocalOnly, ErrorRecovery}"
| "mode_region Mode_Mute = {Muted, ErrorRecovery}"

definition sm_inv :: "source_state_machine \<Rightarrow> bool" where
  "sm_inv sm \<longleftrightarrow> sm_state sm \<in> mode_region (sm_mode sm)"

lemma sm_inv_init: "sm_inv sm_init"
  by (simp add: sm_inv_def sm_init_def)

lemma sm_inv_next: "sm_inv sm \<Longrightarrow> sm_inv (sm_next e sm)"
  by (cases e; cases "sm_mode sm") (auto simp: sm_inv_def sm_apply_def)

text \<open>Where each way into the phone's states can come from.\<close>

lemma enter_PhoneActive:
  assumes "sm_state (sm_next e sm) = PhoneActive" and "sm_state sm \<noteq> PhoneActive"
  shows "sm_state sm = PhoneArming \<and> e = Ev_PhoneReady"
  using assms by (cases e; cases "sm_mode sm") (auto simp: sm_apply_def split: if_splits)

lemma enter_PhoneArming:
  assumes "sm_state (sm_next e sm) = PhoneArming" and "sm_state sm \<noteq> PhoneArming"
  shows "sm_mode sm = Mode_Auto \<and> e = Ev_StartPtt \<and>
         sm_state sm \<in> {LocalActive, ReturningToLocal}"
  using assms by (cases e; cases "sm_mode sm") (auto simp: sm_apply_def split: if_splits)

lemma enter_ErrorRecovery:
  assumes "sm_state (sm_next e sm) = ErrorRecovery" and "sm_state sm \<noteq> ErrorRecovery"
  shows "e = Ev_SourceFailure \<or> sm_state sm = PhoneArming \<and> e \<in> {Ev_PhoneLost, Ev_ArmTimeout}"
  using assms by (cases e; cases "sm_mode sm") (auto simp: sm_apply_def split: if_splits)

lemma sm_state_ErrorRecovery_cases:
  "sm_state sm = ErrorRecovery \<Longrightarrow> sm_next Ev_Recovered sm = sm\<lparr>sm_state := restingStateFor (sm_mode sm)\<rparr>"
  by (cases sm) (simp add: sm_apply_def)

lemma restingStateFor_region: "restingStateFor m \<in> mode_region m - {ErrorRecovery}"
  by (cases m) auto

section \<open>Runs\<close>

text \<open>
  The machine is driven by any sequence of events: the reachable machines are the least
  set closed under \<open>sm_apply\<close>.
\<close>

inductive sm_reachable :: "source_state_machine \<Rightarrow> bool" where
  sm_start: "sm_reachable sm_init"
| sm_step: "sm_reachable sm \<Longrightarrow> sm_reachable (sm_next e sm)"

definition sm_run :: "event list \<Rightarrow> source_state_machine \<Rightarrow> source_state_machine" where
  "sm_run es sm = fold sm_next es sm"

lemma sm_run_simps [simp]:
  "sm_run [] sm = sm"
  "sm_run (e # es) sm = sm_run es (sm_next e sm)"
  by (simp_all add: sm_run_def)

lemma sm_reachable_run: "sm_reachable sm \<Longrightarrow> sm_reachable (sm_run es sm)"
  by (induction es arbitrary: sm) (auto intro: sm_step)

lemma sm_reachable_inv: "sm_reachable sm \<Longrightarrow> sm_inv sm"
  by (induction rule: sm_reachable.induct) (auto intro: sm_inv_init sm_inv_next)

text \<open>
  C2: in every reachable machine the state lies in the region of the current mode, so the
  phone can contribute only in Auto and Phone Only, and Mute and Local Only never want it.
\<close>

theorem mode_region_reachable:
  assumes "sm_reachable sm"
  shows "sm_state sm \<in> mode_region (sm_mode sm) \<and>
         (wantsPhone (sm_state sm) \<longrightarrow> sm_mode sm = Mode_Auto \<or> sm_mode sm = Mode_PhoneOnly) \<and>
         (sm_state sm = PhoneActive \<longrightarrow> sm_mode sm = Mode_Auto)"
  using sm_reachable_inv [OF assms]
  by (cases "sm_mode sm"; cases "sm_state sm") (auto simp: sm_inv_def)

theorem mode_region_reachable_witness:
  "sm_reachable (sm_run [Ev_StartPtt, Ev_PhoneReady] sm_init) \<and>
   sm_state (sm_run [Ev_StartPtt, Ev_PhoneReady] sm_init) = PhoneActive \<and>
   sm_mode (sm_run [Ev_StartPtt, Ev_PhoneReady] sm_init) = Mode_Auto"
proof -
  let ?sm = "sm_run [Ev_StartPtt, Ev_PhoneReady] sm_init"
  have r: "sm_reachable ?sm"
    by (rule sm_reachable_run) (rule sm_start)
  moreover have "sm_state ?sm = PhoneActive"
    by (simp add: sm_apply_def sm_init_def)
  ultimately show ?thesis
    using mode_region_reachable [OF r] by blast
qed

text \<open>
  C3: the phone is heard in Auto only after an arming that was acknowledged: in any run of
  events that ends in \<open>PhoneActive\<close> from a machine outside the phone's states, the run holds
  a press and, later, a \<open>PhoneReady\<close>.
\<close>

theorem phone_active_needs_press_and_ack:
  assumes "sm_state sm \<notin> {PhoneArming, PhoneActive}"
    and "sm_state (sm_run es sm) = PhoneActive"
  shows "\<exists>as bs cs. es = as @ Ev_StartPtt # bs @ Ev_PhoneReady # cs"
proof -
  have arm: "\<exists>bs cs. es = bs @ Ev_PhoneReady # cs"
    if "sm_state sm \<noteq> PhoneActive" and "sm_state (sm_run es sm) = PhoneActive" for es sm
    using that
  proof (induction es arbitrary: sm)
    case (Cons e es)
    show ?case
    proof (cases "sm_state (sm_next e sm) = PhoneActive")
      case True
      with Cons.prems enter_PhoneActive have "e = Ev_PhoneReady" by blast
      then show ?thesis by blast
    next
      case False
      with Cons obtain bs cs where "es = bs @ Ev_PhoneReady # cs" by fastforce
      then show ?thesis by (metis append_Cons)
    qed
  qed simp
  from assms show ?thesis
  proof (induction es arbitrary: sm)
    case (Cons e es)
    show ?case
    proof (cases "sm_state (sm_next e sm) = PhoneArming")
      case True
      with Cons.prems enter_PhoneArming have "e = Ev_StartPtt" by blast
      moreover obtain bs cs where "es = bs @ Ev_PhoneReady # cs"
        using arm [of "sm_next e sm" es] True Cons.prems(2) by auto
      ultimately show ?thesis by (metis append_Nil)
    next
      case False
      with Cons.prems enter_PhoneActive have "sm_state (sm_next e sm) \<notin> {PhoneArming, PhoneActive}"
        by blast
      with Cons show ?thesis by (metis append_Cons sm_run_simps(2))
    qed
  qed simp
qed

theorem phone_active_needs_press_and_ack_witness:
  "\<exists>as bs cs. [Ev_PhoneReady, Ev_StartPtt, Ev_PhoneReady] = as @ Ev_StartPtt # bs @ Ev_PhoneReady # cs"
  by (rule phone_active_needs_press_and_ack [of sm_init]) (simp_all add: sm_apply_def sm_init_def)

text \<open>
  Press and release are idempotent, in every state and mode: repeating the event leaves
  the machine where the first one put it and reports no change.
\<close>

theorem ptt_idempotent:
  "sm_next Ev_StartPtt (sm_next Ev_StartPtt sm) = sm_next Ev_StartPtt sm \<and>
   sm_next Ev_StopPtt (sm_next Ev_StopPtt sm) = sm_next Ev_StopPtt sm \<and>
   \<not> tr_changed (sm_trans Ev_StartPtt (sm_next Ev_StartPtt sm)) \<and>
   \<not> tr_changed (sm_trans Ev_StopPtt (sm_next Ev_StopPtt sm))"
  by (cases sm) (auto simp: sm_apply_def)

end
