(* ===== verification/RingBuffer.thy ===== *)
theory RingBuffer
  imports Prelude "HOL-Library.Sublist"
begin

text \<open>
  The bounded ring of \<^verbatim>\<open>windows/audio-service/include/smartmic/ring_buffer.h\<close>. The object is
  the record \<open>ring_buffer\<close> of its members: the two monotonic indices and the two counters
  are 64-bit and wrap; sizes (\<open>size_t\<close> arguments) are naturals, the capacity being a power of
  two. \<open>rb_contents\<close> reads the items between the indices; the lemmas show that \<open>write\<close>,
  \<open>read\<close>, \<open>readOrSilence\<close> and \<open>clear\<close> refine a bounded queue that drops its oldest items, and
  the locale \<open>drop_oldest_queue\<close> derives from that contract what a producer and a consumer
  observe over any history of calls.
\<close>

section \<open>The object\<close>

record 'a ring_buffer =
  rb_capacity :: nat
  rb_data :: "'a list"
  rb_write_ix :: u64
  rb_read_ix :: u64
  rb_overruns :: u64
  rb_underruns :: u64

text \<open>
  \<open>while (p < v) p <<= 1;\<close> on \<open>size_t\<close>. The shift drops the top bit, so the loop is written
  as a partial function: \<open>None\<close> is a loop that never ends.
\<close>

partial_function (option) pow2_loop :: "u64 \<Rightarrow> u64 \<Rightarrow> u64 option" where
  "pow2_loop p v = (if p < v then pow2_loop (push_bit 1 p) v else Some p)"

definition roundUpPow2 :: "u64 \<Rightarrow> u64 option" where
  "roundUpPow2 v = pow2_loop 1 v"

text \<open>The constructor: \<open>z\<close> is the value-initialised element the vector is filled with.\<close>

definition rb_new :: "'a \<Rightarrow> u64 \<Rightarrow> 'a ring_buffer option" where
  "rb_new z capacity =
     map_option (\<lambda>c. \<lparr>rb_capacity = unat c, rb_data = replicate (unat c) z,
                      rb_write_ix = 0, rb_read_ix = 0, rb_overruns = 0, rb_underruns = 0\<rparr>)
       (roundUpPow2 capacity)"

definition rb_mask :: "'a ring_buffer \<Rightarrow> u64" where
  "rb_mask rb = of_nat (rb_capacity rb) - 1"

definition rb_available :: "'a ring_buffer \<Rightarrow> nat" where
  "rb_available rb = unat (rb_write_ix rb - rb_read_ix rb)"

definition rb_freeSpace :: "'a ring_buffer \<Rightarrow> nat" where
  "rb_freeSpace rb = rb_capacity rb - rb_available rb"

section \<open>Operations\<close>

definition rb_copyIn :: "u64 \<Rightarrow> 'a list \<Rightarrow> 'a ring_buffer \<Rightarrow> 'a list" where
  "rb_copyIn pos src rb =
     (let off = unat (pos AND rb_mask rb);
          count = length src;
          first = (if count < rb_capacity rb - off then count else rb_capacity rb - off);
          d = blit off (take first src) (rb_data rb)
      in if count > first then blit 0 (drop first src) d else d)"

definition rb_copyOut :: "u64 \<Rightarrow> nat \<Rightarrow> 'a ring_buffer \<Rightarrow> 'a list" where
  "rb_copyOut pos count rb =
     (let off = unat (pos AND rb_mask rb);
          first = (if count < rb_capacity rb - off then count else rb_capacity rb - off)
      in take first (drop off (rb_data rb)) @
         (if count > first then take (count - first) (rb_data rb) else []))"

text \<open>\<open>write\<close> returns the number of items dropped and the ring after it.\<close>

definition rb_write :: "'a list \<Rightarrow> 'a ring_buffer \<Rightarrow> nat \<times> 'a ring_buffer" where
  "rb_write src rb =
     (if src = [] then (0, rb)
      else
        let cap = rb_capacity rb;
            dropped0 = (if length src > cap then length src - cap else 0);
            src' = drop dropped0 src;
            count = length src';
            w = rb_write_ix rb;
            r = rb_read_ix rb;
            used = unat (w - r);
            overflow = (if used + count > cap then used + count - cap else 0);
            dropped = dropped0 + overflow
        in (dropped,
            rb\<lparr>rb_read_ix := r + of_nat overflow,
               rb_data := rb_copyIn w src' rb,
               rb_write_ix := w + of_nat count,
               rb_overruns := rb_overruns rb + of_nat dropped\<rparr>))"

text \<open>\<open>read\<close> returns the items copied to the front of the caller's buffer.\<close>

definition rb_read :: "nat \<Rightarrow> 'a ring_buffer \<Rightarrow> 'a list \<times> 'a ring_buffer" where
  "rb_read count rb =
     (let r = rb_read_ix rb;
          avail = unat (rb_write_ix rb - r);
          n = (if avail < count then avail else count)
      in (rb_copyOut r n rb,
          rb\<lparr>rb_read_ix := r + of_nat n,
             rb_underruns := rb_underruns rb + (if n < count then of_nat (count - n) else 0)\<rparr>))"

text \<open>\<open>readOrSilence\<close> fills the caller's whole buffer; \<open>z\<close> is the all-zero element.\<close>

definition rb_readOrSilence :: "'a \<Rightarrow> nat \<Rightarrow> 'a ring_buffer \<Rightarrow> nat \<times> 'a list \<times> 'a ring_buffer" where
  "rb_readOrSilence z count rb =
     (case rb_read count rb of
        (xs, rb') \<Rightarrow> (length xs, xs @ replicate (count - length xs) z, rb'))"

definition rb_clear :: "'a ring_buffer \<Rightarrow> 'a ring_buffer" where
  "rb_clear rb = rb\<lparr>rb_read_ix := rb_write_ix rb\<rparr>"

section \<open>The capacity loop\<close>

lemma pow2_loop_result:
  assumes "pow2_loop p v = Some r"
  shows "v \<le> r \<and> (\<exists>n. r = push_bit n p)"
proof (rule pow2_loop.raw_induct [where P = "\<lambda>p v r. v \<le> r \<and> (\<exists>n. r = push_bit n p)", OF _ assms])
  fix loop and p v r :: u64
  assume IH: "\<And>v b y. loop v b = Some y \<Longrightarrow> b \<le> y \<and> (\<exists>n. y = push_bit n v)"
    and step: "(if p < v then loop (push_bit 1 p) v else Some p) = Some r"
  show "v \<le> r \<and> (\<exists>n. r = push_bit n p)"
  proof (cases "p < v")
    case True
    with step have "loop (push_bit 1 p) v = Some r" by (simp only: if_True)
    from IH [OF this] obtain n where "v \<le> r" "r = push_bit n (push_bit 1 p)" by blast
    then have "r = push_bit (n + 1) p" by (simp only: push_bit_push_bit)
    with \<open>v \<le> r\<close> show ?thesis by blast
  next
    case False
    with step have "r = push_bit 0 p" "v \<le> r" by (auto simp: not_less)
    then show ?thesis by blast
  qed
qed

lemma pow2_loop_terminates:
  assumes "k \<le> m" and "v \<le> push_bit m (1::u64)" and "m < 64"
  shows "\<exists>n. k \<le> n \<and> n \<le> m \<and> pow2_loop (push_bit k 1) v = Some (push_bit n 1) \<and>
             v \<le> push_bit n 1 \<and> (k < n \<longrightarrow> push_bit (n - 1) 1 < v)"
  using assms(1)
proof (induction "m - k" arbitrary: k)
  case 0
  then have "k = m" by simp
  with assms(2) have "pow2_loop (push_bit k 1) v = Some (push_bit k 1)"
    by (subst pow2_loop.simps) (simp only: not_less [symmetric] if_False)
  with \<open>k = m\<close> assms(2) show ?case by (intro exI [of _ k]) simp
next
  case (Suc d)
  show ?case
  proof (cases "push_bit k (1::u64) < v")
    case True
    then have "pow2_loop (push_bit k 1) v = pow2_loop (push_bit (Suc k) 1) v"
      by (subst pow2_loop.simps) (simp only: push_bit_push_bit if_True plus_1_eq_Suc)
    moreover have "d = m - Suc k" "Suc k \<le> m" using Suc(2) by linarith+
    from Suc(1) [OF this] obtain n where n:
      "Suc k \<le> n" "n \<le> m" "pow2_loop (push_bit (Suc k) 1) v = Some (push_bit n 1)"
      "v \<le> push_bit n 1" "Suc k < n \<longrightarrow> push_bit (n - 1) 1 < v"
      by blast
    moreover have "push_bit (n - 1) 1 < v"
      using n True by (cases "n = Suc k") (simp_all only: diff_Suc_1 le_neq_implies_less)
    ultimately show ?thesis
      by (intro exI [of _ n]) (simp only: Suc_leD simp_thms)
  next
    case False
    then have "pow2_loop (push_bit k 1) v = Some (push_bit k 1)"
      by (subst pow2_loop.simps) simp
    with False Suc(3) show ?thesis by (intro exI [of _ k]) (simp add: not_less)
  qed
qed

lemma unat_push_bit_1: "n < 64 \<Longrightarrow> unat (push_bit n (1::u64)) = 2 ^ n"
proof -
  assume n: "n < 64"
  have "unat (push_bit n (1::u64)) = unat ((2::u64) ^ n)"
    by (simp add: push_bit_eq_mult)
  also have "(2::u64) ^ n = of_nat (2 ^ n)"
    by simp
  also have "unat (of_nat (2 ^ n) :: u64) = 2 ^ n"
    by (rule unat_of_nat_u64) (use n in \<open>simp only: power_strict_increasing\<close>)
  finally show ?thesis .
qed

section \<open>Indices into the block\<close>

lemma mod_diff_fwd: "0 < c \<Longrightarrow> ((x + y) mod c + c - x mod c) mod c = y mod (c::nat)"
proof -
  assume c: "0 < c"
  have "((x + y) mod c + c - x mod c) mod c = ((x + y) mod c + (c - x mod c)) mod c"
    using c by (simp add: less_imp_le)
  also have "\<dots> = (x mod c + y + (c - x mod c)) mod c"
    by (metis mod_add_left_eq)
  also have "x mod c + y + (c - x mod c) = y + c"
    using c by (simp add: less_imp_le)
  finally show ?thesis by simp
qed

lemma mod_diff_bwd:
  assumes "0 < z" and "z \<le> (c::nat)"
  shows "(x mod c + c - (x + z) mod c) mod c = c - z"
proof -
  have "x mod c = (x + z + (c - z)) mod c"
    using assms by simp
  then have "(x mod c + c - (x + z) mod c) mod c = (c - z) mod c"
    using mod_diff_fwd [of c "x + z" "c - z"] assms by simp
  then show ?thesis using assms by simp
qed

definition rb_ok :: "'a ring_buffer \<Rightarrow> bool" where
  "rb_ok rb \<longleftrightarrow> (\<exists>k<63. rb_capacity rb = 2 ^ k) \<and> length (rb_data rb) = rb_capacity rb \<and>
     rb_available rb \<le> rb_capacity rb"

definition rb_contents :: "'a ring_buffer \<Rightarrow> 'a list" where
  "rb_contents rb =
     map (\<lambda>i. rb_data rb ! ((unat (rb_read_ix rb) + i) mod rb_capacity rb)) [0..<rb_available rb]"

lemma length_rb_contents [simp]: "length (rb_contents rb) = rb_available rb"
  by (simp add: rb_contents_def)

lemma rb_index:
  assumes "rb_capacity rb = 2 ^ k" and "k < 64"
  shows "unat (pos AND rb_mask rb) = unat pos mod rb_capacity rb"
  using unat_mask_mod [of k pos] assms by (simp add: rb_mask_def)

lemma rb_index_add:
  assumes "k \<le> 64"
  shows "(unat (p + of_nat n :: u64) + i) mod 2 ^ k = (unat p + n + i) mod 2 ^ k"
proof -
  have dvd: "(2::nat) ^ k dvd 2 ^ 64" using assms by (simp only: le_imp_power_dvd)
  have "unat (p + of_nat n) = (unat p + unat (of_nat n :: u64)) mod 2 ^ 64"
    by (simp add: unat_word_ariths)
  moreover have "unat (of_nat n :: u64) = n mod 2 ^ 64"
    by (simp add: unsigned_of_nat take_bit_eq_mod)
  ultimately have "unat (p + of_nat n) mod 2 ^ 64 = (unat p + n) mod 2 ^ 64"
    by (simp add: mod_simps)
  then have "unat (p + of_nat n) mod 2 ^ k = (unat p + n) mod 2 ^ k"
    using mod_mod_cancel [OF dvd, of "unat (p + of_nat n)"] mod_mod_cancel [OF dvd, of "unat p + n"]
    by (simp only:)
  then show ?thesis by (simp only: mod_add_left_eq [of "unat (p + of_nat n)" _ i, symmetric]
        mod_add_left_eq [of "unat p + n" _ i, symmetric])
qed

lemma rb_copyOut_eq:
  assumes "rb_ok rb" and "count \<le> rb_capacity rb"
  shows "rb_copyOut pos count rb =
    map (\<lambda>i. rb_data rb ! ((unat pos + i) mod rb_capacity rb)) [0..<count]"
proof -
  from assms obtain k where k: "rb_capacity rb = 2 ^ k" "k < 64" and
    len: "length (rb_data rb) = rb_capacity rb"
    by (auto simp: rb_ok_def)
  define c where "c = rb_capacity rb"
  define off where "off = unat pos mod c"
  have off: "unat (pos AND rb_mask rb) = off" "off < c"
    using rb_index [OF k] k by (simp_all add: off_def c_def)
  have ix: "(unat pos + i) mod c = (if off + i < c then off + i else off + i - c)"
    if "i < count" for i
  proof -
    have "(unat pos + i) mod c = (off + i) mod c" by (simp add: off_def mod_simps)
    then show ?thesis using that assms(2) off by (auto simp: c_def le_mod_geq)
  qed
  have co: "rb_copyOut pos count rb = take (min count (c - off)) (drop off (rb_data rb)) @
      take (count - min count (c - off)) (rb_data rb)"
    using off by (auto simp: rb_copyOut_def Let_def c_def [symmetric])
  show ?thesis
  proof (rule nth_equalityI)
    show "length (rb_copyOut pos count rb) =
        length (map (\<lambda>i. rb_data rb ! ((unat pos + i) mod rb_capacity rb)) [0..<count])"
      using assms(2) off(2) len by (simp add: co c_def [symmetric])
  next
    fix i
    assume "i < length (rb_copyOut pos count rb)"
    then have i: "i < count"
      using assms(2) off(2) len by (simp add: co c_def [symmetric])
    show "rb_copyOut pos count rb ! i =
        map (\<lambda>i. rb_data rb ! ((unat pos + i) mod rb_capacity rb)) [0..<count] ! i"
    proof (cases "off + i < c")
      case True
      then have "i < min count (c - off)" using i by simp
      with True show ?thesis
        using i ix [OF i] len off(2) by (simp add: co nth_append c_def [symmetric])
    next
      case False
      then have m: "min count (c - off) = c - off" "i - (c - off) < count - (c - off)"
        "\<not> i < c - off" "off + i - c = i - (c - off)"
        using i assms(2) off(2) by (simp_all add: c_def [symmetric])
      have "rb_copyOut pos count rb ! i = rb_data rb ! (i - (c - off))"
        using m len off(2) by (simp add: co nth_append c_def [symmetric])
      moreover have "(unat pos + i) mod rb_capacity rb = i - (c - off)"
        using False ix [OF i] m(4) by (simp add: c_def [symmetric])
      ultimately show ?thesis
        using i by simp
    qed
  qed
qed

lemma rb_copyIn_nth:
  assumes "rb_ok rb" and "length src \<le> rb_capacity rb" and "i < rb_capacity rb"
  shows "rb_copyIn pos src rb ! i =
    (let j = (i + rb_capacity rb - unat pos mod rb_capacity rb) mod rb_capacity rb
     in if j < length src then src ! j else rb_data rb ! i)"
proof -
  from assms obtain k where k: "rb_capacity rb = 2 ^ k" "k < 64" and
    len: "length (rb_data rb) = rb_capacity rb"
    by (auto simp: rb_ok_def)
  define c where "c = rb_capacity rb"
  define off where "off = unat pos mod c"
  have off: "unat (pos AND rb_mask rb) = off" "off < c"
    using rb_index [OF k] k by (simp_all add: off_def c_def)
  have j: "(i + c - off) mod c = (if off \<le> i then i - off else i + c - off)"
    using assms(3) off by (auto simp: c_def le_mod_geq)
  define f where "f = min (length src) (c - off)"
  have l: "length (rb_data rb) = c" "i < c" "length src \<le> c"
    using len assms by (simp_all add: c_def)
  have ci: "rb_copyIn pos src rb = blit 0 (drop f src) (blit off (take f src) (rb_data rb))"
    using off by (auto simp: rb_copyIn_def Let_def c_def [symmetric] f_def min_def)
  have "rb_copyIn pos src rb ! i =
      (if i < length src - f then src ! (f + i)
       else if off \<le> i \<and> i < off + f then src ! (i - off) else rb_data rb ! i)"
  proof -
    have f: "f \<le> length src" "off + f \<le> c" "length src - f \<le> c"
      using l off(2) by (auto simp: f_def)
    have inner: "blit off (take f src) (rb_data rb) ! i =
        (if off \<le> i \<and> i < off + f then src ! (i - off) else rb_data rb ! i)"
      using f l by (subst nth_blit) auto
    show ?thesis
      using f l inner unfolding ci by (subst nth_blit) auto
  qed
  moreover have "i < length src - f \<Longrightarrow> \<not> off \<le> i \<and> f + i = i + c - off \<and> i + c - off < length src"
    using l off(2) by (auto simp: f_def)
  moreover have "\<not> i < length src - f \<Longrightarrow> i < off \<Longrightarrow> \<not> i + c - off < length src"
    using l off(2) by (auto simp: f_def)
  moreover have "off \<le> i \<Longrightarrow> i < off + f \<longleftrightarrow> i - off < length src"
    using l off(2) by (auto simp: f_def)
  ultimately show ?thesis
    unfolding c_def [symmetric] off_def [symmetric] j Let_def by auto
qed

lemma length_rb_copyIn:
  assumes "rb_ok rb" and "length src \<le> rb_capacity rb"
  shows "length (rb_copyIn pos src rb) = rb_capacity rb"
proof -
  from assms obtain k where k: "rb_capacity rb = 2 ^ k" "k < 64" and
    len: "length (rb_data rb) = rb_capacity rb"
    by (auto simp: rb_ok_def)
  have "unat (pos AND rb_mask rb) < rb_capacity rb"
    using rb_index [OF k] k by simp
  with assms len show ?thesis
    by (auto simp: rb_copyIn_def Let_def min_def)
qed

section \<open>Refinement of a bounded queue\<close>

text \<open>The specification: append, then keep the newest \<open>cap\<close> items.\<close>

definition q_keep :: "nat \<Rightarrow> 'a list \<Rightarrow> 'a list" where
  "q_keep cap xs = drop (length xs - cap) xs"

lemma rb_okE:
  assumes "rb_ok rb"
  obtains k where "rb_capacity rb = 2 ^ k" "k < 63" "length (rb_data rb) = rb_capacity rb"
    "rb_available rb \<le> rb_capacity rb" "rb_capacity rb < 2 ^ 63"
proof -
  from assms obtain k where k: "rb_capacity rb = 2 ^ k" "k < 63"
      "length (rb_data rb) = rb_capacity rb" "rb_available rb \<le> rb_capacity rb"
    by (auto simp: rb_ok_def)
  then have "rb_capacity rb < 2 ^ 63"
    by (simp only: power_strict_increasing)
  with k that show thesis by blast
qed

lemma rb_write_core:
  fixes rb :: "'a ring_buffer" and d :: u64
  assumes ok: "rb_ok rb" and len: "length src \<le> rb_capacity rb"
  defines "ov \<equiv> rb_available rb + length src - rb_capacity rb"
  defines "rb' \<equiv> rb\<lparr>rb_read_ix := rb_read_ix rb + of_nat ov,
                     rb_data := rb_copyIn (rb_write_ix rb) src rb,
                     rb_write_ix := rb_write_ix rb + of_nat (length src), rb_overruns := d\<rparr>"
  shows "rb_ok rb'" and "rb_contents rb' = q_keep (rb_capacity rb) (rb_contents rb @ src)"
proof -
  obtain k where k: "rb_capacity rb = 2 ^ k" "k < 63" "length (rb_data rb) = rb_capacity rb"
      "rb_available rb \<le> rb_capacity rb" and big: "rb_capacity rb < 2 ^ 63"
    using ok by (rule rb_okE)
  define c w r u where "c = rb_capacity rb" and "w = rb_write_ix rb" and "r = rb_read_ix rb"
    and "u = rb_available rb"
  have u: "unat (w - r) = u" "u \<le> c" "length src \<le> c" "c < 2 ^ 63" "0 < c" "ov = u + length src - c"
    using k(4) len big k(1) by (simp_all add: u_def w_def r_def c_def rb_available_def ov_def)
  have "unat (w + of_nat (length src) - r) = u + length src"
    using u by (subst unat_diff_add) simp_all
  then have av: "unat (w + of_nat (length src) - (r + of_nat ov)) = u + length src - ov"
    using u by (subst unat_diff_sub) simp_all
  then have av': "rb_available rb' = u + length src - ov"
    by (simp add: rb'_def rb_available_def w_def r_def)
  then show "rb_ok rb'"
    using k u length_rb_copyIn [OF ok len]
    by (auto simp: rb_ok_def rb'_def c_def u_def)
  show "rb_contents rb' = q_keep (rb_capacity rb) (rb_contents rb @ src)"
  proof (rule nth_equalityI)
    show "length (rb_contents rb') = length (q_keep (rb_capacity rb) (rb_contents rb @ src))"
      using u by (simp add: av' q_keep_def c_def [symmetric] u_def [symmetric])
  next
    fix i
    assume "i < length (rb_contents rb')"
    then have i: "i < u + length src - ov" by (simp add: av')
    define p where "p = (unat r + (ov + i)) mod c"
    have p: "(unat (r + of_nat ov) + i) mod c = p"
      using rb_index_add [of k r ov i] k by (simp add: c_def p_def add.assoc)
    have "w = r + of_nat u" by (simp add: u(1) [symmetric])
    then have off: "unat w mod c = (unat r + u) mod c"
      using rb_index_add [of k r u 0] k by (simp add: c_def)
    have L: "rb_contents rb' ! i = rb_copyIn w src rb ! p"
      using i av' p unfolding rb_contents_def
      by (simp only: length_upt nth_map_upt diff_zero add_0) (simp add: rb'_def c_def w_def r_def)
    have pc: "p < c" using u(5) by (simp add: p_def)
    have L2: "rb_contents rb' ! i =
        (let j = (p + c - (unat r + u) mod c) mod c in if j < length src then src ! j else rb_data rb ! p)"
      unfolding L using rb_copyIn_nth [OF ok len, of p w] pc off by (simp add: c_def)
    have Q: "q_keep (rb_capacity rb) (rb_contents rb @ src) ! i = (rb_contents rb @ src) ! (ov + i)"
      using u(6) u(2,3)
      by (simp add: q_keep_def c_def [symmetric] u_def [symmetric] nth_drop del: drop_append)
    show "rb_contents rb' ! i = q_keep (rb_capacity rb) (rb_contents rb @ src) ! i"
    proof (cases "u \<le> ov + i")
      case True
      then have "(p + c - (unat r + u) mod c) mod c = ov + i - u"
        using mod_diff_fwd [of c "unat r + u" "ov + i - u"] u(5) i u by (simp add: p_def)
      moreover have j: "ov + i - u < length src" "ov + i - u = i - (u - ov)" "\<not> i < u - ov"
        using True i u by linarith+
      moreover have "q_keep (rb_capacity rb) (rb_contents rb @ src) ! i = src ! (ov + i - u)"
        using True
        by (simp only: Q nth_append length_rb_contents u_def [symmetric] not_less [symmetric] if_False)
      ultimately show ?thesis
        by (simp only: L2 Let_def if_True)
    next
      case False
      then have "(p + c - (unat r + u) mod c) mod c = c - (u - (ov + i))"
        using mod_diff_bwd [of "u - (ov + i)" c "unat r + (ov + i)"] u by (simp add: p_def)
      moreover have "rb_contents rb ! (ov + i) = rb_data rb ! p"
        using False by (simp add: rb_contents_def u_def p_def c_def r_def)
      moreover have "\<not> c - (u - (ov + i)) < length src"
        using False u by linarith
      moreover have "q_keep (rb_capacity rb) (rb_contents rb @ src) ! i = rb_contents rb ! (ov + i)"
        using False unfolding Q by (simp add: nth_append u_def [symmetric])
      ultimately show ?thesis
        by (simp add: L2)
    qed
  qed
qed

lemma q_keep_drop:
  "q_keep cap (xs @ drop (length ys - cap) ys) = q_keep cap (xs @ ys)" if "length xs \<le> cap"
  using that by (cases "length ys \<le> cap") (auto simp: q_keep_def)

lemma rb_write_correct:
  assumes ok: "rb_ok rb"
  shows "rb_ok (snd (rb_write src rb))"
    and "rb_contents (snd (rb_write src rb)) = q_keep (rb_capacity rb) (rb_contents rb @ src)"
    and "fst (rb_write src rb) = rb_available rb + length src - rb_capacity rb"
    and "rb_capacity (snd (rb_write src rb)) = rb_capacity rb"
    and "rb_overruns (snd (rb_write src rb)) = rb_overruns rb + of_nat (fst (rb_write src rb))"
proof -
  obtain k where k: "rb_capacity rb = 2 ^ k" "rb_available rb \<le> rb_capacity rb"
    using ok by (rule rb_okE)
  define src' where "src' = drop (length src - rb_capacity rb) src"
  have src': "length src' \<le> rb_capacity rb" by (simp add: src'_def)
  note core = rb_write_core [OF ok src']
  have eq: "rb_write src rb =
      (rb_available rb + length src - rb_capacity rb,
       rb\<lparr>rb_read_ix := rb_read_ix rb + of_nat (rb_available rb + length src' - rb_capacity rb),
          rb_data := rb_copyIn (rb_write_ix rb) src' rb,
          rb_write_ix := rb_write_ix rb + of_nat (length src'),
          rb_overruns := rb_overruns rb + of_nat (rb_available rb + length src - rb_capacity rb)\<rparr>)"
    if "src \<noteq> []"
  proof -
    have "(if rb_capacity rb < length src then length src - rb_capacity rb else 0)
        = length src - rb_capacity rb"
      by simp
    moreover have "(if rb_available rb + length src' > rb_capacity rb
        then rb_available rb + length src' - rb_capacity rb else 0)
        = rb_available rb + length src' - rb_capacity rb"
      by simp
    moreover have "length src - rb_capacity rb + (rb_available rb + length src' - rb_capacity rb)
        = rb_available rb + length src - rb_capacity rb"
      using k(2) by (simp add: src'_def)
    ultimately show ?thesis
      using that by (simp only: rb_write_def Let_def if_False src'_def [symmetric]
          rb_available_def [symmetric])
  qed
  show "rb_ok (snd (rb_write src rb))"
    using ok core(1) by (cases "src = []") (simp add: rb_write_def, simp add: eq)
  show "rb_contents (snd (rb_write src rb)) = q_keep (rb_capacity rb) (rb_contents rb @ src)"
  proof (cases "src = []")
    case True
    then show ?thesis using k(2) by (simp add: rb_write_def q_keep_def)
  next
    case False
    then show ?thesis
      using core(2) q_keep_drop [of "rb_contents rb" "rb_capacity rb" src] k(2)
      by (simp add: eq src'_def)
  qed
  show "fst (rb_write src rb) = rb_available rb + length src - rb_capacity rb"
    using k(2) by (cases "src = []") (simp add: rb_write_def, simp add: eq)
  show "rb_capacity (snd (rb_write src rb)) = rb_capacity rb"
    by (simp add: rb_write_def Let_def)
  show "rb_overruns (snd (rb_write src rb)) = rb_overruns rb + of_nat (fst (rb_write src rb))"
    by (simp add: rb_write_def Let_def)
qed

lemma rb_read_correct:
  assumes ok: "rb_ok rb"
  shows "rb_ok (snd (rb_read count rb))"
    and "fst (rb_read count rb) = take count (rb_contents rb)"
    and "rb_contents (snd (rb_read count rb)) = drop count (rb_contents rb)"
    and "rb_capacity (snd (rb_read count rb)) = rb_capacity rb"
    and "rb_underruns (snd (rb_read count rb)) =
         rb_underruns rb + of_nat (count - length (fst (rb_read count rb)))"
proof -
  obtain k where k: "rb_capacity rb = 2 ^ k" "k < 63" "length (rb_data rb) = rb_capacity rb"
      "rb_available rb \<le> rb_capacity rb"
    using ok by (rule rb_okE)
  define n where "n = min (rb_available rb) count"
  have n: "(if rb_available rb < count then rb_available rb else count) = n"
    by (simp add: n_def)
  have eq: "rb_read count rb =
      (rb_copyOut (rb_read_ix rb) n rb,
       rb\<lparr>rb_read_ix := rb_read_ix rb + of_nat n,
          rb_underruns := rb_underruns rb + (if n < count then of_nat (count - n) else 0)\<rparr>)"
    by (simp only: rb_read_def Let_def rb_available_def [symmetric] n)
  have av: "unat (rb_write_ix rb - (rb_read_ix rb + of_nat n)) = rb_available rb - n"
    by (subst unat_diff_sub) (simp_all add: n_def rb_available_def)
  have out: "rb_copyOut (rb_read_ix rb) n rb =
      map (\<lambda>i. rb_data rb ! ((unat (rb_read_ix rb) + i) mod rb_capacity rb)) [0..<n]"
    by (rule rb_copyOut_eq [OF ok]) (use k(4) in \<open>simp add: n_def\<close>)
  show "rb_ok (snd (rb_read count rb))"
    using k av by (auto simp: rb_ok_def eq rb_available_def)
  show "fst (rb_read count rb) = take count (rb_contents rb)"
    unfolding eq fst_conv out by (simp add: rb_contents_def take_map n_def take_upt min_def)
  show "rb_contents (snd (rb_read count rb)) = drop count (rb_contents rb)"
  proof (rule nth_equalityI)
    show "length (rb_contents (snd (rb_read count rb))) = length (drop count (rb_contents rb))"
      using av by (simp add: eq rb_available_def n_def)
  next
    fix i
    assume "i < length (rb_contents (snd (rb_read count rb)))"
    then have i: "i < rb_available rb - n" and c: "n = count"
      using av by (simp_all add: eq rb_available_def n_def)
    have "(unat (rb_read_ix rb + of_nat n) + i) mod rb_capacity rb =
        (unat (rb_read_ix rb) + n + i) mod rb_capacity rb"
      using rb_index_add [of k "rb_read_ix rb" n i] k by simp
    with i c av show "rb_contents (snd (rb_read count rb)) ! i = drop count (rb_contents rb) ! i"
      by (simp add: eq rb_contents_def rb_available_def add.assoc nth_drop nth_upt less_diff_conv
          add.commute [of count] del: upt_Suc)
  qed
  show "rb_capacity (snd (rb_read count rb)) = rb_capacity rb"
    by (simp add: eq)
  show "rb_underruns (snd (rb_read count rb)) =
      rb_underruns rb + of_nat (count - length (fst (rb_read count rb)))"
    by (simp add: eq out)
qed

lemma rb_clear_correct:
  assumes "rb_ok rb"
  shows "rb_ok (rb_clear rb)" and "rb_contents (rb_clear rb) = []"
    and "rb_capacity (rb_clear rb) = rb_capacity rb"
  using assms by (auto simp: rb_ok_def rb_clear_def rb_contents_def rb_available_def)

lemma rb_readOrSilence_correct:
  assumes "rb_ok rb"
  shows "rb_readOrSilence z count rb =
    (min (rb_available rb) count,
     take count (rb_contents rb) @ replicate (count - rb_available rb) z,
     snd (rb_read count rb))"
  using rb_read_correct(2) [OF assms, of count]
  by (cases "rb_read count rb") (auto simp: rb_readOrSilence_def min_def)

lemma rb_new_correct:
  assumes "0 < capacity" and "capacity \<le> 2 ^ 62"
  shows "\<exists>rb. rb_new z capacity = Some rb \<and> rb_ok rb \<and> rb_contents rb = [] \<and>
    unat capacity \<le> rb_capacity rb \<and> rb_capacity rb < 2 * unat capacity"
proof -
  have c: "capacity \<le> push_bit 62 (1::u64)"
    using assms(2) by (simp add: push_bit_eq_mult)
  obtain n where n: "n \<le> 62" "roundUpPow2 capacity = Some (push_bit n 1)"
      "capacity \<le> push_bit n 1" "0 < n \<longrightarrow> push_bit (n - 1) 1 < capacity"
    using pow2_loop_terminates [of 0 62 capacity] c unfolding roundUpPow2_def
    by auto
  define rb where "rb = \<lparr>rb_capacity = unat (push_bit n (1::u64)),
    rb_data = replicate (unat (push_bit n (1::u64))) z,
    rb_write_ix = 0, rb_read_ix = 0, rb_overruns = 0, rb_underruns = 0\<rparr>"
  have cap: "rb_capacity rb = 2 ^ n"
    using n(1) by (simp add: rb_def unat_push_bit_1 del: push_bit_of_1)
  have "rb_new z capacity = Some rb"
    by (simp only: rb_new_def n(2) option.map(2) rb_def)
  moreover have "rb_ok rb"
    using n(1) cap by (auto simp: rb_ok_def rb_def rb_available_def intro: exI [of _ n])
  moreover have "rb_contents rb = []"
    by (simp add: rb_contents_def rb_available_def rb_def)
  moreover have "unat capacity \<le> rb_capacity rb"
    using n(1,3) cap by (simp only: word_le_nat_alt unat_push_bit_1 [of n])
  moreover have "rb_capacity rb < 2 * unat capacity"
  proof (cases n)
    case 0
    then show ?thesis using cap assms(1) by (simp add: word_less_nat_alt)
  next
    case (Suc m)
    then have "2 ^ m < unat capacity"
      using n(1,4) by (simp only: word_less_nat_alt diff_Suc_1 unat_push_bit_1 zero_less_Suc simp_thms)
    with Suc cap show ?thesis by simp
  qed
  ultimately show ?thesis by blast
qed

lemma roundUpPow2_diverges:
  assumes "2 ^ 63 < v"
  shows "roundUpPow2 v = None"
proof (rule ccontr)
  assume "roundUpPow2 v \<noteq> None"
  then obtain n r where r: "v \<le> r" "r = push_bit n (1::u64)"
    using pow2_loop_result [of 1 v] by (auto simp: roundUpPow2_def)
  have "r \<le> 2 ^ 63"
  proof (cases "n \<le> 63")
    case True
    then have "unat r \<le> 2 ^ 63"
      unfolding r(2) by (subst unat_push_bit_1) (simp, simp only: power_increasing)
    then show ?thesis by (simp add: word_le_nat_alt)
  next
    case False
    then have "r = 0"
      unfolding r(2) by (simp add: push_bit_eq_mult) 
    then show ?thesis by simp
  qed
  with assms r(1) show False by simp
qed

section \<open>Any history of calls\<close>

text \<open>
  A history is a list of calls. \<open>q_exec\<close> runs it on any implementation of the three calls
  and collects the items read, the number of items the writes reported as dropped, and the
  number of items cleared away.
\<close>

datatype 'a q_call = Q_Write "'a list" | Q_Read nat | Q_Clear

fun q_exec ::
  "('a list \<Rightarrow> 's \<Rightarrow> nat \<times> 's) \<Rightarrow> (nat \<Rightarrow> 's \<Rightarrow> 'a list \<times> 's) \<Rightarrow> ('s \<Rightarrow> 's) \<Rightarrow>
   'a q_call list \<Rightarrow> 's \<Rightarrow> 'a list \<times> nat \<times> 's" where
  "q_exec wr rd clr [] s = ([], 0, s)"
| "q_exec wr rd clr (Q_Write xs # cs) s =
     (case wr xs s of (d, s') \<Rightarrow>
        case q_exec wr rd clr cs s' of (out, dr, s'') \<Rightarrow> (out, d + dr, s''))"
| "q_exec wr rd clr (Q_Read n # cs) s =
     (case rd n s of (ys, s') \<Rightarrow>
        case q_exec wr rd clr cs s' of (out, dr, s'') \<Rightarrow> (ys @ out, dr, s''))"
| "q_exec wr rd clr (Q_Clear # cs) s = q_exec wr rd clr cs (clr s)"

fun q_written :: "'a q_call list \<Rightarrow> 'a list" where
  "q_written [] = []"
| "q_written (Q_Write xs # cs) = xs @ q_written cs"
| "q_written (_ # cs) = q_written cs"

fun q_no_clear :: "'a q_call list \<Rightarrow> bool" where
  "q_no_clear [] = True"
| "q_no_clear (Q_Clear # cs) = False"
| "q_no_clear (_ # cs) = q_no_clear cs"

text \<open>The contract: a bounded queue whose writes drop the oldest items.\<close>

locale drop_oldest_queue =
  fixes wr :: "'a list \<Rightarrow> 's \<Rightarrow> nat \<times> 's"
    and rd :: "nat \<Rightarrow> 's \<Rightarrow> 'a list \<times> 's"
    and clr :: "'s \<Rightarrow> 's"
    and contents :: "'s \<Rightarrow> 'a list"
    and cap :: "'s \<Rightarrow> nat"
    and ok :: "'s \<Rightarrow> bool"
  assumes ok_bound: "ok s \<Longrightarrow> length (contents s) \<le> cap s"
    and ok_wr: "ok s \<Longrightarrow> ok (snd (wr xs s))"
    and ok_rd: "ok s \<Longrightarrow> ok (snd (rd n s))"
    and ok_clr: "ok s \<Longrightarrow> ok (clr s)"
    and cap_wr: "ok s \<Longrightarrow> cap (snd (wr xs s)) = cap s"
    and cap_rd: "ok s \<Longrightarrow> cap (snd (rd n s)) = cap s"
    and wr_contents: "ok s \<Longrightarrow> contents (snd (wr xs s)) = q_keep (cap s) (contents s @ xs)"
    and wr_dropped: "ok s \<Longrightarrow> fst (wr xs s) = length (contents s) + length xs - cap s"
    and rd_items: "ok s \<Longrightarrow> fst (rd n s) = take n (contents s)"
    and rd_contents: "ok s \<Longrightarrow> contents (snd (rd n s)) = drop n (contents s)"
    and clr_contents: "ok s \<Longrightarrow> contents (clr s) = []"
begin

abbreviation exec :: "'a q_call list \<Rightarrow> 's \<Rightarrow> 'a list \<times> nat \<times> 's" where
  "exec \<equiv> q_exec wr rd clr"

lemma exec_Write:
  "exec (Q_Write xs # cs) s =
     (let t = snd (wr xs s)
      in (fst (exec cs t), fst (wr xs s) + fst (snd (exec cs t)), snd (snd (exec cs t))))"
  by (simp add: Let_def split: prod.split)

lemma exec_Read:
  "exec (Q_Read n # cs) s =
     (let t = snd (rd n s)
      in (fst (rd n s) @ fst (exec cs t), fst (snd (exec cs t)), snd (snd (exec cs t))))"
  by (simp add: Let_def split: prod.split)

lemma exec_ok: "ok s \<Longrightarrow> ok (snd (snd (exec cs s)))"
proof (induction cs arbitrary: s)
  case (Cons c cs)
  then show ?case
    by (cases c) (simp_all add: exec_Write exec_Read Let_def ok_wr ok_rd ok_clr del: q_exec.simps(2,3))
qed simp

text \<open>What is read, followed by what is still queued, was queued or written, in that order.\<close>

lemma exec_subseq:
  "ok s \<Longrightarrow> subseq (fst (exec cs s) @ contents (snd (snd (exec cs s)))) (contents s @ q_written cs)"
proof (induction cs arbitrary: s)
  case (Cons c cs)
  show ?case
  proof (cases c)
    case (Q_Write xs)
    have "subseq (contents (snd (wr xs s))) (contents s @ xs)"
      unfolding wr_contents [OF Cons.prems] q_keep_def
      by (metis append_take_drop_id list_emb_append2 subseq_order.refl)
    then have "subseq (contents (snd (wr xs s)) @ q_written cs) ((contents s @ xs) @ q_written cs)"
      by (rule list_emb_append_mono) (rule subseq_order.refl)
    with Cons.IH [OF ok_wr [OF Cons.prems]] show ?thesis
      unfolding Q_Write exec_Write Let_def fst_conv snd_conv q_written.simps append_assoc
      by (rule subseq_order.trans)
  next
    case (Q_Read n)
    have "subseq (fst (exec cs (snd (rd n s))) @ contents (snd (snd (exec cs (snd (rd n s))))))
                 (drop n (contents s) @ q_written cs)"
      using Cons.IH [OF ok_rd [OF Cons.prems]] by (simp only: rd_contents [OF Cons.prems])
    then have "subseq (take n (contents s) @ fst (exec cs (snd (rd n s))) @
                        contents (snd (snd (exec cs (snd (rd n s))))))
                 (take n (contents s) @ drop n (contents s) @ q_written cs)"
      by (rule list_emb_append_mono [OF subseq_order.refl])
    moreover have "take n (contents s) @ drop n (contents s) @ q_written cs = contents s @ q_written cs"
      by (metis append_assoc append_take_drop_id)
    ultimately show ?thesis
      by (simp only: Q_Read exec_Read rd_items [OF Cons.prems] Let_def fst_conv snd_conv
          append_assoc q_written.simps)
  next
    case Q_Clear
    have "subseq (q_written cs) (contents s @ q_written cs)"
      by (rule list_emb_append2) (rule subseq_order.refl)
    with Cons.IH [OF ok_clr [OF Cons.prems]] show ?thesis
      by (auto simp: Q_Clear clr_contents [OF Cons.prems] intro: subseq_order.trans)
  qed
qed simp

text \<open>Nothing is lost silently: without a clear, every item written is read, queued or counted.\<close>

lemma exec_conservation:
  "ok s \<Longrightarrow> q_no_clear cs \<Longrightarrow>
   length (contents s) + length (q_written cs) =
   length (fst (exec cs s)) + fst (snd (exec cs s)) + length (contents (snd (snd (exec cs s))))"
proof (induction cs arbitrary: s)
  case (Cons c cs)
  show ?case
  proof (cases c)
    case (Q_Write xs)
    have "length (contents (snd (wr xs s))) + fst (wr xs s) = length (contents s) + length xs"
      using ok_bound [OF Cons.prems(1)]
      by (simp add: wr_contents wr_dropped Cons.prems(1) q_keep_def)
    then show ?thesis
      using Cons.IH [OF ok_wr [OF Cons.prems(1), of xs]] Cons.prems(2) Q_Write
      by (simp add: exec_Write Let_def del: q_exec.simps)
  next
    case (Q_Read n)
    have "length (contents (snd (rd n s))) + length (fst (rd n s)) = length (contents s)"
      by (simp add: rd_contents rd_items Cons.prems(1))
    then show ?thesis
      using Cons.IH [OF ok_rd [OF Cons.prems(1), of n]] Cons.prems(2) Q_Read
      by (simp add: exec_Read Let_def del: q_exec.simps)
  qed (use Cons.prems in simp)
qed simp

end

text \<open>The ring is such a queue.\<close>

interpretation ring: drop_oldest_queue rb_write rb_read rb_clear rb_contents rb_capacity rb_ok
proof
  fix s :: "'a ring_buffer"
  assume ok: "rb_ok s"
  show "length (rb_contents s) \<le> rb_capacity s"
    using ok by (simp add: rb_ok_def)
qed (simp_all add: rb_write_correct rb_read_correct rb_clear_correct)

abbreviation ring_exec ::
  "'a q_call list \<Rightarrow> 'a ring_buffer \<Rightarrow> 'a list \<times> nat \<times> 'a ring_buffer" where
  "ring_exec \<equiv> q_exec rb_write rb_read rb_clear"

lemma rb_new_ok:
  assumes "rb_new z capacity = Some rb" and "0 < capacity" and "capacity \<le> 2 ^ 62"
  shows "rb_ok rb" and "rb_contents rb = []"
    and "unat capacity \<le> rb_capacity rb" and "rb_capacity rb < 2 * unat capacity"
  using rb_new_correct [OF assms(2,3), of z] assms(1) by auto

lemma rb_new_3: "rb_new z 3 = Some \<lparr>rb_capacity = 4, rb_data = [z, z, z, z],
    rb_write_ix = 0, rb_read_ix = 0, rb_overruns = 0, rb_underruns = 0\<rparr>"
proof -
  have "pow2_loop 1 3 = Some 4"
    by (subst pow2_loop.simps, simp, subst pow2_loop.simps, simp, subst pow2_loop.simps, simp)
  then show ?thesis
    by (simp add: rb_new_def roundUpPow2_def) (simp add: numeral_eq_Suc)
qed

text \<open>
  C4: the ring refines a bounded drop-oldest queue. On a well-formed ring, \<open>write\<close> appends and
  keeps the newest \<open>capacity\<close> items, reporting and counting exactly the items it dropped;
  \<open>read\<close> takes from the front and \<open>readOrSilence\<close> always fills the caller's buffer, padding
  with zeros; the ring stays well formed although both indices wrap at 64 bits.
\<close>

theorem ring_refines_drop_oldest_queue:
  assumes "rb_ok rb"
  shows "rb_ok (snd (rb_write src rb)) \<and>
    rb_contents (snd (rb_write src rb)) = q_keep (rb_capacity rb) (rb_contents rb @ src) \<and>
    fst (rb_write src rb) = rb_available rb + length src - rb_capacity rb \<and>
    rb_overruns (snd (rb_write src rb)) = rb_overruns rb + of_nat (fst (rb_write src rb)) \<and>
    rb_ok (snd (rb_read n rb)) \<and>
    rb_contents (snd (rb_read n rb)) = drop n (rb_contents rb) \<and>
    rb_readOrSilence z n rb =
      (min (rb_available rb) n,
       take n (rb_contents rb) @ replicate (n - rb_available rb) z, snd (rb_read n rb)) \<and>
    rb_ok (rb_clear rb) \<and> rb_contents (rb_clear rb) = []"
  by (intro conjI rb_write_correct rb_read_correct rb_readOrSilence_correct rb_clear_correct assms)

theorem ring_refines_drop_oldest_queue_witness:
  "let rb = \<lparr>rb_capacity = 2, rb_data = [5, 6 :: nat], rb_write_ix = 1, rb_read_ix = 18446744073709551615,
             rb_overruns = 0, rb_underruns = 0\<rparr>
   in rb_contents rb = [6, 5] \<and> rb_contents (snd (rb_write [7] rb)) = [5, 7]"
proof -
  let ?rb = "\<lparr>rb_capacity = 2, rb_data = [5, 6 :: nat], rb_write_ix = 1, rb_read_ix = 18446744073709551615,
             rb_overruns = 0, rb_underruns = 0\<rparr> :: nat ring_buffer"
  have c: "rb_contents ?rb = [6, 5]"
    by (simp add: rb_contents_def rb_available_def upt_rec)
  have "rb_ok ?rb"
    by (auto simp: rb_ok_def rb_available_def intro!: exI [of _ "1::nat"])
  then have "rb_contents (snd (rb_write [7] ?rb)) = q_keep (rb_capacity ?rb) (rb_contents ?rb @ [7])"
    by (intro ring_refines_drop_oldest_queue [THEN conjunct2, THEN conjunct1])
  then have "rb_contents (snd (rb_write [7] ?rb)) = q_keep 2 ([6, 5] @ [7])"
    by (simp only: c ring_buffer.simps)
  with c show ?thesis by (simp add: q_keep_def Let_def)
qed

text \<open>
  C5: over any history of calls on a freshly built ring the consumer sees written items in
  order, none twice and none invented; the ring never holds more than its capacity; and
  without a \<open>clear\<close> every item written is accounted for as read, still queued, or reported
  dropped.
\<close>

theorem ring_history_fifo_and_conservation:
  assumes "rb_new z capacity = Some rb" and "0 < capacity" and "capacity \<le> 2 ^ 62"
    and "ring_exec calls rb = (out, dropped, rb')"
  shows "subseq (out @ rb_contents rb') (q_written calls) \<and>
    rb_available rb' \<le> rb_capacity rb' \<and>
    (q_no_clear calls \<longrightarrow> length (q_written calls) = length out + dropped + rb_available rb')"
proof (intro conjI impI)
  note new = rb_new_ok [OF assms(1-3)]
  show "subseq (out @ rb_contents rb') (q_written calls)"
    using ring.exec_subseq [OF new(1), of calls] by (simp add: assms(4) new(2))
  show "rb_available rb' \<le> rb_capacity rb'"
    using ring.ok_bound [OF ring.exec_ok [OF new(1), of calls]] by (simp add: assms(4))
  assume "q_no_clear calls"
  then show "length (q_written calls) = length out + dropped + rb_available rb'"
    using ring.exec_conservation [OF new(1), of calls] by (simp add: assms(4) new(2))
qed

theorem ring_history_fifo_and_conservation_witness:
  "\<exists>rb out dropped rb'. rb_new (0::nat) 3 = Some rb \<and>
     ring_exec [Q_Write [1, 2, 3, 4, 5, 6], Q_Read 2] rb = (out, dropped, rb') \<and>
     subseq (out @ rb_contents rb') [1, 2, 3, 4, 5, 6] \<and> 6 = length out + dropped + rb_available rb'"
proof -
  obtain rb where rb: "rb_new (0::nat) 3 = Some rb" by (simp add: rb_new_3)
  obtain out dropped rb' where
    ex: "ring_exec [Q_Write [1, 2, 3, 4, 5, 6], Q_Read 2] rb = (out, dropped, rb')"
    by (metis prod_cases3)
  show ?thesis
    using ring_history_fifo_and_conservation [OF rb _ _ ex] rb ex
    by (intro exI [of _ rb] exI [of _ out] exI [of _ dropped] exI [of _ rb']) simp
qed

end
