(* ===== verification/Floats.thy ===== *)
theory Floats
  imports Prelude
begin

text \<open>
  The floating-point arithmetic of the audio code. A \<open>float\<close> or \<open>double\<close> is the real number
  it denotes, and every operation of the source is followed by the rounding of its type:
  \<open>f32\<close> and \<open>f64\<close> round to nearest, ties to even, with the precision and the subnormal range
  of IEEE binary32 and binary64. The component definitions take the rounding as a parameter,
  so that a statement can be made for the rounding of the type, for every rounding with the
  laws of the locale \<open>rounding\<close>, or for exact arithmetic (\<open>\<lambda>x. x\<close>). Infinities and NaN are
  outside the model: the audio path works on values of magnitude about one. The standard
  library's \<open>sin\<close> and \<open>cos\<close> are the correctly rounded functions.
\<close>

section \<open>Rounding to nearest\<close>

definition rne :: "real \<Rightarrow> int" where
  "rne x = (let f = \<lfloor>x\<rfloor>; d = x - of_int f in
     if d < 1 / 2 then f else if d > 1 / 2 then f + 1 else if even f then f else f + 1)"

text \<open>The exponent of the last place: the least one at which the value has at most \<open>p\<close> digits.\<close>

definition flexp :: "nat \<Rightarrow> int \<Rightarrow> int \<Rightarrow> real \<Rightarrow> int" where
  "flexp p emin emax x =
     (case find (\<lambda>k. \<bar>x\<bar> < 2 powi (int p + k)) [emin..emax] of Some k \<Rightarrow> k | None \<Rightarrow> emax)"

definition rnd :: "nat \<Rightarrow> int \<Rightarrow> int \<Rightarrow> real \<Rightarrow> real" where
  "rnd p emin emax x =
     (let k = flexp p emin emax x; r = of_int (rne (\<bar>x\<bar> / 2 powi k)) * 2 powi k
      in if x < 0 then - r else r)"

definition f32 :: "real \<Rightarrow> real" where "f32 = rnd 24 (-149) 104"

definition f64 :: "real \<Rightarrow> real" where "f64 = rnd 53 (-1074) 971"

lemma rne_of_int [simp]: "rne (of_int n) = n"
  by (simp add: rne_def)

lemma rne_bounds: "x - 1 / 2 \<le> of_int (rne x)" "of_int (rne x) \<le> x + 1 / 2"
  unfolding rne_def Let_def by (auto split: if_splits) linarith+

lemma rne_mono: "x \<le> y \<Longrightarrow> rne x \<le> rne y"
proof -
  assume xy: "x \<le> y"
  have f: "\<lfloor>x\<rfloor> \<le> \<lfloor>y\<rfloor>" using xy by (rule floor_mono)
  show ?thesis
  proof (cases "\<lfloor>x\<rfloor> = \<lfloor>y\<rfloor>")
    case True
    then show ?thesis using xy by (auto simp: rne_def Let_def)
  next
    case False
    with f have "\<lfloor>x\<rfloor> + 1 \<le> \<lfloor>y\<rfloor>" by linarith
    moreover have "rne x \<le> \<lfloor>x\<rfloor> + 1" "\<lfloor>y\<rfloor> \<le> rne y" by (auto simp: rne_def Let_def)
    ultimately show ?thesis by linarith
  qed
qed

lemma flexp_range: "emin \<le> emax \<Longrightarrow> emin \<le> flexp p emin emax x \<and> flexp p emin emax x \<le> emax"
  by (auto simp: flexp_def find_Some_iff split: option.split)

lemma flexp_least:
  assumes "emin \<le> k" and "k < flexp p emin emax x" and "emin \<le> emax"
  shows "2 powi (int p + k) \<le> \<bar>x\<bar>"
proof (cases "find (\<lambda>k. \<bar>x\<bar> < 2 powi (int p + k)) [emin..emax]")
  case None
  then have "flexp p emin emax x = emax" by (simp add: flexp_def)
  then have "k \<in> set [emin..emax]" using assms by simp
  with None show ?thesis by (auto simp: find_None_iff)
next
  case (Some e)
  then obtain i where i: "i < length [emin..emax]" "e = [emin..emax] ! i"
      "\<forall>j<i. \<not> \<bar>x\<bar> < 2 powi (int p + [emin..emax] ! j)"
    by (auto simp: find_Some_iff)
  have e: "e = emin + int i" "flexp p emin emax x = e"
    using i(1,2) Some by (simp_all add: nth_upto flexp_def)
  then have "nat (k - emin) < i" "[emin..emax] ! nat (k - emin) = k"
    using assms i(1) by (simp_all add: nth_upto)
  with i(3) show ?thesis by (metis not_less)
qed

lemma flexp_fits:
  assumes "flexp p emin emax x < emax"
  shows "\<bar>x\<bar> < 2 powi (int p + flexp p emin emax x)"
proof (cases "find (\<lambda>k. \<bar>x\<bar> < 2 powi (int p + k)) [emin..emax]")
  case None
  with assms show ?thesis by (simp add: flexp_def)
next
  case (Some e)
  then have "\<bar>x\<bar> < 2 powi (int p + e)" by (auto simp: find_Some_iff)
  with Some show ?thesis by (simp add: flexp_def)
qed

lemma flexp_le:
  assumes "\<bar>x\<bar> < 2 powi (int p + k)" and "emin \<le> k" and "emin \<le> emax"
  shows "flexp p emin emax x \<le> k"
proof (rule ccontr)
  assume "\<not> ?thesis"
  then have "2 powi (int p + k) \<le> \<bar>x\<bar>" using flexp_least [OF assms(2) _ assms(3)] by simp
  with assms(1) show False by simp
qed

lemma flexp_mono:
  assumes "\<bar>x\<bar> \<le> \<bar>y\<bar>" and "emin \<le> emax"
  shows "flexp p emin emax x \<le> flexp p emin emax y"
proof (cases "flexp p emin emax y < emax")
  case True
  then have "\<bar>x\<bar> < 2 powi (int p + flexp p emin emax y)"
    using flexp_fits [of p emin emax y] assms(1) by linarith
  then show ?thesis using flexp_le flexp_range [OF assms(2), of p y] assms(2) by blast
next
  case False
  then show ?thesis
    using flexp_range [OF assms(2), of p x] flexp_range [OF assms(2), of p y] by linarith
qed

lemma powi_split: "(2::real) powi (a + b) = 2 powi a * 2 powi b"
  by (simp add: power_int_add)

lemma rnd_exact:
  assumes "x = of_int m * 2 powi j" and "\<bar>m\<bar> < 2 ^ p" and "emin \<le> j" and "emin \<le> emax"
  shows "rnd p emin emax x = x"
proof -
  define k where "k = flexp p emin emax x"
  have "\<bar>x\<bar> = of_int \<bar>m\<bar> * 2 powi j" by (simp add: assms(1) abs_mult)
  also have "\<dots> < 2 ^ p * 2 powi j"
  proof -
    have "(of_int \<bar>m\<bar> :: real) < of_int (2 ^ p)" using assms(2) by (simp only: of_int_less_iff)
    then show ?thesis by simp
  qed
  also have "\<dots> = 2 powi (int p + j)" by (simp add: powi_split)
  finally have "k \<le> j" using flexp_le assms(3,4) unfolding k_def by blast
  then have "\<bar>x\<bar> / 2 powi k = of_int (\<bar>m\<bar> * 2 ^ nat (j - k))"
  proof -
    have "2 powi j = (2::real) powi k * 2 ^ nat (j - k)"
      using \<open>k \<le> j\<close> by (metis add.commute diff_add_cancel diff_ge_0_iff_ge nat_0_le power_int_of_nat powi_split)
    then show ?thesis by (simp add: assms(1) abs_mult)
  qed
  then have "rne (\<bar>x\<bar> / 2 powi k) = \<bar>m\<bar> * 2 ^ nat (j - k)"
    by (simp only: rne_of_int)
  then have "of_int (rne (\<bar>x\<bar> / 2 powi k)) * 2 powi k = \<bar>x\<bar>"
    using \<open>\<bar>x\<bar> / 2 powi k = _\<close> by (simp add: field_simps)
  then show ?thesis unfolding rnd_def Let_def k_def [symmetric] by (auto simp: abs_if split: if_splits)
qed

lemma rnd_error:
  assumes "\<bar>x\<bar> < 2 powi (int p + k)" and "emin \<le> k" and "emin \<le> emax"
  shows "\<bar>rnd p emin emax x - x\<bar> \<le> 2 powi k / 2"
proof -
  define e where "e = flexp p emin emax x"
  have "e \<le> k" unfolding e_def by (rule flexp_le [OF assms])
  then have ek: "(2::real) powi e \<le> 2 powi k" by (rule power_int_increasing) simp
  have pos: "(0::real) < 2 powi e" by simp
  have "\<bar>of_int (rne (\<bar>x\<bar> / 2 powi e)) - \<bar>x\<bar> / 2 powi e\<bar> \<le> 1 / 2"
    using rne_bounds [of "\<bar>x\<bar> / 2 powi e"] by linarith
  then have "\<bar>of_int (rne (\<bar>x\<bar> / 2 powi e)) - \<bar>x\<bar> / 2 powi e\<bar> * 2 powi e \<le> 1 / 2 * 2 powi e"
    by (rule mult_right_mono) simp
  moreover have "\<bar>of_int (rne (\<bar>x\<bar> / 2 powi e)) - \<bar>x\<bar> / 2 powi e\<bar> * 2 powi e =
      \<bar>(of_int (rne (\<bar>x\<bar> / 2 powi e)) - \<bar>x\<bar> / 2 powi e) * 2 powi e\<bar>"
    using pos by (simp only: abs_mult abs_of_pos)
  moreover have "(of_int (rne (\<bar>x\<bar> / 2 powi e)) - \<bar>x\<bar> / 2 powi e) * 2 powi e =
      of_int (rne (\<bar>x\<bar> / 2 powi e)) * 2 powi e - \<bar>x\<bar>"
    using pos by (simp add: left_diff_distrib)
  ultimately have "\<bar>of_int (rne (\<bar>x\<bar> / 2 powi e)) * 2 powi e - \<bar>x\<bar>\<bar> \<le> 1 / 2 * 2 powi e"
    by (simp only:)
  with ek have "\<bar>of_int (rne (\<bar>x\<bar> / 2 powi e)) * 2 powi e - \<bar>x\<bar>\<bar> \<le> 2 powi k / 2"
    by linarith
  moreover have "\<bar>rnd p emin emax x - x\<bar> = \<bar>of_int (rne (\<bar>x\<bar> / 2 powi e)) * 2 powi e - \<bar>x\<bar>\<bar>"
    unfolding rnd_def Let_def e_def [symmetric] by (cases "x < 0") (simp_all add: abs_minus_commute)
  ultimately show ?thesis by simp
qed

lemma rnd_minus: "rnd p emin emax (- x) = - rnd p emin emax x" if "emin \<le> emax"
proof (cases "x = 0")
  case True
  then show ?thesis using rnd_exact [of 0 0 emin p emin emax] that by simp
next
  case False
  have "flexp p emin emax (- x) = flexp p emin emax x" by (simp add: flexp_def)
  with False show ?thesis by (simp add: rnd_def Let_def)
qed

text \<open>Rounding twice is rounding once, below the overflow threshold.\<close>

lemma rnd_idem:
  assumes "\<bar>x\<bar> < 2 powi (int p + emax)" and "emin < emax" and "0 < p"
    and "\<bar>x\<bar> < 2 powi (int p + (emax - 1))"
  shows "rnd p emin emax (rnd p emin emax x) = rnd p emin emax x"
proof -
  define k m where "k = flexp p emin emax x" and "m = rne (\<bar>x\<bar> / 2 powi k)"
  have k: "emin \<le> k" "k < emax"
    using flexp_range [of emin emax p x] flexp_le [OF assms(4), of emin] assms(2)
    by (auto simp: k_def)
  have "\<bar>x\<bar> < 2 powi (int p + k)" unfolding k_def by (rule flexp_fits) (use k in \<open>simp add: k_def\<close>)
  then have "\<bar>x\<bar> / 2 powi k \<le> of_int (2 ^ p)" by (simp add: powi_split field_simps)
  then have m1: "m \<le> 2 ^ p" unfolding m_def using rne_mono rne_of_int by metis
  have "rne (of_int 0) \<le> m" unfolding m_def by (rule rne_mono) simp
  then have m0: "0 \<le> m" by (simp only: rne_of_int)
  define sg :: int where "sg = (if x < 0 then - 1 else 1)"
  have r: "rnd p emin emax x = of_int (sg * m) * 2 powi k"
    unfolding rnd_def Let_def k_def [symmetric] m_def [symmetric] by (simp add: sg_def)
  show ?thesis
  proof (cases "m = 2 ^ p")
    case False
    then show ?thesis unfolding r
      by (intro rnd_exact [of _ "sg * m" k]) (use m0 m1 k assms in \<open>auto simp: sg_def\<close>)
  next
    case True
    obtain q where q: "p = Suc q" using assms(3) by (cases p) auto
    have "of_int (sg * m) * 2 powi k = of_int (sg * 2 ^ q) * (2::real) powi (k + 1)"
      by (simp add: True q powi_split)
    then show ?thesis unfolding r
      by (intro rnd_exact [of _ "sg * 2 ^ q" "k + 1"]) (use k assms q in \<open>auto simp: sg_def\<close>)
  qed
qed

lemma rnd_nonneg: "0 \<le> x \<Longrightarrow> 0 \<le> rnd p emin emax x"
proof -
  assume x: "0 \<le> x"
  have "rne 0 \<le> rne (\<bar>x\<bar> / 2 powi flexp p emin emax x)" by (rule rne_mono) simp
  moreover have "rne 0 = 0" using rne_of_int [of 0] by simp
  ultimately show ?thesis using x by (simp add: rnd_def Let_def)
qed

lemma rnd_mono_nonneg:
  assumes "0 \<le> x" and "x \<le> y" and "emin \<le> emax" and "0 < p"
  shows "rnd p emin emax x \<le> rnd p emin emax y"
proof -
  define ex ey where "ex = flexp p emin emax x" and "ey = flexp p emin emax y"
  have r: "rnd p emin emax x = of_int (rne (x / 2 powi ex)) * 2 powi ex"
      "rnd p emin emax y = of_int (rne (y / 2 powi ey)) * 2 powi ey"
    using assms by (simp_all add: rnd_def Let_def ex_def ey_def)
  have "ex \<le> ey" unfolding ex_def ey_def using assms by (intro flexp_mono) auto
  show ?thesis
  proof (cases "ex = ey")
    case True
    have "rne (x / 2 powi ey) \<le> rne (y / 2 powi ey)"
      by (rule rne_mono) (use assms in \<open>simp add: divide_right_mono\<close>)
    with True r show ?thesis by simp
  next
    case False
    with \<open>ex \<le> ey\<close> have lt: "ex < ey" by simp
    have range: "emin \<le> ex" "ey \<le> emax"
      using flexp_range [OF assms(3), of p x] flexp_range [OF assms(3), of p y]
      by (simp_all add: ex_def ey_def)
    have "\<bar>x\<bar> < 2 powi (int p + ex)"
      unfolding ex_def by (rule flexp_fits) (use lt range in \<open>simp add: ex_def\<close>)
    then have "x / 2 powi ex \<le> of_int (2 ^ p)"
      using assms(1) by (simp add: powi_split field_simps)
    then have "rne (x / 2 powi ex) \<le> 2 ^ p" using rne_mono rne_of_int by metis
    then have "(of_int (rne (x / 2 powi ex)) :: real) \<le> of_int (2 ^ p)" by (simp only: of_int_le_iff)
    then have "rnd p emin emax x \<le> 2 powi (int p + ex)" by (simp add: r powi_split)
    moreover have "2 powi (int p + (ey - 1)) \<le> \<bar>y\<bar>"
      by (rule flexp_least [OF _ _ assms(3)]) (use lt range in \<open>auto simp: ey_def\<close>)
    then have "2 ^ (p - 1) * 2 powi ey \<le> y"
    proof -
      have "int p + (ey - 1) = int (p - 1) + ey" using assms(4) by simp
      then have "2 powi (int p + (ey - 1)) = (2 ^ (p - 1) * 2 powi ey :: real)"
        by (simp only: powi_split power_int_of_nat)
      then show ?thesis
        using \<open>2 powi (int p + (ey - 1)) \<le> \<bar>y\<bar>\<close> assms(1,2) by linarith
    qed
    then have "of_int (2 ^ (p - 1)) \<le> y / 2 powi ey" by (simp add: field_simps)
    then have "2 ^ (p - 1) \<le> rne (y / 2 powi ey)" using rne_mono rne_of_int by metis
    then have "(of_int (2 ^ (p - 1)) :: real) \<le> of_int (rne (y / 2 powi ey))" by (simp only: of_int_le_iff)
    then have "2 ^ (p - 1) * 2 powi ey \<le> rnd p emin emax y" by (simp add: r)
    moreover have "2 powi (int p + ex) \<le> (2 ^ (p - 1) * 2 powi ey :: real)"
    proof -
      have "(2::real) powi (int p + ex) \<le> 2 powi (int (p - 1) + ey)"
        by (rule power_int_increasing) (use lt assms(4) in auto)
      then show ?thesis by (simp add: powi_split)
    qed
    ultimately show ?thesis by linarith
  qed
qed

lemma rnd_mono:
  assumes "x \<le> y" and "emin \<le> emax" and "0 < p"
  shows "rnd p emin emax x \<le> rnd p emin emax y"
proof -
  consider "0 \<le> x" | "x < 0" "0 \<le> y" | "y < 0" using assms(1) by linarith
  then show ?thesis
  proof cases
    case 1
    then show ?thesis using assms rnd_mono_nonneg by blast
  next
    case 2
    then have "0 \<le> rnd p emin emax (- x)" "0 \<le> rnd p emin emax y" by (simp_all add: rnd_nonneg)
    then show ?thesis using rnd_minus [OF assms(2), of p x] by simp
  next
    case 3
    then have "rnd p emin emax (- y) \<le> rnd p emin emax (- x)"
      using assms by (intro rnd_mono_nonneg) auto
    then show ?thesis by (simp add: rnd_minus [OF assms(2)])
  qed
qed

section \<open>The laws the audio code relies on\<close>

locale rounding =
  fixes fl :: "real \<Rightarrow> real"
  assumes fl_0: "fl 0 = 0"
    and fl_1: "fl 1 = 1"
    and fl_minus: "fl (- x) = - fl x"
    and fl_mono: "x \<le> y \<Longrightarrow> fl x \<le> fl y"
begin

lemma fl_nonneg: "0 \<le> x \<Longrightarrow> 0 \<le> fl x"
  using fl_mono [of 0 x] by (simp add: fl_0)

lemma fl_nonpos: "x \<le> 0 \<Longrightarrow> fl x \<le> 0"
  using fl_mono [of x 0] by (simp add: fl_0)

lemma fl_le_1: "x \<le> 1 \<Longrightarrow> fl x \<le> 1"
  using fl_mono [of x 1] by (simp add: fl_1)

lemma fl_abs: "\<bar>fl x\<bar> = fl \<bar>x\<bar>"
  using fl_nonneg [of x] fl_nonpos [of x] by (auto simp: abs_if fl_minus)

lemma fl_abs_le: "\<bar>x\<bar> \<le> b \<Longrightarrow> fl b = b \<Longrightarrow> \<bar>fl x\<bar> \<le> b"
  using fl_mono [of "\<bar>x\<bar>" b] by (simp add: fl_abs)

lemma fl_in_unit: "0 \<le> x \<Longrightarrow> x \<le> 1 \<Longrightarrow> 0 \<le> fl x \<and> fl x \<le> 1"
  by (simp add: fl_nonneg fl_le_1)

end

lemma rounding_rnd:
  assumes "emin \<le> 1 - int p" and "emin \<le> emax" and "1 - int p \<le> emax" and "0 < p"
  shows "rounding (rnd p emin emax)"
proof
  show "rnd p emin emax 0 = 0"
    by (rule rnd_exact [of 0 0 emin]) (use assms in auto)
  show "rnd p emin emax 1 = 1"
  proof -
    from assms(4) obtain q where q: "p = Suc q" by (cases p) auto
    show ?thesis
      by (rule rnd_exact [of 1 "2 ^ q" "- int q"])
         (use assms q in \<open>auto simp: power_int_minus\<close>)
  qed
  show "rnd p emin emax (- x) = - rnd p emin emax x" for x
    using assms by (rule_tac rnd_minus)
  show "x \<le> y \<Longrightarrow> rnd p emin emax x \<le> rnd p emin emax y" for x y
    using assms by (rule_tac rnd_mono)
qed

interpretation f32: rounding f32
  unfolding f32_def by (rule rounding_rnd) simp_all

interpretation f64: rounding f64
  unfolding f64_def by (rule rounding_rnd) simp_all

interpretation exact: rounding "\<lambda>x. x"
  by unfold_locales simp_all

lemma f32_int: "\<bar>m\<bar> < 2 ^ 24 \<Longrightarrow> f32 (of_int m) = of_int m"
  unfolding f32_def by (rule rnd_exact [of _ m 0]) auto

lemma f32_div: "\<bar>m\<bar> < 2 ^ 24 \<Longrightarrow> k \<le> 149 \<Longrightarrow> f32 (of_int m / 2 ^ k) = of_int m / 2 ^ k"
  unfolding f32_def
  by (rule rnd_exact [of _ m "- int k"]) (auto simp: power_int_minus divide_inverse)

lemma f32_abs_le_1: "\<bar>x\<bar> \<le> 1 \<Longrightarrow> \<bar>f32 x\<bar> \<le> 1"
  by (rule f32.fl_abs_le) (simp_all add: f32.fl_1)

lemma f64_error:
  assumes "\<bar>x\<bar> < 2 ^ 32"
  shows "\<bar>f64 x - x\<bar> \<le> 1 / 2 ^ 22"
proof -
  have "\<bar>x\<bar> < 2 powi (int 53 + (- 21))" using assms by simp
  then have "\<bar>f64 x - x\<bar> \<le> 2 powi (- 21) / 2"
    unfolding f64_def by (rule rnd_error) simp_all
  also have "2 powi (- 21) / 2 = (1 / 2 ^ 22 :: real)" by (simp add: power_int_minus)
  finally show ?thesis .
qed

lemma f64_div: "\<bar>m\<bar> < 2 ^ 53 \<Longrightarrow> k \<le> 1074 \<Longrightarrow> f64 (of_int m / 2 ^ k) = of_int m / 2 ^ k"
  unfolding f64_def
  by (rule rnd_exact [of _ m "- int k"]) (auto simp: power_int_minus divide_inverse)

lemma f32_idem: "\<bar>x\<bar> \<le> 4 \<Longrightarrow> f32 (f32 x) = f32 x"
proof -
  assume x: "\<bar>x\<bar> \<le> 4"
  have "(2::real) powi 3 \<le> 2 powi 127" "(2::real) powi 3 \<le> 2 powi 128"
    by (rule power_int_increasing; simp)+
  moreover have "(2::real) powi 3 = 8" by simp
  ultimately have "\<bar>x\<bar> < 2 powi 127" "\<bar>x\<bar> < 2 powi 128" using x by linarith+
  then show ?thesis unfolding f32_def by (intro rnd_idem) simp_all
qed

section \<open>Conversion to integers\<close>

text \<open>\<open>std::lround\<close>: to the nearest integer, ties away from zero.\<close>

definition lround :: "real \<Rightarrow> int" where
  "lround x = (if x < 0 then - \<lfloor>- x + 1 / 2\<rfloor> else \<lfloor>x + 1 / 2\<rfloor>)"

text \<open>The conversion of the language: toward zero.\<close>

definition trunc :: "real \<Rightarrow> int" where
  "trunc x = (if x < 0 then - \<lfloor>- x\<rfloor> else \<lfloor>x\<rfloor>)"

lemma lround_range: "\<bar>x\<bar> \<le> of_int n \<Longrightarrow> \<bar>lround x\<bar> \<le> n"
  unfolding lround_def by (auto simp: abs_le_iff) linarith+

end
