(* ===== verification/AudioIO.thy ===== *)
theory AudioIO
  imports Floats
begin

text \<open>
  The canonical format and the source, sink and device types of
  \<^verbatim>\<open>windows/audio-service/include/smartmic/audio_format.h\<close> and \<^verbatim>\<open>audio_io.h\<close>. The two
  abstract classes are the locales \<open>audio_source\<close> and \<open>audio_sink\<close>: their \<open>fixes\<close> are the
  calls the router makes, their \<open>assumes\<close> the promise the header states, that a source
  leaves the caller's buffer at its size whatever happens.
\<close>

section \<open>The canonical format\<close>

definition kSampleRate :: nat where "kSampleRate = 48000"
definition kChannels :: nat where "kChannels = 1"
definition kFrameMillis :: nat where "kFrameMillis = 20"
definition kFrameSamples :: nat where "kFrameSamples = kSampleRate div 1000 * kFrameMillis"

definition millisToSamples :: "u32 \<Rightarrow> nat" where
  "millisToSamples ms = kSampleRate * unat ms div 1000"

definition samplesToMillis :: "u64 \<Rightarrow> u32" where
  "samplesToMillis samples = ucast ((samples * 1000) div of_nat kSampleRate)"

lemma kFrameSamples_960 [simp]: "kFrameSamples = 960"
  by (simp add: kFrameSamples_def kSampleRate_def kFrameMillis_def)

lemma millisToSamples_eq: "millisToSamples ms = 48 * unat ms"
  by (simp add: millisToSamples_def kSampleRate_def)

section \<open>Sources, sinks and devices\<close>

datatype source_status = Src_Ok | Src_Underrun | Src_Failed

record device_info =
  di_id :: string
  di_name :: string
  di_isDefault :: bool
  di_isSmartMicEndpoint :: bool
  di_nativeRate :: u32
  di_nativeChannels :: u32

type_synonym samples = "real list"

text \<open>A block of silence, the \<open>std::fill(..., 0.0f)\<close> of the sources.\<close>

abbreviation silence :: "nat \<Rightarrow> samples" where
  "silence n \<equiv> replicate n 0"

text \<open>
  \<open>read\<close> takes the caller's buffer as it is and returns it as the call leaves it, so that a
  source that does not write is visible.
\<close>

locale audio_source =
  fixes read :: "samples \<Rightarrow> 's \<Rightarrow> samples \<times> source_status \<times> 's"
    and src_ok :: "'s \<Rightarrow> bool"
  assumes read_length: "src_ok s \<Longrightarrow> length (fst (read buf s)) = length buf"
    and read_ok: "src_ok s \<Longrightarrow> src_ok (snd (snd (read buf s)))"
begin

text \<open>Any number of reads of one block size returns blocks of that size.\<close>

fun reads :: "nat \<Rightarrow> samples \<Rightarrow> 's \<Rightarrow> samples list \<times> 's" where
  "reads 0 buf s = ([], s)"
| "reads (Suc k) buf s =
     (case read buf s of (b, st, s') \<Rightarrow> case reads k b s' of (bs, s'') \<Rightarrow> (b # bs, s''))"

lemma reads_blocks:
  "src_ok s \<Longrightarrow> length (fst (reads k buf s)) = k \<and>
     (\<forall>b\<in>set (fst (reads k buf s)). length b = length buf) \<and> src_ok (snd (reads k buf s))"
proof (induction k arbitrary: buf s)
  case (Suc k)
  obtain b st s' where r: "read buf s = (b, st, s')" by (metis prod_cases3)
  then have "length b = length buf" "src_ok s'"
    using read_length [OF Suc.prems, of buf] read_ok [OF Suc.prems, of buf] by simp_all
  with Suc.IH [of s' b] r show ?case by (auto split: prod.split)
qed simp

end

text \<open>
  A sink takes blocks of the canonical frame size; \<open>snk_ok\<close> is what it needs to keep across them.
\<close>

locale audio_sink =
  fixes snk_write :: "samples \<Rightarrow> 's \<Rightarrow> bool \<times> 's"
    and snk_ok :: "'s \<Rightarrow> bool"
  assumes write_ok: "snk_ok s \<Longrightarrow> length xs = kFrameSamples \<Longrightarrow> snk_ok (snd (snk_write xs s))"
begin

fun writes :: "samples list \<Rightarrow> 's \<Rightarrow> bool list \<times> 's" where
  "writes [] s = ([], s)"
| "writes (xs # xss) s =
     (case snk_write xs s of (b, s') \<Rightarrow> case writes xss s' of (bs, s'') \<Rightarrow> (b # bs, s''))"

lemma writes_ok: "snk_ok s \<Longrightarrow> list_all (\<lambda>xs. length xs = kFrameSamples) xss \<Longrightarrow> snk_ok (snd (writes xss s))"
proof (induction xss arbitrary: s)
  case (Cons xs xss)
  obtain b s' where w: "snk_write xs s = (b, s')" by (metis prod.exhaust)
  then have "snk_ok s'" using write_ok [OF Cons.prems(1), of xs] Cons.prems(2) by simp
  with Cons.IH [of s'] Cons.prems(2) w show ?case by (cases "writes xss s'") simp
qed simp

end

end
