(* ===== verification/Crossfade.thy ===== *)
theory Crossfade
  imports AudioIO
begin

text \<open>
  The equal-power crossfade and the gain ramp of
  \<^verbatim>\<open>windows/audio-service/src/crossfade.cpp\<close>. The two classes are records of their members;
  every float operation of the source is followed by the rounding \<open>fl\<close>. The lemmas show that
  for every rounding with the laws of the locale \<open>rounding\<close> the position stays in the unit
  interval and lands exactly on the target when the fade ends, and for exact arithmetic that
  the power is constant and that no step exceeds the rate of a full traversal.
\<close>

section \<open>Crossfade\<close>

text \<open>\<open>1.57079632679489661923f\<close>: the binary32 number next to half of pi.\<close>

definition kHalfPi :: real where "kHalfPi = 13176795 / 2 ^ 23"

definition clamp :: "real \<Rightarrow> real \<Rightarrow> real \<Rightarrow> real" where
  "clamp lo hi x = (if x < lo then lo else if hi < x then hi else x)"

record gain_pair =
  gp_local :: real
  gp_phone :: real

record crossfade =
  cf_position :: real
  cf_target :: real
  cf_step :: real
  cf_remaining :: nat

definition cf_init :: crossfade where
  "cf_init = \<lparr>cf_position = 0, cf_target = 0, cf_step = 0, cf_remaining = 0\<rparr>"

text \<open>
  \<open>max(1, ceil(max(1, millisToSamples(durationMs)) * fabs(distance)))\<close>; the sample count is
  converted to \<open>float\<close> before the product.
\<close>

definition fade_samples :: "(real \<Rightarrow> real) \<Rightarrow> u32 \<Rightarrow> real \<Rightarrow> nat" where
  "fade_samples fl durationMs distance =
     max 1 (nat \<lceil>fl (fl (real (max 1 (millisToSamples durationMs))) * \<bar>distance\<bar>)\<rceil>)"

definition cf_fadeTo :: "(real \<Rightarrow> real) \<Rightarrow> real \<Rightarrow> u32 \<Rightarrow> crossfade \<Rightarrow> crossfade" where
  "cf_fadeTo fl target durationMs cf =
     (let t = clamp 0 1 target; distance = fl (t - cf_position cf)
      in if distance = 0 then cf\<lparr>cf_target := t, cf_remaining := 0, cf_step := 0\<rparr>
         else let n = fade_samples fl durationMs distance
              in cf\<lparr>cf_target := t, cf_remaining := n, cf_step := fl (distance / fl (real n))\<rparr>)"

definition cf_snapTo :: "real \<Rightarrow> crossfade \<Rightarrow> crossfade" where
  "cf_snapTo target cf =
     cf\<lparr>cf_position := clamp 0 1 target, cf_target := clamp 0 1 target,
        cf_remaining := 0, cf_step := 0\<rparr>"

definition cf_advance :: "(real \<Rightarrow> real) \<Rightarrow> crossfade \<Rightarrow> crossfade" where
  "cf_advance fl cf =
     (if cf_remaining cf > 0 then
        let p = fl (cf_position cf + cf_step cf);
            rem = cf_remaining cf - 1;
            p' = (if rem = 0 then cf_target cf else p)
        in cf\<lparr>cf_position := clamp 0 1 p', cf_remaining := rem\<rparr>
      else cf)"

definition cf_next :: "(real \<Rightarrow> real) \<Rightarrow> crossfade \<Rightarrow> gain_pair \<times> crossfade" where
  "cf_next fl cf =
     (let cf' = cf_advance fl cf; a = fl (cf_position cf' * kHalfPi)
      in (\<lparr>gp_local = fl (cos a), gp_phone = fl (sin a)\<rparr>, cf'))"

definition cf_active :: "crossfade \<Rightarrow> bool" where
  "cf_active cf \<longleftrightarrow> cf_remaining cf > 0"

section \<open>Gain ramp\<close>

record gain_ramp =
  gr_value :: real
  gr_target :: real
  gr_step :: real
  gr_remaining :: nat

definition gr_new :: "real \<Rightarrow> gain_ramp" where
  "gr_new initial = \<lparr>gr_value = initial, gr_target = initial, gr_step = 0, gr_remaining = 0\<rparr>"

definition gr_rampTo :: "(real \<Rightarrow> real) \<Rightarrow> real \<Rightarrow> u32 \<Rightarrow> gain_ramp \<Rightarrow> gain_ramp" where
  "gr_rampTo fl target durationMs gr =
     (let t = clamp 0 1 target; distance = fl (t - gr_value gr)
      in if distance = 0 then gr\<lparr>gr_target := t, gr_remaining := 0, gr_step := 0\<rparr>
         else let n = fade_samples fl durationMs distance
              in gr\<lparr>gr_target := t, gr_remaining := n, gr_step := fl (distance / fl (real n))\<rparr>)"

definition gr_snapTo :: "real \<Rightarrow> gain_ramp \<Rightarrow> gain_ramp" where
  "gr_snapTo target gr =
     gr\<lparr>gr_value := clamp 0 1 target, gr_target := clamp 0 1 target,
        gr_remaining := 0, gr_step := 0\<rparr>"

definition gr_advance :: "(real \<Rightarrow> real) \<Rightarrow> gain_ramp \<Rightarrow> gain_ramp" where
  "gr_advance fl gr =
     (if gr_remaining gr > 0 then
        let v = fl (gr_value gr + gr_step gr);
            rem = gr_remaining gr - 1;
            v' = (if rem = 0 then gr_target gr else v)
        in gr\<lparr>gr_value := clamp 0 1 v', gr_remaining := rem\<rparr>
      else gr)"

text \<open>\<open>0.5f - 0.5f * std::cos(value_ * 2.0f * kHalfPi)\<close>\<close>

definition gr_next :: "(real \<Rightarrow> real) \<Rightarrow> gain_ramp \<Rightarrow> real \<times> gain_ramp" where
  "gr_next fl gr =
     (let gr' = gr_advance fl gr;
          c = fl (cos (fl (fl (gr_value gr' * 2) * kHalfPi)))
      in (fl (1 / 2 - fl (1 / 2 * c)), gr'))"

definition gr_active :: "gain_ramp \<Rightarrow> bool" where
  "gr_active gr \<longleftrightarrow> gr_remaining gr > 0"

section \<open>Bounds\<close>

lemma clamp_in: "lo \<le> hi \<Longrightarrow> lo \<le> clamp lo hi x \<and> clamp lo hi x \<le> hi"
  by (simp add: clamp_def)

lemma clamp_id: "lo \<le> x \<Longrightarrow> x \<le> hi \<Longrightarrow> clamp lo hi x = x"
  by (simp add: clamp_def)

definition cf_ok :: "crossfade \<Rightarrow> bool" where
  "cf_ok cf \<longleftrightarrow> cf_position cf \<in> {0..1} \<and> cf_target cf \<in> {0..1}"

definition gr_ok :: "gain_ramp \<Rightarrow> bool" where
  "gr_ok gr \<longleftrightarrow> gr_value gr \<in> {0..1} \<and> gr_target gr \<in> {0..1}"

lemma fade_samples_pos [simp]: "0 < fade_samples fl ms d"
  by (simp add: fade_samples_def)

lemma cf_ok_init: "cf_ok cf_init"
  by (simp add: cf_ok_def cf_init_def)

lemma cf_ok_snapTo: "cf_ok (cf_snapTo t cf)"
  using clamp_in [of 0 1 t] by (simp add: cf_ok_def cf_snapTo_def)

lemma cf_ok_advance: "cf_ok cf \<Longrightarrow> cf_ok (cf_advance fl cf)"
  using clamp_in [of 0 1 "fl (cf_position cf + cf_step cf)"] clamp_id [of 0 "cf_target cf" 1]
  by (auto simp: cf_ok_def cf_advance_def Let_def)

lemma gr_ok_snapTo: "gr_ok (gr_snapTo t gr)"
  using clamp_in [of 0 1 t] by (simp add: gr_ok_def gr_snapTo_def)

lemma gr_ok_advance: "gr_ok gr \<Longrightarrow> gr_ok (gr_advance fl gr)"
  using clamp_in [of 0 1 "fl (gr_value gr + gr_step gr)"] clamp_id [of 0 "gr_target gr" 1]
  by (auto simp: gr_ok_def gr_advance_def Let_def)

lemma cf_ok_fadeTo: "cf_ok cf \<Longrightarrow> cf_ok (cf_fadeTo fl t ms cf)"
  using clamp_in [of 0 1 t] by (simp add: cf_ok_def cf_fadeTo_def Let_def)

lemma gr_ok_rampTo: "gr_ok gr \<Longrightarrow> gr_ok (gr_rampTo fl t ms gr)"
  using clamp_in [of 0 1 t] by (simp add: gr_ok_def gr_rampTo_def Let_def)

lemmas cf_ok_intros = cf_ok_init cf_ok_snapTo cf_ok_advance cf_ok_fadeTo
lemmas gr_ok_intros = gr_ok_snapTo gr_ok_advance gr_ok_rampTo

lemma snd_cf_next [simp]: "snd (cf_next fl cf) = cf_advance fl cf"
  by (simp add: cf_next_def Let_def)

lemma snd_gr_next [simp]: "snd (gr_next fl gr) = gr_advance fl gr"
  by (simp add: gr_next_def Let_def)

section \<open>Landing on the target\<close>

lemma cf_advance_fields [step_simps]:
  "cf_target (cf_advance fl cf) = cf_target cf"
  "cf_step (cf_advance fl cf) = cf_step cf"
  "cf_remaining (cf_advance fl cf) = cf_remaining cf - 1"
  by (simp_all add: cf_advance_def Let_def)

lemma gr_advance_fields [step_simps]:
  "gr_target (gr_advance fl gr) = gr_target gr"
  "gr_step (gr_advance fl gr) = gr_step gr"
  "gr_remaining (gr_advance fl gr) = gr_remaining gr - 1"
  by (simp_all add: gr_advance_def Let_def)

lemma cf_advance_steps [step_simps]:
  "cf_target ((cf_advance fl ^^ n) cf) = cf_target cf"
  "cf_step ((cf_advance fl ^^ n) cf) = cf_step cf"
  "cf_remaining ((cf_advance fl ^^ n) cf) = cf_remaining cf - n"
  by (induction n) (simp_all add: cf_advance_fields)

lemma cf_ok_steps: "cf_ok cf \<Longrightarrow> cf_ok ((cf_advance fl ^^ n) cf)"
  by (induction n) (auto intro: cf_ok_intros)

lemma cf_advance_last:
  "cf_ok x \<Longrightarrow> cf_remaining x = 1 \<Longrightarrow> cf_position (cf_advance fl x) = cf_target x"
  by (simp add: cf_advance_def clamp_id cf_ok_def)

lemma cf_advance_idle: "cf_remaining x = 0 \<Longrightarrow> cf_advance fl x = x"
  by (simp add: cf_advance_def)

lemma cf_lands:
  assumes "cf_ok cf" and "0 < cf_remaining cf" and "cf_remaining cf \<le> n"
  shows "cf_position ((cf_advance fl ^^ n) cf) = cf_target cf"
  using assms(3)
proof (induction n rule: dec_induct)
  case base
  obtain m where m: "cf_remaining cf = Suc m" using assms(2) by (cases "cf_remaining cf") auto
  have "cf_remaining ((cf_advance fl ^^ m) cf) = 1" by (simp add: cf_advance_steps m)
  then show ?case
    using cf_advance_last [of "(cf_advance fl ^^ m) cf"] cf_ok_steps [OF assms(1)]
    by (simp add: m cf_advance_steps)
next
  case (step n)
  then have "cf_remaining ((cf_advance fl ^^ n) cf) = 0" by (simp add: cf_advance_steps)
  with step show ?case by (simp add: cf_advance_idle)
qed

lemma gr_advance_steps [step_simps]:
  "gr_target ((gr_advance fl ^^ n) gr) = gr_target gr"
  "gr_remaining ((gr_advance fl ^^ n) gr) = gr_remaining gr - n"
  by (induction n) (simp_all add: gr_advance_fields)

lemma gr_ok_steps: "gr_ok gr \<Longrightarrow> gr_ok ((gr_advance fl ^^ n) gr)"
  by (induction n) (auto intro: gr_ok_intros)

lemma gr_advance_last:
  "gr_ok x \<Longrightarrow> gr_remaining x = 1 \<Longrightarrow> gr_value (gr_advance fl x) = gr_target x"
  by (simp add: gr_advance_def clamp_id gr_ok_def)

lemma gr_advance_idle: "gr_remaining x = 0 \<Longrightarrow> gr_advance fl x = x"
  by (simp add: gr_advance_def)

lemma gr_lands:
  assumes "gr_ok gr" and "0 < gr_remaining gr" and "gr_remaining gr \<le> n"
  shows "gr_value ((gr_advance fl ^^ n) gr) = gr_target gr"
  using assms(3)
proof (induction n rule: dec_induct)
  case base
  obtain m where m: "gr_remaining gr = Suc m" using assms(2) by (cases "gr_remaining gr") auto
  have "gr_remaining ((gr_advance fl ^^ m) gr) = 1" by (simp add: gr_advance_steps m)
  then show ?case
    using gr_advance_last [of "(gr_advance fl ^^ m) gr"] gr_ok_steps [OF assms(1)]
    by (simp add: m gr_advance_steps)
next
  case (step n)
  then have "gr_remaining ((gr_advance fl ^^ n) gr) = 0" by (simp add: gr_advance_steps)
  with step show ?case by (simp add: gr_advance_idle)
qed

section \<open>Rounding and gains\<close>

context rounding
begin

lemma fade_samples_bound:
  assumes "\<bar>d\<bar> \<le> 1"
  shows "fade_samples fl ms d \<le> max 1 (nat \<lceil>fl (fl (real (max 1 (millisToSamples ms))))\<rceil>)"
proof -
  let ?F = "fl (real (max 1 (millisToSamples ms)))"
  have "?F * \<bar>d\<bar> \<le> ?F * 1"
    by (rule mult_left_mono) (use assms in \<open>simp_all add: fl_nonneg\<close>)
  then have "fl (?F * \<bar>d\<bar>) \<le> fl ?F" by (simp add: fl_mono)
  then show ?thesis
    unfolding fade_samples_def by (intro max.mono nat_mono ceiling_mono order.refl)
qed

lemma gains_bounded:
  "\<bar>gp_local (fst (cf_next fl cf))\<bar> \<le> 1 \<and> \<bar>gp_phone (fst (cf_next fl cf))\<bar> \<le> 1"
  by (simp add: cf_next_def Let_def fl_abs_le fl_1)

end

lemma exact_step_rate:
  assumes "d \<noteq> 0"
  shows "\<bar>d / real (fade_samples (\<lambda>x. x) ms d)\<bar> \<le> 1 / real (max 1 (millisToSamples ms))"
proof -
  define N n where "N = max 1 (millisToSamples ms)" and "n = fade_samples (\<lambda>x. x) ms d"
  have "real N * \<bar>d\<bar> \<le> real n"
    unfolding n_def fade_samples_def N_def by linarith
  moreover have "0 < real n" "0 < real N" by (simp_all add: n_def N_def)
  ultimately have "\<bar>d\<bar> / real n \<le> 1 / real N" by (simp add: field_simps)
  then show ?thesis by (simp add: n_def N_def)
qed

lemma clamp_shrinks: "x \<in> {0..1} \<Longrightarrow> \<bar>clamp 0 1 y - x\<bar> \<le> \<bar>y - x\<bar>"
  by (auto simp: clamp_def)

text \<open>In exact arithmetic the position moves along the straight line to the target.\<close>

definition cf_line :: "crossfade \<Rightarrow> bool" where
  "cf_line cf \<longleftrightarrow> cf_ok cf \<and>
     (0 < cf_remaining cf \<longrightarrow>
        cf_target cf = cf_position cf + real (cf_remaining cf) * cf_step cf)"

lemma cf_line_init: "cf_line cf_init"
  by (simp add: cf_line_def cf_ok_init) (simp add: cf_init_def)

lemma cf_line_snapTo: "cf_line (cf_snapTo t cf)"
  by (simp add: cf_line_def cf_ok_snapTo) (simp add: cf_snapTo_def)

lemma cf_line_fadeTo: "cf_line cf \<Longrightarrow> cf_line (cf_fadeTo (\<lambda>x. x) t ms cf)"
  by (simp add: cf_line_def cf_ok_fadeTo) (simp add: cf_fadeTo_def Let_def)

lemma cf_line_inside:
  assumes "cf_line cf" and "0 < cf_remaining cf"
  shows "cf_position cf + cf_step cf \<in> {0..1}"
proof -
  define k where "k = real (cf_remaining cf)"
  have k: "1 \<le> k" using assms(2) by (simp add: k_def)
  have t: "cf_target cf = cf_position cf + k * cf_step cf"
      "0 \<le> cf_position cf" "cf_position cf \<le> 1" "0 \<le> cf_target cf" "cf_target cf \<le> 1"
    using assms by (simp_all add: cf_line_def cf_ok_def k_def)
  have "cf_position cf + cf_step cf = (1 - 1 / k) * cf_position cf + (1 / k) * cf_target cf"
    using k unfolding t(1) by (simp add: field_simps)
  moreover have "0 \<le> (1 - 1 / k) * cf_position cf" "0 \<le> (1 / k) * cf_target cf"
    by (rule mult_nonneg_nonneg; use k t in simp)+
  moreover have "(1 - 1 / k) * cf_position cf \<le> (1 - 1 / k) * 1"
      "(1 / k) * cf_target cf \<le> (1 / k) * 1"
    by (rule mult_left_mono; use k t(2-5) in simp)+
  ultimately show ?thesis by simp
qed

lemma cf_line_advance:
  assumes "cf_line cf"
  shows "cf_line (cf_advance (\<lambda>x. x) cf) \<and>
    cf_position (cf_advance (\<lambda>x. x) cf) =
      cf_position cf + (if 0 < cf_remaining cf then cf_step cf else 0)"
proof (cases "0 < cf_remaining cf")
  case True
  have inside: "clamp 0 1 (cf_position cf + cf_step cf) = cf_position cf + cf_step cf"
    using cf_line_inside [OF assms True] by (simp add: clamp_id)
  have "cf_position (cf_advance (\<lambda>x. x) cf) = cf_position cf + cf_step cf"
  proof (cases "cf_remaining cf = 1")
    case True
    then have "cf_target cf = cf_position cf + cf_step cf"
      using assms by (simp add: cf_line_def)
    then show ?thesis using True inside by (simp add: cf_advance_def)
  next
    case False
    then show ?thesis using True inside by (simp add: cf_advance_def Let_def)
  qed
  then show ?thesis
    using assms True cf_ok_advance [of cf "\<lambda>x. x"]
    by (auto simp: cf_line_def cf_advance_fields of_nat_diff algebra_simps)
next
  case False
  then have "cf_advance (\<lambda>x. x) cf = cf" by (simp add: cf_advance_def)
  with assms False show ?thesis by simp
qed

text \<open>The machine as the router drives it: any interleaving of retargets, snaps and samples.\<close>

datatype cf_call = CF_FadeTo real u32 | CF_SnapTo real | CF_Next

fun cf_call_step :: "(real \<Rightarrow> real) \<Rightarrow> cf_call \<Rightarrow> crossfade \<Rightarrow> crossfade" where
  "cf_call_step fl (CF_FadeTo t ms) cf = cf_fadeTo fl t ms cf"
| "cf_call_step fl (CF_SnapTo t) cf = cf_snapTo t cf"
| "cf_call_step fl CF_Next cf = snd (cf_next fl cf)"

definition cf_run :: "(real \<Rightarrow> real) \<Rightarrow> cf_call list \<Rightarrow> crossfade \<Rightarrow> crossfade" where
  "cf_run fl cs cf = fold (cf_call_step fl) cs cf"

lemma cf_run_ok: "cf_ok cf \<Longrightarrow> cf_ok (cf_run fl cs cf)"
  unfolding cf_run_def
proof (induction cs arbitrary: cf)
  case (Cons c cs)
  then show ?case by (cases c) (simp_all add: cf_ok_intros)
qed simp

lemma cf_run_line: "cf_line cf \<Longrightarrow> cf_line (cf_run (\<lambda>x. x) cs cf)"
  unfolding cf_run_def
proof (induction cs arbitrary: cf)
  case (Cons c cs)
  then show ?case
    by (cases c) (simp_all add: cf_line_fadeTo cf_line_snapTo cf_line_advance)
qed simp

section \<open>Properties\<close>

text \<open>
  C6: after any history of calls the position is in the unit interval, and a fade that
  \<open>fadeTo\<close> starts then lands exactly on its clamped target after \<open>remaining\<close> samples and
  stays there, with binary32 rounding in every operation (no drift at the end of a fade);
  the fade takes no longer than a full traversal.
\<close>

theorem crossfade_lands_exactly:
  fixes cs :: "cf_call list" and t :: real and ms :: u32 and n :: nat
  defines "cf0 \<equiv> cf_run f32 cs cf_init"
  defines "cf \<equiv> cf_fadeTo f32 t ms cf0"
  shows "cf_position cf0 \<in> {0..1} \<and>
    (0 < cf_remaining cf \<longrightarrow> cf_remaining cf \<le> n \<longrightarrow>
       cf_position ((cf_advance f32 ^^ n) cf) = clamp 0 1 t \<and>
       cf_remaining ((cf_advance f32 ^^ n) cf) = 0) \<and>
    cf_remaining cf \<le> max 1 (nat \<lceil>f32 (f32 (real (max 1 (millisToSamples ms))))\<rceil>)"
proof (intro conjI impI)
  have ok0: "cf_ok cf0" unfolding cf0_def by (rule cf_run_ok [OF cf_ok_init])
  then have ok: "cf_ok cf" unfolding cf_def by (rule cf_ok_fadeTo)
  show "cf_position cf0 \<in> {0..1}" using ok0 by (simp add: cf_ok_def)
  have t: "cf_target cf = clamp 0 1 t" by (simp add: cf_def cf_fadeTo_def Let_def)
  assume "0 < cf_remaining cf" and n: "cf_remaining cf \<le> n"
  then show "cf_position ((cf_advance f32 ^^ n) cf) = clamp 0 1 t"
    using cf_lands [OF ok] t by simp
  show "cf_remaining ((cf_advance f32 ^^ n) cf) = 0"
    using n by (simp add: cf_advance_steps)
next
  have "cf_ok cf0" unfolding cf0_def by (rule cf_run_ok [OF cf_ok_init])
  then have "\<bar>f32 (clamp 0 1 t - cf_position cf0)\<bar> \<le> 1"
    using clamp_in [of 0 1 t] by (intro f32_abs_le_1) (auto simp: cf_ok_def abs_le_iff)
  from f32.fade_samples_bound [OF this, of ms]
  show "cf_remaining cf \<le> max 1 (nat \<lceil>f32 (f32 (real (max 1 (millisToSamples ms))))\<rceil>)"
    by (simp add: cf_def cf_fadeTo_def Let_def)
qed

theorem crossfade_lands_exactly_witness:
  "0 < cf_remaining (cf_fadeTo f32 1 1 (cf_run f32 [] cf_init)) \<and>
   (\<exists>n. cf_position ((cf_advance f32 ^^ n) (cf_fadeTo f32 1 1 (cf_run f32 [] cf_init))) = 1)"
proof -
  have rem: "0 < cf_remaining (cf_fadeTo f32 1 1 (cf_run f32 [] cf_init))"
    by (simp add: cf_fadeTo_def cf_run_def cf_init_def clamp_def f32.fl_1 Let_def)
  have "cf_position ((cf_advance f32 ^^ cf_remaining (cf_fadeTo f32 1 1 (cf_run f32 [] cf_init)))
      (cf_fadeTo f32 1 1 (cf_run f32 [] cf_init))) = clamp 0 1 1"
    using crossfade_lands_exactly [of "[]" 1 1 "cf_remaining (cf_fadeTo f32 1 1 (cf_run f32 [] cf_init))"] rem
    by blast
  with rem show ?thesis by (auto simp: clamp_def)
qed

text \<open>
  In exact arithmetic, after any history of calls, the two gains have constant power, a
  retarget does not move the position, and every sample after it moves the position by at
  most the rate \<open>1 / fullSamples\<close> of a full traversal, so there is no jump.
\<close>

theorem crossfade_equal_power_no_jump:
  fixes cs :: "cf_call list" and t :: real and ms :: u32
  defines "cf0 \<equiv> cf_run (\<lambda>x. x) cs cf_init"
  defines "cf \<equiv> cf_fadeTo (\<lambda>x. x) t ms cf0"
  shows "(gp_local (fst (cf_next (\<lambda>x. x) cf0)))\<^sup>2 + (gp_phone (fst (cf_next (\<lambda>x. x) cf0)))\<^sup>2 = 1 \<and>
    cf_position cf = cf_position cf0 \<and>
    \<bar>cf_position ((cf_advance (\<lambda>x. x) ^^ Suc n) cf) - cf_position ((cf_advance (\<lambda>x. x) ^^ n) cf)\<bar>
      \<le> 1 / real (max 1 (millisToSamples ms))"
proof (intro conjI)
  show "(gp_local (fst (cf_next (\<lambda>x. x) cf0)))\<^sup>2 + (gp_phone (fst (cf_next (\<lambda>x. x) cf0)))\<^sup>2 = 1"
    by (simp add: cf_next_def Let_def)
  show "cf_position cf = cf_position cf0"
    by (simp add: cf_def cf_fadeTo_def Let_def)
  have "cf_line cf"
    unfolding cf_def cf0_def by (intro cf_line_fadeTo cf_run_line cf_line_init)
  then have line: "cf_line ((cf_advance (\<lambda>x. x) ^^ n) cf)"
    by (induction n) (simp_all add: cf_line_advance)
  have "\<bar>cf_step cf\<bar> \<le> 1 / real (max 1 (millisToSamples ms))"
    using exact_step_rate [of "clamp 0 1 t - cf_position cf0" ms]
    by (auto simp: cf_def cf_fadeTo_def Let_def)
  moreover have "\<bar>if b then cf_step cf else 0\<bar> \<le> \<bar>cf_step cf\<bar>" for b by simp
  ultimately show "\<bar>cf_position ((cf_advance (\<lambda>x. x) ^^ Suc n) cf) -
      cf_position ((cf_advance (\<lambda>x. x) ^^ n) cf)\<bar> \<le> 1 / real (max 1 (millisToSamples ms))"
    using cf_line_advance [OF line] by (simp add: cf_advance_steps split: if_splits)
qed

end
