(* ===== verification/Logging.thy ===== *)
theory Logging
  imports Prelude "HOL-Library.List_Lexorder" "HOL-Library.Char_ord"
begin

text \<open>
  The structured log of \<^verbatim>\<open>windows/audio-service/src/logging.cpp\<close>. The globals of the file are
  the record \<open>log_globals\<close>; the sink of the caller is a parameter of the type of the state it
  changes, and the fallback to \<open>stderr\<close> is a list of the lines printed. Other components
  append to a trace of \<open>log_line\<close>s, which is what they hand to \<open>log\<close>.
\<close>

datatype log_level = LL_Trace | LL_Debug | LL_Info | LL_Warn | LL_Error

text \<open>\<open>static_cast<int>(level)\<close>\<close>

fun log_level_int :: "log_level \<Rightarrow> int" where
  "log_level_int LL_Trace = 0"
| "log_level_int LL_Debug = 1"
| "log_level_int LL_Info = 2"
| "log_level_int LL_Warn = 3"
| "log_level_int LL_Error = 4"

instantiation log_level :: linorder
begin

definition less_eq_log_level :: "log_level \<Rightarrow> log_level \<Rightarrow> bool" where
  "less_eq_log_level a b \<longleftrightarrow> log_level_int a \<le> log_level_int b"

definition less_log_level :: "log_level \<Rightarrow> log_level \<Rightarrow> bool" where
  "less_log_level a b \<longleftrightarrow> log_level_int a < log_level_int b"

instance
proof
  fix a b :: log_level
  show "a \<le> b \<Longrightarrow> b \<le> a \<Longrightarrow> a = b"
    by (cases a; cases b) (simp_all add: less_eq_log_level_def)
qed (auto simp: less_eq_log_level_def less_log_level_def)

end

fun levelName :: "log_level \<Rightarrow> string" where
  "levelName LL_Trace = ''TRACE''"
| "levelName LL_Debug = ''DEBUG''"
| "levelName LL_Info = ''INFO''"
| "levelName LL_Warn = ''WARN''"
| "levelName LL_Error = ''ERROR''"

record log_line =
  ll_level :: log_level
  ll_component :: string
  ll_message :: string

record log_record =
  lr_level :: log_level
  lr_component :: string
  lr_message :: string
  lr_correlationId :: u64

text \<open>\<open>lg_sink\<close> is the \<open>std::function\<close>, empty or applied to a record and the caller's state.\<close>

record 'a log_globals =
  lg_sink :: "(log_record \<Rightarrow> 'a \<Rightarrow> 'a) option"
  lg_level :: log_level
  lg_correlation :: u64
  lg_stderr :: "string list"

definition log_init :: "'a log_globals" where
  "log_init = \<lparr>lg_sink = None, lg_level = LL_Info, lg_correlation = 1, lg_stderr = []\<rparr>"

definition setLogSink :: "(log_record \<Rightarrow> 'a \<Rightarrow> 'a) option \<Rightarrow> 'a log_globals \<Rightarrow> 'a log_globals" where
  "setLogSink sink g = g\<lparr>lg_sink := sink\<rparr>"

definition setLogLevel :: "log_level \<Rightarrow> 'a log_globals \<Rightarrow> 'a log_globals" where
  "setLogLevel level g = g\<lparr>lg_level := level\<rparr>"

text \<open>The format \<open>[%-5s] component: message\<close>.\<close>

definition log_format :: "log_record \<Rightarrow> string" where
  "log_format rec =
     ''['' @ levelName (lr_level rec) @ replicate (5 - length (levelName (lr_level rec))) CHR '' '' @
     ''] '' @ lr_component rec @ '': '' @ lr_message rec @ [CHR 0x0A]"

definition log_write :: "log_line \<Rightarrow> 'a \<times> 'a log_globals \<Rightarrow> 'a \<times> 'a log_globals" where
  "log_write l = (\<lambda>(a, g).
     if ll_level l < lg_level g then (a, g)
     else
       let rec = \<lparr>lr_level = ll_level l, lr_component = ll_component l,
                  lr_message = ll_message l, lr_correlationId = lg_correlation g\<rparr>;
           g' = g\<lparr>lg_correlation := lg_correlation g + 1\<rparr>
       in (case lg_sink g' of
             Some f \<Rightarrow> (f rec a, g')
           | None \<Rightarrow> (a, g'\<lparr>lg_stderr := lg_stderr g' @ [log_format rec]\<rparr>)))"

section \<open>Facts\<close>

text \<open>A line reaches the sink or stderr exactly when its level is at the threshold or above.\<close>

definition log_all :: "log_line list \<Rightarrow> 'a \<times> 'a log_globals \<Rightarrow> 'a \<times> 'a log_globals" where
  "log_all ls = fold log_write ls"

lemma log_all_stderr:
  assumes "lg_sink g = None"
  shows "length (lg_stderr (snd (log_all ls (a, g)))) =
      length (lg_stderr g) + length (filter (\<lambda>l. lg_level g \<le> ll_level l) ls) \<and>
    lg_correlation (snd (log_all ls (a, g))) =
      lg_correlation g + of_nat (length (filter (\<lambda>l. lg_level g \<le> ll_level l) ls))"
  using assms unfolding log_all_def
proof (induction ls arbitrary: g)
  case (Cons l ls)
  show ?case
  proof (cases "ll_level l < lg_level g")
    case True
    then have "log_write l (a, g) = (a, g)" by (simp add: log_write_def)
    then show ?thesis using True Cons.IH [of g] Cons.prems by simp
  next
    case False
    define g' where "g' = snd (log_write l (a, g))"
    have g': "log_write l (a, g) = (a, g')" "lg_sink g' = None" "lg_level g' = lg_level g"
        "lg_correlation g' = lg_correlation g + 1"
        "length (lg_stderr g') = Suc (length (lg_stderr g))"
      using False Cons.prems by (simp_all add: g'_def log_write_def Let_def)
    from Cons.IH [OF g'(2)] g' False show ?thesis by (simp add: not_less algebra_simps)
  qed
qed simp

end
