(* ===== verification/DeviceRegistry.thy ===== *)
theory DeviceRegistry
  imports AudioIO Logging
begin

text \<open>
  The inventory of capture devices of \<^verbatim>\<open>windows/audio-service/src/device_registry.cpp\<close> and the
  guards that keep SmartMic from capturing itself. The change callback is a value of a type
  of the caller; \<open>setDevices\<close> returns the callback it calls after releasing the lock. Each
  method holds the mutex for its whole body, so a concurrent history is a sequence of calls.
\<close>

record 'cb device_registry =
  dr_devices :: "device_info list"
  dr_preferredId :: "string option"
  dr_autoPrefer :: bool
  dr_onChanged :: "'cb option"
  dr_log :: "log_line list"

definition dr_init :: "'cb device_registry" where
  "dr_init = \<lparr>dr_devices = [], dr_preferredId = None, dr_autoPrefer = False,
              dr_onChanged = None, dr_log = []\<rparr>"

section \<open>Operations\<close>

text \<open>The loop of \<open>setDevices\<close>: the first usable device whose id is new, if there was a list.\<close>

fun dr_newcomer :: "string list \<Rightarrow> device_info list \<Rightarrow> string option" where
  "dr_newcomer previousIds [] = None"
| "dr_newcomer previousIds (d # ds) =
     (if di_isSmartMicEndpoint d then dr_newcomer previousIds ds
      else if di_id d \<notin> set previousIds \<and> previousIds \<noteq> [] then Some (di_id d)
      else dr_newcomer previousIds ds)"

definition dr_setDevices ::
  "device_info list \<Rightarrow> 'cb device_registry \<Rightarrow> 'cb option \<times> 'cb device_registry" where
  "dr_setDevices devices reg =
     (let previousIds = map di_id (dr_devices reg);
          pref = (if dr_autoPrefer reg then
                    (case dr_newcomer previousIds devices of
                       Some i \<Rightarrow> Some i | None \<Rightarrow> dr_preferredId reg)
                  else dr_preferredId reg)
      in (dr_onChanged reg, reg\<lparr>dr_devices := devices, dr_preferredId := pref\<rparr>))"

definition dr_allDevices :: "'cb device_registry \<Rightarrow> device_info list" where
  "dr_allDevices reg = dr_devices reg"

definition dr_availableInputs :: "'cb device_registry \<Rightarrow> device_info list" where
  "dr_availableInputs reg = filter (\<lambda>d. \<not> di_isSmartMicEndpoint d) (dr_devices reg)"

definition dr_setPreferredInput ::
  "string \<Rightarrow> 'cb device_registry \<Rightarrow> bool \<times> 'cb device_registry" where
  "dr_setPreferredInput i reg =
     (case find (\<lambda>d. di_id d = i) (dr_devices reg) of
        None \<Rightarrow> (False, reg)
      | Some d \<Rightarrow>
          if di_isSmartMicEndpoint d then
            (False, reg\<lparr>dr_log := dr_log reg @
               [\<lparr>ll_level = LL_Error, ll_component = ''DeviceRegistry'',
                 ll_message = ''refused to select the SmartMic endpoint as a capture source''\<rparr>]\<rparr>)
          else (True, reg\<lparr>dr_preferredId := Some i\<rparr>))"

definition dr_preferredInputId :: "'cb device_registry \<Rightarrow> string option" where
  "dr_preferredInputId reg = dr_preferredId reg"

definition dr_preferredInput :: "'cb device_registry \<Rightarrow> device_info option" where
  "dr_preferredInput reg =
     (case dr_preferredId reg of
        None \<Rightarrow> None
      | Some i \<Rightarrow> find (\<lambda>d. di_id d = i \<and> \<not> di_isSmartMicEndpoint d) (dr_devices reg))"

definition dr_resolveEffectiveInput :: "'cb device_registry \<Rightarrow> device_info option" where
  "dr_resolveEffectiveInput reg =
     (case (case dr_preferredId reg of
              None \<Rightarrow> None
            | Some i \<Rightarrow> find (\<lambda>d. di_id d = i \<and> \<not> di_isSmartMicEndpoint d) (dr_devices reg)) of
        Some d \<Rightarrow> Some d
      | None \<Rightarrow>
          (case find (\<lambda>d. \<not> di_isSmartMicEndpoint d \<and> di_isDefault d) (dr_devices reg) of
             Some d \<Rightarrow> Some d
           | None \<Rightarrow> find (\<lambda>d. \<not> di_isSmartMicEndpoint d) (dr_devices reg)))"

definition dr_setAutoPrefer :: "bool \<Rightarrow> 'cb device_registry \<Rightarrow> 'cb device_registry" where
  "dr_setAutoPrefer on reg = reg\<lparr>dr_autoPrefer := on\<rparr>"

definition dr_autoPreferNewDevices :: "'cb device_registry \<Rightarrow> bool" where
  "dr_autoPreferNewDevices reg = dr_autoPrefer reg"

definition dr_setOnChanged :: "'cb option \<Rightarrow> 'cb device_registry \<Rightarrow> 'cb device_registry" where
  "dr_setOnChanged cb reg = reg\<lparr>dr_onChanged := cb\<rparr>"

section \<open>Facts\<close>

lemma find_SomeD: "find P xs = Some x \<Longrightarrow> x \<in> set xs \<and> P x"
  by (induction xs) (auto split: if_splits)

lemma find_NoneD: "find P xs = None \<longleftrightarrow> (\<forall>x\<in>set xs. \<not> P x)"
  by (induction xs) auto

lemma dr_newcomer_spec:
  "dr_newcomer prev ds = Some i \<Longrightarrow>
     prev \<noteq> [] \<and> i \<notin> set prev \<and> (\<exists>d\<in>set ds. di_id d = i \<and> \<not> di_isSmartMicEndpoint d)"
  by (induction ds) (auto split: if_splits)

lemma dr_resolve_usable:
  "dr_resolveEffectiveInput reg = Some d \<Longrightarrow>
     d \<in> set (dr_devices reg) \<and> \<not> di_isSmartMicEndpoint d"
  by (auto simp: dr_resolveEffectiveInput_def dest!: find_SomeD split: option.splits)

lemma dr_resolve_None:
  "dr_resolveEffectiveInput reg = None \<longleftrightarrow> (\<forall>d\<in>set (dr_devices reg). di_isSmartMicEndpoint d)"
proof
  assume "dr_resolveEffectiveInput reg = None"
  then have "find (\<lambda>d. \<not> di_isSmartMicEndpoint d) (dr_devices reg) = None"
    by (auto simp: dr_resolveEffectiveInput_def split: option.splits)
  then show "\<forall>d\<in>set (dr_devices reg). di_isSmartMicEndpoint d" by (simp add: find_NoneD)
next
  assume "\<forall>d\<in>set (dr_devices reg). di_isSmartMicEndpoint d"
  then show "dr_resolveEffectiveInput reg = None"
    using dr_resolve_usable [of reg] by (cases "dr_resolveEffectiveInput reg") auto
qed

lemma dr_preferred_usable:
  "dr_preferredInput reg = Some d \<Longrightarrow>
     d \<in> set (dr_devices reg) \<and> \<not> di_isSmartMicEndpoint d \<and> dr_preferredId reg = Some (di_id d)"
  by (auto simp: dr_preferredInput_def dest!: find_SomeD split: option.splits)

lemma dr_resolve_preferred:
  "dr_preferredInput reg = Some d \<Longrightarrow> dr_resolveEffectiveInput reg = Some d"
  by (auto simp: dr_preferredInput_def dr_resolveEffectiveInput_def split: option.splits)

text \<open>
  SmartMic never captures itself. Whatever the inventory and the preference, no method
  that offers an input offers the SmartMic endpoint; an effective input exists exactly when a
  usable device does, it is the preferred one when that is present, and choosing a device
  makes it the effective input unless it is refused with the registry otherwise unchanged.
\<close>

theorem registry_never_offers_endpoint:
  fixes reg :: "'cb device_registry"
  shows "(\<forall>d\<in>set (dr_availableInputs reg). \<not> di_isSmartMicEndpoint d) \<and>
    (\<forall>d. dr_resolveEffectiveInput reg = Some d \<longrightarrow>
         d \<in> set (dr_allDevices reg) \<and> \<not> di_isSmartMicEndpoint d) \<and>
    (dr_resolveEffectiveInput reg = None \<longleftrightarrow> dr_availableInputs reg = []) \<and>
    (\<forall>d. dr_preferredInput reg = Some d \<longrightarrow> dr_resolveEffectiveInput reg = Some d) \<and>
    (\<forall>i. fst (dr_setPreferredInput i reg) \<longrightarrow>
         (\<exists>d. dr_resolveEffectiveInput (snd (dr_setPreferredInput i reg)) = Some d \<and> di_id d = i)) \<and>
    (\<forall>i. \<not> fst (dr_setPreferredInput i reg) \<longrightarrow>
         dr_preferredId (snd (dr_setPreferredInput i reg)) = dr_preferredId reg \<and>
         dr_devices (snd (dr_setPreferredInput i reg)) = dr_devices reg)"
proof (intro conjI allI impI)
  show "\<forall>d\<in>set (dr_availableInputs reg). \<not> di_isSmartMicEndpoint d"
    by (simp add: dr_availableInputs_def)
  show "dr_resolveEffectiveInput reg = None \<longleftrightarrow> dr_availableInputs reg = []"
    by (auto simp: dr_resolve_None dr_availableInputs_def filter_empty_conv)
next
  fix d
  assume "dr_resolveEffectiveInput reg = Some d"
  then show "d \<in> set (dr_allDevices reg)" "\<not> di_isSmartMicEndpoint d"
    using dr_resolve_usable [of reg d] by (simp_all add: dr_allDevices_def)
next
  fix d
  assume "dr_preferredInput reg = Some d"
  then show "dr_resolveEffectiveInput reg = Some d" by (rule dr_resolve_preferred)
next
  fix i
  assume a: "fst (dr_setPreferredInput i reg)"
  then obtain d where d: "find (\<lambda>d. di_id d = i) (dr_devices reg) = Some d" "\<not> di_isSmartMicEndpoint d"
    by (auto simp: dr_setPreferredInput_def split: option.splits if_splits)
  then have "\<exists>e. find (\<lambda>d. di_id d = i \<and> \<not> di_isSmartMicEndpoint d) (dr_devices reg) = Some e"
    using find_SomeD [OF d(1)] find_NoneD [of "\<lambda>d. di_id d = i \<and> \<not> di_isSmartMicEndpoint d" "dr_devices reg"]
    by (cases "find (\<lambda>d. di_id d = i \<and> \<not> di_isSmartMicEndpoint d) (dr_devices reg)") auto
  then obtain e where e: "find (\<lambda>d. di_id d = i \<and> \<not> di_isSmartMicEndpoint d) (dr_devices reg) = Some e"
    by blast
  have "dr_preferredInput (snd (dr_setPreferredInput i reg)) = Some e"
    using d e by (simp add: dr_setPreferredInput_def dr_preferredInput_def)
  then show "\<exists>d. dr_resolveEffectiveInput (snd (dr_setPreferredInput i reg)) = Some d \<and> di_id d = i"
    using dr_resolve_preferred find_SomeD [OF e] by blast
qed (auto simp: dr_setPreferredInput_def split: option.splits if_splits)

theorem registry_never_offers_endpoint_witness:
  "let d = \<lparr>di_id = ''mic'', di_name = ''USB'', di_isDefault = False, di_isSmartMicEndpoint = False,
            di_nativeRate = 48000, di_nativeChannels = 1\<rparr>;
       e = \<lparr>di_id = ''sm'', di_name = ''SmartMic'', di_isDefault = True, di_isSmartMicEndpoint = True,
            di_nativeRate = 48000, di_nativeChannels = 1\<rparr>;
       reg = dr_init\<lparr>dr_devices := [e, d]\<rparr> :: unit device_registry
   in fst (dr_setPreferredInput ''mic'' reg) \<and> \<not> fst (dr_setPreferredInput ''sm'' reg) \<and>
      (\<exists>x. dr_resolveEffectiveInput (snd (dr_setPreferredInput ''mic'' reg)) = Some x \<and> di_id x = ''mic'')"
proof -
  let ?d = "\<lparr>di_id = ''mic'', di_name = ''USB'', di_isDefault = False, di_isSmartMicEndpoint = False,
            di_nativeRate = 48000, di_nativeChannels = 1\<rparr> :: device_info"
  let ?e = "\<lparr>di_id = ''sm'', di_name = ''SmartMic'', di_isDefault = True, di_isSmartMicEndpoint = True,
            di_nativeRate = 48000, di_nativeChannels = 1\<rparr> :: device_info"
  let ?reg = "dr_init\<lparr>dr_devices := [?e, ?d]\<rparr> :: unit device_registry"
  have s: "fst (dr_setPreferredInput ''mic'' ?reg)" "\<not> fst (dr_setPreferredInput ''sm'' ?reg)"
    by (simp_all add: dr_setPreferredInput_def)
  then have "\<exists>x. dr_resolveEffectiveInput (snd (dr_setPreferredInput ''mic'' ?reg)) = Some x \<and> di_id x = ''mic''"
    using registry_never_offers_endpoint [of ?reg] by blast
  with s show ?thesis by (simp only: Let_def simp_thms)
qed

end
