(* ===== verification/Resampler.thy ===== *)
theory Resampler
  imports AudioIO
begin

text \<open>
  The stateful linear resampler of \<^verbatim>\<open>windows/audio-service/src/resampler.cpp\<close>. \<open>rd\<close> and \<open>rf\<close>
  are the roundings of \<open>double\<close> and \<open>float\<close>. The \<open>while (true)\<close> of \<open>process\<close> is a partial
  function whose value \<open>None\<close> is a loop that does not end: with binary64 it ends for every
  block the code can be given, because the position always advances. For an exactly computed
  position the output does not depend on how the input is cut into blocks, the property the
  header asks for.
\<close>

section \<open>The object\<close>

record linear_resampler =
  rs_inputRate :: u32
  rs_passthrough :: bool
  rs_ratio :: real
  rs_phase :: real
  rs_last :: real
  rs_primed :: bool

definition rs_init :: linear_resampler where
  "rs_init = \<lparr>rs_inputRate = 0, rs_passthrough = True, rs_ratio = 1, rs_phase = 0,
              rs_last = 0, rs_primed = False\<rparr>"

definition rs_reset :: "(real \<Rightarrow> real) \<Rightarrow> u32 \<Rightarrow> linear_resampler \<Rightarrow> linear_resampler" where
  "rs_reset rd inputRate rs =
     (let pass = (unat inputRate = kSampleRate \<or> inputRate = 0)
      in rs\<lparr>rs_inputRate := inputRate,
            rs_passthrough := pass,
            rs_ratio := (if pass then 1 else rd (real (unat inputRate) / real kSampleRate)),
            rs_phase := 0,
            rs_last := 0,
            rs_primed := False\<rparr>)"

definition rs_estimateOutput :: "(real \<Rightarrow> real) \<Rightarrow> nat \<Rightarrow> linear_resampler \<Rightarrow> nat" where
  "rs_estimateOutput rd inputSamples rs =
     (if rs_passthrough rs then inputSamples
      else nat \<lceil>rd (rd (real inputSamples) / rs_ratio rs)\<rceil> + 1)"

text \<open>
  One output sample at position \<open>pos\<close>: index \<open>-1\<close> is the last sample of the previous block,
  or the first of this one when there was none.
\<close>

definition rs_sample ::
  "(real \<Rightarrow> real) \<Rightarrow> (real \<Rightarrow> real) \<Rightarrow> bool \<Rightarrow> real \<Rightarrow> samples \<Rightarrow> real \<Rightarrow> real" where
  "rs_sample rf rd primed lst xs pos =
     (let i = \<lfloor>pos\<rfloor>;
          a = (if i < 0 then (if primed then lst else xs ! 0) else xs ! nat i);
          b = xs ! nat (i + 1);
          frac = rf (rd (pos - of_int i))
      in rf (a + rf (rf (b - a) * frac)))"

partial_function (option) rs_loop ::
  "(real \<Rightarrow> real) \<Rightarrow> (real \<Rightarrow> real) \<Rightarrow> real \<Rightarrow> bool \<Rightarrow> real \<Rightarrow> samples \<Rightarrow> real \<Rightarrow> samples
   \<Rightarrow> (samples \<times> real) option" where
  "rs_loop rf rd ratio primed lst xs pos out =
     (if \<lfloor>pos\<rfloor> + 1 \<ge> int (length xs) then Some (out, pos)
      else rs_loop rf rd ratio primed lst xs (rd (pos + ratio))
             (out @ [rs_sample rf rd primed lst xs pos]))"

definition rs_process ::
  "(real \<Rightarrow> real) \<Rightarrow> (real \<Rightarrow> real) \<Rightarrow> samples \<Rightarrow> samples \<Rightarrow> linear_resampler
   \<Rightarrow> (samples \<times> linear_resampler) option" where
  "rs_process rf rd xs out rs =
     (if xs = [] then Some (out, rs)
      else if rs_passthrough rs then Some (out @ xs, rs)
      else map_option
        (\<lambda>(out', pos).
           (out', rs\<lparr>rs_last := xs ! (length xs - 1), rs_primed := True,
                     rs_phase := rd (pos - real (length xs))\<rparr>))
        (rs_loop rf rd (rs_ratio rs) (rs_primed rs) (rs_last rs) xs (rs_phase rs) out))"

section \<open>Exact positions\<close>

text \<open>
  The outputs of a block for an exact position: the sample at \<open>pos\<close>, \<open>pos + ratio\<close>, ... as
  long as the sample after it is in the block. \<open>rs_steps\<close> is how many there are.
\<close>

definition rs_steps :: "real \<Rightarrow> real \<Rightarrow> nat \<Rightarrow> nat" where
  "rs_steps ratio pos n = nat \<lceil>(real n - 1 - pos) / ratio\<rceil>"

lemma floor_end: "int n \<le> \<lfloor>pos\<rfloor> + 1 \<longleftrightarrow> real n - 1 \<le> pos"
  by linarith

lemma rs_steps_0: "0 < ratio \<Longrightarrow> real n - 1 \<le> pos \<Longrightarrow> rs_steps ratio pos n = 0"
  by (simp add: rs_steps_def divide_le_0_iff ceiling_le_zero)

lemma rs_steps_Suc:
  assumes "0 < ratio" and "pos < real n - 1"
  shows "rs_steps ratio pos n = Suc (rs_steps ratio (pos + ratio) n)"
proof -
  have "(real n - 1 - pos) / ratio = (real n - 1 - (pos + ratio)) / ratio + 1"
    using assms by (simp add: field_simps)
  moreover have "0 < (real n - 1 - pos) / ratio" using assms by simp
  ultimately show ?thesis unfolding rs_steps_def by (simp add: Suc_nat_eq_nat_zadd1)
qed

lemma rs_loop_exact:
  assumes "0 < ratio"
  shows "rs_loop rf (\<lambda>x. x) ratio primed lst xs pos out =
    Some (out @ map (\<lambda>k. rs_sample rf (\<lambda>x. x) primed lst xs (pos + real k * ratio))
                  [0..<rs_steps ratio pos (length xs)],
          pos + real (rs_steps ratio pos (length xs)) * ratio)"
proof (induction "rs_steps ratio pos (length xs)" arbitrary: pos out)
  case 0
  then have "real (length xs) - 1 \<le> pos"
    using rs_steps_Suc [OF assms, of pos "length xs"] by (cases "pos < real (length xs) - 1") auto
  with 0 show ?case by (subst rs_loop.simps) (simp add: floor_end)
next
  case (Suc m)
  then have less: "pos < real (length xs) - 1"
    using rs_steps_0 [OF assms, of "length xs" pos] by linarith
  then have m: "m = rs_steps ratio (pos + ratio) (length xs)"
    using Suc(2) rs_steps_Suc [OF assms less] by simp
  have "[0..<Suc m] = 0 # map Suc [0..<m]"
    by (simp add: upt_conv_Cons map_Suc_upt del: upt_Suc)
  then show ?case
    using Suc(1) [OF m] less floor_end [of "length xs" pos] unfolding Suc(2) [symmetric]
    by (subst rs_loop.simps) (simp add: m [symmetric] algebra_simps comp_def)
qed


lemma rs_steps_add:
  assumes "0 < ratio" and "n \<le> m"
  shows "rs_steps ratio pos m =
    rs_steps ratio pos n + rs_steps ratio (pos + real (rs_steps ratio pos n) * ratio) m"
proof (induction "rs_steps ratio pos n" arbitrary: pos)
  case 0
  then show ?case by simp
next
  case (Suc k)
  then have less: "pos < real n - 1"
    using rs_steps_0 [OF assms(1), of n pos] by linarith
  then have less': "pos < real m - 1" using assms(2) by linarith
  have k: "k = rs_steps ratio (pos + ratio) n"
    using Suc(2) rs_steps_Suc [OF assms(1) less] by simp
  have "pos + real (Suc k) * ratio = pos + ratio + real k * ratio" by (simp add: algebra_simps)
  then show ?case
    using Suc(1) [OF k] rs_steps_Suc [OF assms(1) less'] unfolding Suc(2) [symmetric] k [symmetric]
    by (simp only: add_Suc)
qed

lemma rs_steps_end:
  assumes "0 < ratio"
  shows "real n - 1 \<le> pos + real (rs_steps ratio pos n) * ratio"
proof -
  have "(real n - 1 - pos) / ratio \<le> real (rs_steps ratio pos n)"
    unfolding rs_steps_def by linarith
  then show ?thesis using assms by (simp add: field_simps)
qed

lemma rs_steps_before:
  assumes "0 < ratio" and "k < rs_steps ratio pos n"
  shows "pos + real k * ratio < real n - 1"
proof -
  have "real k < (real n - 1 - pos) / ratio"
    using assms(2) unfolding rs_steps_def by linarith
  then show ?thesis using assms(1) by (simp add: field_simps)
qed

lemma rs_steps_shift: "rs_steps ratio pos (n + m) = rs_steps ratio (pos - real n) m"
  by (simp add: rs_steps_def algebra_simps)

lemma rs_sample_prefix:
  assumes "pos < real (length xs) - 1" and "- 1 \<le> pos" and "primed \<or> 0 \<le> pos"
  shows "rs_sample rf rd primed lst (xs @ ys) pos = rs_sample rf rd primed lst xs pos"
proof -
  have i: "nat \<lfloor>pos\<rfloor> < length xs" "nat (\<lfloor>pos\<rfloor> + 1) < length xs"
    using assms by linarith+
  show ?thesis
    using assms i by (auto simp: rs_sample_def Let_def nth_append)
qed

lemma rs_sample_suffix:
  assumes "real (length xs) - 1 \<le> pos" and "xs \<noteq> []"
  shows "rs_sample rf (\<lambda>x. x) primed lst (xs @ ys) pos =
    rs_sample rf (\<lambda>x. x) True (xs ! (length xs - 1)) ys (pos - real (length xs))"
proof -
  have len: "1 \<le> length xs" using assms(2) by (cases xs) auto
  have fl: "\<lfloor>pos - real (length xs)\<rfloor> = \<lfloor>pos\<rfloor> - int (length xs)" by linarith
  have i: "int (length xs) - 1 \<le> \<lfloor>pos\<rfloor>" using assms(1) by linarith
  have b: "(xs @ ys) ! nat (\<lfloor>pos\<rfloor> + 1) = ys ! nat (\<lfloor>pos\<rfloor> - int (length xs) + 1)"
  proof -
    have "\<not> nat (\<lfloor>pos\<rfloor> + 1) < length xs"
        "nat (\<lfloor>pos\<rfloor> + 1) - length xs = nat (\<lfloor>pos\<rfloor> - int (length xs) + 1)"
      using i by linarith+
    then show ?thesis by (simp only: nth_append if_False)
  qed
  have a: "(xs @ ys) ! nat \<lfloor>pos\<rfloor> =
      (if \<lfloor>pos\<rfloor> - int (length xs) < 0 then xs ! (length xs - 1) else ys ! nat (\<lfloor>pos\<rfloor> - int (length xs)))"
  proof (cases "\<lfloor>pos\<rfloor> - int (length xs) < 0")
    case True
    then have "nat \<lfloor>pos\<rfloor> = length xs - 1" using i len by linarith
    moreover have "length xs - 1 < length xs" using len by linarith
    ultimately show ?thesis using True by (simp only: nth_append if_True)
  next
    case False
    then have "\<not> nat \<lfloor>pos\<rfloor> < length xs"
        "nat \<lfloor>pos\<rfloor> - length xs = nat (\<lfloor>pos\<rfloor> - int (length xs))"
      by linarith+
    with False show ?thesis by (simp only: nth_append if_False)
  qed
  have "\<not> \<lfloor>pos\<rfloor> < 0" using i len by linarith
  then show ?thesis
    by (simp only: rs_sample_def Let_def fl a b if_False if_True) simp
qed

section \<open>Independence of the blocks\<close>

definition rs_ok :: "linear_resampler \<Rightarrow> bool" where
  "rs_ok rs \<longleftrightarrow> 0 < rs_ratio rs \<and> - 1 \<le> rs_phase rs \<and> (rs_primed rs \<or> 0 \<le> rs_phase rs)"

lemma rs_process_exact:
  assumes "rs_ok rs" and "xs \<noteq> []" and "\<not> rs_passthrough rs"
  defines "s \<equiv> rs_steps (rs_ratio rs) (rs_phase rs) (length xs)"
  shows "rs_process rf (\<lambda>x. x) xs out rs =
    Some (out @ map (\<lambda>k. rs_sample rf (\<lambda>x. x) (rs_primed rs) (rs_last rs) xs
                       (rs_phase rs + real k * rs_ratio rs)) [0..<s],
          rs\<lparr>rs_last := xs ! (length xs - 1), rs_primed := True,
             rs_phase := rs_phase rs + real s * rs_ratio rs - real (length xs)\<rparr>)"
  using assms by (simp add: rs_process_def rs_loop_exact rs_ok_def)

lemma rs_process_ok:
  assumes "rs_ok rs" and "rs_process rf (\<lambda>x. x) xs out rs = Some (out', rs')"
  shows "rs_ok rs' \<and> rs_passthrough rs' = rs_passthrough rs"
proof (cases "xs = [] \<or> rs_passthrough rs")
  case True
  then show ?thesis using assms by (auto simp: rs_process_def split: if_splits)
next
  case False
  then show ?thesis
    using assms rs_process_exact [of rs xs rf out] rs_steps_end [of "rs_ratio rs" "length xs" "rs_phase rs"]
    by (auto simp: rs_ok_def)
qed

lemma rs_process_append:
  assumes ok: "rs_ok rs"
  shows "rs_process rf (\<lambda>x. x) (xs @ ys) out rs =
    Option.bind (rs_process rf (\<lambda>x. x) xs out rs) (\<lambda>(out', rs'). rs_process rf (\<lambda>x. x) ys out' rs')"
proof -
  consider "xs = []" | "xs \<noteq> []" "ys = []" | "xs \<noteq> []" "ys \<noteq> []" "rs_passthrough rs"
    | "xs \<noteq> []" "ys \<noteq> []" "\<not> rs_passthrough rs" by blast
  then show ?thesis
  proof cases
    case 2
    then show ?thesis
      by (cases "rs_process rf (\<lambda>x. x) xs out rs") (auto simp: rs_process_def)
  next
    case 4
    define r p n m where "r = rs_ratio rs" and "p = rs_phase rs" and "n = length xs" and "m = length ys"
    define s t where "s = rs_steps r p n" and "t = rs_steps r (p + real s * r - real n) m"
    have r: "0 < r" using ok by (simp add: rs_ok_def r_def)
    have st: "rs_steps r p (n + m) = s + t"
      using rs_steps_add [OF r, of n "n + m" p] rs_steps_shift [of r "p + real s * r" n m]
      by (simp add: s_def t_def)
    let ?sm = "\<lambda>zs k. rs_sample rf (\<lambda>x. x) (rs_primed rs) (rs_last rs) zs (p + real k * r)"
    have first: "map (?sm (xs @ ys)) [0..<s] = map (?sm xs) [0..<s]"
    proof (rule map_cong [OF refl])
      fix k
      assume "k \<in> set [0..<s]"
      then have "p + real k * r < real n - 1" using rs_steps_before [OF r] by (simp add: s_def)
      moreover have "0 \<le> real k * r" using r by simp
      ultimately show "?sm (xs @ ys) k = ?sm xs k"
        using ok by (intro rs_sample_prefix) (auto simp: rs_ok_def p_def n_def)
    qed
    have second: "map (?sm (xs @ ys)) [s..<s + t] =
        map (\<lambda>k. rs_sample rf (\<lambda>x. x) True (xs ! (n - 1)) ys (p + real s * r - real n + real k * r)) [0..<t]"
    proof (rule nth_equalityI)
      fix k
      assume "k < length (map (?sm (xs @ ys)) [s..<s + t])"
      then have k: "k < t" by simp
      have "real n - 1 \<le> p + real s * r" using rs_steps_end [OF r] by (simp add: s_def)
      moreover have "0 \<le> real k * r" using r by simp
      ultimately have "real n - 1 \<le> p + real (s + k) * r" by (simp add: algebra_simps)
      then have "?sm (xs @ ys) (s + k) =
          rs_sample rf (\<lambda>x. x) True (xs ! (n - 1)) ys (p + real (s + k) * r - real n)"
        unfolding n_def using 4 by (intro rs_sample_suffix) auto
      then show "map (?sm (xs @ ys)) [s..<s + t] ! k =
          map (\<lambda>k. rs_sample rf (\<lambda>x. x) True (xs ! (n - 1)) ys (p + real s * r - real n + real k * r)) [0..<t] ! k"
        using k by (simp add: algebra_simps)
    qed simp
    have split: "[0..<s + t] = [0..<s] @ [s..<s + t]"
      by (rule upt_add_eq_append) simp
    have last: "(xs @ ys) ! (n + m - 1) = ys ! (m - 1)"
      using 4 by (cases ys) (simp_all add: n_def m_def nth_append)
    obtain rs' where rs': "rs_process rf (\<lambda>x. x) xs out rs = Some (out @ map (?sm xs) [0..<s], rs')"
        "rs' = rs\<lparr>rs_last := xs ! (n - 1), rs_primed := True, rs_phase := p + real s * r - real n\<rparr>"
      using rs_process_exact [OF ok, of xs rf out] 4 by (simp add: s_def r_def p_def n_def)
    have "rs_ok rs'" "\<not> rs_passthrough rs'"
      using rs_process_ok [OF ok rs'(1)] 4 by simp_all
    from rs_process_exact [OF this(1) \<open>ys \<noteq> []\<close> this(2), of rf "out @ map (?sm xs) [0..<s]"]
    have two: "rs_process rf (\<lambda>x. x) ys (out @ map (?sm xs) [0..<s]) rs' =
        Some ((out @ map (?sm xs) [0..<s]) @
              map (\<lambda>k. rs_sample rf (\<lambda>x. x) True (xs ! (n - 1)) ys
                      (p + real s * r - real n + real k * r)) [0..<t],
            rs'\<lparr>rs_last := ys ! (m - 1), rs_primed := True,
               rs_phase := p + real s * r - real n + real t * r - real m\<rparr>)"
      by (simp add: rs'(2) t_def r_def [symmetric] m_def [symmetric])
    have "rs_process rf (\<lambda>x. x) (xs @ ys) out rs =
        Some (out @ map (?sm (xs @ ys)) [0..<s + t],
              rs\<lparr>rs_last := ys ! (m - 1), rs_primed := True,
                 rs_phase := p + real (s + t) * r - real (n + m)\<rparr>)"
      using rs_process_exact [OF ok, of "xs @ ys" rf out] 4 st last
      by (simp add: r_def p_def n_def m_def)
    then show ?thesis
      using two by (simp add: rs'(1) split first second) (simp add: rs'(2) algebra_simps)
  qed (auto simp: rs_process_def)
qed

text \<open>Feeding a stream block by block.\<close>

fun rs_feed ::
  "(real \<Rightarrow> real) \<Rightarrow> (real \<Rightarrow> real) \<Rightarrow> samples list \<Rightarrow> samples \<Rightarrow> linear_resampler
   \<Rightarrow> (samples \<times> linear_resampler) option" where
  "rs_feed rf rd [] out rs = Some (out, rs)"
| "rs_feed rf rd (b # bs) out rs =
     (case rs_process rf rd b out rs of None \<Rightarrow> None | Some (out', rs') \<Rightarrow> rs_feed rf rd bs out' rs')"

lemma rs_feed_concat:
  "rs_ok rs \<Longrightarrow> rs_feed rf (\<lambda>x. x) bs out rs = rs_process rf (\<lambda>x. x) (concat bs) out rs"
proof (induction bs arbitrary: out rs)
  case Nil
  then show ?case by (simp add: rs_process_def)
next
  case (Cons b bs)
  show ?case
  proof (cases "rs_process rf (\<lambda>x. x) b out rs")
    case None
    then show ?thesis using rs_process_append [OF Cons.prems, of rf b "concat bs" out] by simp
  next
    case (Some a)
    obtain out' rs' where a: "a = (out', rs')" by (metis prod.exhaust)
    have "rs_ok rs'" using rs_process_ok [OF Cons.prems] Some a by blast
    then show ?thesis
      using rs_process_append [OF Cons.prems, of rf b "concat bs" out] Some a Cons.IH by simp
  qed
qed

lemma rs_ok_reset_exact: "rs_ok (rs_reset (\<lambda>x. x) rate rs)"
proof -
  have "rate \<noteq> 0 \<Longrightarrow> 0 < real (unat rate)"
    by (simp only: of_nat_0_less_iff unat_gt_0 not_False_eq_True)
  then show ?thesis by (auto simp: rs_ok_def rs_reset_def Let_def kSampleRate_def)
qed

section \<open>Termination with binary64 positions\<close>

definition rs64_ok :: "linear_resampler \<Rightarrow> bool" where
  "rs64_ok rs \<longleftrightarrow> 1 / 2 ^ 16 \<le> rs_ratio rs \<and> rs_ratio rs \<le> 2 ^ 18 \<and>
     - 1 \<le> rs_phase rs \<and> rs_phase rs \<le> 2 ^ 19"

lemma f64_advances:
  assumes "- 1 \<le> pos" and "pos \<le> 2 ^ 31" and "1 / 2 ^ 16 \<le> ratio" and "ratio \<le> 2 ^ 18"
  shows "pos + 1 / 2 ^ 17 \<le> f64 (pos + ratio)" and "f64 (pos + ratio) \<le> pos + ratio + 1 / 2 ^ 22"
proof -
  define y where "y = f64 (pos + ratio)"
  have "\<bar>y - (pos + ratio)\<bar> \<le> 1 / 2 ^ 22"
    unfolding y_def by (rule f64_error) (use assms in simp)
  then have y: "y - (pos + ratio) \<le> 1 / 2 ^ 22" "(pos + ratio) - y \<le> 1 / 2 ^ 22"
    unfolding abs_le_iff by simp_all
  show "f64 (pos + ratio) \<le> pos + ratio + 1 / 2 ^ 22"
    using y(1) unfolding y_def by (simp only: algebra_simps)
  have "(1 / 2 ^ 17 :: real) + 1 / 2 ^ 22 \<le> 1 / 2 ^ 16" by simp
  then show "pos + 1 / 2 ^ 17 \<le> f64 (pos + ratio)"
    using y(2) assms(3) unfolding y_def [symmetric] by argo
qed

lemma rs_loop_f64:
  assumes n: "length xs \<le> 2 ^ 31" and r: "1 / 2 ^ 16 \<le> ratio" "ratio \<le> 2 ^ 18" and "- 1 \<le> pos"
  shows "\<exists>out' pos'. rs_loop rf f64 ratio primed lst xs pos out = Some (out @ out', pos') \<and>
    real (length xs) - 1 \<le> pos' \<and> pos' \<le> max pos (real (length xs) + ratio)"
  using assms(4)
proof (induction "nat \<lceil>(real (length xs) - pos) * 2 ^ 17\<rceil>" arbitrary: pos out rule: less_induct)
  case less
  show ?case
  proof (cases "real (length xs) - 1 \<le> pos")
    case True
    then have "rs_loop rf f64 ratio primed lst xs pos out = Some (out, pos)"
      using floor_end [of "length xs" pos] by (subst rs_loop.simps) simp
    with True show ?thesis by (intro exI [of _ "[]"] exI [of _ pos]) simp
  next
    case False
    define pos1 where "pos1 = f64 (pos + ratio)"
    have "real (length xs) \<le> 2 ^ 31" using n by (simp add: of_nat_le_numeral_power_cancel_iff)
    then have adv: "pos + 1 / 2 ^ 17 \<le> pos1" "pos1 \<le> pos + ratio + 1 / 2 ^ 22"
      unfolding pos1_def using f64_advances [of pos ratio] r less.prems False by simp_all
    have step: "rs_loop rf f64 ratio primed lst xs pos out =
        rs_loop rf f64 ratio primed lst xs pos1 (out @ [rs_sample rf f64 primed lst xs pos])"
      using False floor_end [of "length xs" pos] by (subst rs_loop.simps) (simp add: pos1_def)
    have "nat \<lceil>(real (length xs) - pos1) * 2 ^ 17\<rceil> < nat \<lceil>(real (length xs) - pos) * 2 ^ 17\<rceil>"
    proof -
      have "(real (length xs) - pos1) * 2 ^ 17 + 1 \<le> (real (length xs) - pos) * 2 ^ 17"
        using adv(1) by (simp add: field_simps)
      moreover have "0 < (real (length xs) - pos) * 2 ^ 17" using False by simp
      ultimately show ?thesis by linarith
    qed
    moreover have "- 1 \<le> pos1" using adv(1) less.prems by simp
    ultimately obtain out' pos' where IH:
      "rs_loop rf f64 ratio primed lst xs pos1 (out @ [rs_sample rf f64 primed lst xs pos]) =
         Some ((out @ [rs_sample rf f64 primed lst xs pos]) @ out', pos')"
      "real (length xs) - 1 \<le> pos'" "pos' \<le> max pos1 (real (length xs) + ratio)"
      using less.hyps by blast
    have "pos1 \<le> real (length xs) + ratio" using adv(2) False by simp
    then have "pos' \<le> max pos (real (length xs) + ratio)" using IH(3) by simp
    with step IH(1,2) show ?thesis
      by (intro exI [of _ "rs_sample rf f64 primed lst xs pos # out'"] exI [of _ pos']) simp
  qed
qed

lemma rs_process_f64:
  assumes "rs64_ok rs" and "length xs \<le> 2 ^ 31"
  shows "\<exists>out' rs'. rs_process rf f64 xs out rs = Some (out @ out', rs') \<and> rs64_ok rs'"
proof (cases "xs = [] \<or> rs_passthrough rs")
  case True
  then show ?thesis using assms by (auto simp: rs_process_def)
next
  case False
  from rs_loop_f64 [OF assms(2), of "rs_ratio rs" "rs_phase rs" rf "rs_primed rs" "rs_last rs" out]
  obtain out' pos' where lp:
    "rs_loop rf f64 (rs_ratio rs) (rs_primed rs) (rs_last rs) xs (rs_phase rs) out = Some (out @ out', pos')"
    "real (length xs) - 1 \<le> pos'" "pos' \<le> max (rs_phase rs) (real (length xs) + rs_ratio rs)"
    using assms(1) unfolding rs64_ok_def by blast
  have "pos' - real (length xs) \<le> 2 ^ 19" using lp(3) assms(1) by (auto simp: rs64_ok_def)
  from f64.fl_mono [OF this] have hi: "f64 (pos' - real (length xs)) \<le> 2 ^ 19"
    using f64_div [of "2 ^ 19" 0] by simp
  have "- 1 \<le> pos' - real (length xs)" using lp(2) by simp
  from f64.fl_mono [OF this] have lo: "- 1 \<le> f64 (pos' - real (length xs))"
    by (simp add: f64.fl_minus f64.fl_1)
  show ?thesis
    using False lp(1) lo hi assms(1) by (simp add: rs_process_def rs64_ok_def)
qed

lemma rs64_ok_reset: "rs64_ok (rs_reset f64 rate rs)"
proof (cases "rate = 0")
  case True
  then show ?thesis by (simp add: rs64_ok_def rs_reset_def)
next
  case False
  then have "1 \<le> unat rate" by (simp add: unat_gt_0 Suc_le_eq)
  moreover have "unat rate < 2 ^ 32" using unat_bound [of rate] by simp
  ultimately have b: "1 / 2 ^ 16 \<le> real (unat rate) / 48000" "real (unat rate) / 48000 \<le> 2 ^ 17"
  proof -
    assume a: "1 \<le> unat rate" "unat rate < 2 ^ 32"
    define n where "n = unat rate"
    have "1 \<le> real n" "real n < 2 ^ 32"
      using a unfolding n_def [symmetric] by simp_all
    then have "1 / 2 ^ 16 \<le> real n / 48000" "real n / 48000 \<le> 2 ^ 17"
      by simp_all
    then show "1 / 2 ^ 16 \<le> real (unat rate) / 48000" "real (unat rate) / 48000 \<le> 2 ^ 17"
      unfolding n_def by blast+
  qed
  have "1 / 2 ^ 16 \<le> f64 (real (unat rate) / 48000)"
    using f64.fl_mono [OF b(1)] f64_div [of 1 16] by simp
  moreover have "f64 (real (unat rate) / 48000) \<le> 2 ^ 18"
    using f64.fl_mono [OF b(2)] f64_div [of "2 ^ 17" 0] by simp
  ultimately show ?thesis
    by (auto simp: rs64_ok_def rs_reset_def Let_def kSampleRate_def)
qed

lemma rs_feed_f64:
  "rs64_ok rs \<Longrightarrow> \<forall>b\<in>set bs. length b \<le> 2 ^ 31 \<Longrightarrow> \<exists>out' rs'. rs_feed rf f64 bs out rs = Some (out @ out', rs') \<and> rs64_ok rs'"
proof (induction bs arbitrary: out rs)
  case (Cons b bs)
  from rs_process_f64 [OF Cons.prems(1), of b rf out] Cons.prems(2)
  obtain o1 rs1 where "rs_process rf f64 b out rs = Some (out @ o1, rs1)" "rs64_ok rs1" by auto
  with Cons.IH [of rs1 "out @ o1"] Cons.prems(2) show ?case by auto
qed simp

section \<open>Properties\<close>

text \<open>
  C7: with an exactly computed position, for any input rate and any float rounding, the output
  and the final state of the resampler do not depend on how the input is cut into blocks.
\<close>

theorem resampler_block_independent:
  assumes "concat blocks = concat blocks'"
  shows "rs_feed rf (\<lambda>x. x) blocks out (rs_reset (\<lambda>x. x) rate rs) =
         rs_feed rf (\<lambda>x. x) blocks' out (rs_reset (\<lambda>x. x) rate rs)"
  using assms by (simp add: rs_feed_concat rs_ok_reset_exact)

theorem resampler_block_independent_witness:
  "rs_feed f32 (\<lambda>x. x) [[1], [], [0, 1]] [] (rs_reset (\<lambda>x. x) 96000 rs_init) =
   rs_feed f32 (\<lambda>x. x) [[1, 0, 1]] [] (rs_reset (\<lambda>x. x) 96000 rs_init)"
  by (rule resampler_block_independent) simp

text \<open>
  C8: \<open>process\<close> returns. With binary64 positions, after a reset to any rate whatever, every
  sequence of blocks of up to \<open>2 ^ 31\<close> samples is consumed, only appends to the output, and
  leaves the phase at \<open>- 1\<close> or later, so that no read lies before the previous block's last
  sample.
\<close>

theorem resampler_f64_terminates:
  assumes "\<forall>b\<in>set blocks. length b \<le> 2 ^ 31"
  shows "\<exists>out' rs'. rs_feed rf f64 blocks out (rs_reset f64 rate rs) = Some (out @ out', rs') \<and>
    - 1 \<le> rs_phase rs'"
  using rs_feed_f64 [OF rs64_ok_reset assms, of rf out rate rs] by (auto simp: rs64_ok_def)

theorem resampler_f64_terminates_witness:
  "\<exists>out' rs'. rs_feed f32 f64 [[1, 0, 1], [0]] [] (rs_reset f64 44100 rs_init) = Some ([] @ out', rs') \<and>
    - 1 \<le> rs_phase rs'"
  by (rule resampler_f64_terminates) simp

end
