(* ===== verification/RouterLiveness.thy ===== *)
theory RouterLiveness
  imports Router
begin

text \<open>
  What the router guarantees on its audio clock alone (\<^verbatim>\<open>router.cpp\<close>, \<open>updateTimers\<close> and
  \<open>tick\<close>): the watchdog, the arming timeout, the one-frame recovery and the close of a fade.
  The variant \<open>settle\<close> counts the ticks a state can still last; every quiet tick decreases
  it, so that a router left alone comes to rest in the state of its mode.
\<close>

section \<open>Ticks without calls\<close>

abbreviation st :: "('l, 'p, 'k) audio_router \<Rightarrow> source_state" where
  "st r \<equiv> sm_state (ar_sm r)"

lemma sm_next_not_PhoneActive:
  "e \<noteq> Ev_PhoneReady \<Longrightarrow> sm_state sm \<noteq> PhoneActive \<Longrightarrow> sm_state (sm_next e sm) \<noteq> PhoneActive"
  using enter_PhoneActive by blast

lemma updateTimers_not_PhoneActive: "st r \<noteq> PhoneActive \<Longrightarrow> st (updateTimers fl r) \<noteq> PhoneActive"
  by (simp add: updateTimers_def step_simps sm_next_not_PhoneActive del: sm_apply_fields)

lemma fill_not_PhoneActive:
  "st r \<noteq> PhoneActive \<Longrightarrow> st (fillLocal fl lops b r) \<noteq> PhoneActive"
  "st r \<noteq> PhoneActive \<Longrightarrow> st (fillPhone fl pops b r) \<noteq> PhoneActive"
  by (simp_all add: fillLocal_def fillPhone_def ar_sourceFailed_def step_simps sm_next_not_PhoneActive
      del: sm_apply_fields split: option.split prod.split)

lemma closeFade_not_PhoneActive: "st r \<noteq> PhoneActive \<Longrightarrow> st (ar_closeFade fl r) \<noteq> PhoneActive"
  by (simp add: ar_closeFade_def step_simps sm_next_not_PhoneActive del: sm_apply_fields)

lemma tick_leaves_PhoneActive:
  assumes "st (updateTimers fl (drainEvents fl r)) \<noteq> PhoneActive"
  shows "st (snd (tick fl lops pops kops r)) \<noteq> PhoneActive"
  unfolding tick_eq
  by (rule closeFade_not_PhoneActive)
     (simp add: step_simps tick_mixed_def readSources_def Let_def fill_not_PhoneActive assms)

lemma drainEvents_quiet:
  "rb_contents (ar_events r) = [] \<Longrightarrow>
     ar_sm (drainEvents fl r) = ar_sm r \<and> ar_fade (drainEvents fl r) = ar_fade r \<and>
     ar_gate (drainEvents fl r) = ar_gate r \<and>
     ar_frameIndex (drainEvents fl r) = ar_frameIndex r \<and>
     ar_armStartedFrame (drainEvents fl r) = ar_armStartedFrame r \<and>
     ar_lastHeartbeatFrame (drainEvents fl r) = ar_lastHeartbeatFrame r \<and>
     ar_config (drainEvents fl r) = ar_config r"
  by (simp add: drainEvents_idle)

lemma watchdog_fires:
  assumes "st r = PhoneActive" and "ar_lastHeartbeatFrame r < ar_frameIndex r"
    and "framesFor (rc_phoneLostTimeoutMs (ar_config r)) < ar_frameIndex r - ar_lastHeartbeatFrame r"
  shows "st (updateTimers fl r) = ReturningToLocal"
  using assms by (simp add: updateTimers_def applyEvent_sm ar_note_frame sm_apply_def)

section \<open>The watchdog\<close>

lemma framesFor_bound: "unat (framesFor ms) \<le> 2 ^ 32"
proof -
  have "unat (ucast (ms div of_nat kFrameMillis) :: u64) < 2 ^ 32"
    using unat_bound [of "ms div of_nat kFrameMillis"] by (simp add: unsigned_ucast_eq take_bit_nat_less_eq_self)
       (metis le_less_trans take_bit_nat_less_eq_self)
  then show ?thesis
    by (auto simp: framesFor_def max_def word_le_nat_alt)
qed

lemma router_ticks_clock:
  assumes src: "audio_source (so_read lops) lok" "audio_source (so_read pops) pok"
    and ok: "router_ok lok pok r" and "unat (ar_frameIndex r) + n < 2 ^ 64"
  shows "unat (ar_frameIndex (router_ticks fl lops pops kops n r)) = unat (ar_frameIndex r) + n \<and>
    ar_lastHeartbeatFrame (router_ticks fl lops pops kops n r) = ar_lastHeartbeatFrame r \<and>
    ar_config (router_ticks fl lops pops kops n r) = ar_config r \<and>
    (0 < n \<longrightarrow> rb_contents (ar_events (router_ticks fl lops pops kops n r)) = [])"
  using assms(4)
proof (induction n)
  case (Suc n)
  define q where "q = router_ticks fl lops pops kops n r"
  have q: "unat (ar_frameIndex q) = unat (ar_frameIndex r) + n"
      "ar_lastHeartbeatFrame q = ar_lastHeartbeatFrame r" "ar_config q = ar_config r"
    using Suc by (simp_all add: q_def)
  have "rb_ok (ar_events q)"
    using router_ok_ticks [OF src ok] by (simp add: q_def router_ok_def)
  from tick_clock [OF this] q Suc.prems show ?case
    using unat_add_no_wrap [of "ar_frameIndex q" 1] by (simp add: q_def [symmetric])
qed simp

lemma watchdog_quiet:
  assumes src: "audio_source (so_read lops) lok" "audio_source (so_read pops) pok"
    and ok: "router_ok lok pok r" and "unat (ar_lastHeartbeatFrame r) \<le> unat (ar_frameIndex r)"
    and fr: "unat (ar_frameIndex r) + n < 2 ^ 64"
    and n: "unat (framesFor (rc_phoneLostTimeoutMs (ar_config r))) + 2 \<le> n"
  shows "st (router_ticks fl lops pops kops n r) \<noteq> PhoneActive"
proof -
  let ?F = "unat (framesFor (rc_phoneLostTimeoutMs (ar_config r)))"
  let ?q = "\<lambda>k. router_ticks fl lops pops kops k r"
  note clock = router_ticks_clock [OF src ok, of _ fl kops]
  have fire: "st (?q (?F + 2)) \<noteq> PhoneActive"
  proof -
    define q where "q = ?q (?F + 1)"
    have q: "unat (ar_frameIndex q) = unat (ar_frameIndex r) + (?F + 1)"
        "ar_lastHeartbeatFrame q = ar_lastHeartbeatFrame r" "ar_config q = ar_config r"
        "rb_contents (ar_events q) = []"
      using clock [of "?F + 1"] n fr by (simp_all add: q_def)
    have lt: "ar_lastHeartbeatFrame q < ar_frameIndex q"
      using q(1,2) assms(4) by (simp add: word_less_nat_alt)
    have "unat (ar_frameIndex q - ar_lastHeartbeatFrame q) =
        unat (ar_frameIndex q) - unat (ar_lastHeartbeatFrame q)"
      using lt by (intro unat_sub) simp
    then have late: "framesFor (rc_phoneLostTimeoutMs (ar_config q)) < ar_frameIndex q - ar_lastHeartbeatFrame q"
      using q assms(4) by (simp add: word_less_nat_alt)
    have "st (updateTimers fl (drainEvents fl q)) \<noteq> PhoneActive"
    proof (cases "st q = PhoneActive")
      case True
      have "st (updateTimers fl (drainEvents fl q)) = ReturningToLocal"
        by (rule watchdog_fires) (use drainEvents_quiet [OF q(4), of fl] True lt late in simp_all)
      then show ?thesis by simp
    next
      case False
      then show ?thesis
        using drainEvents_quiet [OF q(4), of fl] by (simp add: updateTimers_not_PhoneActive)
    qed
    then show ?thesis using tick_leaves_PhoneActive by (simp add: q_def)
  qed
  have "st (?q (?F + 2 + k)) \<noteq> PhoneActive" if "?F + 2 + k \<le> n" for k
    using that
  proof (induction k)
    case 0
    then show ?case using fire by simp
  next
    case (Suc k)
    then have "rb_contents (ar_events (?q (?F + 2 + k))) = []"
      using clock [of "?F + 2 + k"] fr by simp
    then have "st (updateTimers fl (drainEvents fl (?q (?F + 2 + k)))) \<noteq> PhoneActive"
      using drainEvents_quiet [of "?q (?F + 2 + k)" fl] Suc by (simp add: updateTimers_not_PhoneActive)
    then show ?case using tick_leaves_PhoneActive by simp
  qed
  from this [of "n - (?F + 2)"] n show ?thesis by (metis le_add_diff_inverse order.refl)
qed

section \<open>Coming to rest\<close>

text \<open>The longest fade of a configuration, in samples, with binary32 rounding.\<close>

definition max_fade :: "router_config \<Rightarrow> nat" where
  "max_fade cfg =
     max 1 (nat \<lceil>f32 (f32 (real (max 1 (millisToSamples (rc_crossfadeMs cfg)))))\<rceil>)"

definition fade_bounded :: "('l, 'p, 'k) audio_router \<Rightarrow> bool" where
  "fade_bounded r \<longleftrightarrow> cf_remaining (ar_fade r) \<le> max_fade (ar_config r)"

lemma cf_fadeTo_bounded:
  assumes "cf_ok cf" and "t \<in> {0, 1}"
  shows "cf_remaining (cf_fadeTo f32 t (rc_crossfadeMs cfg) cf) \<le> max_fade cfg"
proof -
  have "\<bar>f32 (clamp 0 1 t - cf_position cf)\<bar> \<le> 1"
    using assms by (intro f32_abs_le_1) (auto simp: cf_ok_def clamp_def)
  from f32.fade_samples_bound [OF this, of "rc_crossfadeMs cfg"] show ?thesis
    by (simp add: cf_fadeTo_def Let_def max_fade_def)
qed

lemma fade_bounded_applyEvent:
  assumes "cf_ok (ar_fade r)" and "fade_bounded r"
  shows "fade_bounded (applyEvent f32 e r)"
proof -
  have enter: "fade_bounded (ar_enter f32 s q)" if "cf_ok (ar_fade q)" "fade_bounded q"
    for s and q :: "('a, 'b, 'c) audio_router"
    using that cf_fadeTo_bounded [of "ar_fade q" _ "ar_config q"]
    by (cases s) (simp_all add: fade_bounded_def)
  show ?thesis
    using assms unfolding applyEvent_def Let_def
    by (auto intro!: enter split: prod.split) (simp_all add: fade_bounded_def step_simps)
qed

section \<open>Invariants of the router's fades\<close>

text \<open>
  A predicate on the mode machine, the crossfade and the gate that every event and every
  sample keeps is kept by every call.
\<close>

locale router_invariant =
  fixes I :: "('l, 'p, 'k) audio_router \<Rightarrow> bool"
  assumes I_frame: "ar_sm q = ar_sm r \<Longrightarrow> ar_fade q = ar_fade r \<Longrightarrow> ar_gate q = ar_gate r \<Longrightarrow>
      ar_config q = ar_config r \<Longrightarrow> I r \<Longrightarrow> I q"
    and I_event: "cf_ok (ar_fade r) \<Longrightarrow> I r \<Longrightarrow> I (applyEvent f32 e r)"
    and I_samples: "I r \<Longrightarrow> I (r\<lparr>ar_fade := (cf_advance f32 ^^ n) (ar_fade r),
                                   ar_gate := (gr_advance f32 ^^ n) (ar_gate r)\<rparr>)"
begin

lemma I_raw: "cf_ok (ar_fade r) \<Longrightarrow> I r \<Longrightarrow> I (applyRaw f32 raw r)"
  by (simp add: applyRaw_def I_event split: option.split)

lemma I_drain: "cf_ok (ar_fade r) \<Longrightarrow> gr_ok (ar_gate r) \<Longrightarrow> I r \<Longrightarrow> I (drainEvents f32 r)"
proof (induction "rb_available (ar_events r)" arbitrary: r rule: less_induct)
  case less
  obtain raws q where rd: "rb_read 1 (ar_events r) = (raws, q)" by (metis prod.exhaust)
  define r1 where "r1 = r\<lparr>ar_events := q\<rparr>"
  have "I r1" by (rule I_frame [OF _ _ _ _ less.prems(3)]) (simp_all add: r1_def)
  then have r1: "cf_ok (ar_fade r1)" "gr_ok (ar_gate r1)" "I r1"
    using less.prems by (simp_all add: r1_def)
  show ?case
  proof (cases "rb_available (ar_events r) \<ge> 1")
    case True
    have "rb_available q < rb_available (ar_events r)"
      using True unat_diff_sub [of 1 "rb_write_ix (ar_events r)" "rb_read_ix (ar_events r)"] rd
      by (auto simp: rb_read_def rb_available_def Let_def)
    then have "I (drainEvents f32 (applyRaw f32 (raws ! 0) r1))"
      using r1 by (intro less.hyps) (simp_all add: applyRaw_frame r1_def applyRaw_fades I_raw)
    then show ?thesis using True rd by (subst drainEvents.simps) (simp add: r1_def)
  next
    case False
    then show ?thesis using rd r1 by (subst drainEvents.simps) (simp add: r1_def)
  qed
qed

lemma I_timers: "cf_ok (ar_fade r) \<Longrightarrow> I r \<Longrightarrow> I (updateTimers f32 r)"
  unfolding updateTimers_def
  by (auto intro!: I_event intro: I_frame [of _ r] simp: ar_note_frame)

lemma I_sourceFailed: "cf_ok (ar_fade r) \<Longrightarrow> I r \<Longrightarrow> I (ar_sourceFailed f32 i r)"
  unfolding ar_sourceFailed_def
  by (rule I_event) (auto intro: I_frame [of _ r] simp: ar_note_frame)

lemma I_fillLocal: "cf_ok (ar_fade r) \<Longrightarrow> I r \<Longrightarrow> I (fillLocal f32 lops b r)"
  unfolding fillLocal_def
  by (auto intro!: I_sourceFailed intro: I_frame [of _ r] split: option.split prod.split)

lemma I_fillPhone: "cf_ok (ar_fade r) \<Longrightarrow> I r \<Longrightarrow> I (fillPhone f32 pops b r)"
  unfolding fillPhone_def
  by (auto intro!: I_sourceFailed intro: I_frame [of _ r] split: option.split prod.split)

lemma I_mix: "I r \<Longrightarrow> I (mixAndWrite f32 r)"
  by (rule I_frame [OF _ _ _ _ I_samples [of r kFrameSamples]])
     (simp_all add: mixAndWrite_frame mixAndWrite_result)

lemma I_tick:
  assumes src: "audio_source (so_read lops) lok" "audio_source (so_read pops) pok"
    and ok: "router_ok lok pok r" and "I r"
  shows "I (snd (tick f32 lops pops kops r))"
proof -
  define r1 r2 r3 where "r1 = drainEvents f32 r" and "r2 = updateTimers f32 r1"
    and "r3 = fillLocal f32 lops (wantsLocal (st r2) \<or> gr_active (ar_gate r2)) r2"
  define r4 where "r4 = fillPhone f32 pops (wantsPhone (st r3) \<or> gr_active (ar_gate r2)) r3"
  have oks: "router_ok lok pok r1" "router_ok lok pok r2" "router_ok lok pok r3" "router_ok lok pok r4"
    unfolding r4_def r3_def r2_def r1_def
    by (intro router_ok_fillPhone router_ok_fillLocal router_ok_updateTimers router_ok_drainEvents src ok)+
  then have cf: "cf_ok (ar_fade r1)" "cf_ok (ar_fade r2)" "cf_ok (ar_fade r3)"
      "cf_ok (ar_fade (mixAndWrite f32 r4))"
    by (simp_all add: router_ok_def mixAndWrite_result cf_ok_steps)
  have "I r1"
    unfolding r1_def using ok assms(4) by (intro I_drain) (simp_all add: router_ok_def)
  then have "I r4" unfolding r4_def r3_def r2_def using cf
    by (intro I_fillPhone I_fillLocal I_timers) (simp_all add: r3_def r2_def)
  then have I4: "I (mixAndWrite f32 r4)" by (rule I_mix)
  have mixed: "tick_mixed f32 lops pops r = mixAndWrite f32 r4"
    by (simp add: tick_mixed_def readSources_def Let_def r4_def r3_def r2_def r1_def)
  define q where "q = snd (ar_writeSink kops ((mixAndWrite f32 r4)
     \<lparr>ar_frameIndex := ar_frameIndex (mixAndWrite f32 r4) + 1,
       ar_framesProduced := ar_frameIndex (mixAndWrite f32 r4) + 1\<rparr>))"
  have q: "ar_sm q = ar_sm (mixAndWrite f32 r4)" "ar_fade q = ar_fade (mixAndWrite f32 r4)"
      "ar_gate q = ar_gate (mixAndWrite f32 r4)" "ar_config q = ar_config (mixAndWrite f32 r4)"
    by (simp_all add: q_def ar_writeSink_frame)
  then have "I q" using I_frame [OF q I4] by simp
  then show ?thesis
    unfolding tick_eq mixed q_def [symmetric] ar_closeFade_def using cf(4) q by (simp add: I_event)
qed

lemma I_step:
  assumes "audio_source (so_read lops) lok" and "audio_source (so_read pops) pok"
    and "router_ok lok pok r" and "I r"
  shows "I (router_step f32 lops pops kops c r)"
  using assms(4) I_tick [OF assms]
  by (cases c) (auto simp: router_setMode_def startPtt_def stopPtt_def notifyPhoneReady_def
      notifyPhoneHeartbeat_def notifyPhoneGone_def intro: I_frame [of _ r])

lemma I_run:
  assumes src: "audio_source (so_read lops) lok" "audio_source (so_read pops) pok"
    and "router_ok lok pok r" and "I r"
  shows "I (router_run f32 lops pops kops cs r)"
  using assms(3,4) unfolding router_run_def
proof (induction cs arbitrary: r)
  case (Cons c cs)
  show ?case
    unfolding fold_Cons comp_apply
    by (rule Cons.IH [OF router_ok_step [OF src Cons.prems(1)] I_step [OF src Cons.prems]])
qed simp

lemma I_ticks:
  assumes src: "audio_source (so_read lops) lok" "audio_source (so_read pops) pok"
    and "router_ok lok pok r" and "I r"
  shows "I (router_ticks f32 lops pops kops n r)"
proof (induction n)
  case (Suc n)
  then show ?case
    using I_tick [OF src router_ok_ticks [OF src assms(3)] Suc] by simp
qed (simp add: assms)

end

interpretation fade_bound: router_invariant fade_bounded
proof
  fix r :: "('a, 'b, 'c) audio_router" and e n
  show "cf_ok (ar_fade r) \<Longrightarrow> fade_bounded r \<Longrightarrow> fade_bounded (applyEvent f32 e r)"
    by (rule fade_bounded_applyEvent)
  show "fade_bounded r \<Longrightarrow> fade_bounded (r\<lparr>ar_fade := (cf_advance f32 ^^ n) (ar_fade r),
                                   ar_gate := (gr_advance f32 ^^ n) (ar_gate r)\<rparr>)"
    by (simp add: fade_bounded_def cf_advance_steps)
qed (simp add: fade_bounded_def)

text \<open>Sources that never report failure.\<close>

definition never_fails :: "'s source_ops \<Rightarrow> ('s \<Rightarrow> bool) \<Rightarrow> bool" where
  "never_fails ops ok \<longleftrightarrow> (\<forall>s buf. ok s \<longrightarrow> fst (snd (so_read ops buf s)) \<noteq> Src_Failed)"

lemma never_fails_read:
  "never_fails ops ok \<Longrightarrow> ok s \<Longrightarrow> so_read ops buf s = (b, Src_Failed, s') \<Longrightarrow> False"
  unfolding never_fails_def by (metis fst_conv snd_conv)

lemma fill_never_fails:
  assumes "router_ok lok pok r"
  shows "never_fails lops lok \<Longrightarrow>
      ar_sm (fillLocal fl lops b r) = ar_sm r \<and> ar_fade (fillLocal fl lops b r) = ar_fade r \<and>
      ar_armStartedFrame (fillLocal fl lops b r) = ar_armStartedFrame r"
    and "never_fails pops pok \<Longrightarrow>
      ar_sm (fillPhone fl pops b r) = ar_sm r \<and> ar_fade (fillPhone fl pops b r) = ar_fade r \<and>
      ar_armStartedFrame (fillPhone fl pops b r) = ar_armStartedFrame r"
  using assms
  by (auto simp: fillLocal_def fillPhone_def router_ok_def dest: never_fails_read
      split: option.split prod.split if_splits)

text \<open>A quiet tick without failures, as what the timers do, one frame of fade, and the close.\<close>

lemma quiet_tick:
  fixes r :: "('l, 'p, 'k) audio_router" and fl :: "real \<Rightarrow> real" and kops :: "'k sink_ops"
    and lops :: "'l source_ops" and pops :: "'p source_ops"
  assumes src: "audio_source (so_read lops) lok" "audio_source (so_read pops) pok"
    and ok: "router_ok lok pok r"
    and nf: "never_fails lops lok" "never_fails pops pok"
  defines "t \<equiv> updateTimers fl (drainEvents fl r)"
  defines "r' \<equiv> snd (tick fl lops pops kops r)"
  shows "st t \<noteq> ReturningToLocal \<Longrightarrow> ar_sm r' = ar_sm t \<and> ar_armStartedFrame r' = ar_armStartedFrame t"
    and "st t = ReturningToLocal \<Longrightarrow> cf_remaining (ar_fade t) \<le> kFrameSamples \<Longrightarrow>
           ar_sm r' = sm_next Ev_FadeComplete (ar_sm t)"
    and "st t = ReturningToLocal \<Longrightarrow> kFrameSamples < cf_remaining (ar_fade t) \<Longrightarrow>
           ar_sm r' = ar_sm t \<and> cf_remaining (ar_fade r') = cf_remaining (ar_fade t) - kFrameSamples"
proof -
  define r3 where "r3 = fillLocal fl lops (wantsLocal (st t) \<or> gr_active (ar_gate t)) t"
  define r4 where "r4 = fillPhone fl pops (wantsPhone (st r3) \<or> gr_active (ar_gate t)) r3"
  have okt: "router_ok lok pok t"
    unfolding t_def by (intro router_ok_updateTimers router_ok_drainEvents ok)
  then have ok3: "router_ok lok pok r3"
    unfolding r3_def by (rule router_ok_fillLocal [OF src(1)])
  have r4: "ar_sm r4 = ar_sm t" "ar_fade r4 = ar_fade t" "ar_armStartedFrame r4 = ar_armStartedFrame t"
    using fill_never_fails(1) [OF okt nf(1)] fill_never_fails(2) [OF ok3 nf(2)]
    by (simp_all add: r4_def r3_def)
  have mixed: "tick_mixed fl lops pops r = mixAndWrite fl r4"
    by (simp add: tick_mixed_def readSources_def Let_def r4_def r3_def t_def)
  define q where "q = snd (ar_writeSink kops ((tick_mixed fl lops pops r)
     \<lparr>ar_frameIndex := ar_frameIndex (tick_mixed fl lops pops r) + 1,
       ar_framesProduced := ar_frameIndex (tick_mixed fl lops pops r) + 1\<rparr>))"
  have q: "ar_sm q = ar_sm t" "ar_armStartedFrame q = ar_armStartedFrame t"
      "cf_remaining (ar_fade q) = cf_remaining (ar_fade t) - kFrameSamples"
    by (simp_all add: q_def mixed step_simps mixAndWrite_result r4 del: kFrameSamples_960)
  have r': "r' = ar_closeFade fl q"
    by (simp add: r'_def tick_eq q_def)
  show "st t \<noteq> ReturningToLocal \<Longrightarrow> ar_sm r' = ar_sm t \<and> ar_armStartedFrame r' = ar_armStartedFrame t"
    using q by (simp add: r' ar_closeFade_def)
  show "st t = ReturningToLocal \<Longrightarrow> cf_remaining (ar_fade t) \<le> kFrameSamples \<Longrightarrow>
           ar_sm r' = sm_next Ev_FadeComplete (ar_sm t)"
    using q by (simp add: r' ar_closeFade_def cf_active_def applyEvent_sm)
  show "st t = ReturningToLocal \<Longrightarrow> kFrameSamples < cf_remaining (ar_fade t) \<Longrightarrow>
           ar_sm r' = ar_sm t \<and> cf_remaining (ar_fade r') = cf_remaining (ar_fade t) - kFrameSamples"
    using q by (simp add: r' ar_closeFade_def cf_active_def)
qed

text \<open>How many quiet ticks the current state can still last.\<close>

definition settle :: "('l, 'p, 'k) audio_router \<Rightarrow> nat" where
  "settle r =
     (case st r of
        ErrorRecovery \<Rightarrow> 1
      | PhoneArming \<Rightarrow>
          2 + (unat (framesFor (rc_armTimeoutMs (ar_config r))) + 1
               - unat (ar_frameIndex r - ar_armStartedFrame r))
      | ReturningToLocal \<Rightarrow> 1 + cf_remaining (ar_fade r) div kFrameSamples
      | PhoneActive \<Rightarrow>
          2 + max_fade (ar_config r) div kFrameSamples +
          (unat (ar_lastHeartbeatFrame r) + unat (framesFor (rc_phoneLostTimeoutMs (ar_config r))) + 1
           - unat (ar_frameIndex r))
      | _ \<Rightarrow> 0)"

lemma settle_0: "settle r = 0 \<longleftrightarrow> st r \<in> {LocalActive, PhoneOnly, LocalOnly, Muted}"
  by (cases "st r") (simp_all add: settle_def)

lemma resting_states:
  "sm_inv sm \<Longrightarrow> sm_state sm \<in> {LocalActive, PhoneOnly, LocalOnly, Muted} \<Longrightarrow>
     sm_state sm = restingStateFor (sm_mode sm)"
  by (cases "sm_mode sm") (auto simp: sm_inv_def)

lemma settle_tick:
  fixes r :: "('l, 'p, 'k) audio_router" and kops :: "'k sink_ops"
    and lops :: "'l source_ops" and pops :: "'p source_ops"
  assumes src: "audio_source (so_read lops) lok" "audio_source (so_read pops) pok"
    and ok: "router_ok lok pok r" and empty: "rb_contents (ar_events r) = []"
    and nf: "never_fails lops lok" "never_fails pops pok"
    and no_wrap: "unat (ar_frameIndex r) + 1 < 2 ^ 64"
  defines "r' \<equiv> snd (tick f32 lops pops kops r)"
  shows "settle r' \<le> settle r - 1"
proof -
  define d where "d = drainEvents f32 r"
  define t where "t = updateTimers f32 d"
  note quiet = quiet_tick [OF src ok nf, of f32 kops, folded d_def, folded t_def r'_def]
  have d: "ar_sm d = ar_sm r" "ar_fade d = ar_fade r" "ar_gate d = ar_gate r"
      "ar_frameIndex d = ar_frameIndex r" "ar_armStartedFrame d = ar_armStartedFrame r"
      "ar_lastHeartbeatFrame d = ar_lastHeartbeatFrame r" "ar_config d = ar_config r"
    using drainEvents_quiet [OF empty, of f32] by (simp_all add: d_def)
  have rok: "rb_ok (ar_events r)" using ok by (simp add: router_ok_def)
  have r': "ar_frameIndex r' = ar_frameIndex r + 1" "ar_lastHeartbeatFrame r' = ar_lastHeartbeatFrame r"
      "ar_config r' = ar_config r"
    using tick_clock [OF rok, of f32 lops pops kops] by (simp_all add: r'_def)
  have fi: "unat (ar_frameIndex r + 1) = unat (ar_frameIndex r) + 1"
    using unat_add_no_wrap [of "ar_frameIndex r" 1] no_wrap by simp
  note timers = updateTimers_def [of f32 d] applyEvent_sm ar_note_frame sm_apply_def
  show ?thesis
  proof (cases "st r")
    case ErrorRecovery
    then have "st t = restingStateFor (sm_mode (ar_sm r))"
      by (simp add: t_def timers d)
    then have "st t \<in> {LocalActive, PhoneOnly, LocalOnly, Muted}"
      by (cases "sm_mode (ar_sm r)") simp_all
    then show ?thesis using quiet(1) settle_0 [of r'] by auto
  next
    case PhoneArming
    define F age where "F = unat (framesFor (rc_armTimeoutMs (ar_config r)))"
      and "age = unat (ar_frameIndex r - ar_armStartedFrame r)"
    show ?thesis
    proof (cases "F < age")
      case True
      then have "st t = ErrorRecovery"
        using PhoneArming by (simp add: t_def timers d F_def age_def word_less_nat_alt)
      then show ?thesis using quiet(1) PhoneArming by (simp add: settle_def)
    next
      case False
      then have t: "t = d"
        using PhoneArming by (simp add: t_def updateTimers_def d F_def age_def word_less_nat_alt)
      then have "st r' = PhoneArming" "ar_armStartedFrame r' = ar_armStartedFrame r"
        using quiet(1) PhoneArming d by simp_all
      moreover have "unat (ar_frameIndex r' - ar_armStartedFrame r) = age + 1"
        using unat_diff_add [of "ar_frameIndex r" "ar_armStartedFrame r" 1] False
          framesFor_bound [of "rc_armTimeoutMs (ar_config r)"] r'
        by (simp add: age_def F_def)
      ultimately show ?thesis
        using PhoneArming False r' by (simp add: settle_def age_def F_def)
    qed
  next
    case ReturningToLocal
    then have t: "t = d" by (simp add: t_def updateTimers_def d)
    show ?thesis
    proof (cases "cf_remaining (ar_fade r) \<le> kFrameSamples")
      case True
      then have "st r' = LocalActive"
        using quiet(2) ReturningToLocal d t by (simp add: sm_apply_def)
      then show ?thesis by (simp add: settle_def)
    next
      case False
      then have "st r' = ReturningToLocal" "cf_remaining (ar_fade r') = cf_remaining (ar_fade r) - kFrameSamples"
        using quiet(3) ReturningToLocal d t by simp_all
      then show ?thesis
        using ReturningToLocal False le_div_geq [of kFrameSamples "cf_remaining (ar_fade r)"]
        by (simp add: settle_def)
    qed
  next
    case PhoneActive
    define F where "F = unat (framesFor (rc_phoneLostTimeoutMs (ar_config r)))"
    show ?thesis
    proof (cases "st t = PhoneActive")
      case True
      have "\<not> (ar_lastHeartbeatFrame d < ar_frameIndex d \<and>
          framesFor (rc_phoneLostTimeoutMs (ar_config d)) < ar_frameIndex d - ar_lastHeartbeatFrame d)"
        using True watchdog_fires [of d f32] PhoneActive d by (auto simp: t_def)
      then have "unat (ar_frameIndex r) \<le> unat (ar_lastHeartbeatFrame r) + F"
        using unat_sub [of "ar_lastHeartbeatFrame r" "ar_frameIndex r"]
        by (auto simp: d F_def word_less_nat_alt word_le_nat_alt)
      then show ?thesis
        using quiet(1) True PhoneActive r' fi by (simp add: settle_def F_def)
    next
      case False
      then have t: "st t = ReturningToLocal" "cf_remaining (ar_fade t) \<le> max_fade (ar_config r)"
      proof -
        have cond: "ar_lastHeartbeatFrame d < ar_frameIndex d \<and>
            framesFor (rc_phoneLostTimeoutMs (ar_config d)) < ar_frameIndex d - ar_lastHeartbeatFrame d"
        proof (rule ccontr)
          assume "\<not> ?thesis"
          then have "t = d" using PhoneActive unfolding t_def updateTimers_def by (auto simp: d)
          with False PhoneActive d show False by simp
        qed
        then show "st t = ReturningToLocal"
          using watchdog_fires [of d f32] PhoneActive d by (simp add: t_def)
        have "cf_ok (ar_fade r)" using ok by (simp add: router_ok_def)
        from cf_fadeTo_bounded [OF this, of 0 "ar_config r"]
        show "cf_remaining (ar_fade t) \<le> max_fade (ar_config r)"
          using cond PhoneActive
          by (simp add: t_def updateTimers_def d applyEvent_def sm_apply_def ar_note_def)
      qed
      show ?thesis
      proof (cases "cf_remaining (ar_fade t) \<le> kFrameSamples")
        case True
        then have "st r' = LocalActive"
          using quiet(2) t by (simp add: sm_apply_def)
        then show ?thesis by (simp add: settle_def)
      next
        case False
        then have "st r' = ReturningToLocal" "cf_remaining (ar_fade r') \<le> max_fade (ar_config r)"
          using quiet(3) t by simp_all
        then show ?thesis
          using PhoneActive div_le_mono [of "cf_remaining (ar_fade r')" "max_fade (ar_config r)" kFrameSamples]
          by (simp add: settle_def)
      qed
    qed
  next
    case LocalActive
    then have "t = d" by (simp add: t_def updateTimers_def d)
    then show ?thesis using quiet(1) LocalActive d by (simp add: settle_def)
  next
    case PhoneOnly
    then have "t = d" by (simp add: t_def updateTimers_def d)
    then show ?thesis using quiet(1) PhoneOnly d by (simp add: settle_def)
  next
    case LocalOnly
    then have "t = d" by (simp add: t_def updateTimers_def d)
    then show ?thesis using quiet(1) LocalOnly d by (simp add: settle_def)
  next
    case Muted
    then have "t = d" by (simp add: t_def updateTimers_def d)
    then show ?thesis using quiet(1) Muted d by (simp add: settle_def)
  qed
qed

lemma settle_ticks:
  assumes src: "audio_source (so_read lops) lok" "audio_source (so_read pops) pok"
    and ok: "router_ok lok pok r" and empty: "rb_contents (ar_events r) = []"
    and nf: "never_fails lops lok" "never_fails pops pok"
    and "unat (ar_frameIndex r) + n < 2 ^ 64"
  shows "settle (router_ticks f32 lops pops kops n r) \<le> settle r - n"
  using assms(7)
proof (induction n)
  case (Suc n)
  define q where "q = router_ticks f32 lops pops kops n r"
  have q: "router_ok lok pok q" "rb_contents (ar_events q) = []"
      "unat (ar_frameIndex q) = unat (ar_frameIndex r) + n" "settle q \<le> settle r - n"
    using router_ok_ticks [OF src ok, where fl = f32 and kops = kops and n = n]
      router_ticks_clock [OF src ok, where fl = f32 and kops = kops and n = n]
      Suc empty by (cases n; simp add: q_def)+
  have "settle (snd (tick f32 lops pops kops q)) \<le> settle q - 1"
    by (rule settle_tick [OF src q(1,2) nf]) (use q Suc.prems in simp)
  then show ?case using q(4) by (simp add: q_def)
qed simp

lemma settle_bound:
  assumes "fade_bounded r" and "unat (ar_lastHeartbeatFrame r) \<le> unat (ar_frameIndex r)"
  shows "settle r \<le> 3 + unat (framesFor (rc_armTimeoutMs (ar_config r))) +
    unat (framesFor (rc_phoneLostTimeoutMs (ar_config r))) + max_fade (ar_config r) div kFrameSamples"
  using assms div_le_mono [of "cf_remaining (ar_fade r)" "max_fade (ar_config r)" kFrameSamples]
  by (cases "st r") (simp_all add: settle_def fade_bounded_def)

section \<open>Silence\<close>

text \<open>
  The gate follows the state: its target is closed exactly in the silent states, its value is
  a binary32 number, and at rest it has reached its target.
\<close>

definition gate_ok :: "('l, 'p, 'k) audio_router \<Rightarrow> bool" where
  "gate_ok r \<longleftrightarrow>
     gr_target (ar_gate r) = (if silent_state (st r) then 0 else 1) \<and>
     gr_value (ar_gate r) \<in> {0..1} \<and> \<bar>gr_step (ar_gate r)\<bar> \<le> 2 \<and>
     f32 (gr_value (ar_gate r)) = gr_value (ar_gate r) \<and>
     gr_remaining (ar_gate r) \<le> max_fade (ar_config r) \<and>
     (gr_remaining (ar_gate r) = 0 \<longrightarrow> gr_value (ar_gate r) = gr_target (ar_gate r))"

lemma f32_mono_ge_1: "1 \<le> x \<Longrightarrow> 1 \<le> f32 x"
  using f32.fl_mono [of 1 x] by (simp add: f32.fl_1)

lemma f32_diff_zero:
  assumes "f32 (t - v) = 0" and "t \<in> {0, 1}" and "v \<in> {0..1}" and "f32 v = v"
  shows "v = t"
proof (cases "t = 0")
  case True
  then have "- f32 v = 0" using assms(1) by (simp add: f32.fl_minus)
  with assms(4) True show ?thesis by simp
next
  case False
  show ?thesis
  proof (rule ccontr)
    assume "v \<noteq> t"
    with False assms have lt: "v < 1" by auto
    text \<open>A binary32 number is a multiple of the least subnormal number.\<close>
    define k where "k = flexp 24 (-149) 104 v"
    have k: "- 149 \<le> k" unfolding k_def using flexp_range [of "-149" 104 24 v] by simp
    define m where "m = rne (v / 2 powi k)"
    have "v = of_int m * 2 powi k"
      using assms(3,4) by (simp add: f32_def rnd_def Let_def k_def [symmetric] m_def)
    also have "(2::real) powi k = 2 ^ nat (k + 149) * 2 powi (- 149)"
    proof -
      have "k = int (nat (k + 149)) + (- 149)" using k by simp
      then have "(2::real) powi k = 2 powi (int (nat (k + 149)) + (- 149))" by (rule arg_cong)
      also have "\<dots> = 2 powi int (nat (k + 149)) * 2 powi (- 149)" by (rule powi_split)
      also have "(2::real) powi int (nat (k + 149)) = 2 ^ nat (k + 149)" by (rule power_int_of_nat)
      finally show ?thesis .
    qed
    also have "(2::real) powi (- 149) = 1 / 2 ^ 149"
      by (simp only: power_int_minus power_int_numeral inverse_eq_divide)
    finally have v': "v = of_int m * (2 ^ nat (k + 149) * (1 / 2 ^ 149))" .
    define M where "M = m * 2 ^ nat (k + 149)"
    have v: "v * 2 ^ 149 = of_int M"
      unfolding v' M_def of_int_mult of_int_power of_int_numeral by (simp only: mult.assoc) simp
    have "v * 2 ^ 149 < 1 * 2 ^ 149"
      using lt by (rule mult_strict_right_mono) simp
    then have "(of_int M :: real) < of_int (2 ^ 149)" unfolding v by simp
    then have "M + 1 \<le> 2 ^ 149" by (simp only: of_int_less_iff)
    then have "(of_int (M + 1) :: real) \<le> of_int (2 ^ 149)" by (simp only: of_int_le_iff)
    then have "of_int M + 1 \<le> (2 ^ 149 :: real)" by simp
    moreover have "(1 - v) * 2 ^ 149 = 2 ^ 149 - of_int M"
      by (simp only: left_diff_distrib v mult_1)
    ultimately have "1 \<le> (1 - v) * 2 ^ 149" by linarith
    then have "1 / 2 ^ 149 \<le> 1 - v" by (simp only: divide_le_eq) simp
    then have "1 / 2 ^ 149 \<le> t - v" using False assms(2) by simp
    from f32.fl_mono [OF this] have "1 / 2 ^ 149 \<le> f32 (t - v)"
      using f32_div [of 1 149] by simp
    with assms(1) show False by simp
  qed
qed

lemma gate_ok_rampTo:
  fixes cfg :: router_config
  assumes g: "gr_value g \<in> {0..1}" "f32 (gr_value g) = gr_value g" and t: "t \<in> {0, 1}"
  defines "g' \<equiv> gr_rampTo f32 t (rc_crossfadeMs cfg) g"
  shows "gr_target g' = t \<and> gr_value g' = gr_value g \<and> \<bar>gr_step g'\<bar> \<le> 2 \<and>
    gr_remaining g' \<le> max_fade cfg \<and> (gr_remaining g' = 0 \<longrightarrow> gr_value g' = t)"
proof -
  have ct: "clamp 0 1 t = t" using t by (auto simp: clamp_def)
  define d where "d = f32 (t - gr_value g)"
  have d: "\<bar>d\<bar> \<le> 1" unfolding d_def by (rule f32_abs_le_1) (use g(1) t in \<open>auto simp: abs_le_iff\<close>)
  show ?thesis
  proof (cases "d = 0")
    case True
    then have "gr_value g = t" using f32_diff_zero [OF _ t g] by (simp add: d_def)
    then show ?thesis using True by (simp add: g'_def gr_rampTo_def Let_def ct d_def)
  next
    case False
    define n where "n = fade_samples f32 (rc_crossfadeMs cfg) d"
    have "1 \<le> real n" by (simp add: n_def fade_samples_def)
    then have n1: "1 \<le> f32 (real n)" by (rule f32_mono_ge_1)
    have "\<bar>d / f32 (real n)\<bar> \<le> 1"
      using d n1 by (simp add: abs_divide divide_le_eq_1)
    then have "\<bar>f32 (d / f32 (real n))\<bar> \<le> 1" by (rule f32_abs_le_1)
    moreover have "n \<le> max_fade cfg"
      using f32.fade_samples_bound [OF d, of "rc_crossfadeMs cfg"] by (simp add: n_def max_fade_def)
    moreover have "0 < n" by (simp add: n_def)
    ultimately show ?thesis
      using False by (simp add: g'_def gr_rampTo_def Let_def ct d_def [symmetric] n_def [symmetric])
  qed
qed

lemma gate_ok_advance:
  assumes "gr_target g \<in> {0, 1}" and "gr_value g \<in> {0..1}" and "\<bar>gr_step g\<bar> \<le> 2"
    and "f32 (gr_value g) = gr_value g"
    and "gr_remaining g = 0 \<longrightarrow> gr_value g = gr_target g"
  defines "g' \<equiv> gr_advance f32 g"
  shows "gr_value g' \<in> {0..1} \<and> f32 (gr_value g') = gr_value g' \<and>
    (gr_remaining g' = 0 \<longrightarrow> gr_value g' = gr_target g')"
proof (cases "gr_remaining g = 0")
  case True
  then show ?thesis using assms by (simp add: g'_def gr_advance_idle)
next
  case False
  have "\<bar>gr_value g + gr_step g\<bar> \<le> 4"
    using assms(2,3) by (auto simp: abs_le_iff)
  then have idem: "f32 (f32 (gr_value g + gr_step g)) = f32 (gr_value g + gr_step g)"
    by (rule f32_idem)
  have "f32 (clamp 0 1 y) = clamp 0 1 y" if "f32 y = y" for y
    using that by (simp add: clamp_def f32.fl_0 f32.fl_1)
  moreover have "clamp 0 1 (gr_target g) = gr_target g" "f32 (gr_target g) = gr_target g"
    using assms(1) by (auto simp: clamp_def f32.fl_0 f32.fl_1)
  ultimately show ?thesis
    using False idem clamp_in [of 0 1] assms(1) by (auto simp: g'_def gr_advance_def Let_def)
qed

lemma gate_ok_advance_steps:
  assumes "gate_ok r"
  shows "gate_ok (r\<lparr>ar_gate := (gr_advance f32 ^^ n) (ar_gate r)\<rparr>)"
proof (induction n)
  case 0
  then show ?case using assms by simp
next
  case (Suc n)
  define g where "g = (gr_advance f32 ^^ n) (ar_gate r)"
  have g: "gr_target g = (if silent_state (st r) then 0 else 1)" "gr_value g \<in> {0..1}"
      "\<bar>gr_step g\<bar> \<le> 2" "f32 (gr_value g) = gr_value g" "gr_remaining g \<le> max_fade (ar_config r)"
      "gr_remaining g = 0 \<longrightarrow> gr_value g = gr_target g"
    using Suc by (simp_all add: gate_ok_def g_def [symmetric])
  then have "gr_target g \<in> {0, 1}" by simp
  from gate_ok_advance [OF this g(2,3,4,6)]
  have "gate_ok (r\<lparr>ar_gate := gr_advance f32 g\<rparr>)"
    using g(1,3,5) unfolding gate_ok_def by (simp add: gr_advance_fields le_diff_conv)
  then show ?case by (simp add: g_def)
qed

lemma gate_ok_applyEvent:
  assumes "gate_ok r"
  shows "gate_ok (applyEvent f32 e r)"
proof (cases "tr_changed (sm_trans e (ar_sm r))")
  case False
  have "st (applyEvent f32 e r) = st r"
    using sm_apply_unchanged [OF False] by (simp only: applyEvent_sm)
  moreover have "ar_gate (applyEvent f32 e r) = ar_gate r"
    using False by (cases "sm_apply e (ar_sm r)") (simp add: applyEvent_def Let_def ar_note_def)
  ultimately show ?thesis using assms by (simp add: gate_ok_def applyEvent_frame)
next
  case True
  then have acc: "tr_accepted (sm_trans e (ar_sm r))" by (simp add: sm_apply_fields)
  define g' where "g' = gr_rampTo f32 (if silent_state (tr_to (sm_trans e (ar_sm r))) then 0 else 1)
      (rc_crossfadeMs (ar_config r)) (ar_gate r)"
  have g': "ar_gate (applyEvent f32 e r) = g'"
    using True acc unfolding g'_def
    by (cases "sm_apply e (ar_sm r)") (simp add: applyEvent_def Let_def ar_note_def ar_enter_frame)
  have v: "gr_value (ar_gate r) \<in> {0..1}" "f32 (gr_value (ar_gate r)) = gr_value (ar_gate r)"
    using assms by (simp_all add: gate_ok_def)
  have t: "(if silent_state (tr_to (sm_trans e (ar_sm r))) then 0 else 1) \<in> {0, 1 :: real}" by simp
  from gate_ok_rampTo [OF v t, of "ar_config r"] v show ?thesis
    by (auto simp: gate_ok_def g' g'_def [symmetric] applyEvent_sm applyEvent_frame sm_apply_fields(1) split: if_splits)
qed

interpretation gate: router_invariant gate_ok
proof
  fix r :: "('a, 'b, 'c) audio_router" and e n
  show "gate_ok r \<Longrightarrow> gate_ok (applyEvent f32 e r)"
    by (rule gate_ok_applyEvent)
  assume "gate_ok r"
  from gate_ok_advance_steps [OF this, of n]
  show "gate_ok (r\<lparr>ar_fade := (cf_advance f32 ^^ n) (ar_fade r),
                   ar_gate := (gr_advance f32 ^^ n) (ar_gate r)\<rparr>)"
    by (simp add: gate_ok_def)
qed (simp add: gate_ok_def)

lemma gate_ok_wired: "router_wired cfg l p k = Some r \<Longrightarrow> gate_ok r \<and> fade_bounded r"
  by (auto simp: router_wired_def router_new_def setSink_def setPhoneSource_def setLocalSource_def
      gate_ok_def gr_new_def sm_init_def silent_state_def f32.fl_1 fade_bounded_def cf_snapTo_def)

text \<open>A closed gate multiplies every sample by exactly zero.\<close>

lemma gr_next_closed:
  assumes "gr_remaining g = 0" and "gr_value g = 0"
  shows "gr_next f32 g = (0, g)"
proof -
  have h: "f32 (1 / 2) = 1 / 2" using f32_div [of 1 1] by simp
  have "f32 (1 / 2 - f32 (1 / 2 * 1)) = 0" by (simp only: h mult_1_right diff_self f32.fl_0)
  then show ?thesis
    using assms by (simp add: gr_next_def gr_advance_idle f32.fl_0 f32.fl_1)
qed

lemma mix_loop_closed:
  assumes "gr_remaining gr = 0" and "gr_value gr = 0"
  shows "fst (mix_loop f32 cfg lb pb is cf gr) = replicate (length is) 0"
proof (induction "is" arbitrary: cf)
  case (Cons i "is")
  have "limit_sample (mix_sample f32 cfg l p g 0) = (0, False)" for l p g
    by (simp add: mix_sample_def limit_sample_def kCeiling_def f32.fl_0)
  moreover obtain g cf' where "cf_next f32 cf = (g, cf')" by (metis prod.exhaust)
  moreover obtain out n cf2 gr2 where "mix_loop f32 cfg lb pb is cf' gr = (out, n, cf2, gr2)"
    by (metis prod_cases4)
  ultimately show ?case
    using Cons.IH [of cf'] by (simp add: gr_next_closed [OF assms])
qed simp

lemma tick_outBuf:
  "ar_outBuf (snd (tick fl lops pops kops r)) = ar_outBuf (tick_mixed fl lops pops r)"
  by (simp add: tick_eq step_simps)

lemma quiet_gate:
  fixes r :: "('l, 'p, 'k) audio_router" and kops :: "'k sink_ops"
    and lops :: "'l source_ops" and pops :: "'p source_ops"
  assumes src: "audio_source (so_read lops) lok" "audio_source (so_read pops) pok"
    and ok: "router_ok lok pok r" and empty: "rb_contents (ar_events r) = []"
    and nf: "never_fails lops lok" "never_fails pops pok" and rest: "settle r = 0"
  defines "r' \<equiv> snd (tick f32 lops pops kops r)"
  shows "ar_gate (readSources f32 lops pops (updateTimers f32 (drainEvents f32 r))) = ar_gate r"
    and "ar_gate r' = (gr_advance f32 ^^ kFrameSamples) (ar_gate r)" and "ar_sm r' = ar_sm r"
proof -
  have d: "drainEvents f32 r = r\<lparr>ar_events := snd (rb_read 1 (ar_events r))\<rparr>"
    by (rule drainEvents_idle [OF empty])
  have st: "st r \<in> {LocalActive, PhoneOnly, LocalOnly, Muted}" using rest by (simp add: settle_0)
  then have t: "updateTimers f32 (drainEvents f32 r) = drainEvents f32 r"
    by (auto simp: updateTimers_def d)
  have okd: "router_ok lok pok (drainEvents f32 r)" by (rule router_ok_drainEvents [OF ok])
  have gl: "ar_gate (fillLocal f32 lops b q) = ar_gate q" if "router_ok lok pok q" for b q
    using that nf(1)
    by (auto simp: fillLocal_def router_ok_def dest: never_fails_read split: option.split prod.split if_splits)
  have gp: "ar_gate (fillPhone f32 pops b q) = ar_gate q" if "router_ok lok pok q" for b q
    using that nf(2)
    by (auto simp: fillPhone_def router_ok_def dest: never_fails_read split: option.split prod.split if_splits)
  show g: "ar_gate (readSources f32 lops pops (updateTimers f32 (drainEvents f32 r))) = ar_gate r"
    unfolding readSources_def Let_def t gp [OF router_ok_fillLocal [OF src(1) okd]] gl [OF okd]
    by (simp add: d)
  have sm: "ar_sm r' = ar_sm r"
    using quiet_tick(1) [OF src ok nf, of f32 kops] st t d by (auto simp: r'_def)
  then show "ar_sm r' = ar_sm r" .
  have "st (tick_mixed f32 lops pops r) \<noteq> ReturningToLocal"
  proof -
    have "ar_sm (readSources f32 lops pops (updateTimers f32 (drainEvents f32 r))) = ar_sm r"
      unfolding readSources_def Let_def t
      using fill_never_fails(1) [OF okd nf(1)]
        fill_never_fails(2) [OF router_ok_fillLocal [OF src(1) okd] nf(2)] d by simp
    then show ?thesis using st by (auto simp: tick_mixed_def mixAndWrite_frame)
  qed
  then show "ar_gate r' = (gr_advance f32 ^^ kFrameSamples) (ar_gate r)"
    using g by (simp add: r'_def tick_eq ar_closeFade_def ar_writeSink_frame)
      (simp add: tick_mixed_def mixAndWrite_result)
qed

section \<open>Properties\<close>

text \<open>A source that always delivers silence, and a sink that keeps what it is given.\<close>

abbreviation quiet_ops :: "unit source_ops" where
  "quiet_ops \<equiv> \<lparr>so_id = (\<lambda>s. ''quiet''), so_read = (\<lambda>buf s. (silence (length buf), Src_Ok, s))\<rparr>"

abbreviation keep_ops :: "samples list sink_ops" where
  "keep_ops \<equiv> \<lparr>ko_write = (\<lambda>xs s. (True, s @ [xs]))\<rparr>"

lemma quiet_ops_source: "audio_source (so_read quiet_ops) (\<lambda>s. True)"
  by unfold_locales simp_all

lemma quiet_ops_never_fails: "never_fails quiet_ops (\<lambda>s. True)"
  by (simp add: never_fails_def)

text \<open>
  C9: every tick hands exactly one frame to the sink. After any history of control calls and
  ticks on a router with well-behaved sources, in whatever state it is, the next tick produces
  960 samples, each within the limiter's ceiling, gives exactly those to the sink once, and
  advances the frame clock by one.
\<close>

theorem router_tick_one_frame:
  fixes fl :: "real \<Rightarrow> real" and calls :: "router_call list" and kops :: "'k sink_ops"
    and lops :: "'l source_ops" and pops :: "'p source_ops" and r0 :: "('l, 'p, 'k) audio_router"
  assumes "audio_source (so_read lops) lok" and "audio_source (so_read pops) pok"
    and "router_wired cfg l p k = Some r0"
    and "\<forall>s. l = Some s \<longrightarrow> lok s" and "\<forall>s. p = Some s \<longrightarrow> pok s"
  defines "r \<equiv> router_run fl lops pops kops calls r0"
  defines "r' \<equiv> snd (tick fl lops pops kops r)"
  shows "length (ar_outBuf r') = 960 \<and> (\<forall>x\<in>set (ar_outBuf r'). \<bar>x\<bar> \<le> kCeiling) \<and>
    ar_sink r' = map_option (\<lambda>s. snd (ko_write kops (ar_outBuf r') s)) (ar_sink r) \<and>
    ar_frameIndex r' = ar_frameIndex r + 1 \<and> sm_inv (ar_sm r')"
proof (intro conjI)
  have ok: "router_ok lok pok r"
    unfolding r_def using router_wired_ok [OF assms(3-5)] by (intro router_ok_run assms) blast
  have ok': "router_ok lok pok r'"
    unfolding r'_def by (rule router_ok_tick [OF assms(1,2) ok])
  have out: "ar_outBuf r' = ar_outBuf (tick_mixed fl lops pops r)"
    unfolding r'_def by (rule tick_outBuf)
  show len: "length (ar_outBuf r') = 960"
    using ok' by (simp add: router_ok_def)
  show "\<forall>x\<in>set (ar_outBuf r'). \<bar>x\<bar> \<le> kCeiling"
    unfolding out tick_mixed_def by (rule mixAndWrite_result(2))
  have rok: "rb_ok (ar_events r)" using ok by (simp add: router_ok_def)
  show "ar_sink r' = map_option (\<lambda>s. snd (ko_write kops (ar_outBuf r') s)) (ar_sink r)"
    using len drainEvents_result [OF rok, of fl] unfolding out unfolding r'_def tick_eq
    by (simp add: ar_closeFade_frame)
       (simp add: ar_writeSink_def tick_mixed_def step_simps split: option.split prod.split)
  show "ar_frameIndex r' = ar_frameIndex r + 1"
    unfolding r'_def by (rule tick_clock [OF rok])
  show "sm_inv (ar_sm r')" using ok' by (simp add: router_ok_def)
qed

theorem router_tick_one_frame_witness:
  "\<exists>r0 :: (unit, unit, samples list) audio_router.
     router_wired default_router_config (Some ()) (Some ()) (Some []) = Some r0 \<and>
     length (ar_outBuf (snd (tick f32 quiet_ops quiet_ops keep_ops
       (router_run f32 quiet_ops quiet_ops keep_ops [RC_StartPtt, RC_PhoneReady, RC_Tick] r0)))) = 960"
proof -
  obtain r0 :: "(unit, unit, samples list) audio_router"
    where r0: "router_wired default_router_config (Some ()) (Some ()) (Some []) = Some r0"
    using router_wired_Some by blast
  show ?thesis
    using r0 router_tick_one_frame [OF quiet_ops_source quiet_ops_source r0, of f32 keep_ops
        "[RC_StartPtt, RC_PhoneReady, RC_Tick]"]
    by blast
qed

text \<open>
  C10: the watchdog needs nothing but the audio clock. After any history, once no call arrives
  the phone is not heard any more after \<open>phoneLostTimeout\<close> plus two frames, whatever the
  sources do, failing included, and it stays that way.
\<close>

theorem router_watchdog:
  assumes "audio_source (so_read lops) lok" and "audio_source (so_read pops) pok"
    and "router_wired cfg l p k = Some r0"
    and "\<forall>s. l = Some s \<longrightarrow> lok s" and "\<forall>s. p = Some s \<longrightarrow> pok s"
    and "length calls + n < 2 ^ 64"
    and "unat (framesFor (rc_phoneLostTimeoutMs cfg)) + 2 \<le> n"
  shows "sm_state (ar_sm (router_ticks fl lops pops kops n (router_run fl lops pops kops calls r0)))
    \<noteq> PhoneActive"
proof (rule watchdog_quiet [OF assms(1,2)])
  note w = router_wired_ok [OF assms(3-5)]
  have clock: "unat (ar_lastHeartbeatFrame (router_run fl lops pops kops calls r0)) \<le>
      unat (ar_frameIndex (router_run fl lops pops kops calls r0)) \<and>
    unat (ar_frameIndex (router_run fl lops pops kops calls r0)) \<le> length calls \<and>
    ar_config (router_run fl lops pops kops calls r0) = cfg"
    using router_clock_run [OF assms(1,2), of r0 calls fl kops] w assms(6) by simp
  show "router_ok lok pok (router_run fl lops pops kops calls r0)"
    using w by (intro router_ok_run assms) blast
  show "unat (ar_lastHeartbeatFrame (router_run fl lops pops kops calls r0)) \<le>
      unat (ar_frameIndex (router_run fl lops pops kops calls r0))"
    using clock by simp
  show "unat (ar_frameIndex (router_run fl lops pops kops calls r0)) + n < 2 ^ 64"
    using clock assms(6) by linarith
  show "unat (framesFor (rc_phoneLostTimeoutMs (ar_config (router_run fl lops pops kops calls r0)))) + 2 \<le> n"
    using clock assms(7) by simp
qed

theorem router_watchdog_witness:
  "\<exists>r0 :: (unit, unit, samples list) audio_router.
     router_wired default_router_config (Some ()) (Some ()) (Some []) = Some r0 \<and>
     sm_state (ar_sm (router_ticks f32 quiet_ops quiet_ops keep_ops 32
       (router_run f32 quiet_ops quiet_ops keep_ops [RC_StartPtt, RC_PhoneReady, RC_Tick] r0))) \<noteq> PhoneActive"
proof -
  obtain r0 :: "(unit, unit, samples list) audio_router"
    where r0: "router_wired default_router_config (Some ()) (Some ()) (Some []) = Some r0"
    using router_wired_Some by blast
  have "unat (framesFor (rc_phoneLostTimeoutMs default_router_config)) + 2 \<le> 32"
    by (simp add: framesFor_def default_router_config_def kFrameMillis_def)
  with r0 router_watchdog [OF quiet_ops_source quiet_ops_source r0, of
      "[RC_StartPtt, RC_PhoneReady, RC_Tick]" 32 f32 keep_ops]
  show ?thesis by (intro exI [of _ r0]) simp
qed

text \<open>
  C11: left alone, the router comes to rest. After any history, if no call arrives and the
  sources do not fail, then after the arming and the watchdog timeouts, one fade and four
  frames the router is in the resting state of its mode, and the crossfade and the gate are
  the only things that can still be moving.
\<close>

theorem router_comes_to_rest:
  fixes calls :: "router_call list" and n :: nat and kops :: "'k sink_ops"
    and lops :: "'l source_ops" and pops :: "'p source_ops" and r0 :: "('l, 'p, 'k) audio_router"
  assumes "audio_source (so_read lops) lok" and "audio_source (so_read pops) pok"
    and "never_fails lops lok" and "never_fails pops pok"
    and "router_wired cfg l p k = Some r0"
    and "\<forall>s. l = Some s \<longrightarrow> lok s" and "\<forall>s. p = Some s \<longrightarrow> pok s"
    and "length calls + n < 2 ^ 64"
    and "4 + unat (framesFor (rc_armTimeoutMs cfg)) + unat (framesFor (rc_phoneLostTimeoutMs cfg)) +
         max_fade cfg div 960 \<le> n"
  defines "r \<equiv> router_ticks f32 lops pops kops n (router_run f32 lops pops kops calls r0)"
  shows "sm_state (ar_sm r) = restingStateFor (sm_mode (ar_sm r))"
proof -
  obtain m where m: "n = Suc m" using assms(9) by (cases n) auto
  define q where "q = router_run f32 lops pops kops (calls @ [RC_Tick]) r0"
  note w = router_wired_ok [OF assms(5-7)]
  have w0: "router_ok lok pok r0" "fade_bounded r0" "unat (ar_lastHeartbeatFrame r0) \<le> unat (ar_frameIndex r0)"
      "ar_config r0 = cfg" "ar_frameIndex r0 = 0"
    using w gate_ok_wired [OF assms(5)] by simp_all
  have q: "router_ok lok pok q" "fade_bounded q"
    unfolding q_def by (rule router_ok_run [OF assms(1,2) w0(1)], rule fade_bound.I_run [OF assms(1,2) w0(1,2)])
  have clock: "unat (ar_lastHeartbeatFrame q) \<le> unat (ar_frameIndex q)"
      "unat (ar_frameIndex q) \<le> length calls + 1" "ar_config q = cfg"
    using router_clock_run [OF assms(1,2) w0(1,3), of "calls @ [RC_Tick]" f32 kops] assms(8) m w0
    by (simp_all add: q_def)
  have "rb_ok (ar_events (router_run f32 lops pops kops calls r0))"
    using router_ok_run [OF assms(1,2) w0(1), of f32 kops calls] by (simp add: router_ok_def)
  then have empty: "rb_contents (ar_events q) = []"
    using tick_clock(4) by (simp add: q_def router_run_def)
  have r: "r = router_ticks f32 lops pops kops m q"
    by (simp add: r_def m q_def router_run_def funpow_Suc_right del: funpow.simps)
  have "settle r \<le> settle q - m"
    unfolding r using clock assms(8) m
    by (intro settle_ticks [OF assms(1,2) q(1) empty assms(3,4)]) simp
  moreover have "settle q \<le> m"
    using settle_bound [OF q(2) clock(1)] clock(3) assms(9) m by simp
  ultimately have "settle r = 0" by simp
  moreover have "sm_inv (ar_sm r)"
    using router_ok_ticks [OF assms(1,2) q(1), where fl = f32 and kops = kops and n = m] by (simp add: r router_ok_def)
  ultimately show ?thesis
    using resting_states settle_0 by blast
qed

theorem router_comes_to_rest_witness:
  "\<exists>(r0 :: (unit, unit, samples list) audio_router) n.
     router_wired default_router_config (Some ()) (Some ()) (Some []) = Some r0 \<and>
     (let r = router_ticks f32 quiet_ops quiet_ops keep_ops n
                (router_run f32 quiet_ops quiet_ops keep_ops [RC_StartPtt, RC_PhoneReady] r0)
      in sm_state (ar_sm r) = restingStateFor (sm_mode (ar_sm r)))"
proof -
  obtain r0 :: "(unit, unit, samples list) audio_router"
    where r0: "router_wired default_router_config (Some ()) (Some ()) (Some []) = Some r0"
    using router_wired_Some by blast
  have "real 720 < 2 ^ 24" by simp
  then have "f32 (real 720) = real 720" using f32_int [of 720] by simp
  then have mf: "max_fade default_router_config = 720"
    by (simp add: max_fade_def default_router_config_def millisToSamples_eq)
  define n where "n = 4 + unat (framesFor (rc_armTimeoutMs default_router_config)) +
      unat (framesFor (rc_phoneLostTimeoutMs default_router_config)) + max_fade default_router_config div 960"
  have "n = 109"
    by (simp add: n_def mf framesFor_def kFrameMillis_def) (simp add: default_router_config_def)
  then show ?thesis
    using r0 router_comes_to_rest [OF quiet_ops_source quiet_ops_source quiet_ops_never_fails
        quiet_ops_never_fails r0, of "[RC_StartPtt, RC_PhoneReady]" n keep_ops]
    by (intro exI [of _ r0] exI [of _ n]) (simp add: n_def Let_def)
qed

text \<open>
  C12: Mute is silence. After any history that ends with a tick in the Muted state, if no call
  arrives and the sources do not fail, every frame from the end of one fade on consists of
  exact zeros, whatever the sources deliver.
\<close>

theorem router_mute_is_silent:
  fixes calls :: "router_call list" and n :: nat and kops :: "'k sink_ops"
    and lops :: "'l source_ops" and pops :: "'p source_ops" and r0 :: "('l, 'p, 'k) audio_router"
  assumes "audio_source (so_read lops) lok" and "audio_source (so_read pops) pok"
    and "never_fails lops lok" and "never_fails pops pok"
    and "router_wired cfg l p k = Some r0"
    and "\<forall>s. l = Some s \<longrightarrow> lok s" and "\<forall>s. p = Some s \<longrightarrow> pok s"
    and "length calls + n < 2 ^ 63"
  defines "r \<equiv> router_run f32 lops pops kops (calls @ [RC_Tick]) r0"
  assumes "sm_state (ar_sm r) = Muted" and "max_fade cfg div 960 + 2 \<le> n"
  shows "ar_outBuf (router_ticks f32 lops pops kops n r) = replicate 960 0"
proof -
  obtain m where m: "n = Suc m" using assms(11) by (cases n) auto
  note w = router_wired_ok [OF assms(5-7)]
  have w0: "router_ok lok pok r0" "gate_ok r0" "unat (ar_lastHeartbeatFrame r0) \<le> unat (ar_frameIndex r0)"
      "ar_config r0 = cfg" "ar_frameIndex r0 = 0"
    using w gate_ok_wired [OF assms(5)] by simp_all
  have r: "router_ok lok pok r" "gate_ok r"
    unfolding r_def by (rule router_ok_run [OF assms(1,2) w0(1)], rule gate.I_run [OF assms(1,2) w0(1,2)])
  have clock: "unat (ar_frameIndex r) \<le> length calls + 1" "ar_config r = cfg"
    using router_clock_run [OF assms(1,2) w0(1,3), of "calls @ [RC_Tick]" f32 kops] assms(8) m w0
    by (simp_all add: r_def)
  have "rb_ok (ar_events (router_run f32 lops pops kops calls r0))"
    using router_ok_run [OF assms(1,2) w0(1), of f32 kops calls] by (simp add: router_ok_def)
  then have empty: "rb_contents (ar_events r) = []"
    using tick_clock(4) by (simp add: r_def router_run_def)
  define q where "q = (\<lambda>i. router_ticks f32 lops pops kops i r)"
  have step: "router_ok lok pok (q i) \<and> gate_ok (q i) \<and> rb_contents (ar_events (q i)) = [] \<and>
      st (q i) = Muted \<and> ar_config (q i) = cfg \<and>
      gr_remaining (ar_gate (q i)) = gr_remaining (ar_gate r) - 960 * i" if "i \<le> m" for i
    using that
  proof (induction i)
    case 0
    then show ?case using r empty assms(10) clock(2) by (simp add: q_def)
  next
    case (Suc i)
    then have IH: "router_ok lok pok (q i)" "gate_ok (q i)" "rb_contents (ar_events (q i)) = []"
        "st (q i) = Muted" "ar_config (q i) = cfg"
        "gr_remaining (ar_gate (q i)) = gr_remaining (ar_gate r) - 960 * i" by simp_all
    have rok: "rb_ok (ar_events (q i))" using IH(1) by (simp add: router_ok_def)
    have "settle (q i) = 0" using IH(4) by (simp add: settle_0)
    note g = quiet_gate(2,3) [OF assms(1,2) IH(1,3) assms(3,4) this, of kops]
    have suc: "q (Suc i) = snd (tick f32 lops pops kops (q i))" by (simp add: q_def)
    show ?case
      using IH g router_ok_tick [OF assms(1,2) IH(1), of f32 kops]
        gate.I_tick [OF assms(1,2) IH(1,2), of kops] tick_clock [OF rok, of f32 lops pops kops]
      by (simp add: suc gr_advance_steps)
  qed
  note last = step [of m, simplified]
  have "settle (q m) = 0" using last by (simp add: settle_0)
  note g = quiet_gate(1) [OF assms(1,2) _ _ assms(3,4) this]
  have closed: "gr_remaining (ar_gate (q m)) = 0" "gr_value (ar_gate (q m)) = 0"
  proof -
    have "gr_remaining (ar_gate r) \<le> max_fade cfg" using r(2) clock(2) by (simp add: gate_ok_def)
    moreover have "max_fade cfg \<le> 960 * m"
      using assms(11) m mod_less_divisor [of 960 "max_fade cfg"] div_mult_mod_eq [of "max_fade cfg" 960]
      by linarith
    ultimately show rem: "gr_remaining (ar_gate (q m)) = 0" using last by simp
    show "gr_value (ar_gate (q m)) = 0"
      using last rem by (simp add: gate_ok_def silent_state_def)
  qed
  define z where "z = readSources f32 lops pops (updateTimers f32 (drainEvents f32 (q m)))"
  have z: "ar_gate z = ar_gate (q m)" unfolding z_def using g last by blast
  have "ar_outBuf (mixAndWrite f32 z) = fst (mix_loop f32 (ar_config z) (ar_localBuf z) (ar_phoneBuf z)
      [0..<kFrameSamples] (ar_fade z) (ar_gate z))"
    by (simp add: mixAndWrite_def split: prod.split)
  also have "\<dots> = replicate 960 0"
    using mix_loop_closed [of "ar_gate z"] closed z by simp
  finally show ?thesis
    by (simp add: m tick_outBuf tick_mixed_def z_def q_def)
qed

theorem router_mute_is_silent_witness:
  "\<exists>r0 :: (unit, unit, samples list) audio_router.
     router_wired default_router_config (Some ()) (Some ()) (Some []) = Some r0 \<and>
     (let r = router_run f32 quiet_ops quiet_ops keep_ops ([RC_SetMode Mode_Mute] @ [RC_Tick]) r0
      in sm_state (ar_sm r) = Muted \<and>
         ar_outBuf (router_ticks f32 quiet_ops quiet_ops keep_ops
                      (max_fade default_router_config div 960 + 2) r) = replicate 960 0)"
proof -
  obtain r0 :: "(unit, unit, samples list) audio_router"
    where r0: "router_wired default_router_config (Some ()) (Some ()) (Some []) = Some r0"
    using router_wired_Some by blast
  define q where "q = router_setMode Mode_Mute r0"
  have ok: "router_ok (\<lambda>_. True) (\<lambda>_. True) r0"
    using router_wired_ok [OF r0] by simp
  then have okq: "router_ok (\<lambda>_. True) (\<lambda>_. True) q"
    by (simp add: q_def router_setMode_def router_ok_events)
  have init: "ar_sm r0 = sm_init" "rb_contents (ar_events r0) = []" "rb_capacity (ar_events r0) \<ge> 1"
  proof -
    obtain rb :: "u32 ring_buffer" where rb: "rb_new 0 256 = Some rb"
      using rb_new_correct [of 256 0] by auto
    show "ar_sm r0 = sm_init" "rb_contents (ar_events r0) = []" "rb_capacity (ar_events r0) \<ge> 1"
      using rb_new_ok [OF rb] rb r0
      by (auto simp: router_wired_def router_new_def setSink_def setPhoneSource_def setLocalSource_def)
  qed
  have "rb_ok (ar_events r0)" using ok by (simp add: router_ok_def)
  from rb_write_correct(2) [OF this, of "[event_code Ev_ModeMute]"]
  have ev: "rb_contents (ar_events q) = [event_code Ev_ModeMute]"
    using init by (simp add: q_def router_setMode_def post_def q_keep_def del: event_code.simps)
  have "ar_sm (drainEvents f32 q) = sm_run [Ev_ModeMute] (ar_sm q)"
    using drainEvents_result [of q f32] okq ev
    by (simp add: router_ok_def List.map_filter_simps del: event_code.simps sm_run_simps)
  then have "st (drainEvents f32 q) = Muted"
    by (simp add: sm_apply_def)
  then have "st (updateTimers f32 (drainEvents f32 q)) = Muted" by (simp add: updateTimers_def)
  then have "sm_state (ar_sm (snd (tick f32 quiet_ops quiet_ops keep_ops q))) = Muted"
    using quiet_tick(1) [OF quiet_ops_source quiet_ops_source okq quiet_ops_never_fails
        quiet_ops_never_fails, of f32 keep_ops] by simp
  then have muted: "sm_state (ar_sm (router_run f32 quiet_ops quiet_ops keep_ops
      ([RC_SetMode Mode_Mute] @ [RC_Tick]) r0)) = Muted"
    by (simp add: router_run_def q_def)
  have "real 720 < 2 ^ 24" by simp
  then have "f32 (real 720) = real 720" using f32_int [of 720] by simp
  then have "max_fade default_router_config = 720"
    by (simp add: max_fade_def default_router_config_def millisToSamples_eq)
  with r0 muted router_mute_is_silent [OF quiet_ops_source quiet_ops_source quiet_ops_never_fails
      quiet_ops_never_fails r0 _ _ _ muted order.refl]
  show ?thesis by (intro exI [of _ r0]) (simp add: Let_def)
qed

end
