(* ===== verification/ReplayWindow.thy ===== *)
theory ReplayWindow
  imports Prelude
begin

text \<open>
  The sliding replay window of
  \<^verbatim>\<open>shared/protocol/include/smartmic/protocol/replay_window.h\<close>. The template argument \<open>Width\<close>
  is the parameter \<open>W\<close>, the bitset a list of \<open>W\<close> booleans. The abstract specification
  \<open>rw_fresh\<close> looks only at the list of the numbers accepted so far; the window implements it
  exactly, so that no number is accepted twice and no number is refused that is both new and
  less than \<open>W\<close> behind.
\<close>

record replay_window =
  rw_initialised :: bool
  rw_highest :: u64
  rw_seen :: "bool list"

definition rw_init :: "nat \<Rightarrow> replay_window" where
  "rw_init W = \<lparr>rw_initialised = False, rw_highest = 0, rw_seen = replicate W False\<rparr>"

text \<open>\<open>bitset <<= shift\<close> for \<open>shift < W\<close>\<close>

definition bits_shl :: "nat \<Rightarrow> bool list \<Rightarrow> bool list" where
  "bits_shl n bs = replicate n False @ take (length bs - n) bs"

definition rw_accept :: "nat \<Rightarrow> u64 \<Rightarrow> replay_window \<Rightarrow> bool \<times> replay_window" where
  "rw_accept W seq rw =
     (if \<not> rw_initialised rw then
        (True, \<lparr>rw_initialised = True, rw_highest = seq, rw_seen = (replicate W False)[0 := True]\<rparr>)
      else if seq > rw_highest rw then
        let shift = seq - rw_highest rw;
            bits = (if shift \<ge> of_nat W then replicate W False else bits_shl (unat shift) (rw_seen rw))
        in (True, rw\<lparr>rw_highest := seq, rw_seen := bits[0 := True]\<rparr>)
      else
        let behind = rw_highest rw - seq
        in if behind \<ge> of_nat W then (False, rw)
           else if rw_seen rw ! unat behind then (False, rw)
           else (True, rw\<lparr>rw_seen := (rw_seen rw)[unat behind := True]\<rparr>))"

definition rw_reset :: "nat \<Rightarrow> replay_window \<Rightarrow> replay_window" where
  "rw_reset W rw = \<lparr>rw_initialised = False, rw_highest = 0, rw_seen = replicate W False\<rparr>"

section \<open>Specification\<close>

text \<open>\<open>acc\<close> is what was accepted so far: new, and less than \<open>W\<close> behind everything accepted.\<close>

definition rw_fresh :: "nat \<Rightarrow> u64 list \<Rightarrow> u64 \<Rightarrow> bool" where
  "rw_fresh W acc seq \<longleftrightarrow> seq \<notin> set acc \<and> (\<forall>a\<in>set acc. unat a < unat seq + W)"

definition rw_rel :: "nat \<Rightarrow> u64 list \<Rightarrow> replay_window \<Rightarrow> bool" where
  "rw_rel W acc rw \<longleftrightarrow> length (rw_seen rw) = W \<and>
     (if rw_initialised rw then
        rw_highest rw \<in> set acc \<and> (\<forall>a\<in>set acc. a \<le> rw_highest rw) \<and>
        (\<forall>i<W. i \<le> unat (rw_highest rw) \<longrightarrow>
           (rw_seen rw ! i \<longleftrightarrow> rw_highest rw - of_nat i \<in> set acc))
      else acc = [])"

lemma rw_rel_init: "rw_rel W [] (rw_init W)"
  by (simp add: rw_rel_def rw_init_def)

lemma rw_rel_reset: "rw_rel W [] (rw_reset W rw)"
  by (simp add: rw_rel_def rw_reset_def)

lemma length_bits_shl [simp]: "n \<le> length bs \<Longrightarrow> length (bits_shl n bs) = length bs"
  by (simp add: bits_shl_def)

lemma nth_bits_shl: "n \<le> length bs \<Longrightarrow> i < length bs \<Longrightarrow>
    bits_shl n bs ! i = (if i < n then False else bs ! (i - n))"
  by (auto simp: bits_shl_def nth_append)

lemma u64_sub_of_nat: "i \<le> unat (h :: u64) \<Longrightarrow> unat (h - of_nat i) = unat h - i"
proof -
  assume i: "i \<le> unat h"
  then have "unat (of_nat i :: u64) = i"
    using unat_bound [of h] by (intro unat_of_nat_u64) simp
  then show ?thesis using i by (subst unat_sub) (simp_all add: word_le_nat_alt)
qed

lemma u64_sub_eq_iff: "i \<le> unat h \<Longrightarrow> h - of_nat i = x \<longleftrightarrow> unat h - i = unat (x :: u64)"
  using u64_sub_of_nat [of i h] by (simp only: word_unat_eq_iff)

lemma u64_ge_of_nat: "W < 2 ^ 64 \<Longrightarrow> (of_nat W \<le> (x :: u64)) \<longleftrightarrow> W \<le> unat x"
  by (simp add: word_le_nat_alt unat_of_nat_u64)

lemma rw_accept_correct:
  assumes W: "0 < W" "W < 2 ^ 64" and rel: "rw_rel W acc rw"
  shows "fst (rw_accept W seq rw) \<longleftrightarrow> rw_fresh W acc seq"
    and "rw_rel W (if rw_fresh W acc seq then seq # acc else acc) (snd (rw_accept W seq rw))"
proof -
  have both: "(fst (rw_accept W seq rw) \<longleftrightarrow> rw_fresh W acc seq) \<and>
      rw_rel W (if rw_fresh W acc seq then seq # acc else acc) (snd (rw_accept W seq rw))"
  proof (cases "rw_initialised rw")
    case False
    then have "acc = []" using rel by (simp add: rw_rel_def)
    moreover have "i < W \<Longrightarrow> i \<le> unat seq \<Longrightarrow> (replicate W False)[0 := True] ! i \<longleftrightarrow> seq - of_nat i = seq" for i
    proof -
      assume i: "i < W" "i \<le> unat seq"
      have "seq - of_nat i = seq \<longleftrightarrow> i = 0"
        unfolding u64_sub_eq_iff [OF i(2)] using i by auto
      then show ?thesis using i by (cases i) (simp_all only:, simp_all)
    qed
    moreover have "rw_accept W seq rw =
        (True, \<lparr>rw_initialised = True, rw_highest = seq, rw_seen = (replicate W False)[0 := True]\<rparr>)"
      using False by (simp only: rw_accept_def simp_thms if_True)
    ultimately show ?thesis
      unfolding rw_fresh_def rw_rel_def by simp
  next
    case True
    define h where "h = rw_highest rw"
    have rel': "length (rw_seen rw) = W" "h \<in> set acc" "\<forall>a\<in>set acc. a \<le> h"
        "\<And>i. i < W \<Longrightarrow> i \<le> unat h \<Longrightarrow> rw_seen rw ! i \<longleftrightarrow> h - of_nat i \<in> set acc"
      using rel True by (simp_all add: rw_rel_def h_def)
    show ?thesis
    proof (cases "h < seq")
      case newer: True
      have fresh: "rw_fresh W acc seq"
        using newer rel'(3) W(1)
        by (auto simp: rw_fresh_def word_le_nat_alt word_less_nat_alt)
      define shift where "shift = seq - h"
      have sh: "unat shift = unat seq - unat h"
        unfolding shift_def using newer by (intro unat_sub) simp
      define bits where "bits = (if shift \<ge> of_nat W then replicate W False
          else bits_shl (unat shift) (rw_seen rw))"
      have acc: "rw_accept W seq rw = (True, rw\<lparr>rw_highest := seq, rw_seen := bits[0 := True]\<rparr>)"
        using True newer by (simp add: rw_accept_def h_def shift_def bits_def Let_def)
      have len: "length bits = W"
        using rel'(1) W(2) by (simp add: bits_def u64_ge_of_nat)
      have bit: "bits[0 := True] ! i \<longleftrightarrow> seq - of_nat i \<in> set (seq # acc)"
        if i: "i < W" "i \<le> unat seq" for i
      proof (cases "i = 0")
        case True
        then show ?thesis using len W(1) by simp
      next
        case False
        have ne: "seq - of_nat i \<noteq> seq"
          using u64_sub_of_nat [OF i(2)] False i(2) by auto
        show ?thesis
        proof (cases "i < unat shift")
          case True
          then have "unat h < unat (seq - of_nat i)" using u64_sub_of_nat [OF i(2)] sh by simp
          then have "seq - of_nat i \<notin> set acc"
            using rel'(3) by (auto simp: word_le_nat_alt)
          then show ?thesis
            using True False ne i len rel'(1) W(2) by (auto simp: bits_def u64_ge_of_nat nth_bits_shl)
        next
          case False
          then have lt: "unat shift < W" using i by simp
          have "unat h + unat shift = unat seq" using sh newer by (simp add: word_less_nat_alt)
          then have le: "i - unat shift \<le> unat h" using i by simp
          have "seq = h + shift" by (simp add: shift_def)
          moreover have "(of_nat i :: u64) = of_nat (i - unat shift) + of_nat (unat shift)"
            using False by (simp only: of_nat_add [symmetric] le_add_diff_inverse2 not_less)
          then have "(of_nat i :: u64) = of_nat (i - unat shift) + shift" by simp
          ultimately have e: "seq - of_nat i = h - of_nat (i - unat shift)" by simp
          have b: "bits[0 := True] ! i = rw_seen rw ! (i - unat shift)"
            using False \<open>i \<noteq> 0\<close> i lt rel'(1) W(2) by (simp add: bits_def u64_ge_of_nat nth_bits_shl)
          have "i - unat shift < W" using i by simp
          from rel'(4) [OF this le] show ?thesis
            unfolding b e using ne unfolding e by (simp only: list.set insert_iff simp_thms)
        qed
      qed
      have "rw_rel W (seq # acc) (snd (rw_accept W seq rw))"
        using True len bit rel'(3) newer by (auto simp: acc rw_rel_def intro: less_imp_le order_trans)
      then show ?thesis using fresh acc by simp
    next
      case False
      then have le: "seq \<le> h" by simp
      define behind where "behind = h - seq"
      have b: "unat behind = unat h - unat seq"
        unfolding behind_def using le by (intro unat_sub)
      have leh: "unat seq \<le> unat h" using le by (simp add: word_le_nat_alt)
      show ?thesis
      proof (cases "W \<le> unat behind")
        case True
        then have "\<not> unat h < unat seq + W" using b leh by linarith
        then have "\<not> rw_fresh W acc seq" using rel'(2) by (auto simp: rw_fresh_def)
        moreover have "rw_accept W seq rw = (False, rw)"
          using \<open>rw_initialised rw\<close> False True W(2)
          by (simp add: rw_accept_def h_def [symmetric] behind_def [symmetric] Let_def u64_ge_of_nat)
        ultimately show ?thesis using rel by simp
      next
        case inside: False
        have sq: "h - of_nat (unat behind) = seq" by (simp add: behind_def)
        have seen: "rw_seen rw ! unat behind \<longleftrightarrow> seq \<in> set acc"
          using rel'(4) [of "unat behind"] inside b sq by simp
        have near: "\<forall>a\<in>set acc. unat a < unat seq + W"
          using rel'(3) inside b leh by (force simp: word_le_nat_alt)
        have acc: "rw_accept W seq rw =
            (if seq \<in> set acc then (False, rw)
             else (True, rw\<lparr>rw_seen := (rw_seen rw)[unat behind := True]\<rparr>))"
          using \<open>rw_initialised rw\<close> False inside W(2) seen
          by (simp add: rw_accept_def h_def [symmetric] behind_def [symmetric] Let_def u64_ge_of_nat)
        have eq: "h - of_nat i = seq \<longleftrightarrow> i = unat behind" if "i \<le> unat h" for i
        proof -
          have "h - of_nat i = seq \<longleftrightarrow> unat h - i = unat seq"
            by (rule u64_sub_eq_iff [OF that])
          then show ?thesis using that b leh by auto
        qed
        show ?thesis
          using rel rel' True near inside eq
          by (auto simp: acc rw_fresh_def rw_rel_def h_def [symmetric] nth_list_update le)
      qed
    qed
  qed
  then show "fst (rw_accept W seq rw) \<longleftrightarrow> rw_fresh W acc seq"
    and "rw_rel W (if rw_fresh W acc seq then seq # acc else acc) (snd (rw_accept W seq rw))"
    by blast+
qed

section \<open>Histories\<close>

fun rw_run :: "nat \<Rightarrow> u64 list \<Rightarrow> replay_window \<Rightarrow> bool list \<times> replay_window" where
  "rw_run W [] rw = ([], rw)"
| "rw_run W (s # ss) rw =
     (let (b, rw1) = rw_accept W s rw; (bs, rw2) = rw_run W ss rw1 in (b # bs, rw2))"

text \<open>The same on the specification.\<close>

fun rw_spec :: "nat \<Rightarrow> u64 list \<Rightarrow> u64 list \<Rightarrow> bool list" where
  "rw_spec W acc [] = []"
| "rw_spec W acc (s # ss) =
     rw_fresh W acc s # rw_spec W (if rw_fresh W acc s then s # acc else acc) ss"

lemma rw_run_spec:
  assumes "0 < W" and "W < 2 ^ 64"
  shows "rw_rel W acc rw \<Longrightarrow> fst (rw_run W ss rw) = rw_spec W acc ss"
proof (induction ss arbitrary: acc rw)
  case (Cons s ss)
  note acc = rw_accept_correct [OF assms Cons.prems, of s]
  show ?case
    using acc(1) Cons.IH [OF acc(2)] by (simp add: Let_def split: prod.split) (metis fst_conv snd_conv)
qed simp

definition accepted :: "bool list \<Rightarrow> 'a list \<Rightarrow> 'a list" where
  "accepted bs xs = map fst (filter snd (zip xs bs))"

lemma length_rw_spec [simp]: "length (rw_spec W acc ss) = length ss"
  by (induction ss arbitrary: acc) simp_all

lemma rw_spec_distinct:
  "distinct acc \<Longrightarrow> distinct (rev (accepted (rw_spec W acc ss) ss) @ acc)"
proof (induction ss arbitrary: acc)
  case (Cons s ss)
  show ?case
  proof (cases "rw_fresh W acc s")
    case True
    then have "distinct (s # acc)" using Cons.prems by (simp add: rw_fresh_def)
    from Cons.IH [OF this] True show ?thesis by (simp add: accepted_def)
  next
    case False
    then show ?thesis using Cons.IH [OF Cons.prems] by (simp add: accepted_def)
  qed
qed (simp add: accepted_def)

text \<open>
  C13: the window implements its specification. For every width and every sequence of
  arrivals a number is accepted exactly when it was not accepted before and is less than \<open>W\<close>
  behind the highest number accepted, so that no number is accepted twice and no reordering
  within the window is taken for a replay.
\<close>

theorem replay_window_exact:
  assumes "0 < W" and "W < 2 ^ 64"
  shows "fst (rw_run W seqs (rw_init W)) = rw_spec W [] seqs \<and>
    distinct (accepted (fst (rw_run W seqs (rw_init W))) seqs)"
  using rw_run_spec [OF assms rw_rel_init, of seqs] rw_spec_distinct [of "[]" W seqs] by simp

theorem replay_window_exact_witness:
  "fst (rw_run 4 [7, 5, 7, 12, 8, 9, 9] (rw_init 4)) = [True, True, False, True, False, True, False]"
  using replay_window_exact [of 4 "[7, 5, 7, 12, 8, 9, 9]"] by (simp add: rw_fresh_def)

end
