(* ===== verification/MediaPacket.thy ===== *)
theory MediaPacket
  imports Prelude
begin

text \<open>
  The media packet header of \<^verbatim>\<open>shared/media/include/smartmic/media/media_packet.h\<close>: a packed
  12-byte struct copied with \<open>memcpy\<close>. The bytes are those of a little-endian machine, which
  every supported target is.
\<close>

definition kMediaVersion :: u8 where "kMediaVersion = 1"
definition kFlagNone :: u8 where "kFlagNone = 0"
definition kFlagPttActive :: u8 where "kFlagPttActive = 1"
definition kFlagMarker :: u8 where "kFlagMarker = 2"

record media_header =
  mh_version :: u8
  mh_flags :: u8
  mh_reserved :: u16
  mh_seq :: u32
  mh_timestampSamples :: u32

definition mh_size :: nat where "mh_size = 12"

definition mh_bytes :: "media_header \<Rightarrow> bytes" where
  "mh_bytes h = le_bytes 1 (mh_version h) @ le_bytes 1 (mh_flags h) @ le_bytes 2 (mh_reserved h) @
     le_bytes 4 (mh_seq h) @ le_bytes 4 (mh_timestampSamples h)"

definition writeHeader :: "media_header \<Rightarrow> bytes \<Rightarrow> bytes" where
  "writeHeader h out = out @ mh_bytes h"

definition mh_parse :: "bytes \<Rightarrow> media_header" where
  "mh_parse d =
     \<lparr>mh_version = le_word (take 1 d), mh_flags = le_word (take 1 (drop 1 d)),
      mh_reserved = le_word (take 2 (drop 2 d)), mh_seq = le_word (take 4 (drop 4 d)),
      mh_timestampSamples = le_word (take 4 (drop 8 d))\<rparr>"

text \<open>\<open>out\<close> is the caller's struct, left alone when the packet is too short.\<close>

definition readHeader :: "bytes \<Rightarrow> media_header \<Rightarrow> bool \<times> media_header" where
  "readHeader d out =
     (if length d < mh_size then (False, out) else (mh_version (mh_parse d) = kMediaVersion, mh_parse d))"

lemma length_mh_bytes [simp]: "length (mh_bytes h) = 12"
  by (simp add: mh_bytes_def)

lemma mh_parse_bytes: "mh_parse (mh_bytes h @ rest) = h"
  by (cases h) (simp add: mh_parse_def mh_bytes_def le_word_full)

lemma readHeader_written:
  "readHeader (mh_bytes h @ rest) out = (mh_version h = kMediaVersion, h)"
  by (simp add: readHeader_def mh_size_def mh_parse_bytes)

lemma readHeader_short: "length d < 12 \<Longrightarrow> readHeader d out = (False, out)"
  by (simp add: readHeader_def mh_size_def)

text \<open>
  The header round-trips. What \<open>writeHeader\<close> appends is 12 bytes from which \<open>readHeader\<close>
  reads the same header whatever follows, accepting it exactly when its version is the
  current one, and headers with the same bytes are equal; anything shorter is refused with
  the caller's struct untouched.
\<close>

theorem media_header_roundtrip:
  "writeHeader h buf = buf @ mh_bytes h \<and> length (mh_bytes h) = 12 \<and>
   readHeader (drop (length buf) (writeHeader h buf) @ rest) out = (mh_version h = kMediaVersion, h) \<and>
   (mh_bytes h = mh_bytes h' \<longleftrightarrow> h = h') \<and>
   readHeader (take 11 d) out = (False, out)"
proof -
  have "mh_bytes h = mh_bytes h' \<longleftrightarrow> h = h'"
    by (metis mh_parse_bytes)
  then show ?thesis
    by (simp add: writeHeader_def readHeader_written readHeader_short)
qed

end
