(* ===== verification/SecureChannel.thy ===== *)
theory SecureChannel
  imports ReplayWindow
begin

text \<open>
  The authenticated framing of \<^verbatim>\<open>shared/media/src/secure_channel.cpp\<close>. The libsodium calls are
  the record \<open>sodium\<close>, a parameter; \<open>sodium_laws\<close> states the documented behaviour the code
  relies on. The lemmas show that a receiver delivers exactly the messages the replay window
  admits, with the plaintext that was sealed, whatever the network drops, reorders,
  duplicates or injects, and that no key and nonce are used together twice by the two ends of a
  session.
\<close>

section \<open>libsodium\<close>

text \<open>
  \<open>so_kdf len id ctx key\<close>, \<open>so_box plain nonce key\<close> and \<open>so_box_open cipher nonce key\<close> are
  \<open>crypto_kdf_derive_from_key\<close>, \<open>crypto_secretbox_easy\<close> and \<open>crypto_secretbox_open_easy\<close>;
  \<open>None\<close> is a nonzero return value. \<open>so_init\<close> is \<open>sodium_init() \<ge> 0\<close>.
\<close>

record sodium =
  so_init :: bool
  so_kdf :: "nat \<Rightarrow> u64 \<Rightarrow> bytes \<Rightarrow> bytes \<Rightarrow> bytes"
  so_box :: "bytes \<Rightarrow> bytes \<Rightarrow> bytes \<Rightarrow> bytes option"
  so_box_open :: "bytes \<Rightarrow> bytes \<Rightarrow> bytes \<Rightarrow> bytes option"

definition kMacBytes :: nat where "kMacBytes = 16"
definition kNonceBytes :: nat where "kNonceBytes = 24"
definition kBoxKeyBytes :: nat where "kBoxKeyBytes = 32"

definition sodium_laws :: "sodium \<Rightarrow> bool" where
  "sodium_laws c \<longleftrightarrow> so_init c \<and>
     (\<forall>len i ctx key. 16 \<le> len \<longrightarrow> len \<le> 64 \<longrightarrow> length (so_kdf c len i ctx key) = len) \<and>
     (\<forall>m n k. \<exists>ct. so_box c m n k = Some ct \<and> length ct = kMacBytes + length m \<and>
                   so_box_open c ct n k = Some m)"

section \<open>The channel\<close>

datatype direction = Dir_PhoneToPc | Dir_PcToPhone

definition kSecureOverhead :: nat where "kSecureOverhead = 8 + 16"

text \<open>\<open>"SMARTMIC"\<close>\<close>

definition kContext :: bytes where
  "kContext = [0x53, 0x4D, 0x41, 0x52, 0x54, 0x4D, 0x49, 0x43]"

definition kKeyPhoneToPc :: u64 where "kKeyPhoneToPc = 1"
definition kKeyPcToPhone :: u64 where "kKeyPcToPhone = 2"
definition kNoncePhoneToPc :: u64 where "kNoncePhoneToPc = 11"
definition kNoncePcToPhone :: u64 where "kNoncePcToPhone = 12"
definition kNoncePrefixBytes :: nat where "kNoncePrefixBytes = kNonceBytes - 8"

definition kReplayWidth :: nat where "kReplayWidth = 1024"

record secure_channel =
  sc_initialised :: bool
  sc_sendKey :: bytes
  sc_recvKey :: bytes
  sc_sendNoncePrefix :: bytes
  sc_recvNoncePrefix :: bytes
  sc_counter :: u64
  sc_replay :: replay_window
  sc_sealed :: u64
  sc_opened :: u64
  sc_authFailures :: u64
  sc_replayRejects :: u64
  sc_malformed :: u64

definition sc_new :: secure_channel where
  "sc_new = \<lparr>sc_initialised = False, sc_sendKey = [], sc_recvKey = [], sc_sendNoncePrefix = [],
             sc_recvNoncePrefix = [], sc_counter = 0, sc_replay = rw_init kReplayWidth,
             sc_sealed = 0, sc_opened = 0, sc_authFailures = 0, sc_replayRejects = 0, sc_malformed = 0\<rparr>"

definition sc_derive :: "sodium \<Rightarrow> nat \<Rightarrow> u64 \<Rightarrow> bytes \<Rightarrow> bytes" where
  "sc_derive c len i key = so_kdf c len i kContext key"

definition buildNonce :: "bytes \<Rightarrow> u64 \<Rightarrow> bytes" where
  "buildNonce prefix counter = take kNoncePrefixBytes prefix @ le_bytes 8 counter"

definition sc_init :: "sodium \<Rightarrow> bytes \<Rightarrow> direction \<Rightarrow> secure_channel \<Rightarrow> bool \<times> secure_channel" where
  "sc_init c sessionKey send ch =
     (if \<not> so_init c then (False, ch)
      else
        let sendKeyId = (if send = Dir_PhoneToPc then kKeyPhoneToPc else kKeyPcToPhone);
            recvKeyId = (if send = Dir_PhoneToPc then kKeyPcToPhone else kKeyPhoneToPc);
            sendNonceId = (if send = Dir_PhoneToPc then kNoncePhoneToPc else kNoncePcToPhone);
            recvNonceId = (if send = Dir_PhoneToPc then kNoncePcToPhone else kNoncePhoneToPc)
        in (True,
            ch\<lparr>sc_sendKey := sc_derive c kBoxKeyBytes sendKeyId sessionKey,
               sc_recvKey := sc_derive c kBoxKeyBytes recvKeyId sessionKey,
               sc_sendNoncePrefix := sc_derive c kNoncePrefixBytes sendNonceId sessionKey,
               sc_recvNoncePrefix := sc_derive c kNoncePrefixBytes recvNonceId sessionKey,
               sc_counter := 0,
               sc_replay := rw_reset kReplayWidth (sc_replay ch),
               sc_initialised := True\<rparr>))"

text \<open>\<open>seal\<close> returns its success, the caller's \<open>out\<close> and the channel.\<close>

definition sc_seal :: "sodium \<Rightarrow> bytes \<Rightarrow> bytes \<Rightarrow> secure_channel \<Rightarrow> bool \<times> bytes \<times> secure_channel" where
  "sc_seal c plain out ch =
     (if \<not> sc_initialised ch then (False, out, ch)
      else
        let counter = sc_counter ch;
            ch1 = ch\<lparr>sc_counter := counter + 1\<rparr>;
            nonce = buildNonce (sc_sendNoncePrefix ch1) counter
        in (case so_box c plain nonce (sc_sendKey ch1) of
              None \<Rightarrow> (False, [], ch1)
            | Some ct \<Rightarrow> (True, le_bytes 8 counter @ ct, ch1\<lparr>sc_sealed := sc_sealed ch1 + 1\<rparr>)))"

definition sc_open :: "sodium \<Rightarrow> bytes \<Rightarrow> bytes \<Rightarrow> secure_channel \<Rightarrow> bool \<times> bytes \<times> secure_channel" where
  "sc_open c packet out ch =
     (if \<not> sc_initialised ch then (False, out, ch)
      else if length packet < kSecureOverhead then
        (False, out, ch\<lparr>sc_malformed := sc_malformed ch + 1\<rparr>)
      else
        let counter = le_word (take 8 packet);
            nonce = buildNonce (sc_recvNoncePrefix ch) counter
        in (case so_box_open c (drop 8 packet) nonce (sc_recvKey ch) of
              None \<Rightarrow> (False, [], ch\<lparr>sc_authFailures := sc_authFailures ch + 1\<rparr>)
            | Some plain \<Rightarrow>
                (case rw_accept kReplayWidth counter (sc_replay ch) of
                   (fresh, rw) \<Rightarrow>
                     if \<not> fresh
                     then (False, [], ch\<lparr>sc_replay := rw, sc_replayRejects := sc_replayRejects ch + 1\<rparr>)
                     else (True, plain, ch\<lparr>sc_replay := rw, sc_opened := sc_opened ch + 1\<rparr>))))"

definition sc_rejected :: "secure_channel \<Rightarrow> u64" where
  "sc_rejected ch = sc_authFailures ch + sc_replayRejects ch + sc_malformed ch"

section \<open>Sealing a stream\<close>

fun sc_seal_all :: "sodium \<Rightarrow> bytes list \<Rightarrow> secure_channel \<Rightarrow> bytes list \<times> secure_channel" where
  "sc_seal_all c [] ch = ([], ch)"
| "sc_seal_all c (m # ms) ch =
     (case sc_seal c m [] ch of
        (ok, p, ch1) \<Rightarrow> case sc_seal_all c ms ch1 of (ps, ch2) \<Rightarrow> (p # ps, ch2))"

lemma sodium_laws_box:
  assumes "sodium_laws c"
  obtains ct where "so_box c m n k = Some ct" "length ct = kMacBytes + length m"
    "so_box_open c ct n k = Some m"
  using assms unfolding sodium_laws_def by blast

definition sc_packet :: "sodium \<Rightarrow> secure_channel \<Rightarrow> u64 \<Rightarrow> bytes \<Rightarrow> bytes" where
  "sc_packet c ch i m =
     le_bytes 8 i @ the (so_box c m (buildNonce (sc_sendNoncePrefix ch) i) (sc_sendKey ch))"

lemma sc_seal_result:
  assumes "sodium_laws c" and "sc_initialised ch"
  shows "sc_seal c m out ch =
    (True, sc_packet c ch (sc_counter ch) m,
     ch\<lparr>sc_counter := sc_counter ch + 1, sc_sealed := sc_sealed ch + 1\<rparr>)"
proof -
  obtain ct where "so_box c m (buildNonce (sc_sendNoncePrefix ch) (sc_counter ch)) (sc_sendKey ch) = Some ct"
    using sodium_laws_box [OF assms(1)] by blast
  then show ?thesis using assms(2) by (simp add: sc_seal_def sc_packet_def Let_def)
qed

lemma sc_seal_all_nth:
  assumes "sodium_laws c"
  shows "sc_initialised ch \<Longrightarrow>
    length (fst (sc_seal_all c ms ch)) = length ms \<and>
    (\<forall>i<length ms. fst (sc_seal_all c ms ch) ! i = sc_packet c ch (sc_counter ch + of_nat i) (ms ! i)) \<and>
    sc_counter (snd (sc_seal_all c ms ch)) = sc_counter ch + of_nat (length ms)"
proof (induction ms arbitrary: ch)
  case (Cons m ms)
  define ch1 where "ch1 = ch\<lparr>sc_counter := sc_counter ch + 1, sc_sealed := sc_sealed ch + 1\<rparr>"
  have s: "sc_seal c m [] ch = (True, sc_packet c ch (sc_counter ch) m, ch1)"
    using sc_seal_result [OF assms Cons.prems] by (simp add: ch1_def)
  have p: "sc_packet c ch1 = sc_packet c ch"
    by (intro ext) (simp add: sc_packet_def ch1_def)
  have "sc_initialised ch1" using Cons.prems by (simp add: ch1_def)
  from Cons.IH [OF this] show ?case
    by (cases "sc_seal_all c ms ch1")
       (auto simp: s p nth_Cons algebra_simps split: nat.split, simp_all add: ch1_def algebra_simps)
qed simp

section \<open>Receiving over a hostile network\<close>

text \<open>An arrival is a packet of the sender, by its index, or any other bytes.\<close>

datatype arrival = Genuine nat | Foreign bytes

fun arrival_bytes :: "bytes list \<Rightarrow> arrival \<Rightarrow> bytes" where
  "arrival_bytes ps (Genuine i) = ps ! i"
| "arrival_bytes ps (Foreign b) = b"

text \<open>Bytes that do not authenticate under the receiving key at the counter they carry.\<close>

definition sc_unauthentic :: "sodium \<Rightarrow> secure_channel \<Rightarrow> bytes \<Rightarrow> bool" where
  "sc_unauthentic c ch p \<longleftrightarrow> length p < kSecureOverhead \<or>
     so_box_open c (drop 8 p) (buildNonce (sc_recvNoncePrefix ch) (le_word (take 8 p))) (sc_recvKey ch) = None"

fun arrival_ok :: "sodium \<Rightarrow> secure_channel \<Rightarrow> nat \<Rightarrow> arrival \<Rightarrow> bool" where
  "arrival_ok c ch n (Genuine i) \<longleftrightarrow> i < n"
| "arrival_ok c ch n (Foreign b) \<longleftrightarrow> sc_unauthentic c ch b"

fun sc_open_all :: "sodium \<Rightarrow> bytes list \<Rightarrow> secure_channel \<Rightarrow> bytes option list \<times> secure_channel" where
  "sc_open_all c [] ch = ([], ch)"
| "sc_open_all c (p # ps) ch =
     (case sc_open c p [] ch of
        (ok, m, ch1) \<Rightarrow>
          case sc_open_all c ps ch1 of (os, ch2) \<Rightarrow> ((if ok then Some m else None) # os, ch2))"

text \<open>What the receiver must deliver: the window's specification on the genuine arrivals.\<close>

fun sc_expect :: "bytes list \<Rightarrow> u64 list \<Rightarrow> arrival list \<Rightarrow> bytes option list" where
  "sc_expect ms acc [] = []"
| "sc_expect ms acc (Foreign b # as) = None # sc_expect ms acc as"
| "sc_expect ms acc (Genuine i # as) =
     (if rw_fresh kReplayWidth acc (of_nat i)
      then Some (ms ! i) # sc_expect ms (of_nat i # acc) as
      else None # sc_expect ms acc as)"

text \<open>The receiver's side of a sender's keys.\<close>

definition sc_peer :: "secure_channel \<Rightarrow> secure_channel \<Rightarrow> bool" where
  "sc_peer snd_ch rcv_ch \<longleftrightarrow> sc_initialised snd_ch \<and> sc_initialised rcv_ch \<and>
     sc_recvKey rcv_ch = sc_sendKey snd_ch \<and> sc_recvNoncePrefix rcv_ch = sc_sendNoncePrefix snd_ch"

lemma sc_open_unauthentic:
  assumes "sc_unauthentic c ch p"
  shows "fst (sc_open c p out ch) = False"
    and "sc_replay (snd (snd (sc_open c p out ch))) = sc_replay ch"
    and "sc_peer s ch \<Longrightarrow> sc_peer s (snd (snd (sc_open c p out ch)))"
    and "sc_unauthentic c (snd (snd (sc_open c p out ch))) = sc_unauthentic c ch"
  using assms by (auto simp: sc_open_def sc_unauthentic_def sc_peer_def Let_def fun_eq_iff)

lemma sc_open_genuine:
  assumes "sodium_laws c" and "sc_peer s ch"
  shows "sc_open c (sc_packet c s i m) out ch =
    (if fst (rw_accept kReplayWidth i (sc_replay ch))
     then (True, m, ch\<lparr>sc_replay := snd (rw_accept kReplayWidth i (sc_replay ch)), sc_opened := sc_opened ch + 1\<rparr>)
     else (False, [], ch\<lparr>sc_replay := snd (rw_accept kReplayWidth i (sc_replay ch)),
                         sc_replayRejects := sc_replayRejects ch + 1\<rparr>))"
proof -
  obtain ct where ct: "so_box c m (buildNonce (sc_sendNoncePrefix s) i) (sc_sendKey s) = Some ct"
      "length ct = kMacBytes + length m"
      "so_box_open c ct (buildNonce (sc_sendNoncePrefix s) i) (sc_sendKey s) = Some m"
    using sodium_laws_box [OF assms(1)] by blast
  have p: "sc_packet c s i m = le_bytes 8 i @ ct" using ct(1) by (simp add: sc_packet_def)
  have w: "le_word (le_bytes 8 i) = i" by (rule le_word_full) simp
  show ?thesis
    using assms(2) ct
    by (simp add: p sc_open_def sc_peer_def kSecureOverhead_def kMacBytes_def w Let_def split: prod.split)
qed

lemma sc_open_all_expect:
  assumes laws: "sodium_laws c" and n: "length ms \<le> 2 ^ 64"
    and ps: "\<And>i. i < length ms \<Longrightarrow> ps ! i = sc_packet c s (of_nat i) (ms ! i)"
  shows "sc_peer s ch \<Longrightarrow> rw_rel kReplayWidth acc (sc_replay ch) \<Longrightarrow>
    \<forall>a\<in>set as. arrival_ok c ch (length ms) a \<Longrightarrow>
    fst (sc_open_all c (map (arrival_bytes ps) as) ch) = sc_expect ms acc as"
proof (induction as arbitrary: ch acc)
  case (Cons a as)
  have ok_cong: "arrival_ok c ch1 n b = arrival_ok c ch n b"
    if "sc_unauthentic c ch1 = sc_unauthentic c ch" for ch1 n b
    using that by (cases b) simp_all
  have W: "0 < kReplayWidth" "kReplayWidth < 2 ^ 64" by (simp_all add: kReplayWidth_def)
  show ?case
  proof (cases a)
    case (Foreign b)
    then have un: "sc_unauthentic c ch b" using Cons.prems(3) by simp
    obtain ok m ch1 where o: "sc_open c b [] ch = (ok, m, ch1)" by (metis prod_cases3)
    have ch1: "\<not> ok" "sc_replay ch1 = sc_replay ch" "sc_peer s ch1" "sc_unauthentic c ch1 = sc_unauthentic c ch"
      using sc_open_unauthentic [OF un, where out = "[]"] Cons.prems(1) o by simp_all
    have "fst (sc_open_all c (map (arrival_bytes ps) as) ch1) = sc_expect ms acc as"
      by (rule Cons.IH) (use ch1 ok_cong [OF ch1(4)] Cons.prems in simp_all)
    then show ?thesis using Foreign o ch1(1)
      by (cases "sc_open_all c (map (arrival_bytes ps) as) ch1") simp
  next
    case (Genuine i)
    then have i: "i < length ms" using Cons.prems(3) by simp
    define w where "w = rw_accept kReplayWidth (of_nat i) (sc_replay ch)"
    note acc = rw_accept_correct [OF W Cons.prems(2), of "of_nat i", folded w_def]
    obtain ok m ch1 where o: "sc_open c (ps ! i) [] ch = (ok, m, ch1)" by (metis prod_cases3)
    have eq: "ok = fst w" "fst w \<Longrightarrow> m = ms ! i" "sc_replay ch1 = snd w" "sc_peer s ch1"
        "sc_unauthentic c ch1 = sc_unauthentic c ch"
      using sc_open_genuine [OF laws Cons.prems(1), of "of_nat i" "ms ! i" "[]", folded w_def] o ps [OF i]
        Cons.prems(1)
      by (auto simp: sc_peer_def sc_unauthentic_def fun_eq_iff split: if_splits)
    have "fst (sc_open_all c (map (arrival_bytes ps) as) ch1) =
        sc_expect ms (if rw_fresh kReplayWidth acc (of_nat i) then of_nat i # acc else acc) as"
      by (rule Cons.IH) (use eq ok_cong [OF eq(5)] acc Cons.prems in simp_all)
    then show ?thesis using Genuine o eq(1,2) acc(1)
      by (cases "sc_open_all c (map (arrival_bytes ps) as) ch1") auto
  qed
qed simp

lemma sc_init_peer:
  assumes "sodium_laws c"
  shows "fst (sc_init c key d ch) \<and> sc_initialised (snd (sc_init c key d ch)) \<and>
    sc_counter (snd (sc_init c key d ch)) = 0 \<and>
    rw_rel kReplayWidth [] (sc_replay (snd (sc_init c key d ch))) \<and>
    (d' \<noteq> d \<longrightarrow> sc_peer (snd (sc_init c key d ch)) (snd (sc_init c key d' ch')))"
  using assms rw_rel_reset [of kReplayWidth "sc_replay ch"]
  by (cases d; cases d') (simp_all add: sc_init_def sodium_laws_def sc_peer_def Let_def)

text \<open>What a key and a direction seal depends on nothing the channel held before.\<close>

lemma sc_init_packet:
  "sodium_laws c \<Longrightarrow> sc_packet c (snd (sc_init c key d ch)) = sc_packet c (snd (sc_init c key d ch'))"
  by (simp add: sc_packet_def sc_init_def sodium_laws_def Let_def fun_eq_iff)

lemma buildNonce_inject:
  assumes "buildNonce p i = buildNonce p j"
  shows "i = j"
proof -
  have "le_bytes 8 i = le_bytes 8 j" using assms by (simp add: buildNonce_def)
  then show ?thesis using le_bytes_inject [of 8 i j] by simp
qed

text \<open>A concrete instance of the parameter: the message with a zero tag.\<close>

definition plain_sodium :: sodium where
  "plain_sodium = \<lparr>so_init = True, so_kdf = (\<lambda>len i ctx key. replicate len (ucast i)),
     so_box = (\<lambda>m n k. Some (replicate 16 0 @ m)),
     so_box_open = (\<lambda>ct n k. if take 16 ct = replicate 16 0 \<and> 16 \<le> length ct then Some (drop 16 ct) else None)\<rparr>"

lemma plain_sodium_laws: "sodium_laws plain_sodium"
  by (simp add: sodium_laws_def plain_sodium_def kMacBytes_def)

section \<open>Both ends of a session\<close>

text \<open>
  What the two ends call, each named by the direction it sends in, and what is logged of a \<open>seal\<close>:
  the end, the key and nonce it passes to \<open>crypto_secretbox_easy\<close>, the message and the packet.
\<close>

datatype sc_call = SC_Seal bytes | SC_Open bytes

record seal_event =
  se_end :: direction
  se_key :: bytes
  se_nonce :: bytes
  se_plain :: bytes
  se_packet :: bytes

fun sc_run :: "sodium \<Rightarrow> (direction \<times> sc_call) list \<Rightarrow> (direction \<Rightarrow> secure_channel) \<Rightarrow>
    seal_event list \<times> (direction \<Rightarrow> secure_channel)" where
  "sc_run c [] chs = ([], chs)"
| "sc_run c ((d, SC_Seal m) # cs) chs =
     (case sc_seal c m [] (chs d) of
        (ok, p, ch) \<Rightarrow>
          case sc_run c cs (chs(d := ch)) of
            (es, chs') \<Rightarrow>
              (\<lparr>se_end = d, se_key = sc_sendKey (chs d),
                se_nonce = buildNonce (sc_sendNoncePrefix (chs d)) (sc_counter (chs d)),
                se_plain = m, se_packet = p\<rparr> # es, chs'))"
| "sc_run c ((d, SC_Open p) # cs) chs = sc_run c cs (chs(d := snd (snd (sc_open c p [] (chs d)))))"

fun sc_messages :: "direction \<Rightarrow> (direction \<times> sc_call) list \<Rightarrow> bytes list" where
  "sc_messages d [] = []"
| "sc_messages d ((d', SC_Seal m) # cs) = (if d' = d then m # sc_messages d cs else sc_messages d cs)"
| "sc_messages d ((d', SC_Open p) # cs) = sc_messages d cs"

definition sc_event :: "sodium \<Rightarrow> direction \<Rightarrow> bytes \<Rightarrow> bytes \<Rightarrow> nat \<Rightarrow> bytes \<Rightarrow> seal_event" where
  "sc_event c d k pre i m =
     \<lparr>se_end = d, se_key = k, se_nonce = buildNonce pre (of_nat i), se_plain = m,
      se_packet = le_bytes 8 (of_nat i :: u64) @ the (so_box c m (buildNonce pre (of_nat i)) k)\<rparr>"

lemma sc_messages_length: "length (sc_messages d cs) \<le> length cs"
  by (induction d cs rule: sc_messages.induct) auto

lemma sc_open_keeps:
  "sc_initialised (snd (snd (sc_open c p out ch))) = sc_initialised ch \<and>
   sc_sendKey (snd (snd (sc_open c p out ch))) = sc_sendKey ch \<and>
   sc_sendNoncePrefix (snd (snd (sc_open c p out ch))) = sc_sendNoncePrefix ch \<and>
   sc_counter (snd (snd (sc_open c p out ch))) = sc_counter ch"
  by (auto simp: sc_open_def Let_def split: option.split prod.split)

lemma sc_run_log:
  assumes "sodium_laws c"
  shows "(\<And>d. sc_initialised (chs d) \<and> sc_sendKey (chs d) = K d \<and> sc_sendNoncePrefix (chs d) = P d) \<Longrightarrow>
    sc_counter (chs d) = of_nat n \<Longrightarrow>
    [e \<leftarrow> fst (sc_run c cs chs). se_end e = d] =
      map (\<lambda>(i, m). sc_event c d (K d) (P d) i m) (enumerate n (sc_messages d cs))"
proof (induction cs arbitrary: chs n)
  case (Cons x cs)
  obtain d' call where x: "x = (d', call)" by fastforce
  show ?case
  proof (cases call)
    case (SC_Seal m)
    note s = sc_seal_result [OF assms, of "chs d'" m "[]"] Cons.prems(1) [of d']
    let ?chs = "chs(d' := (chs d')\<lparr>sc_counter := sc_counter (chs d') + 1, sc_sealed := sc_sealed (chs d') + 1\<rparr>)"
    have IH: "[e \<leftarrow> fst (sc_run c cs ?chs). se_end e = d] =
      map (\<lambda>(i, m). sc_event c d (K d) (P d) i m) (enumerate (if d' = d then Suc n else n) (sc_messages d cs))"
      by (rule Cons.IH) (use Cons.prems in auto)
    show ?thesis
      using IH s Cons.prems(2)
      by (cases "sc_run c cs ?chs") (auto simp: x SC_Seal sc_event_def sc_packet_def)
  next
    case (SC_Open p)
    have "[e \<leftarrow> fst (sc_run c cs (chs(d' := snd (snd (sc_open c p [] (chs d')))))). se_end e = d] =
      map (\<lambda>(i, m). sc_event c d (K d) (P d) i m) (enumerate n (sc_messages d cs))"
      by (rule Cons.IH) (use Cons.prems sc_open_keeps in auto)
    then show ?thesis by (simp add: x SC_Open)
  qed
qed simp

lemma sc_init_subkeys:
  assumes "sodium_laws c"
  shows "sc_initialised (snd (sc_init c key d ch)) \<and>
    sc_sendKey (snd (sc_init c key d ch)) = so_kdf c 32 (if d = Dir_PhoneToPc then 1 else 2) kContext key \<and>
    sc_sendNoncePrefix (snd (sc_init c key d ch)) = so_kdf c 16 (if d = Dir_PhoneToPc then 11 else 12) kContext key \<and>
    sc_counter (snd (sc_init c key d ch)) = 0"
  using assms
  by (simp add: sc_init_def sodium_laws_def sc_derive_def Let_def kBoxKeyBytes_def kNoncePrefixBytes_def kNonceBytes_def
      kKeyPhoneToPc_def kKeyPcToPhone_def kNoncePhoneToPc_def kNoncePcToPhone_def)

lemma buildNonce_16: "length pre = 16 \<Longrightarrow> buildNonce pre i = pre @ le_bytes 8 i"
  by (simp add: buildNonce_def kNoncePrefixBytes_def kNonceBytes_def)

lemma sc_event_box:
  assumes "sodium_laws c" and "length pre = 16" and "e = sc_event c d k pre i m"
  shows "se_key e = k \<and> (\<exists>ct. so_box c (se_plain e) (se_nonce e) (se_key e) = Some ct \<and> se_packet e = drop 16 (se_nonce e) @ ct)"
proof -
  obtain ct where "so_box c m (buildNonce pre (of_nat i)) k = Some ct" using sodium_laws_box [OF assms(1)] by blast
  then show ?thesis using assms(2,3) by (simp add: sc_event_def buildNonce_16)
qed

lemma sc_event_in:
  assumes "[e \<leftarrow> es. se_end e = se_end e0] = map (\<lambda>(i, m). sc_event c (se_end e0) k pre i m) (enumerate 0 ms)"
    and "length ms \<le> n" and "e0 \<in> set es"
  shows "\<exists>i<n. \<exists>m. e0 = sc_event c (se_end e0) k pre i m"
proof -
  have "e0 \<in> set [e \<leftarrow> es. se_end e = se_end e0]" using assms(3) by simp
  then obtain im where "im \<in> set (enumerate 0 ms)" "e0 = sc_event c (se_end e0) k pre (fst im) (snd im)"
    unfolding assms(1) by (auto simp: split_def)
  moreover from this assms(2) have "fst im < n" by (simp add: in_set_enumerate_eq)
  ultimately show ?thesis by blast
qed

lemma sc_events_distinct:
  assumes "length pre = 16" and "length ms < 2 ^ 64"
  shows "distinct (map (\<lambda>e. (se_key e, se_nonce e)) (map (\<lambda>(i, m). sc_event c d k pre i m) (enumerate 0 ms)))"
proof -
  have "inj_on (\<lambda>x. (k, buildNonce pre (of_nat (fst x)))) (set (enumerate 0 ms))"
  proof (rule inj_onI)
    fix x y
    assume in_ms: "x \<in> set (enumerate 0 ms)" "y \<in> set (enumerate 0 ms)"
      and eq: "(k, buildNonce pre (of_nat (fst x))) = (k, buildNonce pre (of_nat (fst y)))"
    have "unat (of_nat (fst x) :: u64) = unat (of_nat (fst y) :: u64)" using buildNonce_inject [of pre "of_nat (fst x)" "of_nat (fst y)"] eq by simp
    then have "fst x = fst y"
      using in_ms assms(2) by (simp add: in_set_enumerate_eq unat_of_nat_u64 del: unat_of_nat)
    then show "x = y" using in_ms by (simp add: in_set_enumerate_eq prod_eq_iff)
  qed
  then show ?thesis
    by (simp add: comp_def split_def sc_event_def distinct_map)
qed

text \<open>A list is distinct if each of its groups is and no two groups meet.\<close>

lemma distinct_by_group:
  assumes "\<And>d. distinct (map f [e \<leftarrow> xs. g e = d])"
    and "\<And>x y. x \<in> set xs \<Longrightarrow> y \<in> set xs \<Longrightarrow> f x = f y \<Longrightarrow> g x = g y"
  shows "distinct (map f xs)"
  using assms
proof (induction xs)
  case (Cons a xs)
  have "distinct (map f [e \<leftarrow> xs. g e = d])" for d using Cons.prems(1) [of d] by (simp split: if_splits)
  then have "distinct (map f xs)" by (rule Cons.IH) (rule Cons.prems(2); simp)
  moreover have "f a \<noteq> f y" if "y \<in> set xs" for y
  proof
    assume "f a = f y"
    then have "y \<in> set [e \<leftarrow> xs. g e = g a]" using Cons.prems(2) [of a y] that by simp
    then have "f a \<in> f ` set [e \<leftarrow> xs. g e = g a]" using \<open>f a = f y\<close> by blast
    then show False using Cons.prems(1) [of "g a"] by simp
  qed
  then have "f a \<notin> f ` set xs" by blast
  ultimately show ?case by simp
qed simp

section \<open>Properties\<close>

text \<open>
  C14: authenticated delivery. A receiver that was given the sender's session key for the
  other direction delivers, for any list of arrivals made of the sender's packets, reordered,
  dropped or duplicated at will, and of foreign bytes that do not authenticate, exactly the
  genuine messages the replay window's specification admits, each with the plaintext that
  was sealed; foreign bytes neither come out nor influence what does.
\<close>

theorem secure_channel_delivery:
  fixes key :: bytes and ch ch' :: secure_channel and d d' :: direction
  assumes "sodium_laws c" and "d' \<noteq> d" and "length ms \<le> 2 ^ 64"
  defines "s \<equiv> snd (sc_init c key d ch)" and "r \<equiv> snd (sc_init c key d' ch')"
  assumes "\<forall>a\<in>set as. arrival_ok c r (length ms) a"
  shows "fst (sc_open_all c (map (arrival_bytes (fst (sc_seal_all c ms s))) as) r) = sc_expect ms [] as"
proof -
  have s: "sc_initialised s" "sc_counter s = 0"
    using sc_init_peer [OF assms(1), of key d ch] by (simp_all add: s_def)
  have p: "sc_peer s r"
    using sc_init_peer [OF assms(1), of key d ch d' ch'] assms(2) by (simp add: s_def r_def)
  have rel: "rw_rel kReplayWidth [] (sc_replay r)"
    using sc_init_peer [OF assms(1), of key d' ch'] by (simp add: r_def)
  show ?thesis
    by (rule sc_open_all_expect [OF assms(1,3) _ p rel assms(6)])
       (use sc_seal_all_nth [OF assms(1) s(1), of ms] s(2) in simp)
qed

theorem secure_channel_delivery_witness:
  "fst (sc_open_all plain_sodium
     (map (arrival_bytes (fst (sc_seal_all plain_sodium [[1], [2]]
        (snd (sc_init plain_sodium [] Dir_PhoneToPc sc_new)))))
        [Genuine 1, Foreign [0, 0], Genuine 1, Genuine 0])
     (snd (sc_init plain_sodium [] Dir_PcToPhone sc_new))) = [Some [2], None, None, Some [1]]"
proof -
  have "fst (sc_open_all plain_sodium
     (map (arrival_bytes (fst (sc_seal_all plain_sodium [[1], [2]]
        (snd (sc_init plain_sodium [] Dir_PhoneToPc sc_new)))))
        [Genuine 1, Foreign [0, 0], Genuine 1, Genuine 0])
     (snd (sc_init plain_sodium [] Dir_PcToPhone sc_new))) =
     sc_expect [[1], [2]] [] [Genuine 1, Foreign [0, 0], Genuine 1, Genuine 0]"
    by (rule secure_channel_delivery [OF plain_sodium_laws])
       (simp_all add: sc_unauthentic_def kSecureOverhead_def)
  then show ?thesis by (simp add: rw_fresh_def kReplayWidth_def)
qed

text \<open>
  C15: no key and nonce are used together twice, by either end. The two ends of a session are
  initialised with the same session key for the two directions, and then make any list of \<open>seal\<close> and
  \<open>open\<close> calls, interleaved in any order. Every message is boxed under the subkey of its end's
  direction, number 1 for the phone and 2 for the PC; the \<open>i\<close>-th message an end seals goes out under
  that end's prefix, subkey 11 or 12, followed by the counter \<open>i\<close>, and its packet is this counter and
  the box of the message under just this key and nonce; and the pairs of key and nonce are all
  distinct. It is assumed that the two subkeys differ, which is what the derivation is for, and
  that fewer than \<open>2 ^ 64\<close> calls are made; an \<open>init\<close> with the same key would start the counters over.
\<close>

theorem secure_channel_nonces_distinct:
  fixes key :: bytes and ch :: "direction \<Rightarrow> secure_channel" and cs :: "(direction \<times> sc_call) list"
  assumes "sodium_laws c" and "length cs < 2 ^ 64"
    and "so_kdf c 32 1 kContext key \<noteq> so_kdf c 32 2 kContext key"
  defines "sent \<equiv> fst (sc_run c cs (\<lambda>d. snd (sc_init c key d (ch d))))"
  shows "distinct (map (\<lambda>e. (se_key e, se_nonce e)) sent) \<and>
    (\<forall>d. map (\<lambda>e. (se_plain e, se_nonce e)) [e \<leftarrow> sent. se_end e = d] =
       map (\<lambda>(i, m). (m, so_kdf c 16 (if d = Dir_PhoneToPc then 11 else 12) kContext key @ le_bytes 8 (of_nat i :: u64)))
         (enumerate 0 (sc_messages d cs))) \<and>
    (\<forall>e\<in>set sent. se_key e = so_kdf c 32 (if se_end e = Dir_PhoneToPc then 1 else 2) kContext key \<and>
       (\<exists>ct. so_box c (se_plain e) (se_nonce e) (se_key e) = Some ct \<and> se_packet e = drop 16 (se_nonce e) @ ct))"
proof -
  let ?K = "\<lambda>d. so_kdf c 32 (if d = Dir_PhoneToPc then 1 else 2) kContext key"
  let ?P = "\<lambda>d. so_kdf c 16 (if d = Dir_PhoneToPc then 11 else 12) kContext key"
  note start = sc_init_subkeys [OF assms(1), of key _ "ch _"]
  have log: "[e \<leftarrow> sent. se_end e = d] = map (\<lambda>(i, m). sc_event c d (?K d) (?P d) i m) (enumerate 0 (sc_messages d cs))" for d
    unfolding sent_def by (rule sc_run_log [OF assms(1)]) (simp_all add: start)
  have ev: "e \<in> set sent \<Longrightarrow> \<exists>i<length cs. \<exists>m. e = sc_event c (se_end e) (?K (se_end e)) (?P (se_end e)) i m" for e
    using log [of "se_end e"] sc_messages_length [of "se_end e" cs] by (rule sc_event_in)
  have P: "length (?P d) = 16" for d using assms(1) by (simp add: sodium_laws_def)
  have key_end: "se_end e = se_end e'" if "e \<in> set sent" "e' \<in> set sent" "se_key e = se_key e'" for e e'
    using ev [OF that(1)] ev [OF that(2)] that(3) assms(3)
    by (cases "se_end e"; cases "se_end e'") (auto simp: sc_event_def dest!: arg_cong [where f = se_key])
  have "distinct (map (\<lambda>e. (se_key e, se_nonce e)) sent)"
  proof (rule distinct_by_group [where g = se_end])
    show "distinct (map (\<lambda>e. (se_key e, se_nonce e)) [e \<leftarrow> sent. se_end e = d])" for d
      unfolding log using sc_events_distinct [OF P, of "sc_messages d cs" c d "?K d"] sc_messages_length [of d cs] assms(2)
      by simp
    show "se_end x = se_end y"
      if "x \<in> set sent" "y \<in> set sent" "(se_key x, se_nonce x) = (se_key y, se_nonce y)" for x y
      using key_end [OF that(1,2)] that(3) by simp
  qed
  moreover have "map (\<lambda>e. (se_plain e, se_nonce e)) [e \<leftarrow> sent. se_end e = d] =
      map (\<lambda>(i, m). (m, ?P d @ le_bytes 8 (of_nat i :: u64))) (enumerate 0 (sc_messages d cs))" for d
    unfolding log by (simp add: sc_event_def buildNonce_16 [OF P] split_def)
  moreover have "se_key e = ?K (se_end e) \<and>
       (\<exists>ct. so_box c (se_plain e) (se_nonce e) (se_key e) = Some ct \<and> se_packet e = drop 16 (se_nonce e) @ ct)"
    if "e \<in> set sent" for e
    using ev [OF that] sc_event_box [OF assms(1) P] by metis
  ultimately show ?thesis by blast
qed

theorem secure_channel_nonces_distinct_witness:
  "let es = fst (sc_run plain_sodium [(Dir_PhoneToPc, SC_Seal [1]), (Dir_PcToPhone, SC_Seal [2]),
       (Dir_PcToPhone, SC_Open (le_bytes 8 (0 :: u64) @ replicate 16 0 @ [1])), (Dir_PhoneToPc, SC_Seal [3])]
       (\<lambda>d. snd (sc_init plain_sodium [] d sc_new)))
   in map se_plain [e \<leftarrow> es. se_end e = Dir_PhoneToPc] = [[1], [3]] \<and>
      distinct (map (\<lambda>e. (se_key e, se_nonce e)) es)"
proof -
  let ?cs = "[(Dir_PhoneToPc, SC_Seal [1]), (Dir_PcToPhone, SC_Seal [2]),
       (Dir_PcToPhone, SC_Open (le_bytes 8 (0 :: u64) @ replicate 16 0 @ [1])), (Dir_PhoneToPc, SC_Seal [3])]"
  have "so_kdf plain_sodium 32 1 kContext [] \<noteq> so_kdf plain_sodium 32 2 kContext []"
    by (simp add: plain_sodium_def)
  note all = secure_channel_nonces_distinct [OF plain_sodium_laws _ this, of ?cs "\<lambda>d. sc_new"]
  then have "map fst (map (\<lambda>e. (se_plain e, se_nonce e)) [e \<leftarrow> fst (sc_run plain_sodium ?cs
        (\<lambda>d. snd (sc_init plain_sodium [] d sc_new))). se_end e = Dir_PhoneToPc]) = [[1], [3]]"
    by (simp only: sc_messages.simps list.size) (simp add: comp_def)
  then have "map se_plain [e \<leftarrow> fst (sc_run plain_sodium ?cs
        (\<lambda>d. snd (sc_init plain_sodium [] d sc_new))). se_end e = Dir_PhoneToPc] = [[1], [3]]"
    by (simp only: map_map comp_def fst_conv)
  moreover have "distinct (map (\<lambda>e. (se_key e, se_nonce e)) (fst (sc_run plain_sodium ?cs
        (\<lambda>d. snd (sc_init plain_sodium [] d sc_new)))))"
    by (rule conjunct1 [OF all]) simp
  ultimately show ?thesis unfolding Let_def by (rule conjI)
qed

end
