(* ===== verification/Json.thy ===== *)
theory Json
  imports Prelude Floats "HOL-Library.Finite_Map"
begin

text \<open>
  The JSON values of nlohmann::json that the control protocol uses: the value type, the
  conversions \<open>get<T>\<close> and \<open>value\<close> the sources call, and their exceptions. The text parser and
  printer are the parameter \<open>json_text\<close> with the documented round trip as its law. An object
  is a finite map, so that its members have no order.
\<close>

datatype json =
    JNull
  | JBool bool
  | JUnsigned u64
  | JInteger int
  | JFloat real
  | JString string
  | JArray "json list"
  | JObject "(string, json) fmap"

text \<open>\<open>parse\<close> is \<open>None\<close> on a discarded value; \<open>dump\<close> is \<open>None\<close> when it throws (text that is not UTF-8).\<close>

record json_text =
  jt_parse :: "string \<Rightarrow> json option"
  jt_dump :: "json \<Rightarrow> string option"

definition json_text_laws :: "json_text \<Rightarrow> bool" where
  "json_text_laws t \<longleftrightarrow> (\<forall>j s. jt_dump t j = Some s \<longrightarrow> jt_parse t s = Some j)"

definition json_obj :: "(string \<times> json) list \<Rightarrow> json" where
  "json_obj kvs = JObject (fold (\<lambda>(k, v) m. fmupd k v m) kvs fmempty)"

fun jfind :: "json \<Rightarrow> string \<Rightarrow> json option" where
  "jfind (JObject m) k = fmlookup m k"
| "jfind _ k = None"

fun is_object :: "json \<Rightarrow> bool" where
  "is_object (JObject m) = True"
| "is_object _ = False"

fun json_empty :: "json \<Rightarrow> bool" where
  "json_empty JNull = True"
| "json_empty (JArray xs) = (xs = [])"
| "json_empty (JObject m) = (m = fmempty)"
| "json_empty _ = False"

definition trunc :: "real \<Rightarrow> int" where
  "trunc x = (if x < 0 then - \<lfloor>- x\<rfloor> else \<lfloor>x\<rfloor>)"

text \<open>
  \<open>get<std::uint32_t>()\<close>: the generic arithmetic conversion, a \<open>static_cast\<close> that also takes
  booleans; \<open>get<std::uint64_t>()\<close> is the conversion to the library's own unsigned type, which
  does not. \<open>None\<close> is \<open>json::type_error\<close>.
\<close>

fun get_u32 :: "json \<Rightarrow> u32 option" where
  "get_u32 (JBool b) = Some (if b then 1 else 0)"
| "get_u32 (JUnsigned n) = Some (ucast n)"
| "get_u32 (JInteger i) = Some (of_int i)"
| "get_u32 (JFloat x) = Some (of_int (trunc x))"
| "get_u32 _ = None"

fun get_u64 :: "json \<Rightarrow> u64 option" where
  "get_u64 (JUnsigned n) = Some n"
| "get_u64 (JInteger i) = Some (of_int i)"
| "get_u64 (JFloat x) = Some (of_int (trunc x))"
| "get_u64 _ = None"

fun get_string :: "json \<Rightarrow> string option" where
  "get_string (JString s) = Some s"
| "get_string _ = None"

text \<open>
  \<open>j.value(key, default)\<close>: the default for an absent key, the member converted otherwise, and
  an exception when \<open>j\<close> is not an object or the member has another type.
\<close>

datatype json_error = Json_TypeError

fun value_string :: "json \<Rightarrow> string \<Rightarrow> string \<Rightarrow> json_error + string" where
  "value_string (JObject m) k d =
     (case fmlookup m k of
        None \<Rightarrow> Inr d
      | Some v \<Rightarrow> (case get_string v of Some s \<Rightarrow> Inr s | None \<Rightarrow> Inl Json_TypeError))"
| "value_string _ k d = Inl Json_TypeError"

fun value_u64 :: "json \<Rightarrow> string \<Rightarrow> u64 \<Rightarrow> json_error + u64" where
  "value_u64 (JObject m) k d =
     (case fmlookup m k of
        None \<Rightarrow> Inr d
      | Some v \<Rightarrow> (case get_u64 v of Some s \<Rightarrow> Inr s | None \<Rightarrow> Inl Json_TypeError))"
| "value_u64 _ k d = Inl Json_TypeError"

text \<open>Text and bytes: \<open>reinterpret_cast\<close> between \<open>char\<close> and \<open>uint8_t\<close>.\<close>

definition bytes_of_string :: "string \<Rightarrow> bytes" where
  "bytes_of_string s = map of_char s"

definition string_of_bytes :: "bytes \<Rightarrow> string" where
  "string_of_bytes bs = map (\<lambda>b. char_of (unat b)) bs"

lemma string_of_bytes_of_string [simp]: "string_of_bytes (bytes_of_string s) = s"
proof (induction s)
  case (Cons a s)
  have n: "(of_char a :: nat) < 256" by (rule nat_of_char_less_256)
  have "(of_char a :: u8) = of_nat (of_char a)" by (simp only: of_nat_of_char)
  moreover have "unat (of_nat (of_char a) :: u8) = of_char a"
    using n by (simp add: unsigned_of_nat take_bit_nat_eq_self)
  ultimately have "unat (of_char a :: u8) = of_char a" by (simp only:)
  then have "char_of (unat (of_char a :: u8)) = a" by (simp only: char_of_char)
  with Cons show ?case by (simp add: string_of_bytes_def bytes_of_string_def del: unsigned_of_nat)
qed (simp add: string_of_bytes_def bytes_of_string_def)

lemma length_bytes_of_string [simp]: "length (bytes_of_string s) = length s"
  by (simp add: bytes_of_string_def)

lemma bytes_of_string_append: "bytes_of_string (s @ t) = bytes_of_string s @ bytes_of_string t"
  by (simp add: bytes_of_string_def)

lemma jfind_json_obj_Nil [simp]: "jfind (json_obj []) k = None"
  by (simp add: json_obj_def)

lemma jfind_json_obj_snoc: "jfind (json_obj (kvs @ [(k', v)])) k = (if k = k' then Some v else jfind (json_obj kvs) k)"
  by (simp add: json_obj_def)

lemma jfind_json_obj: "jfind (json_obj kvs) k = map_of (rev kvs) k"
  by (induction kvs rule: rev_induct) (auto simp: jfind_json_obj_snoc split: prod.split)

lemma is_object_json_obj [simp]: "is_object (json_obj kvs)"
  by (simp add: json_obj_def)

end
