(* ===== verification/Codec.thy ===== *)
theory Codec
  imports Json
begin

text \<open>
  The control messages and their codec: \<^verbatim>\<open>shared/protocol/src/message.cpp\<close>, \<^verbatim>\<open>codec.cpp\<close> and
  their headers. The clock and the random bytes are arguments; the JSON text is the parameter
  \<open>json_text\<close>. \<open>decode\<close> follows the source's order of checks, each early return a value of
  \<open>decode_error\<close>.
\<close>

section \<open>Messages\<close>

definition kProtocolVersion :: u32 where "kProtocolVersion = 1"
definition kMinimumAcceptedVersion :: u32 where "kMinimumAcceptedVersion = 1"

datatype msg_type =
    Msg_Hello | Msg_Auth | Msg_Capabilities | Msg_Ping | Msg_Pong
  | Msg_StartPtt | Msg_PttPreparing | Msg_PttReady | Msg_StopPtt | Msg_PttStopped
  | Msg_SetMode | Msg_SetLocalSource | Msg_GetStatus | Msg_Status | Msg_Error

definition kNames :: "(msg_type \<times> string) list" where
  "kNames =
     [(Msg_Hello, ''HELLO''), (Msg_Auth, ''AUTH''),
      (Msg_Capabilities, ''CAPABILITIES''), (Msg_Ping, ''PING''),
      (Msg_Pong, ''PONG''), (Msg_StartPtt, ''START_PTT''),
      (Msg_PttPreparing, ''PTT_PREPARING''), (Msg_PttReady, ''PTT_READY''),
      (Msg_StopPtt, ''STOP_PTT''), (Msg_PttStopped, ''PTT_STOPPED''),
      (Msg_SetMode, ''SET_MODE''), (Msg_SetLocalSource, ''SET_LOCAL_SOURCE''),
      (Msg_GetStatus, ''GET_STATUS''), (Msg_Status, ''STATUS''),
      (Msg_Error, ''ERROR'')]"

definition msg_type_toString :: "msg_type \<Rightarrow> string" where
  "msg_type_toString t = (case map_of kNames t of Some s \<Rightarrow> s | None \<Rightarrow> ''?'')"

definition msgTypeFromString :: "string \<Rightarrow> msg_type option" where
  "msgTypeFromString s = map_of (map (\<lambda>(t, n). (n, t)) kNames) s"

datatype error_code =
    Err_Unauthenticated | Err_Revoked | Err_VersionMismatch | Err_PairingExpired
  | Err_PairingThrottled | Err_InvalidSource | Err_ArmTimeout | Err_Internal

fun error_code_toString :: "error_code \<Rightarrow> string" where
  "error_code_toString Err_Unauthenticated = ''UNAUTHENTICATED''"
| "error_code_toString Err_Revoked = ''REVOKED''"
| "error_code_toString Err_VersionMismatch = ''VERSION_MISMATCH''"
| "error_code_toString Err_PairingExpired = ''PAIRING_EXPIRED''"
| "error_code_toString Err_PairingThrottled = ''PAIRING_THROTTLED''"
| "error_code_toString Err_InvalidSource = ''INVALID_SOURCE''"
| "error_code_toString Err_ArmTimeout = ''ARM_TIMEOUT''"
| "error_code_toString Err_Internal = ''INTERNAL''"

record message =
  ms_protocolVersion :: u32
  ms_sessionId :: string
  ms_messageId :: string
  ms_seq :: u64
  ms_timestamp :: u64
  ms_deviceId :: string
  ms_type :: msg_type
  ms_payload :: json

text \<open>\<open>Message m;\<close>\<close>

definition message_init :: message where
  "message_init =
     \<lparr>ms_protocolVersion = kProtocolVersion, ms_sessionId = [], ms_messageId = [], ms_seq = 0,
      ms_timestamp = 0, ms_deviceId = [], ms_type = Msg_Ping, ms_payload = json_obj []\<rparr>"

definition hex_digit :: "nat \<Rightarrow> char" where
  "hex_digit n = (if n < 10 then char_of (48 + n) else char_of (87 + n))"

text \<open>\<open>%02x\<close>\<close>

definition hex_byte :: "u8 \<Rightarrow> string" where
  "hex_byte b = [hex_digit (unat b div 16), hex_digit (unat b mod 16)]"

definition hex_bytes :: "bytes \<Rightarrow> string" where
  "hex_bytes bs = concat (map hex_byte bs)"

text \<open>\<open>rand\<close> is what \<open>randombytes_buf\<close> put into the 16-byte array.\<close>

definition uuid_bytes :: "bytes \<Rightarrow> bytes" where
  "uuid_bytes rand = rand[6 := (rand ! 6 AND 0x0F) OR 0x40, 8 := (rand ! 8 AND 0x3F) OR 0x80]"

definition newMessageId :: "bytes \<Rightarrow> string" where
  "newMessageId rand =
     (let b = uuid_bytes rand in
        hex_bytes (take 4 b) @ ''-'' @ hex_bytes (take 2 (drop 4 b)) @ ''-'' @
        hex_bytes (take 2 (drop 6 b)) @ ''-'' @ hex_bytes (take 2 (drop 8 b)) @ ''-'' @
        hex_bytes (take 6 (drop 10 b)))"

definition message_make ::
  "bytes \<Rightarrow> u64 \<Rightarrow> msg_type \<Rightarrow> string \<Rightarrow> string \<Rightarrow> u64 \<Rightarrow> json \<Rightarrow> message" where
  "message_make rand now t sessionId deviceId seq payload =
     message_init\<lparr>ms_protocolVersion := kProtocolVersion, ms_sessionId := sessionId,
       ms_messageId := newMessageId rand, ms_seq := seq, ms_timestamp := now,
       ms_deviceId := deviceId, ms_type := t, ms_payload := payload\<rparr>"

definition makeError ::
  "bytes \<Rightarrow> u64 \<Rightarrow> string \<Rightarrow> string \<Rightarrow> u64 \<Rightarrow> error_code \<Rightarrow> string \<Rightarrow> message" where
  "makeError rand now sessionId deviceId seq code text =
     message_make rand now Msg_Error sessionId deviceId seq
       (json_obj [(''code'', JString (error_code_toString code)), (''message'', JString text)])"

definition makePttReady :: "bytes \<Rightarrow> u64 \<Rightarrow> string \<Rightarrow> string \<Rightarrow> u64 \<Rightarrow> u64 \<Rightarrow> message" where
  "makePttReady rand now sessionId deviceId seq acceptedAtMs =
     message_make rand now Msg_PttReady sessionId deviceId seq
       (json_obj [(''acceptedAt'', JUnsigned acceptedAtMs), (''routerState'', JString ''PHONE_ACTIVE'')])"

section \<open>Codec\<close>

datatype decode_error =
    De_None | De_NotJson | De_NotAnObject | De_MissingField | De_BadFieldType | De_UnknownType
  | De_UnsupportedVersion | De_TooLarge

fun decode_error_toString :: "decode_error \<Rightarrow> string" where
  "decode_error_toString De_None = ''none''"
| "decode_error_toString De_NotJson = ''not JSON''"
| "decode_error_toString De_NotAnObject = ''not a JSON object''"
| "decode_error_toString De_MissingField = ''missing required field''"
| "decode_error_toString De_BadFieldType = ''field has the wrong type''"
| "decode_error_toString De_UnknownType = ''unknown message type''"
| "decode_error_toString De_UnsupportedVersion = ''unsupported protocol version''"
| "decode_error_toString De_TooLarge = ''message too large''"

definition kMaxMessageBytes :: nat where "kMaxMessageBytes = 8 * 1024"

text \<open>The JSON value \<open>encode\<close> dumps; \<open>None\<close> of \<open>encode\<close> is an exception of \<open>dump\<close>.\<close>

definition encode_json :: "message \<Rightarrow> json" where
  "encode_json m =
     json_obj
       ([(''protocolVersion'', JUnsigned (ucast (ms_protocolVersion m))),
         (''sessionId'', JString (ms_sessionId m)),
         (''messageId'', JString (ms_messageId m)),
         (''seq'', JUnsigned (ms_seq m)),
         (''timestamp'', JUnsigned (ms_timestamp m)),
         (''deviceId'', JString (ms_deviceId m)),
         (''type'', JString (msg_type_toString (ms_type m)))] @
        (if ms_payload m \<noteq> JNull \<and> \<not> json_empty (ms_payload m)
         then [(''payload'', ms_payload m)] else []))"

definition encode :: "json_text \<Rightarrow> message \<Rightarrow> string option" where
  "encode t m = jt_dump t (encode_json m)"

definition take_field :: "(json \<Rightarrow> 'a option) \<Rightarrow> json \<Rightarrow> string \<Rightarrow> decode_error + 'a" where
  "take_field get j key =
     (case jfind j key of
        None \<Rightarrow> Inl De_MissingField
      | Some v \<Rightarrow> (case get v of None \<Rightarrow> Inl De_BadFieldType | Some x \<Rightarrow> Inr x))"

definition bind_sum :: "'e + 'a \<Rightarrow> ('a \<Rightarrow> 'e + 'b) \<Rightarrow> 'e + 'b" where
  "bind_sum r f = (case r of Inl e \<Rightarrow> Inl e | Inr x \<Rightarrow> f x)"

definition decode_json :: "json \<Rightarrow> decode_error + message" where
  "decode_json j =
     (if \<not> is_object j then Inl De_NotAnObject
      else
        bind_sum (take_field get_u32 j ''protocolVersion'') (\<lambda>version.
        bind_sum (take_field get_string j ''sessionId'') (\<lambda>sessionId.
        bind_sum (take_field get_string j ''messageId'') (\<lambda>messageId.
        bind_sum (take_field get_u64 j ''seq'') (\<lambda>seq.
        bind_sum (take_field get_u64 j ''timestamp'') (\<lambda>timestamp.
        bind_sum (take_field get_string j ''deviceId'') (\<lambda>deviceId.
        bind_sum (take_field get_string j ''type'') (\<lambda>typeName.
          if version < kMinimumAcceptedVersion \<or> version > kProtocolVersion
          then Inl De_UnsupportedVersion
          else
            (case msgTypeFromString typeName of
               None \<Rightarrow> Inl De_UnknownType
             | Some t \<Rightarrow>
                 let m = message_init\<lparr>ms_protocolVersion := version, ms_sessionId := sessionId,
                           ms_messageId := messageId, ms_seq := seq, ms_timestamp := timestamp,
                           ms_deviceId := deviceId, ms_type := t\<rparr>
                 in (case jfind j ''payload'' of
                       None \<Rightarrow> Inr m
                     | Some p \<Rightarrow>
                         if is_object p then Inr (m\<lparr>ms_payload := p\<rparr>)
                         else Inl De_BadFieldType))))))))))"

definition decode :: "json_text \<Rightarrow> string \<Rightarrow> decode_error + message" where
  "decode t text =
     (if length text > kMaxMessageBytes then Inl De_TooLarge
      else (case jt_parse t text of None \<Rightarrow> Inl De_NotJson | Some j \<Rightarrow> decode_json j))"

definition decode_bytes :: "json_text \<Rightarrow> bytes \<Rightarrow> decode_error + message" where
  "decode_bytes t bs = decode t (string_of_bytes bs)"

section \<open>Facts\<close>

lemma msgType_roundtrip [simp]: "msgTypeFromString (msg_type_toString t) = Some t"
  by (cases t) (simp_all add: msgTypeFromString_def msg_type_toString_def kNames_def)

lemma msgTypeFromString_inverse: "msgTypeFromString s = Some t \<Longrightarrow> msg_type_toString t = s"
  unfolding msgTypeFromString_def msg_type_toString_def kNames_def
  by (simp split: if_splits)

lemma length_hex_bytes [simp]: "length (hex_bytes bs) = 2 * length bs"
  by (induction bs) (simp_all add: hex_bytes_def hex_byte_def)

lemma length_newMessageId: "length rand = 16 \<Longrightarrow> length (newMessageId rand) = 36"
  by (simp add: newMessageId_def uuid_bytes_def Let_def)

lemma bind_sum_simps [simp]:
  "bind_sum (Inl e) f = Inl e"
  "bind_sum (Inr x) f = f x"
  by (simp_all add: bind_sum_def)

lemma bind_sum_Inr: "bind_sum r f = Inr y \<longleftrightarrow> (\<exists>x. r = Inr x \<and> f x = Inr y)"
  by (cases r) simp_all

lemma take_field_Inr: "take_field g j k = Inr x \<longleftrightarrow> (\<exists>v. jfind j k = Some v \<and> g v = Some x)"
  by (auto simp: take_field_def split: option.split)

lemma encode_json_find:
  "jfind (encode_json m) ''protocolVersion'' = Some (JUnsigned (ucast (ms_protocolVersion m)))"
  "jfind (encode_json m) ''sessionId'' = Some (JString (ms_sessionId m))"
  "jfind (encode_json m) ''messageId'' = Some (JString (ms_messageId m))"
  "jfind (encode_json m) ''seq'' = Some (JUnsigned (ms_seq m))"
  "jfind (encode_json m) ''timestamp'' = Some (JUnsigned (ms_timestamp m))"
  "jfind (encode_json m) ''deviceId'' = Some (JString (ms_deviceId m))"
  "jfind (encode_json m) ''type'' = Some (JString (msg_type_toString (ms_type m)))"
  "jfind (encode_json m) ''payload'' =
     (if ms_payload m \<noteq> JNull \<and> \<not> json_empty (ms_payload m) then Some (ms_payload m) else None)"
  by (simp_all add: encode_json_def jfind_json_obj)

lemma is_object_cases: "is_object p \<Longrightarrow> json_empty p \<longleftrightarrow> p = json_obj []"
  by (cases p) (simp_all add: json_obj_def)

lemma ucast_u32_u64 [simp]: "(ucast (ucast (w :: u32) :: u64) :: u32) = w"
  by (rule bit_word_eqI) (auto simp: bit_ucast_iff)

lemma decode_encode_json:
  assumes "ms_protocolVersion m = kProtocolVersion" and "is_object (ms_payload m)"
  shows "decode_json (encode_json m) = Inr m"
proof -
  have obj: "is_object (encode_json m)" by (simp add: encode_json_def)
  have nn: "ms_payload m \<noteq> JNull" using assms(2) by auto
  have tf: "take_field get_u32 (encode_json m) ''protocolVersion'' = Inr (ms_protocolVersion m)"
    "take_field get_string (encode_json m) ''sessionId'' = Inr (ms_sessionId m)"
    "take_field get_string (encode_json m) ''messageId'' = Inr (ms_messageId m)"
    "take_field get_u64 (encode_json m) ''seq'' = Inr (ms_seq m)"
    "take_field get_u64 (encode_json m) ''timestamp'' = Inr (ms_timestamp m)"
    "take_field get_string (encode_json m) ''deviceId'' = Inr (ms_deviceId m)"
    "take_field get_string (encode_json m) ''type'' = Inr (msg_type_toString (ms_type m))"
    by (simp_all add: take_field_def encode_json_find)
  have version: "\<not> (ms_protocolVersion m < kMinimumAcceptedVersion \<or> ms_protocolVersion m > kProtocolVersion)"
    using assms(1) by (simp add: kMinimumAcceptedVersion_def kProtocolVersion_def)
  show ?thesis
    using assms(2) is_object_cases [OF assms(2)] nn version
    by (cases "json_empty (ms_payload m)")
       (simp_all add: decode_json_def obj tf encode_json_find(8) message_init_def Let_def)
qed

section \<open>Properties\<close>

text \<open>
  C16: the codec round-trips and guards the version. A message of the current version with an
  object payload that \<open>encode\<close> could print within the size cap is decoded to itself, field by
  field; conversely whatever \<open>decode\<close> accepts is no longer than the cap, has the current version
  and a known type, and its payload is an object.
\<close>

theorem codec_roundtrip:
  assumes "json_text_laws t"
  shows "(encode t m = Some s \<and> length s \<le> kMaxMessageBytes \<and> ms_protocolVersion m = kProtocolVersion \<and>
          is_object (ms_payload m) \<longrightarrow> decode t s = Inr m) \<and>
    (decode t text = Inr m' \<longrightarrow> length text \<le> kMaxMessageBytes \<and>
       ms_protocolVersion m' = kProtocolVersion \<and> is_object (ms_payload m') \<and>
       (\<exists>j. jt_parse t text = Some j \<and>
            jfind j ''type'' = Some (JString (msg_type_toString (ms_type m')))))"
proof (intro conjI impI)
  assume a: "encode t m = Some s \<and> length s \<le> kMaxMessageBytes \<and>
    ms_protocolVersion m = kProtocolVersion \<and> is_object (ms_payload m)"
  then have "jt_parse t s = Some (encode_json m)"
    using assms by (simp add: json_text_laws_def encode_def)
  then show "decode t s = Inr m"
    using a decode_encode_json [of m] by (simp add: decode_def)
next
  assume d: "decode t text = Inr m'"
  then show "length text \<le> kMaxMessageBytes" by (simp add: decode_def split: if_splits)
  obtain j where j: "jt_parse t text = Some j" "decode_json j = Inr m'"
    using d by (auto simp: decode_def split: if_splits option.splits)
  have obj: "is_object (ms_payload message_init)" by (simp add: message_init_def)
  obtain version typeName ty where v: "\<not> (version < kMinimumAcceptedVersion \<or> version > kProtocolVersion)"
      "ms_protocolVersion m' = version" "jfind j ''type'' = Some (JString typeName)"
      "msgTypeFromString typeName = Some ty" "ms_type m' = ty" "is_object (ms_payload m')"
  proof -
    have g: "get_string v = Some x \<longleftrightarrow> v = JString x" for v x by (cases v) auto
    show thesis
      using j(2) that obj unfolding decode_json_def
      by (auto simp: bind_sum_Inr take_field_Inr g Let_def split: if_splits option.splits)
  qed
  have "unat version = 1"
  proof -
    have "1 \<le> version" "version \<le> 1"
      using v(1) unfolding kMinimumAcceptedVersion_def kProtocolVersion_def de_Morgan_disj not_less by blast+
    then have "version = 1" by (rule order.antisym [rotated])
    then show ?thesis by simp
  qed
  then have "version = kProtocolVersion"
    by (simp add: kProtocolVersion_def word_unat_eq_iff)
  then show "ms_protocolVersion m' = kProtocolVersion" using v by simp
  show "is_object (ms_payload m')" using v by simp
  show "\<exists>j. jt_parse t text = Some j \<and>
            jfind j ''type'' = Some (JString (msg_type_toString (ms_type m')))"
    using j(1) v msgTypeFromString_inverse [OF v(4)] by auto
qed

text \<open>A printer and parser of one message only, enough to instantiate the laws.\<close>

definition one_text :: "json \<Rightarrow> json_text" where
  "one_text j0 = \<lparr>jt_parse = (\<lambda>s. if s = ''x'' then Some j0 else None),
                  jt_dump = (\<lambda>j. if j = j0 then Some ''x'' else None)\<rparr>"

lemma one_text_laws: "json_text_laws (one_text j)"
  by (simp add: json_text_laws_def one_text_def)

theorem codec_roundtrip_witness:
  "let m = message_init\<lparr>ms_seq := 7, ms_type := Msg_StartPtt\<rparr>; t = one_text (encode_json m)
   in encode t m = Some ''x'' \<and> decode t ''x'' = Inr m"
proof -
  let ?m = "message_init\<lparr>ms_seq := 7, ms_type := Msg_StartPtt\<rparr>"
  let ?t = "one_text (encode_json ?m)"
  have e: "encode ?t ?m = Some ''x''" by (simp add: encode_def one_text_def)
  moreover have "decode ?t ''x'' = Inr ?m"
    using codec_roundtrip [OF one_text_laws, of "encode_json ?m" ?m "''x''"] e
    by (simp add: kMaxMessageBytes_def message_init_def)
  ultimately show ?thesis by (simp only: Let_def)
qed

text \<open>
  The version guard reads the field modulo \<open>2 ^ 32\<close> and takes a boolean for a number: a
  message that says version 4294967297, or \<open>true\<close>, is accepted as version 1.
\<close>

theorem version_guard_truncates:
  "\<exists>m m' j j'.
     jfind j ''protocolVersion'' = Some (JUnsigned 4294967297) \<and> decode_json j = Inr m \<and>
     ms_protocolVersion m = 1 \<and>
     jfind j' ''protocolVersion'' = Some (JBool True) \<and> decode_json j' = Inr m' \<and>
     ms_protocolVersion m' = 1"
proof -
  define mk where "mk = (\<lambda>v. json_obj [(''protocolVersion'', v), (''sessionId'', JString ''s''),
    (''messageId'', JString ''m''), (''seq'', JUnsigned 1), (''timestamp'', JUnsigned 1),
    (''deviceId'', JString ''d''), (''type'', JString ''PING'')])"
  have find: "jfind (mk v) ''protocolVersion'' = Some v" "is_object (mk v)" for v
    by (simp_all add: mk_def jfind_json_obj)
  have dec: "\<exists>m. decode_json (mk v) = Inr m \<and> ms_protocolVersion m = 1" if "get_u32 v = Some 1" for v
  proof -
    have "take_field get_u32 (mk v) ''protocolVersion'' = Inr 1"
      using that by (simp add: take_field_def find)
    then show ?thesis
      by (simp add: decode_json_def find(2))
         (simp add: mk_def take_field_def jfind_json_obj kMinimumAcceptedVersion_def
          kProtocolVersion_def msgTypeFromString_def kNames_def Let_def)
  qed
  have "get_u32 (JUnsigned 4294967297) = Some 1" "get_u32 (JBool True) = Some 1" by simp_all
  from dec [OF this(1)] dec [OF this(2)] find(1) show ?thesis by metis
qed

text \<open>
  Message ids are version 4 UUIDs. Whatever the random bytes, the id is 36 characters with
  hyphens at the four places, the version digit is 4 and the variant digit one of 8, 9, a, b.
\<close>

theorem message_id_is_uuid4:
  assumes "length rand = 16"
  shows "length (newMessageId rand) = 36 \<and>
    (\<forall>i\<in>{8, 13, 18, 23}. newMessageId rand ! i = CHR ''-'') \<and>
    newMessageId rand ! 14 = CHR ''4'' \<and> newMessageId rand ! 19 \<in> set ''89ab''"
proof -
  obtain b0 b1 b2 b3 b4 b5 b6 b7 b8 b9 ba bb bc bd be bf where
    r: "rand = [b0, b1, b2, b3, b4, b5, b6, b7, b8, b9, ba, bb, bc, bd, be, bf]"
    using assms by (auto simp: numeral_eq_Suc length_Suc_conv)
  define v6 v8 where "v6 = (b6 AND 0x0F) OR (0x40 :: u8)" and "v8 = (b8 AND 0x3F) OR (0x80 :: u8)"
  have id: "newMessageId rand =
      hex_byte b0 @ hex_byte b1 @ hex_byte b2 @ hex_byte b3 @ ''-'' @ hex_byte b4 @ hex_byte b5 @ ''-'' @
      hex_byte v6 @ hex_byte b7 @ ''-'' @ hex_byte v8 @ hex_byte b9 @ ''-'' @
      hex_byte ba @ hex_byte bb @ hex_byte bc @ hex_byte bd @ hex_byte be @ hex_byte bf"
    by (simp add: newMessageId_def uuid_bytes_def r hex_bytes_def v6_def v8_def Let_def)
  have h: "hex_byte b = [hex_digit (unat b div 16), hex_digit (unat b mod 16)]" for b
    by (rule hex_byte_def)
  have d6: "drop_bit 4 v6 = 4"
    by (simp add: v6_def drop_bit_or drop_bit_and)
  have d8: "drop_bit 6 v8 = 2"
    by (simp add: v8_def drop_bit_or drop_bit_and)
  have c14: "hex_digit (unat v6 div 16) = CHR ''4''"
    using unat_drop_bit [of 4 v6] by (simp add: d6 hex_digit_def char_of_eq_iff)
  have "unat v8 div 64 = 2" using unat_drop_bit [of 6 v8] by (simp add: d8)
  moreover have "unat v8 div 16 div 4 = unat v8 div 64" by (simp add: div_mult2_eq [symmetric])
  ultimately have "unat v8 div 16 \<in> {8, 9, 10, 11}" by auto
  then have c19: "hex_digit (unat v8 div 16) \<in> set ''89ab''"
    by (auto simp: hex_digit_def char_of_eq_iff)
  show ?thesis
    using c14 c19 by (simp add: id h)
qed

theorem message_id_is_uuid4_witness:
  "newMessageId (replicate 16 0xFF) ! 14 = CHR ''4''"
  using message_id_is_uuid4 [of "replicate 16 0xFF"] by simp

end
