(* ===== verification/JitterBuffer.thy ===== *)
theory JitterBuffer
  imports AudioIO MediaPacket
begin

text \<open>
  The Opus wrappers (\<^verbatim>\<open>shared/media/src/opus_codec.cpp\<close>) and the adaptive jitter buffer
  (\<^verbatim>\<open>shared/media/src/jitter_buffer.cpp\<close>). libopus is the record \<open>opus_ops\<close>, a parameter whose
  documented behaviour is \<open>opus_laws\<close>. The \<open>std::map\<close> of the buffer is an association list in
  ascending order of its unsigned keys. The lemmas show the invariant of the queue, that every
  \<open>pop\<close> fills exactly the caller's frame, that no sequence number is decoded twice, and that a
  spurt whose packets arrive in any order is played in order.
\<close>

section \<open>Opus\<close>

text \<open>
  \<open>opus_decode data n\<close> decodes into at most \<open>n\<close> samples: \<open>None\<close> is a negative return value, and
  no data asks for concealment. \<open>opus_encode\<close> gives at most the number of bytes asked for.
\<close>

record encoder_config =
  ec_bitrateBps :: int
  ec_useInbandFec :: bool
  ec_expectedPacketLossPct :: int
  ec_dtx :: bool
  ec_complexity :: int

record ('e, 'd) opus_ops =
  opus_encoder_create :: "'e option"
  opus_configure :: "encoder_config \<Rightarrow> 'e \<Rightarrow> 'e"
  opus_set_loss :: "int \<Rightarrow> 'e \<Rightarrow> 'e"
  opus_encode :: "samples \<Rightarrow> nat \<Rightarrow> 'e \<Rightarrow> bytes option \<times> 'e"
  opus_decoder_create :: "'d option"
  opus_decode :: "bytes option \<Rightarrow> nat \<Rightarrow> 'd \<Rightarrow> samples option \<times> 'd"

definition opus_laws :: "('e, 'd) opus_ops \<Rightarrow> bool" where
  "opus_laws ops \<longleftrightarrow>
     (\<forall>data n d xs d'. opus_decode ops data n d = (Some xs, d') \<longrightarrow> length xs \<le> n) \<and>
     (\<forall>n d xs d'. opus_decode ops None n d = (Some xs, d') \<longrightarrow> length xs = n) \<and>
     (\<forall>pcm n e bs e'. opus_encode ops pcm n e = (Some bs, e') \<longrightarrow> length bs \<le> n)"

definition default_encoder_config :: encoder_config where
  "default_encoder_config = \<lparr>ec_bitrateBps = 28000, ec_useInbandFec = True,
     ec_expectedPacketLossPct = 5, ec_dtx = False, ec_complexity = 7\<rparr>"

definition kMaxPacketBytes :: nat where "kMaxPacketBytes = 1500"

record 'e opus_encoder =
  oe_enc :: "'e option"
  oe_cfg :: encoder_config

definition oe_close :: "'e opus_encoder \<Rightarrow> 'e opus_encoder" where
  "oe_close w = w\<lparr>oe_enc := None\<rparr>"

definition oe_open :: "('e, 'd) opus_ops \<Rightarrow> encoder_config \<Rightarrow> 'e opus_encoder \<Rightarrow> bool \<times> 'e opus_encoder" where
  "oe_open ops cfg w =
     (case opus_encoder_create ops of
        None \<Rightarrow> (False, oe_close w)
      | Some e \<Rightarrow> (True, (oe_close w)\<lparr>oe_enc := Some (opus_configure ops cfg e), oe_cfg := cfg\<rparr>))"

definition oe_setPacketLossPercent :: "('e, 'd) opus_ops \<Rightarrow> int \<Rightarrow> 'e opus_encoder \<Rightarrow> 'e opus_encoder" where
  "oe_setPacketLossPercent ops pct w =
     (case oe_enc w of
        None \<Rightarrow> w
      | Some e \<Rightarrow>
          let p = (if pct < 0 then 0 else if 100 < pct then 100 else pct)
          in w\<lparr>oe_cfg := (oe_cfg w)\<lparr>ec_expectedPacketLossPct := p\<rparr>, oe_enc := Some (opus_set_loss ops p e)\<rparr>)"

definition oe_encode ::
  "('e, 'd) opus_ops \<Rightarrow> samples \<Rightarrow> bytes \<Rightarrow> 'e opus_encoder \<Rightarrow> bool \<times> bytes \<times> 'e opus_encoder" where
  "oe_encode ops pcm out w =
     (case oe_enc w of
        None \<Rightarrow> (False, out, w)
      | Some e \<Rightarrow>
          if length pcm \<noteq> kFrameSamples then (False, out, w)
          else (case opus_encode ops pcm kMaxPacketBytes e of
                  (None, e') \<Rightarrow> (False, [], w\<lparr>oe_enc := Some e'\<rparr>)
                | (Some bs, e') \<Rightarrow> (True, bs, w\<lparr>oe_enc := Some e'\<rparr>)))"

text \<open>The decoder wrapper is its pointer, \<open>None\<close> when closed.\<close>

type_synonym 'd opus_decoder = "'d option"

definition od_open :: "('e, 'd) opus_ops \<Rightarrow> 'd opus_decoder \<Rightarrow> bool \<times> 'd opus_decoder" where
  "od_open ops w =
     (case opus_decoder_create ops of None \<Rightarrow> (False, None) | Some d \<Rightarrow> (True, Some d))"

definition od_close :: "'d opus_decoder \<Rightarrow> 'd opus_decoder" where
  "od_close w = None"

definition od_conceal ::
  "('e, 'd) opus_ops \<Rightarrow> samples \<Rightarrow> 'd opus_decoder \<Rightarrow> bool \<times> samples \<times> 'd opus_decoder" where
  "od_conceal ops pcm w =
     (case w of
        None \<Rightarrow> (False, pcm, w)
      | Some d \<Rightarrow>
          if length pcm \<noteq> kFrameSamples then (False, pcm, w)
          else (case opus_decode ops None (length pcm) d of
                  (None, d') \<Rightarrow> (False, silence (length pcm), Some d')
                | (Some xs, d') \<Rightarrow> (True, blit 0 xs pcm, Some d')))"

definition od_decode ::
  "('e, 'd) opus_ops \<Rightarrow> bytes \<Rightarrow> samples \<Rightarrow> 'd opus_decoder \<Rightarrow> bool \<times> samples \<times> 'd opus_decoder" where
  "od_decode ops data pcm w =
     (case w of
        None \<Rightarrow> (False, pcm, w)
      | Some d \<Rightarrow>
          if length pcm \<noteq> kFrameSamples then (False, pcm, w)
          else (case opus_decode ops (Some data) (length pcm) d of
                  (None, d') \<Rightarrow> od_conceal ops pcm (Some d')
                | (Some xs, d') \<Rightarrow> (True, xs @ silence (length pcm - length xs), Some d')))"

lemma opus_decode_fits:
  assumes "opus_laws ops"
  shows "opus_decode ops data n d = (Some xs, d') \<Longrightarrow> length xs \<le> n"
    and "opus_decode ops None n d = (Some xs, d') \<Longrightarrow> length xs = n"
  using assms by (simp_all add: opus_laws_def) blast+

lemma od_conceal_length:
  assumes laws: "opus_laws ops"
  shows "length (fst (snd (od_conceal ops pcm w))) = length pcm"
proof (cases w)
  case (Some d)
  obtain r d' where r: "opus_decode ops None (length pcm) d = (r, d')"
    by (metis prod.exhaust)
  show ?thesis
  proof (cases r)
    case None
    with Some r show ?thesis by (auto simp: od_conceal_def)
  next
    case (Some xs)
    with r have "opus_decode ops None (length pcm) d = (Some xs, d')" by simp
    then have "length xs = length pcm" by (rule opus_decode_fits(2) [OF laws])
    with Some r \<open>w = Some d\<close> show ?thesis by (auto simp: od_conceal_def)
  qed
qed (simp add: od_conceal_def)

lemma od_decode_length:
  assumes laws: "opus_laws ops"
  shows "length (fst (snd (od_decode ops data pcm w))) = length pcm"
proof (cases w)
  case (Some d)
  obtain r d' where r: "opus_decode ops (Some data) (length pcm) d = (r, d')"
    by (metis prod.exhaust)
  show ?thesis
  proof (cases r)
    case None
    with Some r show ?thesis by (auto simp: od_decode_def od_conceal_length [OF laws])
  next
    case (Some xs)
    with r have "length xs \<le> length pcm" using opus_decode_fits(1) [OF laws] by simp
    with Some r \<open>w = Some d\<close> show ?thesis by (auto simp: od_decode_def)
  qed
qed (simp add: od_decode_def)

section \<open>The buffer\<close>

record jitter_config =
  jc_targetMs :: u32
  jc_minMs :: u32
  jc_maxMs :: u32
  jc_prefillMs :: u32
  jc_stallMs :: u32
  jc_adaptive :: bool

definition default_jitter_config :: jitter_config where
  "default_jitter_config = \<lparr>jc_targetMs = 40, jc_minMs = 20, jc_maxMs = 200, jc_prefillMs = 40,
     jc_stallMs = 300, jc_adaptive = True\<rparr>"

record jitter_stats =
  js_pushed :: u64
  js_popped :: u64
  js_concealed :: u64
  js_duplicates :: u64
  js_reordered :: u64
  js_tooLate :: u64
  js_overflow :: u64
  js_currentDepthMs :: u32
  js_targetMs :: u32

definition jitter_stats_zero :: jitter_stats where
  "jitter_stats_zero = \<lparr>js_pushed = 0, js_popped = 0, js_concealed = 0, js_duplicates = 0,
     js_reordered = 0, js_tooLate = 0, js_overflow = 0, js_currentDepthMs = 0, js_targetMs = 0\<rparr>"

record jitter_entry =
  je_payload :: bytes
  je_arrivalMs :: u64

record jitter_buffer =
  jb_cfg :: jitter_config
  jb_queue :: "(u32 \<times> jitter_entry) list"
  jb_started :: bool
  jb_nextSeq :: u32
  jb_lastArrivalMs :: u64
  jb_targetMs :: u32
  jb_jitterEstimate :: real
  jb_prevArrivalMs :: u64
  jb_havePrevArrival :: bool
  jb_stats :: jitter_stats

definition kFrameMs :: u32 where "kFrameMs = of_nat kFrameMillis"

definition maxEntries :: "jitter_config \<Rightarrow> nat" where
  "maxEntries c = unat (jc_maxMs c div kFrameMs + 4)"

definition jb_new :: "jitter_config \<Rightarrow> jitter_buffer" where
  "jb_new cfg = \<lparr>jb_cfg = cfg, jb_queue = [], jb_started = False, jb_nextSeq = 0,
     jb_lastArrivalMs = 0, jb_targetMs = jc_targetMs cfg, jb_jitterEstimate = 0,
     jb_prevArrivalMs = 0, jb_havePrevArrival = False, jb_stats = jitter_stats_zero\<rparr>"

definition jb_reset :: "jitter_buffer \<Rightarrow> jitter_buffer" where
  "jb_reset jb = jb\<lparr>jb_queue := [], jb_started := False, jb_nextSeq := 0, jb_lastArrivalMs := 0,
     jb_targetMs := jc_targetMs (jb_cfg jb), jb_jitterEstimate := 0, jb_havePrevArrival := False,
     jb_stats := jitter_stats_zero\<rparr>"

text \<open>
  \<open>rd\<close> rounds to double. The conversion of the rounded estimate to \<open>uint32_t\<close> is modulo
  \<open>2 ^ 32\<close>; the C++ value is undefined out of range.
\<close>

definition jb_adapt :: "(real \<Rightarrow> real) \<Rightarrow> u64 \<Rightarrow> jitter_buffer \<Rightarrow> jitter_buffer" where
  "jb_adapt rd arrivalMs jb =
     (let est = (if jb_havePrevArrival jb then
                   let delta = \<bar>rd (rd (real (unat (arrivalMs - jb_prevArrivalMs jb))) - real (unat kFrameMs))\<bar>
                   in rd (jb_jitterEstimate jb + rd (rd (delta - jb_jitterEstimate jb) / 16))
                 else jb_jitterEstimate jb);
          jb1 = jb\<lparr>jb_jitterEstimate := est, jb_prevArrivalMs := arrivalMs, jb_havePrevArrival := True\<rparr>
      in if \<not> jc_adaptive (jb_cfg jb) then jb1
         else
           let want = of_int \<lceil>rd (est * 3)\<rceil> + jc_minMs (jb_cfg jb);
               clamped = (if want < jc_minMs (jb_cfg jb) then jc_minMs (jb_cfg jb)
                          else if jc_maxMs (jb_cfg jb) < want then jc_maxMs (jb_cfg jb) else want)
           in if clamped > jb_targetMs jb then jb1\<lparr>jb_targetMs := clamped\<rparr>
              else if clamped + kFrameMs < jb_targetMs jb
              then jb1\<lparr>jb_targetMs := jb_targetMs jb - kFrameMs\<rparr>
              else jb1)"

text \<open>\<open>queue_.emplace\<close> in the order of the keys; the key is absent when it is called.\<close>

fun mq_insert :: "u32 \<Rightarrow> 'a \<Rightarrow> (u32 \<times> 'a) list \<Rightarrow> (u32 \<times> 'a) list" where
  "mq_insert k v [] = [(k, v)]"
| "mq_insert k v ((k', v') # q) =
     (if k < k' then (k, v) # (k', v') # q else (k', v') # mq_insert k v q)"

definition mq_erase :: "u32 \<Rightarrow> (u32 \<times> 'a) list \<Rightarrow> (u32 \<times> 'a) list" where
  "mq_erase k q = filter (\<lambda>(k', v). k' \<noteq> k) q"

definition jb_push :: "(real \<Rightarrow> real) \<Rightarrow> u32 \<Rightarrow> bytes \<Rightarrow> u64 \<Rightarrow> jitter_buffer \<Rightarrow> jitter_buffer" where
  "jb_push rd seq payload arrivalMs jb =
     (let jb1 = jb\<lparr>jb_lastArrivalMs := arrivalMs,
                   jb_stats := (jb_stats jb)\<lparr>js_pushed := js_pushed (jb_stats jb) + 1\<rparr>\<rparr>;
          jb2 = jb_adapt rd arrivalMs jb1;
          jb3 = (if \<not> jb_started jb2 then jb2\<lparr>jb_started := True, jb_nextSeq := seq\<rparr> else jb2);
          s3 = jb_stats jb3
      in if sint (seq - jb_nextSeq jb3) < 0 then jb3\<lparr>jb_stats := s3\<lparr>js_tooLate := js_tooLate s3 + 1\<rparr>\<rparr>
         else if map_of (jb_queue jb3) seq \<noteq> None
         then jb3\<lparr>jb_stats := s3\<lparr>js_duplicates := js_duplicates s3 + 1\<rparr>\<rparr>
         else
           let s4 = (if jb_queue jb3 \<noteq> [] \<and> seq < fst (last (jb_queue jb3))
                     then s3\<lparr>js_reordered := js_reordered s3 + 1\<rparr> else s3);
               full = length (jb_queue jb3) \<ge> maxEntries (jb_cfg jb3);
               q5 = (if full then drop 1 (jb_queue jb3) else jb_queue jb3);
               s5 = (if full then s4\<lparr>js_overflow := js_overflow s4 + 1\<rparr> else s4)
           in jb3\<lparr>jb_stats := s5,
                  jb_queue := mq_insert seq \<lparr>je_payload = payload, je_arrivalMs = arrivalMs\<rparr> q5\<rparr>)"

definition jb_depthMs :: "jitter_buffer \<Rightarrow> u32" where
  "jb_depthMs jb = of_nat (length (jb_queue jb)) * kFrameMs"

definition jb_ready :: "jitter_buffer \<Rightarrow> bool" where
  "jb_ready jb \<longleftrightarrow> jb_started jb \<and> jb_depthMs jb \<ge> jc_prefillMs (jb_cfg jb)"

definition jb_stalled :: "u64 \<Rightarrow> jitter_buffer \<Rightarrow> bool" where
  "jb_stalled nowMs jb \<longleftrightarrow> jb_started jb \<and> nowMs > jb_lastArrivalMs jb \<and>
     nowMs - jb_lastArrivalMs jb > ucast (jc_stallMs (jb_cfg jb))"

definition jb_pop ::
  "('e, 'd) opus_ops \<Rightarrow> 'd opus_decoder \<Rightarrow> samples \<Rightarrow> jitter_buffer
   \<Rightarrow> bool \<times> samples \<times> 'd opus_decoder \<times> jitter_buffer" where
  "jb_pop ops dec out jb =
     (if \<not> jb_started jb \<or> length out \<noteq> kFrameSamples then (False, silence (length out), dec, jb)
      else
        (case map_of (jb_queue jb) (jb_nextSeq jb) of
           None \<Rightarrow>
             let overdue = (jb_queue jb \<noteq> [] \<and> jb_depthMs jb > jb_targetMs jb);
                 jb1 = jb\<lparr>jb_stats := (jb_stats jb)\<lparr>js_concealed := js_concealed (jb_stats jb) + 1\<rparr>\<rparr>;
                 (ok, out', dec') = od_conceal ops out dec
             in (False, out', dec',
                 if overdue \<or> jb_queue jb \<noteq> [] then jb1\<lparr>jb_nextSeq := jb_nextSeq jb1 + 1\<rparr> else jb1)
         | Some e \<Rightarrow>
             let (ok, out', dec') = od_decode ops (je_payload e) out dec
             in (ok, out', dec',
                 jb\<lparr>jb_queue := mq_erase (jb_nextSeq jb) (jb_queue jb),
                    jb_nextSeq := jb_nextSeq jb + 1,
                    jb_stats := (jb_stats jb)\<lparr>js_popped := js_popped (jb_stats jb) + 1\<rparr>\<rparr>)))"

definition jb_statistics :: "jitter_buffer \<Rightarrow> jitter_stats" where
  "jb_statistics jb =
     (jb_stats jb)\<lparr>js_currentDepthMs := jb_depthMs jb, js_targetMs := jb_targetMs jb\<rparr>"

section \<open>The queue\<close>

lemma set_mq_insert [simp]: "set (mq_insert k v q) = insert (k, v) (set q)"
  by (induction k v q rule: mq_insert.induct) auto

lemma length_mq_insert [simp]: "length (mq_insert k v q) = Suc (length q)"
  by (induction k v q rule: mq_insert.induct) auto

abbreviation mq_sorted :: "(u32 \<times> 'a) list \<Rightarrow> bool" where
  "mq_sorted q \<equiv> sorted_wrt (<) (map fst q)"

lemma mq_sorted_insert: "mq_sorted q \<Longrightarrow> k \<notin> fst ` set q \<Longrightarrow> mq_sorted (mq_insert k v q)"
proof (induction k v q rule: mq_insert.induct)
  case (2 k v k' v' q)
  show ?case
  proof (cases "k < k'")
    case True
    with 2 show ?thesis by (auto dest: less_trans)
  next
    case False
    then have "k' < k" using 2 by auto
    with 2 False show ?thesis by auto
  qed
qed simp

lemma mq_sorted_drop: "mq_sorted q \<Longrightarrow> mq_sorted (drop n q)"
  by (simp add: drop_map [symmetric] sorted_wrt_drop)

lemma mq_sorted_erase: "mq_sorted q \<Longrightarrow> mq_sorted (mq_erase k q)"
  by (induction q) (auto simp: mq_erase_def)

lemma mq_erase_subset: "set (mq_erase k q) \<subseteq> set q"
  by (auto simp: mq_erase_def)

lemma length_mq_erase: "length (mq_erase k q) \<le> length q"
  by (simp add: mq_erase_def)

lemma map_of_mq_insert:
  "k \<notin> fst ` set q \<Longrightarrow> map_of (mq_insert k v q) = (map_of q)(k \<mapsto> v)"
proof (induction k v q rule: mq_insert.induct)
  case (2 k v k' v' q)
  then show ?case by (cases "k < k'") (auto simp: fun_upd_twist)
qed simp

lemma map_of_mq_erase: "map_of (mq_erase k q) = (map_of q)(k := None)"
  by (induction q) (auto simp: mq_erase_def)

lemma mq_head_unique:
  "mq_sorted ((k, v) # q) \<Longrightarrow> mq_erase k ((k, v) # q) = q"
  by (auto simp: mq_erase_def filter_id_conv)

lemma maxEntries_pos: "4 \<le> maxEntries c"
proof -
  have "unat (jc_maxMs c div kFrameMs) = unat (jc_maxMs c) div 20"
    by (simp add: kFrameMs_def kFrameMillis_def unat_div)
  then have "unat (jc_maxMs c div kFrameMs) + 4 < 2 ^ LENGTH(32)"
    using unat_bound [of "jc_maxMs c"] by simp
  then show ?thesis
    using unat_add_no_wrap [of "jc_maxMs c div kFrameMs" 4] by (simp add: maxEntries_def)
qed

section \<open>What each operation keeps\<close>

lemma jb_adapt_frame [step_simps]:
  "jb_cfg (jb_adapt rd t jb) = jb_cfg jb"
  "jb_queue (jb_adapt rd t jb) = jb_queue jb"
  "jb_started (jb_adapt rd t jb) = jb_started jb"
  "jb_nextSeq (jb_adapt rd t jb) = jb_nextSeq jb"
  "jb_stats (jb_adapt rd t jb) = jb_stats jb"
  by (simp_all add: jb_adapt_def Let_def)

lemma jb_push_frame [step_simps]:
  "jb_cfg (jb_push rd s p t jb) = jb_cfg jb"
  "jb_started (jb_push rd s p t jb)"
  "jb_nextSeq (jb_push rd s p t jb) = (if jb_started jb then jb_nextSeq jb else s)"
  by (simp_all add: jb_push_def Let_def step_simps)

text \<open>The entries come from pushes, in ascending order, at most \<open>maxEntries\<close> of them.\<close>

definition jb_ok :: "(u32 \<times> bytes) set \<Rightarrow> jitter_buffer \<Rightarrow> bool" where
  "jb_ok pushed jb \<longleftrightarrow> mq_sorted (jb_queue jb) \<and> length (jb_queue jb) \<le> maxEntries (jb_cfg jb) \<and>
     (\<forall>(k, e)\<in>set (jb_queue jb). (k, je_payload e) \<in> pushed) \<and>
     (\<not> jb_started jb \<longrightarrow> jb_queue jb = [])"

lemma jb_ok_new: "jb_ok {} (jb_new cfg)"
  by (simp add: jb_ok_def jb_new_def)

lemma jb_ok_reset: "jb_ok P (jb_reset jb)"
  by (simp add: jb_ok_def jb_reset_def)

lemma jb_push_queue:
  "jb_queue (jb_push rd s p t jb) = jb_queue jb \<or>
   s \<notin> fst ` set (jb_queue jb) \<and>
   jb_queue (jb_push rd s p t jb) =
     mq_insert s \<lparr>je_payload = p, je_arrivalMs = t\<rparr>
       (if maxEntries (jb_cfg jb) \<le> length (jb_queue jb) then drop 1 (jb_queue jb) else jb_queue jb)"
  by (auto simp: jb_push_def Let_def step_simps map_of_eq_None_iff)

lemma jb_ok_push:
  assumes "jb_ok P jb"
  shows "jb_ok (insert (s, p) P) (jb_push rd s p t jb)"
proof -
  define q where "q = (if maxEntries (jb_cfg jb) \<le> length (jb_queue jb) then drop 1 (jb_queue jb) else jb_queue jb)"
  have q: "mq_sorted q" "set q \<subseteq> set (jb_queue jb)" "length q < maxEntries (jb_cfg jb)"
    using assms maxEntries_pos [of "jb_cfg jb"] set_drop_subset [of 1 "jb_queue jb"]
      mq_sorted_drop [of "jb_queue jb" 1]
    by (auto simp: q_def jb_ok_def)
  from jb_push_queue [of rd s p t jb] show ?thesis
  proof
    assume "jb_queue (jb_push rd s p t jb) = jb_queue jb"
    with assms show ?thesis by (auto simp: jb_ok_def jb_push_frame)
  next
    assume a: "s \<notin> fst ` set (jb_queue jb) \<and> jb_queue (jb_push rd s p t jb) =
      mq_insert s \<lparr>je_payload = p, je_arrivalMs = t\<rparr>
        (if maxEntries (jb_cfg jb) \<le> length (jb_queue jb) then drop 1 (jb_queue jb) else jb_queue jb)"
    then have "s \<notin> fst ` set q" using q(2) by blast
    with a q assms show ?thesis
      unfolding q_def [symmetric] jb_ok_def
      by (auto simp: mq_sorted_insert jb_push_frame)
  qed
qed

text \<open>\<open>Some (seq, payload)\<close> is what this \<open>pop\<close> hands to the decoder.\<close>

definition jb_played :: "samples \<Rightarrow> jitter_buffer \<Rightarrow> (u32 \<times> bytes) option" where
  "jb_played out jb =
     (if jb_started jb \<and> length out = kFrameSamples
      then map_option (\<lambda>e. (jb_nextSeq jb, je_payload e)) (map_of (jb_queue jb) (jb_nextSeq jb))
      else None)"

lemma jb_pop_length:
  "opus_laws ops \<Longrightarrow> length (fst (snd (jb_pop ops dec out jb))) = length out"
  using od_conceal_length [of ops out dec] od_decode_length [of ops _ out dec]
  by (auto simp: jb_pop_def Let_def split: option.split prod.split) (metis fst_conv snd_conv)+

lemma jb_pop_frame [step_simps]:
  "jb_cfg (snd (snd (snd (jb_pop ops dec out jb)))) = jb_cfg jb"
  "jb_started (snd (snd (snd (jb_pop ops dec out jb)))) = jb_started jb"
  "jb_targetMs (snd (snd (snd (jb_pop ops dec out jb)))) = jb_targetMs jb"
  by (auto simp: jb_pop_def Let_def split: option.split prod.split)

lemma jb_pop_queue:
  "jb_queue (snd (snd (snd (jb_pop ops dec out jb)))) =
     (if jb_played out jb = None then jb_queue jb else mq_erase (jb_nextSeq jb) (jb_queue jb))"
  by (auto simp: jb_pop_def jb_played_def Let_def split: option.split prod.split)

lemma jb_pop_nextSeq:
  "jb_nextSeq (snd (snd (snd (jb_pop ops dec out jb)))) =
     (if jb_started jb \<and> length out = kFrameSamples \<and> jb_queue jb \<noteq> []
      then jb_nextSeq jb + 1 else jb_nextSeq jb)"
  by (auto simp: jb_pop_def Let_def split: option.split prod.split)

lemma jb_ok_pop:
  "jb_ok P jb \<Longrightarrow> jb_ok P (snd (snd (snd (jb_pop ops dec out jb))))"
  using mq_erase_subset [of "jb_nextSeq jb" "jb_queue jb"] length_mq_erase [of "jb_nextSeq jb" "jb_queue jb"]
  by (auto simp: jb_ok_def jb_pop_queue step_simps mq_sorted_erase dest!: subsetD)
     (auto simp: mq_erase_def)

lemma jb_played_pushed: "jb_ok P jb \<Longrightarrow> jb_played out jb = Some (k, p) \<Longrightarrow> (k, p) \<in> P"
  by (auto simp: jb_ok_def jb_played_def split: if_splits dest!: map_of_SomeD)

section \<open>Histories\<close>

datatype jb_call = JC_Push u32 bytes u64 | JC_Pop samples

fun jc_pushed :: "jb_call list \<Rightarrow> (u32 \<times> bytes) set" where
  "jc_pushed [] = {}"
| "jc_pushed (JC_Push s p t # cs) = insert (s, p) (jc_pushed cs)"
| "jc_pushed (JC_Pop out # cs) = jc_pushed cs"

text \<open>\<open>jb_run\<close> gives the frames that left the buffer and the packets that were decoded.\<close>

fun jb_run ::
  "('e, 'd) opus_ops \<Rightarrow> (real \<Rightarrow> real) \<Rightarrow> jb_call list \<Rightarrow> 'd opus_decoder \<Rightarrow> jitter_buffer
   \<Rightarrow> samples list \<times> (u32 \<times> bytes) list \<times> 'd opus_decoder \<times> jitter_buffer" where
  "jb_run ops rd [] dec jb = ([], [], dec, jb)"
| "jb_run ops rd (JC_Push s p t # cs) dec jb = jb_run ops rd cs dec (jb_push rd s p t jb)"
| "jb_run ops rd (JC_Pop out # cs) dec jb =
     (case jb_pop ops dec out jb of
        (ok, out', dec', jb') \<Rightarrow>
          (case jb_run ops rd cs dec' jb' of
             (fs, ps, dec'', jb'') \<Rightarrow>
               (out' # fs, (case jb_played out jb of None \<Rightarrow> ps | Some p \<Rightarrow> p # ps), dec'', jb'')))"

abbreviation (input) run_frames where "run_frames x \<equiv> fst x"
abbreviation (input) run_played where "run_played x \<equiv> fst (snd x)"
abbreviation (input) run_buffer where "run_buffer x \<equiv> snd (snd (snd x))"

lemma jb_run_pop:
  "run_frames (jb_run ops rd (JC_Pop out # cs) dec jb) =
     fst (snd (jb_pop ops dec out jb)) #
     run_frames (jb_run ops rd cs (fst (snd (snd (jb_pop ops dec out jb)))) (snd (snd (snd (jb_pop ops dec out jb)))))"
  "run_played (jb_run ops rd (JC_Pop out # cs) dec jb) =
     (case jb_played out jb of None \<Rightarrow> [] | Some p \<Rightarrow> [p]) @
     run_played (jb_run ops rd cs (fst (snd (snd (jb_pop ops dec out jb)))) (snd (snd (snd (jb_pop ops dec out jb)))))"
  "run_buffer (jb_run ops rd (JC_Pop out # cs) dec jb) =
     run_buffer (jb_run ops rd cs (fst (snd (snd (jb_pop ops dec out jb)))) (snd (snd (snd (jb_pop ops dec out jb)))))"
  by (simp_all split: prod.split option.split)

declare jb_run.simps(3) [simp del]

fun jc_buffers :: "jb_call list \<Rightarrow> nat list" where
  "jc_buffers [] = []"
| "jc_buffers (JC_Push s p t # cs) = jc_buffers cs"
| "jc_buffers (JC_Pop out # cs) = length out # jc_buffers cs"

lemma jb_run_frames:
  "opus_laws ops \<Longrightarrow> map length (run_frames (jb_run ops rd cs dec jb)) = jc_buffers cs"
  by (induction cs arbitrary: dec jb rule: jc_buffers.induct) (simp_all add: jb_run_pop jb_pop_length)

lemma jb_run_ok:
  "jb_ok P jb \<Longrightarrow> jb_ok (P \<union> jc_pushed cs) (run_buffer (jb_run ops rd cs dec jb)) \<and>
     set (run_played (jb_run ops rd cs dec jb)) \<subseteq> P \<union> jc_pushed cs"
proof (induction cs arbitrary: P dec jb rule: jc_pushed.induct)
  case (2 s p t cs)
  from "2.IH" [OF jb_ok_push [OF "2.prems"]] show ?case by simp
next
  case (3 out cs)
  from "3.IH" [OF jb_ok_pop [OF "3.prems", of ops dec out], of "fst (snd (snd (jb_pop ops dec out jb)))"]
    jb_played_pushed [OF "3.prems", of out] show ?case
    by (cases "jb_played out jb") (auto simp: jb_run_pop dest!: subsetD)
qed simp

text \<open>The decoded numbers are the first expected one plus a strictly growing offset.\<close>

lemma jb_run_offsets:
  "jb_ok P jb \<Longrightarrow> \<exists>n0 ds. (jb_started jb \<longrightarrow> n0 = jb_nextSeq jb) \<and>
     map fst (run_played (jb_run ops rd cs dec jb)) = map (\<lambda>d. n0 + of_nat d) ds \<and>
     sorted_wrt (<) ds \<and> set ds \<subseteq> {..<length cs}"
proof (induction cs arbitrary: P dec jb rule: jc_pushed.induct)
  case 1
  show ?case by (intro exI [of _ "jb_nextSeq jb"] exI [of _ "[]"]) simp
next
  case (2 s p t cs)
  define jb' where "jb' = jb_push rd s p t jb"
  from "2.IH" [OF jb_ok_push [OF "2.prems", of s p rd t], of dec]
  obtain n0 ds where ds: "jb_started jb' \<longrightarrow> n0 = jb_nextSeq jb'"
    "map fst (run_played (jb_run ops rd cs dec jb')) = map (\<lambda>d. n0 + of_nat d) ds"
    "sorted_wrt (<) ds" "set ds \<subseteq> {..<length cs}"
    unfolding jb'_def by blast
  moreover have "set ds \<subseteq> {..<length (JC_Push s p t # cs)}"
    using ds(4) by auto
  moreover have "jb_started jb \<longrightarrow> n0 = jb_nextSeq jb"
    using ds(1) by (simp add: jb'_def jb_push_frame)
  ultimately show ?case
    unfolding jb_run.simps jb'_def by blast
next
  case (3 out cs)
  define jb' where "jb' = snd (snd (snd (jb_pop ops dec out jb)))"
  from "3.IH" [OF jb_ok_pop [OF "3.prems", of ops dec out], of "fst (snd (snd (jb_pop ops dec out jb)))"]
  obtain n0 ds where ds: "jb_started jb' \<longrightarrow> n0 = jb_nextSeq jb'"
    "map fst (run_played (jb_run ops rd cs (fst (snd (snd (jb_pop ops dec out jb)))) jb')) =
       map (\<lambda>d. n0 + of_nat d) ds"
    "sorted_wrt (<) ds" "set ds \<subseteq> {..<length cs}"
    unfolding jb'_def by blast
  have st: "jb_started jb' = jb_started jb" by (simp add: jb'_def step_simps)
  show ?case
  proof (cases "jb_started jb \<and> length out = kFrameSamples \<and> jb_queue jb \<noteq> []")
    case True
    then have n0: "n0 = jb_nextSeq jb + 1" using ds(1) st by (simp add: jb'_def jb_pop_nextSeq)
    define ds' where "ds' = (case jb_played out jb of None \<Rightarrow> [] | Some p \<Rightarrow> [0]) @ map Suc ds"
    have "map fst (run_played (jb_run ops rd (JC_Pop out # cs) dec jb)) =
        map (\<lambda>d. jb_nextSeq jb + of_nat d) ds'"
      using ds(2) n0
      by (auto simp: jb_run_pop jb'_def [symmetric] ds'_def jb_played_def algebra_simps
          split: option.split if_splits)
    moreover have "sorted_wrt (<) ds'"
      using ds(3) by (auto simp: ds'_def sorted_wrt_map split: option.split)
    moreover have "set ds' \<subseteq> {..<length (JC_Pop out # cs)}"
      using ds(4) by (auto simp: ds'_def split: option.splits)
    ultimately show ?thesis by blast
  next
    case False
    then have "jb_played out jb = None" "jb_nextSeq jb' = jb_nextSeq jb"
      by (auto simp: jb_played_def jb'_def jb_pop_nextSeq)
    with ds st show ?thesis
      by (intro exI [of _ n0] exI [of _ ds]) (auto simp: jb_run_pop jb'_def [symmetric])
  qed
qed

lemma jb_run_distinct:
  assumes "jb_ok P jb" and "length cs \<le> 2 ^ 32"
  shows "distinct (map fst (run_played (jb_run ops rd cs dec jb)))"
proof -
  obtain n0 ds where ds: "map fst (run_played (jb_run ops rd cs dec jb)) = map (\<lambda>d. n0 + of_nat d) ds"
    "sorted_wrt (<) ds" "set ds \<subseteq> {..<length cs}"
    using jb_run_offsets [OF assms(1), of ops rd cs dec] by blast
  have "inj_on (\<lambda>d. n0 + of_nat d :: u32) (set ds)"
  proof (rule inj_onI)
    fix a b assume a: "a \<in> set ds" "b \<in> set ds" and "n0 + of_nat a = n0 + (of_nat b :: u32)"
    then have "unat (of_nat a :: u32) = unat (of_nat b :: u32)" by simp
    moreover have "a < 2 ^ 32" "b < 2 ^ 32" using a ds(3) assms(2) by auto
    ultimately show "a = b" by (simp add: unat_of_nat_u32)
  qed
  then show ?thesis
    using ds(2) by (simp add: ds(1) distinct_map strict_sorted_iff)
qed

section \<open>Playing a spurt\<close>

abbreviation (input) jb_packet :: "jitter_buffer \<Rightarrow> u32 \<Rightarrow> bytes option" where
  "jb_packet jb k \<equiv> map_option je_payload (map_of (jb_queue jb) k)"

fun decode_all :: "('e, 'd) opus_ops \<Rightarrow> samples \<Rightarrow> bytes list \<Rightarrow> 'd opus_decoder \<Rightarrow> samples list" where
  "decode_all ops out [] dec = []"
| "decode_all ops out (p # ps) dec =
     fst (snd (od_decode ops p out dec)) # decode_all ops out ps (snd (snd (od_decode ops p out dec)))"

lemma jb_pop_hit:
  assumes "jb_started jb" and "length out = kFrameSamples" and "jb_packet jb (jb_nextSeq jb) = Some p"
  shows "fst (snd (jb_pop ops dec out jb)) = fst (snd (od_decode ops p out dec))"
    and "fst (snd (snd (jb_pop ops dec out jb))) = snd (snd (od_decode ops p out dec))"
    and "jb_played out jb = Some (jb_nextSeq jb, p)"
    and "jb_queue (snd (snd (snd (jb_pop ops dec out jb)))) = mq_erase (jb_nextSeq jb) (jb_queue jb)"
    and "jb_nextSeq (snd (snd (snd (jb_pop ops dec out jb)))) = jb_nextSeq jb + 1"
  using assms by (auto simp: jb_pop_def jb_played_def Let_def split: prod.split)

lemma jb_tail_packets:
  assumes "length (p # ps) \<le> 2 ^ 32"
    and "\<forall>i<length (p # ps). map_option je_payload (map_of q (n + of_nat i)) = Some ((p # ps) ! i)"
  shows "\<forall>i<length ps. map_option je_payload (map_of (mq_erase n q) (n + 1 + of_nat i)) = Some (ps ! i)"
proof (intro allI impI)
  fix i assume i: "i < length ps"
  have "n + 1 + of_nat i \<noteq> n"
  proof
    assume "n + 1 + of_nat i = n"
    then have "of_nat (Suc i) = (0 :: u32)" by (simp add: algebra_simps)
    then have "unat (of_nat (Suc i) :: u32) = 0" by simp
    moreover have "Suc i < 2 ^ 32" using i assms(1) by simp
    ultimately show False by (simp only: unat_of_nat_u32)
  qed
  then show "map_option je_payload (map_of (mq_erase n q) (n + 1 + of_nat i)) = Some (ps ! i)"
    using i spec [OF assms(2), of "Suc i"] by (simp add: map_of_mq_erase algebra_simps)
qed

lemma jb_pops_consecutive:
  assumes "jb_started jb" and "length out = kFrameSamples" and "length ps \<le> 2 ^ 32"
    and "\<forall>i<length ps. jb_packet jb (jb_nextSeq jb + of_nat i) = Some (ps ! i)"
  shows "run_frames (jb_run ops rd (replicate (length ps) (JC_Pop out)) dec jb) = decode_all ops out ps dec \<and>
    run_played (jb_run ops rd (replicate (length ps) (JC_Pop out)) dec jb) =
      map (\<lambda>i. (jb_nextSeq jb + of_nat i, ps ! i)) [0..<length ps]"
  using assms
proof (induction ps arbitrary: jb dec)
  case (Cons p ps)
  define jb' where "jb' = snd (snd (snd (jb_pop ops dec out jb)))"
  define dec' where "dec' = snd (snd (od_decode ops p out dec))"
  have hd: "jb_packet jb (jb_nextSeq jb) = Some p"
    using spec [OF Cons.prems(4), of 0] by simp
  note hit = jb_pop_hit(1,2) [OF Cons.prems(1,2) hd, of ops dec] jb_pop_hit(3) [OF Cons.prems(1,2) hd]
    jb_pop_hit(4,5) [OF Cons.prems(1,2) hd, of ops dec]
  have st: "jb_started jb'" "jb_nextSeq jb' = jb_nextSeq jb + 1"
    using Cons.prems(1) hit(5) by (simp_all add: jb'_def step_simps)
  have tl: "\<forall>i<length ps. jb_packet jb' (jb_nextSeq jb' + of_nat i) = Some (ps ! i)"
    using jb_tail_packets [OF Cons.prems(3,4)] hit(4) st(2) by (simp add: jb'_def)
  have len: "length ps \<le> 2 ^ 32" using Cons.prems(3) by simp
  note ih = Cons.IH [OF st(1) Cons.prems(2) len tl, of dec']
  have "run_frames (jb_run ops rd (replicate (length (p # ps)) (JC_Pop out)) dec jb) =
      decode_all ops out (p # ps) dec"
    using conjunct1 [OF ih] hit(1,2) by (simp add: jb_run_pop jb'_def dec'_def)
  moreover have "[0..<length (p # ps)] = 0 # map Suc [0..<length ps]"
    by (simp add: upt_conv_Cons map_Suc_upt del: upt_Suc)
  then have "run_played (jb_run ops rd (replicate (length (p # ps)) (JC_Pop out)) dec jb) =
      map (\<lambda>i. (jb_nextSeq jb + of_nat i, (p # ps) ! i)) [0..<length (p # ps)]"
    using conjunct2 [OF ih] hit(2,3) st(2)
    by (simp add: jb_run_pop jb'_def dec'_def algebra_simps del: upt_Suc)
  ultimately show ?case by blast
qed simp_all

lemma jb_push_fits:
  assumes "jb_started jb" and "0 \<le> sint (s - jb_nextSeq jb)" and "s \<notin> fst ` set (jb_queue jb)"
    and "length (jb_queue jb) < maxEntries (jb_cfg jb)"
  shows "jb_queue (jb_push rd s p t jb) = mq_insert s \<lparr>je_payload = p, je_arrivalMs = t\<rparr> (jb_queue jb)"
  using assms by (simp add: jb_push_def Let_def step_simps map_of_eq_None_iff [symmetric])

lemma jb_pushes_fit:
  fixes rd :: "real \<Rightarrow> real" and jb :: jitter_buffer and pkts :: "(u32 \<times> bytes \<times> u64) list"
  assumes "jb_started jb" and "distinct (map fst pkts)"
    and "\<forall>s\<in>fst ` set pkts. 0 \<le> sint (s - jb_nextSeq jb) \<and> s \<notin> fst ` set (jb_queue jb)"
    and "length (jb_queue jb) + length pkts \<le> maxEntries (jb_cfg jb)"
  defines "jb' \<equiv> fold (\<lambda>(s, p, t). jb_push rd s p t) pkts jb"
  shows "jb_started jb' \<and> jb_nextSeq jb' = jb_nextSeq jb \<and>
    (\<forall>k. jb_packet jb' k = (case map_of pkts k of Some (p, t) \<Rightarrow> Some p | None \<Rightarrow> jb_packet jb k))"
  using assms(1-4) unfolding jb'_def
proof (induction pkts arbitrary: jb)
  case (Cons x pkts)
  obtain s p t where x: "x = (s, p, t)" by (metis prod_cases3)
  define jb1 where "jb1 = jb_push rd s p t jb"
  have q: "jb_queue jb1 = mq_insert s \<lparr>je_payload = p, je_arrivalMs = t\<rparr> (jb_queue jb)"
    unfolding jb1_def by (rule jb_push_fits) (use Cons.prems x in auto)
  have st: "jb_started jb1" "jb_nextSeq jb1 = jb_nextSeq jb" "jb_cfg jb1 = jb_cfg jb"
    using Cons.prems(1) by (simp_all add: jb1_def jb_push_frame)
  have fresh: "s \<notin> fst ` set (jb_queue jb)" using Cons.prems(3) x by simp
  have pk: "jb_packet jb1 k = (if k = s then Some p else jb_packet jb k)" for k
    using map_of_mq_insert [OF fresh] by (simp add: q)
  have "jb_started (fold (\<lambda>(s, p, t). jb_push rd s p t) pkts jb1) \<and>
      jb_nextSeq (fold (\<lambda>(s, p, t). jb_push rd s p t) pkts jb1) = jb_nextSeq jb1 \<and>
      (\<forall>k. jb_packet (fold (\<lambda>(s, p, t). jb_push rd s p t) pkts jb1) k =
           (case map_of pkts k of Some (p, t) \<Rightarrow> Some p | None \<Rightarrow> jb_packet jb1 k))"
    by (rule Cons.IH) (use Cons.prems x st q in \<open>auto simp: image_iff\<close>)
  moreover have "map_of pkts s = None"
    using Cons.prems(2) x by (auto simp: map_of_eq_None_iff)
  ultimately show ?case
    using st x pk by (auto simp: jb1_def split: option.split)
qed simp

lemma jb_run_pushes:
  "jb_run ops rd (map (\<lambda>(s, p, t). JC_Push s p t) pkts @ cs) dec jb =
     jb_run ops rd cs dec (fold (\<lambda>(s, p, t). jb_push rd s p t) pkts jb)"
  by (induction pkts arbitrary: jb) auto

lemma jb_push_first:
  "\<not> jb_started jb \<Longrightarrow> jb_queue jb = [] \<Longrightarrow>
   jb_queue (jb_push rd s p t jb) = [(s, \<lparr>je_payload = p, je_arrivalMs = t\<rparr>)]"
  using maxEntries_pos [of "jb_cfg jb"] by (simp add: jb_push_def Let_def step_simps)

lemma sint_of_nat_u32: "n < 2 ^ 31 \<Longrightarrow> 0 \<le> sint (of_nat n :: u32)"
proof -
  assume a: "n < 2 ^ 31"
  have "sint (of_nat n :: u32) = int n"
    using a by (simp add: signed_of_nat signed_take_bit_int_eq_self)
  then show ?thesis by simp
qed

lemma maxEntries_bound: "maxEntries c < 2 ^ 31"
proof -
  have "unat (jc_maxMs c div kFrameMs) = unat (jc_maxMs c) div 20"
    by (simp add: kFrameMs_def kFrameMillis_def unat_div)
  moreover have "unat (jc_maxMs c) < 2 ^ 32" using unat_bound [of "jc_maxMs c"] by simp
  ultimately have *: "unat (jc_maxMs c div kFrameMs) + 4 < 2 ^ 31" by simp
  then have "unat (jc_maxMs c div kFrameMs) + 4 < 2 ^ LENGTH(32)" by simp
  then show ?thesis
    using unat_add_no_wrap [of "jc_maxMs c div kFrameMs" 4] * by (simp add: maxEntries_def)
qed

text \<open>A spurt that has arrived in any order behind its first packet waits in sending order.\<close>

lemma jb_spurt_ready:
  fixes pkts :: "(u32 \<times> bytes \<times> u64) list" and ps :: "bytes list" and s0 :: u32
  assumes "distinct (map fst pkts)" and "fst (hd pkts) = s0"
    and "\<forall>i<length ps. map_of (map (\<lambda>(s, p, t). (s, p)) pkts) (s0 + of_nat i) = Some (ps ! i)"
    and "fst ` set pkts = (\<lambda>i. s0 + of_nat i) ` {..<length ps}"
    and "0 < length ps" and "length pkts \<le> maxEntries (jb_cfg jb0)"
    and "length ps < 2 ^ 31"
  shows "jb_started (fold (\<lambda>(s, p, t). jb_push rd s p t) pkts (jb_reset jb0)) \<and>
    jb_nextSeq (fold (\<lambda>(s, p, t). jb_push rd s p t) pkts (jb_reset jb0)) = s0 \<and>
    (\<forall>i<length ps. map_option je_payload
       (map_of (jb_queue (fold (\<lambda>(s, p, t). jb_push rd s p t) pkts (jb_reset jb0))) (s0 + of_nat i)) =
       Some (ps ! i))"
proof -
  obtain p t rest where pk: "pkts = (s0, p, t) # rest"
    using assms(2,4,5) by (cases pkts) auto
  define jb1 where "jb1 = jb_push rd s0 p t (jb_reset jb0)"
  have st: "jb_started jb1" "jb_nextSeq jb1 = s0" "jb_cfg jb1 = jb_cfg jb0"
    by (simp_all add: jb1_def jb_push_frame jb_reset_def)
  have q: "jb_queue jb1 = [(s0, \<lparr>je_payload = p, je_arrivalMs = t\<rparr>)]"
    unfolding jb1_def by (rule jb_push_first) (simp_all add: jb_reset_def)
  define jb2 where "jb2 = fold (\<lambda>(s, p, t). jb_push rd s p t) rest jb1"
  have in_range: "0 \<le> sint (s - jb_nextSeq jb1) \<and> s \<notin> fst ` set (jb_queue jb1)" if "s \<in> fst ` set rest" for s
  proof
    have "s \<in> fst ` set pkts" using that pk by simp
    then obtain i where "i < length ps" "s = s0 + of_nat i" using assms(4) by auto
    then show "0 \<le> sint (s - jb_nextSeq jb1)"
      using sint_of_nat_u32 [of i] assms(7) st(2) by simp
    show "s \<notin> fst ` set (jb_queue jb1)" using assms(1) that pk q by auto
  qed
  have jb2: "jb_started jb2 \<and> jb_nextSeq jb2 = jb_nextSeq jb1 \<and>
      (\<forall>k. map_option je_payload (map_of (jb_queue jb2) k) =
           (case map_of rest k of Some (p, t) \<Rightarrow> Some p
            | None \<Rightarrow> map_option je_payload (map_of (jb_queue jb1) k)))"
    unfolding jb2_def by (rule jb_pushes_fit) (use assms(1,6) pk q st in_range in auto)
  have proj: "map_of (map (\<lambda>(s, p, t). (s, p)) xs) k = map_option fst (map_of xs k)"
    for xs :: "(u32 \<times> bytes \<times> u64) list" and k
    by (induction xs) auto
  have ready: "\<forall>i<length ps. map_option je_payload (map_of (jb_queue jb2) (s0 + of_nat i)) = Some (ps ! i)"
  proof (intro allI impI)
    fix i assume "i < length ps"
    then have "map_option fst (map_of pkts (s0 + of_nat i)) = Some (ps ! i)"
      using assms(3) by (simp add: proj)
    moreover have "map_of rest s0 = None"
      using assms(1) pk by (auto simp: map_of_eq_None_iff)
    ultimately show "map_option je_payload (map_of (jb_queue jb2) (s0 + of_nat i)) = Some (ps ! i)"
      using jb2 pk q st(2) by (auto split: option.split if_splits)
  qed
  have "fold (\<lambda>(s, p, t). jb_push rd s p t) pkts (jb_reset jb0) = jb2"
    by (simp add: pk jb2_def jb1_def)
  then show ?thesis using jb2 ready st(2) by simp
qed

section \<open>Properties\<close>

text \<open>
  C17: no packet is played twice and none is invented. Over any history of pushes, in any order
  and with any duplicates, and pops of any buffer, every pop fills exactly the caller's buffer,
  the packets handed to the decoder were pushed under the sequence number they are played for,
  all of them have different numbers, and the queue stays in ascending order and within its
  capacity.
\<close>

theorem jitter_plays_each_once:
  fixes ops :: "('e, 'd) opus_ops" and rd :: "real \<Rightarrow> real" and cs :: "jb_call list"
    and dec :: "'d opus_decoder" and cfg :: jitter_config
  assumes "opus_laws ops" and "length cs \<le> 2 ^ 32"
  defines "x \<equiv> jb_run ops rd cs dec (jb_new cfg)"
  shows "map length (fst x) = jc_buffers cs \<and>
    set (fst (snd x)) \<subseteq> jc_pushed cs \<and> distinct (map fst (fst (snd x))) \<and>
    sorted_wrt (<) (map fst (jb_queue (snd (snd (snd x))))) \<and>
    length (jb_queue (snd (snd (snd x)))) \<le> maxEntries (jb_cfg (snd (snd (snd x))))"
  using jb_run_frames [OF assms(1)] jb_run_ok [OF jb_ok_new, of cs ops rd dec cfg]
    jb_run_distinct [OF jb_ok_new assms(2), of ops rd dec cfg]
  unfolding x_def jb_ok_def by simp

text \<open>
  C18: a spurt is played in the order it was sent. If the packets \<open>s0, s0 + 1, ...\<close> of a spurt
  that fits the buffer arrive in any order that begins with the first, the following pops hand
  them to the decoder one after the other in sending order and give out exactly what the
  decoder makes of them, also when the sequence number wraps.
\<close>

theorem jitter_plays_in_order:
  fixes pkts :: "(u32 \<times> bytes \<times> u64) list" and rd :: "real \<Rightarrow> real" and jb0 :: jitter_buffer
    and ops :: "('e, 'd) opus_ops" and ps :: "bytes list" and s0 :: u32 and out :: samples
    and dec :: "'d opus_decoder"
  assumes "distinct (map fst pkts)" and "fst (hd pkts) = s0"
    and "\<forall>i<length ps. map_of (map (\<lambda>(s, p, t). (s, p)) pkts) (s0 + of_nat i) = Some (ps ! i)"
    and "fst ` set pkts = (\<lambda>i. s0 + of_nat i) ` {..<length ps}"
    and "0 < length ps" and "length pkts \<le> maxEntries (jb_cfg jb0)"
    and "length ps < 2 ^ 31" and "length out = kFrameSamples"
  defines "x \<equiv> jb_run ops rd (map (\<lambda>(s, p, t). JC_Push s p t) pkts @ replicate (length ps) (JC_Pop out))
                 dec (jb_reset jb0)"
  shows "fst x = decode_all ops out ps dec \<and>
    fst (snd x) = map (\<lambda>i. (s0 + of_nat i, ps ! i)) [0..<length ps]"
proof -
  define jb2 where "jb2 = fold (\<lambda>(s, p, t). jb_push rd s p t) pkts (jb_reset jb0)"
  note jb2 = jb_spurt_ready [OF assms(1-7), of rd, folded jb2_def]
  have x: "x = jb_run ops rd (replicate (length ps) (JC_Pop out)) dec jb2"
    unfolding x_def jb_run_pushes by (simp add: jb2_def)
  have len: "length ps \<le> 2 ^ 32" using assms(7) by simp
  show ?thesis
    unfolding x
    using jb_pops_consecutive [of jb2 out ps ops rd dec] jb2 assms(8) len by simp
qed

text \<open>A codec whose packets are its samples, to evaluate the properties on.\<close>

definition plain_opus :: "(unit, unit) opus_ops" where
  "plain_opus = \<lparr>opus_encoder_create = Some (), opus_configure = (\<lambda>cfg e. e), opus_set_loss = (\<lambda>p e. e),
     opus_encode = (\<lambda>pcm n e. (Some (replicate (min n 1) 7), e)), opus_decoder_create = Some (),
     opus_decode = (\<lambda>data n d. (Some (case data of None \<Rightarrow> silence n
                                       | Some bs \<Rightarrow> take n (map (\<lambda>b. real (unat b)) bs)), d))\<rparr>"

lemma plain_opus_laws: "opus_laws plain_opus"
  by (auto simp: opus_laws_def plain_opus_def split: option.splits)

theorem jitter_plays_each_once_witness:
  "opus_laws plain_opus \<and>
   distinct (map fst (fst (snd (jb_run plain_opus f64
     [JC_Push 5 [1] 0, JC_Push 5 [1] 3, JC_Pop (silence 960), JC_Push 5 [1] 9, JC_Pop (silence 960)]
     (Some ()) (jb_new default_jitter_config)))))"
  using jitter_plays_each_once [OF plain_opus_laws,
      of "[JC_Push 5 [1] 0, JC_Push 5 [1] 3, JC_Pop (silence 960), JC_Push 5 [1] 9, JC_Pop (silence 960)]"
         f64 "Some ()" default_jitter_config]
    plain_opus_laws
  by simp

lemma below_three: "{..<Suc (Suc (Suc 0))} = {0, 1, 2}"
  by (auto simp: less_Suc_eq numeral_eq_Suc)

lemma all_below_three: "(\<forall>i<Suc (Suc (Suc 0)). P i) \<longleftrightarrow> P 0 \<and> P 1 \<and> P 2"
  by (auto simp: less_Suc_eq numeral_eq_Suc)

theorem jitter_plays_in_order_witness:
  "fst (snd (jb_run plain_opus f64
     (map (\<lambda>(s, p, t). JC_Push s p t) [(0xFFFFFFFF, [1], 0), (1, [3], 5), (0, [2], 6)] @
      replicate (length [[1], [2], [3 :: u8]]) (JC_Pop (silence kFrameSamples)))
     (Some ()) (jb_reset (jb_new default_jitter_config)))) =
   map (\<lambda>i. (0xFFFFFFFF + of_nat i, [[1], [2], [3]] ! i)) [0..<length [[1], [2], [3 :: u8]]]"
proof (rule conjunct2 [OF jitter_plays_in_order])
  show "fst ` set [(0xFFFFFFFF :: u32, [1 :: u8], 0 :: u64), (1, [3], 5), (0, [2], 6)] =
      (\<lambda>i. 0xFFFFFFFF + of_nat i) ` {..<length [[1], [2], [3 :: u8]]}"
    by (auto simp: below_three)
  show "\<forall>i<length [[1], [2], [3 :: u8]].
      map_of (map (\<lambda>(s, p, t). (s, p)) [(0xFFFFFFFF :: u32, [1 :: u8], 0 :: u64), (1, [3], 5), (0, [2], 6)])
        (0xFFFFFFFF + of_nat i) = Some ([[1], [2], [3]] ! i)"
    unfolding list.size(3) length_Cons all_below_three by simp
qed (simp_all add: jb_new_def maxEntries_def default_jitter_config_def kFrameMs_def kFrameMillis_def)

end
