(* ===== verification/PhoneMedia.thy ===== *)
theory PhoneMedia
  imports JitterBuffer Router
begin

text \<open>
  The phone's media path above the jitter buffer (\<^verbatim>\<open>shared/media/src/phone_media_source.cpp\<close>):
  \<open>phone_media_source\<close> is the router's phone input and \<open>media_sender\<close> its counterpart on the
  phone. The mutex of the source makes each method one step. The source is interpreted as an
  \<open>audio_source\<close>, so that the router's theorems hold with it, and a spurt packed by the sender
  is shown to come out of the source as the decoder's rendering of the packets in order.
\<close>

section \<open>PhoneMediaSource\<close>

record 'd phone_media_source =
  pm_id :: string
  pm_cfg :: jitter_config
  pm_buffer :: jitter_buffer
  pm_decoder :: "'d opus_decoder"
  pm_started :: bool
  pm_malformed :: u64
  pm_lastPacketMs :: u64

definition pm_new :: "string \<Rightarrow> jitter_config \<Rightarrow> 'd phone_media_source" where
  "pm_new i cfg = \<lparr>pm_id = i, pm_cfg = cfg, pm_buffer = jb_new cfg, pm_decoder = None,
     pm_started = False, pm_malformed = 0, pm_lastPacketMs = 0\<rparr>"

definition pm_start :: "('e, 'd) opus_ops \<Rightarrow> 'd phone_media_source \<Rightarrow> bool \<times> 'd phone_media_source" where
  "pm_start ops w =
     (case od_open ops (pm_decoder w) of
        (False, dec) \<Rightarrow> (False, w\<lparr>pm_decoder := dec\<rparr>)
      | (True, dec) \<Rightarrow> (True, w\<lparr>pm_decoder := dec, pm_buffer := jb_reset (pm_buffer w), pm_started := True\<rparr>))"

definition pm_stop :: "'d phone_media_source \<Rightarrow> 'd phone_media_source" where
  "pm_stop w = w\<lparr>pm_started := False, pm_buffer := jb_reset (pm_buffer w),
                 pm_decoder := od_close (pm_decoder w)\<rparr>"

definition pm_resetStream :: "'d phone_media_source \<Rightarrow> 'd phone_media_source" where
  "pm_resetStream w = w\<lparr>pm_buffer := jb_reset (pm_buffer w)\<rparr>"

definition pm_onMediaPayload ::
  "(real \<Rightarrow> real) \<Rightarrow> bytes \<Rightarrow> u64 \<Rightarrow> 'd phone_media_source \<Rightarrow> bool \<times> 'd phone_media_source" where
  "pm_onMediaPayload rd data nowMs w =
     (case readHeader data \<lparr>mh_version = 0, mh_flags = 0, mh_reserved = 0, mh_seq = 0, mh_timestampSamples = 0\<rparr> of
        (ok, h) \<Rightarrow>
          if \<not> ok then (False, w\<lparr>pm_malformed := pm_malformed w + 1\<rparr>)
          else if length data - mh_size = 0 then (False, w\<lparr>pm_malformed := pm_malformed w + 1\<rparr>)
          else
            let b = (if mh_flags h AND kFlagMarker \<noteq> 0 then jb_reset (pm_buffer w) else pm_buffer w)
            in (True, w\<lparr>pm_lastPacketMs := nowMs,
                        pm_buffer := jb_push rd (mh_seq h) (drop mh_size data) nowMs b\<rparr>))"

definition pm_ready :: "'d phone_media_source \<Rightarrow> bool" where
  "pm_ready w \<longleftrightarrow> pm_started w \<and> jb_ready (pm_buffer w)"

definition pm_stalled :: "u64 \<Rightarrow> 'd phone_media_source \<Rightarrow> bool" where
  "pm_stalled nowMs w = jb_stalled nowMs (pm_buffer w)"

definition pm_read ::
  "('e, 'd) opus_ops \<Rightarrow> samples \<Rightarrow> 'd phone_media_source \<Rightarrow> samples \<times> source_status \<times> 'd phone_media_source" where
  "pm_read ops out w =
     (if \<not> pm_started w then (silence (length out), Src_Failed, w)
      else (case jb_pop ops (pm_decoder w) out (pm_buffer w) of
              (ok, out', dec, b) \<Rightarrow>
                (out', if ok then Src_Ok else Src_Underrun, w\<lparr>pm_decoder := dec, pm_buffer := b\<rparr>)))"

definition pm_jitterStats :: "'d phone_media_source \<Rightarrow> jitter_stats" where
  "pm_jitterStats w = jb_statistics (pm_buffer w)"

definition phone_source_ops :: "('e, 'd) opus_ops \<Rightarrow> 'd phone_media_source source_ops" where
  "phone_source_ops ops = \<lparr>so_id = pm_id, so_read = pm_read ops\<rparr>"

lemma pm_read_length:
  "opus_laws ops \<Longrightarrow> length (fst (pm_read ops out w)) = length out"
  using jb_pop_length [of ops "pm_decoder w" out "pm_buffer w"]
  by (auto simp: pm_read_def split: prod.split)

interpretation phone_source: audio_source "pm_read ops" "\<lambda>w. opus_laws ops"
  for ops :: "('e, 'd) opus_ops"
  by unfold_locales (simp_all add: pm_read_length)

section \<open>MediaSender\<close>

record 'e media_sender =
  msd_encoder :: "'e opus_encoder"
  msd_seq :: u32
  msd_timestamp :: u32
  msd_marker :: bool

definition msd_new :: "'e media_sender" where
  "msd_new = \<lparr>msd_encoder = \<lparr>oe_enc = None, oe_cfg = default_encoder_config\<rparr>, msd_seq = 0,
              msd_timestamp = 0, msd_marker = True\<rparr>"

definition msd_open :: "('e, 'd) opus_ops \<Rightarrow> encoder_config \<Rightarrow> 'e media_sender \<Rightarrow> bool \<times> 'e media_sender" where
  "msd_open ops cfg s =
     (case oe_open ops cfg (msd_encoder s) of
        (ok, enc) \<Rightarrow> (ok, \<lparr>msd_encoder = enc, msd_seq = 0, msd_timestamp = 0, msd_marker = True\<rparr>))"

definition msd_close :: "'e media_sender \<Rightarrow> 'e media_sender" where
  "msd_close s = s\<lparr>msd_encoder := oe_close (msd_encoder s)\<rparr>"

definition msd_resetStream :: "'e media_sender \<Rightarrow> 'e media_sender" where
  "msd_resetStream s = s\<lparr>msd_marker := True\<rparr>"

definition packFrame ::
  "('e, 'd) opus_ops \<Rightarrow> samples \<Rightarrow> bool \<Rightarrow> bytes \<Rightarrow> 'e media_sender \<Rightarrow> bool \<times> bytes \<times> 'e media_sender" where
  "packFrame ops pcm pttActive out s =
     (case oe_encode ops pcm [] (msd_encoder s) of
        (ok, opus, enc) \<Rightarrow>
          if \<not> ok then (False, out, s\<lparr>msd_encoder := enc\<rparr>)
          else
            let h = \<lparr>mh_version = kMediaVersion,
                     mh_flags = (if pttActive then kFlagPttActive else kFlagNone) OR
                                (if msd_marker s then kFlagMarker else kFlagNone),
                     mh_reserved = 0, mh_seq = msd_seq s, mh_timestampSamples = msd_timestamp s\<rparr>
            in (True, writeHeader h [] @ opus,
                \<lparr>msd_encoder = enc, msd_seq = msd_seq s + 1,
                 msd_timestamp = msd_timestamp s + of_nat (length pcm), msd_marker = False\<rparr>))"

section \<open>A packed spurt\<close>

fun pack_all ::
  "('e, 'd) opus_ops \<Rightarrow> (samples \<times> bool) list \<Rightarrow> 'e media_sender \<Rightarrow> bytes list option \<times> 'e media_sender" where
  "pack_all ops [] s = (Some [], s)"
| "pack_all ops ((pcm, ptt) # fs) s =
     (case packFrame ops pcm ptt [] s of
        (ok, p, s') \<Rightarrow>
          if \<not> ok then (None, s')
          else (case pack_all ops fs s' of (r, s'') \<Rightarrow> (map_option ((#) p) r, s'')))"

text \<open>\<open>p\<close> is the payload with sequence number \<open>k\<close> and the given marker, carrying \<open>body\<close>.\<close>

definition is_payload :: "u32 \<Rightarrow> bool \<Rightarrow> bytes \<Rightarrow> bool" where
  "is_payload k marker p \<longleftrightarrow> 12 \<le> length p \<and>
     mh_version (mh_parse p) = kMediaVersion \<and> mh_seq (mh_parse p) = k \<and>
     (mh_flags (mh_parse p) AND kFlagMarker \<noteq> 0 \<longleftrightarrow> marker)"

lemma marker_flag:
  "((if a then kFlagPttActive else kFlagNone) OR (if m then kFlagMarker else kFlagNone)) AND kFlagMarker \<noteq> 0
   \<longleftrightarrow> m"
  by (cases a; cases m) (simp_all add: kFlagPttActive_def kFlagNone_def kFlagMarker_def)

lemma packFrame_payload:
  assumes "packFrame ops pcm ptt out s = (True, p, s')"
  shows "is_payload (msd_seq s) (msd_marker s) p \<and> msd_seq s' = msd_seq s + 1 \<and> \<not> msd_marker s'"
  using assms marker_flag [of ptt "msd_marker s"]
  by (auto simp: packFrame_def Let_def writeHeader_def is_payload_def mh_parse_bytes
      split: prod.splits if_split_asm)

lemma pack_all_payloads:
  "pack_all ops fs s = (Some ps, s') \<Longrightarrow>
   length ps = length fs \<and>
   (\<forall>i<length ps. is_payload (msd_seq s + of_nat i) (msd_marker s \<and> i = 0) (ps ! i))"
proof (induction fs arbitrary: s ps)
  case (Cons f fs)
  obtain pcm ptt where f: "f = (pcm, ptt)" by (metis prod.exhaust)
  obtain ok p s1 where p: "packFrame ops pcm ptt [] s = (ok, p, s1)" by (metis prod_cases3)
  obtain r s2 where r: "pack_all ops fs s1 = (r, s2)" by (metis prod.exhaust)
  have ok: "ok" "s2 = s'" and ps: "map_option ((#) p) r = Some ps"
    using Cons.prems f p r by (auto split: if_splits)
  then obtain qs where qs: "r = Some qs" "ps = p # qs" by auto
  have pl: "is_payload (msd_seq s) (msd_marker s) p" "msd_seq s1 = msd_seq s + 1" "\<not> msd_marker s1"
    using packFrame_payload [of ops pcm ptt "[]" s p s1] p ok by simp_all
  have ih: "length qs = length fs" "\<forall>i<length qs. is_payload (msd_seq s1 + of_nat i) False (qs ! i)"
    using Cons.IH [of s1 qs] r qs ok pl(3) by simp_all
  show ?case
    using ih pl qs by (auto simp: nth_Cons algebra_simps split: nat.split)
qed simp

section \<open>A spurt on its way\<close>

text \<open>
  What happens at the source: the packet with this index arrives at this time, or the router reads
  into a buffer. The results of the arrivals and the frames the reads give, in order.
\<close>

datatype media_event = ME_Packet nat u64 | ME_Read samples

fun pm_run ::
  "('e, 'd) opus_ops \<Rightarrow> (real \<Rightarrow> real) \<Rightarrow> bytes list \<Rightarrow> media_event list \<Rightarrow> 'd phone_media_source
   \<Rightarrow> bool list \<times> samples list \<times> 'd phone_media_source" where
  "pm_run ops rd ps [] w = ([], [], w)"
| "pm_run ops rd ps (ME_Packet i t # es) w =
     (case pm_onMediaPayload rd (ps ! i) t w of
        (ok, w1) \<Rightarrow> (case pm_run ops rd ps es w1 of (oks, fs, w2) \<Rightarrow> (ok # oks, fs, w2)))"
| "pm_run ops rd ps (ME_Read out # es) w =
     (case pm_read ops out w of
        (frame, st, w1) \<Rightarrow> (case pm_run ops rd ps es w1 of (oks, fs, w2) \<Rightarrow> (oks, frame # fs, w2)))"

text \<open>
  The schedules the property is about, for \<open>n\<close> packets and a buffer of \<open>cap\<close>, when the packets of \<open>A\<close>
  have arrived and those below \<open>k\<close> have been read. Any packet but the marked first may arrive, also
  again; a new one finds room. A read finds the next packet, or nothing waiting at all.
\<close>

fun spurt_ok :: "nat \<Rightarrow> nat \<Rightarrow> nat set \<Rightarrow> nat \<Rightarrow> media_event list \<Rightarrow> bool" where
  "spurt_ok cap n A k [] \<longleftrightarrow> True"
| "spurt_ok cap n A k (ME_Packet i t # es) \<longleftrightarrow>
     0 < i \<and> i < n \<and> (i \<in> A \<or> card (A - {..<k}) < cap) \<and> spurt_ok cap n (insert i A) k es"
| "spurt_ok cap n A k (ME_Read out # es) \<longleftrightarrow> length out = kFrameSamples \<and>
     (k \<in> A \<and> spurt_ok cap n A (Suc k) es \<or> A \<subseteq> {..<k} \<and> spurt_ok cap n A k es)"

text \<open>What each read of such a schedule plays: a packet, or concealment.\<close>

fun spurt_plays :: "nat set \<Rightarrow> nat \<Rightarrow> media_event list \<Rightarrow> nat option list" where
  "spurt_plays A k [] = []"
| "spurt_plays A k (ME_Packet i t # es) = spurt_plays (insert i A) k es"
| "spurt_plays A k (ME_Read out # es) =
     (if k \<in> A then Some k # spurt_plays A (Suc k) es else None # spurt_plays A k es)"

text \<open>The decoder's rendering of packets and gaps.\<close>

fun render :: "('e, 'd) opus_ops \<Rightarrow> bytes option list \<Rightarrow> 'd opus_decoder \<Rightarrow> samples list" where
  "render ops [] dec = []"
| "render ops (None # ps) dec =
     (case od_conceal ops (silence kFrameSamples) dec of (ok, xs, dec') \<Rightarrow> xs # render ops ps dec')"
| "render ops (Some p # ps) dec =
     (case od_decode ops p (silence kFrameSamples) dec of (ok, xs, dec') \<Rightarrow> xs # render ops ps dec')"

definition media_packets :: "media_event list \<Rightarrow> nat" where
  "media_packets es = length (filter (\<lambda>e. case e of ME_Packet i t \<Rightarrow> True | ME_Read out \<Rightarrow> False) es)"

lemma spurt_plays_in_order:
  "\<exists>m. List.map_filter (\<lambda>x. x) (spurt_plays A k es) = [k..<k + m]"
proof (induction A k es rule: spurt_plays.induct)
  case (3 A k out es)
  show ?case
  proof (cases "k \<in> A")
    case True
    then obtain m where "List.map_filter (\<lambda>x. x) (spurt_plays A (Suc k) es) = [Suc k..<Suc k + m]" using 3 by blast
    then show ?thesis using True by (intro exI [of _ "Suc m"]) (simp add: map_filter_simps upt_conv_Cons del: upt_Suc)
  qed (use 3 in \<open>simp add: map_filter_simps\<close>)
qed (simp_all add: map_filter_simps exI [of _ 0])

lemma spurt_plays_in:
  "spurt_ok cap n A k es \<Longrightarrow> A \<subseteq> {..<n} \<Longrightarrow> set (List.map_filter (\<lambda>x. x) (spurt_plays A k es)) \<subseteq> {..<n}"
proof (induction cap n A k es rule: spurt_ok.induct)
  case (3 cap n A k out es)
  then show ?case by (cases "k \<in> A") (auto simp: map_filter_simps)
qed (simp_all add: map_filter_simps)

lemma spurt_plays_bound:
  assumes "spurt_ok cap n {0} 0 es" and "0 < n"
  shows "\<exists>m. List.map_filter (\<lambda>i. i) (spurt_plays {0} 0 es) = [0..<m] \<and> m \<le> n"
proof -
  obtain m where m: "List.map_filter (\<lambda>x. x) (spurt_plays {0} 0 es) = [0..<m]"
    using spurt_plays_in_order [of "{0}" 0 es] by auto
  then have "{0..<m} \<subseteq> {..<n}" using spurt_plays_in [OF assms(1)] assms(2) by (metis atLeastLessThan_upt empty_subsetI insert_subset lessThan_iff)
  then have "m \<le> n" by (cases "n < m") auto
  with m show ?thesis by blast
qed

section \<open>The buffer during a spurt\<close>

text \<open>Of the packets numbered from \<open>s0\<close>, those of \<open>A\<close> that have not been read are waiting.\<close>

definition spurt_state :: "u32 \<Rightarrow> bytes list \<Rightarrow> nat set \<Rightarrow> nat \<Rightarrow> jitter_buffer \<Rightarrow> bool" where
  "spurt_state s0 qs A k b \<longleftrightarrow> jb_started b \<and> jb_nextSeq b = s0 + of_nat k \<and> mq_sorted (jb_queue b) \<and>
     {..<k} \<subseteq> A \<and> A \<subseteq> {..<length qs} \<and>
     fst ` set (jb_queue b) = (\<lambda>j. s0 + of_nat j) ` (A - {..<k}) \<and>
     (\<forall>j\<in>A - {..<k}. jb_packet b (s0 + of_nat j) = Some (qs ! j))"

lemma seq_inject: "i < 2 ^ 32 \<Longrightarrow> j < 2 ^ 32 \<Longrightarrow> s0 + of_nat i = s0 + (of_nat j :: u32) \<longleftrightarrow> i = j"
  by (auto dest!: arg_cong [where f = unat] simp: unat_of_nat_u32)

lemma sint_of_int_u32: "- (2 ^ 31) \<le> x \<Longrightarrow> x < 2 ^ 31 \<Longrightarrow> sint (of_int x :: u32) = x"
  by (simp add: signed_of_int signed_take_bit_int_eq_self)

lemma sint_ahead:
  assumes "i < 2 ^ 31" and "k \<le> 2 ^ 31"
  shows "0 \<le> sint (s0 + of_nat i - (s0 + of_nat k) :: u32) \<longleftrightarrow> k \<le> i"
proof (cases "k \<le> i")
  case True
  then have "(s0 + of_nat i - (s0 + of_nat k) :: u32) = of_nat (i - k)" by (simp add: of_nat_diff)
  then show ?thesis using True sint_of_nat_u32 [of "i - k"] assms(1) by simp
next
  case False
  then have "(s0 + of_nat i - (s0 + of_nat k) :: u32) = of_int (- int (k - i))" by (simp add: of_nat_diff)
  moreover have "sint (of_int (- int (k - i)) :: u32) = - int (k - i)"
    by (rule sint_of_int_u32) (use False assms(2) in simp_all)
  ultimately show ?thesis using False by simp
qed

lemma spurt_state_length:
  assumes "spurt_state s0 qs A k b" and "length qs \<le> 2 ^ 31"
  shows "length (jb_queue b) = card (A - {..<k})"
proof -
  have "inj_on (\<lambda>j. s0 + of_nat j :: u32) (A - {..<k})"
  proof (rule inj_onI)
    fix i j
    assume "i \<in> A - {..<k}" "j \<in> A - {..<k}" and eq: "s0 + of_nat i = s0 + (of_nat j :: u32)"
    then have "i < 2 ^ 32" "j < 2 ^ 32" using assms by (auto simp: spurt_state_def)
    with eq seq_inject [of i j s0] show "i = j" by blast
  qed
  moreover have "distinct (map fst (jb_queue b))" using assms(1) by (simp add: spurt_state_def strict_sorted_iff)
  then have "length (jb_queue b) = card (fst ` set (jb_queue b))" by (metis distinct_card length_map set_map)
  ultimately show ?thesis using assms(1) by (simp add: spurt_state_def card_image)
qed

lemma spurt_push:
  assumes st: "spurt_state s0 qs A k b" and n: "length qs \<le> 2 ^ 31" and i: "i < length qs"
    and room: "i \<in> A \<or> card (A - {..<k}) < maxEntries (jb_cfg b)"
  shows "spurt_state s0 qs (insert i A) k (jb_push rd (s0 + of_nat i) (qs ! i) t b)"
proof -
  let ?b = "jb_push rd (s0 + of_nat i) (qs ! i) t b"
  note s = st [unfolded spurt_state_def]
  have k: "k \<le> 2 ^ 31" using s n by (metis card_lessThan card_mono finite_lessThan le_trans subset_trans)
  have frame: "jb_started ?b" "jb_nextSeq ?b = s0 + of_nat k" using s by (simp_all add: jb_push_frame)
  have waits: "s0 + of_nat i \<in> fst ` set (jb_queue b) \<longleftrightarrow> i \<in> A \<and> k \<le> i"
  proof -
    have "s0 + of_nat i = s0 + (of_nat j :: u32) \<longleftrightarrow> i = j" if "j \<in> A" for j
      by (rule seq_inject) (use that s n i in auto)
    then show ?thesis using s by (auto simp: image_iff)
  qed
  consider "i < k" | "i \<in> A" "k \<le> i" | "i \<notin> A" by linarith
  then show ?thesis
  proof cases
    case 1
    then have "sint (s0 + of_nat i - jb_nextSeq b) < 0" using sint_ahead [of i k s0] s n i k by (simp add: not_le)
    then have "jb_queue ?b = jb_queue b" using s by (simp add: jb_push_def Let_def step_simps)
    moreover have "insert i A = A" using s 1 by auto
    ultimately show ?thesis using s frame by (simp add: spurt_state_def)
  next
    case 2
    then have "map_of (jb_queue b) (s0 + of_nat i) \<noteq> None" using waits by (simp add: map_of_eq_None_iff)
    then have "jb_queue ?b = jb_queue b" using s by (auto simp: jb_push_def Let_def step_simps)
    moreover have "insert i A = A" using 2 by auto
    ultimately show ?thesis using s frame by (simp add: spurt_state_def)
  next
    case 3
    then have ki: "k \<le> i" using s by (auto simp: not_less [symmetric])
    have fresh: "s0 + of_nat i \<notin> fst ` set (jb_queue b)" using waits 3 by simp
    have q: "jb_queue ?b = mq_insert (s0 + of_nat i) \<lparr>je_payload = qs ! i, je_arrivalMs = t\<rparr> (jb_queue b)"
      by (rule jb_push_fits)
         (use s n i k ki fresh sint_ahead [of i k s0] room 3 spurt_state_length [OF st n] in simp_all)
    have other: "s0 + of_nat j \<noteq> s0 + (of_nat i :: u32)" if "j \<in> A" for j
      using seq_inject [of j i s0] that 3 s n i by auto
    show ?thesis
      using s i frame ki mq_sorted_insert [OF _ fresh] map_of_mq_insert [OF fresh] other
      unfolding spurt_state_def q by (auto simp: insert_Diff_if)
  qed
qed

lemma spurt_pop_hit:
  assumes st: "spurt_state s0 qs A k b" and n: "length qs \<le> 2 ^ 31" and k: "k \<in> A"
    and out: "length out = kFrameSamples"
  shows "fst (snd (jb_pop ops dec out b)) = fst (snd (od_decode ops (qs ! k) out dec)) \<and>
    fst (snd (snd (jb_pop ops dec out b))) = snd (snd (od_decode ops (qs ! k) out dec)) \<and>
    spurt_state s0 qs A (Suc k) (snd (snd (snd (jb_pop ops dec out b))))"
proof -
  note s = st [unfolded spurt_state_def]
  have hd: "jb_packet b (jb_nextSeq b) = Some (qs ! k)" using s k by auto
  note hit = jb_pop_hit(1,2,4,5) [OF _ out hd, of ops dec]
  have other: "s0 + of_nat j \<noteq> s0 + (of_nat k :: u32)" if "j \<in> A - {..<Suc k}" for j
    using seq_inject [of j k s0] that s n k by auto
  let ?b = "snd (snd (snd (jb_pop ops dec out b)))"
  have q: "jb_queue ?b = mq_erase (s0 + of_nat k) (jb_queue b)" using hit(3) s by simp
  have "fst ` set (jb_queue ?b) = fst ` set (jb_queue b) - {s0 + of_nat k}"
    unfolding q by (auto simp: mq_erase_def)
  also have "\<dots> = (\<lambda>j. s0 + of_nat j) ` insert k (A - {..<Suc k}) - {s0 + of_nat k}"
  proof -
    have "A - {..<k} = insert k (A - {..<Suc k})" using k by auto
    moreover have "fst ` set (jb_queue b) = (\<lambda>j. s0 + of_nat j) ` (A - {..<k})" using s by blast
    ultimately show ?thesis by argo
  qed
  also have "\<dots> = (\<lambda>j. s0 + of_nat j) ` (A - {..<Suc k})"
    unfolding image_insert
  proof (rule Diff_insert_absorb, rule notI, erule imageE)
    fix j
    assume "s0 + of_nat k = s0 + (of_nat j :: u32)" "j \<in> A - {..<Suc k}"
    with other [of j] show False by metis
  qed
  finally have keys: "fst ` set (jb_queue ?b) = (\<lambda>j. s0 + of_nat j) ` (A - {..<Suc k})" .
  have pkts: "jb_packet ?b (s0 + of_nat j) = Some (qs ! j)" if j: "j \<in> A - {..<Suc k}" for j
  proof -
    have "j \<in> A - {..<k}" using j by auto
    then have "jb_packet b (s0 + of_nat j) = Some (qs ! j)" using s by blast
    then show ?thesis using other [OF j] by (simp add: q map_of_mq_erase)
  qed
  have in_A: "{..<Suc k} \<subseteq> A" "A \<subseteq> {..<length qs}" unfolding lessThan_Suc using s k by blast+
  have seq: "jb_nextSeq ?b = s0 + of_nat (Suc k)" using hit(4) s by simp
  have asc: "mq_sorted (jb_queue ?b)" unfolding q by (rule mq_sorted_erase) (use s in simp)
  have started: "jb_started ?b" using s by (simp add: step_simps)
  have "spurt_state s0 qs A (Suc k) ?b"
    unfolding spurt_state_def by (intro conjI ballI started seq asc in_A keys, rule pkts)
  then show ?thesis using hit(1,2) s by blast
qed

lemma spurt_pop_empty:
  assumes st: "spurt_state s0 qs A k b" and none: "A \<subseteq> {..<k}" and out: "length out = kFrameSamples"
  shows "fst (snd (jb_pop ops dec out b)) = fst (snd (od_conceal ops out dec)) \<and>
    fst (snd (snd (jb_pop ops dec out b))) = snd (snd (od_conceal ops out dec)) \<and>
    spurt_state s0 qs A k (snd (snd (snd (jb_pop ops dec out b))))"
proof -
  note s = st [unfolded spurt_state_def]
  have "A - {..<k} = {}" using none by auto
  then have "fst ` set (jb_queue b) = {}" using s by (simp only:) simp
  then have "jb_queue b = []" by simp
  then show ?thesis using s out by (auto simp: jb_pop_def Let_def spurt_state_def split: prod.split)
qed

section \<open>Running a schedule\<close>

lemma pm_receive_step:
  assumes "is_payload k m p" and "12 < length p"
  shows "pm_onMediaPayload rd p t w =
    (True, w\<lparr>pm_lastPacketMs := t,
             pm_buffer := jb_push rd k (drop 12 p) t (if m then jb_reset (pm_buffer w) else pm_buffer w)\<rparr>)"
  using assms by (auto simp: pm_onMediaPayload_def is_payload_def readHeader_def mh_size_def Let_def)

text \<open>What the decoder gives depends on nothing in the caller's buffer.\<close>

lemma od_fresh:
  assumes "opus_laws ops" and "length out = kFrameSamples"
  shows "od_decode ops p out (Some d) = od_decode ops p (silence kFrameSamples) (Some d)"
    and "od_conceal ops out (Some d) = od_conceal ops (silence kFrameSamples) (Some d)"
    and "\<exists>ok xs d'. od_decode ops p out (Some d) = (ok, xs, Some d')"
    and "\<exists>ok xs d'. od_conceal ops out (Some d) = (ok, xs, Some d')"
proof -
  have full: "blit 0 xs out = xs" "blit 0 xs (silence 960) = xs" if "length xs = 960" for xs
    using assms(2) that by (simp_all add: blit_self)
  show "od_decode ops p out (Some d) = od_decode ops p (silence kFrameSamples) (Some d)"
    and "od_conceal ops out (Some d) = od_conceal ops (silence kFrameSamples) (Some d)"
    using assms(2) full opus_decode_fits(2) [OF assms(1), of 960]
    by (auto simp: od_decode_def od_conceal_def split: option.split prod.split)
  show "\<exists>ok xs d'. od_decode ops p out (Some d) = (ok, xs, Some d')"
    and "\<exists>ok xs d'. od_conceal ops out (Some d) = (ok, xs, Some d')"
    using assms(2) by (auto simp: od_decode_def od_conceal_def split: option.split prod.split)
qed

lemma pm_read_pop:
  assumes "pm_started w" and "pm_decoder w = Some d" and "jb_pop ops (Some d) out (pm_buffer w) = (ok, xs, dec, b)"
  shows "\<exists>st. pm_read ops out w = (xs, st, w\<lparr>pm_decoder := dec, pm_buffer := b\<rparr>)"
  using assms by (simp add: pm_read_def)

lemma pm_run_spurt:
  fixes ps :: "bytes list" and ops :: "('e, 'd) opus_ops"
  assumes laws: "opus_laws ops" and n: "length ps \<le> 2 ^ 31"
    and pl: "\<And>i. i < length ps \<Longrightarrow> is_payload (s0 + of_nat i) (i = 0) (ps ! i) \<and> 12 < length (ps ! i)"
  defines "qs \<equiv> map (drop 12) ps"
  shows "spurt_state s0 qs A k (pm_buffer w) \<Longrightarrow> pm_started w \<Longrightarrow> pm_decoder w = Some d \<Longrightarrow>
    spurt_ok (maxEntries (jb_cfg (pm_buffer w))) (length ps) A k es \<Longrightarrow>
    fst (pm_run ops rd ps es w) = replicate (media_packets es) True \<and>
    fst (snd (pm_run ops rd ps es w)) = render ops (map (map_option ((!) qs)) (spurt_plays A k es)) (Some d)"
proof (induction es arbitrary: A k w d)
  case Nil
  then show ?case by (simp add: media_packets_def)
next
  case (Cons e es)
  have nq: "length qs \<le> 2 ^ 31" using n by (simp add: qs_def)
  show ?case
  proof (cases e)
    case (ME_Packet i t)
    define w1 where "w1 = w\<lparr>pm_lastPacketMs := t, pm_buffer := jb_push rd (s0 + of_nat i) (qs ! i) t (pm_buffer w)\<rparr>"
    have i: "0 < i" "i < length ps" "i \<in> A \<or> card (A - {..<k}) < maxEntries (jb_cfg (pm_buffer w))"
        "spurt_ok (maxEntries (jb_cfg (pm_buffer w))) (length ps) (insert i A) k es"
      using Cons.prems(4) by (simp_all add: ME_Packet)
    have step: "pm_onMediaPayload rd (ps ! i) t w = (True, w1)"
      using pm_receive_step [of "s0 + of_nat i" False "ps ! i" rd t w] pl [OF i(2)] i(1,2) by (simp add: w1_def qs_def)
    have "spurt_state s0 qs (insert i A) k (pm_buffer w1)"
      using spurt_push [OF Cons.prems(1) nq _ i(3)] i(2) by (simp add: w1_def qs_def)
    from Cons.IH [OF this, of d] i(4) Cons.prems(2,3) show ?thesis
      by (cases "pm_run ops rd ps es w1")
         (simp add: ME_Packet step media_packets_def w1_def jb_push_frame)
  next
    case (ME_Read out)
    have out: "length out = kFrameSamples" using Cons.prems(4) by (simp add: ME_Read)
    obtain ok xs dec b where pop: "jb_pop ops (Some d) out (pm_buffer w) = (ok, xs, dec, b)" by (metis prod_cases4)
    define w1 where "w1 = w\<lparr>pm_decoder := dec, pm_buffer := b\<rparr>"
    obtain st where read: "pm_read ops out w = (xs, st, w1)"
      using pm_read_pop [OF Cons.prems(2,3) pop] by (auto simp: w1_def)
    have cfg: "jb_cfg b = jb_cfg (pm_buffer w)" using jb_pop_frame(1) [of ops "Some d" out "pm_buffer w"] by (simp add: pop)
    have rest: "fst (pm_run ops rd ps (e # es) w) = fst (pm_run ops rd ps es w1)"
        "fst (snd (pm_run ops rd ps (e # es) w)) = xs # fst (snd (pm_run ops rd ps es w1))"
        "media_packets (e # es) = media_packets es"
      by (simp_all add: ME_Read read media_packets_def split: prod.split)
    show ?thesis
    proof (cases "k \<in> A")
      case True
      then have ok': "spurt_ok (maxEntries (jb_cfg (pm_buffer w1))) (length ps) A (Suc k) es"
        using Cons.prems(4) by (auto simp: ME_Read w1_def cfg)
      obtain ok1 d' where dd: "od_decode ops (qs ! k) (silence kFrameSamples) (Some d) = (ok1, xs, Some d')" "dec = Some d'"
          "spurt_state s0 qs A (Suc k) b"
        using spurt_pop_hit [OF Cons.prems(1) nq True out, of ops "Some d"] od_fresh(1) [OF laws out, of "qs ! k" d]
          od_fresh(3) [OF laws out, of "qs ! k" d] by (auto simp: pop)
      have "spurt_state s0 qs A (Suc k) (pm_buffer w1)" "pm_started w1" "pm_decoder w1 = Some d'"
        using dd(2,3) Cons.prems(2) by (simp_all add: w1_def)
      from Cons.IH [OF this ok'] show ?thesis unfolding rest by (simp add: ME_Read True dd(1) [simplified])
    next
      case False
      then have ok': "spurt_ok (maxEntries (jb_cfg (pm_buffer w1))) (length ps) A k es" and none: "A \<subseteq> {..<k}"
        using Cons.prems(4) by (auto simp: ME_Read w1_def cfg)
      obtain ok1 d' where dd: "od_conceal ops (silence kFrameSamples) (Some d) = (ok1, xs, Some d')" "dec = Some d'"
          "spurt_state s0 qs A k b"
        using spurt_pop_empty [OF Cons.prems(1) none out, of ops "Some d"] od_fresh(2) [OF laws out, of d]
          od_fresh(4) [OF laws out, of d] by (auto simp: pop)
      have "spurt_state s0 qs A k (pm_buffer w1)" "pm_started w1" "pm_decoder w1 = Some d'"
        using dd(2,3) Cons.prems(2) by (simp_all add: w1_def)
      from Cons.IH [OF this ok'] show ?thesis unfolding rest by (simp add: ME_Read False dd(1) [simplified])
    qed
  qed
qed

section \<open>Properties\<close>

text \<open>
  C19: a spurt survives the media path. The sender packs the frames of a talk spurt of any length
  below \<open>2 ^ 31\<close> without an encoder error into non-empty packets. The marked first one reaches a
  started source first; from then on the others arrive, in any order and some of them again, mixed
  with reads of the router into frames of any content. Packets may overtake one another as long as
  each finds room in the buffer when it first arrives, which holds \<open>maxEntries\<close> (14 by default), and
  the next packet in order is there when a read comes, or nothing is waiting. Then every packet is
  accepted, and the reads give exactly the decoder's rendering of the packets in the order they were
  packed, each once and none left out, with the decoder's concealment where nothing was waiting.
\<close>

theorem phone_stream_end_to_end:
  fixes ops :: "('e, 'd) opus_ops" and w :: "'d phone_media_source" and s :: "'e media_sender"
    and es :: "media_event list" and rd :: "real \<Rightarrow> real" and t0 :: u64
  assumes "opus_laws ops" and "pack_all ops fs s = (Some ps, s')" and "msd_marker s"
    and "\<forall>p\<in>set ps. 12 < length p" and "0 < length ps" and "length ps \<le> 2 ^ 31"
    and "pm_started w" and "pm_decoder w = Some d"
    and "spurt_ok (maxEntries (jb_cfg (pm_buffer w))) (length ps) {0} 0 es"
  defines "x \<equiv> pm_run ops rd ps (ME_Packet 0 t0 # es) w" and "plays \<equiv> spurt_plays {0} 0 es"
  shows "fst x = replicate (Suc (media_packets es)) True \<and>
    fst (snd x) = render ops (map (map_option (\<lambda>i. map (drop 12) ps ! i)) plays) (Some d) \<and>
    (\<exists>m. List.map_filter (\<lambda>i. i) plays = [0..<m] \<and> m \<le> length ps)"
proof -
  define s0 where "s0 = msd_seq s"
  define qs where "qs = map (drop 12) ps"
  have pl: "is_payload (s0 + of_nat i) (i = 0) (ps ! i) \<and> 12 < length (ps ! i)" if "i < length ps" for i
    using pack_all_payloads [OF assms(2)] assms(3,4) that by (simp add: s0_def)
  define w1 where "w1 = w\<lparr>pm_lastPacketMs := t0, pm_buffer := jb_push rd s0 (qs ! 0) t0 (jb_reset (pm_buffer w))\<rparr>"
  have step: "pm_onMediaPayload rd (ps ! 0) t0 w = (True, w1)"
    using pm_receive_step [of s0 True "ps ! 0" rd t0 w] pl [of 0] assms(5) by (simp add: w1_def qs_def)
  have "jb_queue (pm_buffer w1) = [(s0, \<lparr>je_payload = qs ! 0, je_arrivalMs = t0\<rparr>)]"
    unfolding w1_def by (simp, rule jb_push_first) (simp_all add: jb_reset_def)
  then have st: "spurt_state s0 qs {0} 0 (pm_buffer w1)"
    using assms(5) by (auto simp: spurt_state_def w1_def jb_push_frame jb_reset_def qs_def)
  have "jb_cfg (pm_buffer w1) = jb_cfg (pm_buffer w)" by (simp add: w1_def jb_push_frame jb_reset_def)
  note run = pm_run_spurt [OF assms(1,6) pl, folded qs_def, OF _ st, where rd = rd and es = es and d = d]
  have all: "fst (pm_run ops rd ps es w1) = replicate (media_packets es) True"
      "fst (snd (pm_run ops rd ps es w1)) = render ops (map (map_option ((!) qs)) plays) (Some d)"
    using run assms(7-9) \<open>jb_cfg (pm_buffer w1) = jb_cfg (pm_buffer w)\<close> unfolding plays_def by (simp_all add: w1_def)
  have x: "fst x = True # fst (pm_run ops rd ps es w1)" "fst (snd x) = fst (snd (pm_run ops rd ps es w1))"
    by (simp_all add: x_def step split: prod.split)
  show ?thesis
    unfolding x all using spurt_plays_bound [OF assms(9)] assms(5) by (simp add: qs_def plays_def)
qed

text \<open>
  Three packets and four reads: the first is read at once, a read finds nothing, then the third
  overtakes the second, which also arrives twice.
\<close>

theorem phone_stream_end_to_end_witness:
  "\<exists>ps s'. pack_all plain_opus [(silence 960, True), (silence 960, True), (silence 960, False)]
       (snd (msd_open plain_opus default_encoder_config msd_new)) = (Some ps, s') \<and>
     fst (snd (pm_run plain_opus f64 ps
       [ME_Packet 0 5, ME_Read (silence 960), ME_Read (silence 960), ME_Packet 2 6, ME_Packet 1 8, ME_Packet 1 9,
        ME_Read (silence 960), ME_Read (silence 960)]
       (snd (pm_start plain_opus (pm_new ''phone'' default_jitter_config))))) =
     [7 # silence 959, silence 960, 7 # silence 959, 7 # silence 959]"
proof -
  let ?es = "[ME_Read (silence 960), ME_Read (silence 960), ME_Packet 2 6, ME_Packet 1 8, ME_Packet 1 9,
        ME_Read (silence 960), ME_Read (silence 960)]"
  define s where "s = snd (msd_open plain_opus default_encoder_config (msd_new :: unit media_sender))"
  define w where "w = snd (pm_start plain_opus (pm_new ''phone'' default_jitter_config))"
  obtain ps s' where ps: "pack_all plain_opus [(silence 960, True), (silence 960, True), (silence 960, False)] s =
      (Some ps, s')" "length ps = 3" "\<forall>p\<in>set ps. 12 < length p" "map (drop 12) ps = [[7], [7], [7]]"
    by (simp add: s_def msd_open_def oe_open_def plain_opus_def oe_close_def msd_new_def packFrame_def
        oe_encode_def Let_def writeHeader_def kMaxPacketBytes_def)
  have w: "pm_started w" "pm_decoder w = Some ()" "jb_cfg (pm_buffer w) = default_jitter_config"
    by (simp_all add: w_def pm_start_def od_open_def plain_opus_def pm_new_def jb_reset_def jb_new_def)
  have m: "msd_marker s"
    by (simp add: s_def msd_open_def oe_open_def plain_opus_def split: prod.split)
  have ok: "spurt_ok (maxEntries (jb_cfg (pm_buffer w))) (length ps) {0} 0 ?es"
  proof -
    have "card ({0 :: nat} - {..<1}) = 0" "card ({2, 0 :: nat} - {..<1}) \<le> 1" "\<not> (1 :: nat) \<in> {0}"
      by (auto simp: card_gt_0_iff intro: order_trans [OF card_mono [of "{2 :: nat}"]])
    then show ?thesis using maxEntries_pos [of "jb_cfg (pm_buffer w)"] by (auto simp: ps(2))
  qed
  have plays: "spurt_plays {0} 0 ?es = [Some 0, None, Some 1, Some 2]" by simp
  have frame: "od_decode plain_opus [7] (silence 960) (Some ()) = (True, 7 # silence 959, Some ())"
    "od_conceal plain_opus (silence 960) (Some ()) = (True, silence 960, Some ())"
    by (simp_all add: od_decode_def od_conceal_def plain_opus_def blit_self)
  have "fst (snd (pm_run plain_opus f64 ps (ME_Packet 0 5 # ?es) w)) =
      render plain_opus (map (map_option (\<lambda>i. map (drop 12) ps ! i)) (spurt_plays {0} 0 ?es)) (Some ())"
    using phone_stream_end_to_end [OF plain_opus_laws ps(1) m ps(3) _ _ w(1,2) ok, of f64 5] ps(2) by simp
  also have "\<dots> = [7 # silence 959, silence 960, 7 # silence 959, 7 # silence 959]"
    unfolding plays ps(4) by (simp add: frame)
  finally show ?thesis using ps(1) unfolding s_def w_def by blast
qed

end
