(* ===== verification/Textual.thy ===== *)
theory Textual
  imports Prelude
begin

text \<open>
  The C library's text conversions that the sources call: decimal printing (\<open>%u\<close>, \<open>%llu\<close>,
  \<open>std::to_string\<close>), \<open>strtoul\<close> and \<open>strtoull\<close>, NUL-terminated strings, and cutting at a
  character as \<open>find\<close> and \<open>substr\<close> do. The lemmas are the round trips of printing and parsing.
\<close>

section \<open>Decimal numbers\<close>

definition digit_char :: "nat \<Rightarrow> char" where
  "digit_char d = char_of (48 + d)"

fun dec :: "nat \<Rightarrow> string" where
  "dec n = (if n < 10 then [digit_char n] else dec (n div 10) @ [digit_char (n mod 10)])"

declare dec.simps [simp del]

definition digit_of :: "char \<Rightarrow> nat option" where
  "digit_of c = (let k = (of_char c :: nat) in if 48 \<le> k \<and> k < 58 then Some (k - 48) else None)"

text \<open>The digits at the front, most significant first.\<close>

fun digits_value :: "nat \<Rightarrow> string \<Rightarrow> nat" where
  "digits_value acc [] = acc"
| "digits_value acc (c # cs) =
     (case digit_of c of Some d \<Rightarrow> digits_value (10 * acc + d) cs | None \<Rightarrow> acc)"

definition is_space :: "char \<Rightarrow> bool" where
  "is_space c \<longleftrightarrow> (let k = (of_char c :: nat) in k = 32 \<or> 9 \<le> k \<and> k \<le> 13)"

text \<open>\<open>strtoull(s, nullptr, 10)\<close> for a \<open>w\<close>-bit type: blanks, a sign, digits; too large saturates.\<close>

definition saturate :: "nat \<Rightarrow> nat \<Rightarrow> nat" where
  "saturate w n = min n (2 ^ w - 1)"

fun strtoul_signed :: "nat \<Rightarrow> string \<Rightarrow> nat" where
  "strtoul_signed w [] = 0"
| "strtoul_signed w (c # cs) =
     (if c = CHR ''+'' then saturate w (digits_value 0 cs)
      else if c = CHR ''-'' then
        (if digits_value 0 cs < 2 ^ w then (2 ^ w - digits_value 0 cs) mod 2 ^ w else 2 ^ w - 1)
      else saturate w (digits_value 0 (c # cs)))"

definition strtoul :: "nat \<Rightarrow> string \<Rightarrow> nat" where
  "strtoul w s = strtoul_signed w (dropWhile is_space s)"

text \<open>\<open>c_str()\<close> as a C function sees it: up to the first NUL.\<close>

definition c_str :: "string \<Rightarrow> string" where
  "c_str s = takeWhile (\<lambda>c. c \<noteq> CHR 0x00) s"

lemma c_str_id: "CHR 0x00 \<notin> set s \<Longrightarrow> c_str s = s"
  by (auto simp: c_str_def takeWhile_eq_all_conv)

lemma digit_of_char: "d < 10 \<Longrightarrow> digit_of (digit_char d) = Some d"
  by (simp add: digit_of_def digit_char_def)

definition is_digit :: "char \<Rightarrow> bool" where
  "is_digit c \<longleftrightarrow> digit_of c \<noteq> None"

lemma is_digit_char: "d < 10 \<Longrightarrow> is_digit (digit_char d)"
  by (simp add: is_digit_def digit_of_char)

lemma dec_digits: "c \<in> set (dec n) \<Longrightarrow> is_digit c"
proof (induction n rule: dec.induct)
  case (1 n)
  then show ?case
    by (subst (asm) dec.simps) (auto simp: is_digit_char split: if_splits)
qed

lemma dec_not_Nil [simp]: "dec n \<noteq> []"
  by (subst dec.simps) simp

lemma digits_value_append:
  "\<forall>c\<in>set s. is_digit c \<Longrightarrow> digits_value acc (s @ t) = digits_value (digits_value acc s) t"
  by (induction s arbitrary: acc) (auto simp: is_digit_def split: option.split)

lemma digits_value_dec: "digits_value 0 (dec n) = n"
proof (induction n rule: dec.induct)
  case (1 n)
  show ?case
  proof (cases "n < 10")
    case True
    then show ?thesis by (subst dec.simps) (simp add: digit_of_char)
  next
    case False
    then have "digits_value 0 (dec n) = digits_value (digits_value 0 (dec (n div 10))) [digit_char (n mod 10)]"
      by (subst dec.simps) (simp add: digits_value_append dec_digits)
    also have "\<dots> = n" using 1 False by (simp add: digit_of_char)
    finally show ?thesis .
  qed
qed

lemma is_digit_not:
  assumes "is_digit c"
  shows "\<not> is_space c" and "c \<noteq> CHR ''+''" and "c \<noteq> CHR ''-''" and "c \<noteq> CHR ''&''"
    and "c \<noteq> CHR ''=''" and "c \<noteq> CHR 0x00"
  using assms by (auto simp: is_digit_def digit_of_def is_space_def Let_def split: if_splits)

lemma strtoul_dec: "n < 2 ^ w \<Longrightarrow> strtoul w (dec n) = n"
proof -
  assume n: "n < 2 ^ w"
  obtain c cs where d: "dec n = c # cs" by (cases "dec n") simp_all
  then have c: "is_digit c" using dec_digits [of c n] by simp
  have "dropWhile is_space (dec n) = dec n" using is_digit_not(1) [OF c] by (simp add: d)
  then have "strtoul w (dec n) = saturate w (digits_value 0 (dec n))"
    using is_digit_not(2,3) [OF c] by (simp add: strtoul_def d)
  then show ?thesis using n by (simp add: digits_value_dec saturate_def)
qed

section \<open>Cutting at a character\<close>

text \<open>\<open>find\<close> and the two \<open>substr\<close> around the hit; \<open>None\<close> is \<open>npos\<close>.\<close>

definition cut_at :: "char \<Rightarrow> string \<Rightarrow> (string \<times> string) option" where
  "cut_at c s = (if c \<in> set s then Some (takeWhile (\<lambda>x. x \<noteq> c) s, tl (dropWhile (\<lambda>x. x \<noteq> c) s)) else None)"

lemma cut_at_hit: "c \<notin> set s \<Longrightarrow> cut_at c (s @ c # t) = Some (s, t)"
proof -
  assume c: "c \<notin> set s"
  then have "takeWhile (\<lambda>x. x \<noteq> c) (s @ c # t) = s" "dropWhile (\<lambda>x. x \<noteq> c) (s @ c # t) = c # t"
    by (induction s) auto
  then show ?thesis by (simp add: cut_at_def)
qed

lemma cut_at_miss: "c \<notin> set s \<Longrightarrow> cut_at c s = None"
  by (simp add: cut_at_def)

lemma cut_at_shorter: "cut_at c s = Some (a, b) \<Longrightarrow> length b < length s"
proof -
  assume "cut_at c s = Some (a, b)"
  then have c: "c \<in> set s" "b = tl (dropWhile (\<lambda>x. x \<noteq> c) s)"
    by (auto simp: cut_at_def split: if_splits)
  have "dropWhile (\<lambda>x. x \<noteq> c) s \<noteq> []" using c(1) by (simp add: dropWhile_eq_Nil_conv)
  then have "length b < length (dropWhile (\<lambda>x. x \<noteq> c) s)" using c(2) by (cases "dropWhile (\<lambda>x. x \<noteq> c) s") auto
  also have "\<dots> \<le> length s" by (rule length_dropWhile_le)
  finally show ?thesis .
qed

text \<open>\<open>while\<close> over the parts between occurrences of \<open>c\<close>.\<close>

function split_at :: "char \<Rightarrow> string \<Rightarrow> string list" where
  "split_at c s = (case cut_at c s of None \<Rightarrow> [s] | Some (a, b) \<Rightarrow> a # split_at c b)"
  by pat_completeness auto
termination
  by (relation "measure (\<lambda>(c, s). length s)") (auto dest: cut_at_shorter)

declare split_at.simps [simp del]

lemma split_at_one: "c \<notin> set s \<Longrightarrow> split_at c s = [s]"
  by (subst split_at.simps) (simp add: cut_at_miss)

lemma split_at_more: "c \<notin> set s \<Longrightarrow> split_at c (s @ c # t) = s # split_at c t"
  by (subst split_at.simps) (simp add: cut_at_hit)

lemma split_at_join:
  "\<forall>s\<in>set (x # xs). c \<notin> set s \<Longrightarrow> split_at c (x @ concat (map ((#) c) xs)) = x # xs"
proof (induction xs arbitrary: x)
  case Nil
  then show ?case by (simp add: split_at_one)
next
  case (Cons y xs)
  then show ?case using split_at_more [of c x "y @ concat (map ((#) c) xs)"] by simp
qed

end
