(* ===== verification/Transport.thy ===== *)
theory Transport
  imports Prelude Logging Textual "HOL-Library.Multiset"
begin

text \<open>
  The transports of \<^verbatim>\<open>shared/media/src\<close>: \<^verbatim>\<open>transport.cpp\<close> (in process), \<^verbatim>\<open>chaos_transport.cpp\<close>
  (fault injection over another transport) and \<^verbatim>\<open>udp_transport.cpp\<close>. What a transport promises
  to the layers above is the locale \<open>packet_sender\<close>: a send never hands over anything but the
  packets it was given. The chaos transport is shown to conserve packets, and the UDP transport
  never to let a datagram move a known peer.
\<close>

section \<open>The interface\<close>

record transport_stats =
  ts_packetsSent :: u64
  ts_packetsReceived :: u64
  ts_bytesSent :: u64
  ts_bytesReceived :: u64
  ts_sendFailures :: u64

definition transport_stats_zero :: transport_stats where
  "transport_stats_zero = \<lparr>ts_packetsSent = 0, ts_packetsReceived = 0, ts_bytesSent = 0,
     ts_bytesReceived = 0, ts_sendFailures = 0\<rparr>"

text \<open>
  \<open>out\<close> is what a transport has put on the wire so far and \<open>kept\<close> what it still holds. Sending
  adds some copies of packets given or held, and holds only such packets.
\<close>

locale packet_sender =
  fixes send :: "bytes \<Rightarrow> 't \<Rightarrow> bool \<times> 't"
    and out :: "'t \<Rightarrow> bytes list"
    and kept :: "'t \<Rightarrow> bytes list"
  assumes send_prefix: "\<exists>ps. out (snd (send p t)) = out t @ ps \<and> set ps \<subseteq> insert p (set (kept t))"
    and send_kept: "set (kept (snd (send p t))) \<subseteq> insert p (set (kept t))"
begin

fun send_all :: "bytes list \<Rightarrow> 't \<Rightarrow> 't" where
  "send_all [] t = t"
| "send_all (p # ps) t = send_all ps (snd (send p t))"

text \<open>Nothing appears on the wire that was not sent.\<close>

lemma send_all_only:
  "set (out (send_all ps t)) \<subseteq> set (out t) \<union> set (kept t) \<union> set ps \<and>
   set (kept (send_all ps t)) \<subseteq> set (kept t) \<union> set ps"
proof (induction ps arbitrary: t)
  case (Cons p ps)
  obtain qs where qs: "out (snd (send p t)) = out t @ qs" "set qs \<subseteq> insert p (set (kept t))"
    using send_prefix [of p t] by blast
  show ?case using Cons.IH [of "snd (send p t)"] qs send_kept [of p t] by auto
qed simp

end

section \<open>LoopbackTransport\<close>

text \<open>
  One endpoint, with the packets its handler was called with in order. The peer is the other
  endpoint, passed alongside; the handler runs inside \<open>send\<close>.
\<close>

record loopback =
  lb_name :: string
  lb_connected :: bool
  lb_hasHandler :: bool
  lb_handled :: "bytes list"
  lb_stats :: transport_stats
  lb_running :: bool

definition lb_new :: "string \<Rightarrow> loopback" where
  "lb_new name = \<lparr>lb_name = name, lb_connected = False, lb_hasHandler = False, lb_handled = [],
     lb_stats = transport_stats_zero, lb_running = False\<rparr>"

definition lb_connectTo :: "loopback \<Rightarrow> loopback" where
  "lb_connectTo t = t\<lparr>lb_connected := True\<rparr>"

definition lb_start :: "loopback \<Rightarrow> bool \<times> loopback" where
  "lb_start t = (True, t\<lparr>lb_running := True\<rparr>)"

definition lb_stop :: "loopback \<Rightarrow> loopback" where
  "lb_stop t = t\<lparr>lb_running := False\<rparr>"

definition lb_onPacket :: "loopback \<Rightarrow> loopback" where
  "lb_onPacket t = t\<lparr>lb_hasHandler := True\<rparr>"

definition lb_deliver :: "bytes \<Rightarrow> loopback \<Rightarrow> loopback" where
  "lb_deliver data t =
     t\<lparr>lb_stats := (lb_stats t)\<lparr>ts_packetsReceived := ts_packetsReceived (lb_stats t) + 1,
                               ts_bytesReceived := ts_bytesReceived (lb_stats t) + of_nat (length data)\<rparr>,
       lb_handled := lb_handled t @ (if lb_hasHandler t then [data] else [])\<rparr>"

definition lb_send :: "bytes \<Rightarrow> loopback \<times> loopback \<Rightarrow> bool \<times> loopback \<times> loopback" where
  "lb_send data tp =
     (case tp of (t, peer) \<Rightarrow>
        if \<not> lb_running t \<or> \<not> lb_connected t
        then (False, t\<lparr>lb_stats := (lb_stats t)\<lparr>ts_sendFailures := ts_sendFailures (lb_stats t) + 1\<rparr>\<rparr>, peer)
        else (True,
              t\<lparr>lb_stats := (lb_stats t)\<lparr>ts_packetsSent := ts_packetsSent (lb_stats t) + 1,
                                        ts_bytesSent := ts_bytesSent (lb_stats t) + of_nat (length data)\<rparr>\<rparr>,
              lb_deliver data peer))"

definition lb_describe :: "loopback \<Rightarrow> string" where
  "lb_describe t = ''loopback:'' @ lb_name t"

interpretation loopback: packet_sender lb_send "\<lambda>tp. lb_handled (snd tp)" "\<lambda>tp. []"
  by unfold_locales (auto simp: lb_send_def lb_deliver_def split: prod.split)

section \<open>ChaosTransport\<close>

record chaos_config =
  cc_lossRate :: real
  cc_duplicateRate :: real
  cc_reorderRate :: real
  cc_reorderDepth :: u32
  cc_extraLatencyMs :: u32
  cc_burstLossLength :: u32
  cc_seed :: u64

definition default_chaos_config :: chaos_config where
  "default_chaos_config = \<lparr>cc_lossRate = 0, cc_duplicateRate = 0, cc_reorderRate = 0,
     cc_reorderDepth = 3, cc_extraLatencyMs = 0, cc_burstLossLength = 0, cc_seed = 0xC0FFEE\<rparr>"

record chaos_stats =
  cs_offered :: u64
  cs_dropped :: u64
  cs_duplicated :: u64
  cs_reordered :: u64

record ('i, 'g) chaos =
  ch_inner :: 'i
  ch_cfg :: chaos_config
  ch_rng :: 'g
  ch_held :: "bytes list"
  ch_burstRemaining :: u32
  ch_stats :: chaos_stats

text \<open>
  \<open>draw\<close> is one value of \<open>uniform_real_distribution<double>(0, 1)\<close> from the generator, \<open>isend\<close>
  the inner transport's \<open>send\<close>.
\<close>

definition ch_new :: "(u64 \<Rightarrow> 'g) \<Rightarrow> 'i \<Rightarrow> chaos_config \<Rightarrow> ('i, 'g) chaos" where
  "ch_new seed_rng inner cfg = \<lparr>ch_inner = inner, ch_cfg = cfg, ch_rng = seed_rng (cc_seed cfg),
     ch_held = [], ch_burstRemaining = 0,
     ch_stats = \<lparr>cs_offered = 0, cs_dropped = 0, cs_duplicated = 0, cs_reordered = 0\<rparr>\<rparr>"

definition ch_roll :: "('g \<Rightarrow> real \<times> 'g) \<Rightarrow> real \<Rightarrow> ('i, 'g) chaos \<Rightarrow> bool \<times> ('i, 'g) chaos" where
  "ch_roll draw p c =
     (if p \<le> 0 then (False, c)
      else (case draw (ch_rng c) of (x, g) \<Rightarrow> (x < p, c\<lparr>ch_rng := g\<rparr>)))"

definition ch_forward :: "(bytes \<Rightarrow> 'i \<Rightarrow> bool \<times> 'i) \<Rightarrow> bytes list \<Rightarrow> 'i \<Rightarrow> 'i" where
  "ch_forward isend ps i = fold (\<lambda>p i. snd (isend p i)) ps i"

definition ch_send ::
  "('g \<Rightarrow> real \<times> 'g) \<Rightarrow> (bytes \<Rightarrow> 'i \<Rightarrow> bool \<times> 'i) \<Rightarrow> bytes \<Rightarrow> ('i, 'g) chaos \<Rightarrow> bool \<times> ('i, 'g) chaos" where
  "ch_send draw isend packet c0 =
     (let c = c0\<lparr>ch_stats := (ch_stats c0)\<lparr>cs_offered := cs_offered (ch_stats c0) + 1\<rparr>\<rparr>
      in if ch_burstRemaining c > 0 then
           (True, c\<lparr>ch_burstRemaining := ch_burstRemaining c - 1,
                    ch_stats := (ch_stats c)\<lparr>cs_dropped := cs_dropped (ch_stats c) + 1\<rparr>\<rparr>)
         else
           (case ch_roll draw (cc_lossRate (ch_cfg c)) c of
              (True, c) \<Rightarrow>
                (True, c\<lparr>ch_stats := (ch_stats c)\<lparr>cs_dropped := cs_dropped (ch_stats c) + 1\<rparr>,
                         ch_burstRemaining :=
                           (if cc_burstLossLength (ch_cfg c) > 1 then cc_burstLossLength (ch_cfg c) - 1
                            else ch_burstRemaining c)\<rparr>)
            | (False, c) \<Rightarrow>
                (case ch_roll draw (cc_reorderRate (ch_cfg c)) c of
                   (True, c) \<Rightarrow>
                     let held = ch_held c @ [packet];
                         c1 = c\<lparr>ch_held := held,
                                ch_stats := (ch_stats c)\<lparr>cs_reordered := cs_reordered (ch_stats c) + 1\<rparr>\<rparr>
                     in if length held \<ge> unat (cc_reorderDepth (ch_cfg c))
                        then (True, c1\<lparr>ch_inner := ch_forward isend (rev held) (ch_inner c1), ch_held := []\<rparr>)
                        else (True, c1)
                 | (False, c) \<Rightarrow>
                     (case isend packet (ch_inner c) of
                        (ok, i) \<Rightarrow>
                          (case ch_roll draw (cc_duplicateRate (ch_cfg c)) (c\<lparr>ch_inner := i\<rparr>) of
                             (True, c) \<Rightarrow>
                               (ok, c\<lparr>ch_inner := snd (isend packet (ch_inner c)),
                                      ch_stats := (ch_stats c)\<lparr>cs_duplicated := cs_duplicated (ch_stats c) + 1\<rparr>\<rparr>)
                           | (False, c) \<Rightarrow> (ok, c))))))"

definition ch_flush :: "(bytes \<Rightarrow> 'i \<Rightarrow> bool \<times> 'i) \<Rightarrow> ('i, 'g) chaos \<Rightarrow> ('i, 'g) chaos" where
  "ch_flush isend c = c\<lparr>ch_inner := ch_forward isend (ch_held c) (ch_inner c), ch_held := []\<rparr>"

definition ch_stop ::
  "(bytes \<Rightarrow> 'i \<Rightarrow> bool \<times> 'i) \<Rightarrow> ('i \<Rightarrow> 'i) \<Rightarrow> ('i, 'g) chaos \<Rightarrow> ('i, 'g) chaos" where
  "ch_stop isend istop c = (let c' = ch_flush isend c in c'\<lparr>ch_inner := istop (ch_inner c')\<rparr>)"

definition ch_setConfig :: "chaos_config \<Rightarrow> ('i, 'g) chaos \<Rightarrow> ('i, 'g) chaos" where
  "ch_setConfig cfg c = c\<lparr>ch_cfg := cfg\<rparr>"

lemma ch_roll_frame:
  "ch_roll draw p c = (b, c') \<Longrightarrow>
   ch_inner c' = ch_inner c \<and> ch_cfg c' = ch_cfg c \<and> ch_held c' = ch_held c \<and>
   ch_burstRemaining c' = ch_burstRemaining c \<and> ch_stats c' = ch_stats c"
  by (auto simp: ch_roll_def split: if_splits prod.splits)

lemma ch_roll_never: "p \<le> 0 \<Longrightarrow> ch_roll draw p c = (False, c)"
  by (simp add: ch_roll_def)

text \<open>An inner transport that delivers each packet at once and in order.\<close>

definition wire_ops :: "(bytes \<Rightarrow> 'i \<Rightarrow> bool \<times> 'i) \<Rightarrow> ('i \<Rightarrow> bytes list) \<Rightarrow> bool" where
  "wire_ops isend iout \<longleftrightarrow> (\<forall>p i. iout (snd (isend p i)) = iout i @ [p])"

lemma ch_forward_wire:
  "wire_ops isend iout \<Longrightarrow> iout (ch_forward isend ps i) = iout i @ ps"
  by (induction ps arbitrary: i) (simp_all add: ch_forward_def wire_ops_def)

lemma wire_packet_sender: "wire_ops isend iout \<Longrightarrow> packet_sender isend iout (\<lambda>i. [])"
  by unfold_locales (auto simp: wire_ops_def)

text \<open>
  The outcomes of a send, as the change to the wire and the held packets: lost, held, released
  in reverse, passed on, or passed on twice.
\<close>

lemma ch_send_cases:
  assumes "wire_ops isend iout" and "ch_send draw isend p c = (ok, c')"
  shows "ch_cfg c' = ch_cfg c \<and> cs_offered (ch_stats c') = cs_offered (ch_stats c) + 1 \<and>
    (ch_inner c' = ch_inner c \<and> ch_held c' = ch_held c \<and>
       cs_dropped (ch_stats c') = cs_dropped (ch_stats c) + 1 \<and>
       cs_duplicated (ch_stats c') = cs_duplicated (ch_stats c) \<or>
     cs_dropped (ch_stats c') = cs_dropped (ch_stats c) \<and>
       (ch_inner c' = ch_inner c \<and> ch_held c' = ch_held c @ [p] \<and>
          Suc (length (ch_held c)) < unat (cc_reorderDepth (ch_cfg c)) \<and>
          cs_duplicated (ch_stats c') = cs_duplicated (ch_stats c) \<or>
        iout (ch_inner c') = iout (ch_inner c) @ p # rev (ch_held c) \<and> ch_held c' = [] \<and>
          cs_duplicated (ch_stats c') = cs_duplicated (ch_stats c) \<or>
        iout (ch_inner c') = iout (ch_inner c) @ [p] \<and> ch_held c' = ch_held c \<and>
          cs_duplicated (ch_stats c') = cs_duplicated (ch_stats c) \<or>
        iout (ch_inner c') = iout (ch_inner c) @ [p, p] \<and> ch_held c' = ch_held c \<and>
          cs_duplicated (ch_stats c') = cs_duplicated (ch_stats c) + 1))"
proof -
  define c1 where "c1 = c\<lparr>ch_stats := (ch_stats c)\<lparr>cs_offered := cs_offered (ch_stats c) + 1\<rparr>\<rparr>"
  note w = assms(1) [unfolded wire_ops_def]
  obtain b2 c2 where r2: "ch_roll draw (cc_lossRate (ch_cfg c1)) c1 = (b2, c2)" by (metis prod.exhaust)
  obtain b3 c3 where r3: "ch_roll draw (cc_reorderRate (ch_cfg c2)) c2 = (b3, c3)" by (metis prod.exhaust)
  obtain ok4 i4 where s4: "isend p (ch_inner c3) = (ok4, i4)" by (metis prod.exhaust)
  obtain b5 c5 where r5: "ch_roll draw (cc_duplicateRate (ch_cfg c3)) (c3\<lparr>ch_inner := i4\<rparr>) = (b5, c5)"
    by (metis prod.exhaust)
  have f2: "ch_inner c2 = ch_inner c" "ch_cfg c2 = ch_cfg c" "ch_held c2 = ch_held c"
      "ch_stats c2 = (ch_stats c)\<lparr>cs_offered := cs_offered (ch_stats c) + 1\<rparr>"
    using ch_roll_frame [OF r2] by (simp_all add: c1_def)
  have f3: "ch_inner c3 = ch_inner c" "ch_cfg c3 = ch_cfg c" "ch_held c3 = ch_held c"
      "ch_stats c3 = (ch_stats c)\<lparr>cs_offered := cs_offered (ch_stats c) + 1\<rparr>"
    using ch_roll_frame [OF r3] f2 by simp_all
  have f5: "ch_inner c5 = i4" "ch_cfg c5 = ch_cfg c" "ch_held c5 = ch_held c"
      "ch_stats c5 = (ch_stats c)\<lparr>cs_offered := cs_offered (ch_stats c) + 1\<rparr>"
    using ch_roll_frame [OF r5] f3 by simp_all
  have i4: "iout i4 = iout (ch_inner c) @ [p]"
    using w s4 f3(1) by (metis snd_conv)
  have i5: "iout (snd (isend p i4)) = iout (ch_inner c) @ [p, p]"
    using w i4 by simp
  have burst: "ch_burstRemaining c1 = ch_burstRemaining c" by (simp add: c1_def)
  note def = assms(2) [unfolded ch_send_def Let_def c1_def [symmetric]]
  show ?thesis
  proof (cases "ch_burstRemaining c > 0")
    case True
    with def show ?thesis by (auto simp: burst c1_def)
  next
    case lossless: False
    show ?thesis
    proof (cases b2)
      case True
      with def lossless r2 have "c' = c2\<lparr>ch_stats := (ch_stats c2)\<lparr>cs_dropped := cs_dropped (ch_stats c2) + 1\<rparr>,
          ch_burstRemaining := (if cc_burstLossLength (ch_cfg c2) > 1 then cc_burstLossLength (ch_cfg c2) - 1
                                else ch_burstRemaining c2)\<rparr>"
        by (simp add: burst)
      with f2 show ?thesis by simp
    next
      case kept: False
      show ?thesis
      proof (cases b3)
        case True
        define c6 where "c6 = c3\<lparr>ch_held := ch_held c @ [p],
          ch_stats := (ch_stats c3)\<lparr>cs_reordered := cs_reordered (ch_stats c3) + 1\<rparr>\<rparr>"
        have "c' = (if unat (cc_reorderDepth (ch_cfg c)) \<le> Suc (length (ch_held c))
            then c6\<lparr>ch_inner := ch_forward isend (p # rev (ch_held c)) (ch_inner c6), ch_held := []\<rparr> else c6)"
          using def lossless kept True r2 r3 f3 by (simp add: burst c6_def split: if_splits)
        with f3 ch_forward_wire [OF assms(1), of "p # rev (ch_held c)" "ch_inner c"]
        show ?thesis by (simp add: c6_def)
      next
        case False
        have "c' = (if b5 then c5\<lparr>ch_inner := snd (isend p (ch_inner c5)),
            ch_stats := (ch_stats c5)\<lparr>cs_duplicated := cs_duplicated (ch_stats c5) + 1\<rparr>\<rparr> else c5)"
          using def lossless kept False r2 r3 s4 r5 by (simp add: burst split: if_splits bool.splits)
        with f5 i4 i5 show ?thesis by simp
      qed
    qed
  qed
qed

fun ch_send_all ::
  "('g \<Rightarrow> real \<times> 'g) \<Rightarrow> (bytes \<Rightarrow> 'i \<Rightarrow> bool \<times> 'i) \<Rightarrow> bytes list \<Rightarrow> ('i, 'g) chaos \<Rightarrow> ('i, 'g) chaos" where
  "ch_send_all draw isend [] c = c"
| "ch_send_all draw isend (p # ps) c = ch_send_all draw isend ps (snd (ch_send draw isend p c))"

definition ch_balance :: "('i \<Rightarrow> bytes list) \<Rightarrow> bytes list \<Rightarrow> ('i, 'g) chaos \<Rightarrow> bool" where
  "ch_balance iout ps c \<longleftrightarrow> (\<exists>dropped dups.
     mset ps + dups = mset (iout (ch_inner c)) + mset (ch_held c) + dropped \<and>
     set_mset dups \<subseteq> set ps \<and>
     of_nat (size dropped) = cs_dropped (ch_stats c) \<and> of_nat (size dups) = cs_duplicated (ch_stats c)) \<and>
   cs_offered (ch_stats c) = of_nat (length ps) \<and>
   length (ch_held c) \<le> unat (cc_reorderDepth (ch_cfg c)) - 1"

lemma ch_balance_send:
  assumes "wire_ops isend iout" and "ch_balance iout ps c"
  shows "ch_balance iout (ps @ [p]) (snd (ch_send draw isend p c))"
proof -
  obtain ok c' where s: "ch_send draw isend p c = (ok, c')" by (metis prod.exhaust)
  obtain dropped dups where b: "mset ps + dups = mset (iout (ch_inner c)) + mset (ch_held c) + dropped"
      "set_mset dups \<subseteq> set ps" "of_nat (size dropped) = cs_dropped (ch_stats c)"
      "of_nat (size dups) = cs_duplicated (ch_stats c)"
      "cs_offered (ch_stats c) = of_nat (length ps)" "length (ch_held c) \<le> unat (cc_reorderDepth (ch_cfg c)) - 1"
    using assms(2) unfolding ch_balance_def by blast
  have all: "mset (ps @ [p]) + dups = mset ps + dups + {#p#}" by simp
  note c = ch_send_cases [OF assms(1) s]
  then consider
      (lost) "ch_inner c' = ch_inner c" "ch_held c' = ch_held c"
        "cs_dropped (ch_stats c') = cs_dropped (ch_stats c) + 1" "cs_duplicated (ch_stats c') = cs_duplicated (ch_stats c)"
    | (dup) "iout (ch_inner c') = iout (ch_inner c) @ [p, p]" "ch_held c' = ch_held c"
        "cs_dropped (ch_stats c') = cs_dropped (ch_stats c)" "cs_duplicated (ch_stats c') = cs_duplicated (ch_stats c) + 1"
    | (sent) "mset (iout (ch_inner c')) + mset (ch_held c') = mset (iout (ch_inner c)) + mset (ch_held c) + {#p#}"
        "length (ch_held c') \<le> unat (cc_reorderDepth (ch_cfg c)) - 1"
        "cs_dropped (ch_stats c') = cs_dropped (ch_stats c)" "cs_duplicated (ch_stats c') = cs_duplicated (ch_stats c)"
    using b(6) by fastforce
  then have "\<exists>dropped dups. mset (ps @ [p]) + dups = mset (iout (ch_inner c')) + mset (ch_held c') + dropped \<and>
      set_mset dups \<subseteq> set (ps @ [p]) \<and> of_nat (size dropped) = cs_dropped (ch_stats c') \<and>
      of_nat (size dups) = cs_duplicated (ch_stats c') \<and>
      length (ch_held c') \<le> unat (cc_reorderDepth (ch_cfg c)) - 1"
  proof cases
    case lost
    then show ?thesis using b
      by (intro exI [of _ "dropped + {#p#}"] exI [of _ dups]) auto
  next
    case dup
    then show ?thesis using b
      by (intro exI [of _ dropped] exI [of _ "dups + {#p#}"]) auto
  next
    case sent
    then show ?thesis using b
      by (intro exI [of _ dropped] exI [of _ dups]) auto
  qed
  then show ?thesis
    using c b(5) unfolding s ch_balance_def by auto
qed

lemma ch_balance_all:
  "wire_ops isend iout \<Longrightarrow> ch_balance iout ps c \<Longrightarrow> ch_balance iout (ps @ qs) (ch_send_all draw isend qs c)"
proof (induction qs arbitrary: ps c)
  case (Cons q qs)
  from Cons.IH [OF Cons.prems(1) ch_balance_send [OF Cons.prems]] show ?case by simp
qed simp

lemma ch_send_all_cfg:
  "wire_ops isend iout \<Longrightarrow> ch_cfg (ch_send_all draw isend ps c) = ch_cfg c"
  by (induction ps arbitrary: c) (simp_all add: ch_send_cases [THEN conjunct1, OF _ surjective_pairing])

lemma ch_send_all_clean:
  assumes "wire_ops isend iout" and "cc_lossRate (ch_cfg c) \<le> 0" and "cc_reorderRate (ch_cfg c) \<le> 0"
    and "cc_duplicateRate (ch_cfg c) \<le> 0" and "ch_burstRemaining c = 0"
  shows "iout (ch_inner (ch_send_all draw isend ps c)) = iout (ch_inner c) @ ps"
  using assms(2-)
proof (induction ps arbitrary: c)
  case (Cons p ps)
  define c' where "c' = snd (ch_send draw isend p c)"
  have c': "ch_inner c' = snd (isend p (ch_inner c)) \<and> ch_cfg c' = ch_cfg c \<and> ch_burstRemaining c' = 0"
    using Cons.prems by (simp add: c'_def ch_send_def Let_def ch_roll_never split: prod.split)
  then have "iout (ch_inner c') = iout (ch_inner c) @ [p]"
    using assms(1) by (simp add: wire_ops_def)
  then show ?case using Cons.IH [of c'] Cons.prems c' by (simp add: c'_def [symmetric])
qed simp

section \<open>UdpTransport\<close>

text \<open>
  The socket calls are arguments: what \<open>socket\<close>, \<open>bind\<close>, \<open>getsockname\<close>, \<open>getaddrinfo\<close>,
  \<open>sendto\<close> and \<open>recvfrom\<close> return. An address is the bytes of a \<open>sockaddr\<close> with its printed form;
  the receive thread takes one \<open>recvfrom\<close> at a time.
\<close>

definition kMaxDatagram :: nat where "kMaxDatagram = 2048"

record udp =
  ut_name :: string
  ut_requestedPort :: u16
  ut_boundPort :: u16
  ut_socket :: "int option"
  ut_peerAddr :: bytes
  ut_peerAddrLen :: nat
  ut_peerDescription :: string
  ut_hasHandler :: bool
  ut_running :: bool
  ut_stats :: transport_stats

definition ut_new :: "string \<Rightarrow> u16 \<Rightarrow> udp" where
  "ut_new name localPort = \<lparr>ut_name = name, ut_requestedPort = localPort, ut_boundPort = 0,
     ut_socket = None, ut_peerAddr = replicate 128 0, ut_peerAddrLen = 0, ut_peerDescription = [],
     ut_hasHandler = False, ut_running = False, ut_stats = transport_stats_zero\<rparr>"

definition ut_start :: "int option \<Rightarrow> bool \<Rightarrow> u16 option \<Rightarrow> udp \<Rightarrow> bool \<times> udp" where
  "ut_start sock bound name u =
     (if ut_running u then (True, u)
      else (case sock of
              None \<Rightarrow> (False, u\<lparr>ut_socket := None\<rparr>)
            | Some s \<Rightarrow>
                if \<not> bound then (False, u\<lparr>ut_socket := None\<rparr>)
                else (True, u\<lparr>ut_socket := Some s,
                              ut_boundPort := (case name of Some p \<Rightarrow> p | None \<Rightarrow> ut_boundPort u),
                              ut_running := True\<rparr>)))"

definition ut_stop :: "udp \<Rightarrow> udp" where
  "ut_stop u = (if \<not> ut_running u then u else u\<lparr>ut_running := False, ut_socket := None\<rparr>)"

definition ut_setPeer :: "bytes option \<Rightarrow> string \<Rightarrow> u16 \<Rightarrow> udp \<Rightarrow> bool \<times> udp" where
  "ut_setPeer resolved host port u =
     (case resolved of
        None \<Rightarrow> (False, u)
      | Some addr \<Rightarrow>
          (True, u\<lparr>ut_peerAddr := blit 0 addr (ut_peerAddr u), ut_peerAddrLen := length addr,
                   ut_peerDescription := host @ '':'' @ dec (unat port)\<rparr>))"

definition ut_hasPeer :: "udp \<Rightarrow> bool" where
  "ut_hasPeer u \<longleftrightarrow> ut_peerAddrLen u \<noteq> 0"

text \<open>The second component is the datagram given to \<open>sendto\<close> with its destination.\<close>

definition ut_send :: "int \<Rightarrow> bytes \<Rightarrow> udp \<Rightarrow> bool \<times> (bytes \<times> bytes) list \<times> udp" where
  "ut_send n data u =
     (if ut_socket u = None \<or> ut_peerAddrLen u = 0
      then (False, [], u\<lparr>ut_stats := (ut_stats u)\<lparr>ts_sendFailures := ts_sendFailures (ut_stats u) + 1\<rparr>\<rparr>)
      else
        let sent = [(take (ut_peerAddrLen u) (ut_peerAddr u), data)]
        in if n < 0
           then (False, sent, u\<lparr>ut_stats := (ut_stats u)\<lparr>ts_sendFailures := ts_sendFailures (ut_stats u) + 1\<rparr>\<rparr>)
           else (True, sent,
                 u\<lparr>ut_stats := (ut_stats u)\<lparr>ts_packetsSent := ts_packetsSent (ut_stats u) + 1,
                                           ts_bytesSent := ts_bytesSent (ut_stats u) + of_nat (length data)\<rparr>\<rparr>))"

datatype recv_result = Recv_Error | Recv_From bytes string u16 bytes

text \<open>One pass of \<open>receiveLoop\<close>: the datagrams handed to the handler and the transport after it.\<close>

definition ut_receive :: "recv_result \<Rightarrow> udp \<Rightarrow> bytes list \<times> udp" where
  "ut_receive r u =
     (case r of
        Recv_Error \<Rightarrow> ([], u)
      | Recv_From from text port data \<Rightarrow>
          if data = [] then ([], u)
          else
            let n = length (take kMaxDatagram data);
                u1 = (if ut_peerAddrLen u = 0
                      then u\<lparr>ut_peerAddr := blit 0 from (ut_peerAddr u), ut_peerAddrLen := length from,
                             ut_peerDescription := text @ '':'' @ dec (unat port)\<rparr>
                      else u)
            in (if ut_hasHandler u1 then [take kMaxDatagram data] else [],
                u1\<lparr>ut_stats := (ut_stats u1)\<lparr>ts_packetsReceived := ts_packetsReceived (ut_stats u1) + 1,
                                            ts_bytesReceived := ts_bytesReceived (ut_stats u1) + of_nat n\<rparr>\<rparr>))"

definition ut_describe :: "udp \<Rightarrow> string" where
  "ut_describe u = ''udp:'' @ ut_name u @ ''(local '' @ dec (unat (ut_boundPort u)) @
     (if ut_peerDescription u = [] then [] else '' -> '' @ ut_peerDescription u) @ '')''"

datatype udp_call = UC_Send int bytes | UC_Receive recv_result

text \<open>A history of sends and receptions: the addresses that were sent to, and what the handler got.\<close>

fun ut_run :: "udp_call list \<Rightarrow> udp \<Rightarrow> (bytes \<times> bytes) list \<times> bytes list \<times> udp" where
  "ut_run [] u = ([], [], u)"
| "ut_run (UC_Send n data # cs) u =
     (case ut_send n data u of (ok, sent, u') \<Rightarrow>
        case ut_run cs u' of (s, h, u'') \<Rightarrow> (sent @ s, h, u''))"
| "ut_run (UC_Receive r # cs) u =
     (case ut_receive r u of (got, u') \<Rightarrow>
        case ut_run cs u' of (s, h, u'') \<Rightarrow> (s, got @ h, u''))"

fun first_contact :: "udp_call list \<Rightarrow> bytes option" where
  "first_contact [] = None"
| "first_contact (UC_Receive (Recv_From from text port data) # cs) =
     (if data = [] then first_contact cs else Some from)"
| "first_contact (c # cs) = first_contact cs"

fun udp_sane :: "udp_call \<Rightarrow> bool" where
  "udp_sane (UC_Receive (Recv_From from text port data)) \<longleftrightarrow> from \<noteq> [] \<and> length from \<le> 128"
| "udp_sane c \<longleftrightarrow> True"

fun udp_received :: "udp_call list \<Rightarrow> bytes list" where
  "udp_received [] = []"
| "udp_received (UC_Receive (Recv_From from text port data) # cs) =
     (if data = [] then [] else [take kMaxDatagram data]) @ udp_received cs"
| "udp_received (c # cs) = udp_received cs"

definition ut_peer :: "udp \<Rightarrow> bytes" where
  "ut_peer u = take (ut_peerAddrLen u) (ut_peerAddr u)"

lemma ut_run_send:
  "fst (ut_run (UC_Send n d # cs) u) = fst (snd (ut_send n d u)) @ fst (ut_run cs (snd (snd (ut_send n d u))))"
  "snd (ut_run (UC_Send n d # cs) u) = snd (ut_run cs (snd (snd (ut_send n d u))))"
  by (simp_all split: prod.split)

lemma ut_run_receive:
  "fst (ut_run (UC_Receive r # cs) u) = fst (ut_run cs (snd (ut_receive r u)))"
  "fst (snd (ut_run (UC_Receive r # cs) u)) = fst (ut_receive r u) @ fst (snd (ut_run cs (snd (ut_receive r u))))"
  "snd (snd (ut_run (UC_Receive r # cs) u)) = snd (snd (ut_run cs (snd (ut_receive r u))))"
  by (simp_all split: prod.split)

declare ut_run.simps(2,3) [simp del]

lemma ut_send_peer:
  "ut_peerAddrLen (snd (snd (ut_send n d u))) = ut_peerAddrLen u"
  "ut_peerAddr (snd (snd (ut_send n d u))) = ut_peerAddr u"
  "ut_peer (snd (snd (ut_send n d u))) = ut_peer u"
  "ut_hasHandler (snd (snd (ut_send n d u))) = ut_hasHandler u"
  "\<forall>(a, d)\<in>set (fst (snd (ut_send n d u))). a = ut_peer u \<and> ut_peerAddrLen u \<noteq> 0"
  by (auto simp: ut_send_def Let_def ut_peer_def)

lemma ut_receive_peer:
  "ut_peerAddrLen u \<noteq> 0 \<Longrightarrow> ut_peerAddrLen (snd (ut_receive r u)) = ut_peerAddrLen u \<and>
     ut_peer (snd (ut_receive r u)) = ut_peer u"
  "ut_hasHandler (snd (ut_receive r u)) = ut_hasHandler u"
  "snd (ut_receive Recv_Error u) = u"
  "snd (ut_receive (Recv_From addr nm port []) u) = u"
  by (auto simp: ut_receive_def Let_def ut_peer_def split: recv_result.split)

lemma ut_run_known_peer:
  "ut_peerAddrLen u \<noteq> 0 \<Longrightarrow>
   (\<forall>(a, d)\<in>set (fst (ut_run cs u)). a = ut_peer u) \<and> ut_peer (snd (snd (ut_run cs u))) = ut_peer u"
proof (induction cs arbitrary: u)
  case (Cons c cs)
  show ?case
  proof (cases c)
    case (UC_Send n d)
    with Cons.IH [of "snd (snd (ut_send n d u))"] Cons.prems ut_send_peer [of n d u]
    show ?thesis by (auto simp: ut_run_send)
  next
    case (UC_Receive r)
    with Cons.IH [of "snd (ut_receive r u)"] ut_receive_peer(1) [OF Cons.prems, of r] Cons.prems
    show ?thesis by (simp add: ut_run_receive)
  qed
qed simp

lemma ut_send_no_peer: "ut_peerAddrLen u = 0 \<Longrightarrow> fst (snd (ut_send n d u)) = []"
  by (simp add: ut_send_def)

lemma ut_run_unknown_peer:
  "ut_peerAddrLen u = 0 \<Longrightarrow> length (ut_peerAddr u) = 128 \<Longrightarrow> \<forall>c\<in>set cs. udp_sane c \<Longrightarrow>
   (\<forall>(a, d)\<in>set (fst (ut_run cs u)). Some a = first_contact cs)"
proof (induction cs arbitrary: u rule: udp_received.induct)
  case (2 addr nm port data cs)
  show ?case
  proof (cases "data = []")
    case True
    then show ?thesis using 2 by (simp add: ut_run_receive ut_receive_peer)
  next
    case False
    define u' where "u' = snd (ut_receive (Recv_From addr nm port data) u)"
    have "length (blit 0 addr (ut_peerAddr u)) = 128" using 2 by simp
    moreover have "take (length addr) (blit 0 addr (ut_peerAddr u)) = addr" by (simp add: blit_def)
    ultimately have "ut_peerAddrLen u' \<noteq> 0" "ut_peer u' = addr"
      using 2 False by (simp_all add: u'_def ut_receive_def Let_def ut_peer_def)
    with ut_run_known_peer [of u' cs] False show ?thesis
      by (auto simp: u'_def ut_run_receive)
  qed
next
  case step: "3_1"
  show ?case
    by (simp add: ut_run_send ut_send_no_peer step.prems)
      (rule step.IH; use step.prems in \<open>simp add: ut_send_peer\<close>)
qed (simp_all add: ut_run_receive ut_receive_peer)

lemma ut_run_handler:
  "ut_hasHandler u \<Longrightarrow> fst (snd (ut_run cs u)) = udp_received cs"
proof (induction cs arbitrary: u rule: udp_received.induct)
  case (2 addr nm port data cs)
  have "fst (ut_receive (Recv_From addr nm port data) u) = (if data = [] then [] else [take kMaxDatagram data])"
    using "2.prems" by (simp add: ut_receive_def Let_def)
  with "2.IH" "2.prems" show ?case by (simp add: ut_run_receive ut_receive_peer)
qed (simp_all add: ut_run_send ut_run_receive ut_send_peer ut_receive_peer, simp add: ut_receive_def)

section \<open>Properties\<close>

text \<open>
  The chaos transport conserves packets. Over a lossless wire, for every configuration and
  every random sequence, each packet offered is on the wire, held or counted as dropped, the
  only extra copies on the wire are those counted as duplicated, fewer packets than the reorder
  depth are held, and with all rates at zero the wire carries exactly the packets offered.
\<close>

theorem chaos_conserves_packets:
  fixes iout :: "'i \<Rightarrow> bytes list" and inner :: 'i and draw :: "'g \<Rightarrow> real \<times> 'g" and ps :: "bytes list"
    and seed_rng :: "u64 \<Rightarrow> 'g" and cfg :: chaos_config
  assumes "wire_ops isend iout" and "iout inner = []"
  defines "c \<equiv> ch_send_all draw isend ps (ch_new seed_rng inner cfg)"
  shows "(\<exists>dropped dups. mset ps + dups = mset (iout (ch_inner c)) + mset (ch_held c) + dropped \<and>
       set_mset dups \<subseteq> set ps \<and> of_nat (size dropped) = cs_dropped (ch_stats c) \<and>
       of_nat (size dups) = cs_duplicated (ch_stats c)) \<and>
     cs_offered (ch_stats c) = of_nat (length ps) \<and>
     length (ch_held c) \<le> unat (cc_reorderDepth cfg) - 1 \<and>
     (cc_lossRate cfg \<le> 0 \<and> cc_reorderRate cfg \<le> 0 \<and> cc_duplicateRate cfg \<le> 0 \<longrightarrow> iout (ch_inner c) = ps) \<and>
     iout (ch_inner (ch_flush isend c)) = iout (ch_inner c) @ ch_held c \<and> ch_held (ch_flush isend c) = []"
proof -
  have "ch_balance iout [] (ch_new seed_rng inner cfg)"
    using assms(2) by (simp add: ch_balance_def ch_new_def)
  then have "ch_balance iout ps c"
    using ch_balance_all [OF assms(1), of "[]" "ch_new seed_rng inner cfg" ps draw] by (simp add: c_def)
  moreover have "ch_cfg c = cfg"
    unfolding c_def ch_send_all_cfg [OF assms(1)] by (simp add: ch_new_def)
  moreover have "iout (ch_inner c) = ps" if "cc_lossRate cfg \<le> 0" "cc_reorderRate cfg \<le> 0" "cc_duplicateRate cfg \<le> 0"
    using ch_send_all_clean [OF assms(1), of "ch_new seed_rng inner cfg" draw ps] that assms(2)
    by (simp add: c_def ch_new_def)
  ultimately show ?thesis
    using ch_forward_wire [OF assms(1)] unfolding ch_balance_def ch_flush_def by simp
qed

theorem chaos_conserves_packets_witness:
  "wire_ops (\<lambda>p i. (True, i @ [p])) (\<lambda>i. i) \<and>
   cs_offered (ch_stats (ch_send_all (\<lambda>g. (1 / 2, g)) (\<lambda>p i. (True, i @ [p])) [[1], [2]]
     (ch_new (\<lambda>s. s) [] default_chaos_config))) = 2"
proof -
  have w: "wire_ops (\<lambda>p i. (True, i @ [p])) (\<lambda>i. i)" by (simp add: wire_ops_def)
  from chaos_conserves_packets [OF w refl, where draw = "\<lambda>g. (1 / 2, g)" and ps = "[[1], [2]]" and
      seed_rng = "\<lambda>s. s" and cfg = default_chaos_config] w
  show ?thesis by simp
qed

text \<open>
  A datagram cannot move a known peer. A transport that has a peer sends everything to it,
  and one that has none sends to nobody but the first address it hears from, whatever arrives
  from other addresses later; the handler gets each non-empty datagram once, in order, cut at
  the buffer size.
\<close>

theorem udp_peer_is_first_contact:
  assumes "length (ut_peerAddr u) = 128" and "\<forall>c\<in>set cs. udp_sane c"
  shows "(\<forall>(a, d)\<in>set (fst (ut_run cs u)).
      Some a = (if ut_hasPeer u then Some (ut_peer u) else first_contact cs)) \<and>
    (ut_hasHandler u \<longrightarrow> fst (snd (ut_run cs u)) = udp_received cs)"
proof -
  have "\<forall>(a, d)\<in>set (fst (ut_run cs u)). Some a = (if ut_hasPeer u then Some (ut_peer u) else first_contact cs)"
  proof (cases "ut_hasPeer u")
    case True
    then show ?thesis using ut_run_known_peer [of u cs] by (auto simp: ut_hasPeer_def)
  next
    case False
    then show ?thesis using ut_run_unknown_peer [of u cs] assms by (auto simp: ut_hasPeer_def)
  qed
  then show ?thesis using ut_run_handler by blast
qed

theorem udp_peer_is_first_contact_witness:
  "list_all (\<lambda>(a, d). a = [9])
     (fst (ut_run [UC_Receive (Recv_From [9] ''x'' 1 [5]), UC_Receive (Recv_From [8] ''y'' 1 [6]), UC_Send 1 [7]]
        (snd (ut_start (Some 3) True None (ut_new ''pc'' 47701)))))"
  using conjunct1 [OF udp_peer_is_first_contact [of "snd (ut_start (Some 3) True None (ut_new ''pc'' 47701))"
      "[UC_Receive (Recv_From [9] ''x'' 1 [5]), UC_Receive (Recv_From [8] ''y'' 1 [6]), UC_Send 1 [7]]"]]
  by (simp add: ut_start_def ut_new_def ut_hasPeer_def list_all_iff)

end
