(* ===== verification/Identity.thy ===== *)
theory Identity
  imports Codec Textual
begin

text \<open>
  Device identities (\<^verbatim>\<open>shared/security/src/identity.cpp\<close>). The libsodium calls of the security
  code are the record \<open>crypto\<close>, a parameter; \<open>crypto_laws\<close> states the documented behaviour the
  code relies on, which \<open>toy_crypto\<close> shows can hold. Keys, signatures and group elements are
  byte lists of their fixed lengths.
\<close>

section \<open>libsodium\<close>

text \<open>
  \<open>None\<close> is a nonzero return value. \<open>cr_hash n m k\<close> is \<open>crypto_generichash\<close> with output length
  \<open>n\<close> and key \<open>k\<close>, in one call or streamed; \<open>cr_keypair\<close> and the scalars take the random bytes
  drawn as an argument.
\<close>

record crypto =
  cr_init :: bool
  cr_bin2base64 :: "bytes \<Rightarrow> string"
  cr_base642bin :: "string \<Rightarrow> bytes option"
  cr_hash :: "nat \<Rightarrow> bytes \<Rightarrow> bytes \<Rightarrow> bytes"
  cr_keypair :: "bytes \<Rightarrow> bytes \<times> bytes"
  cr_sk_to_pk :: "bytes \<Rightarrow> bytes option"
  cr_sign :: "bytes \<Rightarrow> bytes \<Rightarrow> bytes"
  cr_verify :: "bytes \<Rightarrow> bytes \<Rightarrow> bytes \<Rightarrow> bool"
  cr_from_hash :: "bytes \<Rightarrow> bytes"
  cr_scalarmult :: "bytes \<Rightarrow> bytes \<Rightarrow> bytes option"
  cr_is_valid_point :: "bytes \<Rightarrow> bool"

definition url64_char :: "char \<Rightarrow> bool" where
  "url64_char ch \<longleftrightarrow> (let k = (of_char ch :: nat) in
     48 \<le> k \<and> k < 58 \<or> 65 \<le> k \<and> k < 91 \<or> 97 \<le> k \<and> k < 123 \<or> k = 45 \<or> k = 95)"

text \<open>
  What libsodium documents of these calls, each inside the sizes it documents. Base64 is inverted
  and URL-safe; \<open>crypto_generichash\<close> gives as many bytes as are asked for, 16 to 64, with no key or
  one of 16 to 64 bytes; a signature made with the secret key of a pair verifies under its public
  key.
\<close>

definition base64_laws :: "crypto \<Rightarrow> bool" where
  "base64_laws c \<longleftrightarrow>
     (\<forall>b. cr_base642bin c (cr_bin2base64 c b) = Some b \<and> (\<forall>ch\<in>set (cr_bin2base64 c b). url64_char ch) \<and>
          (b \<noteq> [] \<longrightarrow> cr_bin2base64 c b \<noteq> []))"

definition hash_laws :: "crypto \<Rightarrow> bool" where
  "hash_laws c \<longleftrightarrow>
     (\<forall>n m k. 16 \<le> n \<longrightarrow> n \<le> 64 \<longrightarrow> k = [] \<or> 16 \<le> length k \<and> length k \<le> 64 \<longrightarrow>
        length (cr_hash c n m k) = n)"

definition keypair_laws :: "crypto \<Rightarrow> bool" where
  "keypair_laws c \<longleftrightarrow>
     (\<forall>r pk sk. length r = 32 \<longrightarrow> cr_keypair c r = (pk, sk) \<longrightarrow> length pk = 32 \<and> length sk = 64)"

definition sign_laws :: "crypto \<Rightarrow> bool" where
  "sign_laws c \<longleftrightarrow>
     (\<forall>r pk sk m. length r = 32 \<longrightarrow> cr_keypair c r = (pk, sk) \<longrightarrow> cr_sk_to_pk c sk = Some pk \<and>
          length (cr_sign c m sk) = 64 \<and> cr_verify c (cr_sign c m sk) m pk)"

text \<open>
  The group. \<open>crypto_core_ristretto255_scalar_random\<close> draws a scalar strictly between zero and the
  order of the group, as 32 little-endian bytes. \<open>crypto_scalarmult_ristretto255\<close> fails when its
  result is the identity, whose encoding is all zero; the order is prime, so for such a scalar and a
  valid element that is not the identity it succeeds, and multiplications by two such scalars
  commute. \<open>crypto_core_ristretto255_from_hash\<close> maps 64 bytes to a valid element; nothing is said
  about which, so that the generator of an exchange is not the identity is a hypothesis about
  that generator where it is needed.
\<close>

fun le_nat :: "bytes \<Rightarrow> nat" where
  "le_nat [] = 0"
| "le_nat (b # bs) = unat b + 256 * le_nat bs"

definition ristretto_order :: nat where
  "ristretto_order = 2 ^ 252 + 27742317777372353535851937790883648493"

definition scalar_ok :: "bytes \<Rightarrow> bool" where
  "scalar_ok x \<longleftrightarrow> length x = 32 \<and> 0 < le_nat x \<and> le_nat x < ristretto_order"

definition group_laws :: "crypto \<Rightarrow> bool" where
  "group_laws c \<longleftrightarrow>
     (\<forall>h. length h = 64 \<longrightarrow> length (cr_from_hash c h) = 32 \<and> cr_is_valid_point c (cr_from_hash c h)) \<and>
     (\<forall>x p. scalar_ok x \<longrightarrow> length p = 32 \<longrightarrow> cr_is_valid_point c p \<longrightarrow> p \<noteq> replicate 32 0 \<longrightarrow>
        (\<exists>q. cr_scalarmult c x p = Some q \<and> length q = 32 \<and> cr_is_valid_point c q \<and> q \<noteq> replicate 32 0)) \<and>
     (\<forall>x y p px py. scalar_ok x \<longrightarrow> scalar_ok y \<longrightarrow> length p = 32 \<longrightarrow> cr_is_valid_point c p \<longrightarrow>
        cr_scalarmult c x p = Some px \<longrightarrow> cr_scalarmult c y p = Some py \<longrightarrow>
        cr_scalarmult c x py = cr_scalarmult c y px)"

definition crypto_laws :: "crypto \<Rightarrow> bool" where
  "crypto_laws c \<longleftrightarrow> base64_laws c \<and> hash_laws c \<and> keypair_laws c \<and> sign_laws c \<and> group_laws c"

section \<open>Text encodings\<close>

definition initCrypto :: "crypto \<Rightarrow> bool" where
  "initCrypto c = cr_init c"

definition toBase64 :: "crypto \<Rightarrow> bytes \<Rightarrow> string" where
  "toBase64 c data = c_str (cr_bin2base64 c data)"

definition fromBase64 :: "crypto \<Rightarrow> string \<Rightarrow> bytes" where
  "fromBase64 c s = (case cr_base642bin c s of None \<Rightarrow> [] | Some b \<Rightarrow> b)"

definition toHex :: "bytes \<Rightarrow> string" where
  "toHex data = hex_bytes data"

section \<open>DeviceIdentity\<close>

definition kPublicKeyBytes :: nat where "kPublicKeyBytes = 32"
definition kSecretKeyBytes :: nat where "kSecretKeyBytes = 64"
definition kSignatureBytes :: nat where "kSignatureBytes = 64"

record device_identity =
  id_public :: bytes
  id_secret :: bytes

definition di_generate :: "crypto \<Rightarrow> bytes \<Rightarrow> device_identity" where
  "di_generate c rand = (case cr_keypair c rand of (pk, sk) \<Rightarrow> \<lparr>id_public = pk, id_secret = sk\<rparr>)"

definition di_fromSecretKey :: "crypto \<Rightarrow> bytes \<Rightarrow> device_identity option" where
  "di_fromSecretKey c secret =
     (if length secret \<noteq> kSecretKeyBytes then None
      else (case cr_sk_to_pk c secret of
              None \<Rightarrow> None
            | Some pk \<Rightarrow> Some \<lparr>id_public = pk, id_secret = secret\<rparr>))"

definition deviceIdFor :: "crypto \<Rightarrow> bytes \<Rightarrow> string" where
  "deviceIdFor c pub = toBase64 c pub"

text \<open>The loop that puts a dash before each group of four but the first.\<close>

function group4 :: "string \<Rightarrow> string" where
  "group4 s = (if length s \<le> 4 then s else take 4 s @ ''-'' @ group4 (drop 4 s))"
  by pat_completeness auto
termination by (relation "measure length") auto

declare group4.simps [simp del]

definition fingerprintFor :: "crypto \<Rightarrow> bytes \<Rightarrow> string" where
  "fingerprintFor c pub =
     group4 (toHex (take 8 (cr_hash c 32 pub (bytes_of_string ''SmartMic-fp-v1''))))"

definition publicKeyFromDeviceId :: "crypto \<Rightarrow> string \<Rightarrow> bytes option" where
  "publicKeyFromDeviceId c i =
     (let b = fromBase64 c i in if length b \<noteq> kPublicKeyBytes then None else Some b)"

definition di_deviceId :: "crypto \<Rightarrow> device_identity \<Rightarrow> string" where
  "di_deviceId c w = deviceIdFor c (id_public w)"

definition di_fingerprint :: "crypto \<Rightarrow> device_identity \<Rightarrow> string" where
  "di_fingerprint c w = fingerprintFor c (id_public w)"

definition di_sign :: "crypto \<Rightarrow> bytes \<Rightarrow> device_identity \<Rightarrow> bytes" where
  "di_sign c data w = cr_sign c data (id_secret w)"

definition di_verify :: "crypto \<Rightarrow> bytes \<Rightarrow> bytes \<Rightarrow> bytes \<Rightarrow> bool" where
  "di_verify c pub data sig = cr_verify c sig data pub"

text \<open>An identity that \<open>generate\<close> made, in this run or in the one that stored its key.\<close>

definition id_ok :: "crypto \<Rightarrow> device_identity \<Rightarrow> bool" where
  "id_ok c w \<longleftrightarrow> (\<exists>rand. length rand = 32 \<and> w = di_generate c rand)"

lemma id_ok_generate: "length rand = 32 \<Longrightarrow> id_ok c (di_generate c rand)"
  by (auto simp: id_ok_def)

lemma id_ok_keypair:
  assumes "id_ok c w"
  obtains rand where "length rand = 32" "cr_keypair c rand = (id_public w, id_secret w)"
proof -
  from assms obtain rand where r: "length rand = 32" "w = di_generate c rand" unfolding id_ok_def by blast
  then have "cr_keypair c rand = (id_public w, id_secret w)" by (cases "cr_keypair c rand") (simp add: di_generate_def)
  with r(1) show thesis by (rule that)
qed

lemma id_length:
  "keypair_laws c \<Longrightarrow> id_ok c w \<Longrightarrow> length (id_public w) = 32 \<and> length (id_secret w) = 64"
  unfolding keypair_laws_def by (blast elim: id_ok_keypair)

lemma id_signs:
  "sign_laws c \<Longrightarrow> id_ok c w \<Longrightarrow> cr_sk_to_pk c (id_secret w) = Some (id_public w) \<and>
    length (cr_sign c m (id_secret w)) = 64 \<and> cr_verify c (cr_sign c m (id_secret w)) m (id_public w)"
  unfolding sign_laws_def by (blast elim: id_ok_keypair)

lemma di_fromSecretKey_stored:
  "crypto_laws c \<Longrightarrow> id_ok c w \<Longrightarrow> di_fromSecretKey c (id_secret w) = Some w"
  using id_length [of c w] id_signs [of c w]
  by (cases w) (simp add: di_fromSecretKey_def kSecretKeyBytes_def crypto_laws_def)

lemma di_sign_verify:
  "crypto_laws c \<Longrightarrow> id_ok c w \<Longrightarrow> di_verify c (id_public w) m (di_sign c m w)"
  using id_signs [of c w m] by (simp add: di_verify_def di_sign_def crypto_laws_def)

lemma di_sign_length: "crypto_laws c \<Longrightarrow> id_ok c w \<Longrightarrow> length (di_sign c m w) = 64"
  using id_signs [of c w m] by (simp add: di_sign_def crypto_laws_def)

lemma id_public_length: "crypto_laws c \<Longrightarrow> id_ok c w \<Longrightarrow> length (id_public w) = 32"
  using id_length [of c w] by (simp add: crypto_laws_def)

lemma url64_not:
  "url64_char ch \<Longrightarrow> ch \<noteq> CHR ''&'' \<and> ch \<noteq> CHR 0x00 \<and> ch \<noteq> CHR ''=''"
  by (auto simp: url64_char_def Let_def)

lemma toBase64_eq: "base64_laws c \<Longrightarrow> toBase64 c b = cr_bin2base64 c b"
  using url64_not by (fastforce simp: toBase64_def base64_laws_def intro!: c_str_id)

lemma fromBase64_toBase64: "base64_laws c \<Longrightarrow> fromBase64 c (toBase64 c b) = b"
  by (simp add: toBase64_eq fromBase64_def) (simp add: base64_laws_def)

lemma toBase64_url64: "base64_laws c \<Longrightarrow> ch \<in> set (toBase64 c b) \<Longrightarrow> url64_char ch"
  by (simp add: toBase64_eq) (simp add: base64_laws_def)

lemma toBase64_inject: "base64_laws c \<Longrightarrow> toBase64 c a = toBase64 c b \<Longrightarrow> a = b"
  by (metis fromBase64_toBase64)

lemma toBase64_not_Nil: "base64_laws c \<Longrightarrow> b \<noteq> [] \<Longrightarrow> toBase64 c b \<noteq> []"
  by (simp add: toBase64_eq) (simp add: base64_laws_def)

lemma hex_bytes_url64: "ch \<in> set (hex_bytes bs) \<Longrightarrow> url64_char ch"
proof (induction bs)
  case (Cons b bs)
  have "url64_char (hex_digit k)" if "k < 16" for k
    using that by (auto simp: hex_digit_def url64_char_def Let_def of_char_of take_bit_eq_mod)
  from this [of "unat b div 16"] this [of "unat b mod 16"] unat_bound [of b] show ?case
    using Cons by (auto simp: hex_bytes_def hex_byte_def)
qed (simp add: hex_bytes_def)

lemma set_group4: "set (group4 s) \<subseteq> insert (CHR ''-'') (set s)"
proof (induction s rule: group4.induct)
  case (1 s)
  then show ?case
    by (subst group4.simps) (auto dest: in_set_takeD in_set_dropD)
qed

lemma length_group4: "length (group4 s) \<le> 2 * length s"
proof (induction s rule: group4.induct)
  case (1 s)
  then show ?case by (subst group4.simps) auto
qed

lemma fingerprint_length: "length (fingerprintFor c pub) \<le> 32"
  using length_group4 [of "toHex (take 8 (cr_hash c 32 pub (bytes_of_string ''SmartMic-fp-v1'')))"]
  by (simp add: fingerprintFor_def toHex_def)

lemma fingerprint_url64: "ch \<in> set (fingerprintFor c pub) \<Longrightarrow> url64_char ch"
  using set_group4 [of "toHex (take 8 (cr_hash c 32 pub (bytes_of_string ''SmartMic-fp-v1'')))"]
  by (auto simp: fingerprintFor_def toHex_def url64_char_def dest!: subsetD hex_bytes_url64)

section \<open>A toy instance\<close>

text \<open>
  Base 16, odd factors modulo 256 as the group with the all-zero identity beside them, and
  signatures that name key and message. Multiplication is defined exactly where the library's is:
  not on the identity, and not by a scalar that is zero or not below the order.
\<close>

fun toy_unbase :: "string \<Rightarrow> bytes option" where
  "toy_unbase [] = Some []"
| "toy_unbase [x] = None"
| "toy_unbase (x # y # s) =
     map_option ((#) (of_nat ((of_char x - 65) * 16 + (of_char y - 65)))) (toy_unbase s)"

definition toy_base :: "bytes \<Rightarrow> string" where
  "toy_base bs = concat (map (\<lambda>b. [char_of (65 + unat b div 16), char_of (65 + unat b mod 16)]) bs)"

definition pad :: "nat \<Rightarrow> bytes \<Rightarrow> bytes" where
  "pad n b = take n (b @ replicate n 0)"

definition toy_crypto :: crypto where
  "toy_crypto = \<lparr>cr_init = True, cr_bin2base64 = toy_base, cr_base642bin = toy_unbase,
     cr_hash = (\<lambda>n m k. pad n (rev m)), cr_keypair = (\<lambda>r. (pad 32 r, pad 64 (pad 32 r))),
     cr_sk_to_pk = (\<lambda>sk. Some (pad 32 sk)), cr_sign = (\<lambda>m sk. pad 32 sk @ pad 32 m),
     cr_verify = (\<lambda>sig m pk. sig = pk @ pad 32 m), cr_from_hash = (\<lambda>h. pad 32 [hd (h @ [0]) OR 1]),
     cr_scalarmult = (\<lambda>x p. if scalar_ok x \<and> odd (hd (p @ [0]))
       then Some (pad 32 [(hd (x @ [0]) OR 1) * hd (p @ [0])]) else None),
     cr_is_valid_point = (\<lambda>p. odd (hd (p @ [0])) \<or> p = replicate 32 0)\<rparr>"

lemma length_pad [simp]: "length (pad n b) = n"
  by (simp add: pad_def)

lemma pad_short: "length b \<le> n \<Longrightarrow> pad n b = b @ replicate (n - length b) 0"
  by (simp add: pad_def)

lemma toy_base_inverse: "toy_unbase (toy_base b) = Some b"
proof (induction b)
  case (Cons a b)
  have a: "unat a < 256" using unat_bound [of a] by simp
  have "(of_char (char_of (65 + unat a div 16) :: char) :: nat) = 65 + unat a div 16"
    "(of_char (char_of (65 + unat a mod 16) :: char) :: nat) = 65 + unat a mod 16"
    using a by (simp_all add: of_char_of take_bit_eq_mod)
  then show ?case using Cons by (simp add: toy_base_def)
qed (simp add: toy_base_def)

lemma toy_base_not_Nil: "b \<noteq> [] \<Longrightarrow> toy_base b \<noteq> []"
  by (cases b) (simp_all add: toy_base_def)

lemma toy_base_url64: "ch \<in> set (toy_base b) \<Longrightarrow> url64_char ch"
proof (induction b)
  case (Cons a b)
  have a: "unat a < 256" using unat_bound [of a] by simp
  have "url64_char (char_of (65 + k))" if "k < 16" for k :: nat
    using that by (simp add: url64_char_def Let_def of_char_of take_bit_eq_mod)
  from this [of "unat a div 16"] this [of "unat a mod 16"] show ?case
    using Cons a by (auto simp: toy_base_def)
qed (simp add: toy_base_def)

lemma pad_pad: "m \<le> n \<Longrightarrow> pad m (pad n b) = pad m b"
  by (auto simp: pad_def min_def take_append)

lemma toy_base64_laws: "base64_laws toy_crypto"
  by (simp add: base64_laws_def toy_crypto_def toy_base_inverse toy_base_url64 toy_base_not_Nil)

lemma toy_group_laws: "group_laws toy_crypto"
proof -
  have head: "hd (pad 32 [x] @ ys) = x" for x ys by (simp add: pad_def)
  have zero: "pad 32 [x] \<noteq> replicate 32 0" if "odd x" for x :: u8
  proof
    assume "pad 32 [x] = replicate 32 0"
    then have "x = 0" using head [of x "[]"] by simp
    with that show False by simp
  qed
  have one: "odd (x OR 1)" for x :: u8 by (simp add: even_or_iff)
  have odd: "odd (hd (p @ [0]))" if "odd (hd (p @ [0])) \<or> p = replicate 32 0" "p \<noteq> replicate 32 0" for p :: bytes
    using that by blast
  show ?thesis
    unfolding group_laws_def toy_crypto_def
    by (auto simp: head one mult.left_commute zero dest: odd split: if_splits)
qed

lemma toy_keypair_laws: "keypair_laws toy_crypto"
  by (simp add: keypair_laws_def toy_crypto_def)

lemma toy_crypto_laws: "crypto_laws toy_crypto"
  using toy_base64_laws toy_group_laws toy_keypair_laws
  by (auto simp: crypto_laws_def hash_laws_def sign_laws_def toy_crypto_def pad_pad)

lemma le_nat_replicate: "255 * le_nat (replicate n b) = unat b * (256 ^ n - 1)"
proof (induction n)
  case (Suc n)
  have "255 * le_nat (replicate (Suc n) b) = 255 * unat b + 256 * (255 * le_nat (replicate n b))" by simp
  also have "\<dots> = unat b * (255 + 256 * (256 ^ n - 1))" by (simp only: Suc) (simp add: algebra_simps)
  also have "255 + 256 * (256 ^ n - 1 :: nat) = 256 ^ Suc n - 1"
  proof -
    have "(1 :: nat) \<le> 256 ^ n" by simp
    then show ?thesis by (simp add: algebra_simps del: one_le_power)
  qed
  finally show ?case .
qed simp

lemma scalar_ok_samples: "scalar_ok (replicate 32 3)" "scalar_ok (replicate 32 5)"
  using le_nat_replicate [of 32 3] le_nat_replicate [of 32 5]
  by (simp_all add: scalar_ok_def ristretto_order_def)

end
