(* ===== verification/Pairing.thy ===== *)
theory Pairing
  imports Identity
begin

text \<open>
  Pairing (\<^verbatim>\<open>shared/security/src/pairing.cpp\<close>): the CPace exchange over ristretto255, the offer
  book that limits guesses at the code, and the pairing link. The lemmas show that two honest
  sides with the same code agree on the key and accept each other's signatures, that a
  transcript determines everything that went into it, that an offer admits at most its number
  of guesses, and that the parser reads back the link the builder writes.
\<close>

section \<open>CPace\<close>

definition kGroupElementBytes :: nat where "kGroupElementBytes = 32"
definition kSessionKeyBytes :: nat where "kSessionKeyBytes = 32"

definition kDsiGenerator :: string where "kDsiGenerator = ''SmartMic-CPace-v1-generator''"
definition kDsiTranscript :: string where "kDsiTranscript = ''SmartMic-CPace-v1-transcript''"
definition kDsiSessionKey :: string where "kDsiSessionKey = ''SmartMic-CPace-v1-sessionkey''"
definition kDsiAuth :: string where "kDsiAuth = ''SmartMic-CPace-v1-auth''"

definition appendLengthPrefixed :: "bytes \<Rightarrow> bytes \<Rightarrow> bytes" where
  "appendLengthPrefixed out data = out @ le_bytes 4 (of_nat (length data) :: u64) @ data"

definition appendStr :: "bytes \<Rightarrow> string \<Rightarrow> bytes" where
  "appendStr out s = appendLengthPrefixed out (bytes_of_string s)"

datatype pairing_role = Initiator | Responder

datatype pairing_error =
  PE_None | PE_NotReady | PE_InvalidPeerElement | PE_ScalarMultFailed | PE_BadSignature | PE_WrongState

fun pairing_error_toString :: "pairing_error \<Rightarrow> string" where
  "pairing_error_toString PE_None = ''ok''"
| "pairing_error_toString PE_NotReady = ''not ready''"
| "pairing_error_toString PE_InvalidPeerElement = ''peer sent an invalid group element''"
| "pairing_error_toString PE_ScalarMultFailed = ''scalar multiplication failed''"
| "pairing_error_toString PE_BadSignature = ''signature verification failed''"
| "pairing_error_toString PE_WrongState = ''wrong state''"

record pairing_exchange =
  px_self :: device_identity
  px_role :: pairing_role
  px_sessionId :: string
  px_selfPublic :: bytes
  px_peerPublic :: bytes
  px_generator :: bytes
  px_ourShare :: bytes
  px_peerShare :: bytes
  px_scalar :: bytes
  px_sessionKey :: bytes
  px_transcript :: bytes
  px_derived :: bool

definition px_seed :: "string \<Rightarrow> string \<Rightarrow> bytes" where
  "px_seed code sid = appendStr (appendStr (appendStr [] kDsiGenerator) code) sid"

text \<open>\<open>rand\<close> is the scalar drawn.\<close>

definition px_new ::
  "crypto \<Rightarrow> bytes \<Rightarrow> device_identity \<Rightarrow> pairing_role \<Rightarrow> string \<Rightarrow> string \<Rightarrow> pairing_exchange" where
  "px_new c rand self role sid code =
     (let g = cr_from_hash c (cr_hash c 64 (px_seed code sid) []);
          share = (case cr_scalarmult c rand g of Some y \<Rightarrow> y | None \<Rightarrow> replicate 32 0)
      in \<lparr>px_self = self, px_role = role, px_sessionId = sid, px_selfPublic = id_public self,
          px_peerPublic = replicate 32 0, px_generator = g, px_ourShare = share,
          px_peerShare = replicate 32 0, px_scalar = rand, px_sessionKey = replicate 32 0,
          px_transcript = [], px_derived = False\<rparr>)"

definition transcript_of :: "string \<Rightarrow> bytes \<Rightarrow> bytes \<Rightarrow> bytes \<Rightarrow> bytes \<Rightarrow> bytes" where
  "transcript_of sid initiatorPub responderPub initiatorY responderY =
     appendLengthPrefixed (appendLengthPrefixed (appendLengthPrefixed (appendLengthPrefixed
       (appendStr (appendLengthPrefixed (appendStr [] kDsiTranscript) (le_bytes 4 (1 :: u32))) sid)
       initiatorPub) responderPub) initiatorY) responderY"

definition buildTranscript :: "pairing_exchange \<Rightarrow> pairing_exchange" where
  "buildTranscript x =
     (let initiatorPub = (if px_role x = Initiator then px_selfPublic x else px_peerPublic x);
          responderPub = (if px_role x = Initiator then px_peerPublic x else px_selfPublic x);
          initiatorY = (if px_role x = Initiator then px_ourShare x else px_peerShare x);
          responderY = (if px_role x = Initiator then px_peerShare x else px_ourShare x)
      in x\<lparr>px_transcript := transcript_of (px_sessionId x) initiatorPub responderPub initiatorY responderY\<rparr>)"

definition onPeer :: "crypto \<Rightarrow> bytes \<Rightarrow> bytes \<Rightarrow> pairing_exchange \<Rightarrow> pairing_error \<times> pairing_exchange" where
  "onPeer c peerPublic peerShare x =
     (if px_derived x then (PE_WrongState, x)
      else if \<forall>b\<in>set peerShare. b = 0 then (PE_InvalidPeerElement, x)
      else if \<not> cr_is_valid_point c peerShare then (PE_InvalidPeerElement, x)
      else
        let x1 = x\<lparr>px_peerPublic := peerPublic, px_peerShare := peerShare\<rparr>
        in (case cr_scalarmult c (px_scalar x1) peerShare of
              None \<Rightarrow> (PE_ScalarMultFailed, x1)
            | Some shared \<Rightarrow>
                let x2 = buildTranscript x1
                in (PE_None,
                    x2\<lparr>px_sessionKey := cr_hash c kSessionKeyBytes (shared @ px_transcript x2)
                                         (bytes_of_string kDsiSessionKey),
                       px_scalar := replicate 32 0, px_derived := True\<rparr>)))"

definition authMessage :: "bytes \<Rightarrow> bytes \<Rightarrow> bytes" where
  "authMessage transcript sk =
     appendLengthPrefixed (appendLengthPrefixed (appendStr [] kDsiAuth) transcript) sk"

definition authSignature :: "crypto \<Rightarrow> pairing_exchange \<Rightarrow> bytes" where
  "authSignature c x =
     (if \<not> px_derived x then replicate 64 0
      else di_sign c (authMessage (px_transcript x) (px_sessionKey x)) (px_self x))"

definition verifyPeerAuth :: "crypto \<Rightarrow> bytes \<Rightarrow> pairing_exchange \<Rightarrow> pairing_error" where
  "verifyPeerAuth c sig x =
     (if \<not> px_derived x then PE_NotReady
      else if di_verify c (px_peerPublic x) (authMessage (px_transcript x) (px_sessionKey x)) sig
      then PE_None else PE_BadSignature)"

section \<open>Offers\<close>

record pairing_policy =
  pp_ttlSeconds :: u32
  pp_maxAttempts :: u32
  pp_singleOutstandingOffer :: bool

definition default_pairing_policy :: pairing_policy where
  "default_pairing_policy = \<lparr>pp_ttlSeconds = 300, pp_maxAttempts = 5, pp_singleOutstandingOffer = True\<rparr>"

record pairing_offer =
  po_sessionId :: string
  po_code :: string
  po_expiresAtMs :: u64
  po_qrUri :: string

definition empty_offer :: pairing_offer where
  "empty_offer = \<lparr>po_sessionId = [], po_code = [], po_expiresAtMs = 0, po_qrUri = []\<rparr>"

datatype offer_status = Offer_Valid | Offer_Expired | Offer_Throttled | Offer_Unknown | Offer_Consumed

fun offer_status_toString :: "offer_status \<Rightarrow> string" where
  "offer_status_toString Offer_Valid = ''valid''"
| "offer_status_toString Offer_Expired = ''expired''"
| "offer_status_toString Offer_Throttled = ''throttled''"
| "offer_status_toString Offer_Unknown = ''unknown session''"
| "offer_status_toString Offer_Consumed = ''already used''"

record offer_book =
  ob_policy :: pairing_policy
  ob_offer :: pairing_offer
  ob_has :: bool
  ob_consumed :: bool
  ob_attempts :: u32

definition ob_new :: "pairing_policy \<Rightarrow> offer_book" where
  "ob_new policy = \<lparr>ob_policy = policy, ob_offer = empty_offer, ob_has = False, ob_consumed = False,
     ob_attempts = 0\<rparr>"

text \<open>\<open>snprintf\<close> into 512 bytes keeps 511 characters; each \<open>%s\<close> prints up to the first NUL.\<close>

definition buildPairingUri :: "crypto \<Rightarrow> device_identity \<Rightarrow> pairing_offer \<Rightarrow> string \<Rightarrow> u16 \<Rightarrow> string" where
  "buildPairingUri c self offer host port =
     take 511 (''smartmic://pair?v=1&host='' @ c_str host @ ''&port='' @ dec (unat port) @
       ''&pcid='' @ c_str (di_deviceId c self) @ ''&fp='' @ c_str (di_fingerprint c self) @
       ''&sid='' @ c_str (po_sessionId offer) @ ''&code='' @ c_str (po_code offer) @
       ''&exp='' @ dec (unat (po_expiresAtMs offer)))"

text \<open>\<open>"%06u"\<close>\<close>

definition six_digits :: "nat \<Rightarrow> string" where
  "six_digits n = replicate (6 - length (dec n)) CHR ''0'' @ dec n"

text \<open>\<open>sidRand\<close> and \<open>codeRand\<close> are what \<open>randombytes_buf\<close> and \<open>randombytes_uniform(1000000)\<close> gave.\<close>

definition ob_issue ::
  "crypto \<Rightarrow> bytes \<Rightarrow> nat \<Rightarrow> device_identity \<Rightarrow> string \<Rightarrow> u16 \<Rightarrow> u64 \<Rightarrow> string option \<Rightarrow> string option
   \<Rightarrow> offer_book \<Rightarrow> pairing_offer \<times> offer_book" where
  "ob_issue c sidRand codeRand self host port nowMs fixedCode fixedSessionId b =
     (let sid = (case fixedSessionId of Some s \<Rightarrow> if s \<noteq> [] then s else toHex sidRand | None \<Rightarrow> toHex sidRand);
          code = (case fixedCode of Some d \<Rightarrow> if length d = 6 then d else six_digits codeRand
                                  | None \<Rightarrow> six_digits codeRand);
          o1 = \<lparr>po_sessionId = sid, po_code = code,
                po_expiresAtMs = nowMs + ucast (pp_ttlSeconds (ob_policy b)) * 1000, po_qrUri = []\<rparr>;
          o2 = o1\<lparr>po_qrUri := buildPairingUri c self o1 host port\<rparr>
      in (o2, b\<lparr>ob_offer := o2, ob_has := True, ob_consumed := False, ob_attempts := 0\<rparr>))"

definition ob_hasOutstanding :: "u64 \<Rightarrow> offer_book \<Rightarrow> bool" where
  "ob_hasOutstanding nowMs b \<longleftrightarrow> ob_has b \<and> \<not> ob_consumed b \<and> nowMs < po_expiresAtMs (ob_offer b) \<and>
     ob_attempts b < pp_maxAttempts (ob_policy b)"

definition ob_verify :: "string \<Rightarrow> string \<Rightarrow> u64 \<Rightarrow> offer_book \<Rightarrow> offer_status \<times> offer_book" where
  "ob_verify sid code nowMs b =
     (if \<not> ob_has b \<or> sid \<noteq> po_sessionId (ob_offer b) then (Offer_Unknown, b)
      else if ob_consumed b then (Offer_Consumed, b)
      else if nowMs \<ge> po_expiresAtMs (ob_offer b) then (Offer_Expired, b)
      else if ob_attempts b \<ge> pp_maxAttempts (ob_policy b) then (Offer_Throttled, b)
      else
        let b1 = b\<lparr>ob_attempts := ob_attempts b + 1\<rparr>
        in if code \<noteq> po_code (ob_offer b1)
           then (if ob_attempts b1 \<ge> pp_maxAttempts (ob_policy b1) then Offer_Throttled else Offer_Unknown, b1)
           else (Offer_Valid, b1))"

definition ob_check :: "string \<Rightarrow> u64 \<Rightarrow> offer_book \<Rightarrow> offer_status" where
  "ob_check sid nowMs b =
     (if \<not> ob_has b \<or> sid \<noteq> po_sessionId (ob_offer b) then Offer_Unknown
      else if ob_consumed b then Offer_Consumed
      else if nowMs \<ge> po_expiresAtMs (ob_offer b) then Offer_Expired
      else if ob_attempts b \<ge> pp_maxAttempts (ob_policy b) then Offer_Throttled
      else Offer_Valid)"

definition ob_noteFailedAttempt :: "string \<Rightarrow> offer_book \<Rightarrow> offer_book" where
  "ob_noteFailedAttempt sid b =
     (if ob_has b \<and> sid = po_sessionId (ob_offer b) then b\<lparr>ob_attempts := ob_attempts b + 1\<rparr> else b)"

definition ob_consume :: "string \<Rightarrow> offer_book \<Rightarrow> offer_book" where
  "ob_consume sid b =
     (if ob_has b \<and> sid = po_sessionId (ob_offer b) then b\<lparr>ob_consumed := True\<rparr> else b)"

definition ob_clear :: "offer_book \<Rightarrow> offer_book" where
  "ob_clear b = b\<lparr>ob_has := False\<rparr>"

section \<open>The pairing link\<close>

record pairing_uri =
  pu_version :: u32
  pu_host :: string
  pu_port :: u16
  pu_pcDeviceId :: string
  pu_fingerprint :: string
  pu_sessionId :: string
  pu_code :: string
  pu_expiresAtMs :: u64

definition pairing_uri_init :: pairing_uri where
  "pairing_uri_init = \<lparr>pu_version = 0, pu_host = [], pu_port = 0, pu_pcDeviceId = [],
     pu_fingerprint = [], pu_sessionId = [], pu_code = [], pu_expiresAtMs = 0\<rparr>"

text \<open>One \<open>key=value\<close>; \<open>ul\<close> is the width of \<open>unsigned long\<close> (32 on Windows, 64 elsewhere).\<close>

definition uri_field :: "nat \<Rightarrow> string \<Rightarrow> pairing_uri \<Rightarrow> pairing_uri" where
  "uri_field ul kv u =
     (case cut_at (CHR ''='') kv of
        None \<Rightarrow> u
      | Some (k, v) \<Rightarrow>
          if k = ''v'' then u\<lparr>pu_version := of_nat (strtoul ul (c_str v))\<rparr>
          else if k = ''host'' then u\<lparr>pu_host := v\<rparr>
          else if k = ''port'' then u\<lparr>pu_port := of_nat (strtoul ul (c_str v))\<rparr>
          else if k = ''pcid'' then u\<lparr>pu_pcDeviceId := v\<rparr>
          else if k = ''fp'' then u\<lparr>pu_fingerprint := v\<rparr>
          else if k = ''sid'' then u\<lparr>pu_sessionId := v\<rparr>
          else if k = ''code'' then u\<lparr>pu_code := v\<rparr>
          else if k = ''exp'' then u\<lparr>pu_expiresAtMs := of_nat (strtoul 64 (c_str v))\<rparr>
          else u)"

definition parsePairingUri :: "nat \<Rightarrow> string \<Rightarrow> pairing_uri option" where
  "parsePairingUri ul uri =
     (if take 16 uri \<noteq> ''smartmic://pair?'' then None
      else
        let out = fold (uri_field ul) (split_at (CHR ''&'') (drop 16 uri)) pairing_uri_init
        in if pu_version out \<noteq> 1 \<or> pu_host out = [] \<or> pu_port out = 0 \<or> pu_sessionId out = [] \<or>
              length (pu_code out) \<noteq> 6 \<or> pu_pcDeviceId out = []
           then None else Some out)"

section \<open>Length prefixes\<close>

definition lp :: "bytes \<Rightarrow> bytes" where
  "lp d = le_bytes 4 (of_nat (length d) :: u64) @ d"

lemma appendLengthPrefixed_lp: "appendLengthPrefixed out d = out @ lp d"
  by (simp add: appendLengthPrefixed_def lp_def)

lemma lp_inject:
  assumes "lp a @ r = lp b @ s" and "length a < 2 ^ 32" and "length b < 2 ^ 32"
  shows "a = b \<and> r = s"
proof -
  have pre: "le_bytes 4 (of_nat (length a) :: u64) = le_bytes 4 (of_nat (length b) :: u64)"
    and rest: "a @ r = b @ s"
    using assms(1) by (simp_all add: lp_def)
  have "take_bit 32 (of_nat (length a) :: u64) = take_bit 32 (of_nat (length b))"
    using arg_cong [OF pre, of "le_word :: bytes \<Rightarrow> u64"] by (simp add: le_word_le_bytes)
  moreover have "unat (take_bit 32 (of_nat n :: u64)) = n" if "n < 2 ^ 32" for n
    using that by (simp add: unsigned_take_bit_eq unsigned_of_nat take_bit_nat_eq_self)
  ultimately have "length a = length b" using assms(2,3) by metis
  with rest show ?thesis by simp
qed

lemma transcript_of_lp:
  "transcript_of sid a b y z = lp (bytes_of_string kDsiTranscript) @ lp (le_bytes 4 (1 :: u32)) @
     lp (bytes_of_string sid) @ lp a @ lp b @ lp y @ lp z @ []"
  by (simp add: transcript_of_def appendStr_def appendLengthPrefixed_lp)

lemma authMessage_lp:
  "authMessage t k = lp (bytes_of_string kDsiAuth) @ lp t @ lp k @ []"
  by (simp add: authMessage_def appendStr_def appendLengthPrefixed_lp)

lemma bytes_of_string_inject: "bytes_of_string a = bytes_of_string b \<Longrightarrow> a = b"
  by (metis string_of_bytes_of_string)

lemma transcript_of_inject:
  assumes "transcript_of sid a b y z = transcript_of sid' a' b' y' z'"
    and "\<forall>x\<in>{a, b, y, z, a', b', y', z'}. length x = 32" and "length sid < 2 ^ 32" and "length sid' < 2 ^ 32"
  shows "sid = sid' \<and> a = a' \<and> b = b' \<and> y = y' \<and> z = z'"
proof -
  have *: "lp (bytes_of_string sid) @ lp a @ lp b @ lp y @ lp z @ [] =
      lp (bytes_of_string sid') @ lp a' @ lp b' @ lp y' @ lp z' @ []"
    using assms(1) by (simp add: transcript_of_lp)
  note 1 = lp_inject [OF *]
  have s: "sid = sid'" and r1: "lp a @ lp b @ lp y @ lp z @ [] = lp a' @ lp b' @ lp y' @ lp z' @ []"
    using 1 assms(3,4) bytes_of_string_inject by simp_all
  note 2 = lp_inject [OF r1]
  then have r2: "lp b @ lp y @ lp z @ [] = lp b' @ lp y' @ lp z' @ []" using assms(2) by simp
  note 3 = lp_inject [OF r2]
  then have r3: "lp y @ lp z @ [] = lp y' @ lp z' @ []" using assms(2) by simp
  note 4 = lp_inject [OF r3]
  then have r4: "lp z @ [] = lp z' @ []" using assms(2) by simp
  show ?thesis using s 2 3 4 lp_inject [OF r4] assms(2) by simp
qed

lemma authMessage_inject:
  assumes "authMessage t k = authMessage t' k'" and "length t < 2 ^ 32" and "length t' < 2 ^ 32"
    and "length k = 32" and "length k' = 32"
  shows "t = t' \<and> k = k'"
proof -
  have r: "lp t @ lp k @ [] = lp t' @ lp k' @ []"
    using assms(1) by (simp add: authMessage_lp)
  note 1 = lp_inject [OF r]
  then have r2: "lp k @ [] = lp k' @ []" using assms(2,3) by simp
  show ?thesis using 1 lp_inject [OF r2] assms by simp
qed

lemma length_transcript_of:
  "length (transcript_of sid a b y z) = 60 + length sid + length a + length b + length y + length z"
  by (simp add: transcript_of_lp lp_def kDsiTranscript_def)

section \<open>An honest exchange\<close>

lemma crypto_group:
  assumes "crypto_laws c"
  shows "length h = 64 \<Longrightarrow> length (cr_from_hash c h) = 32 \<and> cr_is_valid_point c (cr_from_hash c h)"
    and "scalar_ok x \<Longrightarrow> length p = 32 \<Longrightarrow> cr_is_valid_point c p \<Longrightarrow> p \<noteq> replicate 32 0 \<Longrightarrow>
      \<exists>q. cr_scalarmult c x p = Some q \<and> length q = 32 \<and> cr_is_valid_point c q \<and> q \<noteq> replicate 32 0"
    and "scalar_ok x \<Longrightarrow> scalar_ok y \<Longrightarrow> length p = 32 \<Longrightarrow> cr_is_valid_point c p \<Longrightarrow>
      cr_scalarmult c x p = Some px \<Longrightarrow> cr_scalarmult c y p = Some py \<Longrightarrow>
      cr_scalarmult c x py = cr_scalarmult c y px"
    and "16 \<le> n \<Longrightarrow> n \<le> 64 \<Longrightarrow> k = [] \<or> 16 \<le> length k \<and> length k \<le> 64 \<Longrightarrow> length (cr_hash c n m k) = n"
  using assms unfolding crypto_laws_def group_laws_def hash_laws_def by blast+

lemma session_key_length:
  "crypto_laws c \<Longrightarrow> length (cr_hash c 32 m (bytes_of_string kDsiSessionKey)) = 32"
  by (rule crypto_group(4)) (simp_all add: kDsiSessionKey_def)

lemma generator_valid:
  assumes "crypto_laws c"
  shows "length (cr_from_hash c (cr_hash c 64 m [])) = 32 \<and> cr_is_valid_point c (cr_from_hash c (cr_hash c 64 m []))"
  by (rule crypto_group(1) [OF assms]) (rule crypto_group(4) [OF assms]; simp)

lemma px_new_share:
  assumes "crypto_laws c" and "scalar_ok rand"
    and "px_generator (px_new c rand self role sid code) \<noteq> replicate 32 0"
  shows "\<exists>y. cr_scalarmult c rand (px_generator (px_new c rand self role sid code)) = Some y \<and>
    px_ourShare (px_new c rand self role sid code) = y \<and> length y = 32 \<and> cr_is_valid_point c y \<and>
    (\<exists>b\<in>set y. b \<noteq> 0) \<and> y \<noteq> replicate 32 0"
proof -
  define g where "g = cr_from_hash c (cr_hash c 64 (px_seed code sid) [])"
  have "g \<noteq> replicate 32 0" using assms(3) by (simp add: px_new_def g_def Let_def)
  then obtain y where y: "cr_scalarmult c rand g = Some y" "length y = 32" "cr_is_valid_point c y"
      "y \<noteq> replicate 32 0"
    using crypto_group(2) [OF assms(1,2), of g] generator_valid [OF assms(1)] by (auto simp: g_def)
  have "\<exists>b\<in>set y. b \<noteq> 0"
  proof (rule ccontr)
    assume "\<not> ?thesis"
    then have "y = replicate 32 0" using y(2) by (intro replicate_eqI) auto
    with y(4) show False ..
  qed
  with y show ?thesis by (auto simp: px_new_def g_def [symmetric] Let_def)
qed

lemma px_new_fields [simp]:
  "px_self (px_new c rand self role sid code) = self"
  "px_role (px_new c rand self role sid code) = role"
  "px_sessionId (px_new c rand self role sid code) = sid"
  "px_selfPublic (px_new c rand self role sid code) = id_public self"
  "px_scalar (px_new c rand self role sid code) = rand"
  "px_derived (px_new c rand self role sid code) = False"
  "px_generator (px_new c rand self role sid code) = cr_from_hash c (cr_hash c 64 (px_seed code sid) [])"
  by (simp_all add: px_new_def Let_def)

text \<open>What \<open>onPeer\<close> derives from a good share.\<close>

lemma onPeer_good:
  assumes "\<not> px_derived x" and "cr_is_valid_point c share" and "\<exists>b\<in>set share. b \<noteq> 0"
    and "cr_scalarmult c (px_scalar x) share = Some k"
  shows "fst (onPeer c pub share x) = PE_None \<and> px_derived (snd (onPeer c pub share x)) \<and>
    px_self (snd (onPeer c pub share x)) = px_self x \<and>
    px_peerPublic (snd (onPeer c pub share x)) = pub \<and>
    px_transcript (snd (onPeer c pub share x)) =
      (if px_role x = Initiator
       then transcript_of (px_sessionId x) (px_selfPublic x) pub (px_ourShare x) share
       else transcript_of (px_sessionId x) pub (px_selfPublic x) share (px_ourShare x)) \<and>
    px_sessionKey (snd (onPeer c pub share x)) =
      cr_hash c 32 (k @ px_transcript (snd (onPeer c pub share x))) (bytes_of_string kDsiSessionKey)"
  using assms by (auto simp: onPeer_def Let_def buildTranscript_def kSessionKeyBytes_def)

lemma auth_verifies:
  assumes "crypto_laws c" and "id_ok c (px_self y)" and "px_derived x" and "px_derived y"
    and "px_peerPublic x = id_public (px_self y)" and "px_transcript x = px_transcript y"
    and "px_sessionKey x = px_sessionKey y"
  shows "verifyPeerAuth c (authSignature c y) x = PE_None"
  using assms di_sign_verify [OF assms(1,2)] by (simp add: verifyPeerAuth_def authSignature_def)

text \<open>
  The facts of an honest exchange, in the form the session uses them.
\<close>

lemma honest_exchange:
  fixes c :: crypto and ri rr :: bytes and idi idr :: device_identity and sid code :: string
  defines "i \<equiv> px_new c ri idi Initiator sid code" and "r \<equiv> px_new c rr idr Responder sid code"
  defines "i' \<equiv> onPeer c (id_public idr) (px_ourShare r) i"
    and "r' \<equiv> onPeer c (id_public idi) (px_ourShare i) r"
  assumes "crypto_laws c" and "id_ok c idi" and "id_ok c idr" and "scalar_ok ri" and "scalar_ok rr"
    and "px_generator i \<noteq> replicate 32 0"
  shows "fst i' = PE_None \<and> fst r' = PE_None \<and>
    px_derived (snd i') \<and> px_derived (snd r') \<and>
    px_sessionKey (snd i') = px_sessionKey (snd r') \<and> length (px_sessionKey (snd i')) = 32 \<and>
    px_transcript (snd i') = px_transcript (snd r') \<and>
    verifyPeerAuth c (authSignature c (snd r')) (snd i') = PE_None \<and>
    verifyPeerAuth c (authSignature c (snd i')) (snd r') = PE_None \<and>
    length (px_ourShare i) = 32 \<and> length (px_ourShare r) = 32"
proof -
  define g where "g = cr_from_hash c (cr_hash c 64 (px_seed code sid) [])"
  have gi: "px_generator (px_new c ri idi Initiator sid code) \<noteq> replicate 32 0"
    and gr: "px_generator (px_new c rr idr Responder sid code) \<noteq> replicate 32 0"
    using assms(10) by (simp_all add: i_def)
  have g: "length g = 32" "cr_is_valid_point c g" using generator_valid [OF assms(5)] by (simp_all add: g_def)
  obtain yi where yi: "cr_scalarmult c ri g = Some yi" "px_ourShare i = yi" "cr_is_valid_point c yi"
      "\<exists>b\<in>set yi. b \<noteq> 0" "yi \<noteq> replicate 32 0" "length yi = 32"
    using px_new_share [OF assms(5,8) gi] by (auto simp: i_def g_def)
  obtain yr where yr: "cr_scalarmult c rr g = Some yr" "px_ourShare r = yr" "cr_is_valid_point c yr"
      "\<exists>b\<in>set yr. b \<noteq> 0" "yr \<noteq> replicate 32 0" "length yr = 32"
    using px_new_share [OF assms(5,9) gr] by (auto simp: r_def g_def)
  obtain k where k: "cr_scalarmult c ri yr = Some k"
    using crypto_group(2) [OF assms(5,8) yr(6,3,5)] by blast
  have k': "cr_scalarmult c rr yi = Some k"
    using crypto_group(3) [OF assms(5,8,9) g yi(1) yr(1)] k by simp
  have i: "\<not> px_derived i" "cr_scalarmult c (px_scalar i) (px_ourShare r) = Some k"
    and r: "\<not> px_derived r" "cr_scalarmult c (px_scalar r) (px_ourShare i) = Some k"
    using k k' yi(2) yr(2) by (simp_all add: i_def r_def)
  have yi': "cr_is_valid_point c (px_ourShare i)" "\<exists>b\<in>set (px_ourShare i). b \<noteq> 0"
    and yr': "cr_is_valid_point c (px_ourShare r)" "\<exists>b\<in>set (px_ourShare r). b \<noteq> 0"
    using yi yr by simp_all
  note I = onPeer_good [OF i(1) yr' i(2), of "id_public idr", folded i'_def]
  note R = onPeer_good [OF r(1) yi' r(2), of "id_public idi", folded r'_def]
  have roles: "px_role i = Initiator" "px_role r = Responder" "px_sessionId i = px_sessionId r"
      "px_self i = idi" "px_self r = idr" "px_selfPublic i = id_public idi" "px_selfPublic r = id_public idr"
    by (simp_all add: i_def r_def)
  have t: "px_transcript (snd i') = px_transcript (snd r')" using I R roles by simp
  have sk: "px_sessionKey (snd i') = px_sessionKey (snd r')" using I R t by simp
  have len: "length (px_sessionKey (snd i')) = 32" using I session_key_length [OF assms(5)] by simp
  have vi: "verifyPeerAuth c (authSignature c (snd r')) (snd i') = PE_None"
    by (rule auth_verifies [OF assms(5)]) (use I R roles t sk assms(7) in simp_all)
  have vr: "verifyPeerAuth c (authSignature c (snd i')) (snd r') = PE_None"
    by (rule auth_verifies [OF assms(5)]) (use I R roles t sk assms(6) in simp_all)
  have sh: "length (px_ourShare i) = 32" "length (px_ourShare r) = 32" using yi(2,6) yr(2,6) by simp_all
  show ?thesis using I R t sk len vi vr sh by blast
qed

section \<open>Guesses\<close>

datatype ob_call = OC_Verify string string u64 | OC_Check string u64 | OC_NoteFailed string | OC_Consume string

fun ob_step :: "ob_call \<Rightarrow> offer_book \<Rightarrow> offer_status option \<times> offer_book" where
  "ob_step (OC_Verify sid code now) b = (case ob_verify sid code now b of (st, b') \<Rightarrow> (Some st, b'))"
| "ob_step (OC_Check sid now) b = (Some (ob_check sid now b), b)"
| "ob_step (OC_NoteFailed sid) b = (None, ob_noteFailedAttempt sid b)"
| "ob_step (OC_Consume sid) b = (None, ob_consume sid b)"

text \<open>The calls of \<open>verify\<close> that get as far as comparing the code.\<close>

fun ob_guess :: "ob_call \<Rightarrow> offer_book \<Rightarrow> bool" where
  "ob_guess (OC_Verify sid code now) b = (ob_check sid now b = Offer_Valid)"
| "ob_guess _ b = False"

fun ob_guesses :: "ob_call list \<Rightarrow> offer_book \<Rightarrow> nat" where
  "ob_guesses [] b = 0"
| "ob_guesses (c # cs) b = (if ob_guess c b then 1 else 0) + ob_guesses cs (snd (ob_step c b))"

fun ob_all :: "ob_call list \<Rightarrow> offer_book \<Rightarrow> offer_book" where
  "ob_all [] b = b"
| "ob_all (c # cs) b = ob_all cs (snd (ob_step c b))"

lemma ob_step_keeps:
  "ob_policy (snd (ob_step c b)) = ob_policy b" "ob_offer (snd (ob_step c b)) = ob_offer b"
  "ob_has (snd (ob_step c b)) = ob_has b" "ob_consumed b \<Longrightarrow> ob_consumed (snd (ob_step c b))"
  by (cases c; simp add: ob_verify_def ob_noteFailedAttempt_def ob_consume_def Let_def)+

lemma ob_all_keeps:
  "ob_policy (ob_all cs b) = ob_policy b \<and> ob_offer (ob_all cs b) = ob_offer b \<and>
   ob_has (ob_all cs b) = ob_has b \<and> (ob_consumed b \<longrightarrow> ob_consumed (ob_all cs b))"
  by (induction cs arbitrary: b) (simp_all add: ob_step_keeps)

lemma ob_attempts_step:
  "ob_attempts (snd (ob_step c b)) = ob_attempts b \<and> \<not> ob_guess c b \<or>
   ob_attempts (snd (ob_step c b)) = ob_attempts b + 1 \<and>
   (ob_guess c b \<longrightarrow> ob_attempts b < pp_maxAttempts (ob_policy b))"
  by (cases c) (auto simp: ob_verify_def ob_check_def ob_noteFailedAttempt_def ob_consume_def Let_def not_le
      split: if_splits)

lemma ob_guesses_bound:
  "unat (ob_attempts b) + length cs < 2 ^ 32 \<Longrightarrow>
   ob_guesses cs b \<le> unat (pp_maxAttempts (ob_policy b)) - unat (ob_attempts b)"
proof (induction cs arbitrary: b)
  case (Cons c cs)
  define b' where "b' = snd (ob_step c b)"
  have pol: "ob_policy b' = ob_policy b" by (simp add: b'_def ob_step_keeps)
  have inc: "unat (ob_attempts b + 1) = unat (ob_attempts b) + 1"
    using unat_add_no_wrap [of "ob_attempts b" 1] Cons.prems by simp
  from ob_attempts_step [of c b] consider
      (same) "ob_attempts b' = ob_attempts b" "\<not> ob_guess c b"
    | (more) "ob_attempts b' = ob_attempts b + 1" "ob_guess c b \<longrightarrow> ob_attempts b < pp_maxAttempts (ob_policy b)"
    by (auto simp: b'_def)
  then show ?case
  proof cases
    case same
    then show ?thesis using Cons.IH [of b'] Cons.prems pol by (simp add: b'_def [symmetric])
  next
    case more
    have "ob_guesses cs b' \<le> unat (pp_maxAttempts (ob_policy b)) - (unat (ob_attempts b) + 1)"
      using Cons.IH [of b'] Cons.prems pol more inc by simp
    moreover have "ob_guess c b \<Longrightarrow> unat (ob_attempts b) < unat (pp_maxAttempts (ob_policy b))"
      using more(2) by (simp add: word_less_nat_alt)
    ultimately show ?thesis by (auto simp: b'_def [symmetric])
  qed
qed simp

section \<open>The link\<close>

definition uri_safe :: "string \<Rightarrow> bool" where
  "uri_safe s \<longleftrightarrow> CHR ''&'' \<notin> set s \<and> CHR 0x00 \<notin> set s"

lemma uri_safe_url64: "\<forall>ch\<in>set s. url64_char ch \<Longrightarrow> uri_safe s"
  using url64_not by (fastforce simp: uri_safe_def)

lemma uri_safe_dec: "uri_safe (dec n)"
  using dec_digits [of _ n] is_digit_not by (fastforce simp: uri_safe_def)

lemma c_str_safe: "uri_safe s \<Longrightarrow> c_str s = s"
  by (simp add: uri_safe_def c_str_id)

lemma uri_field_kv:
  "CHR ''='' \<notin> set k \<Longrightarrow> uri_field ul (k @ CHR ''='' # v) u =
     (if k = ''v'' then u\<lparr>pu_version := of_nat (strtoul ul (c_str v))\<rparr>
      else if k = ''host'' then u\<lparr>pu_host := v\<rparr>
      else if k = ''port'' then u\<lparr>pu_port := of_nat (strtoul ul (c_str v))\<rparr>
      else if k = ''pcid'' then u\<lparr>pu_pcDeviceId := v\<rparr>
      else if k = ''fp'' then u\<lparr>pu_fingerprint := v\<rparr>
      else if k = ''sid'' then u\<lparr>pu_sessionId := v\<rparr>
      else if k = ''code'' then u\<lparr>pu_code := v\<rparr>
      else if k = ''exp'' then u\<lparr>pu_expiresAtMs := of_nat (strtoul 64 (c_str v))\<rparr>
      else u)"
  by (simp add: uri_field_def cut_at_hit)

definition uri_fields :: "string \<Rightarrow> string \<Rightarrow> string \<Rightarrow> string \<Rightarrow> string \<Rightarrow> string \<Rightarrow> string \<Rightarrow> string list" where
  "uri_fields host port pcid fp sid code expiry =
     [''host'' @ CHR ''='' # host, ''port'' @ CHR ''='' # port, ''pcid'' @ CHR ''='' # pcid,
      ''fp'' @ CHR ''='' # fp, ''sid'' @ CHR ''='' # sid, ''code'' @ CHR ''='' # code,
      ''exp'' @ CHR ''='' # expiry]"

lemma split_uri:
  assumes "uri_safe host" "uri_safe port" "uri_safe pcid" "uri_safe fp" "uri_safe sid" "uri_safe code"
    "uri_safe expiry"
  shows "split_at (CHR ''&'') (''v=1'' @ concat (map ((#) (CHR ''&'')) (uri_fields host port pcid fp sid code expiry)))
    = ''v=1'' # uri_fields host port pcid fp sid code expiry"
  by (rule split_at_join) (use assms in \<open>auto simp: uri_fields_def uri_safe_def\<close>)

lemma strtoul_port: "32 \<le> ul \<Longrightarrow> strtoul ul (dec (unat (p :: u16))) = unat p"
proof (rule strtoul_dec)
  assume "32 \<le> ul"
  then have "(2::nat) ^ 16 \<le> 2 ^ ul" by (intro power_increasing) simp_all
  then show "unat p < 2 ^ ul" using unat_bound [of p] by simp
qed

lemma fold_uri_fields:
  assumes "32 \<le> ul"
  shows "fold (uri_field ul) (uri_fields host (dec (unat (port :: u16))) pcid fp sid code (dec (unat (ex :: u64)))) u =
    u\<lparr>pu_host := host, pu_port := port, pu_pcDeviceId := pcid, pu_fingerprint := fp,
      pu_sessionId := sid, pu_code := code, pu_expiresAtMs := ex\<rparr>"
proof -
  have "strtoul 64 (dec (unat ex)) = unat ex" using unat_bound [of ex] by (intro strtoul_dec) simp
  then show ?thesis
    unfolding uri_fields_def
    by (simp add: uri_field_kv strtoul_port [OF assms] c_str_safe uri_safe_dec del: append.simps)
qed

lemma uri_field_version: "32 \<le> ul \<Longrightarrow> uri_field ul ''v=1'' u = u\<lparr>pu_version := 1\<rparr>"
proof -
  assume ul: "32 \<le> ul"
  have "dec 1 = ''1''" by (subst dec.simps) (simp add: digit_char_def char_of_eq_iff)
  moreover have "(1::nat) < 2 ^ ul" using ul by (intro one_less_power) simp_all
  ultimately have "strtoul ul ''1'' = 1" using strtoul_dec [of 1 ul] by simp
  moreover have "c_str ''1'' = ''1''" by (simp add: c_str_def)
  ultimately show ?thesis using uri_field_kv [of "''v''" ul "''1''" u] by simp
qed

text \<open>The toy group's generators are odd.\<close>

lemma toy_generator: "px_generator (px_new toy_crypto rand self role sid code) \<noteq> replicate 32 0"
proof
  assume z: "px_generator (px_new toy_crypto rand self role sid code) = replicate 32 0"
  obtain x :: u8 where "px_generator (px_new toy_crypto rand self role sid code) = pad 32 [x OR 1]"
    by (simp add: toy_crypto_def)
  with z have "pad 32 [x OR 1] = replicate 32 0" by simp
  then have "hd (pad 32 [x OR 1]) = 0" by simp
  then have "x OR 1 = 0" by (simp add: pad_def)
  moreover have "odd (x OR 1)" by (simp add: even_or_iff)
  ultimately show False by simp
qed

section \<open>Properties\<close>

text \<open>
  C21: honest pairing succeeds. Two sides that hold the same code and session id, one as
  initiator and one as responder, that drew nonzero scalars below the order of the group, and that
  receive each other's public key and share, both derive, arrive at the same transcript and the same
  32-byte session key, and each accepts the signature the other makes; a second share is refused
  with nothing changed. The hypothesis on the
  generator excludes the one hash value libsodium maps to the identity, where both sides fail.
\<close>

theorem pairing_agreement:
  fixes c :: crypto and ri rr :: bytes and idi idr :: device_identity and sid code :: string
  defines "i \<equiv> px_new c ri idi Initiator sid code" and "r \<equiv> px_new c rr idr Responder sid code"
  defines "i' \<equiv> onPeer c (px_selfPublic r) (px_ourShare r) i"
    and "r' \<equiv> onPeer c (px_selfPublic i) (px_ourShare i) r"
  assumes "crypto_laws c" and "id_ok c idi" and "id_ok c idr" and "scalar_ok ri" and "scalar_ok rr"
    and "px_generator i \<noteq> replicate 32 0"
  shows "fst i' = PE_None \<and> fst r' = PE_None \<and>
    px_sessionKey (snd i') = px_sessionKey (snd r') \<and> length (px_sessionKey (snd i')) = 32 \<and>
    px_transcript (snd i') = px_transcript (snd r') \<and>
    verifyPeerAuth c (authSignature c (snd r')) (snd i') = PE_None \<and>
    verifyPeerAuth c (authSignature c (snd i')) (snd r') = PE_None \<and>
    onPeer c pub share (snd i') = (PE_WrongState, snd i')"
proof -
  have eq: "i' = onPeer c (id_public idr) (px_ourShare (px_new c rr idr Responder sid code)) (px_new c ri idi Initiator sid code)"
      "r' = onPeer c (id_public idi) (px_ourShare (px_new c ri idi Initiator sid code)) (px_new c rr idr Responder sid code)"
    by (simp_all add: i'_def r'_def i_def r_def)
  note honest = honest_exchange [OF assms(5-9) assms(10) [unfolded i_def], folded eq]
  have "onPeer c pub share (snd i') = (PE_WrongState, snd i')"
    using honest by (simp add: onPeer_def)
  with honest show ?thesis by blast
qed

theorem pairing_agreement_witness:
  "fst (onPeer toy_crypto (replicate 32 9) (px_ourShare (px_new toy_crypto (replicate 32 5)
      (di_generate toy_crypto (replicate 32 9)) Responder ''s'' ''123456''))
    (px_new toy_crypto (replicate 32 3) (di_generate toy_crypto (replicate 32 8)) Initiator ''s'' ''123456'')) = PE_None"
proof -
  have "id_public (di_generate toy_crypto (replicate 32 9)) = replicate 32 9"
    by (simp add: di_generate_def toy_crypto_def pad_short)
  then show ?thesis
    using pairing_agreement [OF toy_crypto_laws id_ok_generate [of "replicate 32 8"]
        id_ok_generate [of "replicate 32 9"] scalar_ok_samples, of "''s''" "''123456''"] toy_generator
    by simp
qed

text \<open>
  C22: a signed message determines the whole exchange. Two authentication messages over
  transcripts of 32-byte keys and shares are the same bytes only if the session ids, both
  public keys, both shares, each in its role, and the session keys are the same, because every
  field carries its length; so a signature cannot be moved to another exchange or reflected
  to the side that made it unless both sides have the same key and share.
\<close>

theorem pairing_transcript_binding:
  assumes "\<forall>x\<in>{a, b, y, z, a', b', y', z', k, k'}. length x = 32"
    and "length sid < 2 ^ 31" and "length sid' < 2 ^ 31"
  shows "authMessage (transcript_of sid a b y z) k = authMessage (transcript_of sid' a' b' y' z') k' \<longleftrightarrow>
    sid = sid' \<and> a = a' \<and> b = b' \<and> y = y' \<and> z = z' \<and> k = k'"
proof
  assume eq: "authMessage (transcript_of sid a b y z) k = authMessage (transcript_of sid' a' b' y' z') k'"
  have "length (transcript_of sid a b y z) < 2 ^ 32" "length (transcript_of sid' a' b' y' z') < 2 ^ 32"
    using assms by (simp_all add: length_transcript_of)
  then have t: "transcript_of sid a b y z = transcript_of sid' a' b' y' z' \<and> k = k'"
    using authMessage_inject [OF eq] assms(1) by simp
  then show "sid = sid' \<and> a = a' \<and> b = b' \<and> y = y' \<and> z = z' \<and> k = k'"
    using transcript_of_inject [of sid a b y z sid' a' b' y' z'] assms by simp
qed simp

theorem pairing_transcript_binding_witness:
  "authMessage (transcript_of ''s'' (replicate 32 1) (replicate 32 2) (replicate 32 3) (replicate 32 4)) (replicate 32 5) \<noteq>
   authMessage (transcript_of ''s'' (replicate 32 2) (replicate 32 1) (replicate 32 3) (replicate 32 4)) (replicate 32 5)"
  by (subst pairing_transcript_binding) (simp_all add: replicate_eq_replicate)

text \<open>
  C23: an offer admits at most \<open>maxAttempts\<close> guesses. Over any history of calls on an offer just
  issued, with any clock readings, the calls that get as far as comparing the code number at
  most \<open>maxAttempts\<close>; and at every later moment an attempt is valid only for the offer's own
  session id and code, before its expiry, and never again once it was consumed.
\<close>

theorem offer_guesses_bounded:
  fixes c :: crypto and b0 :: offer_book and cs :: "ob_call list" and sidRand codeRand self host port t0 fc fs
  defines "b \<equiv> snd (ob_issue c sidRand codeRand self host port t0 fc fs b0)"
  assumes "length cs < 2 ^ 32"
  shows "ob_guesses cs b \<le> unat (pp_maxAttempts (ob_policy b)) \<and>
    (fst (ob_verify sid code now (ob_all cs b)) = Offer_Valid \<longrightarrow>
       sid = po_sessionId (ob_offer b) \<and> code = po_code (ob_offer b) \<and> now < po_expiresAtMs (ob_offer b) \<and>
       OC_Consume sid \<notin> set cs)"
proof -
  have start: "ob_attempts b = 0" "ob_has b" by (simp_all add: b_def ob_issue_def Let_def)
  have used: "ob_consumed (ob_all cs b)" if consumed: "OC_Consume (po_sessionId (ob_offer b)) \<in> set cs"
  proof -
    obtain xs ys where cs: "cs = xs @ OC_Consume (po_sessionId (ob_offer b)) # ys"
      using split_list [OF consumed] by blast
    have app: "ob_all (xs @ ys) d = ob_all ys (ob_all xs d)" for xs ys d
      by (induction xs arbitrary: d) simp_all
    show ?thesis
      using ob_all_keeps [of xs b] ob_all_keeps [of ys "ob_consume (po_sessionId (ob_offer b)) (ob_all xs b)"] start
      by (simp add: cs app ob_consume_def)
  qed
  have "ob_guesses cs b \<le> unat (pp_maxAttempts (ob_policy b))"
    using ob_guesses_bound [of b cs] start assms(2) by simp
  then show ?thesis
    using used ob_all_keeps [of cs b] by (auto simp: ob_verify_def Let_def not_le split: if_splits)
qed

theorem offer_guesses_bounded_witness:
  "ob_guesses [OC_Verify ''s'' ''000000'' 0, OC_Verify ''s'' ''000001'' 0, OC_NoteFailed ''s'', OC_Verify ''t'' ''2'' 0,
      OC_Verify ''s'' ''3'' 0, OC_Verify ''s'' ''4'' 0, OC_Verify ''s'' ''5'' 0]
    (snd (ob_issue toy_crypto [] 7 (di_generate toy_crypto []) ''h'' 1 0 None (Some ''s'') (ob_new default_pairing_policy))) \<le> 5"
  using offer_guesses_bounded [of "[OC_Verify ''s'' ''000000'' 0, OC_Verify ''s'' ''000001'' 0, OC_NoteFailed ''s'',
        OC_Verify ''t'' ''2'' 0, OC_Verify ''s'' ''3'' 0, OC_Verify ''s'' ''4'' 0, OC_Verify ''s'' ''5'' 0]"
      toy_crypto "[]" 7 "di_generate toy_crypto []" "''h''" 1 0 None "Some ''s''" "ob_new default_pairing_policy"]
  by (simp add: ob_issue_def Let_def ob_new_def default_pairing_policy_def)

text \<open>
  C24: the pairing link round-trips. The link built for an identity, an offer with a session id
  and a six-character code and a reachable address is parsed back to exactly these fields, on
  32-bit and 64-bit \<open>unsigned long\<close>, as long as none of the texts contains an ampersand or NUL
  and the link fits the builder's buffer.
\<close>

theorem pairing_link_roundtrip:
  assumes "base64_laws c" and "keypair_laws c" and "id_ok c self" and "32 \<le> ul"
    and "host \<noteq> []" and "uri_safe host" and "port \<noteq> 0"
    and "po_sessionId offer \<noteq> []" and "uri_safe (po_sessionId offer)"
    and "length (po_code offer) = 6" and "uri_safe (po_code offer)"
    and "length (buildPairingUri c self offer host port) < 511"
  shows "parsePairingUri ul (buildPairingUri c self offer host port) =
    Some \<lparr>pu_version = 1, pu_host = host, pu_port = port, pu_pcDeviceId = di_deviceId c self,
          pu_fingerprint = di_fingerprint c self, pu_sessionId = po_sessionId offer,
          pu_code = po_code offer, pu_expiresAtMs = po_expiresAtMs offer\<rparr>"
proof -
  have ne: "id_public self \<noteq> []" using id_length [OF assms(2,3)] by auto
  have i: "uri_safe (di_deviceId c self)" "di_deviceId c self \<noteq> []"
    using toBase64_url64 [OF assms(1)] toBase64_not_Nil [OF assms(1) ne]
    by (auto simp: di_deviceId_def deviceIdFor_def intro!: uri_safe_url64)
  have f: "uri_safe (di_fingerprint c self)"
    using fingerprint_url64 by (auto simp: di_fingerprint_def intro!: uri_safe_url64)
  define rest where "rest = ''v=1'' @ concat (map ((#) (CHR ''&''))
    (uri_fields host (dec (unat port)) (di_deviceId c self) (di_fingerprint c self) (po_sessionId offer)
       (po_code offer) (dec (unat (po_expiresAtMs offer)))))"
  have "buildPairingUri c self offer host port = take 511 (''smartmic://pair?'' @ rest)"
    by (simp add: buildPairingUri_def rest_def uri_fields_def c_str_safe i f assms)
  moreover from this assms(12) have "take 511 (''smartmic://pair?'' @ rest) = ''smartmic://pair?'' @ rest"
    by (intro take_all) (simp add: min_def split: if_splits)
  ultimately have uri: "buildPairingUri c self offer host port = ''smartmic://pair?'' @ rest" by simp
  have fields: "fold (uri_field ul) (split_at (CHR ''&'') rest) pairing_uri_init =
    \<lparr>pu_version = 1, pu_host = host, pu_port = port, pu_pcDeviceId = di_deviceId c self,
          pu_fingerprint = di_fingerprint c self, pu_sessionId = po_sessionId offer,
          pu_code = po_code offer, pu_expiresAtMs = po_expiresAtMs offer\<rparr>"
    unfolding rest_def split_uri [OF assms(6) uri_safe_dec i(1) f assms(9,11) uri_safe_dec] fold_simps
      uri_field_version [OF assms(4)] fold_uri_fields [OF assms(4)]
    by (simp add: pairing_uri_init_def)
  have "take 16 (''smartmic://pair?'' @ rest) = ''smartmic://pair?''" "drop 16 (''smartmic://pair?'' @ rest) = rest"
    by simp_all
  then show ?thesis
    unfolding uri parsePairingUri_def Let_def using fields assms i by simp
qed

theorem pairing_link_roundtrip_witness:
  "map_option pu_host (parsePairingUri 32 (buildPairingUri toy_crypto (di_generate toy_crypto (replicate 32 7))
     \<lparr>po_sessionId = ''ab'', po_code = ''012345'', po_expiresAtMs = 99, po_qrUri = []\<rparr> ''10.0.0.2'' 47701)) =
   Some ''10.0.0.2''"
proof -
  let ?self = "di_generate toy_crypto (replicate 32 7)"
  let ?o = "\<lparr>po_sessionId = ''ab'', po_code = ''012345'', po_expiresAtMs = 99, po_qrUri = []\<rparr>"
  have AH: "char_of (65 :: nat) = CHR ''A''" "char_of (72 :: nat) = CHR ''H''"
    by (simp_all add: char_of_eq_iff)
  have i: "di_deviceId toy_crypto ?self = concat (replicate 32 ''AH'')"
    by (simp add: di_deviceId_def deviceIdFor_def toBase64_eq [OF toy_base64_laws])
       (simp add: di_generate_def toy_crypto_def pad_short toy_base_def AH)
  have f: "length (di_fingerprint toy_crypto ?self) \<le> 32"
    using fingerprint_length by (simp add: di_fingerprint_def)
  have d: "dec 47701 = ''47701''" "dec 99 = ''99''"
    by (simp_all add: dec.simps digit_char_def char_of_eq_iff)
  have s: "length (c_str x) \<le> length x" for x by (simp add: c_str_def length_takeWhile_le)
  have "length (c_str (di_deviceId toy_crypto ?self)) \<le> 64"
    using s [of "di_deviceId toy_crypto ?self"] by (simp add: i length_concat sum_list_replicate)
  moreover have "length (c_str (di_fingerprint toy_crypto ?self)) \<le> 32"
    using s [of "di_fingerprint toy_crypto ?self"] f by linarith
  moreover have "c_str ''10.0.0.2'' = ''10.0.0.2''" "c_str ''ab'' = ''ab''" "c_str ''012345'' = ''012345''"
    by (simp_all add: c_str_def)
  ultimately have "length (buildPairingUri toy_crypto ?self ?o ''10.0.0.2'' 47701) < 511"
    unfolding buildPairingUri_def length_take by (simp add: d min_def)
  then show ?thesis
    by (subst pairing_link_roundtrip [OF toy_base64_laws toy_keypair_laws id_ok_generate])
       (simp_all add: uri_safe_def)
qed

end
