(* ===== verification/PeerSession.thy ===== *)
theory PeerSession
  imports SecureChannel Pairing
begin

text \<open>
  The session of \<^verbatim>\<open>shared/session/src/peer_session.cpp\<close>: the datagram multiplexer, the pairing
  handshake and the sealed control and media paths. A handler is a function on \<open>session_run\<close>,
  the session with what it has sent and called back so far, and whether an exception has left
  the handler. The callbacks come last in every handler that makes them, so that what they do
  follows the handler. The lemmas show that the handshake delivers nothing to the callbacks and
  that a session becomes authenticated only by a verified signature or an adopted key; theory
  Handshake runs two sessions against each other.
\<close>

section \<open>Types\<close>

datatype session_state = Ses_Idle | Ses_Pairing | Ses_Authenticated | Ses_Failed | Ses_Revoked

fun session_state_toString :: "session_state \<Rightarrow> string" where
  "session_state_toString Ses_Idle = ''Idle''"
| "session_state_toString Ses_Pairing = ''Pairing''"
| "session_state_toString Ses_Authenticated = ''Authenticated''"
| "session_state_toString Ses_Failed = ''Failed''"
| "session_state_toString Ses_Revoked = ''Revoked''"

definition tag_Pairing :: u8 where "tag_Pairing = 0"
definition tag_Control :: u8 where "tag_Control = 1"
definition tag_Media :: u8 where "tag_Media = 2"

text \<open>Which of the three callbacks are set.\<close>

record session_callbacks =
  scb_onControl :: bool
  scb_onMedia :: bool
  scb_onStateChanged :: bool

record peer_session =
  ps_self :: device_identity
  ps_role :: pairing_role
  ps_cb :: session_callbacks
  ps_exchange :: "pairing_exchange option"
  ps_book :: "offer_book option"
  ps_pairingSessionId :: string
  ps_pairingHello :: string
  ps_pendingCode :: string
  ps_peerPublic :: bytes
  ps_havePeerPublic :: bool
  ps_channel :: secure_channel
  ps_sessionKey :: bytes
  ps_state :: session_state
  ps_seq :: u64
  ps_rejected :: u64
  ps_pairingFailures :: u64
  ps_controlReplay :: replay_window

definition kControlReplayWidth :: nat where "kControlReplayWidth = 512"

text \<open>What a session does to its surroundings: a datagram to the transport, or a callback.\<close>

datatype session_out = SO_Send bytes | SO_Control message | SO_Media bytes | SO_State session_state

record session_run =
  sr_out :: "session_out list"
  sr_s :: peer_session
  sr_threw :: bool

definition ps_new :: "device_identity \<Rightarrow> pairing_role \<Rightarrow> peer_session" where
  "ps_new self role = \<lparr>ps_self = self, ps_role = role,
     ps_cb = \<lparr>scb_onControl = False, scb_onMedia = False, scb_onStateChanged = False\<rparr>,
     ps_exchange = None, ps_book = None, ps_pairingSessionId = [], ps_pairingHello = [],
     ps_pendingCode = [], ps_peerPublic = replicate 32 0, ps_havePeerPublic = False,
     ps_channel = sc_new, ps_sessionKey = replicate 32 0, ps_state = Ses_Idle, ps_seq = 0,
     ps_rejected = 0, ps_pairingFailures = 0, ps_controlReplay = rw_init kControlReplayWidth\<rparr>"

definition ps_setCallbacks :: "session_callbacks \<Rightarrow> peer_session \<Rightarrow> peer_session" where
  "ps_setCallbacks cb s = s\<lparr>ps_cb := cb\<rparr>"

definition sr_start :: "peer_session \<Rightarrow> session_run" where
  "sr_start s = \<lparr>sr_out = [], sr_s = s, sr_threw = False\<rparr>"

text \<open>The rest of a handler runs unless an exception was thrown.\<close>

definition sr_then :: "session_run \<Rightarrow> (session_run \<Rightarrow> session_run) \<Rightarrow> session_run" where
  "sr_then r f = (if sr_threw r then r else f r)"

definition sr_upd :: "(peer_session \<Rightarrow> peer_session) \<Rightarrow> session_run \<Rightarrow> session_run" where
  "sr_upd f r = r\<lparr>sr_s := f (sr_s r)\<rparr>"

definition sr_emit :: "session_out \<Rightarrow> session_run \<Rightarrow> session_run" where
  "sr_emit e r = r\<lparr>sr_out := sr_out r @ [e]\<rparr>"

definition ps_reject :: "session_run \<Rightarrow> session_run" where
  "ps_reject r = sr_upd (\<lambda>s. s\<lparr>ps_rejected := ps_rejected s + 1\<rparr>) r"

definition ps_setState :: "session_state \<Rightarrow> session_run \<Rightarrow> session_run" where
  "ps_setState st r =
     (if ps_state (sr_s r) = st then r
      else let r1 = sr_upd (\<lambda>s. s\<lparr>ps_state := st\<rparr>) r
           in if scb_onStateChanged (ps_cb (sr_s r1)) then sr_emit (SO_State st) r1 else r1)"

definition sendTagged :: "u8 \<Rightarrow> bytes \<Rightarrow> session_run \<Rightarrow> session_run" where
  "sendTagged tag data r = sr_emit (SO_Send (tag # data)) r"

definition sendPairingJson :: "json_text \<Rightarrow> json \<Rightarrow> session_run \<Rightarrow> session_run" where
  "sendPairingJson t j r =
     (case jt_dump t j of
        None \<Rightarrow> r\<lparr>sr_threw := True\<rparr>
      | Some s \<Rightarrow> sendTagged tag_Pairing (bytes_of_string s) r)"

text \<open>\<open>fromB64\<close>: the member must be a string that decodes to \<open>n\<close> bytes.\<close>

definition fromB64 :: "crypto \<Rightarrow> nat \<Rightarrow> json \<Rightarrow> string \<Rightarrow> bytes option" where
  "fromB64 c n j key =
     (case jfind j key of
        Some (JString s) \<Rightarrow> (let b = fromBase64 c s in if length b \<noteq> n then None else Some b)
      | _ \<Rightarrow> None)"

section \<open>Starting and finishing\<close>

definition armPairing :: "string \<Rightarrow> string \<Rightarrow> offer_book option \<Rightarrow> peer_session \<Rightarrow> session_run" where
  "armPairing sid code book s =
     ps_setState Ses_Pairing (sr_start (s\<lparr>ps_pairingSessionId := sid, ps_pendingCode := code,
       ps_book := book, ps_exchange := None\<rparr>))"

definition pair1_json :: "crypto \<Rightarrow> string \<Rightarrow> bytes \<Rightarrow> bytes \<Rightarrow> json" where
  "pair1_json c sid pub share =
     json_obj [(''t'', JString ''PAIR1''), (''sid'', JString sid), (''pub'', JString (toBase64 c pub)),
               (''share'', JString (toBase64 c share))]"

definition pair2_json :: "crypto \<Rightarrow> bytes \<Rightarrow> bytes \<Rightarrow> json" where
  "pair2_json c pub share =
     json_obj [(''t'', JString ''PAIR2''), (''pub'', JString (toBase64 c pub)),
               (''share'', JString (toBase64 c share))]"

definition sig_json :: "crypto \<Rightarrow> string \<Rightarrow> bytes \<Rightarrow> json" where
  "sig_json c t sig = json_obj [(''t'', JString t), (''sig'', JString (toBase64 c sig))]"

definition pairerr_json :: "string \<Rightarrow> json" where
  "pairerr_json reason = json_obj [(''t'', JString ''PAIRERR''), (''reason'', JString reason)]"

text \<open>The result of \<open>send\<close> is the transport's; the hello is kept even when it fails.\<close>

definition beginPairing ::
  "crypto \<Rightarrow> json_text \<Rightarrow> bytes \<Rightarrow> string \<Rightarrow> string \<Rightarrow> peer_session \<Rightarrow> session_run" where
  "beginPairing c t rand sid code s =
     (let x = px_new c rand (ps_self s) (ps_role s) sid code;
          r = ps_setState Ses_Pairing (sr_start (s\<lparr>ps_pairingSessionId := sid, ps_exchange := Some x\<rparr>))
      in (case jt_dump t (pair1_json c sid (id_public (ps_self s)) (px_ourShare x)) of
            None \<Rightarrow> r\<lparr>sr_threw := True\<rparr>
          | Some h \<Rightarrow> sendTagged tag_Pairing (bytes_of_string h) (sr_upd (\<lambda>s. s\<lparr>ps_pairingHello := h\<rparr>) r)))"

definition resendPairingHello :: "peer_session \<Rightarrow> bool \<times> session_run" where
  "resendPairingHello s =
     (if ps_state s \<noteq> Ses_Pairing \<or> ps_pairingHello s = [] then (False, sr_start s)
      else (True, sendTagged tag_Pairing (bytes_of_string (ps_pairingHello s)) (sr_start s)))"

definition ps_direction :: "pairing_role \<Rightarrow> direction" where
  "ps_direction role = (if role = Initiator then Dir_PhoneToPc else Dir_PcToPhone)"

definition adoptSessionKey :: "sodium \<Rightarrow> bytes \<Rightarrow> peer_session \<Rightarrow> session_run" where
  "adoptSessionKey so key s =
     ps_setState Ses_Authenticated (sr_start (s\<lparr>ps_sessionKey := key,
       ps_channel := snd (sc_init so key (ps_direction (ps_role s)) (ps_channel s))\<rparr>))"

definition establish :: "sodium \<Rightarrow> pairing_exchange \<Rightarrow> session_run \<Rightarrow> session_run" where
  "establish so x r =
     ps_setState Ses_Authenticated (sr_upd (\<lambda>s.
       s\<lparr>ps_sessionKey := px_sessionKey x,
         ps_channel := snd (sc_init so (px_sessionKey x) (ps_direction (ps_role s)) (ps_channel s)),
         ps_controlReplay := rw_reset kControlReplayWidth (ps_controlReplay s),
         ps_book := map_option (ob_consume (ps_pairingSessionId s)) (ps_book s),
         ps_pendingCode := []\<rparr>) r)"

section \<open>The handshake\<close>

definition ps_pairingFailed :: "session_run \<Rightarrow> session_run" where
  "ps_pairingFailed r = sr_upd (\<lambda>s. s\<lparr>ps_pairingFailures := ps_pairingFailures s + 1\<rparr>) r"

definition ps_noteFailed :: "session_run \<Rightarrow> session_run" where
  "ps_noteFailed r =
     sr_upd (\<lambda>s. s\<lparr>ps_book := map_option (ob_noteFailedAttempt (ps_pairingSessionId s)) (ps_book s)\<rparr>) r"

text \<open>\<open>rand\<close> is the scalar a new exchange draws, \<open>now\<close> the clock.\<close>

definition onPair1 :: "crypto \<Rightarrow> json_text \<Rightarrow> bytes \<Rightarrow> u64 \<Rightarrow> json \<Rightarrow> session_run \<Rightarrow> session_run" where
  "onPair1 c t rand now j r =
     (let s = sr_s r in
      case value_string j ''sid'' '''' of
        Inl e \<Rightarrow> r\<lparr>sr_threw := True\<rparr>
      | Inr sid \<Rightarrow>
          if sid \<noteq> ps_pairingSessionId s then ps_reject r
          else
            let status = (case ps_book s of None \<Rightarrow> Offer_Valid | Some b \<Rightarrow> ob_check sid now b)
            in if status \<noteq> Offer_Valid then
                 sr_then (sendPairingJson t (pairerr_json (offer_status_toString status)) r)
                   (ps_setState Ses_Failed)
               else
                 (case (fromB64 c 32 j ''pub'', fromB64 c 32 j ''share'') of
                    (Some pub, Some share) \<Rightarrow>
                      (case (if ps_havePeerPublic s \<and> ps_peerPublic s = pub then ps_exchange s else None) of
                         Some x \<Rightarrow> sendPairingJson t (pair2_json c (id_public (ps_self s)) (px_ourShare x)) r
                       | None \<Rightarrow>
                           (case onPeer c pub share
                                   (px_new c rand (ps_self s) (ps_role s) (ps_pairingSessionId s) (ps_pendingCode s)) of
                              (err, x) \<Rightarrow>
                                let r1 = sr_upd (\<lambda>s. s\<lparr>ps_exchange := Some x\<rparr>) r
                                in if err \<noteq> PE_None then
                                     sr_then (sendPairingJson t (pairerr_json ''bad element'')
                                                (ps_noteFailed (ps_pairingFailed r1)))
                                       (ps_setState Ses_Failed)
                                   else
                                     sendPairingJson t (pair2_json c (id_public (ps_self s)) (px_ourShare x))
                                       (sr_upd (\<lambda>s. s\<lparr>ps_peerPublic := pub, ps_havePeerPublic := True\<rparr>) r1)))
                  | _ \<Rightarrow> ps_reject r))"

definition onPair2 :: "crypto \<Rightarrow> json_text \<Rightarrow> json \<Rightarrow> session_run \<Rightarrow> session_run" where
  "onPair2 c t j r =
     (case ps_exchange (sr_s r) of
        None \<Rightarrow> ps_reject r
      | Some x \<Rightarrow>
          (case (fromB64 c 32 j ''pub'', fromB64 c 32 j ''share'') of
             (Some pub, Some share) \<Rightarrow>
               (case onPeer c pub share x of
                  (err, x') \<Rightarrow>
                    let r1 = sr_upd (\<lambda>s. s\<lparr>ps_exchange := Some x'\<rparr>) r
                    in if err \<noteq> PE_None then ps_setState Ses_Failed (ps_pairingFailed r1)
                       else sendPairingJson t (sig_json c ''PAIR3'' (authSignature c x'))
                              (sr_upd (\<lambda>s. s\<lparr>ps_peerPublic := pub, ps_havePeerPublic := True\<rparr>) r1))
           | _ \<Rightarrow> ps_reject r))"

definition onPair3 :: "crypto \<Rightarrow> sodium \<Rightarrow> json_text \<Rightarrow> json \<Rightarrow> session_run \<Rightarrow> session_run" where
  "onPair3 c so t j r =
     (case ps_exchange (sr_s r) of
        None \<Rightarrow> ps_reject r
      | Some x \<Rightarrow>
          (case fromB64 c 64 j ''sig'' of
             None \<Rightarrow> ps_reject r
           | Some sig \<Rightarrow>
               if verifyPeerAuth c sig x \<noteq> PE_None then
                 sr_then (sendPairingJson t (pairerr_json ''auth failed'') (ps_noteFailed (ps_pairingFailed r)))
                   (ps_setState Ses_Failed)
               else
                 sr_then (sendPairingJson t (sig_json c ''PAIR4'' (authSignature c x)) r) (establish so x)))"

definition onPair4 :: "crypto \<Rightarrow> sodium \<Rightarrow> json \<Rightarrow> session_run \<Rightarrow> session_run" where
  "onPair4 c so j r =
     (case ps_exchange (sr_s r) of
        None \<Rightarrow> ps_reject r
      | Some x \<Rightarrow>
          (case fromB64 c 64 j ''sig'' of
             None \<Rightarrow> ps_reject r
           | Some sig \<Rightarrow>
               if verifyPeerAuth c sig x \<noteq> PE_None
               then ps_setState Ses_Failed (ps_pairingFailed r)
               else establish so x r))"

definition onPairErr :: "json \<Rightarrow> session_run \<Rightarrow> session_run" where
  "onPairErr j r =
     (let r1 = ps_pairingFailed r in
      case value_string j ''reason'' ''?'' of
        Inl e \<Rightarrow> r1\<lparr>sr_threw := True\<rparr>
      | Inr reason \<Rightarrow> ps_setState Ses_Failed r1)"

definition handlePairing ::
  "crypto \<Rightarrow> sodium \<Rightarrow> json_text \<Rightarrow> bytes \<Rightarrow> u64 \<Rightarrow> string \<Rightarrow> session_run \<Rightarrow> session_run" where
  "handlePairing c so t rand now text r =
     (case jt_parse t text of
        None \<Rightarrow> ps_reject r
      | Some j \<Rightarrow>
          if \<not> is_object j \<or> jfind j ''t'' = None then ps_reject r
          else
            (case value_string j ''t'' '''' of
               Inl e \<Rightarrow> r\<lparr>sr_threw := True\<rparr>
             | Inr ty \<Rightarrow>
                 let role = ps_role (sr_s r)
                 in if ty = ''PAIR1'' \<and> role = Responder then onPair1 c t rand now j r
                    else if ty = ''PAIR2'' \<and> role = Initiator then onPair2 c t j r
                    else if ty = ''PAIR3'' \<and> role = Responder then onPair3 c so t j r
                    else if ty = ''PAIR4'' \<and> role = Initiator then onPair4 c so j r
                    else if ty = ''PAIRERR'' then onPairErr j r
                    else ps_reject r))"

section \<open>Datagrams\<close>

definition onDatagram ::
  "crypto \<Rightarrow> sodium \<Rightarrow> json_text \<Rightarrow> bytes \<Rightarrow> u64 \<Rightarrow> bytes \<Rightarrow> peer_session \<Rightarrow> session_run" where
  "onDatagram c so t rand now data s =
     (let r = sr_start s in
      case data of
        [] \<Rightarrow> ps_reject r
      | tag # body \<Rightarrow>
          if tag = tag_Pairing then handlePairing c so t rand now (string_of_bytes body) r
          else if ps_state s \<noteq> Ses_Authenticated then ps_reject r
          else
            (case sc_open so body [] (ps_channel s) of
               (ok, plain, ch) \<Rightarrow>
                 let r1 = sr_upd (\<lambda>s. s\<lparr>ps_channel := ch\<rparr>) r
                 in if \<not> ok then ps_reject r1
                    else if tag = tag_Media then
                      (if scb_onMedia (ps_cb s) then sr_emit (SO_Media plain) r1 else r1)
                    else if tag = tag_Control then
                      (case decode_bytes t plain of
                         Inl e \<Rightarrow> ps_reject r1
                       | Inr m \<Rightarrow>
                           (case rw_accept kControlReplayWidth (ms_seq m) (ps_controlReplay s) of
                              (fresh, w) \<Rightarrow>
                                let r2 = sr_upd (\<lambda>s. s\<lparr>ps_controlReplay := w\<rparr>) r1
                                in if \<not> fresh then ps_reject r2
                                   else if scb_onControl (ps_cb s) then sr_emit (SO_Control m) r2 else r2))
                    else ps_reject r1))"

text \<open>\<open>sent\<close> is the transport's result; \<open>encode\<close> throws when the text is not UTF-8.\<close>

definition ps_sealAndSend :: "sodium \<Rightarrow> bool \<Rightarrow> u8 \<Rightarrow> bytes \<Rightarrow> peer_session \<Rightarrow> bool \<times> session_run" where
  "ps_sealAndSend so sent tag plain s =
     (case sc_seal so plain [] (ps_channel s) of
        (ok, sealed, ch) \<Rightarrow>
          let r = sr_start (s\<lparr>ps_channel := ch\<rparr>)
          in if \<not> ok then (False, r) else (sent, sendTagged tag sealed r))"

definition sendControl :: "sodium \<Rightarrow> json_text \<Rightarrow> bool \<Rightarrow> message \<Rightarrow> peer_session \<Rightarrow> bool \<times> session_run" where
  "sendControl so t sent m s =
     (if ps_state s \<noteq> Ses_Authenticated then (False, sr_start s)
      else (case encode t m of
              None \<Rightarrow> (False, (sr_start s)\<lparr>sr_threw := True\<rparr>)
            | Some text \<Rightarrow> ps_sealAndSend so sent tag_Control (bytes_of_string text) s))"

definition sendMedia :: "sodium \<Rightarrow> bool \<Rightarrow> bytes \<Rightarrow> peer_session \<Rightarrow> bool \<times> session_run" where
  "sendMedia so sent payload s =
     (if ps_state s \<noteq> Ses_Authenticated then (False, sr_start s)
      else ps_sealAndSend so sent tag_Media payload s)"

definition peerDeviceId :: "crypto \<Rightarrow> peer_session \<Rightarrow> string" where
  "peerDeviceId c s = (if ps_havePeerPublic s then deviceIdFor c (ps_peerPublic s) else [])"

definition peerFingerprint :: "crypto \<Rightarrow> peer_session \<Rightarrow> string" where
  "peerFingerprint c s = (if ps_havePeerPublic s then fingerprintFor c (ps_peerPublic s) else [])"

definition ps_nextSeq :: "peer_session \<Rightarrow> u64 \<times> peer_session" where
  "ps_nextSeq s = (ps_seq s + 1, s\<lparr>ps_seq := ps_seq s + 1\<rparr>)"

section \<open>What the steps do\<close>

lemma sr_simps [step_simps]:
  "sr_s (sr_start s) = s" "sr_out (sr_start s) = []" "\<not> sr_threw (sr_start s)"
  "sr_s (sr_upd f r) = f (sr_s r)" "sr_out (sr_upd f r) = sr_out r" "sr_threw (sr_upd f r) = sr_threw r"
  "sr_s (sr_emit e r) = sr_s r" "sr_out (sr_emit e r) = sr_out r @ [e]" "sr_threw (sr_emit e r) = sr_threw r"
  "sr_s (sendTagged tag d r) = sr_s r" "sr_out (sendTagged tag d r) = sr_out r @ [SO_Send (tag # d)]"
  "sr_threw (sendTagged tag d r) = sr_threw r"
  by (simp_all add: sr_start_def sr_upd_def sr_emit_def sendTagged_def)

lemma ps_reject_simps [step_simps]:
  "sr_s (ps_reject r) = (sr_s r)\<lparr>ps_rejected := ps_rejected (sr_s r) + 1\<rparr>"
  "sr_out (ps_reject r) = sr_out r" "sr_threw (ps_reject r) = sr_threw r"
  by (simp_all add: ps_reject_def step_simps)

lemma ps_setState_simps [step_simps]:
  "sr_s (ps_setState st r) = (sr_s r)\<lparr>ps_state := st\<rparr>" "sr_threw (ps_setState st r) = sr_threw r"
  by (simp_all add: ps_setState_def Let_def step_simps)

lemma ps_setState_out:
  "sr_out (ps_setState st r) = sr_out r \<or> sr_out (ps_setState st r) = sr_out r @ [SO_State st]"
  by (auto simp: ps_setState_def Let_def step_simps)

lemma sendPairingJson_simps [step_simps]:
  "sr_s (sendPairingJson t j r) = sr_s r" "sr_threw (sendPairingJson t j r) = (sr_threw r \<or> jt_dump t j = None)"
  by (simp_all add: sendPairingJson_def step_simps split: option.split)

lemma sendPairingJson_out:
  "sr_out (sendPairingJson t j r) = sr_out r @ (case jt_dump t j of None \<Rightarrow> [] | Some s \<Rightarrow>
     [SO_Send (tag_Pairing # bytes_of_string s)])"
  by (simp add: sendPairingJson_def step_simps split: option.split)

lemma ps_failed_simps [step_simps]:
  "sr_s (ps_pairingFailed r) = (sr_s r)\<lparr>ps_pairingFailures := ps_pairingFailures (sr_s r) + 1\<rparr>"
  "sr_out (ps_pairingFailed r) = sr_out r" "sr_threw (ps_pairingFailed r) = sr_threw r"
  "sr_out (ps_noteFailed r) = sr_out r" "sr_threw (ps_noteFailed r) = sr_threw r"
  "ps_state (sr_s (ps_noteFailed r)) = ps_state (sr_s r)"
  by (simp_all add: ps_pairingFailed_def ps_noteFailed_def step_simps)

text \<open>What the handshake and the rejections may emit: datagrams and state changes only.\<close>

definition is_delivery :: "session_out \<Rightarrow> bool" where
  "is_delivery e = (case e of SO_Control m \<Rightarrow> True | SO_Media p \<Rightarrow> True | _ \<Rightarrow> False)"

definition quiet :: "session_run \<Rightarrow> bool" where
  "quiet r \<longleftrightarrow> (\<forall>e\<in>set (sr_out r). \<not> is_delivery e)"

lemma quiet_steps:
  "quiet (sr_start s)" "quiet (ps_reject r) = quiet r" "quiet (sr_upd f r) = quiet r"
  "quiet (sendPairingJson t j r) = quiet r"
  "quiet (ps_pairingFailed r) = quiet r" "quiet (ps_noteFailed r) = quiet r"
  "quiet (r\<lparr>sr_threw := b\<rparr>) = quiet r"
  by (auto simp: quiet_def step_simps sendPairingJson_out is_delivery_def split: option.split)

lemma quiet_setState: "quiet (ps_setState st r) = quiet r"
  using ps_setState_out [of st r] by (auto simp: quiet_def is_delivery_def)

lemma quiet_establish: "quiet (establish so x r) = quiet r"
  by (simp add: establish_def quiet_setState quiet_steps)

lemma quiet_then: "quiet (sr_then r f) = (if sr_threw r then quiet r else quiet (f r))"
  by (simp add: sr_then_def)

lemmas quiet_simps = quiet_steps quiet_setState quiet_establish quiet_then

lemma onPair1_quiet: "quiet r \<Longrightarrow> quiet (onPair1 c t rand now j r)"
  by (simp add: onPair1_def Let_def quiet_simps split: option.split sum.split prod.split)

lemma onPair2_quiet: "quiet r \<Longrightarrow> quiet (onPair2 c t j r)"
  by (simp add: onPair2_def Let_def quiet_simps split: option.split prod.split)

lemma onPair3_quiet: "quiet r \<Longrightarrow> quiet (onPair3 c so t j r)"
  by (simp add: onPair3_def Let_def quiet_simps split: option.split)

lemma onPair4_quiet: "quiet r \<Longrightarrow> quiet (onPair4 c so j r)"
  by (simp add: onPair4_def Let_def quiet_simps split: option.split)

lemma handlePairing_quiet: "quiet r \<Longrightarrow> quiet (handlePairing c so t rand now text r)"
  by (simp add: handlePairing_def onPair1_quiet onPair2_quiet onPair3_quiet onPair4_quiet onPairErr_def
      Let_def quiet_simps split: option.split sum.split)

section \<open>Becoming authenticated\<close>

lemma onPair1_state:
  "ps_state (sr_s (onPair1 c t rand now j r)) = ps_state (sr_s r) \<or>
   ps_state (sr_s (onPair1 c t rand now j r)) = Ses_Failed"
  by (simp add: onPair1_def sr_then_def Let_def step_simps split: option.split sum.split prod.split)

lemma onPair2_state:
  "ps_state (sr_s (onPair2 c t j r)) = ps_state (sr_s r) \<or> ps_state (sr_s (onPair2 c t j r)) = Ses_Failed"
  by (simp add: onPair2_def Let_def step_simps split: option.split prod.split)

text \<open>\<open>x\<close> is what the session was established on, from the signature in \<open>j\<close>.\<close>

definition established_on :: "crypto \<Rightarrow> json \<Rightarrow> peer_session \<Rightarrow> peer_session \<Rightarrow> bool" where
  "established_on c j s s' \<longleftrightarrow> (\<exists>x sig. ps_exchange s = Some x \<and> px_derived x \<and>
     fromB64 c 64 j ''sig'' = Some sig \<and> verifyPeerAuth c sig x = PE_None \<and>
     ps_sessionKey s' = px_sessionKey x \<and> ps_pendingCode s' = [] \<and>
     ps_book s' = map_option (ob_consume (ps_pairingSessionId s)) (ps_book s))"

lemma verify_derived: "verifyPeerAuth c sig x = PE_None \<Longrightarrow> px_derived x"
  by (simp add: verifyPeerAuth_def split: if_splits)

lemma onPair3_state:
  assumes "\<not> sr_threw r"
  shows "ps_state (sr_s (onPair3 c so t j r)) = ps_state (sr_s r) \<or>
    ps_state (sr_s (onPair3 c so t j r)) = Ses_Failed \<or>
    established_on c j (sr_s r) (sr_s (onPair3 c so t j r))"
  using assms
  by (auto simp: onPair3_def established_on_def establish_def sr_then_def Let_def step_simps verify_derived
      split: option.split)

lemma onPair4_state:
  "ps_state (sr_s (onPair4 c so j r)) = ps_state (sr_s r) \<or>
    ps_state (sr_s (onPair4 c so j r)) = Ses_Failed \<or>
    established_on c j (sr_s r) (sr_s (onPair4 c so j r))"
  by (auto simp: onPair4_def established_on_def establish_def Let_def step_simps verify_derived
      split: option.split)

lemma onPairErr_state:
  "ps_state (sr_s (onPairErr j r)) = ps_state (sr_s r) \<or> ps_state (sr_s (onPairErr j r)) = Ses_Failed"
  by (simp add: onPairErr_def Let_def step_simps split: sum.split)

lemma value_string_found: "value_string j k d = Inr v \<Longrightarrow> jfind j k \<noteq> None \<Longrightarrow> jfind j k = Some (JString v)"
  by (cases j) (auto split: option.splits elim: get_string.elims)

lemma handlePairing_state:
  assumes "\<not> sr_threw r" and "ps_state (sr_s (handlePairing c so t rand now text r)) = Ses_Authenticated"
    and "ps_state (sr_s r) \<noteq> Ses_Authenticated"
  shows "\<exists>j. jt_parse t text = Some j \<and>
    jfind j ''t'' = Some (JString (if ps_role (sr_s r) = Responder then ''PAIR3'' else ''PAIR4'')) \<and>
    established_on c j (sr_s r) (sr_s (handlePairing c so t rand now text r))"
proof -
  obtain j where j: "jt_parse t text = Some j"
    using assms(2,3) by (auto simp: handlePairing_def step_simps split: option.splits)
  have obj: "is_object j" "jfind j ''t'' \<noteq> None"
    using assms(2,3) j by (auto simp: handlePairing_def step_simps split: if_splits)
  obtain ty where ty: "value_string j ''t'' '''' = Inr ty"
    using assms(2,3) j obj by (auto simp: handlePairing_def step_simps split: sum.splits)
  have jt: "jfind j ''t'' = Some (JString ty)" by (rule value_string_found [OF ty obj(2)])
  note eq = handlePairing_def [of c so t rand now "text" r]
  note st = assms(2,3)
  show ?thesis
  proof (cases "ps_role (sr_s r)")
    case Responder
    have "ty = ''PAIR3''"
      using st Responder obj j ty onPair1_state [of c t rand now j r] onPairErr_state [of j r]
      by (auto simp: eq step_simps split: if_splits)
    then show ?thesis
      using st onPair3_state [OF assms(1), of c so t j] Responder obj j jt ty by (auto simp: eq)
  next
    case Initiator
    have "ty = ''PAIR4''"
      using st Initiator obj j ty onPair2_state [of c t j r] onPairErr_state [of j r]
      by (auto simp: eq step_simps split: if_splits)
    then show ?thesis
      using st onPair4_state [of c so j r] Initiator obj j jt ty by (auto simp: eq)
  qed
qed

end
