(* ===== verification/Handshake.thy ===== *)
theory Handshake
  imports PeerSession
begin

text \<open>
  Two sessions of \<^verbatim>\<open>shared/session/src/peer_session.cpp\<close> against each other and a session against
  a network. The first part gives each handshake message's effect on an honest peer and the
  states of both sides after the four messages; the second follows a session through any list
  of datagrams. The properties are the choke point, the honest handshake, and what a replayed
  PAIR3 datagram does to a session that is already authenticated.
\<close>

section \<open>An honest handshake\<close>

definition ps_sends :: "session_run \<Rightarrow> bytes list" where
  "ps_sends r = concat (map (\<lambda>e. case e of SO_Send d \<Rightarrow> [d] | _ \<Rightarrow> []) (sr_out r))"

lemma ps_sends_simps [step_simps]:
  "ps_sends (sr_start s) = []" "ps_sends (sr_upd f r) = ps_sends r"
  "ps_sends (sendTagged tag d r) = ps_sends r @ [tag # d]" "ps_sends (ps_setState st r) = ps_sends r"
  "ps_sends (ps_reject r) = ps_sends r"
  using ps_setState_out [of st r] by (auto simp: ps_sends_def step_simps)

text \<open>The four messages, and the two sides that exchange them without loss.\<close>

record handshake =
  hs_crypto :: crypto
  hs_sodium :: sodium
  hs_text :: json_text
  hs_phoneScalar :: bytes
  hs_pcScalar :: bytes
  hs_now :: u64
  hs_sid :: string
  hs_code :: string

definition hs_messages :: "handshake \<Rightarrow> device_identity \<Rightarrow> device_identity \<Rightarrow> json list" where
  "hs_messages h idi idr =
     (let c = hs_crypto h;
          i = px_new c (hs_phoneScalar h) idi Initiator (hs_sid h) (hs_code h);
          r = px_new c (hs_pcScalar h) idr Responder (hs_sid h) (hs_code h);
          i' = snd (onPeer c (id_public idr) (px_ourShare r) i);
          r' = snd (onPeer c (id_public idi) (px_ourShare i) r)
      in [pair1_json c (hs_sid h) (id_public idi) (px_ourShare i),
          pair2_json c (id_public idr) (px_ourShare r),
          sig_json c ''PAIR3'' (authSignature c i'), sig_json c ''PAIR4'' (authSignature c r')])"

definition hs_phone0 :: "handshake \<Rightarrow> peer_session \<Rightarrow> session_run" where
  "hs_phone0 h phone = beginPairing (hs_crypto h) (hs_text h) (hs_phoneScalar h) (hs_sid h) (hs_code h) phone"

definition hs_deliver :: "handshake \<Rightarrow> bytes \<Rightarrow> session_run \<Rightarrow> session_run \<Rightarrow> session_run" where
  "hs_deliver h rand sender receiver =
     onDatagram (hs_crypto h) (hs_sodium h) (hs_text h) rand (hs_now h) (hd (ps_sends sender)) (sr_s receiver)"

definition hs_pc1 :: "handshake \<Rightarrow> offer_book option \<Rightarrow> peer_session \<Rightarrow> peer_session \<Rightarrow> session_run" where
  "hs_pc1 h book phone pc =
     hs_deliver h (hs_pcScalar h) (hs_phone0 h phone) (armPairing (hs_sid h) (hs_code h) book pc)"

definition hs_phone1 :: "handshake \<Rightarrow> offer_book option \<Rightarrow> peer_session \<Rightarrow> peer_session \<Rightarrow> session_run" where
  "hs_phone1 h book phone pc = hs_deliver h [] (hs_pc1 h book phone pc) (hs_phone0 h phone)"

definition hs_pc2 :: "handshake \<Rightarrow> offer_book option \<Rightarrow> peer_session \<Rightarrow> peer_session \<Rightarrow> session_run" where
  "hs_pc2 h book phone pc = hs_deliver h [] (hs_phone1 h book phone pc) (hs_pc1 h book phone pc)"

definition hs_phone2 :: "handshake \<Rightarrow> offer_book option \<Rightarrow> peer_session \<Rightarrow> peer_session \<Rightarrow> session_run" where
  "hs_phone2 h book phone pc = hs_deliver h [] (hs_pc2 h book phone pc) (hs_phone1 h book phone pc)"

text \<open>
  What the honest handshake starts from: two sessions of the two roles with identities that were
  generated, scalars as the library draws them, a generator that is not the identity, an offer that
  is open, and messages that can be printed.
\<close>

definition hs_ok :: "handshake \<Rightarrow> offer_book option \<Rightarrow> peer_session \<Rightarrow> peer_session \<Rightarrow> bool" where
  "hs_ok h book phone pc \<longleftrightarrow>
     crypto_laws (hs_crypto h) \<and> sodium_laws (hs_sodium h) \<and> json_text_laws (hs_text h) \<and>
     id_ok (hs_crypto h) (ps_self phone) \<and> id_ok (hs_crypto h) (ps_self pc) \<and>
     ps_role phone = Initiator \<and> ps_role pc = Responder \<and>
     scalar_ok (hs_phoneScalar h) \<and> scalar_ok (hs_pcScalar h) \<and>
     px_generator (px_new (hs_crypto h) (hs_phoneScalar h) (ps_self phone) Initiator (hs_sid h) (hs_code h)) \<noteq>
       replicate 32 0 \<and>
     (case book of None \<Rightarrow> True | Some b \<Rightarrow> ob_check (hs_sid h) (hs_now h) b = Offer_Valid) \<and>
     list_all (\<lambda>j. jt_dump (hs_text h) j \<noteq> None) (hs_messages h (ps_self phone) (ps_self pc))"

lemma fromB64_member:
  assumes "crypto_laws c" and "jfind j k = Some (JString (toBase64 c b))" and "length b = n"
  shows "fromB64 c n j k = Some b"
  using assms by (simp add: crypto_laws_def fromB64_def fromBase64_toBase64 Let_def)

lemma onDatagram_pairing:
  "onDatagram c so t rand now (tag_Pairing # bytes_of_string text) s = handlePairing c so t rand now text (sr_start s)"
  by (simp add: onDatagram_def)

lemma value_string_obj:
  "jfind (json_obj kvs) k = Some (JString s) \<Longrightarrow> value_string (json_obj kvs) k d = Inr s"
  by (simp add: json_obj_def)

lemma pairing_json_members:
  "jfind (pair1_json c sid pub share) ''pub'' = Some (JString (toBase64 c pub))"
  "jfind (pair1_json c sid pub share) ''share'' = Some (JString (toBase64 c share))"
  "value_string (pair1_json c sid pub share) ''sid'' '''' = Inr sid"
  "jfind (pair2_json c pub share) ''pub'' = Some (JString (toBase64 c pub))"
  "jfind (pair2_json c pub share) ''share'' = Some (JString (toBase64 c share))"
  "jfind (sig_json c ty sig) ''sig'' = Some (JString (toBase64 c sig))"
  by (simp_all add: pair1_json_def pair2_json_def sig_json_def jfind_json_obj value_string_obj)

text \<open>Which handler a message that was printed reaches.\<close>

lemma handlePairing_dispatch:
  assumes "jt_parse t text = Some j"
  shows "j = pair1_json c0 sid pub share \<Longrightarrow> ps_role (sr_s r) = Responder \<Longrightarrow>
      handlePairing c so t rand now text r = onPair1 c t rand now j r"
    and "j = pair2_json c0 pub share \<Longrightarrow> ps_role (sr_s r) = Initiator \<Longrightarrow>
      handlePairing c so t rand now text r = onPair2 c t j r"
    and "j = sig_json c0 ''PAIR3'' sig \<Longrightarrow> ps_role (sr_s r) = Responder \<Longrightarrow>
      handlePairing c so t rand now text r = onPair3 c so t j r"
    and "j = sig_json c0 ''PAIR4'' sig \<Longrightarrow> ps_role (sr_s r) = Initiator \<Longrightarrow>
      handlePairing c so t rand now text r = onPair4 c so j r"
  using assms
  by (simp_all add: handlePairing_def pair1_json_def pair2_json_def sig_json_def value_string_obj jfind_json_obj)

text \<open>The four steps on the messages of the other side.\<close>

lemma sendPairingJson_good:
  "jt_dump t j = Some x \<Longrightarrow> sendPairingJson t j r = sendTagged tag_Pairing (bytes_of_string x) r"
  by (simp add: sendPairingJson_def)

lemma onPeer_ourShare [simp]: "px_ourShare (snd (onPeer c pub share x)) = px_ourShare x"
  by (simp add: onPeer_def Let_def buildTranscript_def split: option.split)

lemma onPeer_self [simp]: "px_self (snd (onPeer c pub share x)) = px_self x"
  by (simp add: onPeer_def Let_def buildTranscript_def split: option.split)

lemma authSignature_length: "crypto_laws c \<Longrightarrow> id_ok c (px_self x) \<Longrightarrow> length (authSignature c x) = 64"
  by (simp add: authSignature_def di_sign_length)

text \<open>The exchange of an honest handshake.\<close>

lemma hs_exchange:
  fixes h book phone pc
  assumes "hs_ok h book phone pc"
  shows "(let c = hs_crypto h;
      i = px_new c (hs_phoneScalar h) (ps_self phone) Initiator (hs_sid h) (hs_code h);
      r = px_new c (hs_pcScalar h) (ps_self pc) Responder (hs_sid h) (hs_code h);
      i' = onPeer c (id_public (ps_self pc)) (px_ourShare r) i;
      r' = onPeer c (id_public (ps_self phone)) (px_ourShare i) r
    in fst i' = PE_None \<and> fst r' = PE_None \<and> px_derived (snd i') \<and> px_derived (snd r') \<and>
      px_sessionKey (snd i') = px_sessionKey (snd r') \<and> length (px_sessionKey (snd i')) = 32 \<and>
      px_transcript (snd i') = px_transcript (snd r') \<and>
      verifyPeerAuth c (authSignature c (snd r')) (snd i') = PE_None \<and>
      verifyPeerAuth c (authSignature c (snd i')) (snd r') = PE_None \<and>
      length (px_ourShare i) = 32 \<and> length (px_ourShare r) = 32 \<and>
      length (authSignature c (snd i')) = 64 \<and> length (authSignature c (snd r')) = 64)"
proof -
  have laws: "crypto_laws (hs_crypto h)" "id_ok (hs_crypto h) (ps_self phone)" "id_ok (hs_crypto h) (ps_self pc)"
      "scalar_ok (hs_phoneScalar h)" "scalar_ok (hs_pcScalar h)"
      "px_generator (px_new (hs_crypto h) (hs_phoneScalar h) (ps_self phone) Initiator (hs_sid h) (hs_code h)) \<noteq> replicate 32 0"
    using assms by (simp_all add: hs_ok_def)
  note sig = authSignature_length [OF laws(1)]
  show ?thesis
    unfolding Let_def using honest_exchange [OF laws] laws(2,3) sig by auto
qed

definition ps_openOffer :: "u64 \<Rightarrow> peer_session \<Rightarrow> bool" where
  "ps_openOffer now s \<longleftrightarrow>
     (case ps_book s of None \<Rightarrow> True | Some b \<Rightarrow> ob_check (ps_pairingSessionId s) now b = Offer_Valid)"

lemma onPair1_fresh:
  fixes c t rand now pub share s x
  assumes "crypto_laws c" and "length pub = 32" and "length share = 32"
    and "ps_openOffer now s" and "ps_exchange s = None"
    and "onPeer c pub share (px_new c rand (ps_self s) (ps_role s) (ps_pairingSessionId s) (ps_pendingCode s)) = (PE_None, x)"
    and "jt_dump t (pair2_json c (id_public (ps_self s)) (px_ourShare x)) = Some txt2"
  shows "onPair1 c t rand now (pair1_json c (ps_pairingSessionId s) pub share) (sr_start s) =
    sendTagged tag_Pairing (bytes_of_string txt2)
      (sr_start (s\<lparr>ps_exchange := Some x, ps_peerPublic := pub, ps_havePeerPublic := True\<rparr>))"
proof -
  have "(case ps_book s of None \<Rightarrow> Offer_Valid | Some b \<Rightarrow> ob_check (ps_pairingSessionId s) now b) = Offer_Valid"
    using assms(4) by (simp add: ps_openOffer_def split: option.splits)
  with assms show ?thesis
    by (simp add: onPair1_def pairing_json_members fromB64_member step_simps sendPairingJson_good Let_def
        sr_start_def sr_upd_def)
qed

lemma onPair1_again:
  assumes "crypto_laws c" and "length (ps_peerPublic s) = 32" and "length share = 32" and "ps_openOffer now s"
    and "ps_exchange s = Some x" and "ps_havePeerPublic s"
    and "jt_dump t (pair2_json c (id_public (ps_self s)) (px_ourShare x)) = Some txt2"
  shows "onPair1 c t rand now (pair1_json c (ps_pairingSessionId s) (ps_peerPublic s) share) (sr_start s) =
    sendTagged tag_Pairing (bytes_of_string txt2) (sr_start s)"
proof -
  have "(case ps_book s of None \<Rightarrow> Offer_Valid | Some b \<Rightarrow> ob_check (ps_pairingSessionId s) now b) = Offer_Valid"
    using assms(4) by (simp add: ps_openOffer_def split: option.splits)
  with assms show ?thesis
    by (simp add: onPair1_def pairing_json_members fromB64_member step_simps sendPairingJson_good)
qed

lemma onPair2_good:
  assumes "crypto_laws c" and "length pub = 32" and "length share = 32" and "ps_exchange s = Some x0"
    and "onPeer c pub share x0 = (PE_None, x)"
    and "jt_dump t (sig_json c ''PAIR3'' (authSignature c x)) = Some txt3"
  shows "onPair2 c t (pair2_json c pub share) (sr_start s) =
    sendTagged tag_Pairing (bytes_of_string txt3)
      (sr_start (s\<lparr>ps_exchange := Some x, ps_peerPublic := pub, ps_havePeerPublic := True\<rparr>))"
  using assms
  by (simp add: onPair2_def pairing_json_members fromB64_member step_simps sendPairingJson_good
      sr_start_def sr_upd_def)

lemma onPair3_good:
  assumes "crypto_laws c" and "length sig = 64" and "ps_exchange s = Some x"
    and "verifyPeerAuth c sig x = PE_None"
    and "jt_dump t (sig_json c ''PAIR4'' (authSignature c x)) = Some txt4"
  shows "onPair3 c so t (sig_json c ''PAIR3'' sig) (sr_start s) =
    establish so x (sendTagged tag_Pairing (bytes_of_string txt4) (sr_start s))"
  using assms
  by (simp add: onPair3_def pairing_json_members fromB64_member step_simps sendPairingJson_good sr_then_def)

lemma onPair4_good:
  assumes "crypto_laws c" and "length sig = 64" and "ps_exchange s = Some x"
    and "verifyPeerAuth c sig x = PE_None"
  shows "onPair4 c so (sig_json c ''PAIR4'' sig) (sr_start s) = establish so x (sr_start s)"
  using assms by (simp add: onPair4_def pairing_json_members fromB64_member step_simps)

lemma establish_simps [step_simps]:
  "ps_state (sr_s (establish so x r)) = Ses_Authenticated"
  "ps_sessionKey (sr_s (establish so x r)) = px_sessionKey x"
  "ps_exchange (sr_s (establish so x r)) = ps_exchange (sr_s r)"
  "ps_peerPublic (sr_s (establish so x r)) = ps_peerPublic (sr_s r)"
  "ps_havePeerPublic (sr_s (establish so x r)) = ps_havePeerPublic (sr_s r)"
  "ps_pendingCode (sr_s (establish so x r)) = []"
  "ps_role (sr_s (establish so x r)) = ps_role (sr_s r)"
  "ps_self (sr_s (establish so x r)) = ps_self (sr_s r)"
  "ps_book (sr_s (establish so x r)) = map_option (ob_consume (ps_pairingSessionId (sr_s r))) (ps_book (sr_s r))"
  "ps_channel (sr_s (establish so x r)) =
     snd (sc_init so (px_sessionKey x) (ps_direction (ps_role (sr_s r))) (ps_channel (sr_s r)))"
  "ps_controlReplay (sr_s (establish so x r)) = rw_reset kControlReplayWidth (ps_controlReplay (sr_s r))"
  "ps_sends (establish so x r) = ps_sends r" "sr_threw (establish so x r) = sr_threw r"
  by (simp_all add: establish_def step_simps)

lemma hs_deliver_message:
  "ps_sends sender = [tag_Pairing # bytes_of_string txt] \<Longrightarrow>
   hs_deliver h rand sender receiver =
     handlePairing (hs_crypto h) (hs_sodium h) (hs_text h) rand (hs_now h) txt (sr_start (sr_s receiver))"
  by (simp add: hs_deliver_def onDatagram_pairing)

text \<open>The session after each message: \<open>i'\<close> and \<open>r'\<close> are the two sides of the exchange.\<close>

lemma hs_run:
  fixes h book phone pc
  assumes ok: "hs_ok h book phone pc"
  defines "c \<equiv> hs_crypto h" and "i \<equiv> px_new (hs_crypto h) (hs_phoneScalar h) (ps_self phone) Initiator (hs_sid h) (hs_code h)"
    and "r \<equiv> px_new (hs_crypto h) (hs_pcScalar h) (ps_self pc) Responder (hs_sid h) (hs_code h)"
  defines "i' \<equiv> snd (onPeer c (id_public (ps_self pc)) (px_ourShare r) i)"
    and "r' \<equiv> snd (onPeer c (id_public (ps_self phone)) (px_ourShare i) r)"
  shows "\<exists>txt1 txt2 txt3 txt4 pc1 phone1.
    ps_sends (hs_phone0 h phone) = [tag_Pairing # bytes_of_string txt1] \<and>
    hs_pc1 h book phone pc = sendTagged tag_Pairing (bytes_of_string txt2) (sr_start pc1) \<and>
    hs_phone1 h book phone pc = sendTagged tag_Pairing (bytes_of_string txt3) (sr_start phone1) \<and>
    hs_pc2 h book phone pc = establish (hs_sodium h) r' (sendTagged tag_Pairing (bytes_of_string txt4) (sr_start pc1)) \<and>
    hs_phone2 h book phone pc = establish (hs_sodium h) i' (sr_start phone1) \<and>
    pc1 = (sr_s (armPairing (hs_sid h) (hs_code h) book pc))
      \<lparr>ps_exchange := Some r', ps_peerPublic := id_public (ps_self phone), ps_havePeerPublic := True\<rparr> \<and>
    phone1 = (sr_s (hs_phone0 h phone))
      \<lparr>ps_exchange := Some i', ps_peerPublic := id_public (ps_self pc), ps_havePeerPublic := True\<rparr> \<and>
    jt_parse (hs_text h) txt1 = Some (pair1_json c (hs_sid h) (id_public (ps_self phone)) (px_ourShare i)) \<and>
    jt_dump (hs_text h) (pair2_json c (id_public (ps_self pc)) (px_ourShare r')) = Some txt2 \<and>
    jt_parse (hs_text h) txt3 = Some (sig_json c ''PAIR3'' (authSignature c i')) \<and>
    jt_dump (hs_text h) (sig_json c ''PAIR4'' (authSignature c r')) = Some txt4"
proof -
  let ?t = "hs_text h" and ?pub = "\<lambda>s. id_public (ps_self s)"
  define a where "a = sr_s (armPairing (hs_sid h) (hs_code h) book pc)"
  define p0 where "p0 = sr_s (hs_phone0 h phone)"
  define pc1 where "pc1 = a\<lparr>ps_exchange := Some r', ps_peerPublic := ?pub phone, ps_havePeerPublic := True\<rparr>"
  define phone1 where "phone1 = p0\<lparr>ps_exchange := Some i', ps_peerPublic := ?pub pc, ps_havePeerPublic := True\<rparr>"
  have laws: "crypto_laws c" "json_text_laws ?t" and ids: "id_ok c (ps_self phone)" "id_ok c (ps_self pc)"
    and roles: "ps_role phone = Initiator" "ps_role pc = Responder"
    using ok by (simp_all add: hs_ok_def c_def)
  have i_def': "i = px_new c (hs_phoneScalar h) (ps_self phone) Initiator (hs_sid h) (hs_code h)"
    and r_def': "r = px_new c (hs_pcScalar h) (ps_self pc) Responder (hs_sid h) (hs_code h)"
    by (simp_all add: i_def r_def c_def)
  note parse = laws(2) [unfolded json_text_laws_def, rule_format]
  note honest = hs_exchange [OF ok, unfolded Let_def, folded c_def, folded i_def' r_def', folded i'_def r'_def]
  have share: "px_ourShare r' = px_ourShare r" "px_ourShare i' = px_ourShare i" by (simp_all add: r'_def i'_def)
  have I: "onPeer c (?pub pc) (px_ourShare r) i = (PE_None, i')"
    and R: "onPeer c (?pub phone) (px_ourShare i) r = (PE_None, r')"
    using honest by (simp_all add: i'_def r'_def prod_eq_iff)
  obtain txt1 txt2 txt3 txt4 where
      tx: "jt_dump ?t (pair1_json c (hs_sid h) (?pub phone) (px_ourShare i)) = Some txt1"
        "jt_dump ?t (pair2_json c (?pub pc) (px_ourShare r)) = Some txt2"
        "jt_dump ?t (sig_json c ''PAIR3'' (authSignature c i')) = Some txt3"
        "jt_dump ?t (sig_json c ''PAIR4'' (authSignature c r')) = Some txt4"
    using ok unfolding hs_ok_def hs_messages_def Let_def c_def [symmetric] i_def' [symmetric]
      r_def' [symmetric] i'_def [symmetric] r'_def [symmetric] by auto
  have p0: "ps_sends (hs_phone0 h phone) = [tag_Pairing # bytes_of_string txt1]"
      "ps_role p0 = Initiator" "ps_exchange p0 = Some i" "ps_self p0 = ps_self phone"
    using roles tx(1)
    by (simp_all add: p0_def hs_phone0_def beginPairing_def step_simps Let_def c_def [symmetric] i_def' [symmetric])
  have pc0: "ps_role a = Responder" "ps_exchange a = None" "ps_pairingSessionId a = hs_sid h"
      "ps_pendingCode a = hs_code h" "ps_self a = ps_self pc" "ps_openOffer (hs_now h) a"
    using roles ok by (cases book; simp add: a_def armPairing_def step_simps ps_openOffer_def hs_ok_def)+
  have len: "length (?pub phone) = 32" "length (?pub pc) = 32" using id_public_length laws(1) ids by blast+
  have pc1: "hs_pc1 h book phone pc = sendTagged tag_Pairing (bytes_of_string txt2) (sr_start pc1)"
    using handlePairing_dispatch(1) [OF parse [OF tx(1)] refl, of "sr_start a" c "hs_sodium h" "hs_pcScalar h" "hs_now h"]
      onPair1_fresh [OF laws(1) len(1) _ pc0(6,2), of "px_ourShare i" "hs_pcScalar h" r' ?t txt2] R honest pc0 tx(2) share
    by (simp add: hs_pc1_def hs_deliver_message [OF p0(1)] step_simps c_def [symmetric] a_def [symmetric]
        pc1_def r_def' [symmetric])
  have phone1: "hs_phone1 h book phone pc = sendTagged tag_Pairing (bytes_of_string txt3) (sr_start phone1)"
    using handlePairing_dispatch(2) [OF parse [OF tx(2)] refl, of "sr_start p0" c "hs_sodium h" "[]" "hs_now h"]
      onPair2_good [OF laws(1) len(2) _ p0(3) I tx(3)] honest p0(2)
    by (simp add: hs_phone1_def hs_deliver_message [of _ txt2] pc1 step_simps c_def [symmetric]
        p0_def [symmetric] phone1_def)
  have exs: "ps_exchange pc1 = Some r'" "ps_role pc1 = Responder" "ps_exchange phone1 = Some i'" "ps_role phone1 = Initiator"
    using pc0 p0 by (simp_all add: pc1_def phone1_def)
  have pc2: "hs_pc2 h book phone pc = establish (hs_sodium h) r' (sendTagged tag_Pairing (bytes_of_string txt4) (sr_start pc1))"
    using handlePairing_dispatch(3) [OF parse [OF tx(3)] refl, of "sr_start pc1" c "hs_sodium h" "[]" "hs_now h"]
      onPair3_good [OF laws(1) _ exs(1) _ tx(4)] honest exs
    by (simp add: hs_pc2_def hs_deliver_message [of _ txt3] pc1 phone1 step_simps c_def [symmetric])
  have phone2: "hs_phone2 h book phone pc = establish (hs_sodium h) i' (sr_start phone1)"
    using handlePairing_dispatch(4) [OF parse [OF tx(4)] refl, of "sr_start phone1" c "hs_sodium h" "[]" "hs_now h"]
      onPair4_good [OF laws(1) _ exs(3)] honest exs
    by (simp add: hs_phone2_def hs_deliver_message [of _ txt4] pc2 phone1 step_simps c_def [symmetric])
  show ?thesis
    using p0(1) pc1 phone1 pc2 phone2 parse tx share
    by (intro exI [of _ txt1] exI [of _ txt2] exI [of _ txt3] exI [of _ txt4] exI [of _ pc1] exI [of _ phone1])
       (simp add: pc1_def phone1_def a_def p0_def)
qed

section \<open>Media over an established session\<close>

lemma sendMedia_established:
  assumes "sodium_laws so" and "ps_state s = Ses_Authenticated" and "sc_initialised (ps_channel s)"
  shows "ps_sends (snd (sendMedia so sent m s)) = [tag_Media # sc_packet so (ps_channel s) (sc_counter (ps_channel s)) m]"
    and "sr_s (snd (sendMedia so sent m s)) = s\<lparr>ps_channel := (ps_channel s)
      \<lparr>sc_counter := sc_counter (ps_channel s) + 1, sc_sealed := sc_sealed (ps_channel s) + 1\<rparr>\<rparr>"
  using assms by (simp_all add: sendMedia_def ps_sealAndSend_def sc_seal_result step_simps Let_def)

lemma onDatagram_media:
  assumes "sodium_laws so" and "ps_state s = Ses_Authenticated" and "sc_peer snd_ch (ps_channel s)"
    and "rw_rel kReplayWidth [] (sc_replay (ps_channel s))" and "scb_onMedia (ps_cb s)"
  shows "sr_out (onDatagram c so t rand now (tag_Media # sc_packet so snd_ch i m) s) = [SO_Media m]"
    and "sr_s (onDatagram c so t rand now (tag_Media # sc_packet so snd_ch i m) s) =
      s\<lparr>ps_channel := snd (snd (sc_open so (sc_packet so snd_ch i m) [] (ps_channel s)))\<rparr>"
proof -
  have "fst (rw_accept kReplayWidth i (sc_replay (ps_channel s)))"
    using rw_accept_correct(1) [OF _ _ assms(4), of i] by (simp add: kReplayWidth_def rw_fresh_def)
  then have o: "sc_open so (sc_packet so snd_ch i m) [] (ps_channel s) =
      (True, m, snd (snd (sc_open so (sc_packet so snd_ch i m) [] (ps_channel s))))"
    using sc_open_genuine [OF assms(1,3), of i m "[]"] by simp
  define ch where "ch = snd (snd (sc_open so (sc_packet so snd_ch i m) [] (ps_channel s)))"
  have "onDatagram c so t rand now (tag_Media # sc_packet so snd_ch i m) s =
      sr_emit (SO_Media m) (sr_upd (\<lambda>s. s\<lparr>ps_channel := ch\<rparr>) (sr_start s))"
    using assms(2,5) o [folded ch_def] by (simp add: onDatagram_def step_simps tag_Media_def tag_Pairing_def)
  then show "sr_out (onDatagram c so t rand now (tag_Media # sc_packet so snd_ch i m) s) = [SO_Media m]"
    and "sr_s (onDatagram c so t rand now (tag_Media # sc_packet so snd_ch i m) s) =
      s\<lparr>ps_channel := snd (snd (sc_open so (sc_packet so snd_ch i m) [] (ps_channel s)))\<rparr>"
    by (simp_all add: step_simps ch_def)
qed

text \<open>What a handshake leaves behind on the two sides.\<close>

lemma hs_established:
  fixes h book phone pc
  assumes ok: "hs_ok h book phone pc"
  defines "p \<equiv> sr_s (hs_phone2 h book phone pc)" and "q \<equiv> sr_s (hs_pc2 h book phone pc)"
  shows "ps_state p = Ses_Authenticated \<and> ps_state q = Ses_Authenticated \<and>
    ps_sessionKey p = ps_sessionKey q \<and> length (ps_sessionKey p) = 32 \<and>
    ps_channel p = snd (sc_init (hs_sodium h) (ps_sessionKey p) Dir_PhoneToPc (ps_channel phone)) \<and>
    ps_channel q = snd (sc_init (hs_sodium h) (ps_sessionKey p) Dir_PcToPhone (ps_channel pc)) \<and>
    peerDeviceId (hs_crypto h) p = di_deviceId (hs_crypto h) (ps_self pc) \<and>
    peerDeviceId (hs_crypto h) q = di_deviceId (hs_crypto h) (ps_self phone) \<and>
    ps_pendingCode q = [] \<and> ps_book q = map_option (ob_consume (hs_sid h)) book \<and>
    ps_cb p = ps_cb phone \<and> ps_cb q = ps_cb pc"
proof -
  note run = hs_run [OF ok]
  have roles: "ps_role phone = Initiator" "ps_role pc = Responder" using ok by (simp_all add: hs_ok_def)
  note honest = hs_exchange [OF ok, unfolded Let_def]
  have a: "ps_role (sr_s (armPairing (hs_sid h) (hs_code h) book pc)) = Responder"
      "ps_book (sr_s (armPairing (hs_sid h) (hs_code h) book pc)) = book"
      "ps_pairingSessionId (sr_s (armPairing (hs_sid h) (hs_code h) book pc)) = hs_sid h"
      "ps_channel (sr_s (armPairing (hs_sid h) (hs_code h) book pc)) = ps_channel pc"
      "ps_cb (sr_s (armPairing (hs_sid h) (hs_code h) book pc)) = ps_cb pc"
    using roles by (simp_all add: armPairing_def step_simps)
  have b: "ps_role (sr_s (hs_phone0 h phone)) = Initiator" "ps_channel (sr_s (hs_phone0 h phone)) = ps_channel phone"
      "ps_cb (sr_s (hs_phone0 h phone)) = ps_cb phone"
    using roles by (simp_all add: hs_phone0_def beginPairing_def step_simps Let_def split: option.split)
  have dirs: "ps_direction Initiator = Dir_PhoneToPc" "ps_direction Responder = Dir_PcToPhone"
    by (simp_all add: ps_direction_def)
  have cb: "ps_cb (sr_s (establish so x r)) = ps_cb (sr_s r)" for so x r by (simp add: establish_def step_simps)
  from run honest a b show ?thesis
    by (auto simp: p_def q_def step_simps cb dirs peerDeviceId_def di_deviceId_def)
qed

text \<open>The signature that authenticated a session is accepted by it again.\<close>

lemma hs_pair3_again:
  fixes h book phone pc rand s
  assumes ok: "hs_ok h book phone pc"
  defines "q \<equiv> sr_s (hs_pc2 h book phone pc)"
  assumes s: "ps_role s = Responder" "ps_exchange s = ps_exchange q"
  shows "ps_state (sr_s (hs_deliver h rand (hs_phone1 h book phone pc) (sr_start s))) = Ses_Authenticated \<and>
    ps_cb (sr_s (hs_deliver h rand (hs_phone1 h book phone pc) (sr_start s))) = ps_cb s \<and>
    ps_channel (sr_s (hs_deliver h rand (hs_phone1 h book phone pc) (sr_start s))) =
      snd (sc_init (hs_sodium h) (ps_sessionKey q) Dir_PcToPhone (ps_channel s))"
proof -
  obtain x txt3 txt4 where x: "ps_exchange s = Some x" "ps_sessionKey q = px_sessionKey x"
      "ps_sends (hs_phone1 h book phone pc) = [tag_Pairing # bytes_of_string txt3]"
      "\<exists>i'. jt_parse (hs_text h) txt3 = Some (sig_json (hs_crypto h) ''PAIR3'' (authSignature (hs_crypto h) i')) \<and>
         length (authSignature (hs_crypto h) i') = 64 \<and>
         verifyPeerAuth (hs_crypto h) (authSignature (hs_crypto h) i') x = PE_None"
      "jt_dump (hs_text h) (sig_json (hs_crypto h) ''PAIR4'' (authSignature (hs_crypto h) x)) = Some txt4"
  proof -
    note honest = hs_exchange [OF ok, unfolded Let_def]
    show thesis using hs_run [OF ok] honest s(2) that by (fastforce simp: q_def step_simps)
  qed
  from x(4) obtain i' where i': "jt_parse (hs_text h) txt3 = Some (sig_json (hs_crypto h) ''PAIR3'' (authSignature (hs_crypto h) i'))"
      "length (authSignature (hs_crypto h) i') = 64"
      "verifyPeerAuth (hs_crypto h) (authSignature (hs_crypto h) i') x = PE_None" by blast
  have c: "crypto_laws (hs_crypto h)" using ok by (simp add: hs_ok_def)
  have "hs_deliver h rand (hs_phone1 h book phone pc) (sr_start s) =
      establish (hs_sodium h) x (sendTagged tag_Pairing (bytes_of_string txt4) (sr_start s))"
    using handlePairing_dispatch(3) [OF i'(1) refl, of "sr_start s"] s(1)
      onPair3_good [OF c i'(2) x(1) i'(3) x(5)]
    by (simp add: hs_deliver_message [OF x(3)] step_simps)
  moreover have "ps_cb (sr_s (establish so x r)) = ps_cb (sr_s r)" for so x r by (simp add: establish_def step_simps)
  ultimately show ?thesis using s(1) x(2) by (simp add: step_simps ps_direction_def)
qed

section \<open>Histories of datagrams\<close>

text \<open>An exception that leaves the handler ends the receiving thread.\<close>

fun ps_receive_all ::
  "crypto \<Rightarrow> sodium \<Rightarrow> json_text \<Rightarrow> (bytes \<times> u64 \<times> bytes) list \<Rightarrow> peer_session \<Rightarrow> session_out list \<times> peer_session" where
  "ps_receive_all c so t [] s = ([], s)"
| "ps_receive_all c so t ((rand, now, data) # ds) s =
     (let r = onDatagram c so t rand now data s
      in if sr_threw r then (sr_out r, sr_s r)
         else (case ps_receive_all c so t ds (sr_s r) of (os, s') \<Rightarrow> (sr_out r @ os, s')))"

text \<open>What one datagram may deliver.\<close>

lemma onDatagram_delivers:
  assumes "e \<in> set (sr_out (onDatagram c so t rand now data s))" and "is_delivery e"
  shows "\<exists>body plain ch. ps_state s = Ses_Authenticated \<and> sc_open so body [] (ps_channel s) = (True, plain, ch) \<and>
    (data = tag_Media # body \<and> e = SO_Media plain \<or>
     data = tag_Control # body \<and> (\<exists>m. e = SO_Control m \<and> decode_bytes t plain = Inr m \<and>
       fst (rw_accept kControlReplayWidth (ms_seq m) (ps_controlReplay s))))"
proof (cases data)
  case (Cons tag body)
  have "tag \<noteq> tag_Pairing"
    using assms handlePairing_quiet [of "sr_start s" c so t rand now "string_of_bytes body"] Cons
    by (auto simp: onDatagram_def quiet_def step_simps)
  with assms Cons show ?thesis
    by (auto simp: onDatagram_def step_simps Let_def is_delivery_def split: if_splits prod.splits sum.splits)
qed (use assms in \<open>simp add: onDatagram_def step_simps\<close>)

lemma onDatagram_state:
  assumes "ps_state (sr_s (onDatagram c so t rand now data s)) = Ses_Authenticated"
    and "ps_state s \<noteq> Ses_Authenticated"
  shows "\<exists>body j. data = tag_Pairing # body \<and> jt_parse t (string_of_bytes body) = Some j \<and>
    established_on c j s (sr_s (onDatagram c so t rand now data s))"
proof (cases data)
  case (Cons tag body)
  show ?thesis
  proof (cases "tag = tag_Pairing")
    case True
    then have e: "onDatagram c so t rand now data s = handlePairing c so t rand now (string_of_bytes body) (sr_start s)"
      by (simp add: onDatagram_def Cons)
    show ?thesis
      using handlePairing_state [of "sr_start s" c so t rand now "string_of_bytes body"] assms Cons True
      unfolding e by (auto simp: step_simps)
  next
    case False
    then show ?thesis using assms Cons by (simp add: onDatagram_def step_simps)
  qed
qed (use assms in \<open>simp add: onDatagram_def step_simps\<close>)

lemma ps_delivery_point:
  "e \<in> set (fst (ps_receive_all c so t ds s)) \<Longrightarrow>
   \<exists>pre rand now data post. ds = pre @ (rand, now, data) # post \<and>
     e \<in> set (sr_out (onDatagram c so t rand now data (snd (ps_receive_all c so t pre s))))"
proof (induction ds arbitrary: s)
  case (Cons d ds)
  obtain rand now data where d: "d = (rand, now, data)" by (metis prod_cases3)
  let ?r = "onDatagram c so t rand now data s"
  show ?case
  proof (cases "e \<in> set (sr_out ?r)")
    case True
    then show ?thesis using d by - (rule exI [of _ "[]"], auto)
  next
    case False
    then have t: "\<not> sr_threw ?r" "e \<in> set (fst (ps_receive_all c so t ds (sr_s ?r)))"
      using Cons.prems by (auto simp: d Let_def split: if_splits prod.splits)
    from Cons.IH [OF t(2)] obtain pre rand' now' data' post where
        "ds = pre @ (rand', now', data') # post"
        "e \<in> set (sr_out (onDatagram c so t rand' now' data' (snd (ps_receive_all c so t pre (sr_s ?r)))))" by blast
    then show ?thesis using t(1) by (intro exI [of _ "d # pre"]) (auto simp: d Let_def split: prod.split)
  qed
qed simp

lemma ps_auth_point:
  "ps_state s \<noteq> Ses_Authenticated \<Longrightarrow> ps_state (snd (ps_receive_all c so t ds s)) = Ses_Authenticated \<Longrightarrow>
   \<exists>pre rand now data post. ds = pre @ (rand, now, data) # post \<and>
     ps_state (snd (ps_receive_all c so t pre s)) \<noteq> Ses_Authenticated \<and>
     ps_state (sr_s (onDatagram c so t rand now data (snd (ps_receive_all c so t pre s)))) = Ses_Authenticated"
proof (induction ds arbitrary: s)
  case (Cons d ds)
  obtain rand now data where d: "d = (rand, now, data)" by (metis prod_cases3)
  let ?r = "onDatagram c so t rand now data s"
  show ?case
  proof (cases "ps_state (sr_s ?r) = Ses_Authenticated")
    case True
    then show ?thesis using d Cons.prems(1) by - (rule exI [of _ "[]"], auto)
  next
    case False
    then have t: "\<not> sr_threw ?r" "ps_state (snd (ps_receive_all c so t ds (sr_s ?r))) = Ses_Authenticated"
      using Cons.prems by (auto simp: d Let_def split: if_splits prod.splits)
    from Cons.IH [OF False t(2)] obtain pre rand' now' data' post where
        "ds = pre @ (rand', now', data') # post"
        "ps_state (snd (ps_receive_all c so t pre (sr_s ?r))) \<noteq> Ses_Authenticated"
        "ps_state (sr_s (onDatagram c so t rand' now' data' (snd (ps_receive_all c so t pre (sr_s ?r))))) = Ses_Authenticated"
      by blast
    then show ?thesis using t(1) by (intro exI [of _ "d # pre"]) (auto simp: d Let_def split: prod.split)
  qed
qed simp

section \<open>A concrete handshake\<close>

text \<open>A printer and parser of four messages, enough to instantiate the laws.\<close>

definition four_texts :: "json list \<Rightarrow> json_text" where
  "four_texts js = \<lparr>jt_parse = map_of (zip [''1'', ''2'', ''3'', ''4''] js),
                    jt_dump = map_of (zip js [''1'', ''2'', ''3'', ''4''])\<rparr>"

lemma four_texts_laws: "length js = 4 \<Longrightarrow> json_text_laws (four_texts js)"
  by (auto simp: json_text_laws_def four_texts_def numeral_eq_Suc length_Suc_conv split: if_splits)

lemma four_texts_total: "length js = 4 \<Longrightarrow> list_all (\<lambda>j. jt_dump (four_texts js) j \<noteq> None) js"
  by (auto simp: four_texts_def list_all_iff)

definition demo_phone :: peer_session where
  "demo_phone = ps_new (di_generate toy_crypto (replicate 32 8)) Initiator"

definition demo_pc :: peer_session where
  "demo_pc = ps_setCallbacks \<lparr>scb_onControl = True, scb_onMedia = True, scb_onStateChanged = True\<rparr>
     (ps_new (di_generate toy_crypto (replicate 32 9)) Responder)"

definition demo0 :: "json_text \<Rightarrow> handshake" where
  "demo0 t = \<lparr>hs_crypto = toy_crypto, hs_sodium = plain_sodium, hs_text = t, hs_phoneScalar = replicate 32 3,
     hs_pcScalar = replicate 32 5, hs_now = 7, hs_sid = ''s'', hs_code = ''123456''\<rparr>"

definition demo :: handshake where
  "demo = demo0 (four_texts (hs_messages (demo0 (four_texts [])) (ps_self demo_phone) (ps_self demo_pc)))"

lemma demo_ok: "hs_ok demo None demo_phone demo_pc"
proof -
  have len: "length (hs_messages h a b) = 4" for h a b by (simp add: hs_messages_def Let_def)
  have indep: "hs_messages (demo0 t) a b = hs_messages (demo0 t') a b" for t t' a b
    by (simp add: hs_messages_def demo0_def)
  let ?js = "hs_messages (demo0 (four_texts [])) (ps_self demo_phone) (ps_self demo_pc)"
  have "list_all (\<lambda>j. jt_dump (hs_text demo) j \<noteq> None) (hs_messages demo (ps_self demo_phone) (ps_self demo_pc))"
    using four_texts_total [OF len, of "demo0 (four_texts [])" "ps_self demo_phone" "ps_self demo_pc"]
      indep [of "four_texts ?js" _ _ "four_texts []"] by (simp add: demo_def) (simp add: demo0_def)
  then show ?thesis
    using four_texts_laws [OF len, of "demo0 (four_texts [])" "ps_self demo_phone" "ps_self demo_pc"]
    by (simp add: hs_ok_def)
       (simp add: demo_def demo0_def demo_phone_def demo_pc_def ps_new_def ps_setCallbacks_def id_ok_generate
        toy_crypto_laws plain_sodium_laws scalar_ok_samples toy_generator [simplified])
qed

lemma demo_media: "scb_onMedia (ps_cb demo_pc)"
  by (simp add: demo_pc_def ps_setCallbacks_def)

text \<open>The datagrams the PC of a handshake receives, with one media packet after it.\<close>

definition hs_arrivals :: "handshake \<Rightarrow> offer_book option \<Rightarrow> peer_session \<Rightarrow> peer_session \<Rightarrow> bytes \<Rightarrow> (bytes \<times> u64 \<times> bytes) list" where
  "hs_arrivals h book phone pc m =
     [(hs_pcScalar h, hs_now h, hd (ps_sends (hs_phone0 h phone))),
      ([], hs_now h, hd (ps_sends (hs_phone1 h book phone pc))),
      ([], hs_now h, hd (ps_sends (snd (sendMedia (hs_sodium h) True m (sr_s (hs_phone2 h book phone pc))))))]"

text \<open>The datagrams a PC receives in an honest run deliver the media packet.\<close>

lemma hs_media_delivered:
  fixes h book phone pc rand m
  assumes "hs_ok h book phone pc" and "scb_onMedia (ps_cb pc)"
  defines "p \<equiv> sr_s (hs_phone2 h book phone pc)"
  shows "sr_out (hs_deliver h rand (snd (sendMedia (hs_sodium h) True m p)) (hs_pc2 h book phone pc)) = [SO_Media m]"
proof -
  note e = hs_established [OF assms(1), folded p_def]
  have so: "sodium_laws (hs_sodium h)" using assms(1) by (simp add: hs_ok_def)
  have "sc_peer (ps_channel p) (ps_channel (sr_s (hs_pc2 h book phone pc)))" "sc_initialised (ps_channel p)"
      "rw_rel kReplayWidth [] (sc_replay (ps_channel (sr_s (hs_pc2 h book phone pc))))"
    using e sc_init_peer [OF so, of "ps_sessionKey p" Dir_PcToPhone "ps_channel pc" Dir_PhoneToPc "ps_channel phone"]
      sc_init_peer [OF so, of "ps_sessionKey p" Dir_PhoneToPc "ps_channel phone" Dir_PcToPhone "ps_channel pc"]
    by simp_all
  then show ?thesis
    using onDatagram_media(1) [OF so] e assms(2)
    by (simp add: hs_deliver_def sendMedia_established [OF so])
qed

lemma session_run_delivers:
  assumes "hs_ok h book phone pc" and "scb_onMedia (ps_cb pc)"
  shows "SO_Media m \<in> set (fst (ps_receive_all (hs_crypto h) (hs_sodium h) (hs_text h)
    (hs_arrivals h book phone pc m) (sr_s (armPairing (hs_sid h) (hs_code h) book pc))))"
proof -
  have "\<not> sr_threw (hs_pc1 h book phone pc)" "\<not> sr_threw (hs_pc2 h book phone pc)"
    using hs_run [OF assms(1)] by (auto simp: step_simps)
  then show ?thesis
    using hs_media_delivered [OF assms, of "[]" m]
    by (auto simp: hs_arrivals_def hs_pc1_def hs_pc2_def hs_deliver_def Let_def split: prod.split)
qed

section \<open>Properties\<close>

text \<open>
  C25: the choke point. Over any list of datagrams, whatever their senders, a session that is not
  authenticated delivers nothing to its media and control callbacks unless the list holds, before
  the delivery, a pairing message whose signature verified on an exchange that had derived its
  key; and the datagram that delivers opened in the secure channel the session had then, to what
  is delivered: the media payload, or a control message that decoded and that the replay window
  had not seen.
\<close>

theorem session_choke_point:
  assumes "ps_state s \<noteq> Ses_Authenticated" and "e \<in> set (fst (ps_receive_all c so t ds s))" and "is_delivery e"
  shows "\<exists>ds1 rand now body j ds2 rand' now' tag sealed ds3 plain ch.
    ds = ds1 @ (rand, now, tag_Pairing # body) # ds2 @ (rand', now', tag # sealed) # ds3 \<and>
    jt_parse t (string_of_bytes body) = Some j \<and>
    established_on c j (snd (ps_receive_all c so t ds1 s))
      (sr_s (onDatagram c so t rand now (tag_Pairing # body) (snd (ps_receive_all c so t ds1 s)))) \<and>
    (let s' = snd (ps_receive_all c so t (ds1 @ (rand, now, tag_Pairing # body) # ds2) s)
     in ps_state s' = Ses_Authenticated \<and> sc_open so sealed [] (ps_channel s') = (True, plain, ch) \<and>
       (tag = tag_Media \<and> e = SO_Media plain \<or>
        tag = tag_Control \<and> (\<exists>m. e = SO_Control m \<and> decode_bytes t plain = Inr m \<and>
          fst (rw_accept kControlReplayWidth (ms_seq m) (ps_controlReplay s')))))"
proof -
  obtain pre rand' now' data post where d: "ds = pre @ (rand', now', data) # post"
      "e \<in> set (sr_out (onDatagram c so t rand' now' data (snd (ps_receive_all c so t pre s))))"
    using ps_delivery_point [OF assms(2)] by blast
  note del = onDatagram_delivers [OF d(2) assms(3)]
  then have "ps_state (snd (ps_receive_all c so t pre s)) = Ses_Authenticated" by blast
  from ps_auth_point [OF assms(1) this] obtain ds1 rand now est ds2 where
      a: "pre = ds1 @ (rand, now, est) # ds2"
        "ps_state (snd (ps_receive_all c so t ds1 s)) \<noteq> Ses_Authenticated"
        "ps_state (sr_s (onDatagram c so t rand now est (snd (ps_receive_all c so t ds1 s)))) = Ses_Authenticated"
    by blast
  obtain body j where "est = tag_Pairing # body" "jt_parse t (string_of_bytes body) = Some j"
      "established_on c j (snd (ps_receive_all c so t ds1 s))
         (sr_s (onDatagram c so t rand now (tag_Pairing # body) (snd (ps_receive_all c so t ds1 s))))"
    using onDatagram_state [OF a(3,2)] by blast
  with del d(1) a(1) show ?thesis unfolding Let_def by fastforce
qed

theorem session_choke_point_witness:
  "\<exists>ds1 rand now body ds2. hs_arrivals demo None demo_phone demo_pc [1, 2] = ds1 @ (rand, now, tag_Pairing # body) # ds2 \<and> ds2 \<noteq> []"
proof -
  let ?a = "sr_s (armPairing (hs_sid demo) (hs_code demo) None demo_pc)"
  let ?run = "ps_receive_all (hs_crypto demo) (hs_sodium demo) (hs_text demo)"
  let ?as = "hs_arrivals demo None demo_phone demo_pc [1, 2]"
  have "SO_Media [1, 2] \<in> set (fst (?run ?as ?a))"
    using session_run_delivers [OF demo_ok demo_media] .
  moreover have "ps_state ?a \<noteq> Ses_Authenticated" by (simp add: armPairing_def step_simps)
  ultimately obtain ds1 rand now body ds2 rand' now' tag sealed ds3 where
      "?as = ds1 @ (rand, now, tag_Pairing # body) # ds2 @ (rand', now', tag # sealed) # ds3"
    using session_choke_point [of ?a "SO_Media [1, 2]" "hs_crypto demo" "hs_sodium demo" "hs_text demo" ?as]
    by (auto simp: is_delivery_def)
  then show ?thesis by blast
qed

text \<open>
  C26: an honest handshake succeeds. Two sessions of the two roles that are given the same session
  id and code and whose four pairing messages arrive end authenticated with the same 32-byte
  session key, each knowing the other's device id, with channels that open what the other seals,
  the code erased and the offer consumed; a repeated PAIR1 is answered with the same PAIR2 and
  changes nothing; and the first media payload the phone then sends is delivered. The
  scalars drawn are nonzero and below the order of the group, and the generator is not the identity.
\<close>

theorem session_handshake:
  fixes h book phone pc rand m
  assumes "hs_ok h book phone pc" and "scb_onMedia (ps_cb pc)"
  defines "p \<equiv> sr_s (hs_phone2 h book phone pc)" and "q \<equiv> sr_s (hs_pc2 h book phone pc)"
  shows "ps_state p = Ses_Authenticated \<and> ps_state q = Ses_Authenticated \<and>
    ps_sessionKey p = ps_sessionKey q \<and> length (ps_sessionKey p) = 32 \<and>
    sc_peer (ps_channel p) (ps_channel q) \<and> sc_peer (ps_channel q) (ps_channel p) \<and>
    peerDeviceId (hs_crypto h) p = di_deviceId (hs_crypto h) (ps_self pc) \<and>
    peerDeviceId (hs_crypto h) q = di_deviceId (hs_crypto h) (ps_self phone) \<and>
    ps_pendingCode q = [] \<and> ps_book q = map_option (ob_consume (hs_sid h)) book \<and>
    hs_deliver h rand (hs_phone0 h phone) (hs_pc1 h book phone pc) = hs_pc1 h book phone pc \<and>
    sr_out (hs_deliver h rand (snd (sendMedia (hs_sodium h) True m p)) (hs_pc2 h book phone pc)) = [SO_Media m]"
proof -
  note e = hs_established [OF assms(1), folded p_def q_def]
  have so: "sodium_laws (hs_sodium h)" "crypto_laws (hs_crypto h)" "json_text_laws (hs_text h)"
    and pcr: "ps_role pc = Responder" using assms(1) by (simp_all add: hs_ok_def)
  note i1 = sc_init_peer [OF so(1), of "ps_sessionKey p" Dir_PhoneToPc "ps_channel phone" Dir_PcToPhone "ps_channel pc"]
  note i2 = sc_init_peer [OF so(1), of "ps_sessionKey p" Dir_PcToPhone "ps_channel pc" Dir_PhoneToPc "ps_channel phone"]
  have peers: "sc_peer (ps_channel p) (ps_channel q)" "sc_peer (ps_channel q) (ps_channel p)"
    using e i1 i2 by simp_all
  obtain txt1 txt2 pc1 where run:
      "ps_sends (hs_phone0 h phone) = [tag_Pairing # bytes_of_string txt1]"
      "hs_pc1 h book phone pc = sendTagged tag_Pairing (bytes_of_string txt2) (sr_start pc1)"
      "jt_parse (hs_text h) txt1 = Some (pair1_json (hs_crypto h) (ps_pairingSessionId pc1) (ps_peerPublic pc1)
         (px_ourShare (px_new (hs_crypto h) (hs_phoneScalar h) (ps_self phone) Initiator (hs_sid h) (hs_code h))))"
      "ps_role pc1 = Responder" "ps_openOffer (hs_now h) pc1" "ps_havePeerPublic pc1"
      "ps_peerPublic pc1 = id_public (ps_self phone)"
      "\<exists>x. ps_exchange pc1 = Some x \<and> jt_dump (hs_text h) (pair2_json (hs_crypto h) (id_public (ps_self pc1)) (px_ourShare x)) = Some txt2"
    using hs_run [OF assms(1)] pcr assms(1)
    by (cases book) (auto simp: armPairing_def step_simps ps_openOffer_def hs_ok_def)
  have len: "length (ps_peerPublic pc1) = 32"
      "length (px_ourShare (px_new (hs_crypto h) (hs_phoneScalar h) (ps_self phone) Initiator (hs_sid h) (hs_code h))) = 32"
    using assms(1) run(7) id_public_length hs_exchange [OF assms(1), unfolded Let_def] by (auto simp: hs_ok_def)
  have again: "hs_deliver h rand (hs_phone0 h phone) (hs_pc1 h book phone pc) = hs_pc1 h book phone pc"
  proof -
    from run(8) obtain x where x: "ps_exchange pc1 = Some x"
        "jt_dump (hs_text h) (pair2_json (hs_crypto h) (id_public (ps_self pc1)) (px_ourShare x)) = Some txt2" by blast
    have "handlePairing (hs_crypto h) (hs_sodium h) (hs_text h) rand (hs_now h) txt1 (sr_start pc1) =
        sendTagged tag_Pairing (bytes_of_string txt2) (sr_start pc1)"
      using handlePairing_dispatch(1) [OF run(3) refl] run(4)
        onPair1_again [OF so(2) len run(5) x(1) run(6) x(2)] by (simp add: step_simps)
    then show ?thesis by (simp add: hs_deliver_message [OF run(1)] run(2) step_simps)
  qed
  show ?thesis using e peers again hs_media_delivered [OF assms(1,2), folded p_def, of rand m] by blast
qed

theorem session_handshake_witness:
  "ps_sessionKey (sr_s (hs_phone2 demo None demo_phone demo_pc)) = ps_sessionKey (sr_s (hs_pc2 demo None demo_phone demo_pc)) \<and>
   sr_out (hs_deliver demo [] (snd (sendMedia (hs_sodium demo) True [1, 2] (sr_s (hs_phone2 demo None demo_phone demo_pc))))
     (hs_pc2 demo None demo_phone demo_pc)) = [SO_Media [1, 2]]"
  using session_handshake [OF demo_ok demo_media, of "[]" "[1, 2]"] by blast

text \<open>
  C27: replaying the PAIR3 datagram of a finished handshake resets the channel. The responder
  keeps its exchange, so the same signature verifies again and the channel is keyed again with
  the same session key, from counter zero: what it sealed before and what it seals next go out
  under the same key and nonce, and a packet it has delivered is delivered once more. The scalars
  drawn are nonzero and below the order of the group, and the generator is not the identity.
\<close>

theorem session_pair3_replay_resets_channel:
  fixes h book phone pc rand m m1 m2
  assumes "hs_ok h book phone pc" and "scb_onMedia (ps_cb pc)"
  defines "so \<equiv> hs_sodium h" and "p \<equiv> sr_s (hs_phone2 h book phone pc)" and "q \<equiv> sr_s (hs_pc2 h book phone pc)"
  defines "replayed s \<equiv> sr_s (hs_deliver h rand (hs_phone1 h book phone pc) (sr_start s))"
    and "got s \<equiv> hs_deliver h rand (snd (sendMedia so True m p)) (sr_start s)"
  shows "ps_sends (snd (sendMedia so True m1 q)) = [tag_Media # sc_packet so (ps_channel q) 0 m1] \<and>
    ps_sends (snd (sendMedia so True m2 (replayed (sr_s (snd (sendMedia so True m1 q)))))) =
      [tag_Media # sc_packet so (ps_channel q) 0 m2] \<and>
    sr_out (got q) = [SO_Media m] \<and> sr_out (got (replayed (sr_s (got q)))) = [SO_Media m]"
proof -
  note e = hs_established [OF assms(1), folded p_def q_def]
  have laws: "sodium_laws so" using assms(1) by (simp add: hs_ok_def so_def)
  let ?init = "\<lambda>ch. snd (sc_init so (ps_sessionKey p) Dir_PcToPhone ch)"
  have i: "sc_initialised (?init ch)" "sc_counter (?init ch) = 0" "rw_rel kReplayWidth [] (sc_replay (?init ch))"
      "sc_peer (ps_channel p) (?init ch)" "sc_packet so (?init ch) = sc_packet so (ps_channel q)" for ch
    using sc_init_peer [OF laws, of "ps_sessionKey p" Dir_PcToPhone ch]
      sc_init_peer [OF laws, of "ps_sessionKey p" Dir_PhoneToPc "ps_channel phone" Dir_PcToPhone ch] e
      sc_init_packet [OF laws, of "ps_sessionKey p" Dir_PcToPhone ch "ps_channel pc"]
    by (simp_all add: so_def)
  have q: "ps_role q = Responder" "ps_state q = Ses_Authenticated" "scb_onMedia (ps_cb q)"
    using e assms(1,2) hs_run [OF assms(1)]
    by (auto simp: so_def q_def step_simps armPairing_def hs_ok_def)
  have "ps_channel q = ?init (ps_channel pc)" using e by (simp add: so_def)
  then have qi: "sc_initialised (ps_channel q)" "sc_counter (ps_channel q) = 0"
      "rw_rel kReplayWidth [] (sc_replay (ps_channel q))" "sc_peer (ps_channel p) (ps_channel q)"
    using i(1-4) [of "ps_channel pc"] by simp_all
  have re: "ps_state (replayed s) = Ses_Authenticated \<and> ps_cb (replayed s) = ps_cb s \<and>
      ps_channel (replayed s) = ?init (ps_channel s)"
    if "ps_role s = Responder" "ps_exchange s = ps_exchange q" for s
    using hs_pair3_again [OF assms(1), folded q_def, OF that, of rand] e by (simp add: replayed_def so_def)
  have p: "ps_state p = Ses_Authenticated" "sc_initialised (ps_channel p)"
    using e i(4) [of "ps_channel pc"] by (simp_all add: sc_peer_def)
  have s1: "ps_sends (snd (sendMedia so True m1 q)) = [tag_Media # sc_packet so (ps_channel q) 0 m1]"
    using sendMedia_established(1) [OF laws q(2), of True m1] qi by simp
  let ?q1 = "sr_s (snd (sendMedia so True m1 q))"
  have "ps_role ?q1 = Responder" "ps_exchange ?q1 = ps_exchange q"
    using sendMedia_established(2) [OF laws q(2), of True m1] qi q by simp_all
  note r1 = re [OF this]
  have s2: "ps_sends (snd (sendMedia so True m2 (replayed ?q1))) = [tag_Media # sc_packet so (ps_channel q) 0 m2]"
    using sendMedia_established(1) [OF laws, of "replayed ?q1" True m2] r1 i by simp
  have got: "got s = onDatagram (hs_crypto h) so (hs_text h) rand (hs_now h)
      (tag_Media # sc_packet so (ps_channel p) (sc_counter (ps_channel p)) m) s" for s
    by (simp add: got_def hs_deliver_def sendMedia_established [OF laws p] step_simps so_def [symmetric])
  have g1: "sr_out (got q) = [SO_Media m]"
    unfolding got by (rule onDatagram_media(1)) (use laws q qi in simp_all)
  have g1s: "ps_role (sr_s (got q)) = Responder" "ps_exchange (sr_s (got q)) = ps_exchange q" "ps_cb (sr_s (got q)) = ps_cb q"
    unfolding got by (subst onDatagram_media(2); use laws q qi in simp)+
  note r2 = re [OF g1s(1,2)]
  have "sr_out (got (replayed (sr_s (got q)))) = [SO_Media m]"
    unfolding got [of "replayed _"] by (rule onDatagram_media(1)) (use laws q r2 g1s i(3,4) in simp_all)
  with s1 s2 g1 show ?thesis by blast
qed

theorem session_pair3_replay_resets_channel_witness:
  "let h = demo; so = hs_sodium h; q = sr_s (hs_pc2 h None demo_phone demo_pc);
       q1 = sr_s (snd (sendMedia so True [1] q));
       q2 = sr_s (hs_deliver h [] (hs_phone1 h None demo_phone demo_pc) (sr_start q1))
   in ps_sends (snd (sendMedia so True [1] q2)) = ps_sends (snd (sendMedia so True [1] q))"
  using session_pair3_replay_resets_channel [OF demo_ok demo_media, of "[1]" "[1]" "[]" "[]"]
  unfolding Let_def by metis

end
