(* ===== verification/DriverRing.thy ===== *)
theory DriverRing
  imports Floats
begin

text \<open>
  The ring shared by the kernel driver and the service: \<^verbatim>\<open>windows/driver/inc/smartmic_ring.h\<close> and
  the kernel side, \<open>CSmartMicRing\<close> of \<^verbatim>\<open>ring.cpp\<close>. The section of memory both sides map is the
  header and the payload in \<open>kr_mem\<close>; a frame is one 16-bit sample, so the payload is a list of
  8192 of them. Allocation and mapping results, process identities and the interrupt time are
  arguments. The lemmas relate the two-part copies to positions in the stream of samples.
\<close>

section \<open>The shared header\<close>

type_synonym pcm16 = "16 word"

datatype ntstatus =
    STATUS_SUCCESS | STATUS_UNSUCCESSFUL | STATUS_INSUFFICIENT_RESOURCES | STATUS_DEVICE_NOT_READY
  | STATUS_DEVICE_BUSY | STATUS_ACCESS_DENIED | STATUS_INVALID_PARAMETER | STATUS_NOT_SUPPORTED
  | STATUS_NOT_FOUND | STATUS_NOT_IMPLEMENTED | STATUS_BUFFER_OVERFLOW | STATUS_BUFFER_TOO_SMALL
  | STATUS_DEVICE_ALREADY_ATTACHED | STATUS_INVALID_DEVICE_REQUEST

definition SMARTMIC_RING_MAGIC :: u32 where "SMARTMIC_RING_MAGIC = 0x534D5231"
definition SMARTMIC_RING_VERSION :: u32 where "SMARTMIC_RING_VERSION = 1"
definition SMARTMIC_SAMPLE_RATE :: u32 where "SMARTMIC_SAMPLE_RATE = 48000"
definition SMARTMIC_CHANNELS :: u32 where "SMARTMIC_CHANNELS = 1"
definition SMARTMIC_BITS :: u32 where "SMARTMIC_BITS = 16"
definition SMARTMIC_BYTES_PER_FRAME :: u32 where
  "SMARTMIC_BYTES_PER_FRAME = SMARTMIC_CHANNELS * (SMARTMIC_BITS div 8)"
definition SMARTMIC_RING_FRAMES :: u32 where "SMARTMIC_RING_FRAMES = 8192"
definition SMARTMIC_RING_MASK :: u32 where "SMARTMIC_RING_MASK = SMARTMIC_RING_FRAMES - 1"
definition SMARTMIC_PRODUCER_TIMEOUT_100NS :: u64 where "SMARTMIC_PRODUCER_TIMEOUT_100NS = 250 * 10000"
definition SMARTMIC_RING_HEADER_BYTES :: u32 where "SMARTMIC_RING_HEADER_BYTES = 256"
definition SMARTMIC_RING_PAYLOAD_BYTES :: u32 where
  "SMARTMIC_RING_PAYLOAD_BYTES = SMARTMIC_RING_FRAMES * SMARTMIC_BYTES_PER_FRAME"
definition SMARTMIC_RING_TOTAL_BYTES :: u32 where
  "SMARTMIC_RING_TOTAL_BYTES = SMARTMIC_RING_HEADER_BYTES + SMARTMIC_RING_PAYLOAD_BYTES"

lemmas ring_consts =
  SMARTMIC_RING_FRAMES_def SMARTMIC_RING_MASK_def SMARTMIC_BYTES_PER_FRAME_def SMARTMIC_CHANNELS_def
  SMARTMIC_BITS_def SMARTMIC_PRODUCER_TIMEOUT_100NS_def

record ring_header =
  rh_magic :: u32
  rh_version :: u32
  rh_capacityFrames :: u32
  rh_channels :: u32
  rh_sampleRate :: u32
  rh_bytesPerFrame :: u32
  rh_payloadOffset :: u32
  rh_writeIndex :: u64
  rh_producerHeartbeat :: u64
  rh_readIndex :: u64
  rh_underrunCount :: u32
  rh_overrunCount :: u32
  rh_framesDelivered :: u64
  rh_streamOpen :: u32

record driver_stats =
  ds_framesDelivered :: u64
  ds_underrunCount :: u32
  ds_overrunCount :: u32
  ds_streamOpen :: u32

section \<open>CSmartMicRing\<close>

text \<open>\<open>kr_mem\<close> is what \<open>m_systemVa\<close>, \<open>m_header\<close> and \<open>m_payload\<close> point to; a process is a number.\<close>

record driver_ring =
  kr_mdl :: bool
  kr_mem :: "(ring_header \<times> pcm16 list) option"
  kr_userVa :: "u64 option"
  kr_clientProcess :: "nat option"
  kr_claimed :: bool

definition kr_new :: driver_ring where
  "kr_new = \<lparr>kr_mdl = False, kr_mem = None, kr_userVa = None, kr_clientProcess = None, kr_claimed = False\<rparr>"

text \<open>\<open>alloc\<close> and \<open>mdl\<close> tell whether \<open>ExAllocatePool2\<close> and \<open>IoAllocateMdl\<close> succeeded.\<close>

definition kr_initialize :: "bool \<Rightarrow> bool \<Rightarrow> driver_ring \<Rightarrow> ntstatus \<times> driver_ring" where
  "kr_initialize alloc mdl r =
     (if \<not> alloc then (STATUS_INSUFFICIENT_RESOURCES, r\<lparr>kr_mem := None\<rparr>)
      else if \<not> mdl then (STATUS_INSUFFICIENT_RESOURCES, r\<lparr>kr_mem := None, kr_mdl := False\<rparr>)
      else (STATUS_SUCCESS, r\<lparr>kr_mdl := True,
        kr_mem := Some (\<lparr>rh_magic = SMARTMIC_RING_MAGIC, rh_version = SMARTMIC_RING_VERSION,
            rh_capacityFrames = SMARTMIC_RING_FRAMES, rh_channels = SMARTMIC_CHANNELS,
            rh_sampleRate = SMARTMIC_SAMPLE_RATE, rh_bytesPerFrame = SMARTMIC_BYTES_PER_FRAME,
            rh_payloadOffset = SMARTMIC_RING_HEADER_BYTES, rh_writeIndex = 0,
            rh_producerHeartbeat = 0, rh_readIndex = 0, rh_underrunCount = 0, rh_overrunCount = 0,
            rh_framesDelivered = 0, rh_streamOpen = 0\<rparr>,
          replicate (unat SMARTMIC_RING_FRAMES) 0)\<rparr>))"

definition kr_cleanup :: "driver_ring \<Rightarrow> driver_ring" where
  "kr_cleanup r =
     r\<lparr>kr_userVa := (if kr_mdl r then None else kr_userVa r), kr_mdl := False, kr_mem := None,
       kr_clientProcess := None, kr_claimed := False\<rparr>"

text \<open>\<open>mapped\<close> is the address \<open>MmMapLockedPagesSpecifyCache\<close> gave, \<open>pid\<close> the calling process.\<close>

definition kr_map :: "u64 option \<Rightarrow> nat \<Rightarrow> driver_ring \<Rightarrow> ntstatus \<times> u64 option \<times> u32 \<times> driver_ring" where
  "kr_map mapped pid r =
     (if \<not> kr_mdl r then (STATUS_DEVICE_NOT_READY, None, 0, r)
      else if kr_claimed r then (STATUS_DEVICE_BUSY, None, 0, r)
      else
        let r1 = r\<lparr>kr_claimed := True\<rparr>
        in (case mapped of
              None \<Rightarrow> (STATUS_INSUFFICIENT_RESOURCES, None, 0, r1\<lparr>kr_claimed := False\<rparr>)
            | Some va \<Rightarrow> (STATUS_SUCCESS, Some va, SMARTMIC_RING_TOTAL_BYTES,
                          r1\<lparr>kr_userVa := Some va, kr_clientProcess := Some pid\<rparr>)))"

definition kr_unmap :: "nat \<Rightarrow> driver_ring \<Rightarrow> ntstatus \<times> driver_ring" where
  "kr_unmap pid r =
     (if kr_userVa r = None \<or> \<not> kr_mdl r then (STATUS_SUCCESS, r)
      else if kr_clientProcess r \<noteq> Some pid then (STATUS_ACCESS_DENIED, r)
      else (STATUS_SUCCESS, r\<lparr>kr_userVa := None, kr_clientProcess := None, kr_claimed := False\<rparr>))"

definition kr_releaseClaimIfOwner :: "nat \<Rightarrow> driver_ring \<Rightarrow> driver_ring" where
  "kr_releaseClaimIfOwner pid r =
     (if kr_clientProcess r = Some pid
      then r\<lparr>kr_userVa := None, kr_clientProcess := None, kr_claimed := False\<rparr> else r)"

definition kr_producerAlive :: "u64 \<Rightarrow> driver_ring \<Rightarrow> bool" where
  "kr_producerAlive now r =
     (case kr_mem r of
        None \<Rightarrow> False
      | Some (h, p) \<Rightarrow>
          let beat = rh_producerHeartbeat h
          in if beat = 0 then False else now \<ge> beat \<and> now - beat < SMARTMIC_PRODUCER_TIMEOUT_100NS)"

definition MAXLONG :: u64 where "MAXLONG = 0x7FFFFFFF"

text \<open>
  The indices \<open>Read\<close> works with: where it reads from, how much it may take, and the overruns it
  counts, from a \<open>writeIndex\<close> it does not trust.
\<close>

definition kr_span :: "ring_header \<Rightarrow> u64 \<times> u64 \<times> u32" where
  "kr_span h =
     (if rh_writeIndex h \<ge> rh_readIndex h then
        let available = rh_writeIndex h - rh_readIndex h
        in if available > ucast SMARTMIC_RING_FRAMES then
             let skipped = available - ucast SMARTMIC_RING_FRAMES
             in (rh_readIndex h + skipped, ucast SMARTMIC_RING_FRAMES,
                 rh_overrunCount h + ucast (min skipped MAXLONG))
           else (rh_readIndex h, available, rh_overrunCount h)
      else (rh_readIndex h, 0, rh_overrunCount h))"

text \<open>\<open>RtlZeroMemory(dst, wantBytes)\<close>: the byte count is a 32-bit product.\<close>

definition kr_zero :: "u32 \<Rightarrow> pcm16 list \<Rightarrow> pcm16 list" where
  "kr_zero frames dst = blit 0 (replicate (unat (frames * SMARTMIC_BYTES_PER_FRAME) div 2) 0) dst"

definition kr_copy :: "pcm16 list \<Rightarrow> u64 \<Rightarrow> u32 \<Rightarrow> pcm16 list \<Rightarrow> pcm16 list" where
  "kr_copy p readIndex realFrames dst =
     (if realFrames = 0 then dst
      else
        let offsetFrames = ucast (readIndex AND ucast SMARTMIC_RING_MASK) :: u32;
            firstFrames = min realFrames (SMARTMIC_RING_FRAMES - offsetFrames);
            dst1 = blit 0 (take (unat firstFrames) (drop (unat offsetFrames) p)) dst
        in if realFrames > firstFrames
           then blit (unat firstFrames) (take (unat (realFrames - firstFrames)) p) dst1 else dst1)"

definition kr_read :: "u64 \<Rightarrow> pcm16 list \<Rightarrow> u32 \<Rightarrow> driver_ring \<Rightarrow> u32 \<times> pcm16 list \<times> driver_ring" where
  "kr_read now dst frames r =
     (case kr_mem r of
        None \<Rightarrow> (0, kr_zero frames dst, r)
      | Some (h, p) \<Rightarrow>
          if frames = 0 then (0, kr_zero frames dst, r)
          else if \<not> kr_producerAlive now r then
            (0, kr_zero frames dst, r\<lparr>kr_mem := Some (h\<lparr>rh_underrunCount := rh_underrunCount h + frames\<rparr>, p)\<rparr>)
          else
            (case kr_span h of
               (readIndex, available, overruns) \<Rightarrow>
                 let realFrames = ucast (min (ucast frames) available) :: u32;
                     dst1 = kr_copy p readIndex realFrames dst;
                     shortfall = frames - realFrames;
                     dst2 = (if realFrames < frames
                             then blit (unat realFrames) (replicate (unat shortfall) 0) dst1 else dst1);
                     underruns = rh_underrunCount h + (if realFrames < frames then shortfall else 0)
                 in (realFrames, dst2,
                     r\<lparr>kr_mem := Some (h\<lparr>rh_overrunCount := overruns, rh_underrunCount := underruns,
                       rh_readIndex := readIndex + ucast frames,
                       rh_framesDelivered := rh_framesDelivered h + ucast frames\<rparr>, p)\<rparr>)))"

definition kr_setStreamOpen :: "bool \<Rightarrow> driver_ring \<Rightarrow> driver_ring" where
  "kr_setStreamOpen opn r =
     (case kr_mem r of
        None \<Rightarrow> r
      | Some (h, p) \<Rightarrow>
          let h1 = h\<lparr>rh_streamOpen := if opn then 1 else 0\<rparr>
          in r\<lparr>kr_mem := Some (if opn then h1\<lparr>rh_readIndex := rh_writeIndex h1\<rparr> else h1, p)\<rparr>)"

definition kr_getStats :: "driver_ring \<Rightarrow> driver_stats" where
  "kr_getStats r =
     (case kr_mem r of
        None \<Rightarrow> \<lparr>ds_framesDelivered = 0, ds_underrunCount = 0, ds_overrunCount = 0, ds_streamOpen = 0\<rparr>
      | Some (h, p) \<Rightarrow> \<lparr>ds_framesDelivered = rh_framesDelivered h, ds_underrunCount = rh_underrunCount h,
                         ds_overrunCount = rh_overrunCount h, ds_streamOpen = rh_streamOpen h\<rparr>)"

section \<open>The copy\<close>

text \<open>A payload of the right size, and the samples at consecutive positions of the stream.\<close>

definition kr_window :: "pcm16 list \<Rightarrow> nat \<Rightarrow> nat \<Rightarrow> pcm16 list" where
  "kr_window p i n = map (\<lambda>k. p ! ((i + k) mod 8192)) [0..<n]"

lemma length_kr_window [simp]: "length (kr_window p i n) = n"
  by (simp add: kr_window_def)

lemma kr_window_split:
  assumes "length p = 8192" and "n \<le> 8192"
  shows "kr_window p i n = take n (drop (i mod 8192) p) @ take (n - (8192 - i mod 8192)) p"
proof -
  define d where "d = i mod 8192"
  have d: "d < 8192" by (simp add: d_def)
  have m: "(i + k) mod 8192 = (if d + k < 8192 then d + k else d + k - 8192)" if "k < 8192" for k
  proof -
    have "(i + k) mod 8192 = (d + k) mod 8192" unfolding d_def by (rule mod_add_left_eq [symmetric])
    also have "\<dots> = (if d + k < 8192 then d + k else d + k - 8192)"
      using that d by (simp add: mod_if)
    finally show ?thesis .
  qed
  have "kr_window p i n = take n (drop d p) @ take (n - (8192 - d)) p"
  proof (rule nth_equalityI)
    show "length (kr_window p i n) = length (take n (drop d p) @ take (n - (8192 - d)) p)"
      using assms d by (auto simp: min_def)
  next
    fix k
    assume "k < length (kr_window p i n)"
    then have k: "k < n" by simp
    show "kr_window p i n ! k = (take n (drop d p) @ take (n - (8192 - d)) p) ! k"
    proof (cases "d + k < 8192")
      case True
      then have "k < 8192 - d" by simp
      with True show ?thesis using k assms m [of k] by (simp add: kr_window_def nth_append)
    next
      case False
      then have l: "length (take n (drop d p)) = 8192 - d" and i: "\<not> k < 8192 - d" "k - (8192 - d) = d + k - 8192"
        using k assms d by simp_all
      show ?thesis unfolding nth_append l using False i k assms m [of k] by (simp add: kr_window_def)
    qed
  qed
  then show ?thesis by (simp add: d_def)
qed

lemma ring_mask_u64: "(ucast SMARTMIC_RING_MASK :: u64) = 2 ^ 13 - 1"
  by (simp add: SMARTMIC_RING_MASK_def SMARTMIC_RING_FRAMES_def)

lemma unat_ring_offset: "unat (ucast (rd AND ucast SMARTMIC_RING_MASK) :: u32) = unat (rd :: u64) mod 8192"
proof -
  have "unat (rd AND ucast SMARTMIC_RING_MASK) = unat rd mod 8192"
    unfolding ring_mask_u64 by (subst unat_mask_mod) simp_all
  moreover have "unat rd mod 8192 < 2 ^ 32" by (rule less_le_trans [of _ 8192]) simp_all
  ultimately show ?thesis by (simp add: unsigned_ucast_eq take_bit_nat_eq_self)
qed

lemma unat_first_frames:
  fixes n off :: u32
  assumes "unat off < 8192"
  shows "unat (min n (SMARTMIC_RING_FRAMES - off)) = min (unat n) (8192 - unat off)"
proof -
  have "off \<le> SMARTMIC_RING_FRAMES" using assms by (simp add: word_le_nat_alt SMARTMIC_RING_FRAMES_def)
  then have "unat (SMARTMIC_RING_FRAMES - off) = 8192 - unat off"
    by (simp add: unat_sub SMARTMIC_RING_FRAMES_def)
  then show ?thesis by (simp add: min_def word_le_nat_alt)
qed

lemma blit_two: "length a + length b \<le> length dst \<Longrightarrow> blit (length a) b (blit 0 a dst) = (a @ b) @ drop (length a + length b) dst"
  by (simp add: blit_def add.commute)

text \<open>The two-part copy out of the payload is the window of the stream at \<open>readIndex\<close>.\<close>

lemma kr_copy_window:
  assumes p: "length p = 8192" and n: "unat n \<le> 8192" "unat n \<le> length dst"
  shows "kr_copy p rd n dst = kr_window p (unat rd) (unat n) @ drop (unat n) dst"
proof (cases "n = 0")
  case True
  then show ?thesis by (simp add: kr_copy_def kr_window_def)
next
  case False
  define off where "off = (ucast (rd AND ucast SMARTMIC_RING_MASK) :: u32)"
  define f where "f = min n (SMARTMIC_RING_FRAMES - off)"
  have off: "unat off = unat rd mod 8192" by (simp add: off_def unat_ring_offset)
  then have off8: "unat off < 8192" by simp
  then have f: "unat f = min (unat n) (8192 - unat off)" by (simp add: f_def unat_first_frames)
  have fn: "f \<le> n" by (simp add: f_def)
  have rest: "unat (n - f) = unat n - unat f" using unat_sub [OF fn] .
  have gt: "n > f \<longleftrightarrow> unat n > unat f" by (simp add: word_less_nat_alt)
  have a: "length (take (unat f) (drop (unat off) p)) = unat f" using f p off8 by simp
  have b: "length (take (unat (n - f)) p) = unat n - unat f" using rest p n by simp
  have ta: "take (unat f) (drop (unat off) p) = take (unat n) (drop (unat off) p)"
    using f p by (cases "unat n \<le> 8192 - unat off") simp_all
  have tb: "take (unat (n - f)) p = take (unat n - (8192 - unat off)) p"
    unfolding rest f by (simp add: min_def)
  have w: "kr_window p (unat rd) (unat n) = take (unat f) (drop (unat off) p) @ take (unat (n - f)) p"
    unfolding ta tb using kr_window_split [OF p n(1), of "unat rd"] off by simp
  have c: "kr_copy p rd n dst =
      (if n > f then blit (unat f) (take (unat (n - f)) p) (blit 0 (take (unat f) (drop (unat off) p)) dst)
       else blit 0 (take (unat f) (drop (unat off) p)) dst)"
    using False by (simp add: kr_copy_def Let_def off_def [symmetric] f_def [symmetric])
  show ?thesis
  proof (cases "n > f")
    case True
    have "blit (unat f) (take (unat (n - f)) p) (blit 0 (take (unat f) (drop (unat off) p)) dst) =
        (take (unat f) (drop (unat off) p) @ take (unat (n - f)) p) @ drop (unat n) dst"
      using blit_two [of "take (unat f) (drop (unat off) p)" "take (unat (n - f)) p" dst] a b n(2) True gt by simp
    then show ?thesis using c w True by simp
  next
    case no: False
    then have "n = f" using fn by simp
    then show ?thesis using c w a by (simp add: blit_def)
  qed
qed

section \<open>Reads of an untrusted header\<close>

text \<open>
  Whatever the shared header says, a read fills exactly the frames asked for, and what it
  fills them with does not depend on what was there.
\<close>

definition kr_mem_ok :: "driver_ring \<Rightarrow> bool" where
  "kr_mem_ok r \<longleftrightarrow> (case kr_mem r of None \<Rightarrow> True | Some (h, p) \<Rightarrow> length p = 8192)"

lemma unat_ucast_u64: "unat (ucast (n :: u32) :: u64) = unat n"
proof -
  have "unat n < 2 ^ 64" using unat_bound [of n] by simp
  then show ?thesis by (simp add: unsigned_ucast_eq take_bit_nat_eq_self)
qed

lemma unat_real_frames:
  fixes frames :: u32 and available :: u64
  shows "unat (ucast (min (ucast frames) available) :: u32) = min (unat frames) (unat available)"
proof -
  have f: "unat (ucast frames :: u64) = unat frames" by (rule unat_ucast_u64)
  have "unat (min (ucast frames) available) = min (unat frames) (unat available)"
    using f by (simp add: min_def word_le_nat_alt)
  moreover have "min (unat frames) (unat available) < 2 ^ 32"
    using unat_bound [of frames] by simp
  ultimately show ?thesis by (simp add: unsigned_ucast_eq take_bit_nat_eq_self)
qed

lemma kr_zero_all:
  assumes "length dst = unat frames" and "unat frames < 2 ^ 31"
  shows "kr_zero frames dst = replicate (unat frames) 0"
proof -
  have "unat (frames * SMARTMIC_BYTES_PER_FRAME) = unat frames * 2"
    using assms(2) by (simp add: ring_consts unat_word_ariths)
  then show ?thesis using assms(1) by (simp add: kr_zero_def blit_self)
qed

lemma kr_span_bound: "kr_span h = (rd, available, over) \<Longrightarrow> unat available \<le> 8192"
  by (auto simp: kr_span_def Let_def SMARTMIC_RING_FRAMES_def word_less_nat_alt split: if_splits)

text \<open>The frames a live read gives.\<close>

definition kr_filled :: "pcm16 list \<Rightarrow> u64 \<Rightarrow> u32 \<Rightarrow> u32 \<Rightarrow> pcm16 list" where
  "kr_filled p rd rf frames = kr_window p (unat rd) (unat rf) @ replicate (unat frames - unat rf) 0"

lemma kr_copy_filled:
  assumes "length p = 8192" and "unat rf \<le> 8192" and "rf \<le> frames" and "length dst = unat frames"
  shows "(if rf < frames then blit (unat rf) (replicate (unat (frames - rf)) 0) (kr_copy p rd rf dst)
     else kr_copy p rd rf dst) = kr_filled p rd rf frames"
proof -
  have le: "unat rf \<le> unat frames" using assms(3) by (simp add: word_le_nat_alt)
  have sub: "unat (frames - rf) = unat frames - unat rf" by (rule unat_sub [OF assms(3)])
  have lt: "rf < frames \<longleftrightarrow> unat rf < unat frames" by (simp add: word_less_nat_alt)
  have copy: "kr_copy p rd rf dst = kr_window p (unat rd) (unat rf) @ drop (unat rf) dst"
    by (rule kr_copy_window) (use assms le in simp_all)
  show ?thesis unfolding copy sub lt kr_filled_def using le assms(4) by (simp add: blit_def)
qed

lemma kr_read_any_dst:
  assumes ok: "kr_mem_ok r" and dst: "length dst = unat frames" "unat frames < 2 ^ 31"
  shows "length (fst (snd (kr_read now dst frames r))) = unat frames"
    and "kr_mem_ok (snd (snd (kr_read now dst frames r)))"
    and "kr_read now dst frames r = kr_read now (replicate (unat frames) 0) frames r"
proof -
  have all: "length (fst (snd (kr_read now dst frames r))) = unat frames \<and>
    kr_mem_ok (snd (snd (kr_read now dst frames r))) \<and>
    kr_read now dst frames r = kr_read now (replicate (unat frames) 0) frames r"
  proof (cases "kr_mem r")
    case None
    then show ?thesis using kr_zero_all dst ok by (simp add: kr_read_def)
  next
    case (Some m)
    obtain h p where m: "m = (h, p)" by (metis prod.exhaust)
    have p: "length p = 8192" using ok Some m by (simp add: kr_mem_ok_def)
    show ?thesis
    proof (cases "frames = 0 \<or> \<not> kr_producerAlive now r")
      case True
      then show ?thesis
        using Some m p dst kr_zero_all [OF dst] kr_zero_all [of "replicate (unat frames) 0" frames]
        by (auto simp: kr_read_def kr_mem_ok_def)
    next
      case False
      obtain rd available over where sp: "kr_span h = (rd, available, over)" by (metis prod_cases3)
      define rf where "rf = (ucast (min (ucast frames) available) :: u32)"
      have rf: "unat rf = min (unat frames) (unat available)" by (simp add: rf_def unat_real_frames)
      then have rf': "unat rf \<le> 8192" "rf \<le> frames" using kr_span_bound [OF sp] by (simp_all add: word_le_nat_alt)
      define r' where "r' = r\<lparr>kr_mem := Some (h\<lparr>rh_overrunCount := over,
        rh_underrunCount := rh_underrunCount h + (if rf < frames then frames - rf else 0),
        rh_readIndex := rd + ucast frames, rh_framesDelivered := rh_framesDelivered h + ucast frames\<rparr>, p)\<rparr>"
      have any: "kr_read now d frames r = (rf, kr_filled p rd rf frames, r')" if "length d = unat frames" for d
        using False kr_copy_filled [OF p rf' that, of rd] unfolding r'_def rf_def
        by (simp add: kr_read_def Some m sp Let_def split del: if_split)
      have len: "length (kr_filled p rd rf frames) = unat frames" using rf by (simp add: kr_filled_def)
      show ?thesis
        using any [OF dst(1)] any [of "replicate (unat frames) 0"] len p by (simp add: r'_def kr_mem_ok_def)
    qed
  qed
  then show "length (fst (snd (kr_read now dst frames r))) = unat frames"
    and "kr_mem_ok (snd (snd (kr_read now dst frames r)))"
    and "kr_read now dst frames r = kr_read now (replicate (unat frames) 0) frames r" by blast+
qed

lemma kr_setStreamOpen_ok: "kr_mem_ok r \<Longrightarrow> kr_mem_ok (kr_setStreamOpen opn r)"
  by (auto simp: kr_mem_ok_def kr_setStreamOpen_def Let_def split: option.splits)

end
