(* ===== verification/DriverControl.thy ===== *)
theory DriverControl
  imports DriverRing
begin

text \<open>
  The driver's device context and private control channel: \<^verbatim>\<open>windows/driver/driver.cpp\<close>. A request
  carries the fields the handlers read; what a handler does with it is its completion, or its
  forwarding to PortCls. The results of the kernel calls are arguments. The lemmas show that
  the claim on the ring belongs to one process until that process unmaps, closes a handle or
  the device goes away, and that only a handle of the control channel reaches the ring.
\<close>

section \<open>Requests\<close>

text \<open>\<open>CTL_CODE\<close> with \<open>METHOD_BUFFERED\<close> and \<open>FILE_DEVICE_SOUND\<close>.\<close>

definition FILE_READ_ACCESS :: u32 where "FILE_READ_ACCESS = 1"
definition FILE_WRITE_ACCESS :: u32 where "FILE_WRITE_ACCESS = 2"

definition ctl_code :: "u32 \<Rightarrow> u32 \<Rightarrow> u32" where
  "ctl_code func access = push_bit 16 0x1D OR push_bit 14 access OR push_bit 2 func"

definition IOCTL_SMARTMIC_GET_VERSION :: u32 where "IOCTL_SMARTMIC_GET_VERSION = ctl_code 0x800 FILE_READ_ACCESS"
definition IOCTL_SMARTMIC_MAP_RING :: u32 where
  "IOCTL_SMARTMIC_MAP_RING = ctl_code 0x801 (FILE_READ_ACCESS OR FILE_WRITE_ACCESS)"
definition IOCTL_SMARTMIC_UNMAP_RING :: u32 where
  "IOCTL_SMARTMIC_UNMAP_RING = ctl_code 0x802 (FILE_READ_ACCESS OR FILE_WRITE_ACCESS)"
definition IOCTL_SMARTMIC_GET_STATS :: u32 where "IOCTL_SMARTMIC_GET_STATS = ctl_code 0x803 FILE_READ_ACCESS"

definition SMARTMIC_DRIVER_VERSION :: u32 where "SMARTMIC_DRIVER_VERSION = 0x00010000"

record version_info =
  vi_driverVersion :: u32
  vi_ringVersion :: u32
  vi_ringTotalBytes :: u32

text \<open>What a handler copies into the system buffer.\<close>

datatype ioctl_out = Out_None | Out_Version version_info | Out_Map u64 u32 | Out_Stats driver_stats

text \<open>\<open>sizeof\<close> of the three structures, on 64-bit Windows.\<close>

definition sizeof_version_info :: u32 where "sizeof_version_info = 16"
definition sizeof_map_result :: u32 where "sizeof_map_result = 16"
definition sizeof_driver_stats :: u32 where "sizeof_driver_stats = 24"

record file_object =
  fo_FileName :: "string option"
  fo_ours :: bool

record irp =
  ir_file :: "file_object option"
  ir_code :: u32
  ir_inLen :: u32
  ir_outLen :: u32
  ir_buffer :: bool
  ir_pid :: nat

datatype irp_result = Completed ntstatus u32 ioctl_out | Forwarded

section \<open>The device context\<close>

record device_context =
  dc_ring :: "driver_ring option"
  dc_interfaceRegistered :: bool
  dc_interfaceEnabled :: bool

text \<open>\<open>g_SmartMicContext\<close>; \<open>NULL\<close> is \<open>None\<close>.\<close>

type_synonym driver = "device_context option"

definition NT_SUCCESS :: "ntstatus \<Rightarrow> bool" where
  "NT_SUCCESS st \<longleftrightarrow> st = STATUS_SUCCESS"

definition SmartMicIsOurFile :: "irp \<Rightarrow> bool" where
  "SmartMicIsOurFile i = (case ir_file i of None \<Rightarrow> False | Some f \<Rightarrow> fo_ours f)"

text \<open>The handler returns whether it was its request, its status, what it copied out, and its state.\<close>

definition SmartMicHandlePrivateIoctl ::
  "u64 option \<Rightarrow> irp \<Rightarrow> driver \<Rightarrow> bool \<times> ntstatus \<times> u32 \<times> ioctl_out \<times> driver" where
  "SmartMicHandlePrivateIoctl mapped i d =
     (case d of
        None \<Rightarrow> (True, STATUS_DEVICE_NOT_READY, 0, Out_None, d)
      | Some ctx \<Rightarrow>
          (case dc_ring ctx of
             None \<Rightarrow> (True, STATUS_DEVICE_NOT_READY, 0, Out_None, d)
           | Some r \<Rightarrow>
               if ir_code i = IOCTL_SMARTMIC_GET_VERSION then
                 (if ir_inLen i \<noteq> 0 \<or> ir_outLen i \<noteq> sizeof_version_info \<or> \<not> ir_buffer i
                  then (True, STATUS_INVALID_PARAMETER, 0, Out_None, d)
                  else (True, STATUS_SUCCESS, sizeof_version_info,
                        Out_Version \<lparr>vi_driverVersion = SMARTMIC_DRIVER_VERSION,
                          vi_ringVersion = SMARTMIC_RING_VERSION, vi_ringTotalBytes = SMARTMIC_RING_TOTAL_BYTES\<rparr>, d))
               else if ir_code i = IOCTL_SMARTMIC_MAP_RING then
                 (if ir_inLen i \<noteq> 0 \<or> ir_outLen i \<noteq> sizeof_map_result \<or> \<not> ir_buffer i
                  then (True, STATUS_INVALID_PARAMETER, 0, Out_None, d)
                  else
                    (case kr_map mapped (ir_pid i) r of
                       (status, base, tot, r') \<Rightarrow>
                         let d' = Some (ctx\<lparr>dc_ring := Some r'\<rparr>)
                         in (case base of
                               Some va \<Rightarrow> if NT_SUCCESS status
                                          then (True, STATUS_SUCCESS, sizeof_map_result, Out_Map va tot, d')
                                          else (True, status, 0, Out_None, d')
                             | None \<Rightarrow> (True, status, 0, Out_None, d'))))
               else if ir_code i = IOCTL_SMARTMIC_UNMAP_RING then
                 (if ir_inLen i \<noteq> 0 \<or> ir_outLen i \<noteq> 0
                  then (True, STATUS_INVALID_PARAMETER, 0, Out_None, d)
                  else
                    (case kr_unmap (ir_pid i) r of
                       (status, r') \<Rightarrow> (True, status, 0, Out_None, Some (ctx\<lparr>dc_ring := Some r'\<rparr>))))
               else if ir_code i = IOCTL_SMARTMIC_GET_STATS then
                 (if ir_inLen i \<noteq> 0 \<or> ir_outLen i \<noteq> sizeof_driver_stats \<or> \<not> ir_buffer i
                  then (True, STATUS_INVALID_PARAMETER, 0, Out_None, d)
                  else (True, STATUS_SUCCESS, sizeof_driver_stats, Out_Stats (kr_getStats r), d))
               else (False, STATUS_NOT_SUPPORTED, 0, Out_None, d)))"

text \<open>The comparison of names ignores case.\<close>

definition ascii_upper :: "char \<Rightarrow> char" where
  "ascii_upper ch = (let k = (of_char ch :: nat) in if 97 \<le> k \<and> k \<le> 122 then char_of (k - 32) else ch)"

definition name_equal :: "string \<Rightarrow> string \<Rightarrow> bool" where
  "name_equal a b \<longleftrightarrow> map ascii_upper a = map ascii_upper b"

definition SMARTMIC_CONTROL_REFERENCE :: string where "SMARTMIC_CONTROL_REFERENCE = ''SmartMicControl''"

definition FILE_OPENED :: u32 where "FILE_OPENED = 1"

text \<open>\<open>IRP_MJ_CREATE\<close>: the result and the file object.\<close>

definition SmartMicCreate :: "irp \<Rightarrow> irp_result \<times> file_object option" where
  "SmartMicCreate i =
     (case ir_file i of
        None \<Rightarrow> (Forwarded, None)
      | Some f \<Rightarrow>
          (case fo_FileName f of
             None \<Rightarrow> (Forwarded, Some f)
           | Some nm \<Rightarrow>
               if nm \<noteq> [] \<and> (name_equal nm (CHR 0x5C # SMARTMIC_CONTROL_REFERENCE) \<or>
                               name_equal nm SMARTMIC_CONTROL_REFERENCE)
               then (Completed STATUS_SUCCESS FILE_OPENED Out_None, Some (f\<lparr>fo_ours := True\<rparr>))
               else (Forwarded, Some f)))"

definition SmartMicCleanup :: "irp \<Rightarrow> irp_result" where
  "SmartMicCleanup i = (if SmartMicIsOurFile i then Completed STATUS_SUCCESS 0 Out_None else Forwarded)"

definition SmartMicDeviceControl :: "u64 option \<Rightarrow> irp \<Rightarrow> driver \<Rightarrow> irp_result \<times> driver" where
  "SmartMicDeviceControl mapped i d =
     (if \<not> SmartMicIsOurFile i then (Forwarded, d)
      else (case SmartMicHandlePrivateIoctl mapped i d of
              (handled, status, info, out, d') \<Rightarrow>
                if \<not> handled then (Forwarded, d') else (Completed status info out, d')))"

text \<open>\<open>IRP_MJ_CLOSE\<close>: the claim is dropped before the handler asks whose handle it is.\<close>

definition SmartMicClose :: "irp \<Rightarrow> driver \<Rightarrow> irp_result \<times> file_object option \<times> driver" where
  "SmartMicClose i d =
     (let d' = map_option (\<lambda>ctx. ctx\<lparr>dc_ring := map_option (kr_releaseClaimIfOwner (ir_pid i)) (dc_ring ctx)\<rparr>) d
      in if SmartMicIsOurFile i
         then (Completed STATUS_SUCCESS 0 Out_None, map_option (\<lambda>f. f\<lparr>fo_ours := False\<rparr>) (ir_file i), d')
         else (Forwarded, ir_file i, d'))"

section \<open>Device start, removal and addition\<close>

definition SmartMicStartDevice :: "ntstatus \<Rightarrow> driver \<Rightarrow> ntstatus \<times> driver" where
  "SmartMicStartDevice installed d =
     (installed,
      if NT_SUCCESS installed
      then map_option (\<lambda>ctx. if dc_interfaceRegistered ctx then ctx\<lparr>dc_interfaceEnabled := True\<rparr> else ctx) d else d)"

definition IRP_MN_REMOVE_DEVICE :: u8 where "IRP_MN_REMOVE_DEVICE = 2"
definition IRP_MN_SURPRISE_REMOVAL :: u8 where "IRP_MN_SURPRISE_REMOVAL = 0x17"

text \<open>Both removals free the ring and the context; the request then goes on to PortCls.\<close>

definition SmartMicPnpHandler :: "u8 \<Rightarrow> driver \<Rightarrow> irp_result \<times> driver" where
  "SmartMicPnpHandler minor d =
     (Forwarded, if minor = IRP_MN_REMOVE_DEVICE \<or> minor = IRP_MN_SURPRISE_REMOVAL then None else d)"

text \<open>
  The results of the two allocations, of the ring's own, of \<open>PcAddAdapterDevice\<close> and of
  \<open>IoRegisterDeviceInterface\<close>.
\<close>

definition SmartMicAddDevice ::
  "bool \<Rightarrow> bool \<Rightarrow> bool \<Rightarrow> bool \<Rightarrow> ntstatus \<Rightarrow> ntstatus \<Rightarrow> driver \<Rightarrow> ntstatus \<times> driver" where
  "SmartMicAddDevice ctxMem ringMem alloc mdl added registered d =
     (if d \<noteq> None then (STATUS_DEVICE_ALREADY_ATTACHED, d)
      else if \<not> ctxMem then (STATUS_INSUFFICIENT_RESOURCES, d)
      else if \<not> ringMem then (STATUS_INSUFFICIENT_RESOURCES, d)
      else
        (case kr_initialize alloc mdl kr_new of
           (status, r) \<Rightarrow>
             if \<not> NT_SUCCESS status then (status, d)
             else if \<not> NT_SUCCESS added then (added, d)
             else (STATUS_SUCCESS, Some \<lparr>dc_ring = Some r, dc_interfaceRegistered = NT_SUCCESS registered,
                                         dc_interfaceEnabled = False\<rparr>)))"

text \<open>
  \<open>DriverEntry\<close> replaces these entries of the dispatch table and keeps the previous ones for
  forwarding.
\<close>

datatype major_function = MJ_DeviceControl | MJ_Close | MJ_Create | MJ_Cleanup | MJ_Pnp | MJ_Other

datatype dispatch = PortCls | SmartMic major_function

definition DriverEntry :: "ntstatus \<Rightarrow> (major_function \<Rightarrow> dispatch) \<Rightarrow> ntstatus \<times> (major_function \<Rightarrow> dispatch)" where
  "DriverEntry initialized table =
     (if \<not> NT_SUCCESS initialized then (initialized, table)
      else (STATUS_SUCCESS,
            table(MJ_DeviceControl := SmartMic MJ_DeviceControl, MJ_Close := SmartMic MJ_Close,
                  MJ_Create := SmartMic MJ_Create, MJ_Cleanup := SmartMic MJ_Cleanup,
                  MJ_Pnp := SmartMic MJ_Pnp)))"

section \<open>Histories of requests\<close>

datatype driver_call = DC_Create irp | DC_Cleanup irp | DC_Ioctl "u64 option" irp | DC_Close irp | DC_Pnp u8

fun drv_step :: "driver_call \<Rightarrow> driver \<Rightarrow> irp_result \<times> driver" where
  "drv_step (DC_Create i) d = (fst (SmartMicCreate i), d)"
| "drv_step (DC_Cleanup i) d = (SmartMicCleanup i, d)"
| "drv_step (DC_Ioctl mapped i) d = SmartMicDeviceControl mapped i d"
| "drv_step (DC_Close i) d = (fst (SmartMicClose i d), snd (snd (SmartMicClose i d)))"
| "drv_step (DC_Pnp minor) d = SmartMicPnpHandler minor d"

fun drv_run :: "driver_call list \<Rightarrow> driver \<Rightarrow> irp_result list \<times> driver" where
  "drv_run [] d = ([], d)"
| "drv_run (c # cs) d =
     (case drv_step c d of (res, d') \<Rightarrow> case drv_run cs d' of (rs, d'') \<Rightarrow> (res # rs, d''))"

definition drv_ring :: "driver \<Rightarrow> driver_ring option" where
  "drv_ring d = Option.bind d dc_ring"

definition drv_owner :: "driver \<Rightarrow> nat option" where
  "drv_owner d = Option.bind (drv_ring d) kr_clientProcess"

text \<open>The calls that end a process's claim.\<close>

fun drv_releases :: "nat \<Rightarrow> driver_call \<Rightarrow> bool" where
  "drv_releases p (DC_Ioctl mapped i) \<longleftrightarrow> ir_pid i = p \<and> ir_code i = IOCTL_SMARTMIC_UNMAP_RING"
| "drv_releases p (DC_Close i) \<longleftrightarrow> ir_pid i = p"
| "drv_releases p (DC_Pnp minor) \<longleftrightarrow> minor = IRP_MN_REMOVE_DEVICE \<or> minor = IRP_MN_SURPRISE_REMOVAL"
| "drv_releases p _ \<longleftrightarrow> False"

definition kr_claim_ok :: "driver_ring \<Rightarrow> bool" where
  "kr_claim_ok r \<longleftrightarrow> kr_mdl r \<and> (kr_claimed r \<longleftrightarrow> kr_clientProcess r \<noteq> None) \<and>
     (kr_userVa r = None \<longleftrightarrow> kr_clientProcess r = None)"

definition drv_ok :: "driver \<Rightarrow> bool" where
  "drv_ok d \<longleftrightarrow> (\<forall>r. drv_ring d = Some r \<longrightarrow> kr_claim_ok r)"

lemma kr_map_claim:
  "kr_claim_ok r \<Longrightarrow> kr_claim_ok (snd (snd (snd (kr_map mapped pid r))))"
  "kr_claim_ok r \<Longrightarrow> kr_clientProcess r \<noteq> None \<Longrightarrow> kr_map mapped pid r = (STATUS_DEVICE_BUSY, None, 0, r)"
  by (auto simp: kr_map_def kr_claim_ok_def Let_def split: option.split)

lemma kr_unmap_claim:
  "kr_claim_ok r \<Longrightarrow> kr_claim_ok (snd (kr_unmap pid r))"
  "kr_clientProcess r \<noteq> Some pid \<Longrightarrow> snd (kr_unmap pid r) = r"
  by (auto simp: kr_unmap_def kr_claim_ok_def)

lemma kr_release_claim:
  "kr_claim_ok r \<Longrightarrow> kr_claim_ok (kr_releaseClaimIfOwner pid r)"
  "kr_clientProcess r \<noteq> Some pid \<Longrightarrow> kr_releaseClaimIfOwner pid r = r"
  by (auto simp: kr_releaseClaimIfOwner_def kr_claim_ok_def)

lemmas claim_simps = kr_map_claim kr_unmap_claim kr_release_claim

lemma ioctl_codes_distinct [simp]:
  "IOCTL_SMARTMIC_MAP_RING \<noteq> IOCTL_SMARTMIC_GET_VERSION" "IOCTL_SMARTMIC_UNMAP_RING \<noteq> IOCTL_SMARTMIC_GET_VERSION"
  "IOCTL_SMARTMIC_UNMAP_RING \<noteq> IOCTL_SMARTMIC_MAP_RING" "IOCTL_SMARTMIC_GET_STATS \<noteq> IOCTL_SMARTMIC_GET_VERSION"
  "IOCTL_SMARTMIC_GET_STATS \<noteq> IOCTL_SMARTMIC_MAP_RING" "IOCTL_SMARTMIC_GET_STATS \<noteq> IOCTL_SMARTMIC_UNMAP_RING"
  by (simp_all add: IOCTL_SMARTMIC_GET_VERSION_def IOCTL_SMARTMIC_MAP_RING_def IOCTL_SMARTMIC_UNMAP_RING_def
      IOCTL_SMARTMIC_GET_STATS_def ctl_code_def FILE_READ_ACCESS_def FILE_WRITE_ACCESS_def)

text \<open>The private handler keeps the claim in order, and a held claim until its owner unmaps.\<close>

lemma ioctl_ring:
  assumes "SmartMicHandlePrivateIoctl mapped i d = (handled, st, info, out, d')" and "drv_ok d"
  shows "drv_ok d'"
    and "drv_owner d = Some p \<Longrightarrow> ir_pid i \<noteq> p \<or> ir_code i \<noteq> IOCTL_SMARTMIC_UNMAP_RING \<Longrightarrow>
      drv_owner d' = Some p \<and> (\<forall>va n. out \<noteq> Out_Map va n)"
    and "if out = Out_None then info = 0 else handled \<and> st = STATUS_SUCCESS \<and> info = ir_outLen i \<and> ir_buffer i"
proof -
  note defs = SmartMicHandlePrivateIoctl_def drv_ok_def drv_owner_def drv_ring_def NT_SUCCESS_def Let_def
  show "drv_ok d'"
    using assms kr_map_claim(1) [of _ mapped "ir_pid i"] kr_unmap_claim(1) [of _ "ir_pid i"]
    by (auto simp: defs split: option.splits if_splits prod.splits) (metis snd_conv)+
  show "if out = Out_None then info = 0 else handled \<and> st = STATUS_SUCCESS \<and> info = ir_outLen i \<and> ir_buffer i"
    using assms by (auto simp: defs split: option.splits if_splits prod.splits)
  assume own: "drv_owner d = Some p" and no: "ir_pid i \<noteq> p \<or> ir_code i \<noteq> IOCTL_SMARTMIC_UNMAP_RING"
  then obtain ctx r where r: "d = Some ctx" "dc_ring ctx = Some r" "kr_clientProcess r = Some p"
    by (auto simp: drv_owner_def drv_ring_def bind_eq_Some_conv)
  then have ok: "kr_claim_ok r" using assms(2) by (simp add: drv_ok_def drv_ring_def)
  have m: "kr_map mapped (ir_pid i) r = (STATUS_DEVICE_BUSY, None, 0, r)"
    using kr_map_claim(2) [OF ok] r(3) by simp
  show "drv_owner d' = Some p \<and> (\<forall>va n. out \<noteq> Out_Map va n)"
    using assms(1) r m no kr_unmap_claim(2) [of r "ir_pid i"]
    by (auto simp: defs split: option.splits if_splits prod.splits)
qed

lemma drv_step_ring:
  assumes "drv_step c d = (res, d')" and "drv_ok d"
  shows "drv_ok d'"
    and "drv_owner d = Some p \<Longrightarrow> \<not> drv_releases p c \<Longrightarrow>
      drv_owner d' = Some p \<and> (\<forall>st n va m. res \<noteq> Completed st n (Out_Map va m))"
    and "\<forall>st info out. res = Completed st info out \<longrightarrow> out \<noteq> Out_None \<longrightarrow>
      (\<exists>mapped i. c = DC_Ioctl mapped i \<and> SmartMicIsOurFile i \<and> st = STATUS_SUCCESS \<and> info = ir_outLen i)"
proof -
  have all: "drv_ok d' \<and> (drv_owner d = Some p \<longrightarrow> \<not> drv_releases p c \<longrightarrow>
      drv_owner d' = Some p \<and> (\<forall>st n va m. res \<noteq> Completed st n (Out_Map va m))) \<and>
    (\<forall>st info out. res = Completed st info out \<longrightarrow> out \<noteq> Out_None \<longrightarrow>
      (\<exists>mapped i. c = DC_Ioctl mapped i \<and> SmartMicIsOurFile i \<and> st = STATUS_SUCCESS \<and> info = ir_outLen i))" for p
  proof (cases c)
    case (DC_Create i)
    then show ?thesis
      using assms by (auto simp: SmartMicCreate_def split: option.splits if_splits)
  next
    case (DC_Cleanup i)
    then show ?thesis using assms by (auto simp: SmartMicCleanup_def split: if_splits)
  next
    case (DC_Ioctl mapped i)
    obtain handled st info out d1 where h: "SmartMicHandlePrivateIoctl mapped i d = (handled, st, info, out, d1)"
      by (metis prod_cases5)
    show ?thesis
      using assms DC_Ioctl h ioctl_ring [OF h assms(2)]
      by (auto simp: SmartMicDeviceControl_def split: if_splits)
  next
    case (DC_Close i)
    have ring: "drv_ring d' = map_option (kr_releaseClaimIfOwner (ir_pid i)) (drv_ring d)"
      using assms(1) DC_Close
      by (cases d) (auto simp: SmartMicClose_def drv_ring_def Let_def split: if_splits)
    then show ?thesis
      using assms DC_Close kr_release_claim
      by (auto simp: drv_ok_def drv_owner_def SmartMicClose_def Let_def bind_eq_Some_conv split: if_splits)
  next
    case (DC_Pnp minor)
    then show ?thesis
      using assms by (auto simp: SmartMicPnpHandler_def drv_ok_def drv_ring_def split: if_splits)
  qed
  from all show "drv_ok d'"
    and "drv_owner d = Some p \<Longrightarrow> \<not> drv_releases p c \<Longrightarrow>
      drv_owner d' = Some p \<and> (\<forall>st n va m. res \<noteq> Completed st n (Out_Map va m))"
    and "\<forall>st info out. res = Completed st info out \<longrightarrow> out \<noteq> Out_None \<longrightarrow>
      (\<exists>mapped i. c = DC_Ioctl mapped i \<and> SmartMicIsOurFile i \<and> st = STATUS_SUCCESS \<and> info = ir_outLen i)"
    by blast+
qed

lemma drv_run_ok: "drv_ok d \<Longrightarrow> drv_ok (snd (drv_run cs d))"
proof (induction cs arbitrary: d)
  case (Cons c cs)
  obtain res d' where s: "drv_step c d = (res, d')" by (metis prod.exhaust)
  show ?case using Cons.IH [OF drv_step_ring(1) [OF s Cons.prems]] s by (cases "drv_run cs d'") simp
qed simp

lemma drv_run_owner:
  "drv_ok d \<Longrightarrow> drv_owner d = Some p \<Longrightarrow> list_all (\<lambda>c. \<not> drv_releases p c) cs \<Longrightarrow>
   drv_owner (snd (drv_run cs d)) = Some p \<and>
   (\<forall>st n va m. Completed st n (Out_Map va m) \<notin> set (fst (drv_run cs d)))"
proof (induction cs arbitrary: d)
  case (Cons c cs)
  obtain res d' where s: "drv_step c d = (res, d')" by (metis prod.exhaust)
  note one = drv_step_ring [OF s Cons.prems(1)]
  show ?case
    using Cons.IH [OF one(1)] one(2) [of p] Cons.prems s by (auto split: prod.split)
qed simp

lemma drv_run_copies:
  "drv_ok d \<Longrightarrow> Completed st info out \<in> set (fst (drv_run cs d)) \<Longrightarrow> out \<noteq> Out_None \<Longrightarrow>
   \<exists>mapped i. DC_Ioctl mapped i \<in> set cs \<and> SmartMicIsOurFile i \<and> st = STATUS_SUCCESS \<and> info = ir_outLen i"
proof (induction cs arbitrary: d)
  case (Cons c cs)
  obtain res d' where s: "drv_step c d = (res, d')" by (metis prod.exhaust)
  note one = drv_step_ring [OF s Cons.prems(1)]
  show ?case
  proof (cases "Completed st info out = res")
    case True
    then show ?thesis using one(3) Cons.prems(3) by (metis list.set_intros(1))
  next
    case False
    then have "Completed st info out \<in> set (fst (drv_run cs d'))"
      using Cons.prems(2) s by (auto split: prod.splits)
    from Cons.IH [OF one(1) this Cons.prems(3)] show ?thesis by auto
  qed
qed simp

lemma drv_ok_added:
  assumes "SmartMicAddDevice ctxMem ringMem alloc mdl added registered None = (STATUS_SUCCESS, d)"
  shows "drv_ok d"
  using assms
  by (auto simp: SmartMicAddDevice_def kr_initialize_def kr_new_def drv_ok_def drv_ring_def kr_claim_ok_def
      NT_SUCCESS_def split: if_splits)

section \<open>Properties\<close>

text \<open>
  C28: the ring has one client. Over any history of requests on a device that was added, once a
  process holds the ring it keeps it until it unmaps, closes a handle on the device or the device
  is removed, and until then no request of any process, its own included, is answered with a
  mapping; and only a request through a handle of the control channel is ever answered with
  data, of exactly the length it asked for.
\<close>

theorem driver_claim_exclusive:
  fixes ctxMem ringMem alloc mdl added registered d cs cs' p
  assumes "SmartMicAddDevice ctxMem ringMem alloc mdl added registered None = (STATUS_SUCCESS, d)"
    and "drv_owner (snd (drv_run cs d)) = Some p" and "list_all (\<lambda>c. \<not> drv_releases p c) cs'"
  shows "drv_owner (snd (drv_run cs' (snd (drv_run cs d)))) = Some p \<and>
    (\<forall>st n va m. Completed st n (Out_Map va m) \<notin> set (fst (drv_run cs' (snd (drv_run cs d))))) \<and>
    (\<forall>st info out. Completed st info out \<in> set (fst (drv_run cs d)) \<and> out \<noteq> Out_None \<longrightarrow>
      (\<exists>mapped i. DC_Ioctl mapped i \<in> set cs \<and> SmartMicIsOurFile i \<and> st = STATUS_SUCCESS \<and> info = ir_outLen i))"
proof -
  note ok = drv_ok_added [OF assms(1)]
  show ?thesis
    using drv_run_owner [OF drv_run_ok [OF ok] assms(2,3)] drv_run_copies [OF ok] by blast
qed

text \<open>A handle on the control channel, and a mapping request through it.\<close>

definition demo_irp :: "nat \<Rightarrow> u32 \<Rightarrow> u32 \<Rightarrow> irp" where
  "demo_irp pid code outLen = \<lparr>ir_file = Some \<lparr>fo_FileName = Some SMARTMIC_CONTROL_REFERENCE, fo_ours = True\<rparr>,
     ir_code = code, ir_inLen = 0, ir_outLen = outLen, ir_buffer = True, ir_pid = pid\<rparr>"

theorem driver_claim_exclusive_witness:
  "let d = snd (SmartMicAddDevice True True True True STATUS_SUCCESS STATUS_SUCCESS None);
       m1 = DC_Ioctl (Some 4096) (demo_irp 1 IOCTL_SMARTMIC_MAP_RING 16);
       m2 = DC_Ioctl (Some 8192) (demo_irp 2 IOCTL_SMARTMIC_MAP_RING 16);
       c2 = DC_Close (demo_irp 2 0 0)
   in drv_owner (snd (drv_run [m2, c2, m2] (snd (drv_run [m1] d)))) = Some 1"
proof -
  let ?d = "snd (SmartMicAddDevice True True True True STATUS_SUCCESS STATUS_SUCCESS None)"
  let ?m1 = "DC_Ioctl (Some 4096) (demo_irp 1 IOCTL_SMARTMIC_MAP_RING 16)"
  have d: "SmartMicAddDevice True True True True STATUS_SUCCESS STATUS_SUCCESS None = (STATUS_SUCCESS, ?d)"
    by (simp add: SmartMicAddDevice_def kr_initialize_def NT_SUCCESS_def)
  have "drv_owner (snd (drv_run [?m1] ?d)) = Some 1"
    by (simp add: SmartMicAddDevice_def kr_initialize_def kr_new_def NT_SUCCESS_def demo_irp_def
        SmartMicDeviceControl_def SmartMicIsOurFile_def SmartMicHandlePrivateIoctl_def kr_map_def
        sizeof_map_result_def drv_owner_def drv_ring_def)
  note own = driver_claim_exclusive [OF d this, THEN conjunct1]
  show ?thesis unfolding Let_def by (rule own) (simp add: demo_irp_def)
qed

end
