(* ===== verification/DriverLink.thy ===== *)
theory DriverLink
  imports DriverControl AudioIO
begin

text \<open>
  The service's side of the driver ring: \<open>SmartMicDriverLink\<close> of
  \<^verbatim>\<open>windows/audio-service/platform/windows/smartmic_driver_link.cpp\<close>. Its calls go through the
  driver model of theory DriverControl; its writes go to the memory both sides share. The lemmas
  relate any history of writes, driver reads and stream opens to a tape of samples with a read
  position, which shows what the driver plays and the one case in which it never plays again.
\<close>

section \<open>Conversion\<close>

text \<open>\<open>std::clamp\<close>, and the conversion of \<open>write\<close>.\<close>

definition clamp :: "real \<Rightarrow> real \<Rightarrow> real \<Rightarrow> real" where
  "clamp x lo hi = (if x < lo then lo else if hi < x then hi else x)"

definition dl_pcm16 :: "(real \<Rightarrow> real) \<Rightarrow> real \<Rightarrow> pcm16" where
  "dl_pcm16 fl x = of_int (lround (fl (clamp x (fl (- 0.999)) (fl 0.999) * 32767)))"

section \<open>SmartMicDriverLink\<close>

record driver_link =
  dl_id :: string
  dl_device :: bool
  dl_ring :: bool
  dl_driverVersion :: u32

definition dl_new :: "string \<Rightarrow> driver_link" where
  "dl_new i = \<lparr>dl_id = i, dl_device = False, dl_ring = False, dl_driverVersion = 0\<rparr>"

text \<open>\<open>found\<close> is whether \<open>findDevicePath\<close> gave a path, \<open>created\<close> whether \<open>CreateFileW\<close> opened it.\<close>

definition dl_openDevice :: "bool \<Rightarrow> bool \<Rightarrow> driver_link \<Rightarrow> bool \<times> driver_link" where
  "dl_openDevice found created l =
     (if \<not> found then (False, l)
      else if \<not> created then (False, l\<lparr>dl_device := False\<rparr>)
      else (True, l\<lparr>dl_device := True\<rparr>))"

text \<open>The requests of the link: its handle is one of the control channel.\<close>

definition dl_irp :: "nat \<Rightarrow> u32 \<Rightarrow> u32 \<Rightarrow> irp" where
  "dl_irp pid code outLen = \<lparr>ir_file = Some \<lparr>fo_FileName = Some SMARTMIC_CONTROL_REFERENCE, fo_ours = True\<rparr>,
     ir_code = code, ir_inLen = 0, ir_outLen = outLen, ir_buffer = outLen \<noteq> 0, ir_pid = pid\<rparr>"

text \<open>Closing the handle makes the cleanup and the close request.\<close>

definition dl_closeDevice :: "nat \<Rightarrow> driver_link \<times> driver \<Rightarrow> driver_link \<times> driver" where
  "dl_closeDevice pid = (\<lambda>(l, d).
     (let d' = (if dl_device l
                then snd (snd (SmartMicClose (dl_irp pid 0 0)
                            (snd (SmartMicDeviceControl None (dl_irp pid IOCTL_SMARTMIC_UNMAP_RING 0) d))))
                else d)
      in (l\<lparr>dl_device := False, dl_ring := False\<rparr>, d')))"

definition drv_mem :: "driver \<Rightarrow> (ring_header \<times> pcm16 list) option" where
  "drv_mem d = Option.bind (drv_ring d) kr_mem"

definition drv_setMem :: "(ring_header \<times> pcm16 list) \<Rightarrow> driver \<Rightarrow> driver" where
  "drv_setMem m d = map_option (\<lambda>ctx. ctx\<lparr>dc_ring := map_option (\<lambda>r. r\<lparr>kr_mem := Some m\<rparr>) (dc_ring ctx)\<rparr>) d"

text \<open>\<open>now\<close> is the interrupt time.\<close>

definition dl_beat :: "u64 \<Rightarrow> ring_header \<Rightarrow> ring_header" where
  "dl_beat now h = h\<lparr>rh_producerHeartbeat := now\<rparr>"

definition dl_start ::
  "nat \<Rightarrow> bool \<Rightarrow> bool \<Rightarrow> u64 option \<Rightarrow> u64 \<Rightarrow> driver_link \<times> driver \<Rightarrow> bool \<times> driver_link \<times> driver" where
  "dl_start pid found created mapped now = (\<lambda>(l, d).
     (if dl_ring l then (True, l, d)
      else
        (case dl_openDevice found created l of
           (opened, l1) \<Rightarrow>
             if \<not> opened then (False, l1, d)
             else
               (case SmartMicDeviceControl None (dl_irp pid IOCTL_SMARTMIC_GET_VERSION sizeof_version_info) d of
                  (Completed st n (Out_Version v), d1) \<Rightarrow>
                    let l2 = l1\<lparr>dl_driverVersion := vi_driverVersion v\<rparr>
                    in if vi_ringVersion v \<noteq> SMARTMIC_RING_VERSION \<or> vi_ringTotalBytes v \<noteq> SMARTMIC_RING_TOTAL_BYTES
                       then (False, dl_closeDevice pid (l2, d1))
                       else
                         (case SmartMicDeviceControl mapped (dl_irp pid IOCTL_SMARTMIC_MAP_RING sizeof_map_result) d1 of
                            (Completed st n (Out_Map va tot), d2) \<Rightarrow>
                              if va = 0 then (False, dl_closeDevice pid (l2, d2))
                              else
                                (case drv_mem d2 of
                                   Some (h, p) \<Rightarrow>
                                     let l3 = l2\<lparr>dl_ring := True\<rparr>
                                     in if rh_magic h \<noteq> SMARTMIC_RING_MAGIC
                                        then (False, dl_closeDevice pid (l3, d2))
                                        else (True, l3, drv_setMem (dl_beat now h, p) d2)
                                 | None \<Rightarrow> (False, dl_closeDevice pid (l2, d2)))
                          | (_, d2) \<Rightarrow> (False, dl_closeDevice pid (l2, d2)))
                | (_, d1) \<Rightarrow> (False, dl_closeDevice pid (l1, d1))))))"

definition dl_stop :: "nat \<Rightarrow> driver_link \<times> driver \<Rightarrow> driver_link \<times> driver" where
  "dl_stop pid s = dl_closeDevice pid s"

text \<open>The body of \<open>write\<close> on the shared memory.\<close>

definition dl_put :: "(real \<Rightarrow> real) \<Rightarrow> u64 \<Rightarrow> samples \<Rightarrow> ring_header \<times> pcm16 list \<Rightarrow> ring_header \<times> pcm16 list" where
  "dl_put fl now xs = (\<lambda>(h, p).
     (let scratch = map (dl_pcm16 fl) xs;
          n = length xs;
          write_ix = rh_writeIndex h;
          used = write_ix - rh_readIndex h
      in if used + of_nat n > ucast SMARTMIC_RING_FRAMES
         then (dl_beat now (h\<lparr>rh_overrunCount := rh_overrunCount h + of_nat n\<rparr>), p)
         else
           let offset = unat (write_ix AND ucast SMARTMIC_RING_MASK);
               first = min n (unat SMARTMIC_RING_FRAMES - offset);
               p1 = blit offset (take first scratch) p;
               p2 = (if n > first then blit 0 (drop first scratch) p1 else p1)
           in (dl_beat now (h\<lparr>rh_writeIndex := write_ix + of_nat n\<rparr>), p2)))"

text \<open>A mapping whose device has been removed is outside the model; \<open>write\<close> refuses there.\<close>

definition dl_write :: "(real \<Rightarrow> real) \<Rightarrow> u64 \<Rightarrow> samples \<Rightarrow> driver_link \<times> driver \<Rightarrow> bool \<times> driver_link \<times> driver" where
  "dl_write fl now xs = (\<lambda>(l, d).
     (if \<not> dl_ring l then (False, l, d)
      else (case drv_mem d of
              None \<Rightarrow> (False, l, d)
            | Some m \<Rightarrow> (True, l, drv_setMem (dl_put fl now xs m) d))))"

definition dl_endpointReady :: "driver_link \<Rightarrow> bool" where
  "dl_endpointReady l = dl_ring l"

definition dl_counter :: "(ring_header \<Rightarrow> u64) \<Rightarrow> driver_link \<times> driver \<Rightarrow> u64" where
  "dl_counter f = (\<lambda>(l, d). if dl_ring l then (case drv_mem d of Some (h, p) \<Rightarrow> f h | None \<Rightarrow> 0) else 0)"

definition dl_underrunCount :: "driver_link \<times> driver \<Rightarrow> u64" where
  "dl_underrunCount s = dl_counter (\<lambda>h. ucast (rh_underrunCount h)) s"

definition dl_overrunCount :: "driver_link \<times> driver \<Rightarrow> u64" where
  "dl_overrunCount s = dl_counter (\<lambda>h. ucast (rh_overrunCount h)) s"

definition dl_framesDelivered :: "driver_link \<times> driver \<Rightarrow> u64" where
  "dl_framesDelivered s = dl_counter rh_framesDelivered s"

definition dl_streamOpen :: "driver_link \<times> driver \<Rightarrow> bool" where
  "dl_streamOpen s \<longleftrightarrow> dl_counter (\<lambda>h. ucast (rh_streamOpen h)) s \<noteq> 0"

section \<open>Writing into the ring\<close>

lemma ring_frames_nat [simp]: "unat SMARTMIC_RING_FRAMES = 8192"
  by (simp add: SMARTMIC_RING_FRAMES_def)

lemma ring_frames_u64 [simp]: "(ucast SMARTMIC_RING_FRAMES :: u64) = 8192"
  by (simp add: SMARTMIC_RING_FRAMES_def)

lemma unat_ring_slot: "unat ((w :: u64) AND ucast SMARTMIC_RING_MASK) = unat w mod 8192"
  unfolding ring_mask_u64 by (subst unat_mask_mod) simp_all

text \<open>What the two copies leave at each slot.\<close>

definition dl_copy :: "nat \<Rightarrow> pcm16 list \<Rightarrow> pcm16 list \<Rightarrow> pcm16 list" where
  "dl_copy w src p =
     (let offset = w mod 8192; first = min (length src) (8192 - offset); p1 = blit offset (take first src) p
      in if length src > first then blit 0 (drop first src) p1 else p1)"

lemma dl_copy_nth:
  assumes "length p = 8192" and "length src \<le> 8192"
  shows "length (dl_copy w src p) = 8192"
    and "k < length src \<Longrightarrow> dl_copy w src p ! ((w + k) mod 8192) = src ! k"
    and "length src \<le> k \<Longrightarrow> k < 8192 \<Longrightarrow> dl_copy w src p ! ((w + k) mod 8192) = p ! ((w + k) mod 8192)"
proof -
  define d where "d = w mod 8192"
  define f where "f = min (length src) (8192 - d)"
  have d: "d < 8192" by (simp add: d_def)
  have m: "(w + k) mod 8192 = (if d + k < 8192 then d + k else d + k - 8192)" if "k < 8192" for k
  proof -
    have "(w + k) mod 8192 = (d + k) mod 8192" unfolding d_def by (rule mod_add_left_eq [symmetric])
    also have "\<dots> = (if d + k < 8192 then d + k else d + k - 8192)" using that d by (simp add: mod_if)
    finally show ?thesis .
  qed
  define p1 where "p1 = blit d (take f src) p"
  have f: "f \<le> length src" "d + f \<le> 8192" using d by (auto simp: f_def)
  have p1: "length p1 = 8192" "\<And>i. i < 8192 \<Longrightarrow> p1 ! i = (if d \<le> i \<and> i < d + f then src ! (i - d) else p ! i)"
    using f assms by (auto simp: p1_def nth_blit)
  have c: "dl_copy w src p = (if length src > f then blit 0 (drop f src) p1 else p1)"
    unfolding dl_copy_def Let_def d_def [symmetric] f_def [symmetric] p1_def [symmetric] by (rule refl)
  have rest: "length (drop f src) \<le> 8192" "length src > f \<Longrightarrow> d + f = 8192"
    using assms(2) d by (auto simp: f_def min_def)
  show len: "length (dl_copy w src p) = 8192" using p1 rest by (auto simp: c)
  have nth: "dl_copy w src p ! i = (if i < length src - f then src ! (f + i) else p1 ! i)" if "i < 8192" for i
    using that p1 rest f by (auto simp: c nth_blit)
  show "k < length src \<Longrightarrow> dl_copy w src p ! ((w + k) mod 8192) = src ! k"
  proof -
    assume k: "k < length src"
    show ?thesis
    proof (cases "d + k < 8192")
      case True
      then have "k < f" using k by (simp add: f_def)
      moreover have "\<not> d + k < length src - f"
        using rest(2) True f assms(2) by linarith
      ultimately show ?thesis using nth [of "d + k"] p1(2) [of "d + k"] True m [of k] k assms(2) by simp
    next
      case False
      then have fd: "f = 8192 - d" using k by (simp add: f_def)
      then have "f + (d + k - 8192) = k" "d + k - 8192 < length src - f" using False k d by linarith+
      then show ?thesis using nth [of "d + k - 8192"] False m [of k] k assms(2) by simp
    qed
  qed
  show "length src \<le> k \<Longrightarrow> k < 8192 \<Longrightarrow> dl_copy w src p ! ((w + k) mod 8192) = p ! ((w + k) mod 8192)"
  proof -
    assume k: "length src \<le> k" "k < 8192"
    show ?thesis
    proof (cases "d + k < 8192")
      case True
      then have "f = length src" using k by (simp add: f_def)
      then show ?thesis using nth [of "d + k"] p1(2) [of "d + k"] True m [OF k(2)] k by simp
    next
      case False
      then have "\<not> d + k - 8192 < length src - f" "d + k - 8192 < d" using k d f rest(2) by linarith+
      then show ?thesis using nth [of "d + k - 8192"] p1(2) [of "d + k - 8192"] False m [OF k(2)] k d by simp
    qed
  qed
qed

section \<open>The tape the ring implements\<close>

text \<open>
  Everything the link has accepted, the position the driver reads from, which may run ahead of
  it, and the last heartbeat.
\<close>

record tape =
  tp_hist :: "pcm16 list"
  tp_pos :: nat
  tp_beat :: u64

definition tape_put :: "pcm16 list \<Rightarrow> u64 \<Rightarrow> tape \<Rightarrow> tape" where
  "tape_put ys now t =
     (let n = length (tp_hist t) + length ys
      in if tp_pos t \<le> n \<and> n \<le> tp_pos t + 8192
         then t\<lparr>tp_hist := tp_hist t @ ys, tp_beat := now\<rparr> else t\<lparr>tp_beat := now\<rparr>)"

definition tape_alive :: "u64 \<Rightarrow> tape \<Rightarrow> bool" where
  "tape_alive now t \<longleftrightarrow> tp_beat t \<noteq> 0 \<and> now \<ge> tp_beat t \<and> now - tp_beat t < 2500000"

definition tape_at :: "tape \<Rightarrow> nat \<Rightarrow> pcm16" where
  "tape_at t k = (if k < length (tp_hist t) then tp_hist t ! k else 0)"

definition tape_read :: "u64 \<Rightarrow> nat \<Rightarrow> tape \<Rightarrow> pcm16 list \<times> tape" where
  "tape_read now n t =
     (if tape_alive now t
      then (map (tape_at t) [tp_pos t..<tp_pos t + n], t\<lparr>tp_pos := tp_pos t + n\<rparr>)
      else (replicate n 0, t))"

definition tape_open :: "bool \<Rightarrow> tape \<Rightarrow> tape" where
  "tape_open opn t = (if opn then t\<lparr>tp_pos := length (tp_hist t)\<rparr> else t)"

definition tape_rel :: "nat \<Rightarrow> ring_header \<times> pcm16 list \<Rightarrow> tape \<Rightarrow> bool" where
  "tape_rel b = (\<lambda>(h, p) t.
     rh_writeIndex h = of_nat (length (tp_hist t)) \<and> rh_readIndex h = of_nat (tp_pos t) \<and>
     rh_producerHeartbeat h = tp_beat t \<and> length p = 8192 \<and>
     length (tp_hist t) \<le> b \<and> tp_pos t \<le> b \<and> length (tp_hist t) \<le> tp_pos t + 8192 \<and>
     (\<forall>k<length (tp_hist t). length (tp_hist t) \<le> k + 8192 \<longrightarrow> p ! (k mod 8192) = tp_hist t ! k))"

lemma dl_put_copy:
  "dl_put fl now xs (h, p) =
     (if rh_writeIndex h - rh_readIndex h + of_nat (length xs) > 8192
      then (dl_beat now (h\<lparr>rh_overrunCount := rh_overrunCount h + of_nat (length xs)\<rparr>), p)
      else (dl_beat now (h\<lparr>rh_writeIndex := rh_writeIndex h + of_nat (length xs)\<rparr>),
            dl_copy (unat (rh_writeIndex h)) (map (dl_pcm16 fl) xs) p))"
  by (simp add: dl_put_def dl_copy_def Let_def unat_ring_slot)

lemma unat_u64_small: "n < 2 ^ 62 \<Longrightarrow> unat (of_nat n :: u64) = n"
  by (rule unat_of_nat_u64) simp

text \<open>The space test of \<open>write\<close>, which wraps when the driver has read ahead.\<close>

lemma dl_space:
  assumes "w < 2 ^ 62" and "r < 2 ^ 62" and "n \<le> 8192"
  shows "(of_nat w - of_nat r + of_nat n > (8192 :: u64)) \<longleftrightarrow> \<not> (r \<le> w + n \<and> w + n \<le> r + 8192)"
proof (cases "r \<le> w + n")
  case True
  then have "(of_nat w - of_nat r + of_nat n :: u64) = of_nat (w + n - r)"
    by (simp add: of_nat_diff)
  moreover have "unat (of_nat (w + n - r) :: u64) = w + n - r"
    by (rule unat_of_nat_u64) (use assms in simp)
  ultimately show ?thesis using True by (simp only: word_less_nat_alt) auto
next
  case False
  define d where "d = r - (w + n)"
  have d: "0 < d" "d < 2 ^ 62" using False assms by (auto simp: d_def)
  have "(of_nat w - of_nat r + of_nat n :: u64) = - of_nat d"
    using False by (simp add: d_def of_nat_diff)
  moreover have "unat (- of_nat d :: u64) = 2 ^ 64 - d"
  proof -
    have "(of_nat (2 ^ 64 - d) :: u64) = of_nat (2 ^ 64) - of_nat d" by (rule of_nat_diff) (use d(2) in simp)
    also have "(of_nat (2 ^ 64) :: u64) = 0" by simp
    finally have "- of_nat d = (of_nat (2 ^ 64 - d) :: u64)" by simp
    moreover have "2 ^ 64 - d < 2 ^ 64" using d by simp
    ultimately show ?thesis using unat_of_nat_u64 by metis
  qed
  moreover have "(8192::nat) < 2 ^ 64 - d" using d(2) by simp
  ultimately show ?thesis using False by (simp add: word_less_nat_alt)
qed

lemma tape_put_rel:
  assumes rel: "tape_rel b (h, p) t" and n: "length xs \<le> 8192" and b: "b + length xs < 2 ^ 62"
  shows "tape_rel (b + length xs) (dl_put fl now xs (h, p)) (tape_put (map (dl_pcm16 fl) xs) now t)"
proof -
  define w where "w = length (tp_hist t)"
  note r = rel [unfolded tape_rel_def split_conv, folded w_def]
  have w: "rh_writeIndex h = of_nat w" "w < 2 ^ 62" "tp_pos t < 2 ^ 62" "unat (rh_writeIndex h) = w"
    using r b unat_u64_small [of w] by auto
  have space: "(rh_writeIndex h - rh_readIndex h + of_nat (length xs) > 8192) \<longleftrightarrow>
      \<not> (tp_pos t \<le> w + length xs \<and> w + length xs \<le> tp_pos t + 8192)"
    using dl_space [OF w(2,3) n] r by simp
  show ?thesis
  proof (cases "tp_pos t \<le> w + length xs \<and> w + length xs \<le> tp_pos t + 8192")
    case False
    then show ?thesis
      using r space by (auto simp: dl_put_copy tape_put_def tape_rel_def dl_beat_def w_def [symmetric] Let_def)
  next
    case True
    let ?src = "map (dl_pcm16 fl) xs"
    have src: "length ?src \<le> 8192" using n by simp
    note copy = dl_copy_nth [where p = p and src = ?src and w = w, OF _ src]
    have slots: "dl_copy w ?src p ! (k mod 8192) = (tp_hist t @ ?src) ! k"
      if k: "k < w + length xs" "w + length xs \<le> k + 8192" for k
    proof (cases "w \<le> k")
      case True
      then show ?thesis using copy(2) [of "k - w"] r k by (simp add: nth_append w_def)
    next
      case False
      then have "8192 - (w - k) < 8192" "length ?src \<le> 8192 - (w - k)" "(w + (8192 - (w - k))) = k + 8192"
        using k by auto
      then have "dl_copy w ?src p ! ((k + 8192) mod 8192) = p ! ((k + 8192) mod 8192)"
        using copy(3) [of "8192 - (w - k)"] r by simp
      then show ?thesis using False r k by (simp add: nth_append w_def [symmetric])
    qed
    have "length (dl_copy w ?src p) = 8192" using copy(1) r by simp
    moreover have p: "dl_put fl now xs (h, p) =
        (dl_beat now (h\<lparr>rh_writeIndex := of_nat w + of_nat (length xs)\<rparr>), dl_copy w ?src p)"
      using space True w by (simp add: dl_put_copy)
    moreover have "tape_put ?src now t = t\<lparr>tp_hist := tp_hist t @ ?src, tp_beat := now\<rparr>"
      using True by (simp add: tape_put_def w_def [symmetric])
    ultimately show ?thesis
      using r slots True by (simp add: tape_rel_def dl_beat_def w_def [symmetric])
  qed
qed

text \<open>The driver's read.\<close>

lemma kr_span_rel:
  assumes rel: "tape_rel b (h, p) t" and b: "b < 2 ^ 62"
  obtains available where "kr_span h = (rh_readIndex h, available, rh_overrunCount h)"
    "unat available = length (tp_hist t) - tp_pos t"
proof -
  note r = rel [unfolded tape_rel_def split_conv]
  have u: "unat (rh_writeIndex h) = length (tp_hist t)" "unat (rh_readIndex h) = tp_pos t"
    using r b by (simp_all add: unat_u64_small)
  show ?thesis
  proof (cases "tp_pos t \<le> length (tp_hist t)")
    case True
    then have le: "rh_readIndex h \<le> rh_writeIndex h" using u by (simp add: word_le_nat_alt)
    then have a: "unat (rh_writeIndex h - rh_readIndex h) = length (tp_hist t) - tp_pos t"
      using u by (simp add: unat_sub)
    moreover have "length (tp_hist t) - tp_pos t \<le> 8192" using r by linarith
    ultimately have "\<not> rh_writeIndex h - rh_readIndex h > 8192" by (simp only: word_less_nat_alt) simp
    then show ?thesis using that a le by (simp add: kr_span_def Let_def)
  next
    case False
    then have "\<not> rh_readIndex h \<le> rh_writeIndex h" using u by (simp add: word_le_nat_alt)
    then show ?thesis using that [of 0] False by (simp add: kr_span_def)
  qed
qed

lemma tape_rel_alive:
  assumes "tape_rel b (h, p) t" and "kr_mem r = Some (h, p)"
  shows "kr_producerAlive now r = tape_alive now t"
  using assms by (auto simp: kr_producerAlive_def tape_alive_def tape_rel_def SMARTMIC_PRODUCER_TIMEOUT_100NS_def Let_def)

lemma tape_read_rel:
  assumes rel: "tape_rel b (h, p) t" and mem: "kr_mem r = Some (h, p)"
    and dst: "length dst = unat frames" "unat frames < 2 ^ 31" and b: "b + unat frames < 2 ^ 62"
  shows "fst (snd (kr_read now dst frames r)) = fst (tape_read now (unat frames) t)"
    and "\<exists>h'. kr_mem (snd (snd (kr_read now dst frames r))) = Some (h', p) \<and>
      tape_rel (b + unat frames) (h', p) (snd (tape_read now (unat frames) t))"
proof -
  note tr = rel [unfolded tape_rel_def split_conv]
  let ?n = "unat frames" and ?w = "length (tp_hist t)"
  have both: "fst (snd (kr_read now dst frames r)) = fst (tape_read now ?n t) \<and>
    (\<exists>h'. kr_mem (snd (snd (kr_read now dst frames r))) = Some (h', p) \<and>
      tape_rel (b + ?n) (h', p) (snd (tape_read now ?n t)))"
  proof (cases "frames = 0 \<or> \<not> tape_alive now t")
    case True
    then show ?thesis
      using tr mem dst tape_rel_alive [OF rel mem, of now] kr_zero_all [OF dst]
      by (auto simp: kr_read_def tape_read_def tape_rel_def)
  next
    case False
    have "b < 2 ^ 62" using b by linarith
    then obtain available where sp: "kr_span h = (rh_readIndex h, available, rh_overrunCount h)"
        "unat available = ?w - tp_pos t"
      by (rule kr_span_rel [OF rel])
    define rf where "rf = (ucast (min (ucast frames) available) :: u32)"
    have rf: "unat rf = min ?n (?w - tp_pos t)" by (simp add: rf_def unat_real_frames sp(2))
    have rf8: "unat rf \<le> 8192" "unat rf \<le> length dst" using rf tr dst(1) by auto
    have ri: "unat (rh_readIndex h) = tp_pos t" using tr b by (simp add: unat_u64_small)
    have copy: "kr_copy p (rh_readIndex h) rf dst = kr_window p (tp_pos t) (unat rf) @ drop (unat rf) dst"
      using kr_copy_window [OF _ rf8, of p] tr ri by simp
    have lt: "rf < frames \<longleftrightarrow> unat rf < ?n" by (simp add: word_less_nat_alt)
    have sub: "unat (frames - rf) = ?n - unat rf" by (rule unat_sub) (use rf in \<open>simp add: word_le_nat_alt\<close>)
    have out: "(if rf < frames then blit (unat rf) (replicate (unat (frames - rf)) 0)
        (kr_copy p (rh_readIndex h) rf dst) else kr_copy p (rh_readIndex h) rf dst) =
        kr_window p (tp_pos t) (unat rf) @ replicate (?n - unat rf) 0"
      unfolding copy sub lt using rf dst(1) by (simp add: blit_def)
    have tape: "kr_window p (tp_pos t) (unat rf) @ replicate (?n - unat rf) 0 = map (tape_at t) [tp_pos t..<tp_pos t + ?n]"
    proof (rule nth_equalityI)
      fix i
      assume "i < length (kr_window p (tp_pos t) (unat rf) @ replicate (?n - unat rf) 0)"
      then have i: "i < ?n" using rf by simp
      show "(kr_window p (tp_pos t) (unat rf) @ replicate (?n - unat rf) 0) ! i =
          map (tape_at t) [tp_pos t..<tp_pos t + ?n] ! i"
      proof (cases "i < unat rf")
        case True
        then have "tp_pos t + i < ?w" "?w \<le> tp_pos t + i + 8192" using rf tr by auto
        then show ?thesis using True i tr by (simp add: nth_append kr_window_def tape_at_def)
      next
        case out: False
        then have "\<not> tp_pos t + i < ?w" using rf i by auto
        then show ?thesis using out i by (simp add: nth_append tape_at_def)
      qed
    qed (use rf in simp)
    have nz: "frames \<noteq> 0" "kr_producerAlive now r" "tape_alive now t"
      using False tape_rel_alive [OF rel mem] by simp_all
    have "fst (snd (kr_read now dst frames r)) = map (tape_at t) [tp_pos t..<tp_pos t + ?n]"
      using nz out tape unfolding rf_def by (simp add: kr_read_def mem sp(1) Let_def split del: if_split)
    moreover obtain h' where h': "kr_mem (snd (snd (kr_read now dst frames r))) = Some (h', p)"
        "rh_writeIndex h' = rh_writeIndex h" "rh_readIndex h' = rh_readIndex h + ucast frames"
        "rh_producerHeartbeat h' = rh_producerHeartbeat h"
      using nz by (simp add: kr_read_def mem sp(1) Let_def)
    moreover have "(ucast frames :: u64) = of_nat ?n" by simp
    then have "tape_rel (b + ?n) (h', p) (t\<lparr>tp_pos := tp_pos t + ?n\<rparr>)"
      using tr h'(2-4) by (simp add: tape_rel_def)
    ultimately show ?thesis using nz(3) by (simp add: tape_read_def)
  qed
  then show "fst (snd (kr_read now dst frames r)) = fst (tape_read now (unat frames) t)"
    and "\<exists>h'. kr_mem (snd (snd (kr_read now dst frames r))) = Some (h', p) \<and>
      tape_rel (b + unat frames) (h', p) (snd (tape_read now (unat frames) t))" by blast+
qed

section \<open>The link and the driver together\<close>

text \<open>A call of the service on the link, or of the stream on the ring.\<close>

datatype ring_call = RC_Write samples u64 | RC_Read u64 u32 "pcm16 list" | RC_Open bool

definition drv_setRing :: "driver_ring \<Rightarrow> driver \<Rightarrow> driver" where
  "drv_setRing r d = map_option (\<lambda>ctx. ctx\<lparr>dc_ring := Some r\<rparr>) d"

fun rc_step :: "(real \<Rightarrow> real) \<Rightarrow> ring_call \<Rightarrow> driver_link \<times> driver \<Rightarrow> pcm16 list option \<times> driver_link \<times> driver" where
  "rc_step fl (RC_Write xs now) s = (None, snd (dl_write fl now xs s))"
| "rc_step fl (RC_Read now frames dst) (l, d) =
     (case drv_ring d of
        None \<Rightarrow> (None, l, d)
      | Some r \<Rightarrow> (case kr_read now dst frames r of (n, out, r') \<Rightarrow> (Some out, l, drv_setRing r' d)))"
| "rc_step fl (RC_Open opn) (l, d) =
     (None, l, case drv_ring d of None \<Rightarrow> d | Some r \<Rightarrow> drv_setRing (kr_setStreamOpen opn r) d)"

fun rc_run :: "(real \<Rightarrow> real) \<Rightarrow> ring_call list \<Rightarrow> driver_link \<times> driver \<Rightarrow> pcm16 list option list \<times> driver_link \<times> driver" where
  "rc_run fl [] s = ([], s)"
| "rc_run fl (c # cs) s = (case rc_step fl c s of (out, s') \<Rightarrow> case rc_run fl cs s' of (outs, s'') \<Rightarrow> (out # outs, s''))"

fun tape_step :: "(real \<Rightarrow> real) \<Rightarrow> ring_call \<Rightarrow> tape \<Rightarrow> pcm16 list option \<times> tape" where
  "tape_step fl (RC_Write xs now) t = (None, tape_put (map (dl_pcm16 fl) xs) now t)"
| "tape_step fl (RC_Read now frames dst) t = (case tape_read now (unat frames) t of (out, t') \<Rightarrow> (Some out, t'))"
| "tape_step fl (RC_Open opn) t = (None, tape_open opn t)"

fun tape_run :: "(real \<Rightarrow> real) \<Rightarrow> ring_call list \<Rightarrow> tape \<Rightarrow> pcm16 list option list \<times> tape" where
  "tape_run fl [] t = ([], t)"
| "tape_run fl (c # cs) t = (case tape_step fl c t of (out, t') \<Rightarrow> case tape_run fl cs t' of (outs, t'') \<Rightarrow> (out # outs, t''))"

fun rc_ok :: "ring_call \<Rightarrow> bool" where
  "rc_ok (RC_Write xs now) \<longleftrightarrow> length xs \<le> 8192"
| "rc_ok (RC_Read now frames dst) \<longleftrightarrow> length dst = unat frames \<and> unat frames < 2 ^ 31"
| "rc_ok (RC_Open opn) \<longleftrightarrow> True"

fun rc_cost :: "ring_call \<Rightarrow> nat" where
  "rc_cost (RC_Write xs now) = length xs"
| "rc_cost (RC_Read now frames dst) = unat frames"
| "rc_cost (RC_Open opn) = 0"

definition link_rel :: "nat \<Rightarrow> driver_link \<times> driver \<Rightarrow> tape \<Rightarrow> bool" where
  "link_rel b = (\<lambda>(l, d) t. dl_ring l \<and> (\<exists>m. drv_mem d = Some m \<and> tape_rel b m t))"

lemma drv_mem_setMem [simp]: "drv_mem d \<noteq> None \<Longrightarrow> drv_mem (drv_setMem m d) = Some m"
  by (auto simp: drv_mem_def drv_setMem_def drv_ring_def bind_eq_Some_conv)

lemma drv_mem_setRing [simp]: "drv_ring d = Some r \<Longrightarrow> drv_mem (drv_setRing r' d) = kr_mem r'"
  by (auto simp: drv_mem_def drv_setRing_def drv_ring_def bind_eq_Some_conv)

lemma drv_mem_ring: "drv_mem d = Some m \<longleftrightarrow> (\<exists>r. drv_ring d = Some r \<and> kr_mem r = Some m)"
  by (auto simp: drv_mem_def bind_eq_Some_conv)

lemma rc_step_tape:
  assumes rel: "link_rel b s t" and ok: "rc_ok c" and cost: "b + rc_cost c < 2 ^ 62"
  shows "fst (rc_step fl c s) = fst (tape_step fl c t)"
    and "link_rel (b + rc_cost c) (snd (rc_step fl c s)) (snd (tape_step fl c t))"
proof -
  obtain l d h p where s: "s = (l, d)" "dl_ring l" "drv_mem d = Some (h, p)" "tape_rel b (h, p) t"
    using rel by (auto simp: link_rel_def)
  then obtain r where r: "drv_ring d = Some r" "kr_mem r = Some (h, p)" by (auto simp: drv_mem_ring)
  have both: "fst (rc_step fl c s) = fst (tape_step fl c t) \<and>
    link_rel (b + rc_cost c) (snd (rc_step fl c s)) (snd (tape_step fl c t))"
  proof (cases c)
    case (RC_Write xs now)
    then show ?thesis
      using s ok cost tape_put_rel [OF s(4), of xs fl now]
      by (cases "dl_put fl now xs (h, p)") (simp add: dl_write_def link_rel_def)
  next
    case (RC_Read now frames dst)
    note rd = tape_read_rel [OF s(4) r(2), of dst frames now]
    obtain n out r' where k: "kr_read now dst frames r = (n, out, r')" by (metis prod_cases3)
    obtain out' t' where tp: "tape_read now (unat frames) t = (out', t')" by (metis prod.exhaust)
    show ?thesis using RC_Read s r ok cost rd by (auto simp: k tp link_rel_def)
  next
    case (RC_Open opn)
    then show ?thesis
      using s r by (auto simp: kr_setStreamOpen_def link_rel_def tape_rel_def tape_open_def Let_def)
  qed
  then show "fst (rc_step fl c s) = fst (tape_step fl c t)"
    and "link_rel (b + rc_cost c) (snd (rc_step fl c s)) (snd (tape_step fl c t))" by blast+
qed

lemma rc_run_tape:
  "link_rel b s t \<Longrightarrow> list_all rc_ok cs \<Longrightarrow> b + sum_list (map rc_cost cs) < 2 ^ 62 \<Longrightarrow>
   fst (rc_run fl cs s) = fst (tape_run fl cs t) \<and>
   link_rel (b + sum_list (map rc_cost cs)) (snd (rc_run fl cs s)) (snd (tape_run fl cs t))"
proof (induction cs arbitrary: b s t)
  case (Cons c cs)
  obtain out s' where c: "rc_step fl c s = (out, s')" by (metis prod.exhaust)
  obtain out2 t' where t: "tape_step fl c t = (out2, t')" by (metis prod.exhaust)
  have "rc_ok c" "b + rc_cost c < 2 ^ 62" using Cons.prems(2,3) by simp_all
  note one = rc_step_tape [OF Cons.prems(1) this, of fl]
  have "link_rel (b + rc_cost c) s' t'" using one(2) c t by simp
  note rest = Cons.IH [OF this]
  show ?case
    using one(1) rest Cons.prems(2,3) c t
    by (cases "rc_run fl cs s'"; cases "tape_run fl cs t'") (simp add: add.assoc)
qed simp

text \<open>A link that has been started on a device just added is an empty tape.\<close>

lemma dl_ioctl_version:
  "drv_ring d = Some r \<Longrightarrow>
   SmartMicDeviceControl None (dl_irp pid IOCTL_SMARTMIC_GET_VERSION sizeof_version_info) d =
     (Completed STATUS_SUCCESS sizeof_version_info (Out_Version \<lparr>vi_driverVersion = SMARTMIC_DRIVER_VERSION,
        vi_ringVersion = SMARTMIC_RING_VERSION, vi_ringTotalBytes = SMARTMIC_RING_TOTAL_BYTES\<rparr>), d)"
  by (auto simp: drv_ring_def bind_eq_Some_conv SmartMicDeviceControl_def SmartMicIsOurFile_def dl_irp_def
      SmartMicHandlePrivateIoctl_def sizeof_version_info_def)

lemma dl_ioctl_map:
  assumes "drv_ring d = Some r" and "kr_mdl r" and "\<not> kr_claimed r"
  shows "SmartMicDeviceControl (Some va) (dl_irp pid IOCTL_SMARTMIC_MAP_RING sizeof_map_result) d =
     (Completed STATUS_SUCCESS sizeof_map_result (Out_Map va SMARTMIC_RING_TOTAL_BYTES),
      drv_setRing (r\<lparr>kr_claimed := True, kr_userVa := Some va, kr_clientProcess := Some pid\<rparr>) d)"
  using assms
  by (auto simp: drv_ring_def bind_eq_Some_conv SmartMicDeviceControl_def SmartMicIsOurFile_def dl_irp_def
      SmartMicHandlePrivateIoctl_def sizeof_map_result_def kr_map_def NT_SUCCESS_def drv_setRing_def Let_def)

definition ring_header_new :: ring_header where
  "ring_header_new = \<lparr>rh_magic = SMARTMIC_RING_MAGIC, rh_version = SMARTMIC_RING_VERSION,
     rh_capacityFrames = SMARTMIC_RING_FRAMES, rh_channels = SMARTMIC_CHANNELS,
     rh_sampleRate = SMARTMIC_SAMPLE_RATE, rh_bytesPerFrame = SMARTMIC_BYTES_PER_FRAME,
     rh_payloadOffset = SMARTMIC_RING_HEADER_BYTES, rh_writeIndex = 0, rh_producerHeartbeat = 0,
     rh_readIndex = 0, rh_underrunCount = 0, rh_overrunCount = 0, rh_framesDelivered = 0, rh_streamOpen = 0\<rparr>"

lemma dl_start_tape:
  assumes "SmartMicAddDevice True True True True STATUS_SUCCESS registered None = (STATUS_SUCCESS, d)"
    and "va \<noteq> 0"
  shows "fst (dl_start pid True True (Some va) now (dl_new i, d))"
    and "link_rel 0 (snd (dl_start pid True True (Some va) now (dl_new i, d))) \<lparr>tp_hist = [], tp_pos = 0, tp_beat = now\<rparr>"
proof -
  define r where "r = \<lparr>kr_mdl = True, kr_mem = Some (ring_header_new, replicate 8192 0), kr_userVa = None,
    kr_clientProcess = None, kr_claimed = False\<rparr>"
  have r: "drv_ring d = Some r"
    using assms(1)
    by (auto simp: SmartMicAddDevice_def kr_initialize_def kr_new_def NT_SUCCESS_def drv_ring_def r_def ring_header_new_def)
  define d2 where "d2 = drv_setRing (r\<lparr>kr_claimed := True, kr_userVa := Some va, kr_clientProcess := Some pid\<rparr>) d"
  have m: "drv_mem d2 = Some (ring_header_new, replicate 8192 0)"
    using r by (simp add: d2_def) (simp add: r_def)
  have "SmartMicDeviceControl (Some va) (dl_irp pid IOCTL_SMARTMIC_MAP_RING sizeof_map_result) d =
      (Completed STATUS_SUCCESS sizeof_map_result (Out_Map va SMARTMIC_RING_TOTAL_BYTES), d2)"
    unfolding d2_def by (rule dl_ioctl_map [OF r]) (simp_all add: r_def)
  then have s: "dl_start pid True True (Some va) now (dl_new i, d) =
      (True, \<lparr>dl_id = i, dl_device = True, dl_ring = True, dl_driverVersion = SMARTMIC_DRIVER_VERSION\<rparr>,
       drv_setMem (dl_beat now ring_header_new, replicate 8192 0) d2)"
    using assms(2) m
    by (simp add: dl_start_def dl_openDevice_def dl_new_def dl_ioctl_version [OF r]) (simp add: ring_header_new_def)
  then show "fst (dl_start pid True True (Some va) now (dl_new i, d))" by simp
  show "link_rel 0 (snd (dl_start pid True True (Some va) now (dl_new i, d))) \<lparr>tp_hist = [], tp_pos = 0, tp_beat = now\<rparr>"
    using m by (simp add: s link_rel_def) (simp add: tape_rel_def dl_beat_def ring_header_new_def)
qed

text \<open>The link is a sink: a frame of the router leaves the payload at its size.\<close>

definition link_ok :: "driver_link \<times> driver \<Rightarrow> bool" where
  "link_ok s \<longleftrightarrow> (case drv_mem (snd s) of None \<Rightarrow> True | Some (h, p) \<Rightarrow> length p = 8192)"

lemma dl_write_ok:
  assumes "link_ok s" and "length xs \<le> 8192"
  shows "link_ok (snd (dl_write fl now xs s))"
proof -
  obtain l d where s: "s = (l, d)" by (metis prod.exhaust)
  show ?thesis
  proof (cases "dl_ring l \<and> drv_mem d \<noteq> None")
    case True
    then obtain h p where m: "drv_mem d = Some (h, p)" by auto
    have "length p = 8192" using assms(1) s m by (simp add: link_ok_def)
    then have "length (snd (dl_put fl now xs (h, p))) = 8192"
      using dl_copy_nth(1) [of p "map (dl_pcm16 fl) xs"] assms(2) by (simp add: dl_put_copy)
    then show ?thesis
      using True s m by (cases "dl_put fl now xs (h, p)") (simp add: dl_write_def link_ok_def)
  qed (use assms s in \<open>auto simp: dl_write_def link_ok_def split: option.split\<close>)
qed

interpretation link_sink: audio_sink "dl_write fl now" link_ok
  for fl :: "real \<Rightarrow> real" and now :: u64
  by unfold_locales (simp add: dl_write_ok)

section \<open>Reading ahead\<close>

fun rc_within :: "nat \<Rightarrow> ring_call \<Rightarrow> bool" where
  "rc_within n (RC_Write xs now) \<longleftrightarrow> length xs \<le> n"
| "rc_within n (RC_Read now frames dst) \<longleftrightarrow> True"
| "rc_within n (RC_Open opn) \<longleftrightarrow> \<not> opn"

text \<open>Once the read position is a block ahead, every block is refused and only silence is read.\<close>

lemma tape_stuck:
  "length (tp_hist t) + n < tp_pos t \<Longrightarrow> list_all (rc_within n) cs \<Longrightarrow>
   tp_hist (snd (tape_run fl cs t)) = tp_hist t \<and> tp_pos t \<le> tp_pos (snd (tape_run fl cs t)) \<and>
   (\<forall>out. Some out \<in> set (fst (tape_run fl cs t)) \<longrightarrow> set out \<subseteq> {0})"
proof (induction cs arbitrary: t)
  case (Cons c cs)
  obtain out t' where t: "tape_step fl c t = (out, t')" by (metis prod.exhaust)
  have one: "tp_hist t' = tp_hist t \<and> tp_pos t \<le> tp_pos t' \<and> (\<forall>o'. out = Some o' \<longrightarrow> set o' \<subseteq> {0})"
  proof (cases c)
    case (RC_Write xs now)
    then show ?thesis using t Cons.prems by (auto simp: tape_put_def Let_def)
  next
    case (RC_Read now frames dst)
    then show ?thesis using t Cons.prems by (auto simp: tape_read_def tape_at_def split: if_splits)
  next
    case (RC_Open opn)
    then show ?thesis using t Cons.prems by (auto simp: tape_open_def)
  qed
  with Cons.IH [of t'] Cons.prems t show ?case by (cases "tape_run fl cs t'") auto
qed simp

lemma tape_rel_indices:
  assumes "tape_rel b (h, p) t" and "b < 2 ^ 62"
  shows "unat (rh_writeIndex h) = length (tp_hist t)" and "unat (rh_readIndex h) = tp_pos t"
  using assms by (simp_all add: tape_rel_def unat_u64_small)

text \<open>The conversion never overflows: the clamp keeps the product below the largest sample.\<close>

lemma sint_pcm16: "\<bar>k\<bar> \<le> 32767 \<Longrightarrow> sint (of_int k :: pcm16) = k"
  by (simp add: signed_of_int signed_take_bit_int_eq_self)

lemma dl_pcm16_exact:
  "sint (dl_pcm16 f32 x) = lround (f32 (clamp x (f32 (- 0.999)) (f32 0.999) * 32767)) \<and>
   \<bar>sint (dl_pcm16 f32 x)\<bar> \<le> 32767"
proof -
  define v where "v = clamp x (f32 (- 0.999)) (f32 0.999)"
  have c: "\<bar>f32 0.999\<bar> \<le> 1" "f32 (- 0.999) = - f32 0.999"
    using f32_abs_le_1 [of "0.999"] f32.fl_minus [of "0.999"] by simp_all
  then have "\<bar>v\<bar> \<le> 1" by (auto simp: v_def clamp_def)
  then have "\<bar>v * 32767\<bar> \<le> 32767" by (simp add: abs_mult)
  then have "\<bar>f32 (v * 32767)\<bar> \<le> of_int 32767"
    using f32.fl_abs_le [of "v * 32767" 32767] f32_int [of 32767] by simp
  then have "\<bar>lround (f32 (v * 32767))\<bar> \<le> 32767" by (rule lround_range)
  then show ?thesis using sint_pcm16 unfolding dl_pcm16_def v_def by simp
qed

section \<open>Properties\<close>

text \<open>
  C29: what the driver plays. For any history of writes, reads and stream opens on a link started
  on a fresh device, the driver reads exactly what the tape gives: at each position the sample
  the link accepted for it or, past the last one, silence, each read starting where the one
  before ended, and only silence while the heartbeat is stale; a block is accepted exactly when
  it would end at or after the read position and at most a ring ahead of it; and the conversion
  of a sample never leaves the 16-bit range.
\<close>

theorem driver_ring_refines_tape:
  fixes d registered va pid now i fl cs x
  assumes "SmartMicAddDevice True True True True STATUS_SUCCESS registered None = (STATUS_SUCCESS, d)" and "va \<noteq> 0"
    and "list_all rc_ok cs" and "sum_list (map rc_cost cs) < 2 ^ 62"
  defines "s \<equiv> snd (dl_start pid True True (Some va) now (dl_new i, d))"
  shows "fst (rc_run fl cs s) = fst (tape_run fl cs \<lparr>tp_hist = [], tp_pos = 0, tp_beat = now\<rparr>) \<and>
    \<bar>sint (dl_pcm16 f32 x)\<bar> \<le> 32767 \<and>
    sint (dl_pcm16 f32 x) = lround (f32 (clamp x (f32 (- 0.999)) (f32 0.999) * 32767))"
  using rc_run_tape [OF dl_start_tape(2) [OF assms(1,2), where pid = pid and now = now and i = i] assms(3), where fl = fl] assms(4)
  unfolding s_def by (intro conjI) (simp, use dl_pcm16_exact [of x] in blast, use dl_pcm16_exact [of x] in blast)

theorem driver_ring_refines_tape_witness:
  "let d = snd (SmartMicAddDevice True True True True STATUS_SUCCESS STATUS_SUCCESS None);
       s = snd (dl_start 1 True True (Some 4096) 10 (dl_new ''link'', d))
   in fst (rc_run f32 [RC_Write [0, 0] 20, RC_Read 30 3 [7, 7, 7]] s) = [None, Some [0, 0, 0]]"
proof -
  let ?d = "snd (SmartMicAddDevice True True True True STATUS_SUCCESS STATUS_SUCCESS None)"
  have d: "SmartMicAddDevice True True True True STATUS_SUCCESS STATUS_SUCCESS None = (STATUS_SUCCESS, ?d)"
    by (simp add: SmartMicAddDevice_def kr_initialize_def NT_SUCCESS_def)
  have zero: "dl_pcm16 f32 0 = 0"
  proof -
    have "f32 0.999 \<ge> 0" "f32 (- 0.999) = - f32 0.999"
      using f32.fl_nonneg [of "0.999"] f32.fl_minus [of "0.999"] by simp_all
    then have "clamp 0 (f32 (- 0.999)) (f32 0.999) = 0" by (simp add: clamp_def)
    then show ?thesis by (simp add: dl_pcm16_def f32.fl_0 lround_def)
  qed
  have t: "fst (tape_run f32 [RC_Write [0, 0] 20, RC_Read 30 3 [7, 7, 7]] \<lparr>tp_hist = [], tp_pos = 0, tp_beat = 10\<rparr>) =
      [None, Some [0, 0, 0]]"
    by (simp add: tape_put_def tape_read_def tape_alive_def zero Let_def) (simp add: numeral_eq_Suc tape_at_def)
  show ?thesis
    using driver_ring_refines_tape [OF d, of 4096 "[RC_Write [0, 0] 20, RC_Read 30 3 [7, 7, 7]]" f32 1 10 "''link''"]
    unfolding Let_def t by simp
qed

text \<open>
  C30: a starve of more than one block is permanent. If the driver has read more frames past the
  last sample than the service writes at a time, then whatever the service writes and the driver
  reads from then on, in any order and at any time, no sample is accepted any more and every
  read is silence, until a stream is opened again.
\<close>

theorem driver_starve_is_permanent:
  fixes d registered va pid now i fl cs cs' n h p
  assumes "SmartMicAddDevice True True True True STATUS_SUCCESS registered None = (STATUS_SUCCESS, d)" and "va \<noteq> 0"
    and "list_all rc_ok (cs @ cs')" and "sum_list (map rc_cost (cs @ cs')) < 2 ^ 62"
  defines "s \<equiv> snd (dl_start pid True True (Some va) now (dl_new i, d))"
  defines "s1 \<equiv> snd (rc_run fl cs s)"
  assumes "drv_mem (snd s1) = Some (h, p)" and "unat (rh_writeIndex h) + n < unat (rh_readIndex h)"
    and "list_all (rc_within n) cs'"
  shows "(\<forall>out. Some out \<in> set (fst (rc_run fl cs' s1)) \<longrightarrow> set out \<subseteq> {0}) \<and>
    (\<exists>h' p'. drv_mem (snd (snd (rc_run fl cs' s1))) = Some (h', p') \<and>
      rh_writeIndex h' = rh_writeIndex h \<and> rh_readIndex h \<le> rh_readIndex h')"
proof -
  let ?b = "sum_list (map rc_cost cs)"
  obtain t where t: "link_rel ?b s1 t"
    using rc_run_tape [OF dl_start_tape(2) [OF assms(1,2), where pid = pid and now = now and i = i], of cs fl] assms(3,4)
    by (auto simp: s1_def s_def)
  have b: "?b < 2 ^ 62" "?b + sum_list (map rc_cost cs') < 2 ^ 62" using assms(4) by simp_all
  have hp: "tape_rel ?b (h, p) t" using t assms(7) by (cases s1) (auto simp: link_rel_def)
  note ix = tape_rel_indices [OF hp b(1)]
  have ok: "list_all rc_ok cs'" using assms(3) by simp
  note run = rc_run_tape [OF t ok b(2), of fl]
  have stuck: "length (tp_hist t) + n < tp_pos t" using assms(8) ix by simp
  note st = tape_stuck [OF stuck assms(9), of fl]
  obtain h' p' where h': "drv_mem (snd (snd (rc_run fl cs' s1))) = Some (h', p')"
      "tape_rel (?b + sum_list (map rc_cost cs')) (h', p') (snd (tape_run fl cs' t))"
    using run by (cases "snd (rc_run fl cs' s1)") (auto simp: link_rel_def)
  note ix' = tape_rel_indices [OF h'(2) b(2)]
  have "rh_writeIndex h' = rh_writeIndex h"
    using st ix(1) ix'(1) by (simp add: word_unat_eq_iff)
  moreover have "rh_readIndex h \<le> rh_readIndex h'"
    using st ix(2) ix'(2) by (simp add: word_le_nat_alt)
  ultimately show ?thesis using run st h'(1) by auto
qed

theorem driver_starve_is_permanent_witness:
  "let d = snd (SmartMicAddDevice True True True True STATUS_SUCCESS STATUS_SUCCESS None);
       s = snd (rc_run f32 [RC_Read 10 3 [7, 7, 7]] (snd (dl_start 1 True True (Some 4096) 10 (dl_new ''link'', d))))
   in list_all (\<lambda>x. case x of None \<Rightarrow> True | Some out \<Rightarrow> list_all (\<lambda>v. v = 0) out)
        (fst (rc_run f32 [RC_Write [1, 1] 20, RC_Read 30 2 [7, 7]] s))"
proof -
  let ?d = "snd (SmartMicAddDevice True True True True STATUS_SUCCESS STATUS_SUCCESS None)"
  let ?s = "snd (dl_start 1 True True (Some 4096) 10 (dl_new ''link'', ?d))"
  let ?cs = "[RC_Read 10 3 [7, 7, 7]]" and ?cs' = "[RC_Write [1, 1] 20, RC_Read 30 2 [7, 7]]"
  have d: "SmartMicAddDevice True True True True STATUS_SUCCESS STATUS_SUCCESS None = (STATUS_SUCCESS, ?d)"
    by (simp add: SmartMicAddDevice_def kr_initialize_def NT_SUCCESS_def)
  have va: "(4096 :: u64) \<noteq> 0" by simp
  have ok: "list_all rc_ok ?cs" "0 + sum_list (map rc_cost ?cs) < 2 ^ 62" by simp_all
  note run = rc_run_tape [OF dl_start_tape(2) [OF d va] ok, where fl = f32]
  have tape: "snd (tape_run f32 ?cs \<lparr>tp_hist = [], tp_pos = 0, tp_beat = 10\<rparr>) = \<lparr>tp_hist = [], tp_pos = 3, tp_beat = 10\<rparr>"
    by (simp add: tape_read_def tape_alive_def)
  obtain h p where h: "drv_mem (snd (snd (rc_run f32 ?cs ?s))) = Some (h, p)"
      "tape_rel 3 (h, p) \<lparr>tp_hist = [], tp_pos = 3, tp_beat = 10\<rparr>"
    using run [of 1 10 "''link''"] unfolding tape by (cases "snd (rc_run f32 ?cs ?s)") (auto simp: link_rel_def)
  have ahead: "unat (rh_writeIndex h) + 2 < unat (rh_readIndex h)"
    using tape_rel_indices [OF h(2)] by simp
  have all: "list_all rc_ok (?cs @ ?cs')" "sum_list (map rc_cost (?cs @ ?cs')) < 2 ^ 62" by simp_all
  have "\<forall>out. Some out \<in> set (fst (rc_run f32 ?cs' (snd (rc_run f32 ?cs ?s)))) \<longrightarrow> set out \<subseteq> {0}"
    using driver_starve_is_permanent [OF d va all h(1) ahead] by simp
  then show ?thesis unfolding Let_def list_all_iff by (auto split: option.split simp del: rc_run.simps)
qed

end
