(* ===== verification/WaveStream.thy ===== *)
theory WaveStream
  imports DriverRing
begin

text \<open>
  The capture stream and miniport of the driver: \<^verbatim>\<open>windows/driver/minwavestream.cpp\<close> and the
  stream handling of \<^verbatim>\<open>minwave.cpp\<close>. The ring the stream drains is passed along as its value.
  The WaveRT buffer is a list of frames, offsets into it are in bytes as in the code, and the
  results of page allocation are arguments. The lemmas show how one tick fills one period of the
  buffer and what \<open>SetState\<close> resets; histories of ticks and writes are in \<open>DriverStream\<close>.
\<close>

section \<open>State\<close>

datatype ks_state = KSSTATE_STOP | KSSTATE_ACQUIRE | KSSTATE_PAUSE | KSSTATE_RUN

definition kMaxNotificationEvents :: nat where "kMaxNotificationEvents = 4"
definition SMARTMIC_NOTIFY_MS :: nat where "SMARTMIC_NOTIFY_MS = 10"

text \<open>The fields of the data format that \<open>Init\<close> reads.\<close>

record wave_format =
  wf_FormatSize :: u32
  wf_nSamplesPerSec :: u32
  wf_nChannels :: u16
  wf_wBitsPerSample :: u16

text \<open>\<open>ws_buffer\<close> is what \<open>m_bufferVa\<close> points to; an event is a number.\<close>

record wave_stream =
  ws_pin :: u32
  ws_capture :: bool
  ws_state :: ks_state
  ws_buffer :: "pcm16 list option"
  ws_bufferBytes :: u32
  ws_notificationsPerBuffer :: u32
  ws_bytesPerNotification :: u32
  ws_writeOffset :: u32
  ws_framesWritten :: u64
  ws_timerRunning :: bool
  ws_notificationEvents :: "nat option list"
  ws_notificationEventCount :: u32

section \<open>Buffers\<close>

text \<open>\<open>fmtSize\<close> is \<open>sizeof(KSDATAFORMAT_WAVEFORMATEX)\<close>.\<close>

definition ws_init :: "u32 \<Rightarrow> u32 \<Rightarrow> bool \<Rightarrow> wave_format \<Rightarrow> driver_ring \<Rightarrow> ntstatus \<times> wave_stream \<times> driver_ring" where
  "ws_init fmtSize pin capture f r =
     (let w = \<lparr>ws_pin = pin, ws_capture = capture, ws_state = KSSTATE_STOP, ws_buffer = None,
               ws_bufferBytes = 0, ws_notificationsPerBuffer = 0, ws_bytesPerNotification = 0,
               ws_writeOffset = 0, ws_framesWritten = 0, ws_timerRunning = False,
               ws_notificationEvents = replicate kMaxNotificationEvents None, ws_notificationEventCount = 0\<rparr>
      in if wf_FormatSize f < fmtSize \<or> wf_nSamplesPerSec f \<noteq> SMARTMIC_SAMPLE_RATE \<or>
            ucast (wf_nChannels f) \<noteq> SMARTMIC_CHANNELS \<or> ucast (wf_wBitsPerSample f) \<noteq> SMARTMIC_BITS
         then (STATUS_INVALID_PARAMETER, w, r)
         else (STATUS_SUCCESS, w, kr_setStreamOpen True r))"

definition ws_freeBufferInternal :: "wave_stream \<Rightarrow> wave_stream" where
  "ws_freeBufferInternal w =
     (if ws_buffer w = None then w else w\<lparr>ws_buffer := None, ws_bufferBytes := 0\<rparr>)"

text \<open>
  \<open>None\<close> is a division by zero, when the 32-bit product of the frame size and the notification
  count wraps to zero. \<open>pages\<close> and \<open>mapped\<close> are the results of the two allocation calls.
\<close>

definition ws_allocateBufferWithNotification ::
  "bool \<Rightarrow> bool \<Rightarrow> u32 \<Rightarrow> u32 \<Rightarrow> wave_stream \<Rightarrow> (ntstatus \<times> u32 \<times> wave_stream) option" where
  "ws_allocateBufferWithNotification pages mapped count requested w =
     (if requested = 0 \<or> count = 0 then Some (STATUS_UNSUCCESSFUL, 0, w)
      else if SMARTMIC_BYTES_PER_FRAME * count = 0 then None
      else
        let size = requested - requested mod (SMARTMIC_BYTES_PER_FRAME * count)
        in if size = 0 then Some (STATUS_UNSUCCESSFUL, 0, w)
           else if \<not> pages then Some (STATUS_INSUFFICIENT_RESOURCES, 0, w)
           else if \<not> mapped then Some (STATUS_INSUFFICIENT_RESOURCES, 0, w)
           else Some (STATUS_SUCCESS, size,
             w\<lparr>ws_buffer := Some (replicate (unat size div 2) 0), ws_bufferBytes := size,
               ws_notificationsPerBuffer := count, ws_bytesPerNotification := size div count,
               ws_writeOffset := 0, ws_framesWritten := 0\<rparr>))"

definition ws_allocateAudioBuffer :: "bool \<Rightarrow> bool \<Rightarrow> u32 \<Rightarrow> wave_stream \<Rightarrow> (ntstatus \<times> u32 \<times> wave_stream) option" where
  "ws_allocateAudioBuffer pages mapped requested w = ws_allocateBufferWithNotification pages mapped 1 requested w"

definition ws_startTimer :: "wave_stream \<Rightarrow> wave_stream" where
  "ws_startTimer w = (if ws_timerRunning w then w else w\<lparr>ws_timerRunning := True\<rparr>)"

definition ws_stopTimer :: "wave_stream \<Rightarrow> wave_stream" where
  "ws_stopTimer w = (if \<not> ws_timerRunning w then w else w\<lparr>ws_timerRunning := False\<rparr>)"

definition ws_freeAudioBuffer :: "wave_stream \<Rightarrow> wave_stream" where
  "ws_freeAudioBuffer w = ws_freeBufferInternal w"

definition ws_freeBufferWithNotification :: "wave_stream \<Rightarrow> wave_stream" where
  "ws_freeBufferWithNotification w = ws_freeBufferInternal (ws_stopTimer w)"

section \<open>Notification events\<close>

fun first_free :: "nat option list \<Rightarrow> nat option" where
  "first_free [] = None"
| "first_free (None # es) = Some 0"
| "first_free (Some e # es) = map_option Suc (first_free es)"

fun first_event :: "nat \<Rightarrow> nat option list \<Rightarrow> nat option" where
  "first_event e [] = None"
| "first_event e (x # es) = (if x = Some e then Some 0 else map_option Suc (first_event e es))"

definition ws_registerNotificationEvent :: "nat \<Rightarrow> wave_stream \<Rightarrow> ntstatus \<times> wave_stream" where
  "ws_registerNotificationEvent e w =
     (if first_event e (ws_notificationEvents w) \<noteq> None then (STATUS_UNSUCCESSFUL, w)
      else (case first_free (ws_notificationEvents w) of
              None \<Rightarrow> (STATUS_INSUFFICIENT_RESOURCES, w)
            | Some i \<Rightarrow> (STATUS_SUCCESS,
                w\<lparr>ws_notificationEvents := (ws_notificationEvents w)[i := Some e],
                  ws_notificationEventCount := ws_notificationEventCount w + 1\<rparr>)))"

definition ws_unregisterNotificationEvent :: "nat \<Rightarrow> wave_stream \<Rightarrow> ntstatus \<times> wave_stream" where
  "ws_unregisterNotificationEvent e w =
     (case first_event e (ws_notificationEvents w) of
        None \<Rightarrow> (STATUS_NOT_FOUND, w)
      | Some i \<Rightarrow> (STATUS_SUCCESS,
          w\<lparr>ws_notificationEvents := (ws_notificationEvents w)[i := None],
            ws_notificationEventCount := ws_notificationEventCount w - 1\<rparr>))"

section \<open>Running\<close>

definition ws_getHWLatency :: "wave_stream \<Rightarrow> u32 \<times> u32 \<times> u32" where
  "ws_getHWLatency w = (ws_bytesPerNotification w, 0, 0)"

definition ws_setFormat :: "wave_format \<Rightarrow> wave_stream \<Rightarrow> ntstatus" where
  "ws_setFormat f w = STATUS_NOT_SUPPORTED"

definition ws_setState :: "ks_state \<Rightarrow> wave_stream \<times> driver_ring \<Rightarrow> ntstatus \<times> wave_stream \<times> driver_ring" where
  "ws_setState st = (\<lambda>(w, r).
     (case st of
        KSSTATE_STOP \<Rightarrow>
          (STATUS_SUCCESS, (ws_stopTimer w)\<lparr>ws_writeOffset := 0, ws_framesWritten := 0,
             ws_buffer := map_option (\<lambda>b. replicate (length b) 0) (ws_buffer w), ws_state := st\<rparr>, r)
      | KSSTATE_ACQUIRE \<Rightarrow> (STATUS_SUCCESS, (ws_stopTimer w)\<lparr>ws_state := st\<rparr>, r)
      | KSSTATE_PAUSE \<Rightarrow> (STATUS_SUCCESS, (ws_stopTimer w)\<lparr>ws_state := st\<rparr>, r)
      | KSSTATE_RUN \<Rightarrow>
          if ws_buffer w = None then (STATUS_DEVICE_NOT_READY, w, r)
          else (STATUS_SUCCESS, (ws_startTimer w)\<lparr>ws_state := st\<rparr>, kr_setStreamOpen True r)))"

text \<open>The play and write offsets.\<close>

definition ws_getPosition :: "wave_stream \<Rightarrow> u64 \<times> u64" where
  "ws_getPosition w =
     (let p = ws_framesWritten w * ucast SMARTMIC_BYTES_PER_FRAME in (p, p))"

text \<open>The events signalled, the stream and the ring.\<close>

definition ws_onTimerTick :: "u64 \<Rightarrow> wave_stream \<times> driver_ring \<Rightarrow> nat list \<times> wave_stream \<times> driver_ring" where
  "ws_onTimerTick now = (\<lambda>(w, r).
     (case ws_buffer w of
        None \<Rightarrow> ([], w, r)
      | Some buf \<Rightarrow>
          if \<not> ws_timerRunning w \<or> ws_bytesPerNotification w = 0 then ([], w, r)
          else
            let n = ws_bytesPerNotification w;
                frames = n div SMARTMIC_BYTES_PER_FRAME;
                at_frame = unat (ws_writeOffset w) div 2
            in (case kr_read now (take (unat frames) (drop at_frame buf)) frames r of
                  (got, out, r') \<Rightarrow>
                    let off = ws_writeOffset w + n;
                        off' = (if off \<ge> ws_bufferBytes w then 0 else off)
                    in (concat (map (case_option [] (\<lambda>e. [e])) (ws_notificationEvents w)),
                        w\<lparr>ws_buffer := Some (blit at_frame out buf), ws_writeOffset := off',
                          ws_framesWritten := ws_framesWritten w + ucast frames\<rparr>, r'))))"

section \<open>The miniport\<close>

definition KSPIN_WAVE_CAPTURE_SINK :: u32 where "KSPIN_WAVE_CAPTURE_SINK = 0"

text \<open>One stream at a time: \<open>m_stream\<close> and the ring.\<close>

record wave_miniport =
  wm_stream :: "wave_stream option"
  wm_ring :: driver_ring

definition wm_newStream ::
  "bool \<Rightarrow> u32 \<Rightarrow> u32 \<Rightarrow> bool \<Rightarrow> wave_format \<Rightarrow> wave_miniport \<Rightarrow> ntstatus \<times> wave_miniport" where
  "wm_newStream alloc fmtSize pin capture f m =
     (if pin \<noteq> KSPIN_WAVE_CAPTURE_SINK \<or> \<not> capture then (STATUS_INVALID_PARAMETER, m)
      else if wm_stream m \<noteq> None then (STATUS_DEVICE_BUSY, m)
      else if \<not> alloc then (STATUS_INSUFFICIENT_RESOURCES, m)
      else (case ws_init fmtSize pin capture f (wm_ring m) of
              (status, w, r) \<Rightarrow>
                if status \<noteq> STATUS_SUCCESS
                then (status, m\<lparr>wm_ring := kr_setStreamOpen False r\<rparr>)
                else (STATUS_SUCCESS, m\<lparr>wm_stream := Some w, wm_ring := r\<rparr>)))"

text \<open>The destructor of the stream.\<close>

definition wm_closeStream :: "wave_miniport \<Rightarrow> wave_miniport" where
  "wm_closeStream m = m\<lparr>wm_stream := None, wm_ring := kr_setStreamOpen False (wm_ring m)\<rparr>"

section \<open>Periods\<close>

text \<open>A buffer of \<open>c\<close> periods of \<open>q\<close> frames, the next write into period \<open>j\<close>.\<close>

definition ws_tiled :: "nat \<Rightarrow> nat \<Rightarrow> nat \<Rightarrow> wave_stream \<Rightarrow> bool" where
  "ws_tiled c q j w \<longleftrightarrow> ws_timerRunning w \<and> j < c \<and> 0 < q \<and>
     unat (ws_bufferBytes w) = 2 * q * c \<and> unat (ws_bytesPerNotification w) = 2 * q \<and>
     unat (ws_writeOffset w) = 2 * q * j \<and>
     (case ws_buffer w of None \<Rightarrow> False | Some buf \<Rightarrow> length buf = q * c)"

lemma ws_allocate_periods:
  assumes "ws_allocateBufferWithNotification pages mapped count requested w = Some (STATUS_SUCCESS, sz, w')"
    and "unat count < 2 ^ 31"
  shows "\<exists>q. 0 < q \<and> unat sz = 2 * q * unat count \<and> unat sz \<le> unat requested \<and>
    ws_bufferBytes w' = sz \<and> unat (ws_bytesPerNotification w') = 2 * q \<and>
    ws_writeOffset w' = 0 \<and> ws_framesWritten w' = 0 \<and> ws_timerRunning w' = ws_timerRunning w \<and>
    ws_buffer w' = Some (replicate (q * unat count) 0)"
proof -
  define per where "per = SMARTMIC_BYTES_PER_FRAME * count"
  have per: "unat per = 2 * unat count"
    using assms(2) by (simp add: per_def ring_consts unat_word_ariths)
  have s: "sz = requested - requested mod per" "sz \<noteq> 0" "count \<noteq> 0"
      "w' = w\<lparr>ws_buffer := Some (replicate (unat sz div 2) 0), ws_bufferBytes := sz,
        ws_notificationsPerBuffer := count, ws_bytesPerNotification := sz div count,
        ws_writeOffset := 0, ws_framesWritten := 0\<rparr>"
    using assms(1)
    by (auto simp: ws_allocateBufferWithNotification_def per_def [symmetric] Let_def split: if_splits)
  have "requested mod per \<le> requested"
    by (simp add: word_le_nat_alt unat_mod_distrib)
  then have sz: "unat sz = unat requested - unat requested mod (2 * unat count)"
    by (simp add: s(1) unat_sub unat_mod_distrib per)
  define q where "q = unat requested div (2 * unat count)"
  have sq: "unat sz = 2 * q * unat count"
    using sz minus_mod_eq_mult_div [of "unat requested" "2 * unat count"] by (simp add: q_def)
  have c: "unat count > 0" using s(3) by (simp add: unat_gt_0)
  have q: "0 < q" using sq s(2) by (cases q) (simp_all add: unat_eq_0)
  have n: "unat (sz div count) = 2 * q" using sq c by (simp add: unat_div_distrib)
  show ?thesis using q sq sz n s(4) by (intro exI [of _ q]) simp
qed

text \<open>One tick fills one period.\<close>

lemma ws_tick_period:
  fixes c q j w r now
  assumes t: "ws_tiled c q j w" and ok: "kr_mem_ok r" and mem: "ws_buffer w = Some buf"
  defines "out \<equiv> kr_read now (replicate q 0) (of_nat q) r"
  shows "ws_buffer (fst (snd (ws_onTimerTick now (w, r)))) = Some (blit (q * j) (fst (snd out)) buf) \<and>
    snd (snd (ws_onTimerTick now (w, r))) = snd (snd out) \<and> length (fst (snd out)) = q \<and>
    kr_mem_ok (snd (snd out)) \<and>
    ws_tiled c q (Suc j mod c) (fst (snd (ws_onTimerTick now (w, r)))) \<and>
    ws_framesWritten (fst (snd (ws_onTimerTick now (w, r)))) = ws_framesWritten w + of_nat q \<and>
    fst (ws_onTimerTick now (w, r)) = concat (map (case_option [] (\<lambda>e. [e])) (ws_notificationEvents w))"
proof -
  note t' = t [unfolded ws_tiled_def]
  have buf: "ws_buffer w = Some buf" "length buf = q * c" using t' mem by simp_all
  let ?n = "ws_bytesPerNotification w"
  have size: "2 * q * c < 2 ^ 32" using t' unat_bound [of "ws_bufferBytes w"] by simp
  have qc: "q * Suc j \<le> q * c" using t' by (intro mult_le_mono2) simp
  have q31: "q < 2 ^ 31"
  proof -
    have "q * 1 \<le> q * c" using t' by (intro mult_le_mono2) simp
    moreover have "2 * (q * c) < 2 ^ 32" using size by (simp only: mult.assoc)
    ultimately have "2 * q < 2 ^ 32" by linarith
    then show ?thesis by simp
  qed
  have frames: "unat (?n div SMARTMIC_BYTES_PER_FRAME) = q" "?n div SMARTMIC_BYTES_PER_FRAME = of_nat q"
  proof -
    show u: "unat (?n div SMARTMIC_BYTES_PER_FRAME) = q" using t' by (simp add: unat_div_distrib ring_consts)
    show "?n div SMARTMIC_BYTES_PER_FRAME = of_nat q" unfolding u [symmetric] by simp
  qed
  have slot: "unat (ws_writeOffset w) div 2 = q * j" using t' by simp
  define dst where "dst = take q (drop (q * j) buf)"
  have dst: "length dst = unat (of_nat q :: u32)" "unat (of_nat q :: u32) = q" "unat (of_nat q :: u32) < 2 ^ 31"
    using buf(2) qc q31 frames by (simp_all add: dst_def)
  note rd = kr_read_any_dst [OF ok dst(1,3), of now]
  have n0: "?n \<noteq> 0" using t' by auto
  have rdq: "kr_read now dst (of_nat q) r = out" using rd(3) dst(2) by (simp add: out_def)
  have off: "unat (ws_writeOffset w + ?n) = 2 * q * Suc j"
  proof -
    have eq: "unat (ws_writeOffset w) + unat ?n = 2 * (q * Suc j)" using t' by (simp only:) simp
    have "2 * (q * c) < 2 ^ 32" using size by (simp only: mult.assoc)
    then have "2 * (q * Suc j) < 2 ^ 32" using qc by linarith
    then show ?thesis unfolding unat_word_ariths(1) eq by simp
  qed
  have wraps: "ws_writeOffset w + ?n \<ge> ws_bufferBytes w \<longleftrightarrow> Suc j = c"
  proof -
    have "unat (ws_bufferBytes w) = (2 * q) * c" "0 < 2 * q" using t' by simp_all
    then have "ws_writeOffset w + ?n \<ge> ws_bufferBytes w \<longleftrightarrow> c \<le> Suc j"
      unfolding word_le_nat_alt off by (simp only: mult_le_cancel1) simp
    then show ?thesis using t' by (auto simp: le_Suc_eq)
  qed
  obtain got o2 r' where out: "out = (got, o2, r')" by (metis prod_cases3)
  have tick: "ws_onTimerTick now (w, r) =
      (concat (map (case_option [] (\<lambda>e. [e])) (ws_notificationEvents w)),
       w\<lparr>ws_buffer := Some (blit (q * j) o2 buf),
         ws_writeOffset := if Suc j = c then 0 else ws_writeOffset w + ?n,
         ws_framesWritten := ws_framesWritten w + ucast (of_nat q :: u32)\<rparr>, r')"
    using t' n0 buf(1) rdq out frames slot wraps
    by (simp add: ws_onTimerTick_def dst_def Let_def)
  have uc: "(ucast (of_nat q :: u32) :: u64) = of_nat q"
    using unat_ucast_u64 [of "of_nat q"] dst(2) q31 by (simp add: word_unat_eq_iff unat_of_nat_u64 del: unat_of_nat)
  have tick': "fst (snd (ws_onTimerTick now (w, r))) = w\<lparr>ws_buffer := Some (blit (q * j) o2 buf),
         ws_writeOffset := if Suc j = c then 0 else ws_writeOffset w + ?n,
         ws_framesWritten := ws_framesWritten w + of_nat q\<rparr>"
    by (simp add: tick uc)
  have o2: "length o2 = q" "kr_mem_ok r'" using rd(1,2) rdq out dst(2) by simp_all
  have j': "Suc j mod c = (if Suc j = c then 0 else Suc j)" using t' by (simp add: mod_if)
  have len: "length (blit (q * j) o2 buf) = q * c" using qc buf(2) o2(1) by simp
  have "ws_tiled c q (Suc j mod c) (fst (snd (ws_onTimerTick now (w, r))))"
    unfolding ws_tiled_def tick' j' using t' off len by simp
  then show ?thesis using o2 by (simp add: tick uc out)
qed

end
