(* ===== verification/DriverStream.thy ===== *)
theory DriverStream
  imports WaveStream DriverLink
begin

text \<open>
  The capture stream while the service produces: timer ticks of theory WaveStream and writes to the
  shared memory, those of \<open>SmartMicDriverLink\<close> of theory DriverLink and any others, in one history.
  The lemmas follow the periods through the buffer and compose them with the tape the ring
  implements, so that what a client finds in its buffer is what the service wrote.
\<close>

section \<open>Histories\<close>

text \<open>
  The timer fires, the link writes a block, or the process that has the section mapped overwrites
  header and payload with anything.
\<close>

datatype capture_event = CE_Tick u64 | CE_Write u64 samples | CE_Foreign "ring_header \<times> pcm16 list"

fun ce_ok :: "capture_event \<Rightarrow> bool" where
  "ce_ok (CE_Tick now) \<longleftrightarrow> True"
| "ce_ok (CE_Write now xs) \<longleftrightarrow> length xs \<le> 8192"
| "ce_ok (CE_Foreign m) \<longleftrightarrow> length (snd m) = 8192"

fun ce_step :: "(real \<Rightarrow> real) \<Rightarrow> capture_event \<Rightarrow> wave_stream \<times> driver_ring \<Rightarrow> wave_stream \<times> driver_ring" where
  "ce_step fl (CE_Tick now) s = snd (ws_onTimerTick now s)"
| "ce_step fl (CE_Write now xs) (w, r) = (w, r\<lparr>kr_mem := map_option (dl_put fl now xs) (kr_mem r)\<rparr>)"
| "ce_step fl (CE_Foreign m) (w, r) = (w, r\<lparr>kr_mem := map_option (\<lambda>_. m) (kr_mem r)\<rparr>)"

definition ce_run :: "(real \<Rightarrow> real) \<Rightarrow> capture_event list \<Rightarrow> wave_stream \<times> driver_ring \<Rightarrow> wave_stream \<times> driver_ring" where
  "ce_run fl evs s = fold (ce_step fl) evs s"

text \<open>The number of ticks, and the periods of \<open>q\<close> frames the ring gives at them, in order.\<close>

fun ce_ticks :: "capture_event list \<Rightarrow> nat" where
  "ce_ticks [] = 0"
| "ce_ticks (CE_Tick now # evs) = Suc (ce_ticks evs)"
| "ce_ticks (ev # evs) = ce_ticks evs"

fun ce_periods :: "(real \<Rightarrow> real) \<Rightarrow> nat \<Rightarrow> capture_event list \<Rightarrow> driver_ring \<Rightarrow> pcm16 list list" where
  "ce_periods fl q [] r = []"
| "ce_periods fl q (CE_Tick now # evs) r =
     (case kr_read now (replicate q 0) (of_nat q) r of (got, out, r') \<Rightarrow> out # ce_periods fl q evs r')"
| "ce_periods fl q (CE_Write now xs # evs) r =
     ce_periods fl q evs (r\<lparr>kr_mem := map_option (dl_put fl now xs) (kr_mem r)\<rparr>)"
| "ce_periods fl q (CE_Foreign m # evs) r = ce_periods fl q evs (r\<lparr>kr_mem := map_option (\<lambda>_. m) (kr_mem r)\<rparr>)"

text \<open>The same history as calls on the ring, when nobody but the link writes.\<close>

fun ce_calls :: "nat \<Rightarrow> capture_event list \<Rightarrow> ring_call list" where
  "ce_calls q [] = []"
| "ce_calls q (CE_Tick now # evs) = RC_Read now (of_nat q) (replicate q 0) # ce_calls q evs"
| "ce_calls q (CE_Write now xs # evs) = RC_Write xs now # ce_calls q evs"
| "ce_calls q (CE_Foreign m # evs) = ce_calls q evs"

fun ce_own :: "capture_event \<Rightarrow> bool" where
  "ce_own (CE_Foreign m) \<longleftrightarrow> False"
| "ce_own ev \<longleftrightarrow> True"

section \<open>Periods in their places\<close>

lemma length_ce_periods [simp]: "length (ce_periods fl q evs r) = ce_ticks evs"
  by (induction evs arbitrary: r rule: ce_ticks.induct) (simp_all split: prod.split)

lemma ce_run_simps:
  "ce_run fl [] s = s" "ce_run fl (ev # evs) s = ce_run fl evs (ce_step fl ev s)"
  by (simp_all add: ce_run_def)

lemma dl_put_length:
  assumes "length p = 8192" and "length xs \<le> 8192"
  shows "length (snd (dl_put fl now xs (h, p))) = 8192"
  using dl_copy_nth(1) [of p "map (dl_pcm16 fl) xs"] assms by (simp add: dl_put_copy)

lemma ce_memory_ok:
  "kr_mem_ok r \<Longrightarrow> length xs \<le> 8192 \<Longrightarrow> kr_mem_ok (r\<lparr>kr_mem := map_option (dl_put fl now xs) (kr_mem r)\<rparr>)"
  "length (snd m) = 8192 \<Longrightarrow> kr_mem_ok (r\<lparr>kr_mem := map_option (\<lambda>_. m) (kr_mem r)\<rparr>)"
  using dl_put_length by (auto simp: kr_mem_ok_def split: option.splits prod.splits) (metis snd_conv)

text \<open>
  A buffer in which the last \<open>c\<close> of the periods \<open>ps\<close> are in their places, and the stream that is
  about to write the next.
\<close>

definition ws_filled :: "nat \<Rightarrow> nat \<Rightarrow> pcm16 list list \<Rightarrow> wave_stream \<Rightarrow> bool" where
  "ws_filled c q ps w \<longleftrightarrow> ws_tiled c q (length ps mod c) w \<and>
     (\<exists>buf. ws_buffer w = Some buf \<and>
       (\<forall>i<length ps. length ps \<le> i + c \<longrightarrow> take q (drop (q * (i mod c)) buf) = ps ! i))"

lemma slot_fits: "0 < c \<Longrightarrow> q * (i mod c) + q \<le> q * (c :: nat)"
  using mult_le_mono2 [of "Suc (i mod c)" c q] by (simp add: Suc_le_eq)

lemma slots_apart:
  assumes "i < n" and "n < i + c"
  shows "q * (i mod c) + q \<le> q * (n mod c) \<or> q * (n mod c) + q \<le> q * (i mod (c :: nat))"
proof -
  have "i mod c \<noteq> n mod c"
  proof
    assume "i mod c = n mod c"
    then have "c dvd n - i" using assms(1) by (metis mod_eq_dvd_iff_nat less_imp_le)
    moreover have "0 < n - i" "n - i < c" using assms by linarith+
    ultimately show False using nat_dvd_not_less by blast
  qed
  then show ?thesis by (metis Suc_leI linorder_neqE_nat mult_Suc_right add.commute mult_le_mono2)
qed

lemma ws_tick_filled:
  fixes now
  assumes f: "ws_filled c q ps w" and ok: "kr_mem_ok r"
  defines "out \<equiv> fst (snd (kr_read now (replicate q 0) (of_nat q) r))"
  shows "ws_filled c q (ps @ [out]) (fst (snd (ws_onTimerTick now (w, r))))"
proof -
  define n where "n = length ps"
  obtain buf where t: "ws_tiled c q (n mod c) w" "ws_buffer w = Some buf"
      "\<And>i. i < n \<Longrightarrow> n \<le> i + c \<Longrightarrow> take q (drop (q * (i mod c)) buf) = ps ! i"
    using f by (auto simp: ws_filled_def n_def)
  note tick = ws_tick_period [OF t(1) ok t(2), of now, folded out_def]
  have c: "0 < c" "length buf = q * c" using t(1,2) by (auto simp: ws_tiled_def)
  have slots: "take q (drop (q * (i mod c)) (blit (q * (n mod c)) out buf)) = (ps @ [out]) ! i"
    if i: "i < Suc n" "Suc n \<le> i + c" for i
  proof (cases "i = n")
    case True
    then show ?thesis
      using tick slot_fits [OF c(1), of q n] c(2) take_drop_blit [of "q * (n mod c)" out buf] by (simp add: nth_append n_def)
  next
    case False
    then have "i < n" "n < i + c" using i by simp_all
    note slots_apart [OF this, of q]
    then have "take q (drop (q * (i mod c)) (blit (q * (n mod c)) out buf)) = take q (drop (q * (i mod c)) buf)"
      using slot_fits [OF c(1), of q n] slot_fits [OF c(1), of q i] c(2) tick
      by (intro take_drop_blit_apart) simp_all
    then show ?thesis using t(3) [of i] \<open>i < n\<close> i by (simp add: nth_append n_def [symmetric])
  qed
  have "Suc (n mod c) mod c = Suc n mod c" by (simp add: mod_Suc_eq)
  then show ?thesis using tick slots by (simp add: ws_filled_def n_def [symmetric])
qed

lemma ce_run_filled:
  "ws_filled c q ps w \<Longrightarrow> kr_mem_ok r \<Longrightarrow> list_all ce_ok evs \<Longrightarrow>
   ws_filled c q (ps @ ce_periods fl q evs r) (fst (ce_run fl evs (w, r))) \<and>
   ws_framesWritten (fst (ce_run fl evs (w, r))) = ws_framesWritten w + of_nat (ce_ticks evs * q)"
proof (induction evs arbitrary: ps w r)
  case (Cons ev evs)
  show ?case
  proof (cases ev)
    case (CE_Tick now)
    obtain got out r' where k: "kr_read now (replicate q 0) (of_nat q) r = (got, out, r')" by (metis prod_cases3)
    obtain e w1 r1 where s: "ws_onTimerTick now (w, r) = (e, w1, r1)" by (metis prod_cases3)
    obtain buf where "ws_tiled c q (length ps mod c) w" "ws_buffer w = Some buf"
      using Cons.prems(1) by (auto simp: ws_filled_def)
    note tick = ws_tick_period [OF this(1) Cons.prems(2) this(2), of now]
    have "ws_filled c q (ps @ [out]) w1"
      using ws_tick_filled [OF Cons.prems(1,2), of now] by (simp add: k s)
    from Cons.IH [OF this, of r1] tick Cons.prems(3) show ?thesis
      by (simp add: CE_Tick ce_run_simps k s algebra_simps)
  next
    case (CE_Write now xs)
    then show ?thesis
      using Cons.IH [OF Cons.prems(1) ce_memory_ok(1) [OF Cons.prems(2)], of xs fl now] Cons.prems(3)
      by (simp add: ce_run_simps)
  next
    case (CE_Foreign m)
    then show ?thesis
      using Cons.IH [OF Cons.prems(1) ce_memory_ok(2), of m] Cons.prems(3) by (simp add: ce_run_simps)
  qed
qed (simp add: ce_run_simps)

section \<open>Periods of the tape\<close>

lemma ce_periods_tape:
  assumes "q < 2 ^ 31"
  shows "kr_mem r = Some m \<Longrightarrow> tape_rel b m t \<Longrightarrow> list_all ce_ok evs \<Longrightarrow> list_all ce_own evs \<Longrightarrow>
    b + sum_list (map rc_cost (ce_calls q evs)) < 2 ^ 62 \<Longrightarrow>
    ce_periods fl q evs r = List.map_filter (\<lambda>out. out) (fst (tape_run fl (ce_calls q evs) t))"
proof (induction evs arbitrary: r m b t)
  case (Cons ev evs)
  have q: "unat (of_nat q :: u32) = q" using assms by (simp add: unsigned_of_nat take_bit_nat_eq_self)
  obtain h p where m: "m = (h, p)" by (metis prod.exhaust)
  show ?case
  proof (cases ev)
    case (CE_Tick now)
    have b: "b + q + sum_list (map rc_cost (ce_calls q evs)) < 2 ^ 62"
      using Cons.prems(5) q by (simp add: CE_Tick add.assoc)
    note rd = tape_read_rel [of b h p t r "replicate q 0" "of_nat q" now, unfolded q]
    obtain got out r' where k: "kr_read now (replicate q 0) (of_nat q) r = (got, out, r')" by (metis prod_cases3)
    obtain out' t' where tp: "tape_read now q t = (out', t')" by (metis prod.exhaust)
    obtain h' where h': "out = out'" "kr_mem r' = Some (h', p)" "tape_rel (b + q) (h', p) t'"
      using rd Cons.prems(1,2) assms b by (auto simp: m k tp)
    have "ce_periods fl q evs r' = List.map_filter (\<lambda>out. out) (fst (tape_run fl (ce_calls q evs) t'))"
      by (rule Cons.IH [OF h'(2,3)]) (use Cons.prems(3,4) b in simp_all)
    then show ?thesis using h'(1) q
      by (cases "tape_run fl (ce_calls q evs) t'") (simp add: CE_Tick k tp map_filter_simps)
  next
    case (CE_Write now xs)
    have b: "b + length xs + sum_list (map rc_cost (ce_calls q evs)) < 2 ^ 62"
      using Cons.prems(5) by (simp add: CE_Write add.assoc)
    have "tape_rel (b + length xs) (dl_put fl now xs m) (tape_put (map (dl_pcm16 fl) xs) now t)"
      using tape_put_rel [of b h p t xs fl now] Cons.prems(2,3) b by (simp add: m CE_Write)
    note IH = Cons.IH [OF _ this, of "r\<lparr>kr_mem := map_option (dl_put fl now xs) (kr_mem r)\<rparr>"]
    show ?thesis
      using IH Cons.prems b
      by (cases "tape_run fl (ce_calls q evs) (tape_put (map (dl_pcm16 fl) xs) now t)")
         (simp add: CE_Write map_filter_simps)
  next
    case (CE_Foreign m')
    then show ?thesis using Cons.prems(4) by simp
  qed
qed (simp add: map_filter_simps)

lemma kr_setStreamOpen_tape:
  assumes "kr_mem r = Some m" and "tape_rel b m t"
  shows "\<exists>m'. kr_mem (kr_setStreamOpen opn r) = Some m' \<and> tape_rel b m' (tape_open opn t)"
  using assms by (cases m) (auto simp: kr_setStreamOpen_def tape_rel_def tape_open_def Let_def)

section \<open>Properties\<close>

text \<open>
  C31: periods tile the WaveRT buffer and carry what was written. After a successful allocation the
  buffer holds the count of equal periods asked for, of a whole number of frames each. Once running,
  over any history of timer ticks and writes to the shared memory in between, whatever a foreign
  writer puts into header and payload, every tick reads one period from the ring into the next place,
  so that the last periods read are in the buffer in order, the write offset has gone round with
  them, and the position reported is the number of bytes of all periods read. And when all writes
  are those of the service's link, to a ring that implements a tape, the periods are what that tape
  gives from the moment the stream was opened: the samples the link accepted, in order and each
  once, and silence where there was none or the heartbeat was stale.
\<close>

theorem wavert_periods:
  fixes count requested w0 w sz r evs fl
  assumes "ws_allocateBufferWithNotification True True count requested w0 = Some (STATUS_SUCCESS, sz, w)"
    and "unat count < 2 ^ 31" and "kr_mem_ok r" and "list_all ce_ok evs"
  defines "s \<equiv> snd (ws_setState KSSTATE_RUN (w, r))" and "q \<equiv> unat (ws_bytesPerNotification w) div 2"
    and "n \<equiv> ce_ticks evs"
  defines "w' \<equiv> fst (ce_run fl evs s)" and "per \<equiv> ce_periods fl q evs (kr_setStreamOpen True r)"
  shows "unat sz = 2 * q * unat count \<and> 0 < q \<and> unat sz \<le> unat requested \<and>
    unat (ws_writeOffset w') = 2 * q * (n mod unat count) \<and>
    ws_getPosition w' = (of_nat (2 * n * q), of_nat (2 * n * q)) \<and>
    (\<exists>buf. ws_buffer w' = Some buf \<and> length buf = q * unat count \<and>
       (\<forall>i<n. n \<le> i + unat count \<longrightarrow> take q (drop (q * (i mod unat count)) buf) = per ! i)) \<and>
    (\<forall>m b t. kr_mem r = Some m \<and> tape_rel b m t \<and> list_all ce_own evs \<and>
         b + sum_list (map rc_cost (ce_calls q evs)) < 2 ^ 62 \<longrightarrow>
       per = List.map_filter (\<lambda>out. out) (fst (tape_run fl (ce_calls q evs) (tape_open True t))))"
proof -
  obtain k where k: "0 < k" "unat sz = 2 * k * unat count" "unat sz \<le> unat requested"
      "ws_bufferBytes w = sz" "unat (ws_bytesPerNotification w) = 2 * k" "ws_writeOffset w = 0"
      "ws_framesWritten w = 0" "ws_buffer w = Some (replicate (k * unat count) 0)"
    using ws_allocate_periods [OF assms(1,2)] by blast
  have q: "q = k" by (simp add: q_def k(5))
  define w1 where "w1 = (ws_startTimer w)\<lparr>ws_state := KSSTATE_RUN\<rparr>"
  have s: "s = (w1, kr_setStreamOpen True r)" using k(8) by (simp add: s_def ws_setState_def w1_def)
  have "unat count \<noteq> 0"
    using assms(1) by (auto simp: ws_allocateBufferWithNotification_def unat_eq_0 split: if_splits)
  then have "ws_filled (unat count) q [] w1"
    using k by (simp add: ws_filled_def ws_tiled_def w1_def ws_startTimer_def q)
  note run = ce_run_filled [OF this kr_setStreamOpen_ok [OF assms(3), of True] assms(4), of fl,
      folded s, folded w'_def per_def n_def]
  have "length per = n" by (simp add: per_def n_def)
  then have tiled: "ws_tiled (unat count) q (n mod unat count) w'"
    and buf: "\<exists>buf. ws_buffer w' = Some buf \<and>
      (\<forall>i<n. n \<le> i + unat count \<longrightarrow> take q (drop (q * (i mod unat count)) buf) = per ! i)"
    using run by (simp_all add: ws_filled_def)
  have fw: "ws_framesWritten w' = of_nat (n * q)" using run k(7) by (simp add: w1_def ws_startTimer_def)
  have two: "(ucast SMARTMIC_BYTES_PER_FRAME :: u64) = 2" by (simp add: ring_consts)
  have pos: "ws_getPosition w' = (of_nat (2 * n * q), of_nat (2 * n * q))"
    unfolding ws_getPosition_def fw two Let_def by (simp add: mult.commute mult.left_commute)
  have q31: "q < 2 ^ 31" using k(5) unat_bound [of "ws_bytesPerNotification w"] by (simp add: q)
  have link: "per = List.map_filter (\<lambda>out. out) (fst (tape_run fl (ce_calls q evs) (tape_open True t)))"
    if rel: "kr_mem r = Some m" "tape_rel b m t" "list_all ce_own evs"
      "b + sum_list (map rc_cost (ce_calls q evs)) < 2 ^ 62" for m b t
    unfolding per_def using kr_setStreamOpen_tape [OF rel(1,2)] ce_periods_tape [OF q31 _ _ assms(4) rel(3,4)] by blast
  show ?thesis
    using buf pos tiled k(1-3) link unfolding q by (auto simp: ws_tiled_def q)
qed

text \<open>Three ticks of two frames into a buffer of two periods, the link writing four samples between them.\<close>

theorem wavert_periods_witness:
  "let w0 = fst (snd (ws_init 88 0 True \<lparr>wf_FormatSize = 88, wf_nSamplesPerSec = 48000, wf_nChannels = 1,
         wf_wBitsPerSample = 16\<rparr> kr_new));
       w = snd (snd (the (ws_allocateBufferWithNotification True True 2 9 w0)));
       r = kr_new\<lparr>kr_mem := Some (ring_header_new\<lparr>rh_producerHeartbeat := 10\<rparr>, replicate 8192 0)\<rparr>;
       w' = fst (ce_run (\<lambda>x. x) [CE_Write 20 [1, - 1, 1 / 2], CE_Tick 30, CE_Write 40 [1], CE_Tick 50, CE_Tick 60]
         (snd (ws_setState KSSTATE_RUN (w, r))))
   in ws_buffer w' = Some [0, 0, 16384, 32734] \<and> ws_getPosition w' = (12, 12)"
proof -
  let ?w0 = "fst (snd (ws_init 88 0 True \<lparr>wf_FormatSize = 88, wf_nSamplesPerSec = 48000, wf_nChannels = 1,
         wf_wBitsPerSample = 16\<rparr> kr_new))"
  let ?w = "snd (snd (the (ws_allocateBufferWithNotification True True 2 9 ?w0)))"
  let ?m = "(ring_header_new\<lparr>rh_producerHeartbeat := 10\<rparr>, replicate 8192 0 :: pcm16 list)"
  let ?evs = "[CE_Write 20 [1, - 1, 1 / 2], CE_Tick 30, CE_Write 40 [1], CE_Tick 50, CE_Tick 60]"
  let ?t = "\<lparr>tp_hist = [], tp_pos = 0, tp_beat = 10\<rparr>"
  define r where "r = kr_new\<lparr>kr_mem := Some ?m\<rparr>"
  have a: "ws_allocateBufferWithNotification True True 2 9 ?w0 = Some (STATUS_SUCCESS, 8, ?w)"
    and q: "unat (ws_bytesPerNotification ?w) div 2 = 2"
    by (simp_all add: ws_allocateBufferWithNotification_def ring_consts Let_def)
  have mem: "kr_mem r = Some ?m" by (simp add: r_def)
  have ok: "kr_mem_ok r" by (simp add: kr_mem_ok_def mem)
  have rel: "tape_rel 0 ?m ?t" by (simp add: tape_rel_def ring_header_new_def)
  have pcm: "dl_pcm16 (\<lambda>x. x) 1 = 32734" "dl_pcm16 (\<lambda>x. x) (1 / 2) = 16384"
    by (simp_all add: dl_pcm16_def clamp_def lround_def floor_eq_iff)
  have evs: "list_all ce_ok ?evs" "ce_ticks ?evs = 3" "list_all ce_own ?evs"
      "0 + sum_list (map rc_cost (ce_calls 2 ?evs)) < 2 ^ 62" by simp_all
  define per where "per = ce_periods (\<lambda>x. x) 2 ?evs (kr_setStreamOpen True r)"
  define w' where "w' = fst (ce_run (\<lambda>x. x) ?evs (snd (ws_setState KSSTATE_RUN (?w, r))))"
  have c2: "unat (2 :: u32) < 2 ^ 31" by simp
  note all = wavert_periods [OF a c2 ok evs(1), where fl = "\<lambda>x. x", unfolded q evs(2), folded per_def w'_def]
  have tape: "List.map_filter (\<lambda>out. out) (fst (tape_run (\<lambda>x. x) (ce_calls 2 ?evs) (tape_open True ?t))) =
      [[32734, dl_pcm16 (\<lambda>x. x) (- 1)], [16384, 32734], [0, 0]]"
    by (simp add: tape_open_def tape_put_def tape_read_def tape_alive_def tape_at_def Let_def pcm map_filter_simps)
  have per: "per = [[32734, dl_pcm16 (\<lambda>x. x) (- 1)], [16384, 32734], [0, 0]]"
    unfolding tape [symmetric] using all mem rel evs(3,4) by blast
  obtain buf where buf: "ws_buffer w' = Some buf" "length buf = 4"
      "\<forall>i<3. 3 \<le> i + 2 \<longrightarrow> take 2 (drop (2 * (i mod 2)) buf) = per ! i"
    using all by auto
  have slots: "take 2 (drop 0 buf) = [0, 0]" "take 2 (drop 2 buf) = [16384, 32734]"
    using buf(3) [rule_format, of 2] buf(3) [rule_format, of 1] by (simp_all add: per)
  have "buf = take 2 (drop 0 buf) @ take 2 (drop 2 buf)" using buf(2) by simp
  then have "buf = [0, 0, 16384, 32734]" unfolding slots by simp
  moreover have "ws_getPosition w' = (12, 12)" using all by simp
  ultimately show ?thesis using buf(1) unfolding w'_def r_def Let_def by (intro conjI) simp_all
qed

end
