(* ===== verification/PhoneRuntime.thy ===== *)
theory PhoneRuntime
  imports Handshake PhoneMedia Transport
begin

text \<open>
  The engine behind the phone's C surface, \<^verbatim>\<open>apps/phone-core/phone_runtime.cpp\<close>: the handle
  \<open>sm_phone\<close>, the callbacks it gives the session, the capture callback, one pass of the worker's
  loop and the exported functions. Four threads (user interface, network, capture, worker) share
  the handle; a call of each is one step, and every clock reading is an argument of its step, so
  that a worker pass whose clock was read before a press is a step of the model. What a step
  sends and whether an exception left it are in \<open>phone_run\<close>. The last sections state what the
  steps keep: the connection mirrors the session, LIVE comes only from the PC's acknowledgement,
  media leaves only while the button is held, and an arming that is not answered ends.
\<close>

section \<open>The handle\<close>

datatype sm_conn = SM_CONN_IDLE | SM_CONN_PAIRING | SM_CONN_AUTHENTICATED | SM_CONN_FAILED

datatype sm_ptt = SM_PTT_READY | SM_PTT_CONNECTING | SM_PTT_LIVE | SM_PTT_RELEASING | SM_PTT_FAILED

datatype sm_haptic = SM_HAPTIC_NONE | SM_HAPTIC_WENT_LIVE | SM_HAPTIC_RETURNED | SM_HAPTIC_FAILED

definition kArmTimeoutMs :: u64 where "kArmTimeoutMs = 1500"
definition kReleaseTimeoutMs :: u64 where "kReleaseTimeoutMs = 800"

text \<open>\<open>rttMs\<close> is a signed \<open>int\<close>; the last two fields are the worker's locals.\<close>

record 'e sm_phone =
  sp_identity :: device_identity
  sp_peer :: "peer_session option"
  sp_sender :: "'e media_sender"
  sp_host :: string
  sp_sessionId :: string
  sp_code :: string
  sp_port :: u16
  sp_connState :: sm_conn
  sp_pttState :: sm_ptt
  sp_rttMs :: u32
  sp_micLevel :: real
  sp_haptic :: sm_haptic
  sp_pressed :: bool
  sp_pressedAtMs :: u64
  sp_releasedAtMs :: u64
  sp_pingSentMs :: u64
  sp_running :: bool
  sp_peerFingerprint :: string
  sp_deviceId :: string
  sp_lastError :: string
  sp_pcStatus :: string
  sp_lastPairingRetry :: u64
  sp_lastPing :: u64

text \<open>The libraries below the runtime: cryptography, JSON text, Opus, and rounding.\<close>

record ('e, 'd) phone_env =
  pe_crypto :: crypto
  pe_sodium :: sodium
  pe_text :: json_text
  pe_opus :: "('e, 'd) opus_ops"
  pe_rd :: "real \<Rightarrow> real"
  pe_rf :: "real \<Rightarrow> real"

text \<open>
  What one call gets from its surroundings: random bytes, the wall clock, \<open>nowMs\<close>, and whether
  the transport takes what is sent.
\<close>

record call =
  cl_rand :: bytes
  cl_unixMs :: u64
  cl_nowMs :: u64
  cl_sent :: bool

record 'e phone_run =
  pr_sent :: "bytes list"
  pr_p :: "'e sm_phone"
  pr_threw :: bool

definition pr_start :: "'e sm_phone \<Rightarrow> 'e phone_run" where
  "pr_start p = \<lparr>pr_sent = [], pr_p = p, pr_threw = False\<rparr>"

definition pr_then :: "'e phone_run \<Rightarrow> ('e sm_phone \<Rightarrow> 'e phone_run) \<Rightarrow> 'e phone_run" where
  "pr_then r f = (if pr_threw r then r else let r' = f (pr_p r) in r'\<lparr>pr_sent := pr_sent r @ pr_sent r'\<rparr>)"

definition sp_setError :: "string \<Rightarrow> 'e sm_phone \<Rightarrow> 'e sm_phone" where
  "sp_setError e p = p\<lparr>sp_lastError := e\<rparr>"

text \<open>\<open>None\<close> is an exception of the JSON library that leaves the callback.\<close>

definition sp_onControl :: "json_text \<Rightarrow> u64 \<Rightarrow> message \<Rightarrow> 'e sm_phone \<Rightarrow> 'e sm_phone option" where
  "sp_onControl t now m p =
     (case ms_type m of
        Msg_PttReady \<Rightarrow>
          Some (if sp_pressed p
                then p\<lparr>sp_pttState := SM_PTT_LIVE, sp_haptic := SM_HAPTIC_WENT_LIVE\<rparr> else p)
      | Msg_PttStopped \<Rightarrow> Some (p\<lparr>sp_pttState := SM_PTT_READY, sp_haptic := SM_HAPTIC_RETURNED\<rparr>)
      | Msg_Pong \<Rightarrow>
          Some (if sp_pingSentMs p \<noteq> 0 then p\<lparr>sp_rttMs := ucast (now - sp_pingSentMs p)\<rparr> else p)
      | Msg_Status \<Rightarrow>
          (case jt_dump t (ms_payload m) of None \<Rightarrow> None | Some s \<Rightarrow> Some (p\<lparr>sp_pcStatus := s\<rparr>))
      | Msg_Error \<Rightarrow>
          (case value_string (ms_payload m) ''message'' ''the PC reported an error'' of
             Inl e \<Rightarrow> None
           | Inr s \<Rightarrow> Some (sp_setError s p))
      | _ \<Rightarrow> Some p)"

definition sp_onStateChanged ::
  "crypto \<Rightarrow> peer_session \<Rightarrow> session_state \<Rightarrow> 'e sm_phone \<Rightarrow> 'e sm_phone" where
  "sp_onStateChanged c s st p =
     (case st of
        Ses_Pairing \<Rightarrow> p\<lparr>sp_connState := SM_CONN_PAIRING\<rparr>
      | Ses_Authenticated \<Rightarrow>
          p\<lparr>sp_peerFingerprint := peerFingerprint c s, sp_connState := SM_CONN_AUTHENTICATED\<rparr>
      | Ses_Failed \<Rightarrow>
          sp_setError ''pairing failed -- wrong code, or the code expired'' (p\<lparr>sp_connState := SM_CONN_FAILED\<rparr>)
      | _ \<Rightarrow> p)"

text \<open>The media callback is not set.\<close>

fun sp_callback ::
  "('e, 'd) phone_env \<Rightarrow> u64 \<Rightarrow> peer_session \<Rightarrow> session_out \<Rightarrow> 'e phone_run \<Rightarrow> 'e phone_run" where
  "sp_callback env now s (SO_Send b) r = r\<lparr>pr_sent := pr_sent r @ [b]\<rparr>"
| "sp_callback env now s (SO_Control m) r =
     (case sp_onControl (pe_text env) now m (pr_p r) of
        None \<Rightarrow> r\<lparr>pr_threw := True\<rparr>
      | Some p \<Rightarrow> r\<lparr>pr_p := p\<rparr>)"
| "sp_callback env now s (SO_Media x) r = r"
| "sp_callback env now s (SO_State st) r = r\<lparr>pr_p := sp_onStateChanged (pe_crypto env) s st (pr_p r)\<rparr>"

fun sp_callbacks ::
  "('e, 'd) phone_env \<Rightarrow> u64 \<Rightarrow> peer_session \<Rightarrow> session_out list \<Rightarrow> 'e phone_run \<Rightarrow> 'e phone_run" where
  "sp_callbacks env now s [] r = r"
| "sp_callbacks env now s (x # xs) r =
     (if pr_threw r then r else sp_callbacks env now s xs (sp_callback env now s x r))"

definition sp_absorb :: "('e, 'd) phone_env \<Rightarrow> u64 \<Rightarrow> session_run \<Rightarrow> 'e sm_phone \<Rightarrow> 'e phone_run" where
  "sp_absorb env now sr p =
     (let r = sp_callbacks env now (sr_s sr) (sr_out sr) (pr_start (p\<lparr>sp_peer := Some (sr_s sr)\<rparr>))
      in r\<lparr>pr_threw := pr_threw r \<or> sr_threw sr\<rparr>)"

text \<open>Calling through the null \<open>peer\<close> is not a value: the run counts as lost.\<close>

definition sp_withPeer :: "'e sm_phone \<Rightarrow> (peer_session \<Rightarrow> 'e phone_run) \<Rightarrow> 'e phone_run" where
  "sp_withPeer p f = (case sp_peer p of None \<Rightarrow> (pr_start p)\<lparr>pr_threw := True\<rparr> | Some s \<Rightarrow> f s)"

text \<open>\<open>peer->sendControl(Message::make(type, sessionId, deviceId, peer->nextSeq(), payload))\<close>\<close>

definition sp_sendControl ::
  "('e, 'd) phone_env \<Rightarrow> call \<Rightarrow> msg_type \<Rightarrow> json \<Rightarrow> 'e sm_phone \<Rightarrow> 'e phone_run" where
  "sp_sendControl env cl ty payload p =
     sp_withPeer p (\<lambda>s.
       case ps_nextSeq s of
         (seq, s') \<Rightarrow>
           sp_absorb env (cl_nowMs cl)
             (snd (sendControl (pe_sodium env) (pe_text env) (cl_sent cl)
                (message_make (cl_rand cl) (cl_unixMs cl) ty (sp_sessionId p)
                   (di_deviceId (pe_crypto env) (sp_identity p)) seq payload) s')) p)"

section \<open>The callbacks of network and capture\<close>

text \<open>No session, no packet handler.\<close>

definition sp_onDatagram :: "('e, 'd) phone_env \<Rightarrow> call \<Rightarrow> bytes \<Rightarrow> 'e sm_phone \<Rightarrow> 'e phone_run" where
  "sp_onDatagram env cl data p =
     (case sp_peer p of
        None \<Rightarrow> pr_start p
      | Some s \<Rightarrow>
          sp_absorb env (cl_nowMs cl)
            (onDatagram (pe_crypto env) (pe_sodium env) (pe_text env) (cl_rand cl) (cl_unixMs cl) data s) p)"

text \<open>\<open>0.6f\<close> and \<open>0.4f\<close>; \<open>samples\<close> is positive in every capture back end.\<close>

definition f06 :: real where "f06 = 10066330 / 2 ^ 24"
definition f04 :: real where "f04 = 13421773 / 2 ^ 25"

fun sp_energy :: "(real \<Rightarrow> real) \<Rightarrow> samples \<Rightarrow> real \<Rightarrow> real" where
  "sp_energy rd [] acc = acc"
| "sp_energy rd (x # xs) acc = sp_energy rd xs (rd (acc + rd (x * x)))"

definition sp_rms :: "(real \<Rightarrow> real) \<Rightarrow> (real \<Rightarrow> real) \<Rightarrow> samples \<Rightarrow> real" where
  "sp_rms rd rf pcm = rf (rd (sqrt (rd (sp_energy rd pcm 0 / of_nat (length pcm)))))"

definition sp_onCaptureFrame :: "('e, 'd) phone_env \<Rightarrow> call \<Rightarrow> samples \<Rightarrow> 'e sm_phone \<Rightarrow> 'e phone_run" where
  "sp_onCaptureFrame env cl pcm p =
     (let rf = pe_rf env;
          p1 = p\<lparr>sp_micLevel := rf (rf (sp_micLevel p * f06) + rf (sp_rms (pe_rd env) rf pcm * f04))\<rparr>
      in if \<not> sp_pressed p1 \<or> sp_connState p1 \<noteq> SM_CONN_AUTHENTICATED then pr_start p1
         else if length pcm \<noteq> kFrameSamples then pr_start p1
         else
           (case packFrame (pe_opus env) pcm True [] (sp_sender p1) of
              (ok, payload, snd') \<Rightarrow>
                let p2 = p1\<lparr>sp_sender := snd'\<rparr>
                in if \<not> ok then pr_start p2
                   else sp_withPeer p2 (\<lambda>s.
                     sp_absorb env (cl_nowMs cl) (snd (sendMedia (pe_sodium env) (cl_sent cl) payload s)) p2)))"

section \<open>The worker\<close>

definition worker_pairing :: "('e, 'd) phone_env \<Rightarrow> call \<Rightarrow> 'e sm_phone \<Rightarrow> 'e phone_run" where
  "worker_pairing env cl p =
     (let t = cl_nowMs cl
      in if sp_connState p = SM_CONN_PAIRING \<and> t - sp_lastPairingRetry p > 400
         then pr_then (sp_withPeer p (\<lambda>s. sp_absorb env t (snd (resendPairingHello s)) p))
                (\<lambda>p. pr_start (p\<lparr>sp_lastPairingRetry := t\<rparr>))
         else pr_start p)"

definition worker_ping :: "('e, 'd) phone_env \<Rightarrow> call \<Rightarrow> 'e sm_phone \<Rightarrow> 'e phone_run" where
  "worker_ping env cl p =
     (let t = cl_nowMs cl
      in if t - sp_lastPing p > 1000
         then pr_then (sp_sendControl env cl Msg_Ping (json_obj [(''pttActive'', JBool (sp_pressed p))])
                         (p\<lparr>sp_pingSentMs := t\<rparr>))
                (\<lambda>p. pr_start (p\<lparr>sp_lastPing := t\<rparr>))
         else pr_start p)"

definition worker_arm :: "u64 \<Rightarrow> 'e sm_phone \<Rightarrow> 'e sm_phone" where
  "worker_arm t p =
     (if sp_pttState p = SM_PTT_CONNECTING \<and> t - sp_pressedAtMs p > kArmTimeoutMs
      then sp_setError ''the PC did not accept the microphone in time''
             (p\<lparr>sp_pttState := SM_PTT_FAILED, sp_haptic := SM_HAPTIC_FAILED, sp_pressed := False\<rparr>)
      else p)"

definition worker_release :: "u64 \<Rightarrow> 'e sm_phone \<Rightarrow> 'e sm_phone" where
  "worker_release t p =
     (if sp_pttState p = SM_PTT_RELEASING \<and> t - sp_releasedAtMs p > kReleaseTimeoutMs
      then p\<lparr>sp_pttState := SM_PTT_READY\<rparr> else p)"

definition workerMain :: "('e, 'd) phone_env \<Rightarrow> call \<Rightarrow> 'e sm_phone \<Rightarrow> 'e phone_run" where
  "workerMain env cl p =
     (if \<not> sp_running p then pr_start p
      else
        pr_then (worker_pairing env cl p) (\<lambda>p.
          if sp_connState p = SM_CONN_AUTHENTICATED
          then pr_then (worker_ping env cl p) (\<lambda>p.
                 pr_start (worker_release (cl_nowMs cl) (worker_arm (cl_nowMs cl) p)))
          else pr_start p))"

section \<open>The exported functions\<close>

text \<open>
  \<open>file\<close> is the content of \<open>identity.key\<close> when it can be opened, \<open>rand\<close> the seed of a new key;
  the second component is what is written back, when anything is.
\<close>

definition loadOrCreateIdentity ::
  "crypto \<Rightarrow> bytes \<Rightarrow> string \<Rightarrow> bytes option \<Rightarrow> device_identity \<times> bytes option" where
  "loadOrCreateIdentity c rand dir file =
     (case (if dir = [] then None else Option.bind file (di_fromSecretKey c)) of
        Some i \<Rightarrow> (i, None)
      | None \<Rightarrow>
          let i = di_generate c rand
          in (i, if dir = [] then None else Some (id_secret i)))"

definition sp_new :: "device_identity \<Rightarrow> 'e sm_phone" where
  "sp_new i = \<lparr>sp_identity = i, sp_peer = None, sp_sender = msd_new, sp_host = [], sp_sessionId = [],
     sp_code = [], sp_port = 0, sp_connState = SM_CONN_IDLE, sp_pttState = SM_PTT_READY, sp_rttMs = - 1,
     sp_micLevel = 0, sp_haptic = SM_HAPTIC_NONE, sp_pressed = False, sp_pressedAtMs = 0,
     sp_releasedAtMs = 0, sp_pingSentMs = 0, sp_running = False, sp_peerFingerprint = [],
     sp_deviceId = [], sp_lastError = [], sp_pcStatus = [], sp_lastPairingRetry = 0, sp_lastPing = 0\<rparr>"

text \<open>What creation finds: the key file, the socket, the address, the microphone.\<close>

record create_env =
  ce_keyRand :: bytes
  ce_file :: "bytes option"
  ce_started :: bool
  ce_peerSet :: bool
  ce_captureStarted :: bool

definition sp_configure ::
  "crypto \<Rightarrow> create_env \<Rightarrow> string \<Rightarrow> u16 \<Rightarrow> string \<Rightarrow> string \<Rightarrow> string option \<Rightarrow> 'e sm_phone" where
  "sp_configure c ce host port sid code dir =
     (let i = fst (loadOrCreateIdentity c (ce_keyRand ce) (case dir of Some d \<Rightarrow> d | None \<Rightarrow> []) (ce_file ce))
      in (sp_new i)\<lparr>sp_host := host, sp_port := port, sp_sessionId := sid, sp_code := code,
           sp_deviceId := di_deviceId c i\<rparr>)"

definition phone_session :: "device_identity \<Rightarrow> peer_session" where
  "phone_session i =
     ps_setCallbacks \<lparr>scb_onControl = True, scb_onMedia = False, scb_onStateChanged = True\<rparr>
       (ps_new i Initiator)"

definition sm_phone_create ::
  "('e, 'd) phone_env \<Rightarrow> call \<Rightarrow> create_env \<Rightarrow> string option \<Rightarrow> u16 \<Rightarrow> string option \<Rightarrow> string option
   \<Rightarrow> string option \<Rightarrow> 'e phone_run option" where
  "sm_phone_create env cl ce host port session_id code identity_dir =
     (case (host, session_id, code) of
        (Some h, Some sid, Some cd) \<Rightarrow>
          if port = 0 then None
          else
            let p = sp_configure (pe_crypto env) ce h port sid cd identity_dir
            in if \<not> ce_started ce \<or> \<not> ce_peerSet ce
               then Some (pr_start ((sp_setError (''cannot reach '' @ h @ '':'' @ dec (unat port)) p)
                            \<lparr>sp_connState := SM_CONN_FAILED\<rparr>))
               else
                 let p1 = p\<lparr>sp_peer := Some (phone_session (sp_identity p)),
                            sp_sender := snd (msd_open (pe_opus env) default_encoder_config (sp_sender p))\<rparr>;
                     p2 = (if ce_captureStarted ce then p1
                           else sp_setError ''microphone unavailable -- check the permission'' p1);
                     p3 = p2\<lparr>sp_running := True\<rparr>
                 in Some (sp_withPeer p3 (\<lambda>s. sp_absorb env (cl_nowMs cl)
                            (beginPairing (pe_crypto env) (pe_text env) (cl_rand cl) sid cd s) p3))
      | _ \<Rightarrow> None)"

definition sm_phone_press :: "('e, 'd) phone_env \<Rightarrow> call \<Rightarrow> 'e sm_phone \<Rightarrow> 'e phone_run" where
  "sm_phone_press env cl p =
     (if sp_connState p \<noteq> SM_CONN_AUTHENTICATED \<or> sp_pressed p then pr_start p
      else sp_sendControl env cl Msg_StartPtt (json_obj [])
             (p\<lparr>sp_pressed := True, sp_pressedAtMs := cl_nowMs cl, sp_pttState := SM_PTT_CONNECTING,
                sp_sender := msd_resetStream (sp_sender p)\<rparr>))"

definition sm_phone_release :: "('e, 'd) phone_env \<Rightarrow> call \<Rightarrow> 'e sm_phone \<Rightarrow> 'e phone_run" where
  "sm_phone_release env cl p =
     (let p1 = p\<lparr>sp_pressed := False\<rparr>
      in if sp_connState p1 \<noteq> SM_CONN_AUTHENTICATED then pr_start (p1\<lparr>sp_pttState := SM_PTT_READY\<rparr>)
         else
           let p2 = p1\<lparr>sp_releasedAtMs := cl_nowMs cl\<rparr>;
               p3 = (if sp_pttState p2 \<noteq> SM_PTT_READY then p2\<lparr>sp_pttState := SM_PTT_RELEASING\<rparr> else p2)
           in sp_sendControl env cl Msg_StopPtt (json_obj [(''reason'', JString ''release'')]) p3)"

definition mode_name :: "int \<Rightarrow> string" where
  "mode_name mode =
     (if mode = 1 then ''PhoneOnly'' else if mode = 2 then ''LocalOnly'' else if mode = 3 then ''Mute''
      else ''Auto'')"

definition sm_phone_set_mode :: "('e, 'd) phone_env \<Rightarrow> call \<Rightarrow> int \<Rightarrow> 'e sm_phone \<Rightarrow> 'e phone_run" where
  "sm_phone_set_mode env cl mode p =
     (if sp_connState p \<noteq> SM_CONN_AUTHENTICATED then pr_start p
      else sp_sendControl env cl Msg_SetMode (json_obj [(''mode'', JString (mode_name mode))]) p)"

definition sm_phone_take_haptic :: "'e sm_phone \<Rightarrow> sm_haptic \<times> 'e sm_phone" where
  "sm_phone_take_haptic p = (sp_haptic p, p\<lparr>sp_haptic := SM_HAPTIC_NONE\<rparr>)"

text \<open>The encoder goes with the handle; capture and transport are stopped before.\<close>

definition sm_phone_destroy :: "('e, 'd) phone_env \<Rightarrow> call \<Rightarrow> 'e sm_phone \<Rightarrow> bytes list" where
  "sm_phone_destroy env cl p = pr_sent (sm_phone_release env cl p)"

definition sm_phone_conn_state :: "'e sm_phone option \<Rightarrow> sm_conn" where
  "sm_phone_conn_state h = (case h of Some p \<Rightarrow> sp_connState p | None \<Rightarrow> SM_CONN_FAILED)"

definition sm_phone_ptt_state :: "'e sm_phone option \<Rightarrow> sm_ptt" where
  "sm_phone_ptt_state h = (case h of Some p \<Rightarrow> sp_pttState p | None \<Rightarrow> SM_PTT_FAILED)"

definition sm_phone_rtt_ms :: "'e sm_phone option \<Rightarrow> u32" where
  "sm_phone_rtt_ms h = (case h of Some p \<Rightarrow> sp_rttMs p | None \<Rightarrow> - 1)"

definition sm_phone_mic_level :: "'e sm_phone option \<Rightarrow> real" where
  "sm_phone_mic_level h = (case h of Some p \<Rightarrow> sp_micLevel p | None \<Rightarrow> 0)"

definition sm_phone_text :: "('e sm_phone \<Rightarrow> string) \<Rightarrow> 'e sm_phone option \<Rightarrow> string" where
  "sm_phone_text field h = (case h of Some p \<Rightarrow> c_str (field p) | None \<Rightarrow> [])"

definition sm_phone_net_stats :: "transport_stats option \<Rightarrow> u64 \<times> u64 \<times> u64" where
  "sm_phone_net_stats ts =
     (case ts of
        None \<Rightarrow> (0, 0, 0)
      | Some s \<Rightarrow> (ts_packetsSent s, ts_sendFailures s, ts_packetsReceived s))"

text \<open>\<open>None\<close>: a null pointer or an empty array, nothing is written.\<close>

definition uri_copy :: "int option \<Rightarrow> string \<Rightarrow> string option" where
  "uri_copy dst src =
     (case dst of
        None \<Rightarrow> None
      | Some len \<Rightarrow> if len \<le> 0 then None else Some (take (min (length src) (nat len - 1)) src @ [CHR 0x00]))"

definition sm_phone_parse_uri ::
  "nat \<Rightarrow> string option \<Rightarrow> int option \<Rightarrow> int option \<Rightarrow> int option \<Rightarrow> int option \<Rightarrow>
   (string option \<times> u16 \<times> string option \<times> string option \<times> string option) option" where
  "sm_phone_parse_uri ul uri host session code fp =
     (case Option.bind uri (parsePairingUri ul) of
        None \<Rightarrow> None
      | Some u \<Rightarrow> Some (uri_copy host (pu_host u), pu_port u, uri_copy session (pu_sessionId u),
                        uri_copy code (pu_code u), uri_copy fp (pu_fingerprint u)))"

section \<open>The steps of a phone\<close>

datatype phone_event =
    PE_Datagram call bytes
  | PE_Frame call samples
  | PE_Work call
  | PE_Press call
  | PE_Release call
  | PE_SetMode call int
  | PE_TakeHaptic

fun phone_step :: "('e, 'd) phone_env \<Rightarrow> phone_event \<Rightarrow> 'e sm_phone \<Rightarrow> 'e phone_run" where
  "phone_step env (PE_Datagram cl d) p = sp_onDatagram env cl d p"
| "phone_step env (PE_Frame cl pcm) p = sp_onCaptureFrame env cl pcm p"
| "phone_step env (PE_Work cl) p = workerMain env cl p"
| "phone_step env (PE_Press cl) p = sm_phone_press env cl p"
| "phone_step env (PE_Release cl) p = sm_phone_release env cl p"
| "phone_step env (PE_SetMode cl mode) p = sm_phone_set_mode env cl mode p"
| "phone_step env PE_TakeHaptic p = pr_start (snd (sm_phone_take_haptic p))"

text \<open>The handles a program can hold: created, and stepped without an exception.\<close>

inductive phone_reach :: "('e, 'd) phone_env \<Rightarrow> 'e sm_phone \<Rightarrow> bool" for env where
  created: "sm_phone_create env cl ce host port sid code dir = Some r \<Longrightarrow> \<not> pr_threw r \<Longrightarrow>
    phone_reach env (pr_p r)"
| stepped: "phone_reach env p \<Longrightarrow> \<not> pr_threw (phone_step env e p) \<Longrightarrow>
    phone_reach env (pr_p (phone_step env e p))"

section \<open>A session announces its state\<close>

text \<open>
  What a handler of a session with a state callback started in \<open>s\<close> has done so far: it has kept
  identity, role and callbacks, announced every change of state, and sent no media.
\<close>

definition announced :: "session_state \<Rightarrow> session_out list \<Rightarrow> session_state" where
  "announced st out = fold (\<lambda>x a. case x of SO_State st' \<Rightarrow> st' | _ \<Rightarrow> a) out st"

definition harmless :: "session_out \<Rightarrow> bool" where
  "harmless x = (case x of
     SO_State st \<Rightarrow> st = Ses_Pairing \<or> st = Ses_Authenticated \<or> st = Ses_Failed
   | SO_Send b \<Rightarrow> b \<noteq> [] \<and> hd b \<noteq> tag_Media
   | _ \<Rightarrow> True)"

definition tracks :: "peer_session \<Rightarrow> session_run \<Rightarrow> bool" where
  "tracks s r \<longleftrightarrow> ps_self (sr_s r) = ps_self s \<and> ps_role (sr_s r) = ps_role s \<and>
     ps_cb (sr_s r) = ps_cb s \<and> scb_onStateChanged (ps_cb s) \<and>
     ps_state (sr_s r) = announced (ps_state s) (sr_out r) \<and> list_all harmless (sr_out r)"

lemma announced_append [simp]: "announced st (xs @ ys) = announced (announced st xs) ys"
  by (simp add: announced_def)

lemma announced_simps [simp]:
  "announced st [] = st" "announced st (SO_Send b # xs) = announced st xs"
  "announced st (SO_Control m # xs) = announced st xs" "announced st (SO_Media d # xs) = announced st xs"
  "announced st (SO_State st' # xs) = announced st' xs"
  by (simp_all add: announced_def)

lemma tracks_start: "scb_onStateChanged (ps_cb s) \<Longrightarrow> tracks s (sr_start s)"
  by (simp add: tracks_def step_simps)

text \<open>An update that leaves state, identity, role and callbacks alone.\<close>

definition neutral :: "(peer_session \<Rightarrow> peer_session) \<Rightarrow> bool" where
  "neutral f \<longleftrightarrow> (\<forall>s. ps_self (f s) = ps_self s \<and> ps_role (f s) = ps_role s \<and> ps_cb (f s) = ps_cb s \<and>
     ps_state (f s) = ps_state s)"

lemma tracks_upd: "neutral f \<Longrightarrow> tracks s r \<Longrightarrow> tracks s (sr_upd f r)"
  by (simp add: tracks_def neutral_def step_simps)

lemma tracks_setState:
  "st = Ses_Pairing \<or> st = Ses_Authenticated \<or> st = Ses_Failed \<Longrightarrow> tracks s r \<Longrightarrow> tracks s (ps_setState st r)"
  by (auto simp: tracks_def ps_setState_def Let_def step_simps harmless_def)

lemma tracks_sendTagged: "tag \<noteq> tag_Media \<Longrightarrow> tracks s r \<Longrightarrow> tracks s (sendTagged tag d r)"
  by (simp add: tracks_def step_simps harmless_def)

lemma tracks_emit: "x = SO_Control m \<or> x = SO_Media d \<Longrightarrow> tracks s r \<Longrightarrow> tracks s (sr_emit x r)"
  by (auto simp: tracks_def step_simps harmless_def)

lemma tracks_threw [simp]: "tracks s (r\<lparr>sr_threw := b\<rparr>) = tracks s r"
  by (simp add: tracks_def)

lemma tags_distinct [simp]: "tag_Pairing \<noteq> tag_Media" "tag_Control \<noteq> tag_Media"
  by (simp_all add: tag_Pairing_def tag_Control_def tag_Media_def)

lemma tracks_sendPairingJson: "tracks s r \<Longrightarrow> tracks s (sendPairingJson t j r)"
  by (auto simp: sendPairingJson_def tracks_sendTagged split: option.split)

lemma tracks_counters:
  "tracks s r \<Longrightarrow> tracks s (ps_reject r)" "tracks s r \<Longrightarrow> tracks s (ps_pairingFailed r)"
  "tracks s r \<Longrightarrow> tracks s (ps_noteFailed r)"
  by (simp_all add: ps_reject_def ps_pairingFailed_def ps_noteFailed_def tracks_upd neutral_def)

lemma tracks_establish: "tracks s r \<Longrightarrow> tracks s (establish so x r)"
  by (simp add: establish_def tracks_setState tracks_upd neutral_def)

lemma tracks_then: "tracks s r \<Longrightarrow> (tracks s r \<Longrightarrow> tracks s (f r)) \<Longrightarrow> tracks s (sr_then r f)"
  by (simp add: sr_then_def)

lemmas tracks_rules = tracks_then tracks_setState tracks_sendPairingJson tracks_counters tracks_establish
  tracks_upd tracks_sendTagged

lemma tracks_onPair1: "tracks s r \<Longrightarrow> tracks s (onPair1 c t rand now j r)"
  by (simp add: onPair1_def tracks_rules neutral_def Let_def split: option.split sum.split prod.split)

lemma tracks_onPair2: "tracks s r \<Longrightarrow> tracks s (onPair2 c t j r)"
  by (simp add: onPair2_def tracks_rules neutral_def Let_def split: option.split prod.split)

lemma tracks_onPair34:
  "tracks s r \<Longrightarrow> tracks s (onPair3 c so t j r)" "tracks s r \<Longrightarrow> tracks s (onPair4 c so j r)"
  by (simp_all add: onPair3_def onPair4_def tracks_rules Let_def split: option.split)

lemma tracks_handlePairing: "tracks s r \<Longrightarrow> tracks s (handlePairing c so t rand now text r)"
  by (simp add: handlePairing_def onPairErr_def tracks_onPair1 tracks_onPair2 tracks_onPair34 tracks_rules Let_def
      split: option.split sum.split)

lemma tracks_onDatagram:
  assumes "scb_onStateChanged (ps_cb s)"
  shows "tracks s (onDatagram c so t rand now data s)"
proof -
  note st = tracks_start [OF assms]
  have u: "tracks s (sr_upd (\<lambda>s. s\<lparr>ps_channel := ch\<rparr>) (sr_start s))"
    "tracks s (sr_upd (\<lambda>s. s\<lparr>ps_controlReplay := w\<rparr>) (sr_upd (\<lambda>s. s\<lparr>ps_channel := ch\<rparr>) (sr_start s)))" for ch w
    using st by (simp_all add: tracks_upd neutral_def)
  show ?thesis
    using st u
    by (auto simp: onDatagram_def tracks_handlePairing tracks_rules tracks_emit Let_def
        split: list.split prod.split sum.split)
qed

section \<open>What a phone keeps\<close>

definition conn_of :: "session_state \<Rightarrow> sm_conn" where
  "conn_of st = (case st of Ses_Pairing \<Rightarrow> SM_CONN_PAIRING | Ses_Authenticated \<Rightarrow> SM_CONN_AUTHENTICATED
     | Ses_Failed \<Rightarrow> SM_CONN_FAILED | _ \<Rightarrow> SM_CONN_IDLE)"

text \<open>The button is down whenever the interface says connecting or live.\<close>

definition ptt_held :: "'e sm_phone \<Rightarrow> bool" where
  "ptt_held p \<longleftrightarrow> (sp_pttState p = SM_PTT_CONNECTING \<or> sp_pttState p = SM_PTT_LIVE \<longrightarrow> sp_pressed p)"

text \<open>The session \<open>s\<close> is the phone's own, and the connection shown is its state.\<close>

definition peer_matches :: "'e sm_phone \<Rightarrow> peer_session \<Rightarrow> bool" where
  "peer_matches p s \<longleftrightarrow> ps_self s = sp_identity p \<and> ps_role s = Initiator \<and>
     ps_cb s = \<lparr>scb_onControl = True, scb_onMedia = False, scb_onStateChanged = True\<rparr> \<and>
     sp_connState p = conn_of (ps_state s)"

definition phone_wf :: "'e sm_phone \<Rightarrow> bool" where
  "phone_wf p \<longleftrightarrow> ptt_held p \<and>
     (case sp_peer p of
        None \<Rightarrow> sp_connState p = SM_CONN_FAILED \<and> \<not> sp_running p
      | Some s \<Rightarrow> peer_matches p s)"

text \<open>The fields the callbacks do not touch.\<close>

definition same_handle :: "'e sm_phone \<Rightarrow> 'e sm_phone \<Rightarrow> bool" where
  "same_handle p q \<longleftrightarrow> sp_peer q = sp_peer p \<and> sp_identity q = sp_identity p \<and> sp_pressed q = sp_pressed p \<and>
     sp_pressedAtMs q = sp_pressedAtMs p \<and> sp_releasedAtMs q = sp_releasedAtMs p \<and>
     sp_running q = sp_running p"

definition announces :: "peer_session \<Rightarrow> session_run \<Rightarrow> bool" where
  "announces s r \<longleftrightarrow> ps_self (sr_s r) = ps_self s \<and> ps_role (sr_s r) = ps_role s \<and> ps_cb (sr_s r) = ps_cb s \<and>
     ps_state (sr_s r) = announced (ps_state s) (sr_out r) \<and>
     (\<forall>st. SO_State st \<in> set (sr_out r) \<longrightarrow> st = Ses_Pairing \<or> st = Ses_Authenticated \<or> st = Ses_Failed)"

lemma tracks_announces: "tracks s r \<Longrightarrow> announces s r"
  by (force simp: tracks_def announces_def list_all_iff harmless_def)

text \<open>LIVE comes from an acknowledgement that found the button down.\<close>

definition ack_in :: "session_out list \<Rightarrow> bool" where
  "ack_in xs \<longleftrightarrow> (\<exists>m. SO_Control m \<in> set xs \<and> ms_type m = Msg_PttReady)"

lemma sp_onControl_conn: "sp_onControl t now m p = Some q \<Longrightarrow> sp_connState q = sp_connState p"
  by (auto simp: sp_onControl_def sp_setError_def split: msg_type.splits if_splits option.splits sum.splits)

lemma same_handle_refl [simp]: "same_handle p p"
  by (simp add: same_handle_def)

text \<open>What callbacks, made for the outputs \<open>xs\<close>, may change of the handle.\<close>

definition callback_rel :: "session_out list \<Rightarrow> 'e sm_phone \<Rightarrow> 'e sm_phone \<Rightarrow> bool" where
  "callback_rel xs p q \<longleftrightarrow> same_handle p q \<and> (ptt_held p \<longrightarrow> ptt_held q) \<and>
     (sp_pttState q = SM_PTT_LIVE \<longrightarrow> sp_pttState p = SM_PTT_LIVE \<or> sp_pressed p \<and> ack_in xs) \<and>
     (sp_pttState q = SM_PTT_CONNECTING \<longrightarrow> sp_pttState p = SM_PTT_CONNECTING)"

lemma callback_rel_refl: "callback_rel xs p p"
  by (simp add: callback_rel_def)

lemma callback_rel_trans: "callback_rel xs p q \<Longrightarrow> callback_rel ys q r \<Longrightarrow> callback_rel (xs @ ys) p r"
  by (auto simp: callback_rel_def same_handle_def ack_in_def)

lemma sp_onControl_rel: "sp_onControl t now m p = Some q \<Longrightarrow> callback_rel [SO_Control m] p q"
  by (auto simp: sp_onControl_def sp_setError_def callback_rel_def same_handle_def ptt_held_def ack_in_def
      split: msg_type.splits if_splits option.splits sum.splits)

lemma sp_onStateChanged_facts:
  "callback_rel [SO_State st] p (sp_onStateChanged c s st p)"
  "st = Ses_Pairing \<or> st = Ses_Authenticated \<or> st = Ses_Failed \<Longrightarrow>
     sp_connState (sp_onStateChanged c s st p) = conn_of st"
  by (auto simp: sp_onStateChanged_def callback_rel_def same_handle_def ptt_held_def sp_setError_def conn_of_def
      split: session_state.split)

definition sends_of :: "session_out list \<Rightarrow> bytes list" where
  "sends_of xs = concat (map (\<lambda>x. case x of SO_Send b \<Rightarrow> [b] | _ \<Rightarrow> []) xs)"

definition proper_state :: "session_state \<Rightarrow> bool" where
  "proper_state st \<longleftrightarrow> st = Ses_Pairing \<or> st = Ses_Authenticated \<or> st = Ses_Failed"

lemma sp_callback_facts:
  assumes "\<not> pr_threw (sp_callback env now s x r)" and "sp_connState (pr_p r) = conn_of st"
    and "\<And>st. x = SO_State st \<Longrightarrow> proper_state st"
  shows "callback_rel [x] (pr_p r) (pr_p (sp_callback env now s x r)) \<and>
    sp_connState (pr_p (sp_callback env now s x r)) = conn_of (announced st [x]) \<and>
    pr_sent (sp_callback env now s x r) = pr_sent r @ sends_of [x]"
  using assms sp_onStateChanged_facts [where p = "pr_p r"]
  by (cases x) (auto simp: sends_of_def callback_rel_refl proper_state_def sp_onControl_rel sp_onControl_conn
      split: option.splits)

lemma sp_callbacks_facts:
  assumes "\<not> pr_threw (sp_callbacks env now s xs r)" and "sp_connState (pr_p r) = conn_of st"
    and "\<And>st. SO_State st \<in> set xs \<Longrightarrow> proper_state st"
  shows "callback_rel xs (pr_p r) (pr_p (sp_callbacks env now s xs r)) \<and>
    sp_connState (pr_p (sp_callbacks env now s xs r)) = conn_of (announced st xs) \<and>
    pr_sent (sp_callbacks env now s xs r) = pr_sent r @ sends_of xs"
  using assms
proof (induction xs arbitrary: r st)
  case Nil
  then show ?case by (simp add: sends_of_def callback_rel_refl)
next
  case (Cons x xs)
  define r1 where "r1 = sp_callback env now s x r"
  have run: "sp_callbacks env now s (x # xs) r = sp_callbacks env now s xs r1"
    using Cons.prems(1) by (auto simp: r1_def split: if_splits)
  have nt1: "\<not> pr_threw r1" using Cons.prems(1) unfolding run by (cases xs) auto
  have step: "callback_rel [x] (pr_p r) (pr_p r1) \<and> sp_connState (pr_p r1) = conn_of (announced st [x]) \<and>
      pr_sent r1 = pr_sent r @ sends_of [x]"
    unfolding r1_def by (rule sp_callback_facts) (use nt1 Cons.prems in \<open>auto simp: r1_def\<close>)
  have ih: "callback_rel xs (pr_p r1) (pr_p (sp_callbacks env now s xs r1)) \<and>
    sp_connState (pr_p (sp_callbacks env now s xs r1)) = conn_of (announced (announced st [x]) xs) \<and>
    pr_sent (sp_callbacks env now s xs r1) = pr_sent r1 @ sends_of xs"
    by (rule Cons.IH) (use Cons.prems step run in auto)
  have ann: "announced st (x # xs) = announced (announced st [x]) xs"
    using announced_append [of st "[x]" xs] by simp
  show ?case unfolding run ann
    using step ih callback_rel_trans [of "[x]" _ "pr_p r1" xs] by (auto simp: sends_of_def)
qed

text \<open>A run of the session, seen from the handle.\<close>

lemma sp_absorb_facts:
  assumes "announces s sr" and "peer_matches p s" and "\<not> pr_threw (sp_absorb env now sr p)"
  shows "callback_rel (sr_out sr) (p\<lparr>sp_peer := Some (sr_s sr)\<rparr>) (pr_p (sp_absorb env now sr p))"
    and "peer_matches (pr_p (sp_absorb env now sr p)) (sr_s sr)"
    and "pr_sent (sp_absorb env now sr p) = sends_of (sr_out sr)"
proof -
  let ?r = "sp_callbacks env now (sr_s sr) (sr_out sr) (pr_start (p\<lparr>sp_peer := Some (sr_s sr)\<rparr>))"
  have f: "callback_rel (sr_out sr) (pr_p (pr_start (p\<lparr>sp_peer := Some (sr_s sr)\<rparr>))) (pr_p ?r) \<and>
    sp_connState (pr_p ?r) = conn_of (announced (ps_state s) (sr_out sr)) \<and>
    pr_sent ?r = pr_sent (pr_start (p\<lparr>sp_peer := Some (sr_s sr)\<rparr>)) @ sends_of (sr_out sr)"
    by (rule sp_callbacks_facts)
       (use assms in \<open>auto simp: sp_absorb_def Let_def pr_start_def announces_def peer_matches_def proper_state_def\<close>)
  then show "callback_rel (sr_out sr) (p\<lparr>sp_peer := Some (sr_s sr)\<rparr>) (pr_p (sp_absorb env now sr p))"
    and "pr_sent (sp_absorb env now sr p) = sends_of (sr_out sr)"
    by (simp_all add: sp_absorb_def Let_def pr_start_def)
  show "peer_matches (pr_p (sp_absorb env now sr p)) (sr_s sr)"
    using f assms(1,2)
    by (simp add: sp_absorb_def Let_def pr_start_def announces_def peer_matches_def callback_rel_def same_handle_def)
qed

section \<open>The steps, one by one\<close>

text \<open>A run that only sends leaves everything but the session alone.\<close>

definition only_sends :: "session_run \<Rightarrow> bool" where
  "only_sends sr \<longleftrightarrow> (\<forall>x\<in>set (sr_out sr). \<exists>b. x = SO_Send b)"

lemma sp_callbacks_sends:
  "\<forall>x\<in>set xs. \<exists>b. x = SO_Send b \<Longrightarrow> pr_p (sp_callbacks env now s xs r) = pr_p r"
  by (induction xs arbitrary: r) auto

lemma sp_absorb_sends: "only_sends sr \<Longrightarrow> pr_p (sp_absorb env now sr p) = p\<lparr>sp_peer := Some (sr_s sr)\<rparr>"
  by (simp add: sp_absorb_def only_sends_def Let_def sp_callbacks_sends pr_start_def)

definition no_media :: "bytes list \<Rightarrow> bool" where
  "no_media bs \<longleftrightarrow> (\<forall>b\<in>set bs. b \<noteq> [] \<and> hd b \<noteq> tag_Media)"

lemma tracks_no_media: "tracks s r \<Longrightarrow> no_media (sends_of (sr_out r))"
  by (fastforce simp: tracks_def no_media_def sends_of_def list_all_iff harmless_def split: session_out.splits)

lemma sealed_run:
  "announces s (snd (ps_sealAndSend so sent tag plain s))" "only_sends (snd (ps_sealAndSend so sent tag plain s))"
  "tag \<noteq> tag_Media \<Longrightarrow> no_media (sends_of (sr_out (snd (ps_sealAndSend so sent tag plain s))))"
  by (auto simp: ps_sealAndSend_def announces_def only_sends_def no_media_def sends_of_def Let_def step_simps
      split: prod.split)

lemma sendControl_run:
  "announces s (snd (sendControl so t sent m s))" "only_sends (snd (sendControl so t sent m s))"
  "no_media (sends_of (sr_out (snd (sendControl so t sent m s))))"
  using sealed_run [where s = s and so = so and sent = sent and tag = tag_Control]
  by (auto simp: sendControl_def announces_def only_sends_def no_media_def sends_of_def step_simps
      split: option.split)

lemma sendMedia_run:
  "announces s (snd (sendMedia so sent m s))" "only_sends (snd (sendMedia so sent m s))"
  using sealed_run [where s = s and so = so and sent = sent and tag = tag_Media]
  by (auto simp: sendMedia_def announces_def only_sends_def step_simps)

lemma resendPairingHello_run:
  "announces s (snd (resendPairingHello s))" "only_sends (snd (resendPairingHello s))"
  "no_media (sends_of (sr_out (snd (resendPairingHello s))))"
  by (auto simp: resendPairingHello_def announces_def only_sends_def no_media_def sends_of_def step_simps)

text \<open>Sending from a matched handle leaves a matched handle; only its session has moved.\<close>

definition sent_from :: "'e sm_phone \<Rightarrow> 'e phone_run \<Rightarrow> bool" where
  "sent_from p r \<longleftrightarrow> (\<exists>s. pr_p r = p\<lparr>sp_peer := Some s\<rparr> \<and> peer_matches p s) \<and> no_media (pr_sent r)"

lemma absorb_sent_from:
  assumes "announces s sr" and "only_sends sr" and "no_media (sends_of (sr_out sr))" and "peer_matches p s"
    and "\<not> pr_threw (sp_absorb env now sr p)"
  shows "sent_from p (sp_absorb env now sr p)"
  unfolding sent_from_def sp_absorb_sends [OF assms(2)] sp_absorb_facts(3) [OF assms(1,4,5)]
  using sp_absorb_facts(2) [OF assms(1,4,5)] assms(3) by (auto simp: sp_absorb_sends [OF assms(2)] peer_matches_def)

lemma sp_sendControl_sent_from:
  assumes "sp_peer p = Some s" and "peer_matches p s" and "\<not> pr_threw (sp_sendControl env cl ty payload p)"
  shows "sent_from p (sp_sendControl env cl ty payload p)"
proof -
  let ?s = "s\<lparr>ps_seq := ps_seq s + 1\<rparr>"
  have m: "peer_matches p ?s" using assms(2) by (simp add: peer_matches_def)
  show ?thesis
    using assms(1,3) unfolding sp_sendControl_def sp_withPeer_def ps_nextSeq_def option.case prod.case
    by (simp add: absorb_sent_from [OF sendControl_run(1,2,3) m])
qed

lemma sent_from_wf:
  assumes "sent_from p r" and "ptt_held p"
  shows "phone_wf (pr_p r)" "no_media (pr_sent r)"
  using assms by (auto simp: sent_from_def phone_wf_def ptt_held_def peer_matches_def)

lemma peer_matches_upd:
  "peer_matches (p\<lparr>sp_pingSentMs := a\<rparr>) = peer_matches p"
  "peer_matches (p\<lparr>sp_sender := sd\<rparr>) = peer_matches p"
  "peer_matches (p\<lparr>sp_pressed := b\<rparr>) = peer_matches p"
  "peer_matches (p\<lparr>sp_pressedAtMs := a\<rparr>) = peer_matches p"
  "peer_matches (p\<lparr>sp_releasedAtMs := a\<rparr>) = peer_matches p"
  "peer_matches (p\<lparr>sp_pttState := st\<rparr>) = peer_matches p"
  by (simp_all add: peer_matches_def fun_eq_iff)

lemma phone_wf_connected:
  assumes "phone_wf p" and "sp_connState p = SM_CONN_AUTHENTICATED \<or> sp_connState p = SM_CONN_PAIRING"
  obtains s where "sp_peer p = Some s" "peer_matches p s"
  using assms by (auto simp: phone_wf_def split: option.splits)

text \<open>What every step that neither receives nor sends audio does.\<close>

definition op_ok :: "'e sm_phone \<Rightarrow> 'e phone_run \<Rightarrow> bool" where
  "op_ok p r \<longleftrightarrow> phone_wf (pr_p r) \<and> no_media (pr_sent r) \<and> sp_running (pr_p r) = sp_running p \<and>
     (sp_pttState (pr_p r) = SM_PTT_LIVE \<longrightarrow> sp_pttState p = SM_PTT_LIVE) \<and>
     (sp_pttState p = SM_PTT_CONNECTING \<and> sp_pttState (pr_p r) = SM_PTT_CONNECTING \<longrightarrow>
        sp_pressedAtMs (pr_p r) = sp_pressedAtMs p)"

lemma phone_wf_held: "phone_wf p \<Longrightarrow> ptt_held p"
  by (simp add: phone_wf_def)

lemma no_media_Nil [simp]: "no_media []"
  by (simp add: no_media_def)

lemma no_media_append [simp]: "no_media (xs @ ys) \<longleftrightarrow> no_media xs \<and> no_media ys"
  by (auto simp: no_media_def)

lemma pr_start_simps [simp]: "pr_p (pr_start p) = p" "pr_sent (pr_start p) = []" "\<not> pr_threw (pr_start p)"
  by (simp_all add: pr_start_def)

lemma pr_then_threw: "\<not> pr_threw (pr_then r f) \<Longrightarrow> \<not> pr_threw r \<and> \<not> pr_threw (f (pr_p r))"
  by (auto simp: pr_then_def Let_def split: if_splits)

lemma pr_then_simps:
  assumes "\<not> pr_threw r"
  shows "pr_p (pr_then r f) = pr_p (f (pr_p r))" "pr_sent (pr_then r f) = pr_sent r @ pr_sent (f (pr_p r))"
  using assms by (simp_all add: pr_then_def Let_def)

lemma op_ok_then:
  assumes "\<not> pr_threw (pr_then r f)" and "op_ok p r" and "\<not> pr_threw (f (pr_p r)) \<Longrightarrow> op_ok (pr_p r) (f (pr_p r))"
    and "sp_pttState p = SM_PTT_CONNECTING \<Longrightarrow> sp_pttState (pr_p r) = SM_PTT_CONNECTING"
  shows "op_ok p (pr_then r f)"
  using pr_then_threw [OF assms(1)] assms(2-4) by (auto simp: op_ok_def pr_then_simps)

lemma sent_from_op_ok:
  assumes "sent_from p1 r" and "ptt_held p1"
    and "sp_running p1 = sp_running p" and "sp_pttState p1 = SM_PTT_LIVE \<Longrightarrow> sp_pttState p = SM_PTT_LIVE"
    and "sp_pttState p = SM_PTT_CONNECTING \<Longrightarrow> sp_pttState p1 = SM_PTT_CONNECTING \<Longrightarrow>
      sp_pressedAtMs p1 = sp_pressedAtMs p"
  shows "op_ok p r"
  using sent_from_wf [OF assms(1,2)] assms by (auto simp: op_ok_def sent_from_def)

lemma worker_pairing_ok:
  assumes "phone_wf p" and "\<not> pr_threw (worker_pairing env cl p)"
  shows "op_ok p (worker_pairing env cl p) \<and> sp_pttState (pr_p (worker_pairing env cl p)) = sp_pttState p \<and>
    sp_pressedAtMs (pr_p (worker_pairing env cl p)) = sp_pressedAtMs p \<and>
    sp_connState (pr_p (worker_pairing env cl p)) = sp_connState p \<and>
    sp_releasedAtMs (pr_p (worker_pairing env cl p)) = sp_releasedAtMs p"
proof (cases "sp_connState p = SM_CONN_PAIRING \<and> cl_nowMs cl - sp_lastPairingRetry p > 400")
  case True
  with assms(1) obtain s where s: "sp_peer p = Some s" "peer_matches p s"
    using phone_wf_connected by blast
  let ?r = "sp_withPeer p (\<lambda>s. sp_absorb env (cl_nowMs cl) (snd (resendPairingHello s)) p)"
  have run: "worker_pairing env cl p = pr_then ?r (\<lambda>p. pr_start (p\<lparr>sp_lastPairingRetry := cl_nowMs cl\<rparr>))"
    using True by (simp add: worker_pairing_def Let_def)
  have nt: "\<not> pr_threw ?r" using pr_then_threw assms(2) unfolding run by blast
  then have "sent_from p ?r"
    using s absorb_sent_from [OF resendPairingHello_run s(2)] by (simp add: sp_withPeer_def)
  then obtain s' where "pr_p ?r = p\<lparr>sp_peer := Some s'\<rparr>" "peer_matches p s'" "no_media (pr_sent ?r)"
    by (auto simp: sent_from_def)
  then show ?thesis
    unfolding run using phone_wf_held [OF assms(1)]
    by (simp add: pr_then_simps [OF nt] op_ok_def phone_wf_def ptt_held_def peer_matches_def)
qed (use assms in \<open>auto simp: worker_pairing_def op_ok_def Let_def\<close>)

lemma worker_ping_ok:
  assumes "phone_wf p" and "\<not> pr_threw (worker_ping env cl p)" and "sp_connState p = SM_CONN_AUTHENTICATED"
  shows "op_ok p (worker_ping env cl p) \<and> sp_pttState (pr_p (worker_ping env cl p)) = sp_pttState p \<and>
    sp_pressedAtMs (pr_p (worker_ping env cl p)) = sp_pressedAtMs p \<and>
    sp_connState (pr_p (worker_ping env cl p)) = sp_connState p \<and>
    sp_releasedAtMs (pr_p (worker_ping env cl p)) = sp_releasedAtMs p"
proof (cases "cl_nowMs cl - sp_lastPing p > 1000")
  case True
  from assms(1,3) obtain s where s: "sp_peer p = Some s" "peer_matches p s"
    using phone_wf_connected by blast
  let ?p = "p\<lparr>sp_pingSentMs := cl_nowMs cl\<rparr>"
  define r where "r = sp_sendControl env cl Msg_Ping (json_obj [(''pttActive'', JBool (sp_pressed p))]) ?p"
  have run: "worker_ping env cl p = pr_then r (\<lambda>p. pr_start (p\<lparr>sp_lastPing := cl_nowMs cl\<rparr>))"
    using True by (simp add: worker_ping_def Let_def r_def)
  have nt: "\<not> pr_threw r" using pr_then_threw assms(2) unfolding run by blast
  then have "sent_from ?p r"
    unfolding r_def by (rule sp_sendControl_sent_from [rotated 2]) (use s in \<open>simp_all add: peer_matches_upd\<close>)
  then obtain s' where "pr_p r = ?p\<lparr>sp_peer := Some s'\<rparr>" "peer_matches ?p s'" "no_media (pr_sent r)"
    by (auto simp: sent_from_def)
  then show ?thesis
    unfolding run using phone_wf_held [OF assms(1)]
    by (simp add: pr_then_simps [OF nt] op_ok_def phone_wf_def ptt_held_def peer_matches_def)
qed (use assms in \<open>auto simp: worker_ping_def op_ok_def Let_def\<close>)

lemma worker_timers_facts:
  "sp_connState (worker_release t (worker_arm t p)) = sp_connState p"
  "phone_wf p \<Longrightarrow> op_ok p (pr_start (worker_release t (worker_arm t p)))"
  by (auto simp: worker_release_def worker_arm_def sp_setError_def op_ok_def phone_wf_def ptt_held_def
      peer_matches_def split: option.split)

text \<open>A worker pass of a running, authenticated phone ends with its two timers.\<close>

lemma workerMain_timers:
  assumes "phone_wf p" and "sp_running p" and "sp_connState p = SM_CONN_AUTHENTICATED"
    and "\<not> pr_threw (workerMain env cl p)"
  shows "\<exists>q. phone_wf q \<and> sp_running q = sp_running p \<and> sp_pttState q = sp_pttState p \<and> sp_pressedAtMs q = sp_pressedAtMs p \<and>
    sp_releasedAtMs q = sp_releasedAtMs p \<and> sp_connState q = SM_CONN_AUTHENTICATED \<and>
    pr_p (workerMain env cl p) = worker_release (cl_nowMs cl) (worker_arm (cl_nowMs cl) q) \<and>
    no_media (pr_sent (workerMain env cl p))"
proof -
  have a: "worker_pairing env cl p = pr_start p" using assms(3) by (simp add: worker_pairing_def)
  let ?f = "\<lambda>p. pr_start (worker_release (cl_nowMs cl) (worker_arm (cl_nowMs cl) p))"
  have run: "workerMain env cl p = pr_then (pr_start p) (\<lambda>p. pr_then (worker_ping env cl p) ?f)"
    using assms(2,3) by (simp add: workerMain_def a pr_then_def)
  have nt: "\<not> pr_threw (worker_ping env cl p)"
    using pr_then_threw [OF assms(4) [unfolded run]] pr_then_threw by force
  show ?thesis
    using worker_ping_ok [OF assms(1) nt assms(3)] assms(3) unfolding run
    by (auto simp: pr_then_simps nt op_ok_def)
qed

lemma workerMain_ok:
  assumes "phone_wf p" and "\<not> pr_threw (workerMain env cl p)"
  shows "op_ok p (workerMain env cl p)"
proof (cases "sp_running p \<and> sp_connState p = SM_CONN_AUTHENTICATED")
  case True
  then obtain q where "phone_wf q" "sp_running q = sp_running p" "sp_pttState q = sp_pttState p" "sp_pressedAtMs q = sp_pressedAtMs p"
      "pr_p (workerMain env cl p) = worker_release (cl_nowMs cl) (worker_arm (cl_nowMs cl) q)"
      "no_media (pr_sent (workerMain env cl p))"
    using workerMain_timers [OF assms(1) _ _ assms(2)] by blast
  then show ?thesis using worker_timers_facts(2) [of q "cl_nowMs cl"] by (simp add: op_ok_def)
next
  case False
  show ?thesis
  proof (cases "sp_running p")
    case True
    then have run: "workerMain env cl p = pr_then (worker_pairing env cl p) (\<lambda>p.
          if sp_connState p = SM_CONN_AUTHENTICATED
          then pr_then (worker_ping env cl p) (\<lambda>p.
                 pr_start (worker_release (cl_nowMs cl) (worker_arm (cl_nowMs cl) p)))
          else pr_start p)" by (simp add: workerMain_def)
    have nt: "\<not> pr_threw (worker_pairing env cl p)" using pr_then_threw assms(2) unfolding run by blast
    show ?thesis
      using worker_pairing_ok [OF assms(1) nt] False True unfolding run
      by (auto simp: op_ok_def pr_then_simps nt)
  qed (use assms in \<open>simp add: workerMain_def op_ok_def\<close>)
qed

lemma press_ok:
  assumes "phone_wf p" and "\<not> pr_threw (sm_phone_press env cl p)"
  shows "op_ok p (sm_phone_press env cl p)"
proof (cases "sp_connState p \<noteq> SM_CONN_AUTHENTICATED \<or> sp_pressed p")
  case False
  then obtain s where s: "sp_peer p = Some s" "peer_matches p s" using assms(1) phone_wf_connected by blast
  let ?p = "p\<lparr>sp_pressed := True, sp_pressedAtMs := cl_nowMs cl, sp_pttState := SM_PTT_CONNECTING,
    sp_sender := msd_resetStream (sp_sender p)\<rparr>"
  have run: "sm_phone_press env cl p = sp_sendControl env cl Msg_StartPtt (json_obj []) ?p"
    using False by (simp add: sm_phone_press_def)
  have "sent_from ?p (sm_phone_press env cl p)"
    unfolding run by (rule sp_sendControl_sent_from) (use s assms(2) run in \<open>simp_all add: peer_matches_upd\<close>)
  then show ?thesis
    by (rule sent_from_op_ok) (use False phone_wf_held [OF assms(1)] in \<open>auto simp: ptt_held_def\<close>)
qed (use assms in \<open>simp add: sm_phone_press_def op_ok_def\<close>)

lemma release_ok:
  assumes "phone_wf p" and "\<not> pr_threw (sm_phone_release env cl p)"
  shows "op_ok p (sm_phone_release env cl p)"
proof (cases "sp_connState p = SM_CONN_AUTHENTICATED")
  case True
  then obtain s where s: "sp_peer p = Some s" "peer_matches p s" using assms(1) phone_wf_connected by blast
  let ?p2 = "p\<lparr>sp_pressed := False, sp_releasedAtMs := cl_nowMs cl\<rparr>"
  let ?p = "if sp_pttState ?p2 \<noteq> SM_PTT_READY then ?p2\<lparr>sp_pttState := SM_PTT_RELEASING\<rparr> else ?p2"
  have run: "sm_phone_release env cl p =
      sp_sendControl env cl Msg_StopPtt (json_obj [(''reason'', JString ''release'')]) ?p"
    using True by (simp add: sm_phone_release_def Let_def)
  have "sp_peer ?p = Some s" "peer_matches ?p s" using s by (auto simp: peer_matches_upd)
  then have "sent_from ?p (sm_phone_release env cl p)"
    unfolding run by (rule sp_sendControl_sent_from) (use assms(2) [unfolded run] in assumption)
  then show ?thesis
    by (rule sent_from_op_ok) (use phone_wf_held [OF assms(1)] in \<open>auto simp: ptt_held_def split: if_splits\<close>)
qed (use assms in \<open>auto simp: sm_phone_release_def op_ok_def Let_def phone_wf_def ptt_held_def peer_matches_def
      split: option.split\<close>)

lemma set_mode_ok:
  assumes "phone_wf p" and "\<not> pr_threw (sm_phone_set_mode env cl mode p)"
  shows "op_ok p (sm_phone_set_mode env cl mode p)"
proof (cases "sp_connState p = SM_CONN_AUTHENTICATED")
  case True
  then obtain s where s: "sp_peer p = Some s" "peer_matches p s" using assms(1) phone_wf_connected by blast
  have run: "sm_phone_set_mode env cl mode p =
      sp_sendControl env cl Msg_SetMode (json_obj [(''mode'', JString (mode_name mode))]) p"
    using True by (simp add: sm_phone_set_mode_def)
  have "sent_from p (sm_phone_set_mode env cl mode p)"
    unfolding run by (rule sp_sendControl_sent_from) (use s assms(2) run in simp_all)
  then show ?thesis by (rule sent_from_op_ok) (use phone_wf_held [OF assms(1)] in auto)
qed (use assms in \<open>simp add: sm_phone_set_mode_def op_ok_def\<close>)

lemma take_haptic_ok: "phone_wf p \<Longrightarrow> op_ok p (pr_start (snd (sm_phone_take_haptic p)))"
  by (auto simp: sm_phone_take_haptic_def op_ok_def phone_wf_def ptt_held_def peer_matches_def split: option.split)

text \<open>A datagram may make the phone live, but only as an acknowledgement to a held button.\<close>

lemma datagram_facts:
  assumes "phone_wf p" and "\<not> pr_threw (sp_onDatagram env cl d p)" and "sp_peer p = Some s"
  shows "phone_wf (pr_p (sp_onDatagram env cl d p)) \<and> no_media (pr_sent (sp_onDatagram env cl d p)) \<and>
    callback_rel (sr_out (onDatagram (pe_crypto env) (pe_sodium env) (pe_text env) (cl_rand cl) (cl_unixMs cl) d s))
      p (pr_p (sp_onDatagram env cl d p)\<lparr>sp_peer := sp_peer p\<rparr>)"
proof -
  let ?sr = "onDatagram (pe_crypto env) (pe_sodium env) (pe_text env) (cl_rand cl) (cl_unixMs cl) d s"
  have run: "sp_onDatagram env cl d p = sp_absorb env (cl_nowMs cl) ?sr p"
    using assms(3) by (simp add: sp_onDatagram_def)
  have m: "peer_matches p s" using assms(1,3) by (simp add: phone_wf_def)
  then have tr: "tracks s ?sr" by (simp add: tracks_onDatagram peer_matches_def)
  note f = sp_absorb_facts [OF tracks_announces [OF tr] m assms(2) [unfolded run]]
  have "ptt_held (pr_p (sp_absorb env (cl_nowMs cl) ?sr p))"
    using f(1) phone_wf_held [OF assms(1)] by (auto simp: callback_rel_def ptt_held_def)
  moreover have "sp_peer (pr_p (sp_absorb env (cl_nowMs cl) ?sr p)) = Some (sr_s ?sr)"
    using f(1) by (simp add: callback_rel_def same_handle_def)
  ultimately show ?thesis
    unfolding run using f tracks_no_media [OF tr] by (auto simp: phone_wf_def callback_rel_def same_handle_def ptt_held_def)
qed

lemma datagram_no_peer: "sp_peer p = None \<Longrightarrow> sp_onDatagram env cl d p = pr_start p"
  by (simp add: sp_onDatagram_def)

text \<open>A captured frame is sent only while the button is held and the session stands.\<close>

lemma frame_facts:
  assumes "phone_wf p" and "\<not> pr_threw (sp_onCaptureFrame env cl pcm p)"
  shows "phone_wf (pr_p (sp_onCaptureFrame env cl pcm p)) \<and>
    sp_pttState (pr_p (sp_onCaptureFrame env cl pcm p)) = sp_pttState p \<and>
    sp_pressedAtMs (pr_p (sp_onCaptureFrame env cl pcm p)) = sp_pressedAtMs p \<and>
    sp_running (pr_p (sp_onCaptureFrame env cl pcm p)) = sp_running p \<and>
    (pr_sent (sp_onCaptureFrame env cl pcm p) \<noteq> [] \<longrightarrow>
       sp_pressed p \<and> sp_connState p = SM_CONN_AUTHENTICATED \<and> length pcm = kFrameSamples)"
proof -
  let ?lvl = "pe_rf env (pe_rf env (sp_micLevel p * f06) + pe_rf env (sp_rms (pe_rd env) (pe_rf env) pcm * f04))"
  let ?p1 = "p\<lparr>sp_micLevel := ?lvl\<rparr>"
  obtain ok payload sd where pk: "packFrame (pe_opus env) pcm True [] (sp_sender p) = (ok, payload, sd)"
    by (cases "packFrame (pe_opus env) pcm True [] (sp_sender p)") auto
  let ?p2 = "?p1\<lparr>sp_sender := sd\<rparr>"
  have wf2: "phone_wf ?p1" "phone_wf ?p2"
    using assms(1) by (auto simp: phone_wf_def ptt_held_def peer_matches_def split: option.splits)
  show ?thesis
  proof (cases "sp_pressed p \<and> sp_connState p = SM_CONN_AUTHENTICATED \<and> length pcm = kFrameSamples \<and> ok")
    case True
    then obtain s where s: "sp_peer p = Some s" "peer_matches p s"
      using assms(1) phone_wf_connected by blast
    let ?sr = "snd (sendMedia (pe_sodium env) (cl_sent cl) payload s)"
    have run: "sp_onCaptureFrame env cl pcm p = sp_absorb env (cl_nowMs cl) ?sr ?p2"
      using True pk s by (simp add: sp_onCaptureFrame_def sp_withPeer_def Let_def)
    have m: "peer_matches ?p2 s" using s(2) by (simp add: peer_matches_def)
    have q: "pr_p (sp_onCaptureFrame env cl pcm p) = ?p2\<lparr>sp_peer := Some (sr_s ?sr)\<rparr>"
      unfolding run by (rule sp_absorb_sends [OF sendMedia_run(2)])
    have "peer_matches (?p2\<lparr>sp_peer := Some (sr_s ?sr)\<rparr>) (sr_s ?sr)"
      using sp_absorb_facts(2) [OF sendMedia_run(1) m assms(2) [unfolded run]] q unfolding run by simp
    then have "phone_wf (?p2\<lparr>sp_peer := Some (sr_s ?sr)\<rparr>)"
      using phone_wf_held [OF wf2(2)] by (simp add: phone_wf_def ptt_held_def)
    then show ?thesis using True q by simp
  next
    case False
    then have "pr_sent (sp_onCaptureFrame env cl pcm p) = [] \<and>
        (pr_p (sp_onCaptureFrame env cl pcm p) = ?p1 \<or> pr_p (sp_onCaptureFrame env cl pcm p) = ?p2)"
      using pk by (auto simp: sp_onCaptureFrame_def Let_def)
    then show ?thesis using wf2 by auto
  qed
qed

fun audio_event :: "phone_event \<Rightarrow> bool" where
  "audio_event (PE_Datagram cl d) = True"
| "audio_event (PE_Frame cl pcm) = True"
| "audio_event _ = False"

lemma phone_step_ok:
  "phone_wf p \<Longrightarrow> \<not> pr_threw (phone_step env e p) \<Longrightarrow> \<not> audio_event e \<Longrightarrow> op_ok p (phone_step env e p)"
  by (cases e) (auto intro: workerMain_ok press_ok release_ok set_mode_ok take_haptic_ok)

lemma phone_step_wf:
  assumes "phone_wf p" and "\<not> pr_threw (phone_step env e p)"
  shows "phone_wf (pr_p (phone_step env e p))"
proof (cases "audio_event e")
  case False
  then show ?thesis using phone_step_ok [OF assms] by (simp add: op_ok_def)
next
  case True
  then show ?thesis
  proof (cases e)
    case (PE_Datagram cl d)
    then show ?thesis
      using datagram_facts [OF assms(1), of env cl d] datagram_no_peer [of p env cl d] assms
      by (cases "sp_peer p") auto
  next
    case (PE_Frame cl pcm)
    then show ?thesis using frame_facts [OF assms(1), of env cl pcm] assms(2) by simp
  qed simp_all
qed

lemma create_wf:
  assumes "sm_phone_create env cl ce host port sid code dir = Some r" and "\<not> pr_threw r"
  shows "phone_wf (pr_p r)"
proof -
  obtain h s cd where args: "host = Some h" "sid = Some s" "code = Some cd" "port \<noteq> 0"
    using assms(1) by (auto simp: sm_phone_create_def split: option.splits if_splits)
  let ?p = "sp_configure (pe_crypto env) ce h port s cd dir :: 'a sm_phone"
  have fresh: "sp_pttState ?p = SM_PTT_READY" "sp_peer ?p = None" "sp_connState ?p = SM_CONN_IDLE" "\<not> sp_running ?p"
    by (simp_all add: sp_configure_def sp_new_def Let_def)
  show ?thesis
  proof (cases "ce_started ce \<and> ce_peerSet ce")
    case False
    then show ?thesis
      using assms args fresh
      by (auto simp: sm_phone_create_def Let_def phone_wf_def ptt_held_def sp_setError_def)
  next
    case True
    let ?s = "phone_session (sp_identity ?p)"
    let ?sr = "beginPairing (pe_crypto env) (pe_text env) (cl_rand cl) s cd ?s"
    obtain q where q: "r = sp_absorb env (cl_nowMs cl) ?sr q" "sp_pttState q = SM_PTT_READY"
        "sp_connState q = SM_CONN_IDLE" "sp_identity q = sp_identity ?p"
      using assms(1) args True fresh
      by (auto simp: sm_phone_create_def Let_def sp_withPeer_def sp_setError_def split: if_splits)
    have m: "peer_matches q ?s"
      using q by (simp add: peer_matches_def phone_session_def ps_setCallbacks_def ps_new_def conn_of_def)
    have cb: "scb_onStateChanged (ps_cb ?s)" by (simp add: phone_session_def ps_setCallbacks_def)
    have "tracks ?s ?sr"
      unfolding beginPairing_def Let_def
      using cb by (auto simp: tracks_def ps_setState_def sr_start_def sr_upd_def sr_emit_def sendTagged_def
          harmless_def Let_def split: option.split)
    note f = sp_absorb_facts [OF tracks_announces [OF this] m assms(2) [unfolded q(1)]]
    then show ?thesis
      using q(2) unfolding q(1) by (auto simp: phone_wf_def callback_rel_def same_handle_def ptt_held_def)
  qed
qed

lemma phone_reach_wf: "phone_reach env p \<Longrightarrow> phone_wf p"
  by (induction rule: phone_reach.induct) (auto intro: create_wf phone_step_wf)

lemma datagram_live:
  assumes "phone_wf p" and "\<not> pr_threw (sp_onDatagram env cl d p)"
    and "sp_pttState p \<noteq> SM_PTT_LIVE" and "sp_pttState (pr_p (sp_onDatagram env cl d p)) = SM_PTT_LIVE"
  shows "sp_pressed p \<and> (\<exists>s body plain ch m. d = tag_Control # body \<and> sp_peer p = Some s \<and>
    ps_state s = Ses_Authenticated \<and> sc_open (pe_sodium env) body [] (ps_channel s) = (True, plain, ch) \<and>
    decode_bytes (pe_text env) plain = Inr m \<and> ms_type m = Msg_PttReady \<and>
    fst (rw_accept kControlReplayWidth (ms_seq m) (ps_controlReplay s)))"
proof -
  obtain s where s: "sp_peer p = Some s"
    using assms(3,4) datagram_no_peer [of p env cl d] by (cases "sp_peer p") auto
  let ?sr = "onDatagram (pe_crypto env) (pe_sodium env) (pe_text env) (cl_rand cl) (cl_unixMs cl) d s"
  have "sp_pressed p \<and> ack_in (sr_out ?sr)"
    using datagram_facts [OF assms(1,2) s] assms(3,4) by (auto simp: callback_rel_def)
  then obtain m where m: "sp_pressed p" "SO_Control m \<in> set (sr_out ?sr)" "ms_type m = Msg_PttReady"
    by (auto simp: ack_in_def)
  show ?thesis
    using onDatagram_delivers [OF m(2)] m s by (fastforce simp: is_delivery_def)
qed

lemma datagram_arming:
  assumes "phone_wf p" and "\<not> pr_threw (sp_onDatagram env cl d p)"
  shows "sp_running (pr_p (sp_onDatagram env cl d p)) = sp_running p"
    and "sp_pressedAtMs (pr_p (sp_onDatagram env cl d p)) = sp_pressedAtMs p"
    and "no_media (pr_sent (sp_onDatagram env cl d p))"
  using datagram_facts [OF assms] datagram_no_peer [of p env cl d]
  by (cases "sp_peer p"; auto simp: callback_rel_def same_handle_def)+

text \<open>While a phone is arming, nothing moves the instant of the press.\<close>

lemma phone_step_arming:
  assumes "phone_wf p" and "\<not> pr_threw (phone_step env e p)" and "sp_pttState p = SM_PTT_CONNECTING"
    and "sp_pttState (pr_p (phone_step env e p)) = SM_PTT_CONNECTING"
  shows "sp_pressedAtMs (pr_p (phone_step env e p)) = sp_pressedAtMs p"
    and "sp_running (pr_p (phone_step env e p)) = sp_running p"
proof -
  have "sp_pressedAtMs (pr_p (phone_step env e p)) = sp_pressedAtMs p \<and>
    sp_running (pr_p (phone_step env e p)) = sp_running p"
  proof (cases "audio_event e")
    case False
    then show ?thesis using phone_step_ok [OF assms(1,2)] assms(3,4) by (simp add: op_ok_def)
  next
    case True
    then show ?thesis
    proof (cases e)
      case (PE_Datagram cl d)
      then show ?thesis using datagram_arming [OF assms(1), of env cl d] assms(2) by simp
    next
      case (PE_Frame cl pcm)
      then show ?thesis using frame_facts [OF assms(1), of env cl pcm] assms(2) by simp
    qed simp_all
  qed
  then show "sp_pressedAtMs (pr_p (phone_step env e p)) = sp_pressedAtMs p"
    and "sp_running (pr_p (phone_step env e p)) = sp_running p" by simp_all
qed

text \<open>The two timers of a worker pass.\<close>

lemma worker_timeouts:
  assumes "phone_wf p" and "sp_running p" and "sp_connState p = SM_CONN_AUTHENTICATED"
    and "\<not> pr_threw (workerMain env cl p)"
  shows "sp_pttState p = SM_PTT_CONNECTING \<and> kArmTimeoutMs < cl_nowMs cl - sp_pressedAtMs p \<longrightarrow>
      sp_pttState (pr_p (workerMain env cl p)) = SM_PTT_FAILED \<and>
      sp_haptic (pr_p (workerMain env cl p)) = SM_HAPTIC_FAILED \<and> \<not> sp_pressed (pr_p (workerMain env cl p)) \<and>
      sp_lastError (pr_p (workerMain env cl p)) = ''the PC did not accept the microphone in time''"
    and "sp_pttState p = SM_PTT_RELEASING \<and> kReleaseTimeoutMs < cl_nowMs cl - sp_releasedAtMs p \<longrightarrow>
      sp_pttState (pr_p (workerMain env cl p)) = SM_PTT_READY"
  using workerMain_timers [OF assms] by (auto simp: worker_release_def worker_arm_def sp_setError_def)

text \<open>A history of steps; \<open>None\<close> when an exception left one of them.\<close>

fun phone_run_all :: "('e, 'd) phone_env \<Rightarrow> phone_event list \<Rightarrow> 'e sm_phone \<Rightarrow> 'e sm_phone option" where
  "phone_run_all env [] p = Some p"
| "phone_run_all env (e # es) p =
     (if pr_threw (phone_step env e p) then None else phone_run_all env es (pr_p (phone_step env e p)))"

lemma arming_ends:
  assumes "phone_wf p" and "sp_running p" and "sp_connState p = SM_CONN_AUTHENTICATED"
    and "sp_pttState p = SM_PTT_CONNECTING" and "phone_run_all env es p = Some q"
    and "PE_Work cl \<in> set es" and "kArmTimeoutMs < cl_nowMs cl - sp_pressedAtMs p"
  shows "\<exists>pre post p'. es = pre @ post \<and> phone_run_all env pre p = Some p' \<and>
    (sp_pttState p' \<noteq> SM_PTT_CONNECTING \<or> sp_connState p' \<noteq> SM_CONN_AUTHENTICATED)"
  using assms
proof (induction es arbitrary: p)
  case (Cons e es)
  let ?p = "pr_p (phone_step env e p)"
  have nt: "\<not> pr_threw (phone_step env e p)" and rest: "phone_run_all env es ?p = Some q"
    using Cons.prems(5) by (auto split: if_splits)
  show ?case
  proof (cases "sp_pttState ?p \<noteq> SM_PTT_CONNECTING \<or> sp_connState ?p \<noteq> SM_CONN_AUTHENTICATED")
    case True
    then show ?thesis using nt by (intro exI [of _ "[e]"] exI [of _ es] exI [of _ ?p]) simp
  next
    case False
    have ne: "e \<noteq> PE_Work cl"
      using False worker_timeouts(1) [OF Cons.prems(1-3), of env cl] nt Cons.prems(4,7) by auto
    note keep = phone_step_arming [OF Cons.prems(1) nt Cons.prems(4)]
    have "\<exists>pre post p'. es = pre @ post \<and> phone_run_all env pre ?p = Some p' \<and>
        (sp_pttState p' \<noteq> SM_PTT_CONNECTING \<or> sp_connState p' \<noteq> SM_CONN_AUTHENTICATED)"
      by (rule Cons.IH)
         (use False ne rest keep Cons.prems phone_step_wf [OF Cons.prems(1) nt] in auto)
    then obtain pre post p' where "es = pre @ post" "phone_run_all env pre ?p = Some p'"
        "sp_pttState p' \<noteq> SM_PTT_CONNECTING \<or> sp_connState p' \<noteq> SM_CONN_AUTHENTICATED" by blast
    then show ?thesis using nt by (intro exI [of _ "e # pre"] exI [of _ post] exI [of _ p']) simp
  qed
qed simp

section \<open>A phone to run the statements on\<close>

text \<open>A printer that prints everything as one text, which parses as an acknowledgement.\<close>

definition demo_ack :: message where
  "demo_ack = message_init\<lparr>ms_seq := 1, ms_type := Msg_PttReady\<rparr>"

definition demo_env :: "(unit, unit) phone_env" where
  "demo_env = \<lparr>pe_crypto = toy_crypto, pe_sodium = plain_sodium,
     pe_text = \<lparr>jt_parse = (\<lambda>s. if s = ''x'' then Some (encode_json demo_ack) else None), jt_dump = (\<lambda>j. Some ''x'')\<rparr>,
     pe_opus = plain_opus, pe_rd = (\<lambda>x. x), pe_rf = (\<lambda>x. x)\<rparr>"

definition demo_call :: "u64 \<Rightarrow> call" where
  "demo_call t = \<lparr>cl_rand = replicate 32 7, cl_unixMs = t, cl_nowMs = t, cl_sent = True\<rparr>"

definition demo_create :: create_env where
  "demo_create = \<lparr>ce_keyRand = replicate 32 8, ce_file = None, ce_started = True, ce_peerSet = True,
     ce_captureStarted = True\<rparr>"

definition demo_session :: peer_session where
  "demo_session = (phone_session (di_generate toy_crypto (replicate 32 8)))
     \<lparr>ps_state := Ses_Authenticated, ps_channel := snd (sc_init plain_sodium [] Dir_PhoneToPc sc_new)\<rparr>"

text \<open>A phone on that session, armed at time 0.\<close>

definition demo_armed :: "unit sm_phone" where
  "demo_armed = (sp_new (di_generate toy_crypto (replicate 32 8)))
     \<lparr>sp_peer := Some demo_session, sp_connState := SM_CONN_AUTHENTICATED, sp_running := True,
      sp_pttState := SM_PTT_CONNECTING, sp_pressed := True, sp_lastPing := 2000\<rparr>"

text \<open>The acknowledgement as the PC seals it.\<close>

definition demo_ack_datagram :: bytes where
  "demo_ack_datagram = tag_Control #
     sc_packet plain_sodium (snd (sc_init plain_sodium [] Dir_PcToPhone sc_new)) 0 (bytes_of_string ''x'')"

lemma demo_armed_wf: "phone_wf demo_armed"
  by (simp add: demo_armed_def demo_session_def phone_session_def ps_setCallbacks_def ps_new_def sp_new_def
      phone_wf_def ptt_held_def peer_matches_def conn_of_def)

lemma demo_ack_run:
  "sp_pttState (pr_p (phone_step demo_env (PE_Datagram (demo_call 100) demo_ack_datagram) demo_armed)) = SM_PTT_LIVE"
  "\<not> pr_threw (phone_step demo_env (PE_Datagram (demo_call 100) demo_ack_datagram) demo_armed)"
proof -
  let ?body = "sc_packet plain_sodium (snd (sc_init plain_sodium [] Dir_PcToPhone sc_new)) 0 (bytes_of_string ''x'')"
  have peer: "sc_peer (snd (sc_init plain_sodium [] Dir_PcToPhone sc_new)) (ps_channel demo_session)"
    using sc_init_peer [OF plain_sodium_laws, of "[]" Dir_PcToPhone sc_new Dir_PhoneToPc sc_new]
    by (simp add: demo_session_def)
  have "rw_rel kReplayWidth [] (sc_replay (ps_channel demo_session))"
    using sc_init_peer [OF plain_sodium_laws, of "[]" Dir_PhoneToPc sc_new] by (simp add: demo_session_def)
  then have "fst (rw_accept kReplayWidth 0 (sc_replay (ps_channel demo_session)))"
    using rw_accept_correct(1) [of kReplayWidth] by (simp add: kReplayWidth_def rw_fresh_def)
  then obtain ch where opened: "sc_open plain_sodium ?body [] (ps_channel demo_session) = (True, bytes_of_string ''x'', ch)"
    using sc_open_genuine [OF plain_sodium_laws peer] by simp
  have dec: "decode_bytes (pe_text demo_env) (bytes_of_string ''x'') = Inr demo_ack"
    using decode_encode_json [of demo_ack]
    by (simp add: decode_bytes_def decode_def kMaxMessageBytes_def demo_env_def demo_ack_def message_init_def)
  obtain w where acc: "rw_accept kControlReplayWidth (ms_seq demo_ack) (ps_controlReplay demo_session) = (True, w)"
  proof -
    have "ps_controlReplay demo_session = rw_init kControlReplayWidth"
      by (simp add: demo_session_def phone_session_def ps_setCallbacks_def ps_new_def)
    then have "fst (rw_accept kControlReplayWidth (ms_seq demo_ack) (ps_controlReplay demo_session))"
      using rw_accept_correct(1) [OF _ _ rw_rel_init, of kControlReplayWidth] by (simp add: kControlReplayWidth_def rw_fresh_def)
    then show thesis using that by (metis prod.collapse)
  qed
  have st: "ps_state demo_session = Ses_Authenticated" "scb_onControl (ps_cb demo_session)"
    by (simp_all add: demo_session_def phone_session_def ps_setCallbacks_def)
  let ?sr = "sr_emit (SO_Control demo_ack) (sr_upd (\<lambda>s. s\<lparr>ps_controlReplay := w\<rparr>)
    (sr_upd (\<lambda>s. s\<lparr>ps_channel := ch\<rparr>) (sr_start demo_session)))"
  have env: "pe_sodium demo_env = plain_sodium" by (simp add: demo_env_def)
  have run: "onDatagram (pe_crypto demo_env) (pe_sodium demo_env) (pe_text demo_env) r u demo_ack_datagram demo_session = ?sr" for r u
    using st opened dec acc unfolding demo_ack_datagram_def onDatagram_def env
    by (simp add: Let_def step_simps tag_Media_def tag_Control_def tag_Pairing_def)
  have sess: "sp_peer demo_armed = Some demo_session" "sp_pressed demo_armed" by (simp_all add: demo_armed_def)
  have ack: "ms_type demo_ack = Msg_PttReady" by (simp add: demo_ack_def)
  show "sp_pttState (pr_p (phone_step demo_env (PE_Datagram (demo_call 100) demo_ack_datagram) demo_armed)) = SM_PTT_LIVE"
    and "\<not> pr_threw (phone_step demo_env (PE_Datagram (demo_call 100) demo_ack_datagram) demo_armed)"
    using sess by (simp_all add: sp_onDatagram_def run sp_absorb_def step_simps pr_start_def sp_onControl_def ack Let_def)
qed

section \<open>Properties\<close>

text \<open>
  C32: the handle is well formed. In every handle a program can hold, created and then stepped by
  any interleaving of datagrams, captured frames, worker passes and calls, the connection shown
  is the state of the session, which is the phone's own and an initiator with both callbacks set;
  the interface says connecting or live only while the button is down; and without a session
  the handle says FAILED and has no worker.
\<close>

theorem phone_handle_wf:
  assumes "phone_reach env p"
  shows "(sp_pttState p = SM_PTT_CONNECTING \<or> sp_pttState p = SM_PTT_LIVE \<longrightarrow> sp_pressed p) \<and>
    (case sp_peer p of
       None \<Rightarrow> sp_connState p = SM_CONN_FAILED \<and> \<not> sp_running p
     | Some s \<Rightarrow> sp_connState p = conn_of (ps_state s) \<and> ps_role s = Initiator \<and>
         ps_self s = sp_identity p \<and> scb_onControl (ps_cb s) \<and> scb_onStateChanged (ps_cb s))"
  using phone_reach_wf [OF assms] by (auto simp: phone_wf_def ptt_held_def peer_matches_def split: option.split)

theorem phone_handle_wf_witness:
  "\<exists>p s. phone_reach demo_env p \<and> sp_peer p = Some s \<and> ps_state s = Ses_Pairing \<and>
     sp_connState p = SM_CONN_PAIRING \<and> ps_role s = Initiator \<and> sp_pttState p = SM_PTT_READY"
proof -
  define r where "r = the (sm_phone_create demo_env (demo_call 5) demo_create (Some ''pc'') 47820 (Some ''s'') (Some ''123456'') None)"
  have create: "sm_phone_create demo_env (demo_call 5) demo_create (Some ''pc'') 47820 (Some ''s'') (Some ''123456'') None = Some r"
    unfolding r_def by (simp add: sm_phone_create_def demo_create_def Let_def)
  have run: "\<not> pr_threw r \<and> sp_pttState (pr_p r) = SM_PTT_READY \<and>
      (\<exists>s. sp_peer (pr_p r) = Some s \<and> ps_state s = Ses_Pairing)"
    unfolding r_def
    by (simp add: sm_phone_create_def demo_create_def demo_env_def Let_def sp_withPeer_def sp_absorb_def
        beginPairing_def phone_session_def ps_setCallbacks_def ps_new_def ps_setState_def sr_start_def sr_upd_def
        sr_emit_def sendTagged_def pr_start_def sp_onStateChanged_def sp_configure_def sp_new_def)
  then have reach: "phone_reach demo_env (pr_p r)" using phone_reach.created [OF create] by simp
  obtain s where "sp_peer (pr_p r) = Some s" "ps_state s = Ses_Pairing" using run by blast
  with phone_handle_wf [OF reach] reach run show ?thesis
    by (intro exI [of _ "pr_p r"] exI [of _ s]) (simp add: conn_of_def)
qed

text \<open>
  C33: live only on the PC's word, and audio only while held. Whatever steps a handle, the
  interface says LIVE only with the button down; it becomes LIVE only by a datagram, received
  while the button was down on an authenticated session, that opened in the session's channel as
  a fresh PTT_READY message; and a media datagram leaves the phone only in a step of the capture
  callback with a full frame, while the button is down and the session is authenticated.
\<close>

theorem phone_live_only_on_ack:
  assumes "phone_wf p" and "\<not> pr_threw (phone_step env e p)"
  shows "(sp_pttState (pr_p (phone_step env e p)) = SM_PTT_LIVE \<longrightarrow> sp_pressed (pr_p (phone_step env e p))) \<and>
    (sp_pttState p \<noteq> SM_PTT_LIVE \<and> sp_pttState (pr_p (phone_step env e p)) = SM_PTT_LIVE \<longrightarrow> sp_pressed p \<and>
       (\<exists>cl s body plain ch m. e = PE_Datagram cl (tag_Control # body) \<and> sp_peer p = Some s \<and>
          ps_state s = Ses_Authenticated \<and> sc_open (pe_sodium env) body [] (ps_channel s) = (True, plain, ch) \<and>
          decode_bytes (pe_text env) plain = Inr m \<and> ms_type m = Msg_PttReady \<and>
          fst (rw_accept kControlReplayWidth (ms_seq m) (ps_controlReplay s)))) \<and>
    (tag_Media # b \<in> set (pr_sent (phone_step env e p)) \<longrightarrow>
       sp_pressed p \<and> sp_connState p = SM_CONN_AUTHENTICATED \<and>
       (\<exists>cl pcm. e = PE_Frame cl pcm \<and> length pcm = kFrameSamples))"
proof (intro conjI impI)
  show "sp_pttState (pr_p (phone_step env e p)) = SM_PTT_LIVE \<Longrightarrow> sp_pressed (pr_p (phone_step env e p))"
    using phone_step_wf [OF assms] by (simp add: phone_wf_def ptt_held_def)
next
  assume live: "sp_pttState p \<noteq> SM_PTT_LIVE \<and> sp_pttState (pr_p (phone_step env e p)) = SM_PTT_LIVE"
  then obtain cl d where e: "e = PE_Datagram cl d"
    using phone_step_ok [OF assms] frame_facts [OF assms(1), of env] assms(2)
    by (cases e) (auto simp: op_ok_def)
  show "sp_pressed p" and "\<exists>cl s body plain ch m. e = PE_Datagram cl (tag_Control # body) \<and> sp_peer p = Some s \<and>
          ps_state s = Ses_Authenticated \<and> sc_open (pe_sodium env) body [] (ps_channel s) = (True, plain, ch) \<and>
          decode_bytes (pe_text env) plain = Inr m \<and> ms_type m = Msg_PttReady \<and>
          fst (rw_accept kControlReplayWidth (ms_seq m) (ps_controlReplay s))"
    using datagram_live [OF assms(1), of env cl d] assms(2) live unfolding e by auto
next
  assume media: "tag_Media # b \<in> set (pr_sent (phone_step env e p))"
  then obtain cl pcm where e: "e = PE_Frame cl pcm"
    using phone_step_ok [OF assms] datagram_arming(3) [OF assms(1), of env] assms(2)
    by (cases e) (force simp: op_ok_def no_media_def)+
  have "pr_sent (sp_onCaptureFrame env cl pcm p) \<noteq> []" using media by (auto simp: e)
  then show "sp_pressed p" "sp_connState p = SM_CONN_AUTHENTICATED"
      "\<exists>cl pcm. e = PE_Frame cl pcm \<and> length pcm = kFrameSamples"
    using frame_facts [OF assms(1), of env cl pcm] assms(2) by (auto simp: e)
qed

theorem phone_live_only_on_ack_witness:
  "sp_pttState demo_armed = SM_PTT_CONNECTING \<and>
   sp_pttState (pr_p (phone_step demo_env (PE_Datagram (demo_call 100) demo_ack_datagram) demo_armed)) = SM_PTT_LIVE \<and>
   sp_pressed demo_armed \<and>
   (\<exists>body plain ch m. demo_ack_datagram = tag_Control # body \<and>
      sc_open plain_sodium body [] (ps_channel demo_session) = (True, plain, ch) \<and>
      decode_bytes (pe_text demo_env) plain = Inr m \<and> ms_type m = Msg_PttReady)"
proof -
  have c: "sp_pttState demo_armed = SM_PTT_CONNECTING" "sp_peer demo_armed = Some demo_session"
    by (simp_all add: demo_armed_def)
  have env: "pe_sodium demo_env = plain_sodium" by (simp add: demo_env_def)
  show ?thesis
    using phone_live_only_on_ack [OF demo_armed_wf demo_ack_run(2), of "[]"] demo_ack_run(1) c env by auto
qed

text \<open>
  C34: arming does not hang. A worker pass of an authenticated, running phone whose clock is more
  than 1500 ms past the press, as the unsigned difference the code takes (so also a clock read
  before the press), turns connecting into FAILED, releases the button and sets the error; one
  more than 800 ms past the release turns releasing into READY. So in any history that contains
  such a pass, arming has ended, or the session has left the authenticated state, at some point.
\<close>

theorem phone_arming_bounded:
  assumes "phone_wf p" and "sp_running p" and "sp_connState p = SM_CONN_AUTHENTICATED"
    and "sp_pttState p = SM_PTT_CONNECTING" and "kArmTimeoutMs < cl_nowMs cl - sp_pressedAtMs p"
  shows "(\<not> pr_threw (workerMain env cl p) \<longrightarrow> sp_pttState (pr_p (workerMain env cl p)) = SM_PTT_FAILED \<and>
      sp_haptic (pr_p (workerMain env cl p)) = SM_HAPTIC_FAILED \<and> \<not> sp_pressed (pr_p (workerMain env cl p))) \<and>
    (\<forall>cl' r. kReleaseTimeoutMs < cl_nowMs cl' - sp_releasedAtMs r \<and> phone_wf r \<and> sp_running r \<and>
       sp_connState r = SM_CONN_AUTHENTICATED \<and> sp_pttState r = SM_PTT_RELEASING \<and>
       \<not> pr_threw (workerMain env cl' r) \<longrightarrow> sp_pttState (pr_p (workerMain env cl' r)) = SM_PTT_READY) \<and>
    (phone_run_all env es p = Some q \<and> PE_Work cl \<in> set es \<longrightarrow>
       (\<exists>pre post p'. es = pre @ post \<and> phone_run_all env pre p = Some p' \<and>
          (sp_pttState p' \<noteq> SM_PTT_CONNECTING \<or> sp_connState p' \<noteq> SM_CONN_AUTHENTICATED)))"
  using worker_timeouts(1) [OF assms(1-3), of env cl] worker_timeouts(2) [where env = env]
    arming_ends [OF assms(1-4), of env es q cl]
    assms(4,5) by (intro conjI allI impI) simp_all

theorem phone_arming_bounded_witness:
  "sp_pttState demo_armed = SM_PTT_CONNECTING \<and>
   sp_pttState (pr_p (workerMain demo_env (demo_call 2000) demo_armed)) = SM_PTT_FAILED \<and>
   \<not> sp_pressed (pr_p (workerMain demo_env (demo_call 2000) demo_armed))"
proof -
  have a: "sp_running demo_armed" "sp_connState demo_armed = SM_CONN_AUTHENTICATED"
    "sp_pttState demo_armed = SM_PTT_CONNECTING" "sp_pressedAtMs demo_armed = 0" "sp_lastPing demo_armed = 2000"
    by (simp_all add: demo_armed_def sp_new_def)
  have t: "cl_nowMs (demo_call 2000) = 2000" by (simp add: demo_call_def)
  have "\<not> pr_threw (workerMain demo_env (demo_call 2000) demo_armed)"
    using a t by (simp add: workerMain_def worker_pairing_def worker_ping_def pr_then_def Let_def)
  then show ?thesis
    using phone_arming_bounded [OF demo_armed_wf a(1-3), of "demo_call 2000" demo_env] a t
    by (simp add: kArmTimeoutMs_def)
qed

end
