(* ===== verification/Service.thy ===== *)
theory Service
  imports Handshake PhoneMedia Transport RouterLiveness
begin

text \<open>
  The PC service, \<^verbatim>\<open>apps/service/main.cpp\<close>: its options, the addresses it advertises, the choice of
  the sink, and the program it runs: the callbacks it gives the session and one pass of the audio
  loop, over the models of session, router, jitter buffer and device registry. The network thread
  and the loop interleave at the granularity of one datagram and one pass. What the service says
  on the control path and what it sends are the outputs of a step. The properties state when
  PTT_READY is announced and how often. Printing is left out except for the waiting notice.
\<close>

section \<open>Addresses\<close>

text \<open>
  One \<open>%u\<close> of \<open>sscanf\<close>: blanks, an optional sign, digits. Numbers of more than 32 bits, whose
  conversion C leaves undefined, are reduced.
\<close>

definition scan_digits :: "string \<Rightarrow> (nat \<times> string) option" where
  "scan_digits s =
     (let ds = takeWhile is_digit s in if ds = [] then None else Some (digits_value 0 ds, drop (length ds) s))"

fun scan_u :: "string \<Rightarrow> (u32 \<times> string) option" where
  "scan_u s =
     (case dropWhile is_space s of
        [] \<Rightarrow> None
      | c # cs \<Rightarrow>
          if c = CHR ''+'' then map_option (\<lambda>(n, r). (of_nat n, r)) (scan_digits cs)
          else if c = CHR ''-'' then map_option (\<lambda>(n, r). (- of_nat n, r)) (scan_digits cs)
          else map_option (\<lambda>(n, r). (of_nat n, r)) (scan_digits (c # cs)))"

definition scan_dot :: "string \<Rightarrow> string option" where
  "scan_dot s = (case s of c # cs \<Rightarrow> if c = CHR ''.'' then Some cs else None | [] \<Rightarrow> None)"

text \<open>The first two numbers of \<open>sscanf(ip, "%u.%u.%u.%u", ...)\<close> when all four are read.\<close>

definition scan_ipv4 :: "string \<Rightarrow> (u32 \<times> u32) option" where
  "scan_ipv4 s =
     Option.bind (scan_u s) (\<lambda>(a, s). Option.bind (scan_dot s) (\<lambda>s.
     Option.bind (scan_u s) (\<lambda>(b, s). Option.bind (scan_dot s) (\<lambda>s.
     Option.bind (scan_u s) (\<lambda>(c, s). Option.bind (scan_dot s) (\<lambda>s.
     Option.bind (scan_u s) (\<lambda>(d, s). Some (a, b))))))))"

definition isTailscaleRange :: "string \<Rightarrow> bool" where
  "isTailscaleRange ip =
     (case scan_ipv4 (c_str ip) of None \<Rightarrow> False | Some (a, b) \<Rightarrow> a = 100 \<and> b \<ge> 64 \<and> b \<le> 127)"

definition isUsableAddress :: "string \<Rightarrow> bool" where
  "isUsableAddress ip \<longleftrightarrow> ip \<noteq> [] \<and> take 4 ip \<noteq> ''127.'' \<and> ip \<noteq> ''0.0.0.0'' \<and> take 8 ip \<noteq> ''169.254.''"

record local_address =
  la_ip :: string
  la_adapter :: string
  la_tailscale :: bool

text \<open>
  What the operating system lists: whether the interface is up, whether the address is IPv4, its
  text when it converts, and the adapter's name when there is one.
\<close>

record interface_address =
  ia_up :: bool
  ia_inet :: bool
  ia_text :: "string option"
  ia_name :: "string option"

definition enumerateLocalAddresses :: "interface_address list \<Rightarrow> local_address list" where
  "enumerateLocalAddresses ifs =
     List.map_filter (\<lambda>i.
       if \<not> ia_inet i \<or> \<not> ia_up i then None
       else (case ia_text i of
               None \<Rightarrow> None
             | Some ip \<Rightarrow>
                 if \<not> isUsableAddress ip then None
                 else Some \<lparr>la_ip = ip, la_adapter = (case ia_name i of Some n \<Rightarrow> n | None \<Rightarrow> []),
                            la_tailscale = isTailscaleRange ip\<rparr>)) ifs"

text \<open>The source address the route gives, when socket, connect and name all succeed.\<close>

definition primaryLanAddress :: "string option \<Rightarrow> string" where
  "primaryLanAddress text = (case text of None \<Rightarrow> [] | Some ip \<Rightarrow> if ip = ''0.0.0.0'' then [] else ip)"

definition localAddressHint :: "string option \<Rightarrow> string option \<Rightarrow> string" where
  "localAddressHint route hostname =
     (let ip = primaryLanAddress route
      in if ip \<noteq> [] then ip
         else (case hostname of Some h \<Rightarrow> if h \<noteq> [] then h else ''127.0.0.1'' | None \<Rightarrow> ''127.0.0.1''))"

section \<open>Options\<close>

datatype sink_kind = Sink_Auto | Sink_Driver | Sink_Wav | Sink_Cable

record options =
  op_port :: u16
  op_stateDir :: string
  op_outWav :: string
  op_sink :: sink_kind
  op_cableId :: string
  op_durationSeconds :: int
  op_forcedCode :: string
  op_forcedSession :: string
  op_advertiseHost :: string
  op_diagnoseOnly :: bool

definition default_options :: "string \<Rightarrow> options" where
  "default_options tmp =
     \<lparr>op_port = 47820, op_stateDir = tmp, op_outWav = ''smartmic-output.wav'', op_sink = Sink_Auto,
      op_cableId = [], op_durationSeconds = 0, op_forcedCode = [], op_forcedSession = [],
      op_advertiseHost = [], op_diagnoseOnly = False\<rparr>"

text \<open>\<open>std::stoi\<close>; \<open>None\<close> is \<open>std::invalid_argument\<close> or \<open>std::out_of_range\<close>.\<close>

definition stoi :: "string \<Rightarrow> int option" where
  "stoi s =
     (let s1 = dropWhile is_space (c_str s);
          neg = (s1 \<noteq> [] \<and> hd s1 = CHR ''-'');
          s2 = (if s1 \<noteq> [] \<and> (hd s1 = CHR ''-'' \<or> hd s1 = CHR ''+'') then tl s1 else s1)
      in case scan_digits s2 of
           None \<Rightarrow> None
         | Some (n, r) \<Rightarrow>
             let v = (if neg then - int n else int n)
             in if v < - (2 ^ 31) \<or> v \<ge> 2 ^ 31 then None else Some v)"

text \<open>Exit code 0 after the help, exit code 2, an exception that leaves \<open>main\<close>, or the options.\<close>

datatype parsed = Parsed_Help | Parsed_BadSink string | Parsed_Unknown string | Parsed_Throws | Parsed_Options options

definition sink_of :: "string \<Rightarrow> sink_kind option" where
  "sink_of v =
     (if v = ''auto'' then Some Sink_Auto else if v = ''driver'' then Some Sink_Driver
      else if v = ''wav'' then Some Sink_Wav else if v = ''cable'' then Some Sink_Cable else None)"

text \<open>An option that takes a value, with the value; \<open>None\<close> is an exception of \<open>stoi\<close>.\<close>

definition set_option :: "string \<Rightarrow> string \<Rightarrow> options \<Rightarrow> parsed option" where
  "set_option k v opt =
     (if k = ''--port'' then
        Some (case stoi v of None \<Rightarrow> Parsed_Throws | Some n \<Rightarrow> Parsed_Options (opt\<lparr>op_port := of_int n\<rparr>))
      else if k = ''--state'' then Some (Parsed_Options (opt\<lparr>op_stateDir := v\<rparr>))
      else if k = ''--out'' then Some (Parsed_Options (opt\<lparr>op_outWav := v\<rparr>))
      else if k = ''--duration'' then
        Some (case stoi v of None \<Rightarrow> Parsed_Throws | Some n \<Rightarrow> Parsed_Options (opt\<lparr>op_durationSeconds := n\<rparr>))
      else if k = ''--code'' then Some (Parsed_Options (opt\<lparr>op_forcedCode := v\<rparr>))
      else if k = ''--session'' then Some (Parsed_Options (opt\<lparr>op_forcedSession := v\<rparr>))
      else if k = ''--host'' then Some (Parsed_Options (opt\<lparr>op_advertiseHost := v\<rparr>))
      else if k = ''--sink'' then
        Some (case sink_of v of None \<Rightarrow> Parsed_BadSink v | Some sk \<Rightarrow> Parsed_Options (opt\<lparr>op_sink := sk\<rparr>))
      else None)"

text \<open>The loop over \<open>argv\<close>; an option at the end of the line gets the empty value.\<close>

fun parse_args :: "string list \<Rightarrow> options \<Rightarrow> parsed" where
  "parse_args [] opt = Parsed_Options opt"
| "parse_args (k # args) opt =
     (if k = ''--help'' \<or> k = ''-h'' then Parsed_Help
      else if k = ''--diagnose'' then parse_args args (opt\<lparr>op_diagnoseOnly := True\<rparr>)
      else
        (case set_option k (case args of [] \<Rightarrow> [] | v # _ \<Rightarrow> v) opt of
           None \<Rightarrow> Parsed_Unknown k
         | Some (Parsed_Options opt') \<Rightarrow> parse_args (tl args) opt'
         | Some r \<Rightarrow> r))"

text \<open>
  The identity, with the file's content when it exists; the second component is what is written.
\<close>

definition service_identity :: "crypto \<Rightarrow> bytes \<Rightarrow> bytes option \<Rightarrow> device_identity \<times> bytes option" where
  "service_identity c rand file =
     (case Option.bind file (di_fromSecretKey c) of
        Some i \<Rightarrow> (i, None)
      | None \<Rightarrow> let i = di_generate c rand in (i, Some (id_secret i)))"

text \<open>
  Where the router's output goes on Windows, with the banner's label: \<open>linkVersion\<close> is the
  driver's version when the driver link starts.
\<close>

datatype sink_pick = Pick_Cable string | Pick_Wav string | Pick_Driver | Pick_Exit

definition pick_sink :: "options \<Rightarrow> u32 option \<Rightarrow> sink_pick \<times> string" where
  "pick_sink opt linkVersion =
     (case op_sink opt of
        Sink_Cable \<Rightarrow> (Pick_Cable (op_outWav opt), ''virtual cable '' @ op_outWav opt)
      | Sink_Wav \<Rightarrow> (Pick_Wav (op_outWav opt), op_outWav opt @ '' (file -- Teams will not see this)'')
      | sk \<Rightarrow>
          (case linkVersion of
             Some v \<Rightarrow> (Pick_Driver, ''Smart Microphone (driver v'' @ dec (unat v) @ '')'')
           | None \<Rightarrow>
               if sk = Sink_Driver then (Pick_Exit, [])
               else (Pick_Wav (op_outWav opt), op_outWav opt @ '' (file -- the driver was unavailable)'')))"

section \<open>The program\<close>

record ('e, 'd, 'l, 'k) service_env =
  se_crypto :: crypto
  se_sodium :: sodium
  se_text :: json_text
  se_opus :: "('e, 'd) opus_ops"
  se_rd :: "real \<Rightarrow> real"
  se_rf :: "real \<Rightarrow> real"
  se_local :: "'l source_ops"
  se_sink :: "'k sink_ops"

text \<open>
  The objects of \<open>main\<close> that the callbacks and the loop share. The router's phone source is the
  object the media callback feeds.
\<close>

record ('l, 'd, 'k, 'cb) service =
  sv_identity :: device_identity
  sv_registry :: "'cb device_registry"
  sv_router :: "('l, 'd phone_media_source, 'k) audio_router"
  sv_peer :: peer_session
  sv_offer :: pairing_offer
  sv_pttRequested :: bool
  sv_announcedReady :: bool
  sv_lastMediaMs :: u64
  sv_lastStatusMs :: u64

text \<open>\<open>now\<close> is \<open>nowUnixMs\<close> of the step, \<open>sent\<close> the transport's result.\<close>

record service_call =
  vc_rand :: bytes
  vc_now :: u64
  vc_sent :: bool

text \<open>A call of \<open>sendControl\<close>, or a datagram handed to the transport.\<close>

datatype service_out = VO_Say message | VO_Datagram bytes

record ('l, 'd, 'k, 'cb) service_run =
  vr_out :: "service_out list"
  vr_s :: "('l, 'd, 'k, 'cb) service"
  vr_threw :: bool

definition vr_start :: "('l, 'd, 'k, 'cb) service \<Rightarrow> ('l, 'd, 'k, 'cb) service_run" where
  "vr_start v = \<lparr>vr_out = [], vr_s = v, vr_threw = False\<rparr>"

definition datagrams :: "session_out list \<Rightarrow> service_out list" where
  "datagrams xs = List.map_filter (\<lambda>x. case x of SO_Send b \<Rightarrow> Some (VO_Datagram b) | _ \<Rightarrow> None) xs"

text \<open>\<open>peer.sendControl(m)\<close>, whose result no caller looks at.\<close>

definition sv_say ::
  "('e, 'd, 'l, 'k) service_env \<Rightarrow> service_call \<Rightarrow> message \<Rightarrow> ('l, 'd, 'k, 'cb) service \<Rightarrow> ('l, 'd, 'k, 'cb) service_run" where
  "sv_say env vc m v =
     (let sr = snd (sendControl (se_sodium env) (se_text env) (vc_sent vc) m (sv_peer v))
      in \<lparr>vr_out = VO_Say m # datagrams (sr_out sr), vr_s = v\<lparr>sv_peer := sr_s sr\<rparr>, vr_threw = sr_threw sr\<rparr>)"

definition sv_reply ::
  "('e, 'd, 'l, 'k) service_env \<Rightarrow> service_call \<Rightarrow> message \<Rightarrow> msg_type \<Rightarrow> json \<Rightarrow> ('l, 'd, 'k, 'cb) service
   \<Rightarrow> ('l, 'd, 'k, 'cb) service_run" where
  "sv_reply env vc m ty payload v =
     (case ps_nextSeq (sv_peer v) of
        (seq, s') \<Rightarrow>
          sv_say env vc (message_make (vc_rand vc) (vc_now vc) ty (ms_sessionId m)
              (di_deviceId (se_crypto env) (sv_identity v)) seq payload)
            (v\<lparr>sv_peer := s'\<rparr>))"

definition sv_onMedia ::
  "('e, 'd, 'l, 'k) service_env \<Rightarrow> service_call \<Rightarrow> bytes \<Rightarrow> ('l, 'd, 'k, 'cb) service \<Rightarrow> ('l, 'd, 'k, 'cb) service" where
  "sv_onMedia env vc data v =
     (let r = sv_router v;
          r1 = r\<lparr>ar_phone := map_option (\<lambda>w. snd (pm_onMediaPayload (se_rd env) data (vc_now vc) w)) (ar_phone r)\<rparr>
      in v\<lparr>sv_lastMediaMs := vc_now vc, sv_router := notifyPhoneHeartbeat r1\<rparr>)"

definition mode_of :: "string \<Rightarrow> routing_mode" where
  "mode_of mode =
     (if mode = ''PhoneOnly'' then Mode_PhoneOnly else if mode = ''LocalOnly'' then Mode_LocalOnly
      else if mode = ''Mute'' then Mode_Mute else Mode_Auto)"

definition status_json :: "('l, 'd, 'k, 'cb) service \<Rightarrow> json" where
  "status_json v =
     (let st = router_stats_of (sv_router v)
      in json_obj [(''routerState'', JString (source_state_toString (st_state st))),
                   (''mode'', JString (routing_mode_toString (st_mode st))),
                   (''localSourceName'', JString (effectiveInputName (Some (sv_registry v)))),
                   (''driverReady'', JBool True)])"

definition sv_onControl ::
  "('e, 'd, 'l, 'k) service_env \<Rightarrow> service_call \<Rightarrow> message \<Rightarrow> ('l, 'd, 'k, 'cb) service \<Rightarrow> ('l, 'd, 'k, 'cb) service_run" where
  "sv_onControl env vc m v =
     (case ms_type m of
        Msg_StartPtt \<Rightarrow>
          sv_reply env vc m Msg_PttPreparing (json_obj [])
            (v\<lparr>sv_pttRequested := True, sv_announcedReady := False, sv_router := startPtt (sv_router v)\<rparr>)
      | Msg_StopPtt \<Rightarrow>
          sv_reply env vc m Msg_PttStopped (json_obj [])
            (v\<lparr>sv_pttRequested := False, sv_router := stopPtt (sv_router v)\<rparr>)
      | Msg_SetMode \<Rightarrow>
          (case value_string (ms_payload m) ''mode'' ''Auto'' of
             Inl e \<Rightarrow> (vr_start v)\<lparr>vr_threw := True\<rparr>
           | Inr mode \<Rightarrow> vr_start (v\<lparr>sv_router := router_setMode (mode_of mode) (sv_router v)\<rparr>))
      | Msg_Ping \<Rightarrow> sv_reply env vc m Msg_Pong (json_obj []) v
      | Msg_GetStatus \<Rightarrow> sv_reply env vc m Msg_Status (status_json v) v
      | _ \<Rightarrow> vr_start v)"

text \<open>The state callback prints.\<close>

fun sv_callback ::
  "('e, 'd, 'l, 'k) service_env \<Rightarrow> service_call \<Rightarrow> session_out \<Rightarrow> ('l, 'd, 'k, 'cb) service \<Rightarrow> ('l, 'd, 'k, 'cb) service_run" where
  "sv_callback env vc (SO_Send b) v = (vr_start v)\<lparr>vr_out := [VO_Datagram b]\<rparr>"
| "sv_callback env vc (SO_Control m) v = sv_onControl env vc m v"
| "sv_callback env vc (SO_Media x) v = vr_start (sv_onMedia env vc x v)"
| "sv_callback env vc (SO_State ss) v = vr_start v"

fun sv_callbacks ::
  "('e, 'd, 'l, 'k) service_env \<Rightarrow> service_call \<Rightarrow> session_out list \<Rightarrow> ('l, 'd, 'k, 'cb) service \<Rightarrow> ('l, 'd, 'k, 'cb) service_run" where
  "sv_callbacks env vc [] v = vr_start v"
| "sv_callbacks env vc (x # xs) v =
     (let r = sv_callback env vc x v
      in if vr_threw r then r
         else let r' = sv_callbacks env vc xs (vr_s r) in r'\<lparr>vr_out := vr_out r @ vr_out r'\<rparr>)"

definition sv_onDatagram ::
  "('e, 'd, 'l, 'k) service_env \<Rightarrow> service_call \<Rightarrow> bytes \<Rightarrow> ('l, 'd, 'k, 'cb) service \<Rightarrow> ('l, 'd, 'k, 'cb) service_run" where
  "sv_onDatagram env vc data v =
     (let sr = onDatagram (se_crypto env) (se_sodium env) (se_text env) (vc_rand vc) (vc_now vc) data (sv_peer v);
          r = sv_callbacks env vc (sr_out sr) (v\<lparr>sv_peer := sr_s sr\<rparr>)
      in r\<lparr>vr_threw := vr_threw r \<or> sr_threw sr\<rparr>)"

section \<open>The audio loop\<close>

text \<open>While nothing is paired, what the loop prints every eight seconds.\<close>

datatype waiting_notice = Nothing_Arrived | Packets_Arriving u64 u64 string

definition sv_waiting ::
  "service_call \<Rightarrow> transport_stats \<Rightarrow> ('l, 'd, 'k, 'cb) service \<Rightarrow> waiting_notice option \<times> ('l, 'd, 'k, 'cb) service" where
  "sv_waiting vc ts v =
     (if ps_state (sv_peer v) = Ses_Authenticated \<or> vc_now vc - sv_lastStatusMs v < 8000 then (None, v)
      else (Some (if ts_packetsReceived ts = 0 then Nothing_Arrived
                  else Packets_Arriving (ts_packetsReceived ts) (ps_rejected (sv_peer v))
                         (session_state_toString (ps_state (sv_peer v)))),
            v\<lparr>sv_lastStatusMs := vc_now vc\<rparr>))"

definition sv_phone_ready :: "('l, 'd, 'k, 'cb) service \<Rightarrow> bool" where
  "sv_phone_ready v \<longleftrightarrow> (case ar_phone (sv_router v) of None \<Rightarrow> False | Some w \<Rightarrow> pm_ready w)"

definition sv_announce ::
  "('e, 'd, 'l, 'k) service_env \<Rightarrow> service_call \<Rightarrow> ('l, 'd, 'k, 'cb) service \<Rightarrow> ('l, 'd, 'k, 'cb) service_run" where
  "sv_announce env vc v =
     (if sv_pttRequested v \<and> \<not> sv_announcedReady v \<and> sm_state (ar_sm (sv_router v)) = PhoneArming \<and>
         sv_phone_ready v
      then
        let v1 = v\<lparr>sv_router := notifyPhoneReady (sv_router v)\<rparr>
        in (case ps_nextSeq (sv_peer v1) of
              (seq, s') \<Rightarrow>
                let r = sv_say env vc (makePttReady (vc_rand vc) (vc_now vc) (po_sessionId (sv_offer v))
                          (di_deviceId (se_crypto env) (sv_identity v)) seq (vc_now vc)) (v1\<lparr>sv_peer := s'\<rparr>)
                in if vr_threw r then r else r\<lparr>vr_s := (vr_s r)\<lparr>sv_announcedReady := True\<rparr>\<rparr>)
      else vr_start v)"

definition sv_tick ::
  "('e, 'd, 'l, 'k) service_env \<Rightarrow> ('l, 'd, 'k, 'cb) service \<Rightarrow> ('l, 'd, 'k, 'cb) service" where
  "sv_tick env v =
     v\<lparr>sv_router := snd (tick (se_rf env) (se_local env) (phone_source_ops (se_opus env)) (se_sink env) (sv_router v))\<rparr>"

definition sv_loop ::
  "('e, 'd, 'l, 'k) service_env \<Rightarrow> service_call \<Rightarrow> transport_stats \<Rightarrow> ('l, 'd, 'k, 'cb) service
   \<Rightarrow> ('l, 'd, 'k, 'cb) service_run" where
  "sv_loop env vc ts v =
     (let r = sv_announce env vc (snd (sv_waiting vc ts v))
      in if vr_threw r then r else r\<lparr>vr_s := sv_tick env (vr_s r)\<rparr>)"

section \<open>Starting\<close>

record start_env =
  sx_sidRand :: bytes
  sx_codeRand :: nat
  sx_route :: "string option"
  sx_hostname :: "string option"
  sx_localPort :: u16
  sx_now :: u64

definition optional :: "string \<Rightarrow> string option" where
  "optional s = (if s = [] then None else Some s)"

definition advertised_host :: "options \<Rightarrow> start_env \<Rightarrow> string" where
  "advertised_host opt sx =
     (if op_advertiseHost opt = [] then localAddressHint (sx_route sx) (sx_hostname sx) else op_advertiseHost opt)"

text \<open>
  \<open>main\<close> from the started local source, sink and transport to the loop. \<open>None\<close> is the event
  ring's construction failing, which it does not.
\<close>

definition service_start ::
  "('e, 'd, 'l, 'k) service_env \<Rightarrow> options \<Rightarrow> start_env \<Rightarrow> device_identity \<Rightarrow> 'cb device_registry \<Rightarrow> 'l \<Rightarrow> 'k
   \<Rightarrow> ('l, 'd, 'k, 'cb) service option" where
  "service_start env opt sx identity registry loc snk =
     (let phone = snd (pm_start (se_opus env) (pm_new ''phone'' default_jitter_config));
          (offer, book) = ob_issue (se_crypto env) (sx_sidRand sx) (sx_codeRand sx) identity (advertised_host opt sx)
             (sx_localPort sx) (sx_now sx) (optional (op_forcedCode opt)) (optional (op_forcedSession opt))
             (ob_new default_pairing_policy);
          peer = sr_s (armPairing (po_sessionId offer) (po_code offer) (Some book) (ps_new identity Responder))
      in map_option (\<lambda>router.
           \<lparr>sv_identity = identity, sv_registry = registry, sv_router = router,
            sv_peer = ps_setCallbacks \<lparr>scb_onControl = True, scb_onMedia = True, scb_onStateChanged = True\<rparr> peer,
            sv_offer = offer, sv_pttRequested = False, sv_announcedReady = False, sv_lastMediaMs = 0,
            sv_lastStatusMs = sx_now sx\<rparr>)
         (router_wired default_router_config (Some loc) (Some phone) (Some snk)))"

text \<open>The further links and addresses the banner prints.\<close>

definition extra_links ::
  "crypto \<Rightarrow> device_identity \<Rightarrow> pairing_offer \<Rightarrow> u16 \<Rightarrow> string \<Rightarrow> local_address list \<Rightarrow> string list" where
  "extra_links c identity offer port advertised addrs =
     List.map_filter (\<lambda>a. if \<not> la_tailscale a \<or> la_ip a = advertised then None
                          else Some (buildPairingUri c identity offer (la_ip a) port)) addrs"

definition alternatives :: "string \<Rightarrow> local_address list \<Rightarrow> string" where
  "alternatives advertised addrs =
     concat (List.map_filter (\<lambda>a. if la_tailscale a \<or> la_ip a = advertised then None
                                  else Some ('' '' @ la_ip a)) addrs)"

section \<open>Histories\<close>

datatype service_event = VE_Datagram service_call bytes | VE_Loop service_call transport_stats

fun service_step ::
  "('e, 'd, 'l, 'k) service_env \<Rightarrow> service_event \<Rightarrow> ('l, 'd, 'k, 'cb) service \<Rightarrow> ('l, 'd, 'k, 'cb) service_run" where
  "service_step env (VE_Datagram vc d) v = sv_onDatagram env vc d v"
| "service_step env (VE_Loop vc ts) v = sv_loop env vc ts v"

fun service_run_all ::
  "('e, 'd, 'l, 'k) service_env \<Rightarrow> service_event list \<Rightarrow> ('l, 'd, 'k, 'cb) service \<Rightarrow> ('l, 'd, 'k, 'cb) service_run" where
  "service_run_all env [] v = vr_start v"
| "service_run_all env (e # es) v =
     (let r = service_step env e v
      in if vr_threw r then r
         else let r' = service_run_all env es (vr_s r) in r'\<lparr>vr_out := vr_out r @ vr_out r'\<rparr>)"

text \<open>The start gives a service.\<close>

lemma service_starts: "\<exists>v. service_start env opt sx identity registry loc snk = Some v"
proof -
  obtain r where "router_wired default_router_config (Some loc)
      (Some (snd (pm_start (se_opus env) (pm_new ''phone'' default_jitter_config)))) (Some snk) = Some r"
    using router_wired_Some by blast
  then show ?thesis by (simp add: service_start_def Let_def split: prod.split)
qed

section \<open>What the service says\<close>

definition says :: "msg_type \<Rightarrow> service_out list \<Rightarrow> nat" where
  "says ty xs = length (filter (\<lambda>x. case x of VO_Say m \<Rightarrow> ms_type m = ty | _ \<Rightarrow> False) xs)"

text \<open>An announcement that is still due.\<close>

definition due :: "('l, 'd, 'k, 'cb) service \<Rightarrow> nat" where
  "due v = (if sv_pttRequested v \<and> \<not> sv_announcedReady v then 1 else 0)"

lemma says_simps [simp]:
  "says ty [] = 0" "says ty (xs @ ys) = says ty xs + says ty ys"
  "says ty (VO_Say m # xs) = (if ms_type m = ty then 1 else 0) + says ty xs"
  "says ty (VO_Datagram b # xs) = says ty xs"
  by (simp_all add: says_def)

lemma says_datagrams [simp]: "says ty (datagrams xs) = 0"
  by (induction xs) (auto simp: datagrams_def List.map_filter_simps says_def split: session_out.split)

lemma says_pos: "0 < says ty xs \<longleftrightarrow> (\<exists>m. VO_Say m \<in> set xs \<and> ms_type m = ty)"
  unfolding says_def length_greater_0_conv filter_empty_conv by (fastforce split: service_out.splits)

lemma datagrams_silent [simp]: "VO_Say m \<notin> set (datagrams xs)"
  by (auto simp: datagrams_def List.map_filter_def split: session_out.splits)

lemma vr_start_simps [simp]: "vr_out (vr_start v) = []" "vr_s (vr_start v) = v" "\<not> vr_threw (vr_start v)"
  by (simp_all add: vr_start_def)

lemma message_make_type [simp]: "ms_type (message_make rand now ty sid did seq p) = ty"
  by (simp add: message_make_def)

lemma sv_reply_facts [simp]:
  "says ty (vr_out (sv_reply env vc m ty' p v)) = (if ty' = ty then 1 else 0)"
  "sv_pttRequested (vr_s (sv_reply env vc m ty' p v)) = sv_pttRequested v"
  "sv_announcedReady (vr_s (sv_reply env vc m ty' p v)) = sv_announcedReady v"
  by (simp_all add: sv_reply_def sv_say_def ps_nextSeq_def Let_def)

text \<open>The callbacks never announce; a request makes one announcement due.\<close>

lemma sv_callback_budget:
  "says Msg_PttReady (vr_out (sv_callback env vc x v)) = 0"
  "due (vr_s (sv_callback env vc x v)) \<le> due v + says Msg_PttPreparing (vr_out (sv_callback env vc x v))"
proof -
  have c: "says Msg_PttReady (vr_out (sv_onControl env vc m v)) = 0 \<and>
    due (vr_s (sv_onControl env vc m v)) \<le> due v + says Msg_PttPreparing (vr_out (sv_onControl env vc m v))" for m
    by (auto simp: sv_onControl_def due_def split: msg_type.split sum.split)
  show "says Msg_PttReady (vr_out (sv_callback env vc x v)) = 0"
    using c by (cases x) (simp_all add: vr_start_def)
  show "due (vr_s (sv_callback env vc x v)) \<le> due v + says Msg_PttPreparing (vr_out (sv_callback env vc x v))"
    using c by (cases x) (simp_all add: vr_start_def sv_onMedia_def due_def Let_def)
qed

lemma sv_callbacks_budget:
  "says Msg_PttReady (vr_out (sv_callbacks env vc xs v)) = 0 \<and>
   due (vr_s (sv_callbacks env vc xs v)) \<le> due v + says Msg_PttPreparing (vr_out (sv_callbacks env vc xs v))"
proof (induction xs arbitrary: v)
  case (Cons x xs)
  show ?case
    using sv_callback_budget [of env vc x v] Cons.IH [of "vr_s (sv_callback env vc x v)"]
    by (simp add: Let_def)
qed simp

lemma sv_onDatagram_budget:
  "says Msg_PttReady (vr_out (sv_onDatagram env vc d v)) = 0 \<and>
   due (vr_s (sv_onDatagram env vc d v)) \<le> due v + says Msg_PttPreparing (vr_out (sv_onDatagram env vc d v))"
proof -
  let ?sr = "onDatagram (se_crypto env) (se_sodium env) (se_text env) (vc_rand vc) (vc_now vc) d (sv_peer v)"
  have "due (v\<lparr>sv_peer := sr_s ?sr\<rparr>) = due v" by (simp add: due_def)
  then show ?thesis
    using sv_callbacks_budget [of env vc "sr_out ?sr" "v\<lparr>sv_peer := sr_s ?sr\<rparr>"]
    unfolding sv_onDatagram_def Let_def by simp
qed

lemma sv_waiting_frame [simp]:
  "sv_pttRequested (snd (sv_waiting vc ts v)) = sv_pttRequested v"
  "sv_announcedReady (snd (sv_waiting vc ts v)) = sv_announcedReady v"
  "sv_router (snd (sv_waiting vc ts v)) = sv_router v" "sv_offer (snd (sv_waiting vc ts v)) = sv_offer v"
  "sv_peer (snd (sv_waiting vc ts v)) = sv_peer v" "sv_identity (snd (sv_waiting vc ts v)) = sv_identity v"
  by (simp_all add: sv_waiting_def)

definition announce_due :: "('l, 'd, 'k, 'cb) service \<Rightarrow> bool" where
  "announce_due v \<longleftrightarrow> sv_pttRequested v \<and> \<not> sv_announcedReady v \<and> sm_state (ar_sm (sv_router v)) = PhoneArming \<and>
     sv_phone_ready v"

definition ready_message ::
  "('e, 'd, 'l, 'k) service_env \<Rightarrow> service_call \<Rightarrow> ('l, 'd, 'k, 'cb) service \<Rightarrow> message" where
  "ready_message env vc v =
     makePttReady (vc_rand vc) (vc_now vc) (po_sessionId (sv_offer v))
       (di_deviceId (se_crypto env) (sv_identity v)) (ps_seq (sv_peer v) + 1) (vc_now vc)"

definition ready_run ::
  "('e, 'd, 'l, 'k) service_env \<Rightarrow> service_call \<Rightarrow> ('l, 'd, 'k, 'cb) service \<Rightarrow> ('l, 'd, 'k, 'cb) service_run" where
  "ready_run env vc v = sv_say env vc (ready_message env vc v)
     (v\<lparr>sv_router := notifyPhoneReady (sv_router v), sv_peer := (sv_peer v)\<lparr>ps_seq := ps_seq (sv_peer v) + 1\<rparr>\<rparr>)"

lemma sv_announce_run:
  "sv_announce env vc v =
     (if \<not> announce_due v then vr_start v
      else if vr_threw (ready_run env vc v) then ready_run env vc v
      else (ready_run env vc v)\<lparr>vr_s := (vr_s (ready_run env vc v))\<lparr>sv_announcedReady := True\<rparr>\<rparr>)"
  by (simp add: sv_announce_def announce_due_def ready_run_def ready_message_def ps_nextSeq_def Let_def)

lemma ready_run_facts:
  "says ty (vr_out (ready_run env vc v)) = (if ty = Msg_PttReady then 1 else 0)"
  "VO_Say m \<in> set (vr_out (ready_run env vc v)) \<Longrightarrow> ms_type m = Msg_PttReady \<and> ms_sessionId m = po_sessionId (sv_offer v)"
  by (simp_all add: ready_run_def ready_message_def sv_say_def makePttReady_def message_make_def Let_def)

lemma sv_announce_out:
  "VO_Say m \<in> set (vr_out (sv_announce env vc v)) \<Longrightarrow>
     announce_due v \<and> ms_type m = Msg_PttReady \<and> ms_sessionId m = po_sessionId (sv_offer v)"
  using ready_run_facts(2) [of m env vc v] by (auto simp: sv_announce_run split: if_splits)

lemma sv_announce_facts:
  "says Msg_PttReady (vr_out (sv_announce env vc v)) = (if announce_due v then 1 else 0)"
  "\<not> vr_threw (sv_announce env vc v) \<Longrightarrow>
     due (vr_s (sv_announce env vc v)) = (if announce_due v then 0 else due v)"
  "\<not> vr_threw (sv_announce env vc v) \<Longrightarrow> announce_due v \<Longrightarrow> sv_announcedReady (vr_s (sv_announce env vc v))"
  by (auto simp: sv_announce_run ready_run_facts due_def split: if_splits)

lemma sv_loop_simps:
  "vr_out (sv_loop env vc ts v) = vr_out (sv_announce env vc (snd (sv_waiting vc ts v)))"
  "vr_threw (sv_loop env vc ts v) = vr_threw (sv_announce env vc (snd (sv_waiting vc ts v)))"
  "due (vr_s (sv_loop env vc ts v)) = due (vr_s (sv_announce env vc (snd (sv_waiting vc ts v))))"
  "sv_announcedReady (vr_s (sv_loop env vc ts v)) = sv_announcedReady (vr_s (sv_announce env vc (snd (sv_waiting vc ts v))))"
  by (simp_all add: sv_loop_def sv_tick_def due_def Let_def)

lemma announce_due_waiting [simp]: "announce_due (snd (sv_waiting vc ts v)) = announce_due v"
  by (simp add: announce_due_def sv_phone_ready_def)

lemma service_step_budget:
  "says Msg_PttReady (vr_out (service_step env e v)) +
     (if vr_threw (service_step env e v) then 0 else due (vr_s (service_step env e v)))
   \<le> due v + says Msg_PttPreparing (vr_out (service_step env e v))"
proof (cases e)
  case (VE_Datagram vc d)
  then show ?thesis using sv_onDatagram_budget [of env vc d v] by simp
next
  case (VE_Loop vc ts)
  have "announce_due v \<Longrightarrow> due v = 1" by (simp add: announce_due_def due_def)
  moreover have "due (snd (sv_waiting vc ts v)) = due v" by (simp add: due_def)
  ultimately show ?thesis
    using VE_Loop sv_announce_facts [of env vc "snd (sv_waiting vc ts v)"] by (simp add: sv_loop_simps)
qed

lemma service_run_budget:
  "says Msg_PttReady (vr_out (service_run_all env es v)) \<le> due v + says Msg_PttPreparing (vr_out (service_run_all env es v))"
proof (induction es arbitrary: v)
  case (Cons e es)
  show ?case
    using service_step_budget [of env e v] Cons.IH [of "vr_s (service_step env e v)"]
    by (auto simp: Let_def split: if_splits)
qed simp

section \<open>Properties\<close>

text \<open>
  C35: PTT_READY means audio, once per request. Whatever arrives, PTT_READY is said only by a
  pass of the audio loop that finds a request not yet answered, the router arming, and a started
  jitter buffer that holds at least its prefill; it carries the offer's session and marks the
  request answered. And in any history from the start of the service, it is said at most as often
  as requests were acknowledged with PTT_PREPARING.
\<close>

theorem service_ready_only_with_audio:
  assumes "service_start env opt sx identity registry loc snk = Some v0"
  shows "says Msg_PttReady (vr_out (service_run_all env es v0)) \<le>
      says Msg_PttPreparing (vr_out (service_run_all env es v0)) \<and>
    (VO_Say m \<in> set (vr_out (service_step env e v)) \<and> ms_type m = Msg_PttReady \<longrightarrow>
       (\<exists>vc ts. e = VE_Loop vc ts) \<and> sv_pttRequested v \<and> \<not> sv_announcedReady v \<and>
       sm_state (ar_sm (sv_router v)) = PhoneArming \<and> ms_sessionId m = po_sessionId (sv_offer v) \<and>
       (\<exists>w. ar_phone (sv_router v) = Some w \<and> pm_started w \<and> jb_started (pm_buffer w) \<and>
          jc_prefillMs (jb_cfg (pm_buffer w)) \<le> jb_depthMs (pm_buffer w)) \<and>
       (\<not> vr_threw (service_step env e v) \<longrightarrow> sv_announcedReady (vr_s (service_step env e v))))"
proof (intro conjI impI)
  have "due v0 = 0" using assms by (auto simp: service_start_def due_def Let_def split: prod.splits)
  then show "says Msg_PttReady (vr_out (service_run_all env es v0)) \<le>
      says Msg_PttPreparing (vr_out (service_run_all env es v0))"
    using service_run_budget [of env es v0] by simp
next
  assume said: "VO_Say m \<in> set (vr_out (service_step env e v)) \<and> ms_type m = Msg_PttReady"
  have pos: "0 < says Msg_PttReady (vr_out (service_step env e v))"
    using said says_pos by blast
  obtain vc ts where e: "e = VE_Loop vc ts"
    using pos sv_onDatagram_budget [of env _ _ v] by (cases e) auto
  show "\<exists>vc ts. e = VE_Loop vc ts" using e by blast
  have a: "announce_due v \<and> ms_sessionId m = po_sessionId (sv_offer v)"
    using said sv_announce_out [of m env vc "snd (sv_waiting vc ts v)"] by (simp add: e sv_loop_simps)
  then show "sv_pttRequested v" "\<not> sv_announcedReady v" "sm_state (ar_sm (sv_router v)) = PhoneArming"
      "ms_sessionId m = po_sessionId (sv_offer v)"
    by (simp_all add: announce_due_def)
  show "\<exists>w. ar_phone (sv_router v) = Some w \<and> pm_started w \<and> jb_started (pm_buffer w) \<and>
          jc_prefillMs (jb_cfg (pm_buffer w)) \<le> jb_depthMs (pm_buffer w)"
    using a by (auto simp: announce_due_def sv_phone_ready_def pm_ready_def jb_ready_def split: option.splits)
  show "\<not> vr_threw (service_step env e v) \<Longrightarrow> sv_announcedReady (vr_s (service_step env e v))"
    using a sv_announce_facts(3) [of env vc "snd (sv_waiting vc ts v)"] by (simp add: e sv_loop_simps)
qed

section \<open>A service to run the statement on\<close>

definition demo_senv :: "(unit, unit, unit, unit) service_env" where
  "demo_senv = \<lparr>se_crypto = toy_crypto, se_sodium = plain_sodium,
     se_text = \<lparr>jt_parse = (\<lambda>s. None), jt_dump = (\<lambda>j. Some ''x'')\<rparr>, se_opus = plain_opus, se_rd = (\<lambda>x. x),
     se_rf = (\<lambda>x. x), se_local = \<lparr>so_id = (\<lambda>u. ''local''), so_read = (\<lambda>buf u. (buf, Src_Ok, u))\<rparr>,
     se_sink = \<lparr>ko_write = (\<lambda>xs u. (True, u))\<rparr>\<rparr>"

definition demo_start :: start_env where
  "demo_start = \<lparr>sx_sidRand = [1, 2, 3], sx_codeRand = 42, sx_route = Some ''10.0.0.2'', sx_hostname = None,
     sx_localPort = 47820, sx_now = 1000\<rparr>"

text \<open>The service with a request, an arming router and an immediately ready jitter buffer.\<close>

definition arming ::
  "(unit, unit, unit, unit) service \<Rightarrow> (unit, unit, unit, unit) service" where
  "arming v = v\<lparr>sv_pttRequested := True, sv_router := (sv_router v)
     \<lparr>ar_sm := \<lparr>sm_state = PhoneArming, sm_mode = Mode_Auto\<rparr>,
      ar_phone := Some ((pm_new ''phone'' default_jitter_config)
        \<lparr>pm_started := True, pm_buffer := (jb_new (default_jitter_config\<lparr>jc_prefillMs := 0\<rparr>))\<lparr>jb_started := True\<rparr>\<rparr>)\<rparr>\<rparr>"

theorem service_ready_only_with_audio_witness:
  "\<exists>v0 m vc ts. service_start demo_senv (default_options ''state'') demo_start
       (di_generate toy_crypto (replicate 32 9)) (dr_init :: unit device_registry) () () = Some v0 \<and>
     VO_Say m \<in> set (vr_out (service_step demo_senv (VE_Loop vc ts) (arming v0))) \<and> ms_type m = Msg_PttReady \<and>
     ms_sessionId m = po_sessionId (sv_offer v0) \<and>
     sv_announcedReady (vr_s (service_step demo_senv (VE_Loop vc ts) (arming v0)))"
proof -
  let ?start = "service_start demo_senv (default_options ''state'') demo_start
       (di_generate toy_crypto (replicate 32 9)) (dr_init :: unit device_registry) () ()"
  obtain v0 where start: "?start = Some v0"
    using service_starts [of demo_senv "default_options ''state''" demo_start
        "di_generate toy_crypto (replicate 32 9)" "dr_init :: unit device_registry" "()" "()"] by (elim exE)
  let ?vc = "\<lparr>vc_rand = replicate 16 1, vc_now = 2000, vc_sent = True\<rparr>"
  let ?v = "arming v0"
  let ?r = "service_step demo_senv (VE_Loop ?vc transport_stats_zero) ?v"
  have unreq: "\<not> sv_announcedReady v0" "ps_state (sv_peer v0) = Ses_Pairing"
    using start by (auto simp: service_start_def Let_def ps_setCallbacks_def armPairing_def step_simps split: prod.splits)
  have v: "\<not> sv_announcedReady ?v" "ps_state (sv_peer ?v) = Ses_Pairing" "sv_offer ?v = sv_offer v0"
    using unreq by (simp_all add: arming_def)
  have due: "announce_due ?v"
    using v by (simp add: announce_due_def sv_phone_ready_def arming_def pm_ready_def jb_ready_def jb_new_def)
  then have "0 < says Msg_PttReady (vr_out ?r)" by (simp add: sv_loop_simps sv_announce_facts(1))
  then obtain m where m: "VO_Say m \<in> set (vr_out ?r)" "ms_type m = Msg_PttReady" using says_pos by blast
  have nt: "\<not> vr_threw ?r"
    using v by (simp add: sv_loop_simps sv_announce_run ready_run_def sv_say_def sendControl_def step_simps Let_def)
  show ?thesis
    using service_ready_only_with_audio [OF start, where m = m and v = ?v and e = "VE_Loop ?vc transport_stats_zero"
        and es = "[]"] m nt start v by auto
qed

end
