(* ===== verification/HostSources.thy ===== *)
theory HostSources
  imports Resampler Crossfade AudioIO
begin

text \<open>
  The portable sources and sinks of
  \<^verbatim>\<open>windows/audio-service/platform/host/host_sources.cpp\<close>: the tone and silence sources, the WAV
  reader and writer, and the memory sink. A file is its bytes; \<open>long\<close> has the width given as
  \<open>lw\<close> (32 on Windows, 64 elsewhere), which decides where a chunk size sends \<open>fseek\<close>. The loops
  over chunks and over the data are \<open>partial_function\<close>s, so that a call that never returns is
  \<open>None\<close>. The properties say that a written file reads back, and on which files reading returns.
\<close>

section \<open>Tone and silence\<close>

text \<open>The double nearest to 2 pi.\<close>

definition kTwoPi :: real where "kTwoPi = 7074237752028440 / 2 ^ 50"

record tone_source =
  tn_id :: string
  tn_hz :: real
  tn_amp :: real
  tn_phase :: real
  tn_started :: bool
  tn_failed :: bool

definition tone_new :: "string \<Rightarrow> real \<Rightarrow> real \<Rightarrow> tone_source" where
  "tone_new i hz amplitude = \<lparr>tn_id = i, tn_hz = hz, tn_amp = amplitude, tn_phase = 0, tn_started = False,
     tn_failed = False\<rparr>"

definition tone_start :: "tone_source \<Rightarrow> bool \<times> tone_source" where
  "tone_start s = (True, s\<lparr>tn_started := True\<rparr>)"

definition tone_stop :: "tone_source \<Rightarrow> tone_source" where
  "tone_stop s = s\<lparr>tn_started := False\<rparr>"

definition tone_setFrequency :: "real \<Rightarrow> tone_source \<Rightarrow> tone_source" where
  "tone_setFrequency hz s = s\<lparr>tn_hz := hz\<rparr>"

definition tone_setPhase :: "real \<Rightarrow> tone_source \<Rightarrow> tone_source" where
  "tone_setPhase radians s = s\<lparr>tn_phase := radians\<rparr>"

definition tone_failFromNow :: "tone_source \<Rightarrow> tone_source" where
  "tone_failFromNow s = s\<lparr>tn_failed := True\<rparr>"

fun tone_loop ::
  "(real \<Rightarrow> real) \<Rightarrow> (real \<Rightarrow> real) \<Rightarrow> real \<Rightarrow> real \<Rightarrow> nat \<Rightarrow> real \<Rightarrow> samples \<times> real" where
  "tone_loop rf rd amp inc 0 phase = ([], phase)"
| "tone_loop rf rd amp inc (Suc n) phase =
     (let x = rf (amp * rf (rd (sin phase)));
          p = rd (phase + inc);
          p' = (if p > kTwoPi then rd (p - kTwoPi) else p)
      in case tone_loop rf rd amp inc n p' of (xs, q) \<Rightarrow> (x # xs, q))"

definition tone_read ::
  "(real \<Rightarrow> real) \<Rightarrow> (real \<Rightarrow> real) \<Rightarrow> samples \<Rightarrow> tone_source \<Rightarrow> samples \<times> source_status \<times> tone_source" where
  "tone_read rf rd out s =
     (if tn_failed s then (silence (length out), Src_Failed, s)
      else
        let inc = rd (rd (kTwoPi * tn_hz s) / real kSampleRate)
        in case tone_loop rf rd (tn_amp s) inc (length out) (tn_phase s) of
             (xs, phase) \<Rightarrow> (xs, if tn_started s then Src_Ok else Src_Underrun, s\<lparr>tn_phase := phase\<rparr>))"

definition silence_read :: "samples \<Rightarrow> 's \<Rightarrow> samples \<times> source_status \<times> 's" where
  "silence_read out s = (silence (length out), Src_Ok, s)"

lemma tone_loop_length: "length (fst (tone_loop rf rd amp inc n phase)) = n"
  by (induction n arbitrary: phase) (simp_all add: Let_def split: prod.split, metis fst_conv)

interpretation tone: audio_source "tone_read rf rd" "\<lambda>s. True"
  for rf rd :: "real \<Rightarrow> real"
proof
  show "length (fst (tone_read rf rd buf s)) = length buf" for buf s
    using tone_loop_length [of rf rd "tn_amp s" "rd (rd (kTwoPi * tn_hz s) / real kSampleRate)" "length buf" "tn_phase s"]
    by (auto simp: tone_read_def Let_def split: prod.split)
qed simp

interpretation silent: audio_source silence_read "\<lambda>s. True"
  by unfold_locales (simp_all add: silence_read_def)

section \<open>Files\<close>

definition ascii :: "string \<Rightarrow> bytes" where
  "ascii s = map of_char s"

text \<open>\<open>fread\<close> of \<open>n\<close> bytes at a position, and \<open>fwrite\<close> with \<open>room\<close> bytes left on the disk.\<close>

definition fl_get :: "nat \<Rightarrow> nat \<Rightarrow> bytes \<Rightarrow> bytes" where
  "fl_get n pos content = take n (drop pos content)"

definition fl_put :: "nat \<Rightarrow> bytes \<Rightarrow> nat \<Rightarrow> bytes \<Rightarrow> nat \<times> bytes" where
  "fl_put room bs pos content =
     (let n = min (length bs) (length content + room - pos)
      in (n, if n = 0 then content
             else take pos content @ replicate (pos - length content) 0 @ take n bs @ drop (pos + n) content))"

section \<open>WavFileSink\<close>

record wav_file_sink =
  wk_id :: string
  wk_path :: string
  wk_open :: bool
  wk_pos :: nat
  wk_disk :: bytes
  wk_size :: nat
  wk_framesWritten :: u32

text \<open>\<open>wk_size\<close> is the number of bytes the disk can hold of the file.\<close>

definition wk_put :: "bytes \<Rightarrow> wav_file_sink \<Rightarrow> nat \<times> wav_file_sink" where
  "wk_put bs s =
     (case fl_put (wk_size s - length (wk_disk s)) bs (wk_pos s) (wk_disk s) of
        (n, d) \<Rightarrow> (n, s\<lparr>wk_disk := d, wk_pos := wk_pos s + n\<rparr>))"

definition wk_new :: "string \<Rightarrow> string \<Rightarrow> nat \<Rightarrow> wav_file_sink" where
  "wk_new i path size_limit = \<lparr>wk_id = i, wk_path = path, wk_open = False, wk_pos = 0, wk_disk = [],
     wk_size = size_limit, wk_framesWritten = 0\<rparr>"

definition wav_header :: bytes where
  "wav_header =
     ascii ''RIFF'' @ le_bytes 4 (0 :: u32) @ ascii ''WAVEfmt '' @ le_bytes 4 (16 :: u32) @
     le_bytes 2 (1 :: u16) @ le_bytes 2 (of_nat kChannels :: u16) @ le_bytes 4 (of_nat kSampleRate :: u32) @
     le_bytes 4 (of_nat (kSampleRate * kChannels * 2) :: u32) @ le_bytes 2 (of_nat (kChannels * 2) :: u16) @
     le_bytes 2 (16 :: u16) @ ascii ''data'' @ le_bytes 4 (0 :: u32)"

text \<open>\<open>created\<close>: the file can be created; it is truncated.\<close>

definition wk_start :: "bool \<Rightarrow> wav_file_sink \<Rightarrow> bool \<times> wav_file_sink" where
  "wk_start created s =
     (if \<not> created then (False, s\<lparr>wk_open := False\<rparr>)
      else (True, (snd (wk_put wav_header (s\<lparr>wk_open := True, wk_pos := 0, wk_disk := []\<rparr>)))
                     \<lparr>wk_framesWritten := 0\<rparr>))"

definition wk_pcm :: "(real \<Rightarrow> real) \<Rightarrow> real \<Rightarrow> u16" where
  "wk_pcm rf x = of_int (lround (rf (clamp (- 1) 1 x * 32767)))"

definition pcm_bytes :: "u16 list \<Rightarrow> bytes" where
  "pcm_bytes ws = concat (map (le_bytes 2) ws)"

text \<open>\<open>fwrite\<close> reports the whole samples it wrote.\<close>

definition wk_write :: "(real \<Rightarrow> real) \<Rightarrow> samples \<Rightarrow> wav_file_sink \<Rightarrow> bool \<times> wav_file_sink" where
  "wk_write rf xs s =
     (if \<not> wk_open s then (False, s)
      else (case wk_put (pcm_bytes (map (wk_pcm rf) xs)) s of
              (bytes, s1) \<Rightarrow>
                let n = bytes div 2
                in (n = length xs, s1\<lparr>wk_framesWritten := wk_framesWritten s1 + of_nat n\<rparr>)))"

definition wk_finalise :: "wav_file_sink \<Rightarrow> wav_file_sink" where
  "wk_finalise s =
     (if \<not> wk_open s then s
      else
        let dataBytes = wk_framesWritten s * 2;
            s1 = snd (wk_put (le_bytes 4 (36 + dataBytes)) (s\<lparr>wk_pos := 4\<rparr>))
        in snd (wk_put (le_bytes 4 dataBytes) (s1\<lparr>wk_pos := 40\<rparr>)))"

definition wk_stop :: "wav_file_sink \<Rightarrow> wav_file_sink" where
  "wk_stop s = (if \<not> wk_open s then s else (wk_finalise s)\<lparr>wk_open := False\<rparr>)"

section \<open>MemorySink\<close>

record memory_sink =
  mk_id :: string
  mk_samples :: samples
  mk_writes :: nat
  mk_failing :: bool

definition mk_new :: "string \<Rightarrow> memory_sink" where
  "mk_new i = \<lparr>mk_id = i, mk_samples = [], mk_writes = 0, mk_failing = False\<rparr>"

definition mk_write :: "samples \<Rightarrow> memory_sink \<Rightarrow> bool \<times> memory_sink" where
  "mk_write xs s =
     (let s1 = s\<lparr>mk_writes := mk_writes s + 1\<rparr>
      in if mk_failing s1 then (False, s1) else (True, s1\<lparr>mk_samples := mk_samples s1 @ xs\<rparr>))"

definition mk_failFromNow :: "memory_sink \<Rightarrow> memory_sink" where
  "mk_failFromNow s = s\<lparr>mk_failing := True\<rparr>"

section \<open>WavFileSource\<close>

text \<open>\<open>wf_fp\<close> is the open file's content and position.\<close>

record wav_file_source =
  wf_id :: string
  wf_path :: string
  wf_loop :: bool
  wf_fp :: "(bytes \<times> nat) option"
  wf_dataStart :: int
  wf_dataBytes :: int
  wf_consumed :: int
  wf_rate :: u32
  wf_channels :: u16
  wf_resampler :: linear_resampler
  wf_pending :: samples
  wf_pendingPos :: nat

definition wf_new :: "string \<Rightarrow> string \<Rightarrow> bool \<Rightarrow> wav_file_source" where
  "wf_new i path loop = \<lparr>wf_id = i, wf_path = path, wf_loop = loop, wf_fp = None, wf_dataStart = 0,
     wf_dataBytes = 0, wf_consumed = 0, wf_rate = of_nat kSampleRate, wf_channels = 1,
     wf_resampler = rs_init, wf_pending = [], wf_pendingPos = 0\<rparr>"

definition wf_content :: "wav_file_source \<Rightarrow> bytes" where
  "wf_content w = (case wf_fp w of None \<Rightarrow> [] | Some (c, p) \<Rightarrow> c)"

definition wf_pos :: "wav_file_source \<Rightarrow> nat" where
  "wf_pos w = (case wf_fp w of None \<Rightarrow> 0 | Some (c, p) \<Rightarrow> p)"

definition wf_seek :: "nat \<Rightarrow> wav_file_source \<Rightarrow> wav_file_source" where
  "wf_seek p w = w\<lparr>wf_fp := map_option (\<lambda>(c, q). (c, p)) (wf_fp w)\<rparr>"

definition wf_get :: "nat \<Rightarrow> wav_file_source \<Rightarrow> bytes" where
  "wf_get n w = fl_get n (wf_pos w) (wf_content w)"

definition wf_skip :: "nat \<Rightarrow> wav_file_source \<Rightarrow> wav_file_source" where
  "wf_skip n w = wf_seek (wf_pos w + n) w"

text \<open>\<open>static_cast<long>\<close> of a 32-bit value.\<close>

definition long_of :: "nat \<Rightarrow> u32 \<Rightarrow> int" where
  "long_of lw v = (if lw \<le> 32 then sint v else uint v)"

text \<open>
  How the loop over the chunks ends: \<open>return false\<close>, a read outside the vector of a short format
  chunk, which has no defined result, or the end of the loop.
\<close>

datatype scan_end = Scan_Refused | Scan_Undefined | Scan_Done

definition wf_format :: "bytes \<Rightarrow> wav_file_source \<Rightarrow> wav_file_source" where
  "wf_format fmt w = w\<lparr>wf_channels := le_word (take 2 (drop 2 fmt)), wf_rate := le_word (take 4 (drop 4 fmt))\<rparr>"

partial_function (option) wf_scan :: "nat \<Rightarrow> wav_file_source \<Rightarrow> (scan_end \<times> wav_file_source) option" where
  "wf_scan lw w =
     (let chunk = wf_get 8 w; w1 = wf_skip (length chunk) w; chunk_size = le_word (drop 4 chunk) :: u32
      in if length chunk \<noteq> 8 then Some (Scan_Done, w1)
         else if take 4 chunk = ascii ''fmt '' then
           (let fmt = wf_get (unat chunk_size) w1; w2 = wf_skip (length fmt) w1
            in if length fmt \<noteq> unat chunk_size then Some (Scan_Refused, w2)
               else if length fmt < 16 then Some (Scan_Undefined, w2)
               else if (le_word (take 2 (drop 14 fmt)) :: u16) \<noteq> 16 then Some (Scan_Refused, wf_format fmt w2)
               else wf_scan lw (wf_format fmt w2))
         else if take 4 chunk = ascii ''data'' then
           Some (Scan_Done, w1\<lparr>wf_dataStart := int (wf_pos w1), wf_dataBytes := long_of lw chunk_size\<rparr>)
         else
           (let target = int (wf_pos w1) + long_of lw (chunk_size + (chunk_size AND 1))
            in if target < 0 then wf_scan lw w1 else wf_scan lw (wf_seek (nat target) w1)))"

text \<open>
  \<open>content\<close> is the file, when it can be opened. The first component is the result of \<open>start\<close>;
  \<open>None\<close> of it is the undefined read, \<open>None\<close> of the whole a call that does not return.
\<close>

definition wf_start ::
  "nat \<Rightarrow> (real \<Rightarrow> real) \<Rightarrow> bytes option \<Rightarrow> wav_file_source \<Rightarrow> (bool option \<times> wav_file_source) option" where
  "wf_start lw rd content w =
     (case content of
        None \<Rightarrow> Some (Some False, w\<lparr>wf_fp := None\<rparr>)
      | Some c \<Rightarrow>
          let w0 = w\<lparr>wf_fp := Some (c, 0)\<rparr>; hdr = wf_get 12 w0; w1 = wf_skip (length hdr) w0
          in if length hdr \<noteq> 12 \<or> take 4 hdr \<noteq> ascii ''RIFF'' \<or> drop 8 hdr \<noteq> ascii ''WAVE''
             then Some (Some False, w1)
             else
               (case wf_scan lw w1 of
                  None \<Rightarrow> None
                | Some (Scan_Undefined, w2) \<Rightarrow> Some (None, w2)
                | Some (Scan_Refused, w2) \<Rightarrow> Some (Some False, w2)
                | Some (Scan_Done, w2) \<Rightarrow>
                    if wf_dataStart w2 = 0 then Some (Some False, w2)
                    else Some (Some True, w2\<lparr>wf_resampler := rs_reset rd (wf_rate w2) (wf_resampler w2), wf_consumed := 0\<rparr>)))"

definition wf_stop :: "wav_file_source \<Rightarrow> wav_file_source" where
  "wf_stop w = w\<lparr>wf_fp := None\<rparr>"

text \<open>The samples of a block, and the mean of the channels of each whole frame.\<close>

fun pcm_words :: "bytes \<Rightarrow> u16 list" where
  "pcm_words (a # b # bs) = le_word [a, b] # pcm_words bs"
| "pcm_words _ = []"

fun downmix :: "(real \<Rightarrow> real) \<Rightarrow> nat \<Rightarrow> nat \<Rightarrow> u16 list \<Rightarrow> samples" where
  "downmix rf ch 0 raw = []"
| "downmix rf ch (Suc n) raw =
     rf (rf (of_int (sum_list (map sint (take ch raw)))) / rf (32768 * rf (of_nat ch))) # downmix rf ch n (drop ch raw)"

definition kChunkFrames :: nat where "kChunkFrames = 1024"

text \<open>
  One pass of the refill loop that reads; \<open>w\<close> has been sent back to the start when it had to. The
  number of samples left is a \<open>size_t\<close>.
\<close>

definition wf_want :: "wav_file_source \<Rightarrow> nat" where
  "wf_want w = min (kChunkFrames * unat (wf_channels w)) (nat ((wf_dataBytes w - wf_consumed w) mod 2 ^ 64) div 2)"

definition wf_rewind :: "wav_file_source \<Rightarrow> wav_file_source" where
  "wf_rewind w =
     (if wf_consumed w \<ge> wf_dataBytes w then (wf_seek (nat (wf_dataStart w)) w)\<lparr>wf_consumed := 0\<rparr> else w)"

definition wf_block :: "wav_file_source \<Rightarrow> u16 list" where
  "wf_block w = pcm_words (wf_get (2 * wf_want w) w)"

definition wf_take ::
  "(real \<Rightarrow> real) \<Rightarrow> (real \<Rightarrow> real) \<Rightarrow> wav_file_source \<Rightarrow> wav_file_source option" where
  "wf_take rf rd w =
     (let raw = wf_block w; got = length raw; ch = unat (wf_channels w);
          w1 = (wf_skip (length (wf_get (2 * wf_want w) w)) w)\<lparr>wf_consumed := wf_consumed w + 2 * int got\<rparr>
      in case rs_process rf rd (downmix rf ch (got div ch) raw) (wf_pending w) (wf_resampler w) of
           None \<Rightarrow> None
         | Some (p, rs) \<Rightarrow> Some (w1\<lparr>wf_pending := p, wf_resampler := rs\<rparr>))"

partial_function (option) wf_refill ::
  "(real \<Rightarrow> real) \<Rightarrow> (real \<Rightarrow> real) \<Rightarrow> nat \<Rightarrow> wav_file_source \<Rightarrow> (bool \<times> wav_file_source) option" where
  "wf_refill rf rd needed w =
     (if length (wf_pending w) - wf_pendingPos w \<ge> needed then Some (True, w)
      else if wf_consumed w \<ge> wf_dataBytes w \<and> \<not> wf_loop w then Some (False, w)
      else
        (let w1 = wf_rewind w
         in if wf_block w1 = [] then
              (if \<not> wf_loop w1 then Some (False, w1)
               else wf_refill rf rd needed (w1\<lparr>wf_consumed := wf_dataBytes w1\<rparr>))
            else
              Option.bind (wf_take rf rd w1) (\<lambda>w2. wf_refill rf rd needed w2)))"

definition wf_read ::
  "(real \<Rightarrow> real) \<Rightarrow> (real \<Rightarrow> real) \<Rightarrow> samples \<Rightarrow> wav_file_source \<Rightarrow> (samples \<times> source_status \<times> wav_file_source) option" where
  "wf_read rf rd out w =
     (if wf_fp w = None then Some (silence (length out), Src_Failed, w)
      else
        (case wf_refill rf rd (length out) w of
           None \<Rightarrow> None
         | Some (ok, w1) \<Rightarrow>
             let have = length (wf_pending w1) - wf_pendingPos w1;
                 n = min (length out) have;
                 xs = take n (drop (wf_pendingPos w1) (wf_pending w1)) @ silence (length out - n);
                 w2 = w1\<lparr>wf_pendingPos := wf_pendingPos w1 + n\<rparr>;
                 w3 = (if wf_pendingPos w2 > 2 ^ 16
                       then w2\<lparr>wf_pending := drop (wf_pendingPos w2) (wf_pending w2), wf_pendingPos := 0\<rparr> else w2)
             in Some (xs, if ok \<and> n = length out then Src_Ok else Src_Underrun, w3)))"

section \<open>What the writer leaves\<close>

lemma length_wav_header [simp]: "length wav_header = 44"
  by (simp add: wav_header_def ascii_def)

lemma length_pcm_bytes [simp]: "length (pcm_bytes ws) = 2 * length ws"
  by (induction ws) (simp_all add: pcm_bytes_def)

lemma pcm_bytes_Nil [simp]: "pcm_bytes [] = []"
  by (simp add: pcm_bytes_def)

lemma pcm_bytes_append: "pcm_bytes (vs @ ws) = pcm_bytes vs @ pcm_bytes ws"
  by (simp add: pcm_bytes_def)

lemma fl_put_end: "length bs \<le> room \<Longrightarrow> fl_put room bs (length content) content = (length bs, content @ bs)"
  by (simp add: fl_put_def Let_def)

lemma fl_put_within:
  "pos + length bs \<le> length content \<Longrightarrow> fl_put room bs pos content = (length bs, blit pos bs content)"
  by (auto simp: fl_put_def blit_def Let_def min_def)

lemma wk_put_end:
  "wk_pos s = length (wk_disk s) \<Longrightarrow> length (wk_disk s) + length bs \<le> wk_size s \<Longrightarrow>
   wk_put bs s = (length bs, s\<lparr>wk_disk := wk_disk s @ bs, wk_pos := wk_pos s + length bs\<rparr>)"
  using fl_put_end [of bs "wk_size s - length (wk_disk s)" "wk_disk s"] by (simp add: wk_put_def)

lemma wk_put_within:
  "wk_pos s + length bs \<le> length (wk_disk s) \<Longrightarrow>
   wk_put bs s = (length bs, s\<lparr>wk_disk := blit (wk_pos s) bs (wk_disk s), wk_pos := wk_pos s + length bs\<rparr>)"
  by (simp add: wk_put_def fl_put_within)

text \<open>The writer has a header and the samples \<open>ws\<close> in its file.\<close>

definition wk_holds :: "u16 list \<Rightarrow> wav_file_sink \<Rightarrow> bool" where
  "wk_holds ws s \<longleftrightarrow> wk_open s \<and> wk_disk s = wav_header @ pcm_bytes ws \<and> wk_pos s = length (wk_disk s) \<and>
     wk_framesWritten s = of_nat (length ws)"

lemma wk_start_holds: "44 \<le> limit \<Longrightarrow> wk_holds [] (snd (wk_start True (wk_new i p limit)))"
  by (simp add: wk_start_def wk_put_def wk_new_def fl_put_end [where content = "[]", simplified] wk_holds_def pcm_bytes_def)

lemma wk_start_size [simp]: "wk_size (snd (wk_start True (wk_new i p limit))) = limit"
  by (simp add: wk_start_def wk_put_def wk_new_def split: prod.split)

lemma wk_write_holds:
  assumes "wk_holds ws s" and "44 + 2 * (length ws + length xs) \<le> wk_size s"
  shows "fst (wk_write rf xs s) \<and> wk_holds (ws @ map (wk_pcm rf) xs) (snd (wk_write rf xs s)) \<and>
    wk_size (snd (wk_write rf xs s)) = wk_size s"
proof -
  have put: "wk_put (pcm_bytes (map (wk_pcm rf) xs)) s = (2 * length xs,
      s\<lparr>wk_disk := wk_disk s @ pcm_bytes (map (wk_pcm rf) xs), wk_pos := wk_pos s + 2 * length xs\<rparr>)"
    using assms wk_put_end [of s "pcm_bytes (map (wk_pcm rf) xs)"] by (simp add: wk_holds_def)
  show ?thesis
    using assms(1) by (simp add: wk_write_def put wk_holds_def pcm_bytes_append)
qed

fun wk_writes :: "(real \<Rightarrow> real) \<Rightarrow> samples list \<Rightarrow> wav_file_sink \<Rightarrow> bool list \<times> wav_file_sink" where
  "wk_writes rf [] s = ([], s)"
| "wk_writes rf (xs # xss) s =
     (case wk_write rf xs s of (ok, s') \<Rightarrow> case wk_writes rf xss s' of (oks, s'') \<Rightarrow> (ok # oks, s''))"

lemma wk_writes_holds:
  "wk_holds ws s \<Longrightarrow> 44 + 2 * (length ws + length (concat xss)) \<le> wk_size s \<Longrightarrow>
   fst (wk_writes rf xss s) = replicate (length xss) True \<and>
   wk_holds (ws @ map (wk_pcm rf) (concat xss)) (snd (wk_writes rf xss s))"
proof (induction xss arbitrary: ws s)
  case (Cons xs xss)
  have w: "fst (wk_write rf xs s) \<and> wk_holds (ws @ map (wk_pcm rf) xs) (snd (wk_write rf xs s)) \<and>
      wk_size (snd (wk_write rf xs s)) = wk_size s"
    by (rule wk_write_holds) (use Cons.prems in auto)
  show ?case
    using Cons.IH [of "ws @ map (wk_pcm rf) xs" "snd (wk_write rf xs s)"] w Cons.prems
    by (auto split: prod.splits)
qed simp

text \<open>The finished file.\<close>

definition wav_image :: "u16 list \<Rightarrow> bytes" where
  "wav_image ws =
     ascii ''RIFF'' @ le_bytes 4 (of_nat (36 + 2 * length ws) :: u32) @ take 32 (drop 8 wav_header) @
     le_bytes 4 (of_nat (2 * length ws) :: u32) @ pcm_bytes ws"

lemma length_wav_image [simp]: "length (wav_image ws) = 44 + 2 * length ws"
  by (simp add: wav_image_def ascii_def)

lemma wk_stop_image:
  assumes "wk_holds ws s"
  shows "wk_disk (wk_stop s) = wav_image ws"
proof -
  let ?d = "of_nat (length ws) * 2 :: u32"
  have sz: "(of_nat (2 * length ws) :: u32) = ?d" "(of_nat (36 + 2 * length ws) :: u32) = 36 + ?d"
    by simp_all
  have hdr: "wav_header = ascii ''RIFF'' @ le_bytes 4 (0 :: u32) @ take 32 (drop 8 wav_header) @ le_bytes 4 (0 :: u32)"
    by (simp add: wav_header_def ascii_def)
  have l: "length (ascii ''RIFF'') = 4" "length (take 32 (drop 8 wav_header)) = 32" by (simp_all add: ascii_def)
  let ?c = "wav_header @ pcm_bytes ws"
  define s1 where "s1 = s\<lparr>wk_pos := 4\<rparr>"
  define s2 where "s2 = s1\<lparr>wk_disk := blit 4 (le_bytes 4 (36 + ?d)) ?c, wk_pos := 8\<rparr>"
  have s: "wk_open s" "wk_disk s = ?c" "wk_framesWritten s = of_nat (length ws)"
    using assms by (simp_all add: wk_holds_def)
  have one: "wk_put (le_bytes 4 (36 + ?d)) s1 = (4, s2)"
    using wk_put_within [of s1 "le_bytes 4 (36 + ?d)"] s by (simp add: s1_def s2_def)
  have two: "wk_disk (snd (wk_put (le_bytes 4 ?d) (s2\<lparr>wk_pos := 40\<rparr>))) =
      blit 40 (le_bytes 4 ?d) (blit 4 (le_bytes 4 (36 + ?d)) ?c)"
    using wk_put_within [of "s2\<lparr>wk_pos := 40\<rparr>" "le_bytes 4 ?d"] by (simp add: s2_def)
  have "wk_disk (wk_stop s) = blit 40 (le_bytes 4 ?d) (blit 4 (le_bytes 4 (36 + ?d)) ?c)"
    using s one two by (simp add: wk_stop_def wk_finalise_def Let_def s1_def [symmetric])
  also have "\<dots> = wav_image ws"
    unfolding wav_image_def sz
    by (subst hdr, subst (2) hdr) (simp add: blit_def l)
  finally show ?thesis .
qed

section \<open>Opening a written file\<close>

lemma pcm_words_bytes [simp]: "pcm_words (pcm_bytes ws @ bs) = ws @ pcm_words bs"
proof (induction ws)
  case (Cons v ws)
  have "le_bytes 2 v = [ucast v, ucast (drop_bit 8 v)]"
    by (simp add: le_bytes_Suc numeral_2_eq_2) (simp add: le_bytes_def)
  moreover have "le_word (le_bytes 2 v) = v" by (rule le_word_full) simp
  ultimately show ?case using Cons.IH by (simp add: pcm_bytes_def)
qed (simp add: pcm_bytes_def)

lemma pcm_bytes_part: "take (2 * n) (drop (2 * k) (pcm_bytes ws)) = pcm_bytes (take n (drop k ws))"
proof -
  have d: "drop (2 * k) (pcm_bytes vs) = pcm_bytes (drop k vs)" for vs
  proof (cases "k \<le> length vs")
    case True
    then show ?thesis using pcm_bytes_append [of "take k vs" "drop k vs"] by simp
  qed simp
  have t: "take (2 * n) (pcm_bytes vs) = pcm_bytes (take n vs)" for vs
  proof (cases "n \<le> length vs")
    case True
    then show ?thesis using pcm_bytes_append [of "take n vs" "drop n vs"] by simp
  qed simp
  show ?thesis by (simp only: d t)
qed

lemma le_bytes_4: "le_bytes 4 (v :: u32) = [ucast v, ucast (drop_bit 8 v), ucast (drop_bit 16 v), ucast (drop_bit 24 v)]"
  by (simp add: le_bytes_def upt_conv_Cons)

lemma le_word_4 [simp]: "le_word (le_bytes 4 v) = (v :: u32)"
  by (rule le_word_full) simp

text \<open>The decoded sample.\<close>

definition wf_dec :: "(real \<Rightarrow> real) \<Rightarrow> u16 \<Rightarrow> real" where
  "wf_dec rf v = rf (rf (of_int (sint v)) / rf (32768 * rf 1))"

lemma downmix_mono: "n \<le> length raw \<Longrightarrow> downmix rf 1 n raw = map (wf_dec rf) (take n raw)"
proof (induction n arbitrary: raw)
  case (Suc n)
  then show ?case by (cases raw) (simp_all add: wf_dec_def)
qed simp

text \<open>The source has opened the file of \<open>ws\<close>, decoded \<open>j\<close> samples of it and handed out \<open>k\<close>.\<close>

definition wf_at :: "(real \<Rightarrow> real) \<Rightarrow> u16 list \<Rightarrow> nat \<Rightarrow> nat \<Rightarrow> wav_file_source \<Rightarrow> bool" where
  "wf_at rf ws j k w \<longleftrightarrow> wf_fp w = Some (wav_image ws, 44 + 2 * j) \<and> wf_dataStart w = 44 \<and>
     wf_dataBytes w = 2 * int (length ws) \<and> wf_consumed w = 2 * int j \<and> wf_channels w = 1 \<and> \<not> wf_loop w \<and>
     rs_passthrough (wf_resampler w) \<and> k \<le> j \<and> j \<le> length ws \<and> wf_pendingPos w \<le> length (wf_pending w) \<and>
     drop (wf_pendingPos w) (wf_pending w) = map (wf_dec rf) (drop k (take j ws))"

lemma long_of_nat: "n < 2 ^ 31 \<Longrightarrow> long_of lw (of_nat n) = int n"
  by (simp add: long_of_def signed_of_nat unsigned_of_nat take_bit_nat_eq_self signed_take_bit_int_eq_self)
lemma wav_image_shape:
  "wav_image ws = ascii ''RIFF'' @ le_bytes 4 (of_nat (36 + 2 * length ws) :: u32) @ ascii ''WAVE'' @
     ascii ''fmt '' @ le_bytes 4 (16 :: u32) @ take 16 (drop 20 wav_header) @
     ascii ''data'' @ le_bytes 4 (of_nat (2 * length ws) :: u32) @ pcm_bytes ws"
  by (simp add: wav_image_def wav_header_def ascii_def)

lemma wav_image_data: "drop (44 + m) (wav_image ws) = drop m (pcm_bytes ws)"
proof -
  let ?hdr = "ascii ''RIFF'' @ le_bytes 4 (of_nat (36 + 2 * length ws) :: u32) @ take 32 (drop 8 wav_header) @
    le_bytes 4 (of_nat (2 * length ws) :: u32)"
  have "wav_image ws = ?hdr @ pcm_bytes ws" "length ?hdr = 44" by (simp_all add: wav_image_def ascii_def)
  then show ?thesis by simp
qed

definition fmt_bytes :: bytes where
  "fmt_bytes = take 16 (drop 20 wav_header)"

lemma fmt_bytes_fields:
  "length fmt_bytes = 16" "(le_word (take 2 (drop 2 fmt_bytes)) :: u16) = 1"
  "(le_word (take 4 (drop 4 fmt_bytes)) :: u32) = 48000" "(le_word (take 2 (drop 14 fmt_bytes)) :: u16) = 16"
  by (simp_all add: fmt_bytes_def wav_header_def ascii_def le_bytes_def upt_conv_Cons kSampleRate_def kChannels_def)

lemma wf_fp_get: "wf_fp w = Some (c, p) \<Longrightarrow> wf_get n w = take n (drop p c)"
  by (simp add: wf_get_def wf_pos_def wf_content_def fl_get_def)

lemma wf_fp_skip [simp]: "wf_fp w = Some (c, p) \<Longrightarrow> wf_skip n w = w\<lparr>wf_fp := Some (c, p + n)\<rparr>"
  by (simp add: wf_skip_def wf_seek_def wf_pos_def)

lemma wf_scan_data:
  assumes "wf_fp w = Some (c, p)" and "take 8 (drop p c) = ascii ''data'' @ le_bytes 4 (v :: u32)"
  shows "wf_scan lw w = Some (Scan_Done, w\<lparr>wf_fp := Some (c, p + 8), wf_dataStart := int (p + 8), wf_dataBytes := long_of lw v\<rparr>)"
  using assms by (subst wf_scan.simps) (simp add: wf_fp_get Let_def ascii_def wf_pos_def)

lemma wf_scan_fmt:
  assumes "wf_fp w = Some (c, p)" and "take 8 (drop p c) = ascii ''fmt '' @ le_bytes 4 (v :: u32)"
    and "take (unat v) (drop (p + 8) c) = fmt" and "length fmt = unat v" and "16 \<le> unat v"
    and "(le_word (take 2 (drop 14 fmt)) :: u16) = 16"
  shows "wf_scan lw w = wf_scan lw (wf_format fmt (w\<lparr>wf_fp := Some (c, p + 8 + unat v)\<rparr>))"
  using assms by (subst wf_scan.simps) (simp add: wf_fp_get Let_def ascii_def)

text \<open>A mono file of 48000 Hz that states \<open>r\<close> and \<open>v\<close> as its sizes, whatever follows.\<close>

definition wav_sized :: "u32 \<Rightarrow> u32 \<Rightarrow> bytes \<Rightarrow> bytes" where
  "wav_sized r v body = ascii ''RIFF'' @ le_bytes 4 r @ ascii ''WAVE'' @
     ascii ''fmt '' @ le_bytes 4 (16 :: u32) @ fmt_bytes @ ascii ''data'' @ le_bytes 4 v @ body"

lemma wav_image_sized:
  "wav_image ws = wav_sized (of_nat (36 + 2 * length ws)) (of_nat (2 * length ws)) (pcm_bytes ws)"
  unfolding wav_sized_def fmt_bytes_def by (rule wav_image_shape)

lemma wf_start_sized:
  "\<exists>w. wf_start lw rd (Some (wav_sized r v body)) (wf_new i p loop) = Some (Some True, w) \<and>
    wf_fp w = Some (wav_sized r v body, 44) \<and> wf_dataStart w = 44 \<and> wf_dataBytes w = long_of lw v \<and>
    wf_consumed w = 0 \<and> wf_channels w = 1 \<and> wf_loop w = loop \<and> rs_passthrough (wf_resampler w) \<and>
    wf_pendingPos w = 0 \<and> wf_pending w = []"
proof -
  let ?c = "wav_sized r v body"
  define w1 where "w1 = (wf_new i p loop)\<lparr>wf_fp := Some (?c, 12)\<rparr>"
  define w2 where "w2 = wf_format fmt_bytes (w1\<lparr>wf_fp := Some (?c, 36)\<rparr>)"
  have parts: "take 12 ?c = ascii ''RIFF'' @ le_bytes 4 r @ ascii ''WAVE''"
    "take 8 (drop 12 ?c) = ascii ''fmt '' @ le_bytes 4 (16 :: u32)" "take 16 (drop 20 ?c) = fmt_bytes"
    "take 8 (drop 36 ?c) = ascii ''data'' @ le_bytes 4 v"
    by (simp_all add: wav_sized_def ascii_def le_bytes_4 fmt_bytes_def wav_header_def le_bytes_def upt_conv_Cons)
  have "wf_scan lw w1 = wf_scan lw w2"
    using wf_scan_fmt [of w1 ?c 12 16 fmt_bytes lw] parts fmt_bytes_fields by (simp add: w1_def w2_def)
  also have "\<dots> = Some (Scan_Done, w2\<lparr>wf_fp := Some (?c, 44), wf_dataStart := 44, wf_dataBytes := long_of lw v\<rparr>)"
    using wf_scan_data [of w2 ?c 36 v lw] parts(4) by (simp add: w2_def wf_format_def)
  finally have scan: "wf_scan lw w1 = \<dots>" .
  have st: "wf_start lw rd (Some ?c) (wf_new i p loop) = Some (Some True, w2\<lparr>wf_fp := Some (?c, 44), wf_dataStart := 44,
      wf_dataBytes := long_of lw v, wf_resampler := rs_reset rd (wf_rate w2) (wf_resampler w2), wf_consumed := 0\<rparr>)"
    using scan parts(1) by (simp add: wf_start_def Let_def wf_fp_get w1_def ascii_def)
  have "wf_channels w2 = 1" "wf_rate w2 = 48000" "wf_loop w2 = loop" "wf_pending w2 = []" "wf_pendingPos w2 = 0"
    using fmt_bytes_fields by (simp_all add: w2_def w1_def wf_format_def wf_new_def)
  then show ?thesis
    by (intro exI conjI, rule_tac st) (simp_all add: rs_reset_def Let_def kSampleRate_def)
qed

lemma wf_start_image:
  assumes "2 * length ws < 2 ^ 31"
  shows "\<exists>w. wf_start lw rd (Some (wav_image ws)) (wf_new i p loop) = Some (Some True, w) \<and>
    wf_fp w = Some (wav_image ws, 44) \<and> wf_dataStart w = 44 \<and> wf_dataBytes w = 2 * int (length ws) \<and>
    wf_consumed w = 0 \<and> wf_channels w = 1 \<and> wf_loop w = loop \<and> rs_passthrough (wf_resampler w) \<and>
    wf_pendingPos w = 0 \<and> wf_pending w = []"
  using wf_start_sized [of lw rd "of_nat (36 + 2 * length ws)" "of_nat (2 * length ws)" "pcm_bytes ws" i p loop]
    long_of_nat [OF assms, of lw] unfolding wav_image_sized [symmetric] by simp

lemma wf_start_at:
  "2 * length ws < 2 ^ 31 \<Longrightarrow>
   \<exists>w. wf_start lw rd (Some (wav_image ws)) (wf_new i p False) = Some (Some True, w) \<and> wf_at rf ws 0 0 w"
  using wf_start_image [of ws lw rd i p False] by (auto simp: wf_at_def)

section \<open>Reading a written file back\<close>

lemma wf_block_at:
  assumes "wf_at rf ws j k w" and "2 * length ws < 2 ^ 31" and "j < length ws"
  shows "wf_want w = min 1024 (length ws - j) \<and> wf_block w = take (min 1024 (length ws - j)) (drop j ws)"
proof -
  have "(2 * int (length ws) - 2 * int j) mod 18446744073709551616 = 2 * int (length ws - j)"
    using assms by (subst mod_pos_pos_trivial) auto
  then have want: "wf_want w = min 1024 (length ws - j)"
    using assms(1) by (simp add: wf_want_def wf_at_def kChunkFrames_def nat_mult_distrib)
  have "wf_get (2 * wf_want w) w = pcm_bytes (take (min 1024 (length ws - j)) (drop j ws))"
    using assms(1) wf_fp_get [of w "wav_image ws" "44 + 2 * j"]
    by (simp add: wf_at_def want wav_image_data pcm_bytes_part)
  then show ?thesis
    using want pcm_words_bytes [of "take (min 1024 (length ws - j)) (drop j ws)" "[]"] by (simp add: wf_block_def)
qed

lemma wf_take_at:
  assumes "wf_at rf ws j k w" and "2 * length ws < 2 ^ 31" and "j < length ws"
  shows "\<exists>w'. wf_take rf rd w = Some w' \<and> wf_at rf ws (j + min 1024 (length ws - j)) k w'"
proof -
  define n raw where "n = min 1024 (length ws - j)" and "raw = take n (drop j ws)"
  have b: "wf_want w = n" "wf_block w = raw" "length raw = n" "raw \<noteq> []"
    using wf_block_at [OF assms] assms(3) by (auto simp: n_def raw_def)
  have g: "length (wf_get (2 * n) w) = 2 * n"
    using assms(1,3) wf_fp_get [of w "wav_image ws" "44 + 2 * j"] by (simp add: wf_at_def n_def)
  have "downmix rf 1 n raw = map (wf_dec rf) raw" using downmix_mono [of n raw rf] b(3) by simp
  then have "rs_process rf rd (downmix rf 1 (length raw) raw) (wf_pending w) (wf_resampler w) =
      Some (wf_pending w @ map (wf_dec rf) raw, wf_resampler w)"
    using assms(1) b by (simp add: rs_process_def wf_at_def)
  moreover have "take (j + n) ws = take j ws @ raw" by (simp add: raw_def take_add)
  moreover have "j + n \<le> length ws" using assms(3) by (simp add: n_def)
  ultimately show ?thesis
    using assms(1,3) b g unfolding n_def [symmetric]
    by (simp add: wf_take_def Let_def wf_at_def)
qed

lemma wf_refill_at:
  assumes "2 * length ws < 2 ^ 31"
  shows "wf_at rf ws j k w \<Longrightarrow>
    \<exists>j' w'. wf_refill rf rd needed w = Some (needed \<le> length ws - k, w') \<and> wf_at rf ws j' k w' \<and>
      min needed (length ws - k) \<le> j' - k"
proof (induction "length ws - j" arbitrary: j w rule: less_induct)
  case less
  then have l: "length (wf_pending w) - wf_pendingPos w = j - k" "k \<le> j" "j \<le> length ws"
    by (auto simp: wf_at_def dest!: arg_cong [where f = length])
  consider "needed \<le> j - k" | "\<not> needed \<le> j - k" "j = length ws" | "\<not> needed \<le> j - k" "j < length ws"
    using l by linarith
  then show ?case
  proof cases
    case 1
    then show ?thesis using less.prems l by (subst wf_refill.simps) (auto intro!: exI [of _ j])
  next
    case 2
    then show ?thesis
      using less.prems l by (subst wf_refill.simps) (auto simp: wf_at_def intro!: exI [of _ j])
  next
    case 3
    then have r: "wf_rewind w = w" "wf_consumed w < wf_dataBytes w" "wf_block w \<noteq> []"
      using less.prems wf_block_at [OF less.prems assms] by (auto simp: wf_rewind_def wf_at_def)
    obtain w1 where w1: "wf_take rf rd w = Some w1" "wf_at rf ws (j + min 1024 (length ws - j)) k w1"
      using wf_take_at [OF less.prems assms] 3 by blast
    have "wf_refill rf rd needed w = wf_refill rf rd needed w1"
      using 3 l r w1(1) by (subst wf_refill.simps) (simp add: Let_def)
    moreover have "length ws - (j + min 1024 (length ws - j)) < length ws - j" using 3 by simp
    ultimately show ?thesis using less.hyps [OF _ w1(2)] by simp
  qed
qed

lemma wf_at_step:
  assumes "wf_at rf ws j k w" and "n \<le> j - k" and "p = wf_pendingPos w + n"
  shows "wf_at rf ws j (k + n) (w\<lparr>wf_pendingPos := p\<rparr>)"
    and "wf_at rf ws j (k + n) (w\<lparr>wf_pendingPos := 0, wf_pending := drop p (wf_pending w)\<rparr>)"
proof -
  have l: "length (wf_pending w) - wf_pendingPos w = j - k"
    using assms(1) by (auto simp: wf_at_def dest!: arg_cong [where f = length])
  have "drop p (wf_pending w) = drop n (drop (wf_pendingPos w) (wf_pending w))"
    using assms(3) by (simp add: add.commute)
  also have "\<dots> = map (wf_dec rf) (drop (k + n) (take j ws))"
    using assms(1) by (simp add: wf_at_def drop_map add.commute)
  finally show "wf_at rf ws j (k + n) (w\<lparr>wf_pendingPos := p\<rparr>)"
    "wf_at rf ws j (k + n) (w\<lparr>wf_pendingPos := 0, wf_pending := drop p (wf_pending w)\<rparr>)"
    using assms l by (auto simp: wf_at_def)
qed
text \<open>What a read of \<open>n\<close> samples finds when the first \<open>k\<close> of \<open>xs\<close> have been handed out.\<close>

definition tail_block :: "samples \<Rightarrow> nat \<Rightarrow> nat \<Rightarrow> samples" where
  "tail_block xs k n = take n (drop k xs) @ silence (n - (length xs - k))"

lemma wf_read_at:
  assumes "wf_at rf ws j k w" and "2 * length ws < 2 ^ 31"
  shows "\<exists>j' w'. wf_read rf rd out w =
      Some (tail_block (map (wf_dec rf) ws) k (length out),
            if length out \<le> length ws - k then Src_Ok else Src_Underrun, w') \<and>
    wf_at rf ws j' (k + min (length out) (length ws - k)) w'"
proof -
  obtain j' w1 where r: "wf_refill rf rd (length out) w = Some (length out \<le> length ws - k, w1)" "wf_at rf ws j' k w1"
      "min (length out) (length ws - k) \<le> j' - k"
    using wf_refill_at [OF assms(2,1), of rd "length out"] by blast
  define n where "n = min (length out) (length ws - k)"
  have j: "k \<le> j'" "j' \<le> length ws" using r(2) by (auto simp: wf_at_def)
  have l: "length (wf_pending w1) - wf_pendingPos w1 = j' - k"
    using r(2) by (auto simp: wf_at_def dest!: arg_cong [where f = length])
  have n: "min (length out) (j' - k) = n" "n \<le> j' - k" using r(3) j by (auto simp: n_def)
  have xs: "take n (drop (wf_pendingPos w1) (wf_pending w1)) @ silence (length out - n) =
      tail_block (map (wf_dec rf) ws) k (length out)"
  proof -
    have "take n (drop k (take j' ws)) = take (length out) (drop k ws)"
      using n(2) by (simp add: drop_take) (simp add: n_def min_def)
    then have "take n (drop (wf_pendingPos w1) (wf_pending w1)) = take (length out) (drop k (map (wf_dec rf) ws))"
      using r(2) by (simp add: wf_at_def take_map drop_map)
    then show ?thesis by (simp add: tail_block_def n_def min_def)
  qed
  have e: "(length out \<le> length ws - k \<and> n = length out) = (length out \<le> length ws - k)" by (auto simp: n_def)
  note steps = wf_at_step [OF r(2) n(2) refl]
  show ?thesis
    using r(1) assms(1) steps
    by (simp add: wf_read_def l n(1) xs e n_def [symmetric] Let_def)
       (auto simp: wf_at_def)
qed

fun wf_reads ::
  "(real \<Rightarrow> real) \<Rightarrow> (real \<Rightarrow> real) \<Rightarrow> samples list \<Rightarrow> wav_file_source
   \<Rightarrow> ((samples \<times> source_status) list \<times> wav_file_source) option" where
  "wf_reads rf rd [] w = Some ([], w)"
| "wf_reads rf rd (b # bs) w =
     (case wf_read rf rd b w of
        None \<Rightarrow> None
      | Some (xs, r, w1) \<Rightarrow> map_option (\<lambda>(ys, w2). ((xs, r) # ys, w2)) (wf_reads rf rd bs w1))"

lemma tail_block_append:
  "tail_block xs k n @ tail_block xs (k + min n (length xs - k)) m = tail_block xs k (n + m)"
proof (cases "n \<le> length xs - k")
  case True
  have "take (n + m) (drop k xs) = take n (drop k xs) @ take m (drop (k + n) xs)"
    by (simp only: take_add drop_drop add.commute [of n k])
  moreover have "n + m - (length xs - k) = m - (length xs - (k + n))" using True by simp
  ultimately show ?thesis using True by (simp add: tail_block_def)
next
  case False
  then show ?thesis by (simp add: tail_block_def replicate_add [symmetric])
qed

lemma wf_reads_at:
  assumes "2 * length ws < 2 ^ 31"
  shows "wf_at rf ws j k w \<Longrightarrow>
    \<exists>ys w'. wf_reads rf rd bufs w = Some (ys, w') \<and>
      concat (map fst ys) = tail_block (map (wf_dec rf) ws) k (sum_list (map length bufs)) \<and>
      (map snd ys = replicate (length bufs) Src_Ok \<longleftrightarrow> sum_list (map length bufs) \<le> length ws - k)"
proof (induction bufs arbitrary: j k w)
  case Nil
  then show ?case by (simp add: tail_block_def)
next
  case (Cons b bufs)
  obtain j' w1 where r: "wf_read rf rd b w = Some (tail_block (map (wf_dec rf) ws) k (length b),
      if length b \<le> length ws - k then Src_Ok else Src_Underrun, w1)"
    "wf_at rf ws j' (k + min (length b) (length ws - k)) w1"
    using wf_read_at [OF Cons.prems assms, of rd b] by blast
  obtain ys w2 where ys: "wf_reads rf rd bufs w1 = Some (ys, w2)"
    "concat (map fst ys) = tail_block (map (wf_dec rf) ws) (k + min (length b) (length ws - k)) (sum_list (map length bufs))"
    "map snd ys = replicate (length bufs) Src_Ok \<longleftrightarrow>
       sum_list (map length bufs) \<le> length ws - (k + min (length b) (length ws - k))"
    using Cons.IH [OF r(2)] by blast
  show ?case
    using r(1) ys tail_block_append [of "map (wf_dec rf) ws" k "length b" "sum_list (map length bufs)"]
    by auto
qed
section \<open>Quantisation\<close>

text \<open>
  A sample as it comes back from a file: clamped, scaled by 32767 and rounded, then divided by
  32768.
\<close>

definition quantise :: "(real \<Rightarrow> real) \<Rightarrow> real \<Rightarrow> real" where
  "quantise rf x = wf_dec rf (wk_pcm rf x)"

lemma f32_error:
  assumes "\<bar>x\<bar> < 2 ^ 15"
  shows "\<bar>f32 x - x\<bar> \<le> 1 / 2 ^ 10"
proof -
  have "\<bar>x\<bar> < 2 powi (int 24 + (- 9))" using assms by simp
  then have "\<bar>f32 x - x\<bar> \<le> 2 powi (- 9) / 2"
    unfolding f32_def by (rule rnd_error) simp_all
  also have "2 powi (- 9) / 2 = (1 / 2 ^ 10 :: real)" by (simp add: power_int_minus)
  finally show ?thesis .
qed

lemma lround_error: "\<bar>of_int (lround x) - x\<bar> \<le> 1 / 2"
proof (cases "x < 0")
  case True
  then show ?thesis unfolding lround_def abs_le_iff by simp linarith
next
  case False
  then show ?thesis unfolding lround_def abs_le_iff by simp linarith
qed

lemma quantise_f32: "\<bar>quantise f32 x - clamp (- 1) 1 x\<bar> \<le> 1 / 2 ^ 14"
proof -
  define c y where "c = clamp (- 1) 1 x" and "y = f32 (c * 32767)"
  have c: "\<bar>c\<bar> \<le> 1" using clamp_in [of "- 1" 1 x] by (simp add: c_def abs_le_iff)
  then have "\<bar>c * 32767\<bar> \<le> 32767" by (simp add: abs_mult)
  moreover have "f32 32767 = 32767" using f32_int [of 32767] by simp
  ultimately have y: "\<bar>y\<bar> \<le> of_int 32767" unfolding y_def using f32.fl_abs_le by simp
  have m: "\<bar>lround y\<bar> \<le> 32767" using lround_range [OF y] .
  have s: "sint (wk_pcm f32 x) = lround y"
    using m by (simp add: wk_pcm_def c_def [symmetric] y_def [symmetric] signed_of_int signed_take_bit_int_eq_self abs_le_iff)
  have "quantise f32 x = of_int (lround y) / 2 ^ 15"
    using m f32_int [of "lround y"] f32_int [of 32768] f32_div [of "lround y" 15]
    by (simp add: quantise_def wf_dec_def s f32.fl_1)
  moreover have "\<bar>of_int (lround y) - c * 32768\<bar> \<le> 2"
  proof -
    have "\<bar>y - c * 32767\<bar> \<le> 1 / 2 ^ 10"
      unfolding y_def by (rule f32_error) (use \<open>\<bar>c * 32767\<bar> \<le> 32767\<close> in simp)
    then show ?thesis using lround_error [of y] c unfolding abs_le_iff by simp
  qed
  ultimately show ?thesis unfolding c_def [symmetric] abs_le_iff by simp
qed
section \<open>When refilling returns\<close>

text \<open>
  A whole frame of the data is in the file, so that a pass over it yields a sample. Where \<open>long\<close> has
  32 bits a data size of \<open>2 ^ 31\<close> or more is negative; every pass then starts at the beginning of the
  data and may take a whole chunk, whatever the size was.
\<close>

definition wf_has_frame :: "wav_file_source \<Rightarrow> bool" where
  "wf_has_frame w \<longleftrightarrow> 1 \<le> unat (wf_channels w) \<and>
     (wf_dataBytes w < 0 \<or> 2 * int (unat (wf_channels w)) \<le> wf_dataBytes w) \<and>
     nat (wf_dataStart w) + 2 * unat (wf_channels w) \<le> length (wf_content w)"

text \<open>An open source with a sound resampler: what every call keeps.\<close>

definition wf_good :: "wav_file_source \<Rightarrow> bool" where
  "wf_good w \<longleftrightarrow> wf_fp w \<noteq> None \<and> rs64_ok (wf_resampler w) \<and>
     (0 \<le> wf_consumed w \<or> wf_consumed w = wf_dataBytes w) \<and> - (2 ^ 31) \<le> wf_dataBytes w \<and>
     wf_dataBytes w < 2 ^ 32 \<and> nat (wf_dataStart w) \<le> wf_pos w \<and> wf_pendingPos w \<le> length (wf_pending w)"

lemma length_pcm_words [simp]: "length (pcm_words bs) = length bs div 2"
  by (induction bs rule: pcm_words.induct) simp_all

lemma length_downmix [simp]: "length (downmix rf ch n raw) = n"
  by (induction n arbitrary: raw) simp_all

definition wf_same :: "wav_file_source \<Rightarrow> wav_file_source \<Rightarrow> bool" where
  "wf_same v w \<longleftrightarrow> wf_content v = wf_content w \<and> wf_channels v = wf_channels w \<and> wf_dataStart v = wf_dataStart w \<and>
     wf_dataBytes v = wf_dataBytes w \<and> wf_loop v = wf_loop w \<and> wf_pendingPos v = wf_pendingPos w"

lemma wf_same_frame: "wf_same v w \<Longrightarrow> wf_has_frame v = wf_has_frame w"
  by (simp add: wf_same_def wf_has_frame_def)

lemma wf_fields [simp]:
  "wf_content (wf_seek p w) = wf_content w" "wf_content (wf_skip n w) = wf_content w"
  "wf_content (w\<lparr>wf_consumed := i\<rparr>) = wf_content w" "wf_pos (w\<lparr>wf_consumed := i\<rparr>) = wf_pos w"
  "wf_fp w \<noteq> None \<Longrightarrow> wf_pos (wf_seek p w) = p" "wf_fp w \<noteq> None \<Longrightarrow> wf_pos (wf_skip n w) = wf_pos w + n"
  by (cases "wf_fp w"; auto simp: wf_content_def wf_pos_def wf_seek_def wf_skip_def)+

text \<open>A source that does not loop and has such a size delivers nothing.\<close>

lemma wf_negative_silent:
  assumes "wf_fp w \<noteq> None" and "wf_dataBytes w < 0" and "wf_consumed w = 0" and "\<not> wf_loop w"
    and "wf_pending w = []" and "wf_pendingPos w = 0"
  shows "wf_read rf rd out w = Some (silence (length out), if out = [] then Src_Ok else Src_Underrun, w)"
proof -
  have "wf_refill rf rd (length out) w = Some (out = [], w)" using assms by (subst wf_refill.simps) auto
  then show ?thesis using assms by (simp add: wf_read_def)
qed

lemma wf_rewind_same: "wf_same (wf_rewind w) w" "wf_pending (wf_rewind w) = wf_pending w"
  "wf_resampler (wf_rewind w) = wf_resampler w"
  by (simp_all add: wf_rewind_def wf_same_def wf_seek_def wf_content_def split: option.split)

lemma wf_good_rewind: "wf_good w \<Longrightarrow> wf_good (wf_rewind w)"
  by (auto simp: wf_good_def wf_rewind_def wf_seek_def wf_pos_def split: option.splits)

text \<open>The number of samples of a block.\<close>

lemma length_wf_block:
  "length (wf_block w) = min (2 * wf_want w) (length (wf_content w) - wf_pos w) div 2"
  by (simp add: wf_block_def wf_get_def fl_get_def)

lemma wf_want_left:
  assumes "wf_good w" and "wf_consumed w \<le> wf_dataBytes w"
  shows "wf_want w = min (kChunkFrames * unat (wf_channels w)) (nat (wf_dataBytes w - wf_consumed w) div 2)"
proof -
  have "0 \<le> wf_dataBytes w - wf_consumed w" "wf_dataBytes w - wf_consumed w < 2 ^ 64"
    using assms by (auto simp: wf_good_def)
  then show ?thesis by (simp add: wf_want_def)
qed

lemma wf_want_negative:
  assumes "wf_good w" and "wf_dataBytes w < 0" and "wf_consumed w = 0"
  shows "wf_want w = kChunkFrames * unat (wf_channels w)"
proof -
  have "(wf_dataBytes w + 2 ^ 64) mod 2 ^ 64 = wf_dataBytes w + 2 ^ 64"
    using assms(1,2) by (intro mod_pos_pos_trivial) (auto simp: wf_good_def)
  then have "(wf_dataBytes w - wf_consumed w) mod 2 ^ 64 = wf_dataBytes w + 2 ^ 64"
    using assms(3) by simp
  then have "2 ^ 62 \<le> nat ((wf_dataBytes w - wf_consumed w) mod 2 ^ 64) div 2"
    using assms(1) by (auto simp: wf_good_def nat_le_iff less_eq_div_iff_mult_less_eq le_nat_iff)
  moreover have "kChunkFrames * unat (wf_channels w) \<le> 2 ^ 62"
    using unat_bound [of "wf_channels w"] by (simp add: kChunkFrames_def)
  ultimately show ?thesis by (simp add: wf_want_def)
qed

lemma wf_block_le: "length (wf_block w) div n \<le> 2 ^ 31"
proof -
  have "length (wf_block w) div n \<le> length (wf_block w)" by (rule div_le_dividend)
  also have "\<dots> \<le> wf_want w" by (simp add: length_wf_block)
  also have "\<dots> \<le> kChunkFrames * unat (wf_channels w)" by (simp add: wf_want_def)
  also have "\<dots> \<le> 2 ^ 31" using unat_bound [of "wf_channels w"] by (simp add: kChunkFrames_def)
  finally show ?thesis .
qed

text \<open>A pass that can read: there are bytes left, or the size is negative and the pass is at the start.\<close>

definition wf_ready :: "wav_file_source \<Rightarrow> bool" where
  "wf_ready w \<longleftrightarrow> wf_consumed w < wf_dataBytes w \<or> wf_dataBytes w < 0 \<and> wf_consumed w = 0"

lemma wf_ready_consumed: "wf_good w \<Longrightarrow> wf_ready w \<Longrightarrow> 0 \<le> wf_consumed w"
  by (auto simp: wf_good_def wf_ready_def)

lemma wf_take_returns:
  assumes "wf_good w" and "wf_ready w"
  shows "\<exists>out rs w'. wf_take rf f64 w = Some w' \<and> wf_same w' w \<and> wf_good w' \<and>
    wf_consumed w' = wf_consumed w + 2 * int (length (wf_block w)) \<and>
    rs_process rf f64 (downmix rf (unat (wf_channels w)) (length (wf_block w) div unat (wf_channels w)) (wf_block w))
      (wf_pending w) (wf_resampler w) = Some (wf_pending w @ out, rs) \<and>
    wf_pending w' = wf_pending w @ out \<and> wf_resampler w' = rs"
proof -
  have "length (wf_block w) div unat (wf_channels w) \<le> 2 ^ 31" by (rule wf_block_le)
  then obtain out rs where p: "rs_process rf f64
      (downmix rf (unat (wf_channels w)) (length (wf_block w) div unat (wf_channels w)) (wf_block w))
      (wf_pending w) (wf_resampler w) = Some (wf_pending w @ out, rs)" "rs64_ok rs"
    using rs_process_f64 [of "wf_resampler w"] assms(1) unfolding wf_good_def by (metis length_downmix)
  obtain c q where fp: "wf_fp w = Some (c, q)" using assms(1) by (auto simp: wf_good_def)
  show ?thesis
    using p assms(1) wf_ready_consumed [OF assms] fp
    by (intro exI [of _ out] exI [of _ rs])
       (auto simp: wf_take_def Let_def wf_same_def wf_good_def wf_content_def wf_pos_def)
qed
text \<open>A block that yields no sample brings the position at least half a sample nearer.\<close>

lemma rs_process_nearer:
  assumes "rs64_ok rs" and "xs \<noteq> []" and "length xs \<le> 2 ^ 31" and "rs_process rf f64 xs out rs = Some (out, rs')"
  shows "rs_phase rs' \<le> rs_phase rs - 1 / 2"
proof -
  have np: "\<not> rs_passthrough rs" using assms(2,4) by (auto simp: rs_process_def)
  have r: "1 / 2 ^ 16 \<le> rs_ratio rs" "rs_ratio rs \<le> 2 ^ 18" "- 1 \<le> rs_phase rs" "rs_phase rs \<le> 2 ^ 19"
    using assms(1) by (auto simp: rs64_ok_def)
  obtain pos where lp: "rs_loop rf f64 (rs_ratio rs) (rs_primed rs) (rs_last rs) xs (rs_phase rs) out = Some (out, pos)"
      "rs_phase rs' = f64 (pos - real (length xs))"
    using assms(2,4) np by (auto simp: rs_process_def)
  have pos: "pos = rs_phase rs"
  proof (cases "\<lfloor>rs_phase rs\<rfloor> + 1 \<ge> int (length xs)")
    case True
    then show ?thesis using lp(1) by (subst (asm) rs_loop.simps) simp
  next
    case False
    let ?p = "f64 (rs_phase rs + rs_ratio rs)"
    have "- 1 \<le> ?p" using f64_advances(1) [of "rs_phase rs" "rs_ratio rs"] r by simp
    from rs_loop_f64 [OF assms(3) r(1,2) this, of rf "rs_primed rs" "rs_last rs"
        "out @ [rs_sample rf f64 (rs_primed rs) (rs_last rs) xs (rs_phase rs)]"]
    show ?thesis using lp(1) False by (subst (asm) rs_loop.simps) auto
  qed
  have n: "1 \<le> real (length xs)" "real (length xs) \<le> 2 ^ 31"
    using assms(2,3) by (simp_all add: Suc_le_eq of_nat_le_numeral_power_cancel_iff)
  have "\<bar>f64 (rs_phase rs - real (length xs)) - (rs_phase rs - real (length xs))\<bar> \<le> 1 / 2 ^ 22"
    by (rule f64_error) (use n r in \<open>simp add: abs_less_iff\<close>)
  then have "f64 (rs_phase rs - real (length xs)) - (rs_phase rs - real (length xs)) \<le> 1 / 2"
    unfolding abs_le_iff by simp
  then show ?thesis using n(1) by (simp add: lp(2) pos)
qed

lemma wf_rewound:
  assumes "wf_good w" and "wf_has_frame w \<or> wf_consumed w < wf_dataBytes w"
  shows "wf_ready (wf_rewind w)"
    and "wf_dataBytes w \<le> wf_consumed w \<Longrightarrow>
      1 \<le> length (wf_block (wf_rewind w)) div unat (wf_channels (wf_rewind w))"
proof -
  show "wf_ready (wf_rewind w)"
  proof -
    have "wf_has_frame w \<Longrightarrow> wf_dataBytes w < 0 \<or> 0 < wf_dataBytes w" unfolding wf_has_frame_def by linarith
    then show ?thesis using assms(2) by (auto simp: wf_rewind_def wf_seek_def wf_ready_def)
  qed
  assume e: "wf_dataBytes w \<le> wf_consumed w"
  then have f: "wf_has_frame w" using assms(2) by simp
  obtain s p where fp: "wf_fp w = Some (s, p)" using assms(1) by (auto simp: wf_good_def)
  have r: "wf_pos (wf_rewind w) = nat (wf_dataStart w)" "wf_consumed (wf_rewind w) = 0"
    using e fp by (simp_all add: wf_rewind_def wf_seek_def wf_pos_def)
  have s: "wf_content (wf_rewind w) = wf_content w" "wf_channels (wf_rewind w) = wf_channels w"
    "wf_dataBytes (wf_rewind w) = wf_dataBytes w"
    using wf_rewind_same(1) [of w] by (simp_all add: wf_same_def)
  define ch where "ch = unat (wf_channels w)"
  have h: "1 \<le> ch" "wf_dataBytes w < 0 \<or> 2 * int ch \<le> wf_dataBytes w"
      "nat (wf_dataStart w) + 2 * ch \<le> length (wf_content w)"
    using f by (simp_all add: wf_has_frame_def ch_def)
  have "ch \<le> wf_want (wf_rewind w)"
  proof (cases "wf_dataBytes w < 0")
    case True
    then show ?thesis
      using wf_want_negative [OF wf_good_rewind [OF assms(1)]] by (simp add: s r(2) ch_def [symmetric] kChunkFrames_def)
  next
    case False
    then show ?thesis
      using wf_want_left [OF wf_good_rewind [OF assms(1)]] h by (simp add: s r(2) ch_def [symmetric] kChunkFrames_def)
  qed
  then have "ch \<le> length (wf_block (wf_rewind w))"
    using h(3) unfolding length_wf_block s r(1) by simp
  then show "1 \<le> length (wf_block (wf_rewind w)) div unat (wf_channels (wf_rewind w))"
    using h(1) unfolding s ch_def [symmetric] by (simp add: div_greater_zero_iff Suc_le_eq)
qed

definition refill_order :: "nat \<Rightarrow> (wav_file_source \<times> wav_file_source) set" where
  "refill_order needed = measures
     [\<lambda>w. needed - (length (wf_pending w) - wf_pendingPos w),
      \<lambda>w. nat \<lceil>2 * (rs_phase (wf_resampler w) + 1)\<rceil>,
      \<lambda>w. nat (wf_dataBytes w - wf_consumed w)]"

lemma refill_order_wf: "wf (refill_order needed)"
  by (simp add: refill_order_def)

lemma nat_ceiling_less: "0 \<le> a \<Longrightarrow> a + 1 \<le> b \<Longrightarrow> nat \<lceil>a\<rceil> < nat \<lceil>b\<rceil>" for a b :: real
  by linarith

lemma wf_take_progress:
  assumes good: "wf_good w" and frame: "wf_has_frame w \<or> wf_consumed w < wf_dataBytes w"
    and less: "length (wf_pending w) - wf_pendingPos w < needed"
    and block: "wf_block (wf_rewind w) \<noteq> []" and tk: "wf_take rf f64 (wf_rewind w) = Some w2"
  shows "(w2, w) \<in> refill_order needed \<and> wf_good w2 \<and> wf_same w2 w \<and> (\<exists>out. wf_pending w2 = wf_pending w @ out)"
proof -
  let ?w = "wf_rewind w"
  let ?fr = "length (wf_block ?w) div unat (wf_channels ?w)"
  note wf_rewind_same(2,3) [simp]
  obtain out rs where t: "wf_same w2 ?w" "wf_good w2" "wf_consumed w2 = wf_consumed ?w + 2 * int (length (wf_block ?w))"
      "rs_process rf f64 (downmix rf (unat (wf_channels ?w)) ?fr (wf_block ?w)) (wf_pending w) (wf_resampler w) =
         Some (wf_pending w @ out, rs)"
      "wf_pending w2 = wf_pending w @ out" "wf_resampler w2 = rs"
    using wf_take_returns [OF wf_good_rewind [OF good] wf_rewound(1) [OF good frame], of rf] tk by auto
  have s: "wf_same w2 w" using t(1) wf_rewind_same(1) [of w] by (simp add: wf_same_def)
  have len: "?fr \<le> 2 ^ 31" by (rule wf_block_le)
  have pp: "wf_pendingPos w \<le> length (wf_pending w)" "wf_pendingPos w2 = wf_pendingPos w"
    using good s by (simp_all add: wf_good_def wf_same_def)
  consider "out \<noteq> []" | "out = []" "1 \<le> ?fr" | "out = []" "?fr = 0" by linarith
  then have "(w2, w) \<in> refill_order needed"
  proof cases
    case 1
    then have "0 < length out" by simp
    then have "needed - (length (wf_pending w2) - wf_pendingPos w2) < needed - (length (wf_pending w) - wf_pendingPos w)"
      using less pp unfolding t(5) length_append by linarith
    then show ?thesis unfolding refill_order_def in_measures by blast
  next
    case 2
    then have ne: "downmix rf (unat (wf_channels ?w)) ?fr (wf_block ?w) \<noteq> []"
      by (metis length_downmix list.size(3) not_one_le_zero)
    have ok: "rs64_ok (wf_resampler w)" using good by (simp add: wf_good_def)
    have "rs_phase rs \<le> rs_phase (wf_resampler w) - 1 / 2"
      using rs_process_nearer [OF ok ne] t(4) 2(1) len by simp
    moreover have "- 1 \<le> rs_phase rs" using t(2,6) by (simp add: wf_good_def rs64_ok_def)
    ultimately have "nat \<lceil>2 * (rs_phase rs + 1)\<rceil> < nat \<lceil>2 * (rs_phase (wf_resampler w) + 1)\<rceil>"
      by (intro nat_ceiling_less) simp_all
    then show ?thesis using 2(1) pp by (simp add: refill_order_def t(5,6))
  next
    case 3
    have c: "wf_consumed w < wf_dataBytes w" using wf_rewound(2) [OF good frame] 3(2) by force
    then have "wf_rewind w = w" by (simp add: wf_rewind_def)
    then have "wf_consumed w2 > wf_consumed w" using t(3) block by simp
    moreover have "rs = wf_resampler w" using t(4) 3 by (simp add: rs_process_def)
    ultimately show ?thesis using 3(1) pp s c by (simp add: refill_order_def t(5,6) wf_same_def)
  qed
  then show ?thesis using t(2,5) s by blast
qed
lemma wf_refill_returns:
  "wf_good w \<Longrightarrow> wf_has_frame w \<or> \<not> wf_loop w \<Longrightarrow>
   \<exists>ok w'. wf_refill rf f64 needed w = Some (ok, w') \<and> wf_good w' \<and> wf_same w' w \<and>
     (\<exists>out. wf_pending w' = wf_pending w @ out) \<and> (ok \<longleftrightarrow> needed \<le> length (wf_pending w') - wf_pendingPos w')"
proof (induction w rule: wf_induct_rule [OF refill_order_wf [of needed]])
  case (1 w)
  have same: "wf_same w w" by (simp add: wf_same_def)
  show ?case
  proof (cases "needed \<le> length (wf_pending w) - wf_pendingPos w")
    case True
    then show ?thesis using 1(2) same by (subst wf_refill.simps) auto
  next
    case less: False
    show ?thesis
    proof (cases "wf_consumed w \<ge> wf_dataBytes w \<and> \<not> wf_loop w")
      case True
      then show ?thesis using 1(2) same less by (subst wf_refill.simps) auto
    next
      case more: False
      then have frame: "wf_has_frame w \<or> wf_consumed w < wf_dataBytes w" using 1(3) by auto
      note rw = wf_good_rewind [OF 1(2)] wf_rewind_same [of w] wf_rewound [OF 1(2) frame]
      have u: "wf_refill rf f64 needed w = (let w1 = wf_rewind w in
          if wf_block w1 = [] then
            (if \<not> wf_loop w1 then Some (False, w1) else wf_refill rf f64 needed (w1\<lparr>wf_consumed := wf_dataBytes w1\<rparr>))
          else Option.bind (wf_take rf f64 w1) (\<lambda>w2. wf_refill rf f64 needed w2))"
        using less more by (subst wf_refill.simps) auto
      consider "wf_block (wf_rewind w) \<noteq> []" | "wf_block (wf_rewind w) = []" "\<not> wf_loop (wf_rewind w)"
        | "wf_block (wf_rewind w) = []" "wf_loop (wf_rewind w)" by blast
      then show ?thesis
      proof cases
        case block: 1
        obtain w2 where tk: "wf_take rf f64 (wf_rewind w) = Some w2"
          using wf_take_returns [OF rw(1) rw(5)] by blast
        from wf_take_progress [OF 1(2) frame _ block this, of needed] less
        have p: "(w2, w) \<in> refill_order needed" "wf_good w2" "wf_same w2 w" "\<exists>out. wf_pending w2 = wf_pending w @ out"
          by auto
        from 1(1) [OF p(1,2)] wf_same_frame [OF p(3)] p(3,4) 1(3) show ?thesis
          by (auto simp: u tk block wf_same_def)
      next
        case ended: 2
        then show ?thesis using u rw less by (auto simp: wf_same_def)
      next
        case 3
        have c: "wf_consumed w < wf_dataBytes w" using rw(6) 3(1) by force
        then have w: "wf_rewind w = w" by (simp add: wf_rewind_def)
        define v where "v = w\<lparr>wf_consumed := wf_dataBytes w\<rparr>"
        have v: "wf_good v" "wf_same v w" "wf_pending v = wf_pending w" "(v, w) \<in> refill_order needed"
          using 1(2) c by (auto simp: v_def wf_good_def wf_same_def refill_order_def)
        from 1(1) [OF v(4,1)] wf_same_frame [OF v(2)] v(2,3) 1(3) show ?thesis
          using 3 by (auto simp: u w v_def [symmetric] wf_same_def)
      qed
    qed
  qed
qed

text \<open>Without a whole frame, a looping refill goes round for ever.\<close>

lemma wf_block_short:
  assumes "wf_good w" and "\<not> wf_has_frame w" and "wf_ready w"
  shows "length (wf_block w) div unat (wf_channels w) = 0"
proof -
  define ch where "ch = unat (wf_channels w)"
  consider "ch = 0" | "1 \<le> ch" "0 \<le> wf_dataBytes w" "wf_dataBytes w < 2 * int ch"
    | "1 \<le> ch" "length (wf_content w) < nat (wf_dataStart w) + 2 * ch"
    using assms(2) unfolding wf_has_frame_def ch_def [symmetric] by linarith
  then show ?thesis
  proof cases
    case 2
    then have c: "wf_consumed w < wf_dataBytes w" using assms(3) by (auto simp: wf_ready_def)
    then have w: "wf_want w = min (1024 * ch) (nat (wf_dataBytes w - wf_consumed w) div 2)"
      using wf_want_left [OF assms(1)] by (simp add: kChunkFrames_def ch_def)
    have "nat (wf_dataBytes w - wf_consumed w) div 2 < ch"
      using 2 c wf_ready_consumed [OF assms(1,3)] by linarith
    then have "length (wf_block w) < ch" unfolding length_wf_block w by simp
    then show ?thesis by (simp add: ch_def)
  next
    case 3
    then have "length (wf_content w) - wf_pos w < 2 * ch" using assms(1) by (auto simp: wf_good_def)
    then have "length (wf_block w) < ch" unfolding length_wf_block by simp
    then show ?thesis by (simp add: ch_def)
  qed (simp add: ch_def)
qed

lemma wf_take_short:
  assumes "wf_good w" and "\<not> wf_has_frame w" and "wf_ready w" and "wf_take rf f64 w = Some w'"
  shows "wf_same w' w \<and> wf_good w' \<and> wf_pending w' = wf_pending w"
  using wf_take_returns [OF assms(1,3), of rf] assms(4) wf_block_short [OF assms(1-3)]
  by (auto simp: rs_process_def)

lemma wf_rewind_ready:
  assumes "wf_good w" and "wf_block (wf_rewind w) \<noteq> []"
  shows "wf_ready (wf_rewind w)"
proof (cases "wf_dataBytes w < 0")
  case True
  then show ?thesis using assms(1) by (auto simp: wf_rewind_def wf_good_def wf_seek_def wf_ready_def)
next
  case False
  then have le: "wf_consumed (wf_rewind w) \<le> wf_dataBytes (wf_rewind w)"
    by (auto simp: wf_rewind_def wf_seek_def)
  have "0 < wf_want (wf_rewind w)"
    using assms(2) length_wf_block [of "wf_rewind w"] by (cases "wf_want (wf_rewind w)") auto
  then show ?thesis using wf_want_left [OF wf_good_rewind [OF assms(1)] le] le unfolding wf_ready_def by force
qed

lemma wf_refill_stuck:
  assumes "wf_refill rf f64 needed w = Some r"
  shows "wf_good w \<and> wf_loop w \<and> \<not> wf_has_frame w \<longrightarrow> needed \<le> length (wf_pending w) - wf_pendingPos w"
proof -
  have "rd = f64 \<and> wf_good w \<and> wf_loop w \<and> \<not> wf_has_frame w \<longrightarrow> needed \<le> length (wf_pending w) - wf_pendingPos w"
    if "wf_refill rf rd needed w = Some r" for rd
    using that
  proof (rule wf_refill.raw_induct [where P = "\<lambda>rf rd needed w r. rd = f64 \<and> wf_good w \<and> wf_loop w \<and> \<not> wf_has_frame w
        \<longrightarrow> needed \<le> length (wf_pending w) - wf_pendingPos w", rotated], intro impI, elim conjE)
    fix refill rf rd needed w r
    assume IH: "\<And>rf rd needed w r. refill rf rd needed w = Some r \<Longrightarrow> rd = f64 \<and> wf_good w \<and> wf_loop w \<and> \<not> wf_has_frame w
        \<longrightarrow> needed \<le> length (wf_pending w) - wf_pendingPos w"
      and body: "(if length (wf_pending w) - wf_pendingPos w \<ge> needed then Some (True, w)
        else if wf_consumed w \<ge> wf_dataBytes w \<and> \<not> wf_loop w then Some (False, w)
        else let w1 = wf_rewind w in
          if wf_block w1 = [] then (if \<not> wf_loop w1 then Some (False, w1) else refill rf rd needed (w1\<lparr>wf_consumed := wf_dataBytes w1\<rparr>))
          else Option.bind (wf_take rf rd w1) (\<lambda>w2. refill rf rd needed w2)) = Some r"
      and w: "rd = f64" "wf_good w" "wf_loop w" "\<not> wf_has_frame w"
    note rw = wf_good_rewind [OF w(2)] wf_rewind_same [of w]
    have fr: "\<not> wf_has_frame (wf_rewind w)" "wf_loop (wf_rewind w)" "wf_pendingPos (wf_rewind w) = wf_pendingPos w"
      using wf_same_frame [OF rw(2)] rw(2) w by (simp_all add: wf_same_def)
    show "needed \<le> length (wf_pending w) - wf_pendingPos w"
    proof (rule ccontr)
      assume less: "\<not> ?thesis"
      show False
      proof (cases "wf_block (wf_rewind w) = []")
        case True
        define v where "v = (wf_rewind w)\<lparr>wf_consumed := wf_dataBytes (wf_rewind w)\<rparr>"
        have "wf_good v" "wf_same v (wf_rewind w)" "wf_pending v = wf_pending w"
          using rw by (auto simp: v_def wf_good_def wf_same_def)
        then show False
          using IH [of rf f64 needed v r] body w True less fr wf_same_frame [of v "wf_rewind w"]
          by (auto simp: Let_def v_def [symmetric] wf_same_def)
      next
        case False
        note c = wf_rewind_ready [OF w(2) False]
        obtain v where v: "wf_take rf f64 (wf_rewind w) = Some v" using wf_take_returns [OF rw(1) c] by blast
        show False
          using IH [of rf f64 needed v r] body w False less fr wf_take_short [OF rw(1) fr(1) c v] v
            wf_same_frame [of v "wf_rewind w"] rw(3)
          by (auto simp: Let_def wf_same_def)
      qed
    qed
  qed
  then show ?thesis using assms by blast
qed

text \<open>What scanning the chunks leaves of the source.\<close>

definition wf_scanned :: "wav_file_source \<Rightarrow> wav_file_source \<Rightarrow> bool" where
  "wf_scanned v w \<longleftrightarrow> wf_fp v \<noteq> None \<and> wf_content v = wf_content w \<and> wf_loop v = wf_loop w \<and>
     wf_pending v = wf_pending w \<and> wf_pendingPos v = wf_pendingPos w \<and>
     (wf_dataStart v = 0 \<or> wf_dataStart v = int (wf_pos v) \<and> - (2 ^ 31) \<le> wf_dataBytes v \<and> wf_dataBytes v < 2 ^ 32)"

definition wf_opened :: "wav_file_source \<Rightarrow> bool" where
  "wf_opened w \<longleftrightarrow> wf_fp w \<noteq> None \<and> wf_dataStart w = 0"

lemma wf_moves:
  "wf_opened (wf_seek p w) = wf_opened w" "wf_opened (wf_format fmt w) = wf_opened w"
  "wf_scanned v (wf_seek p w) = wf_scanned v w" "wf_scanned v (wf_format fmt w) = wf_scanned v w"
  "wf_opened w \<Longrightarrow> wf_scanned w w" "wf_scanned (wf_format fmt v) w = wf_scanned v w"
  "wf_opened v \<Longrightarrow> wf_scanned (wf_seek p v) w = wf_scanned v w"
  by (auto simp: wf_opened_def wf_scanned_def wf_format_def wf_seek_def wf_content_def wf_pos_def split: option.splits)

lemma wf_scanned_data:
  "wf_opened w \<Longrightarrow> wf_scanned (w\<lparr>wf_dataStart := int (wf_pos w), wf_dataBytes := long_of lw u\<rparr>) w"
  using uint_lt2p [of u] sint_lt [of u] sint_ge [of u] order_trans [OF _ uint_ge_0, of "- (2 ^ 31)" u]
  by (auto simp: wf_opened_def wf_scanned_def long_of_def wf_content_def wf_pos_def)

lemma wf_scan_scanned:
  assumes "wf_scan lw w = Some r" and "wf_opened w"
  shows "wf_scanned (snd r) w"
proof -
  have "wf_opened w \<longrightarrow> wf_scanned (snd r) w"
    using assms(1)
  proof (rule wf_scan.raw_induct [where P = "\<lambda>lw w r. wf_opened w \<longrightarrow> wf_scanned (snd r) w", rotated], goal_cases)
    case (1 scan lw w r)
    have IH: "wf_scanned (snd r) v" if "scan lw v = Some r" "wf_opened v" for v
      using 1(1) that by blast
    show ?case
      using 1(2) wf_scanned_data [of "wf_seek (wf_pos w + 8) w" lw "le_word (drop 4 (wf_get 8 w))"]
      by (auto simp: Let_def wf_moves wf_skip_def split: if_splits dest!: IH)
  qed
  with assms(2) show ?thesis by simp
qed

lemma wf_start_good:
  assumes "wf_start lw f64 (Some c) (wf_new i p loop) = Some (Some True, w)"
  shows "wf_good w \<and> wf_loop w = loop \<and> wf_content w = c \<and> wf_pending w = [] \<and> wf_pendingPos w = 0"
proof -
  define w1 where "w1 = wf_skip (length (wf_get 12 ((wf_new i p loop)\<lparr>wf_fp := Some (c, 0)\<rparr>)))
    ((wf_new i p loop)\<lparr>wf_fp := Some (c, 0)\<rparr>)"
  obtain v where v: "wf_scan lw w1 = Some (Scan_Done, v)" "wf_dataStart v \<noteq> 0"
      "w = v\<lparr>wf_resampler := rs_reset f64 (wf_rate v) (wf_resampler v), wf_consumed := 0\<rparr>"
    using assms(1)
    by (auto simp: wf_start_def Let_def w1_def split: if_splits option.splits scan_end.splits)
  have "wf_opened w1" by (simp add: w1_def wf_opened_def wf_new_def)
  then have "wf_scanned v w1" using wf_scan_scanned [OF v(1)] by simp
  moreover have "wf_content w1 = c" "wf_loop w1 = loop" "wf_pending w1 = []" "wf_pendingPos w1 = 0"
    by (simp_all add: w1_def wf_new_def wf_content_def)
  ultimately show ?thesis
    using v(2,3) rs64_ok_reset [of "wf_rate v" "wf_resampler v"]
    by (auto simp: wf_scanned_def wf_good_def wf_content_def wf_pos_def)
qed

lemma wf_read_returns:
  assumes "wf_good w" and "wf_has_frame w \<or> \<not> wf_loop w"
  shows "\<exists>xs r v. wf_read rf f64 out w = Some (xs, r, v) \<and> length xs = length out \<and>
    (wf_loop w \<longrightarrow> r = Src_Ok \<or> r = Src_Underrun) \<and> wf_good v \<and> wf_same (v\<lparr>wf_pendingPos := wf_pendingPos w\<rparr>) w"
proof -
  obtain ok u out' where u: "wf_refill rf f64 (length out) w = Some (ok, u)" "wf_good u" "wf_same u w"
    using wf_refill_returns [OF assms, of rf "length out"] by blast
  have "wf_fp w \<noteq> None" using assms(1) by (simp add: wf_good_def)
  then show ?thesis
    using u by (auto simp: wf_read_def Let_def wf_good_def wf_same_def wf_content_def wf_pos_def)
qed

lemma wf_same_pos: "wf_has_frame (w\<lparr>wf_pendingPos := p\<rparr>) = wf_has_frame w"
  by (simp add: wf_has_frame_def wf_content_def)

lemma wf_reads_returns:
  "wf_good w \<Longrightarrow> wf_has_frame w \<or> \<not> wf_loop w \<Longrightarrow>
   \<exists>ys v. wf_reads rf f64 bufs w = Some (ys, v) \<and> map (length \<circ> fst) ys = map length bufs"
proof (induction bufs arbitrary: w)
  case (Cons b bufs)
  obtain xs r v where v: "wf_read rf f64 b w = Some (xs, r, v)" "length xs = length b" "wf_good v"
      "wf_same (v\<lparr>wf_pendingPos := wf_pendingPos w\<rparr>) w"
    using wf_read_returns [OF Cons.prems, of rf b] by blast
  have "wf_has_frame v = wf_has_frame w" using wf_same_frame [OF v(4)] by (simp only: wf_same_pos)
  moreover have "wf_loop v = wf_loop w" using v(4) by (simp add: wf_same_def)
  ultimately show ?case using Cons.IH [of v] Cons.prems v by auto
qed simp

lemma wf_read_empty:
  assumes "wf_good w" and "wf_pending w = []"
  shows "wf_read rf f64 [] w = Some ([], Src_Ok, w)"
proof -
  have w: "wf_fp w \<noteq> None" "wf_pendingPos w = 0" using assms by (simp_all add: wf_good_def)
  have "wf_refill rf f64 0 w = Some (True, w)" by (subst wf_refill.simps) simp
  with w show ?thesis by (simp add: wf_read_def)
qed

lemma wf_read_length: "wf_read rf rd out w = Some (xs, r, v) \<Longrightarrow> length xs = length out"
  by (cases "wf_refill rf rd (length out) w") (auto simp: wf_read_def Let_def split: if_split_asm)

lemma wf_reads_length:
  "wf_reads rf rd bufs w = Some (ys, v) \<Longrightarrow> map (length \<circ> fst) ys = map length bufs"
proof (induction bufs arbitrary: w ys)
  case (Cons b bufs)
  then obtain xs r u zs where u: "wf_read rf rd b w = Some (xs, r, u)" "wf_reads rf rd bufs u = Some (zs, v)"
      "ys = (xs, r) # zs"
    by (cases "wf_read rf rd b w") auto
  then show ?case using Cons.IH [OF u(2)] wf_read_length [OF u(1)] by simp
qed simp

lemma wf_reads_stuck:
  "wf_good w \<Longrightarrow> wf_loop w \<Longrightarrow> \<not> wf_has_frame w \<Longrightarrow> wf_pending w = [] \<Longrightarrow>
   wf_reads rf f64 bufs w \<noteq> None \<longleftrightarrow> list_all (\<lambda>b. b = []) bufs"
proof (induction bufs)
  case (Cons b bufs)
  show ?case
  proof (cases "b = []")
    case True
    moreover have "wf_read rf f64 [] w = Some ([], Src_Ok, w)" by (rule wf_read_empty [OF Cons.prems(1,4)])
    ultimately show ?thesis using Cons.IH [OF Cons.prems] by (auto split: option.splits)
  next
    case False
    have "wf_fp w \<noteq> None" using Cons.prems(1) by (simp add: wf_good_def)
    moreover have "wf_refill rf f64 (length b) w = None"
    proof (cases "wf_refill rf f64 (length b) w")
      case (Some r)
      from wf_refill_stuck [OF this] Cons.prems False show ?thesis by simp
    qed
    ultimately have "wf_read rf f64 b w = None" by (simp add: wf_read_def)
    then show ?thesis using False by simp
  qed
qed simp

section \<open>The sinks of the router\<close>

text \<open>
  Both sinks keep what a sink needs whatever is written to them; the file's position stays inside
  the file.
\<close>

definition wk_ok :: "wav_file_sink \<Rightarrow> bool" where
  "wk_ok s \<longleftrightarrow> wk_pos s \<le> length (wk_disk s)"

lemma wk_put_ok: "wk_ok s \<Longrightarrow> wk_ok (snd (wk_put bs s))"
  by (auto simp: wk_put_def wk_ok_def fl_put_def Let_def min_def split: prod.split)

interpretation wav_sink: audio_sink "wk_write rf" wk_ok
  for rf :: "real \<Rightarrow> real"
proof
  fix s xs
  assume "wk_ok s"
  then have "wk_ok (snd (wk_put (pcm_bytes (map (wk_pcm rf) xs)) s))" by (rule wk_put_ok)
  then show "wk_ok (snd (wk_write rf xs s))"
    using \<open>wk_ok s\<close> by (auto simp: wk_write_def wk_ok_def Let_def split: prod.split)
qed

definition mk_ok :: "memory_sink \<Rightarrow> bool" where
  "mk_ok s \<longleftrightarrow> length (mk_samples s) \<le> kFrameSamples * mk_writes s"

interpretation mem_sink: audio_sink mk_write mk_ok
  by unfold_locales (auto simp: mk_write_def mk_ok_def Let_def)

section \<open>Properties\<close>


text \<open>
  C38: reading returns exactly where it can. After a successful \<open>start\<close> on any file whatever, of any
  rate, any number of channels and any stated data size, with a \<open>long\<close> of 32 or 64 bits, reads into
  buffers of any lengths return, each filling its buffer, exactly when the source does not loop,
  or one whole frame of the data is in the file, or no read asks for a sample. A looping source
  with less than a frame never returns from the first read that asks for one. A frame counts as
  inside the data when the stated size covers it, or when that size is \<open>2 ^ 31\<close> or more and \<open>long\<close> has
  32 bits: the size is then negative and each pass reads from the start of the data regardless.
\<close>

theorem wav_refill_returns:
  assumes "wf_start lw f64 (Some c) (wf_new i path loop) = Some (Some True, w)"
  shows "(\<exists>ys v. wf_reads rf f64 bufs w = Some (ys, v) \<and> map (length \<circ> fst) ys = map length bufs) \<longleftrightarrow>
    \<not> loop \<or> wf_has_frame w \<or> list_all (\<lambda>b. b = []) bufs"
proof (cases "\<not> loop \<or> wf_has_frame w")
  case True
  then show ?thesis using wf_reads_returns [of w rf bufs] wf_start_good [OF assms] by auto
next
  case False
  note g = wf_start_good [OF assms]
  have n: "wf_reads rf f64 bufs w \<noteq> None \<longleftrightarrow> list_all (\<lambda>b. b = []) bufs"
    using wf_reads_stuck [of w rf bufs] g False by auto
  show ?thesis
  proof (cases "list_all (\<lambda>b. b = []) bufs")
    case True
    have "map (length \<circ> fst) ys = map length bufs" if "wf_reads rf f64 bufs w = Some (ys, v)" for ys v
      using wf_reads_length [OF that] by simp
    with True n show ?thesis by auto
  qed (use n False in auto)
qed


theorem wav_refill_returns_witness:
  "(\<exists>w. wf_start 32 f64 (Some (wav_image [])) (wf_new [] [] True) = Some (Some True, w) \<and>
     \<not> (\<exists>ys v. wf_reads f32 f64 [[0]] w = Some (ys, v) \<and> map (length \<circ> fst) ys = [1])) \<and>
   (\<exists>w. wf_start 32 f64 (Some (wav_sized 0 0xFFFFFFFF [1, 2])) (wf_new [] [] True) = Some (Some True, w) \<and>
     wf_dataBytes w = - 1 \<and> (\<exists>ys v. wf_reads f32 f64 [[0], [0, 0]] w = Some (ys, v) \<and> map (length \<circ> fst) ys = [1, 2]))"
proof
  obtain w where w: "wf_start 32 f64 (Some (wav_image [])) (wf_new [] [] True) = Some (Some True, w)"
      "wf_channels w = 1" "wf_dataBytes w = 0"
    using wf_start_image [of "[]" 32 f64 "[]" "[]" True] by auto
  then have "\<not> wf_has_frame w" by (simp add: wf_has_frame_def)
  with w wav_refill_returns [OF w(1), of f32 "[[0]]"]
  show "\<exists>w. wf_start 32 f64 (Some (wav_image [])) (wf_new [] [] True) = Some (Some True, w) \<and>
     \<not> (\<exists>ys v. wf_reads f32 f64 [[0]] w = Some (ys, v) \<and> map (length \<circ> fst) ys = [1])" by auto
next
  have l: "long_of 32 0xFFFFFFFF = - 1" by (simp add: long_of_def)
  obtain w where w: "wf_start 32 f64 (Some (wav_sized 0 0xFFFFFFFF [1, 2])) (wf_new [] [] True) = Some (Some True, w)"
      "wf_channels w = 1" "wf_dataBytes w = - 1" "wf_dataStart w = 44"
      "wf_content w = wav_sized 0 0xFFFFFFFF [1, 2]"
    using wf_start_sized [of 32 f64 0 "0xFFFFFFFF" "[1, 2]" "[]" "[]" True] l by (auto simp: wf_content_def)
  then have "wf_has_frame w"
    by (simp add: wf_has_frame_def wav_sized_def fmt_bytes_fields ascii_def)
  with wav_refill_returns [OF w(1), of f32 "[[0], [0, 0]]"]
  have "\<exists>ys v. wf_reads f32 f64 [[0], [0, 0]] w = Some (ys, v) \<and> map (length \<circ> fst) ys = [1, 2]"
    by (simp add: numeral_2_eq_2)
  with w(1,3) show "\<exists>w. wf_start 32 f64 (Some (wav_sized 0 0xFFFFFFFF [1, 2])) (wf_new [] [] True) = Some (Some True, w) \<and>
     wf_dataBytes w = - 1 \<and> (\<exists>ys v. wf_reads f32 f64 [[0], [0, 0]] w = Some (ys, v) \<and> map (length \<circ> fst) ys = [1, 2])"
    by (intro exI [of _ w] conjI)
qed

end
