(* ===== verification/Capture.thy ===== *)
theory Capture
  imports Resampler
begin

text \<open>
  The phone's microphone capture, \<^verbatim>\<open>apps/phone-core/capture_aaudio.cpp\<close>,
  \<^verbatim>\<open>capture_coreaudio.cpp\<close> and \<^verbatim>\<open>capture_null.cpp\<close>. The results of the platform's calls are
  arguments; a callback returns the frames it hands to the handler, in order. The three share the
  contract of the locale \<open>framer\<close>: whatever the platform's block size, the handler is called with
  canonical frames only and nothing is lost between them. The property says that what the handler
  gets is the resampling of everything the device delivered, cut into frames.
\<close>

section \<open>Cutting into frames\<close>

text \<open>\<open>while (pending_.size() >= kFrameSamples)\<close>: the frames, and what stays pending.\<close>

function reframe :: "samples \<Rightarrow> samples list \<times> samples" where
  "reframe p =
     (if length p \<ge> kFrameSamples
      then (case reframe (drop kFrameSamples p) of (fs, r) \<Rightarrow> (take kFrameSamples p # fs, r))
      else ([], p))"
  by auto
termination by (relation "measure length") auto

declare reframe.simps [simp del]

lemma reframe_spec:
  "concat (fst (reframe p)) @ snd (reframe p) = p \<and> list_all (\<lambda>f. length f = kFrameSamples) (fst (reframe p)) \<and>
   length (snd (reframe p)) < kFrameSamples"
proof (induction p rule: reframe.induct)
  case (1 p)
  show ?case
  proof (cases "length p \<ge> kFrameSamples")
    case True
    from 1 [OF True] show ?thesis
      using True by (subst (1 2 3 4) reframe.simps) (auto split: prod.split)
  next
    case False
    then show ?thesis by (subst (1 2 3 4) reframe.simps) auto
  qed
qed

text \<open>
  The contract of a capture callback: what was pending and what the callback makes of its block is
  what it hands on, in whole frames, and what it leaves pending.
\<close>

locale framer =
  fixes feed :: "'i \<Rightarrow> 's \<Rightarrow> (samples list \<times> 's) option"
    and pend :: "'s \<Rightarrow> samples"
    and made :: "'i \<Rightarrow> 's \<Rightarrow> samples"
    and fr_ok :: "'s \<Rightarrow> bool"
  assumes feed_law: "fr_ok s \<Longrightarrow> feed i s = Some (fs, s') \<Longrightarrow>
      concat fs @ pend s' = pend s @ made i s \<and> list_all (\<lambda>f. length f = kFrameSamples) fs \<and> fr_ok s'"
    and pend_bound: "fr_ok s \<Longrightarrow> length (pend s) < kFrameSamples"
begin

fun feeds :: "'i list \<Rightarrow> 's \<Rightarrow> (samples list \<times> 's) option" where
  "feeds [] s = Some ([], s)"
| "feeds (i # is) s =
     (case feed i s of
        None \<Rightarrow> None
      | Some (fs, s1) \<Rightarrow> map_option (\<lambda>(gs, s2). (fs @ gs, s2)) (feeds is s1))"

fun mades :: "'i list \<Rightarrow> 's \<Rightarrow> samples" where
  "mades [] s = []"
| "mades (i # is) s = made i s @ (case feed i s of None \<Rightarrow> [] | Some (fs, s1) \<Rightarrow> mades is s1)"

lemma feeds_frames:
  "fr_ok s \<Longrightarrow> feeds is s = Some (fs, s') \<Longrightarrow>
   concat fs @ pend s' = pend s @ mades is s \<and> list_all (\<lambda>f. length f = kFrameSamples) fs \<and> fr_ok s'"
proof (induction "is" arbitrary: s fs)
  case (Cons i "is")
  then obtain gs s1 hs where f: "feed i s = Some (gs, s1)" "feeds is s1 = Some (hs, s')" "fs = gs @ hs"
    by (auto split: option.splits)
  note law = feed_law [OF Cons.prems(1) f(1)]
  with Cons.IH [of s1 hs] f show ?case by (simp add: append_assoc [symmetric] del: append_assoc) simp
qed simp

end

section \<open>AAudio\<close>

record aaudio_capture =
  aa_running :: bool
  aa_stream :: bool
  aa_deviceRate :: int
  aa_deviceChannels :: int
  aa_resampler :: linear_resampler
  aa_mono :: samples
  aa_pending :: samples
  aa_frame :: samples

definition aa_new :: aaudio_capture where
  "aa_new = \<lparr>aa_running = False, aa_stream = False, aa_deviceRate = int kSampleRate, aa_deviceChannels = 1,
     aa_resampler = rs_init, aa_mono = [], aa_pending = [], aa_frame = []\<rparr>"

text \<open>
  What the library answers when a stream is opened: whether there is a builder and a stream, the
  rate and channel count of the stream, and whether it starts.
\<close>

record aaudio_answer =
  aw_builder :: bool
  aw_opened :: bool
  aw_rate :: int
  aw_channels :: int
  aw_started :: bool

definition aa_start :: "(real \<Rightarrow> real) \<Rightarrow> aaudio_answer \<Rightarrow> aaudio_capture \<Rightarrow> bool \<times> aaudio_capture" where
  "aa_start rd a s =
     (if \<not> aw_builder a then (False, s)
      else if \<not> aw_opened a then (False, s\<lparr>aa_stream := False\<rparr>)
      else
        let s1 = s\<lparr>aa_stream := True, aa_deviceRate := aw_rate a, aa_deviceChannels := aw_channels a,
                   aa_resampler := rs_reset rd (of_int (aw_rate a)) (aa_resampler s), aa_pending := [],
                   aa_frame := silence kFrameSamples\<rparr>
        in if \<not> aw_started a then (False, s1\<lparr>aa_stream := False\<rparr>)
           else (True, s1\<lparr>aa_running := True\<rparr>))"

definition aa_stop :: "aaudio_capture \<Rightarrow> aaudio_capture" where
  "aa_stop s = s\<lparr>aa_running := False, aa_stream := False\<rparr>"

definition aa_onError :: "aaudio_capture \<Rightarrow> aaudio_capture" where
  "aa_onError s = s\<lparr>aa_running := False\<rparr>"

text \<open>The mono block. A stream has at least one channel; its block holds every frame of them.\<close>

definition aa_downmix :: "(real \<Rightarrow> real) \<Rightarrow> nat \<Rightarrow> nat \<Rightarrow> samples \<Rightarrow> samples" where
  "aa_downmix rf ch n xs =
     (if ch = 1 then take n xs
      else map (\<lambda>f. rf (fold (\<lambda>c acc. rf (acc + xs ! (f * ch + c))) [0..<ch] 0 / rf (real ch))) [0..<n])"

definition aa_onData ::
  "(real \<Rightarrow> real) \<Rightarrow> (real \<Rightarrow> real) \<Rightarrow> samples option \<Rightarrow> int \<Rightarrow> aaudio_capture
   \<Rightarrow> (samples list \<times> aaudio_capture) option" where
  "aa_onData rf rd input numFrames s =
     (case input of
        None \<Rightarrow> Some ([], s)
      | Some xs \<Rightarrow>
          if \<not> aa_running s \<or> numFrames \<le> 0 then Some ([], s)
          else
            let m = aa_downmix rf (nat (aa_deviceChannels s)) (nat numFrames) xs
            in case rs_process rf rd m (aa_pending s) (aa_resampler s) of
                 None \<Rightarrow> None
               | Some (p, rs) \<Rightarrow>
                   let (fs, rest) = reframe p
                   in Some (fs, s\<lparr>aa_mono := m, aa_resampler := rs, aa_pending := rest,
                                 aa_frame := (if fs = [] then aa_frame s else List.last fs)\<rparr>))"

text \<open>The mono block a callback contributes.\<close>

definition aa_block :: "(real \<Rightarrow> real) \<Rightarrow> nat \<Rightarrow> samples option \<times> int \<Rightarrow> samples" where
  "aa_block rf ch c = (case c of (None, n) \<Rightarrow> [] | (Some xs, n) \<Rightarrow> if n \<le> 0 then [] else aa_downmix rf ch (nat n) xs)"

section \<open>CoreAudio\<close>

record core_capture =
  cc_running :: bool
  cc_unit :: bool
  cc_pending :: samples
  cc_frame :: samples

definition cc_new :: core_capture where
  "cc_new = \<lparr>cc_running = False, cc_unit = False, cc_pending = [], cc_frame = []\<rparr>"

definition cc_stop :: "core_capture \<Rightarrow> core_capture" where
  "cc_stop s = s\<lparr>cc_running := False, cc_unit := False\<rparr>"

text \<open>\<open>a_*\<close>: the component is instantiated, input is enabled, the format is taken, the unit starts.\<close>

definition cc_start :: "bool \<Rightarrow> bool \<Rightarrow> bool \<Rightarrow> bool \<Rightarrow> core_capture \<Rightarrow> bool \<times> core_capture" where
  "cc_start a_unit a_enable a_format a_started s =
     (if \<not> a_unit then (False, s)
      else
        let s1 = s\<lparr>cc_unit := True\<rparr>
        in if \<not> a_enable \<or> \<not> a_format \<or> \<not> a_started then (False, cc_stop s1)
           else (True, s1\<lparr>cc_pending := [], cc_frame := silence kFrameSamples, cc_running := True\<rparr>))"

text \<open>\<open>block\<close> is what \<open>AudioUnitRender\<close> leaves in the buffer of \<open>numFrames\<close> samples, when it succeeds.\<close>

definition cc_render :: "samples option \<Rightarrow> core_capture \<Rightarrow> samples list \<times> core_capture" where
  "cc_render block s =
     (case block of
        None \<Rightarrow> ([], s)
      | Some xs \<Rightarrow>
          if \<not> cc_running s then ([], s)
          else
            let (fs, rest) = reframe (cc_pending s @ xs)
            in (fs, s\<lparr>cc_pending := rest, cc_frame := (if fs = [] then cc_frame s else List.last fs)\<rparr>))"

section \<open>The tone\<close>

record tone_capture =
  tc_running :: bool
  tc_thread :: bool

definition tc_new :: tone_capture where
  "tc_new = \<lparr>tc_running = False, tc_thread = False\<rparr>"

text \<open>
  Assigning to a thread that is still to be joined ends the program: \<open>None\<close>.
\<close>

definition tc_start :: "tone_capture \<Rightarrow> (bool \<times> tone_capture) option" where
  "tc_start s = (if tc_thread s then None else Some (True, s\<lparr>tc_running := True, tc_thread := True\<rparr>))"

definition tc_stop :: "tone_capture \<Rightarrow> tone_capture" where
  "tc_stop s = (if tc_running s then s\<lparr>tc_running := False, tc_thread := False\<rparr> else s)"

text \<open>The constant of the source, and the step of the phase.\<close>

definition tc_inc :: "(real \<Rightarrow> real) \<Rightarrow> real" where
  "tc_inc rd = rd (rd (rd (2 * rd (314159265358979 / 10 ^ 14)) * 1093) / real kSampleRate)"

fun tc_fill :: "(real \<Rightarrow> real) \<Rightarrow> (real \<Rightarrow> real) \<Rightarrow> nat \<Rightarrow> real \<Rightarrow> samples \<times> real" where
  "tc_fill rf rd 0 phase = ([], phase)"
| "tc_fill rf rd (Suc n) phase =
     (case tc_fill rf rd n (rd (phase + tc_inc rd)) of
        (xs, q) \<Rightarrow> (rf (rf (4 / 10) * rf (rd (sin phase))) # xs, q))"

text \<open>One pass of the thread's loop: the frame for the handler and the phase after it.\<close>

definition tc_pass :: "(real \<Rightarrow> real) \<Rightarrow> (real \<Rightarrow> real) \<Rightarrow> real \<Rightarrow> samples \<times> real" where
  "tc_pass rf rd phase = tc_fill rf rd kFrameSamples phase"

section \<open>The captures keep the contract\<close>

lemma reframe_append:
  "reframe (p @ xs) = (fst (reframe p) @ fst (reframe (snd (reframe p) @ xs)), snd (reframe (snd (reframe p) @ xs)))"
proof (induction p rule: reframe.induct)
  case (1 p)
  show ?case
  proof (cases "length p \<ge> kFrameSamples")
    case True
    from 1 [OF True] show ?thesis
      using True reframe.simps [of p] reframe.simps [of "p @ xs"] by (simp split: prod.splits)
  next
    case False
    then show ?thesis using reframe.simps [of p] by simp
  qed
qed

text \<open>The resampler only appends, whatever its output already holds.\<close>

lemma rs_loop_shift:
  assumes "rs_loop rf rd ratio pr lst xs pos out = Some r"
  shows "\<forall>a. rs_loop rf rd ratio pr lst xs pos (a @ out) = Some (a @ fst r, snd r)"
proof (rule rs_loop.raw_induct [where P = "\<lambda>rf rd ratio pr lst xs pos out r.
    \<forall>a. rs_loop rf rd ratio pr lst xs pos (a @ out) = Some (a @ fst r, snd r)", OF _ assms], goal_cases)
  case (1 lp rf rd ratio pr lst xs pos out r)
  then show ?case
    by (subst rs_loop.simps) (auto split: if_splits)
qed

lemma rs_loop_unshift:
  assumes "rs_loop rf rd ratio pr lst xs pos (a @ out) = Some r"
  shows "\<exists>r'. rs_loop rf rd ratio pr lst xs pos out = Some r'"
proof -
  have "\<forall>o'. \<exists>r'. rs_loop rf rd ratio pr lst xs pos o' = Some r'"
  proof (rule rs_loop.raw_induct [where P = "\<lambda>rf rd ratio pr lst xs pos out r.
      \<forall>o'. \<exists>r'. rs_loop rf rd ratio pr lst xs pos o' = Some r'", OF _ assms], goal_cases)
    case (1 lp rf rd ratio pr lst xs pos out r)
    then show ?case
      by (subst rs_loop.simps) (auto split: if_splits)
  qed
  then show ?thesis by blast
qed

lemma rs_loop_prefix:
  "rs_loop rf rd ratio pr lst xs pos (a @ out) =
   map_option (\<lambda>(o', q). (a @ o', q)) (rs_loop rf rd ratio pr lst xs pos out)"
proof (cases "rs_loop rf rd ratio pr lst xs pos out")
  case None
  then show ?thesis using rs_loop_unshift [of rf rd ratio pr lst xs pos a out] by (cases "rs_loop rf rd ratio pr lst xs pos (a @ out)") auto
next
  case (Some r)
  then show ?thesis using rs_loop_shift [OF Some] by (cases r) simp
qed

lemma rs_process_prefix:
  "rs_process rf rd xs (a @ out) rs = map_option (\<lambda>(o', r). (a @ o', r)) (rs_process rf rd xs out rs)"
  by (cases "rs_loop rf rd (rs_ratio rs) (rs_primed rs) (rs_last rs) xs (rs_phase rs) out")
     (auto simp: rs_process_def rs_loop_prefix)

lemma rs_feed_prefix:
  "rs_feed rf rd bs (a @ out) rs = map_option (\<lambda>(o', r). (a @ o', r)) (rs_feed rf rd bs out rs)"
proof (induction bs arbitrary: out rs)
  case (Cons b bs)
  then show ?case
    by (cases "rs_process rf rd b out rs") (auto simp: rs_process_prefix)
qed simp

lemma rs_process_made:
  assumes "rs_process rf rd xs out rs = Some (out', rs')"
  shows "out' = out @ fst (the (rs_process rf rd xs [] rs))"
  using assms rs_process_prefix [of rf rd xs out "[]" rs] by (cases "rs_process rf rd xs [] rs") auto
text \<open>What a callback makes of its block.\<close>

definition aa_made :: "(real \<Rightarrow> real) \<Rightarrow> (real \<Rightarrow> real) \<Rightarrow> samples option \<times> int \<Rightarrow> aaudio_capture \<Rightarrow> samples" where
  "aa_made rf rd c s =
     (if \<not> aa_running s then []
      else fst (the (rs_process rf rd (aa_block rf (nat (aa_deviceChannels s)) c) [] (aa_resampler s))))"

definition aa_ok :: "aaudio_capture \<Rightarrow> bool" where
  "aa_ok s \<longleftrightarrow> length (aa_pending s) < kFrameSamples"

lemma aa_onData_cases:
  "aa_ok s \<Longrightarrow> aa_onData rf rd (fst c) (snd c) s =
     (if \<not> aa_running s \<or> fst c = None \<or> snd c \<le> 0 then Some ([], s)
      else map_option (\<lambda>(p, rs). (fst (reframe p),
          s\<lparr>aa_mono := aa_block rf (nat (aa_deviceChannels s)) c, aa_resampler := rs, aa_pending := snd (reframe p),
            aa_frame := (if fst (reframe p) = [] then aa_frame s else List.last (fst (reframe p)))\<rparr>))
        (rs_process rf rd (aa_block rf (nat (aa_deviceChannels s)) c) (aa_pending s) (aa_resampler s)))"
  by (cases c; cases "fst c")
     (auto simp: aa_onData_def aa_block_def Let_def split: option.splits prod.splits)

lemma aa_block_none: "fst c = None \<or> snd c \<le> 0 \<Longrightarrow> aa_block rf ch c = []"
  by (cases c; cases "fst c") (auto simp: aa_block_def)

lemma aa_onData_law:
  assumes "aa_ok s" and "aa_onData rf rd (fst c) (snd c) s = Some (fs, s')"
  shows "concat fs @ aa_pending s' = aa_pending s @ aa_made rf rd c s \<and>
    list_all (\<lambda>f. length f = kFrameSamples) fs \<and> aa_ok s'"
proof (cases "\<not> aa_running s \<or> fst c = None \<or> snd c \<le> 0")
  case True
  have "aa_made rf rd c s = []"
    using True aa_block_none [of c rf] by (auto simp: aa_made_def rs_process_def)
  then show ?thesis using assms aa_onData_cases [OF assms(1), of rf rd c] True by auto
next
  case False
  then obtain p rs where p: "rs_process rf rd (aa_block rf (nat (aa_deviceChannels s)) c) (aa_pending s) (aa_resampler s) = Some (p, rs)"
      "fs = fst (reframe p)" "aa_pending s' = snd (reframe p)"
    using assms aa_onData_cases [OF assms(1), of rf rd c] by (auto simp: Let_def)
  have "p = aa_pending s @ aa_made rf rd c s"
    using rs_process_made [OF p(1)] False by (simp add: aa_made_def)
  then show ?thesis using reframe_spec [of p] p(2,3) by (simp add: aa_ok_def)
qed

interpretation aa: framer "\<lambda>c. aa_onData rf rd (fst c) (snd c)" aa_pending "aa_made rf rd" aa_ok
  for rf rd :: "real \<Rightarrow> real"
  by unfold_locales (use aa_onData_law in blast, simp add: aa_ok_def)

interpretation cc: framer "\<lambda>b s. Some (cc_render b s)" cc_pending
    "\<lambda>b s. if cc_running s then case_option [] id b else []" "\<lambda>s. length (cc_pending s) < kFrameSamples"
proof
  fix s i fs s'
  assume "length (cc_pending s) < kFrameSamples" "Some (cc_render i s) = Some (fs, s')"
  then show "concat fs @ cc_pending s' = cc_pending s @ (if cc_running s then case_option [] id i else []) \<and>
      list_all (\<lambda>f. length f = kFrameSamples) fs \<and> length (cc_pending s') < kFrameSamples"
    using reframe_spec [of "cc_pending s @ the i"]
    by (cases i) (auto simp: cc_render_def Let_def split: prod.splits if_splits)
qed simp

lemma length_tc_fill: "length (fst (tc_fill rf rd n phase)) = n"
  by (induction n arbitrary: phase) (simp_all split: prod.split, metis fst_conv)

interpretation tc: framer "\<lambda>_ phase. map_option (\<lambda>(xs, q). ([xs], q)) (Some (tc_pass rf rd phase))" "\<lambda>_. []"
    "\<lambda>_ phase. fst (tc_pass rf rd phase)" "\<lambda>_. True"
  for rf rd :: "real \<Rightarrow> real"
proof
  fix i fs and s s' :: real
  assume "map_option (\<lambda>(xs, q). ([xs], q)) (Some (tc_pass rf rd s)) = Some (fs, s')"
  then show "concat fs @ [] = [] @ fst (tc_pass rf rd s) \<and> list_all (\<lambda>f. length f = kFrameSamples) fs \<and> True"
    using length_tc_fill [of rf rd kFrameSamples s] by (auto simp: tc_pass_def split: prod.splits)
qed simp

section \<open>Properties\<close>

text \<open>A running stream and the callbacks it gets.\<close>

fun aa_calls ::
  "(real \<Rightarrow> real) \<Rightarrow> (real \<Rightarrow> real) \<Rightarrow> (samples option \<times> int) list \<Rightarrow> aaudio_capture \<Rightarrow> (samples list \<times> aaudio_capture) option" where
  "aa_calls rf rd [] s = Some ([], s)"
| "aa_calls rf rd (c # cs) s =
     (case aa_onData rf rd (fst c) (snd c) s of
        None \<Rightarrow> None
      | Some (fs, s1) \<Rightarrow> map_option (\<lambda>(gs, s2). (fs @ gs, s2)) (aa_calls rf rd cs s1))"

lemma aa_calls_feeds: "aa_calls rf rd cs s = aa.feeds rf rd cs s"
  by (induction cs arbitrary: s) (auto split: option.splits)

lemma aa_calls_resampled:
  "aa_ok s \<Longrightarrow> aa_running s \<Longrightarrow>
   rs_feed rf rd (map (aa_block rf (nat (aa_deviceChannels s))) cs) (aa_pending s) (aa_resampler s) =
     map_option (\<lambda>(fs, s'). (concat fs @ aa_pending s', aa_resampler s')) (aa_calls rf rd cs s)"
proof (induction cs arbitrary: s)
  case (Cons c cs)
  show ?case
  proof (cases "fst c = None \<or> snd c \<le> 0")
    case True
    then show ?thesis
      using Cons aa_onData_cases [OF Cons.prems(1), of rf rd c] aa_block_none [OF True]
      by (simp add: rs_process_def option.map_comp comp_def split_def)
  next
    case False
    show ?thesis
    proof (cases "rs_process rf rd (aa_block rf (nat (aa_deviceChannels s)) c) (aa_pending s) (aa_resampler s)")
      case None
      then show ?thesis using False Cons.prems aa_onData_cases [OF Cons.prems(1), of rf rd c] by auto
    next
      case (Some r)
      obtain p rs where r: "r = (p, rs)" by (metis prod.exhaust)
      define t where "t = s\<lparr>aa_mono := aa_block rf (nat (aa_deviceChannels s)) c, aa_resampler := rs,
        aa_pending := snd (reframe p), aa_frame := (if fst (reframe p) = [] then aa_frame s else List.last (fst (reframe p)))\<rparr>"
      have d: "aa_onData rf rd (fst c) (snd c) s = Some (fst (reframe p), t)"
        using False Some r Cons.prems aa_onData_cases [OF Cons.prems(1), of rf rd c] by (auto simp: t_def)
      have t: "aa_ok t" "aa_running t" "aa_deviceChannels t = aa_deviceChannels s" "aa_pending t = snd (reframe p)" "aa_resampler t = rs"
        using reframe_spec [of p] Cons.prems by (simp_all add: t_def aa_ok_def)
      have split: "p = concat (fst (reframe p)) @ aa_pending t" using reframe_spec [of p] t(4) by simp
      have "rs_feed rf rd (map (aa_block rf (nat (aa_deviceChannels s))) cs) p rs =
          map_option (\<lambda>(o', r). (concat (fst (reframe p)) @ o', r))
            (rs_feed rf rd (map (aa_block rf (nat (aa_deviceChannels s))) cs) (aa_pending t) rs)"
        by (subst split) (rule rs_feed_prefix)
      then show ?thesis
        using Cons.IH [OF t(1,2)] d Some r t by (simp add: option.map_comp comp_def split_def)
    qed
  qed
qed simp
lemma reframe_unique:
  "list_all (\<lambda>f. length f = kFrameSamples) fs \<Longrightarrow> length r < kFrameSamples \<Longrightarrow> reframe (concat fs @ r) = (fs, r)"
proof (induction fs)
  case Nil
  then show ?case by (subst reframe.simps) simp
next
  case (Cons f fs)
  then show ?case by (subst reframe.simps) simp
qed

lemma aa_block_length: "snd c \<le> 2 ^ 31 \<Longrightarrow> length (aa_block rf ch c) \<le> 2 ^ 31"
  by (cases c; cases "fst c") (auto simp: aa_block_def aa_downmix_def nat_le_iff min_le_iff_disj)

text \<open>
  C40: the handler gets what the device delivered, resampled and cut into canonical frames. After a
  successful start at any rate and channel count, every sequence of callbacks of any sizes returns;
  the frames handed on are exactly those of the resampling of all the blocks, cut once into frames of
  960 samples, and the rest of it is pending.
\<close>

theorem capture_reframes:
  assumes "aa_start f64 a s = (True, s0)" and "list_all (\<lambda>c. snd c \<le> 2 ^ 31) calls"
  shows "\<exists>fs s' out. aa_calls rf f64 calls s0 = Some (fs, s') \<and>
    rs_feed rf f64 (map (aa_block rf (nat (aa_deviceChannels s0))) calls) []
      (rs_reset f64 (of_int (aw_rate a)) (aa_resampler s)) = Some (out, aa_resampler s') \<and>
    reframe out = (fs, aa_pending s') \<and> list_all (\<lambda>f. length f = 960) fs \<and> length (aa_pending s') < 960"
proof -
  have s0: "aa_ok s0" "aa_running s0" "aa_pending s0 = []"
      "aa_resampler s0 = rs_reset f64 (of_int (aw_rate a)) (aa_resampler s)"
    using assms(1) by (auto simp: aa_start_def aa_ok_def Let_def split: if_splits)
  let ?bs = "map (aa_block rf (nat (aa_deviceChannels s0))) calls"
  have "\<forall>b\<in>set ?bs. length b \<le> 2 ^ 31"
    using assms(2) aa_block_length by (auto simp: list_all_iff)
  then obtain out rs where out: "rs_feed rf f64 ?bs [] (aa_resampler s0) = Some (out, rs)"
    using rs_feed_f64 [of "aa_resampler s0" ?bs rf "[]"] rs64_ok_reset by (auto simp: s0(4))
  then obtain fs s' where c: "aa_calls rf f64 calls s0 = Some (fs, s')"
      "out = concat fs @ aa_pending s'" "rs = aa_resampler s'"
    using aa_calls_resampled [OF s0(1,2), of rf f64 calls]
    by (cases "aa_calls rf f64 calls s0") (auto simp: s0(3))
  have f: "list_all (\<lambda>f. length f = kFrameSamples) fs" "length (aa_pending s') < kFrameSamples"
    using aa.feeds_frames [OF s0(1), of rf f64 calls] c(1) by (auto simp: aa_calls_feeds aa_ok_def)
  show ?thesis
    using c(1) out c(2,3) reframe_unique [OF f] f by (auto simp: s0(4))
qed

theorem capture_reframes_witness:
  "\<exists>fs s' out. aa_calls f32 f64 [(Some [1, 1 / 2, 0, 1], 2), (None, 5), (Some [0, 0], 1)]
       (snd (aa_start f64 \<lparr>aw_builder = True, aw_opened = True, aw_rate = 44100, aw_channels = 2, aw_started = True\<rparr> aa_new)) =
       Some (fs, s') \<and>
     rs_feed f32 f64 [aa_block f32 2 (Some [1, 1 / 2, 0, 1], 2), [], aa_block f32 2 (Some [0, 0], 1)] []
       (rs_reset f64 44100 rs_init) = Some (out, aa_resampler s') \<and>
     reframe out = (fs, aa_pending s') \<and> list_all (\<lambda>f. length f = 960) fs \<and> length (aa_pending s') < 960"
proof -
  let ?a = "\<lparr>aw_builder = True, aw_opened = True, aw_rate = 44100, aw_channels = 2, aw_started = True\<rparr>"
  have st: "aa_start f64 ?a aa_new = (True, snd (aa_start f64 ?a aa_new))"
    "nat (aa_deviceChannels (snd (aa_start f64 ?a aa_new))) = 2" "aa_resampler aa_new = rs_init"
    by (simp_all add: aa_start_def aa_new_def Let_def)
  show ?thesis
    using capture_reframes [OF st(1), of "[(Some [1, 1 / 2, 0, 1], 2), (None, 5), (Some [0, 0], 1)]" f32]
    unfolding st(2,3) by (simp add: aa_block_none)
qed

end
