(* ===== verification/DeviceAudio.thy ===== *)
theory DeviceAudio
  imports RingBuffer Resampler Crossfade DeviceRegistry
begin

text \<open>
  The platform ends of the audio path: the format conversions, the capture source and the render sink
  of \<^verbatim>\<open>windows/audio-service/platform/windows/wasapi_*.cpp\<close>, the device enumeration that feeds the
  registry, the driver diagnosis of \<^verbatim>\<open>driver_diagnostics.cpp\<close>, and the live microphone of
  \<^verbatim>\<open>platform/host/live_mic_source.cpp\<close>. The answers of the system calls are arguments. Each of the two
  threads of a source or sink runs one pass of its loop or one call at a time.
\<close>

section \<open>Format conversion\<close>

definition WAVE_FORMAT_IEEE_FLOAT :: u16 where "WAVE_FORMAT_IEEE_FLOAT = 3"
definition WAVE_FORMAT_EXTENSIBLE :: u16 where "WAVE_FORMAT_EXTENSIBLE = 0xFFFE"

text \<open>\<open>mf_subFloat\<close>: the extension's sub-format is the float one.\<close>

record mix_format =
  mf_tag :: u16
  mf_channels :: u16
  mf_rate :: u32
  mf_blockAlign :: u16
  mf_bits :: u16
  mf_subFloat :: bool

definition isFloatFormat :: "mix_format \<Rightarrow> bool" where
  "isFloatFormat fmt \<longleftrightarrow> mf_tag fmt = WAVE_FORMAT_IEEE_FLOAT \<or>
     (mf_tag fmt = WAVE_FORMAT_EXTENSIBLE \<and> mf_subFloat fmt)"

definition mf_ch :: "mix_format \<Rightarrow> nat" where
  "mf_ch fmt = (if mf_channels fmt \<noteq> 0 then unat (mf_channels fmt) else 1)"

text \<open>The device's buffer as an array of floats, of 16-bit and of 32-bit integers.\<close>

record buffer_view =
  bv_f32 :: "nat \<Rightarrow> real"
  bv_s16 :: "nat \<Rightarrow> u16"
  bv_s32 :: "nat \<Rightarrow> u32"

text \<open>The index \<open>i * ch + c\<close> is a 32-bit one.\<close>

definition frame_index :: "nat \<Rightarrow> nat \<Rightarrow> nat \<Rightarrow> nat" where
  "frame_index ch i c = (i * ch + c) mod 2 ^ 32"

definition toMonoFloat :: "(real \<Rightarrow> real) \<Rightarrow> (real \<Rightarrow> real) \<Rightarrow> mix_format \<Rightarrow> nat \<Rightarrow> buffer_view \<Rightarrow> samples" where
  "toMonoFloat rf rd fmt frames src =
     (let ch = mf_ch fmt
      in if isFloatFormat fmt \<and> mf_bits fmt = 32 then
           map (\<lambda>i. rf (fold (\<lambda>c acc. rf (acc + bv_f32 src (frame_index ch i c))) [0..<ch] 0 / rf (real ch))) [0..<frames]
         else if mf_bits fmt = 16 then
           map (\<lambda>i. rf (rf (of_int (sum_list (map (\<lambda>c. sint (bv_s16 src (frame_index ch i c))) [0..<ch]))) /
                        rf (32768 * rf (real ch)))) [0..<frames]
         else if mf_bits fmt = 32 then
           map (\<lambda>i. rf (rd (fold (\<lambda>c acc. rd (acc + of_int (sint (bv_s32 src (frame_index ch i c))))) [0..<ch] 0 /
                        rd (2147483648 * real ch)))) [0..<frames]
         else silence frames)"

text \<open>What is written to the device's buffer: floats, 16-bit samples, or that many zero bytes.\<close>

datatype device_block = Block_F32 samples | Block_S16 "u16 list" | Block_Zero nat

definition fromMonoFloat :: "(real \<Rightarrow> real) \<Rightarrow> mix_format \<Rightarrow> samples \<Rightarrow> device_block" where
  "fromMonoFloat rf fmt xs =
     (let ch = mf_ch fmt
      in if isFloatFormat fmt \<and> mf_bits fmt = 32 then Block_F32 (concat (map (replicate ch) xs))
         else if mf_bits fmt = 16 then
           Block_S16 (concat (map (\<lambda>x. replicate ch (of_int (trunc (rf (clamp (- 1) 1 x * 32767))))) xs))
         else Block_Zero (length xs * unat (mf_blockAlign fmt)))"

section \<open>The SmartMic endpoint and the enumeration\<close>

definition tolower :: "char \<Rightarrow> char" where
  "tolower c = (if 65 \<le> (of_char c :: nat) \<and> (of_char c :: nat) \<le> 90 then char_of ((of_char c :: nat) + 32) else c)"

definition str_contains :: "string \<Rightarrow> string \<Rightarrow> bool" where
  "str_contains hay needle =
     (let h = map tolower hay; n = map tolower needle
      in list_ex (\<lambda>k. take (length n) (drop k h) = n) [0..<Suc (length h)])"

definition looksLikeSmartMicEndpoint :: "string \<Rightarrow> string \<Rightarrow> bool" where
  "looksLikeSmartMicEndpoint i name \<longleftrightarrow>
     str_contains name ''smart microphone'' \<or> str_contains name ''smartmic'' \<or> str_contains i ''smartmic''"

text \<open>What the system answers for one device of the collection.\<close>

record endpoint_answer =
  ea_item :: bool
  ea_id :: "string option"
  ea_name :: "string option"
  ea_mix :: "mix_format option"

definition device_of :: "string \<Rightarrow> endpoint_answer \<Rightarrow> device_info" where
  "device_of defaultId a =
     (let i = (case ea_id a of Some s \<Rightarrow> s | None \<Rightarrow> []);
          name = (case ea_name a of Some s \<Rightarrow> s | None \<Rightarrow> [])
      in \<lparr>di_id = i, di_name = name,
          di_isDefault = (defaultId \<noteq> [] \<and> i = defaultId),
          di_isSmartMicEndpoint = looksLikeSmartMicEndpoint i name,
          di_nativeRate = (case ea_mix a of Some m \<Rightarrow> mf_rate m | None \<Rightarrow> of_nat kSampleRate),
          di_nativeChannels = (case ea_mix a of Some m \<Rightarrow> ucast (mf_channels m) | None \<Rightarrow> of_nat kChannels)\<rparr>)"

text \<open>\<open>None\<close>: there is no enumerator, or no collection.\<close>

definition wasapi_enumerate :: "endpoint_answer list option \<Rightarrow> string option \<Rightarrow> device_info list" where
  "wasapi_enumerate collection default_answer =
     (case collection of
        None \<Rightarrow> []
      | Some as \<Rightarrow>
          map (device_of (case default_answer of Some i \<Rightarrow> i | None \<Rightarrow> [])) (filter ea_item as))"

text \<open>The enumerator object; \<open>'cb\<close> is what its client asked to be called with.\<close>

record 'cb wasapi_enumerator =
  en_enumerator :: bool
  en_notifications :: bool
  en_onChanged :: "'cb option"
  en_comInitialised :: bool

definition en_new :: "'cb wasapi_enumerator" where
  "en_new = \<lparr>en_enumerator = False, en_notifications = False, en_onChanged = None, en_comInitialised = False\<rparr>"

text \<open>\<open>com\<close>: \<open>CoInitializeEx\<close> succeeded; \<open>created\<close>: so did \<open>CoCreateInstance\<close>.\<close>

definition en_initialise :: "bool \<Rightarrow> bool \<Rightarrow> 'cb wasapi_enumerator \<Rightarrow> bool \<times> 'cb wasapi_enumerator" where
  "en_initialise com created en =
     (let en1 = en\<lparr>en_comInitialised := com, en_enumerator := created\<rparr>
      in if \<not> created then (False, en1) else (True, en1\<lparr>en_notifications := True\<rparr>))"

definition en_shutdown :: "'cb wasapi_enumerator \<Rightarrow> 'cb wasapi_enumerator" where
  "en_shutdown en =
     (let en1 = (if en_enumerator en \<and> en_notifications en then en\<lparr>en_notifications := False\<rparr> else en)
      in en1\<lparr>en_enumerator := False, en_comInitialised := False\<rparr>)"

definition en_onDevicesChanged :: "'cb \<Rightarrow> 'cb wasapi_enumerator \<Rightarrow> 'cb wasapi_enumerator" where
  "en_onDevicesChanged cb en = en\<lparr>en_onChanged := Some cb\<rparr>"

text \<open>What the notification client is told by Windows, and the call it makes, on the thread of Windows.\<close>

datatype device_notice =
  DeviceStateChanged | DeviceAdded | DeviceRemoved | DefaultDeviceChanged | PropertyValueChanged

definition en_notice :: "device_notice \<Rightarrow> 'cb wasapi_enumerator \<Rightarrow> 'cb option" where
  "en_notice n en =
     (if n = PropertyValueChanged \<or> \<not> en_notifications en then None else en_onChanged en)"

definition en_enumerate :: "endpoint_answer list option \<Rightarrow> string option \<Rightarrow> 'cb wasapi_enumerator \<Rightarrow> device_info list" where
  "en_enumerate collection default_answer en =
     (if \<not> en_enumerator en then [] else wasapi_enumerate collection default_answer)"

section \<open>The capture source\<close>

record wasapi_source =
  wc_id :: string
  wc_deviceId :: string
  wc_fmt :: "mix_format option"
  wc_event :: bool
  wc_resampler :: linear_resampler
  wc_ring :: "real ring_buffer"
  wc_running :: bool
  wc_failed :: bool
  wc_scratch :: samples
  wc_converted :: samples

definition wc_new :: "string \<Rightarrow> string \<Rightarrow> wasapi_source option" where
  "wc_new i device =
     map_option (\<lambda>ring. \<lparr>wc_id = i, wc_deviceId = device, wc_fmt = None, wc_event = False, wc_resampler = rs_init,
       wc_ring = ring, wc_running = False, wc_failed = False, wc_scratch = [], wc_converted = []\<rparr>)
       (rb_new 0 (of_nat (millisToSamples 200)))"

text \<open>Which of the calls that set up a stream succeed, in their order.\<close>

record wasapi_answer =
  wa_enumerator :: bool
  wa_device :: bool
  wa_client :: bool
  wa_mix :: "mix_format option"
  wa_initialize :: bool
  wa_event :: bool
  wa_setEvent :: bool
  wa_bufferSize :: "u32 option"
  wa_service :: bool
  wa_started :: bool

definition wc_start :: "(real \<Rightarrow> real) \<Rightarrow> wasapi_answer \<Rightarrow> wasapi_source \<Rightarrow> bool \<times> wasapi_source" where
  "wc_start rd a s =
     (if wc_running s then (True, s)
      else if \<not> wa_enumerator a \<or> \<not> wa_device a \<or> \<not> wa_client a then (False, s)
      else
        (case wa_mix a of
           None \<Rightarrow> (False, s\<lparr>wc_fmt := None\<rparr>)
         | Some m \<Rightarrow>
             let s1 = s\<lparr>wc_fmt := Some m\<rparr>
             in if \<not> wa_initialize a then (False, s1)
                else let s2 = s1\<lparr>wc_event := wa_event a\<rparr>
                in if \<not> wa_event a \<or> \<not> wa_setEvent a \<or> \<not> wa_service a then (False, s2)
                else
                  let s3 = s2\<lparr>wc_resampler := rs_reset rd (mf_rate m) (wc_resampler s2),
                              wc_ring := rb_clear (wc_ring s2), wc_failed := False, wc_running := True\<rparr>
                  in if \<not> wa_started a then (False, s3\<lparr>wc_running := False\<rparr>) else (True, s3)))"

definition wc_stop :: "wasapi_source \<Rightarrow> wasapi_source" where
  "wc_stop s = s\<lparr>wc_running := False, wc_event := False, wc_fmt := None\<rparr>"

text \<open>One packet of the device: its frames, whether it is flagged silent, and its buffer.\<close>

record capture_packet =
  cp_frames :: nat
  cp_silent :: bool
  cp_data :: buffer_view

text \<open>
  One pass of the thread's loop: the wait times out, or the packets there are until one cannot be
  had. The format is that of the running stream.
\<close>

definition wc_packet ::
  "(real \<Rightarrow> real) \<Rightarrow> (real \<Rightarrow> real) \<Rightarrow> mix_format \<Rightarrow> capture_packet \<Rightarrow> wasapi_source \<Rightarrow> wasapi_source option" where
  "wc_packet rf rd fmt p s =
     (let xs = (if cp_silent p then silence (cp_frames p) else toMonoFloat rf rd fmt (cp_frames p) (cp_data p))
      in case rs_process rf rd xs [] (wc_resampler s) of
           None \<Rightarrow> None
         | Some (ys, rs) \<Rightarrow>
             Some (s\<lparr>wc_scratch := xs, wc_converted := ys, wc_resampler := rs,
                     wc_ring := (if ys \<noteq> [] then snd (rb_write ys (wc_ring s)) else wc_ring s)\<rparr>))"

datatype capture_wait = Wait_Timeout | Wait_Packets "capture_packet list"

fun wc_packets ::
  "(real \<Rightarrow> real) \<Rightarrow> (real \<Rightarrow> real) \<Rightarrow> mix_format \<Rightarrow> capture_packet list \<Rightarrow> wasapi_source \<Rightarrow> wasapi_source option" where
  "wc_packets rf rd fmt [] s = Some s"
| "wc_packets rf rd fmt (p # ps) s =
     (case wc_packet rf rd fmt p s of None \<Rightarrow> None | Some s1 \<Rightarrow> wc_packets rf rd fmt ps s1)"

definition wc_pass ::
  "(real \<Rightarrow> real) \<Rightarrow> (real \<Rightarrow> real) \<Rightarrow> mix_format \<Rightarrow> capture_wait \<Rightarrow> wasapi_source \<Rightarrow> wasapi_source option" where
  "wc_pass rf rd fmt w s =
     (case w of
        Wait_Timeout \<Rightarrow> Some (if wc_running s then s\<lparr>wc_failed := True\<rparr> else s)
      | Wait_Packets ps \<Rightarrow> wc_packets rf rd fmt ps s)"

definition wc_read :: "samples \<Rightarrow> wasapi_source \<Rightarrow> samples \<times> source_status \<times> wasapi_source" where
  "wc_read out s =
     (if wc_failed s then (silence (length out), Src_Failed, s)
      else
        (case rb_readOrSilence 0 (length out) (wc_ring s) of
           (got, xs, ring) \<Rightarrow>
             (xs, if \<not> wc_running s then Src_Failed else if got = length out then Src_Ok else Src_Underrun,
              s\<lparr>wc_ring := ring\<rparr>)))"

definition wc_droppedFrames :: "wasapi_source \<Rightarrow> u64" where
  "wc_droppedFrames s = rb_overruns (wc_ring s)"

section \<open>The render sink\<close>

record wasapi_sink =
  wr_id :: string
  wr_deviceId :: string
  wr_fmt :: "mix_format option"
  wr_event :: bool
  wr_bufferFrames :: u32
  wr_ring :: "real ring_buffer"
  wr_running :: bool
  wr_scratch :: samples

definition wr_new :: "string \<Rightarrow> string \<Rightarrow> wasapi_sink option" where
  "wr_new i device =
     map_option (\<lambda>ring. \<lparr>wr_id = i, wr_deviceId = device, wr_fmt = None, wr_event = False, wr_bufferFrames = 0,
       wr_ring = ring, wr_running = False, wr_scratch = []\<rparr>)
       (rb_new 0 (of_nat (millisToSamples 200)))"

definition wr_start :: "wasapi_answer \<Rightarrow> wasapi_sink \<Rightarrow> bool \<times> wasapi_sink" where
  "wr_start a s =
     (if wr_running s then (True, s)
      else if \<not> wa_enumerator a \<or> \<not> wa_device a \<or> \<not> wa_client a then (False, s)
      else
        (case wa_mix a of
           None \<Rightarrow> (False, s\<lparr>wr_fmt := None\<rparr>)
         | Some m \<Rightarrow>
             let s1 = s\<lparr>wr_fmt := Some m\<rparr>
             in if \<not> wa_initialize a then (False, s1)
                else let s2 = s1\<lparr>wr_event := wa_event a\<rparr>
                in if \<not> wa_event a \<or> \<not> wa_setEvent a then (False, s2)
                else
                  (case wa_bufferSize a of
                     None \<Rightarrow> (False, s2)
                   | Some n \<Rightarrow>
                       let s3 = s2\<lparr>wr_bufferFrames := n\<rparr>
                       in if \<not> wa_service a then (False, s3)
                          else
                            let s4 = s3\<lparr>wr_ring := rb_clear (wr_ring s3), wr_running := True\<rparr>
                            in if \<not> wa_started a then (False, s4\<lparr>wr_running := False\<rparr>) else (True, s4))))"

definition wr_stop :: "wasapi_sink \<Rightarrow> wasapi_sink" where
  "wr_stop s = s\<lparr>wr_running := False, wr_event := False, wr_fmt := None\<rparr>"

definition wr_write :: "samples \<Rightarrow> wasapi_sink \<Rightarrow> bool \<times> wasapi_sink" where
  "wr_write xs s =
     (if \<not> wr_running s then (False, s) else (True, s\<lparr>wr_ring := snd (rb_write xs (wr_ring s))\<rparr>))"

text \<open>
  One pass of the loop after the wait succeeded: the padding of the device and whether it gives the
  buffer; the block written to it.
\<close>

definition wr_pass ::
  "(real \<Rightarrow> real) \<Rightarrow> mix_format \<Rightarrow> u32 option \<Rightarrow> bool \<Rightarrow> wasapi_sink \<Rightarrow> device_block option \<times> wasapi_sink" where
  "wr_pass rf fmt padding gives s =
     (case padding of
        None \<Rightarrow> (None, s)
      | Some p \<Rightarrow>
          let avail = unat (wr_bufferFrames s - p)
          in if avail = 0 \<or> \<not> gives then (None, s)
             else
               (case rb_readOrSilence 0 avail (wr_ring s) of
                  (got, xs, ring) \<Rightarrow>
                    (Some (fromMonoFloat rf fmt xs), s\<lparr>wr_ring := ring, wr_scratch := xs\<rparr>)))"

definition wr_endpointReady :: "wasapi_sink \<Rightarrow> bool" where
  "wr_endpointReady s = wr_running s"

definition wr_underrunCount :: "wasapi_sink \<Rightarrow> u64" where
  "wr_underrunCount s = rb_underruns (wr_ring s)"

section \<open>The live microphone\<close>

text \<open>\<open>'c\<close> is the state of the platform's capture, \<open>c0\<close> a new one; \<open>None\<close> is that there is none.\<close>

record 'c live_mic =
  lm_id :: string
  lm_capture :: "'c option"
  lm_ring :: "real ring_buffer"
  lm_live :: bool

definition lm_new :: "string \<Rightarrow> 'c live_mic option" where
  "lm_new i =
     map_option (\<lambda>ring. \<lparr>lm_id = i, lm_capture = None, lm_ring = ring, lm_live = False\<rparr>)
       (rb_new 0 (of_nat (millisToSamples 400)))"

definition lm_start :: "'c option \<Rightarrow> ('c \<Rightarrow> bool \<times> 'c) \<Rightarrow> 'c live_mic \<Rightarrow> bool \<times> 'c live_mic" where
  "lm_start c0 cap_start s =
     (case c0 of
        None \<Rightarrow> (False, s\<lparr>lm_capture := None\<rparr>)
      | Some c \<Rightarrow> (case cap_start c of (ok, c') \<Rightarrow> (ok, s\<lparr>lm_capture := Some c', lm_live := ok\<rparr>)))"

definition lm_onFrame :: "samples \<Rightarrow> 'c live_mic \<Rightarrow> 'c live_mic" where
  "lm_onFrame pcm s = s\<lparr>lm_ring := snd (rb_write pcm (lm_ring s))\<rparr>"

definition lm_stop :: "'c live_mic \<Rightarrow> 'c live_mic" where
  "lm_stop s = s\<lparr>lm_capture := None, lm_live := False\<rparr>"

definition lm_read :: "samples \<Rightarrow> 'c live_mic \<Rightarrow> samples \<times> source_status \<times> 'c live_mic" where
  "lm_read out s =
     (if \<not> lm_live s then (silence (length out), Src_Failed, s)
      else
        (case rb_readOrSilence 0 (length out) (lm_ring s) of
           (got, xs, ring) \<Rightarrow> (xs, if got = length out then Src_Ok else Src_Underrun, s\<lparr>lm_ring := ring\<rparr>)))"

section \<open>The driver diagnosis\<close>

record driver_diagnosis =
  dd_packageInstalled :: bool
  dd_driverLoaded :: bool
  dd_interfacePresent :: bool
  dd_audioEndpointPresent :: bool
  dd_endpointName :: string
  dd_summary :: string
  dd_advice :: string

text \<open>
  The service control manager: whether it opens, whether the service does, and, when its status can be
  had, whether that is running.
\<close>

definition queryService :: "bool \<Rightarrow> bool \<Rightarrow> bool option \<Rightarrow> bool \<times> bool" where
  "queryService scm svc running =
     (if \<not> scm then (False, False) else if \<not> svc then (False, False) else (True, running = Some True))"

text \<open>The capture endpoints in any state; the first that looks like the microphone.\<close>

definition queryAudioEndpoint :: "endpoint_answer list option \<Rightarrow> bool \<times> string" where
  "queryAudioEndpoint collection =
     (case collection of
        None \<Rightarrow> (False, [])
      | Some as \<Rightarrow>
          (case find (\<lambda>a. ea_item a \<and> looksLikeSmartMicEndpoint (case_option [] id (ea_id a)) (case_option [] id (ea_name a))) as of
             None \<Rightarrow> (False, [])
           | Some a \<Rightarrow> (True, case_option [] id (ea_name a))))"

definition backslash :: string where "backslash = [CHR 0x5C]"

definition diagnoseDriver :: "bool \<times> bool \<Rightarrow> bool \<Rightarrow> bool \<times> string \<Rightarrow> driver_diagnosis" where
  "diagnoseDriver service present endpoint =
     (let d = \<lparr>dd_packageInstalled = fst service, dd_driverLoaded = snd service, dd_interfacePresent = present,
               dd_audioEndpointPresent = fst endpoint, dd_endpointName = snd endpoint, dd_summary = [], dd_advice = []\<rparr>
      in if dd_interfacePresent d \<and> dd_audioEndpointPresent d then
           d\<lparr>dd_summary := ''the SmartMic driver is installed and running'', dd_advice := []\<rparr>
         else if dd_interfacePresent d \<and> \<not> dd_audioEndpointPresent d then
           d\<lparr>dd_summary := ''the driver is running, but Windows is not publishing a 'Smart Microphone' capture device'',
             dd_advice := ''the audio filters did not register. Check Device Manager for a warning on 'SmartMic Virtual Audio Device', and check the device instance id -- it should be ROOT'' @ backslash @ ''SMARTMIC'' @ backslash @ ''0000; ROOT'' @ backslash @ ''UNKNOWN'' @ backslash @ ''0000 means the INF did not match and the device was created as an unknown device''\<rparr>
         else if \<not> dd_packageInstalled d then
           d\<lparr>dd_summary := ''the SmartMic driver is not installed on this PC'',
             dd_advice := ''run install-driver.bat as Administrator, from the folder containing smartmic.sys''\<rparr>
         else if \<not> dd_driverLoaded d then
           d\<lparr>dd_summary := ''the SmartMic driver is installed but Windows refused to load it'',
             dd_advice := ''this is nearly always a signing problem: check Device Manager for a yellow warning on 'SmartMic Virtual Audio Device' (code 52 means the signature was rejected), confirm test signing is on with 'bcdedit /enum {current}', and make sure SmartMicTestCert.cer was imported before installing''\<rparr>
         else
           d\<lparr>dd_summary := ''the SmartMic driver is loaded but its control interface is not available'',
             dd_advice := ''another SmartMic service may already be attached to it; close any other copy and try again''\<rparr>)"

definition newline :: string where "newline = [char_of (10 :: nat)]"

definition yes_no :: "bool \<Rightarrow> string" where
  "yes_no b = (if b then ''yes'' @ newline else ''NO'' @ newline)"

definition formatDriverDiagnosis :: "driver_diagnosis \<Rightarrow> string" where
  "formatDriverDiagnosis d =
     ''  driver package installed : '' @ yes_no (dd_packageInstalled d) @
     ''  driver loaded by Windows : '' @ yes_no (dd_driverLoaded d) @
     ''  control interface present: '' @ yes_no (dd_interfacePresent d) @
     ''  'Smart Microphone' endpoint: '' @
     (if dd_audioEndpointPresent d
      then ''yes'' @ (if dd_endpointName d \<noteq> [] then '' ('' @ dd_endpointName d @ '')'' else []) @ newline
      else ''NO'' @ newline) @
     newline @ ''  '' @ dd_summary d @ newline @
     (if dd_advice d \<noteq> [] then ''  -> '' @ dd_advice d @ newline else [])"

section \<open>Their contracts\<close>

lemma rb_fill:
  assumes "rb_ok rb" and "rb_readOrSilence z n rb = (got, xs, rb')"
  shows "length xs = n \<and> got = min (rb_available rb) n \<and> rb_ok rb'"
  using assms(2) rb_read_correct(1) [OF assms(1), of n] unfolding rb_readOrSilence_correct [OF assms(1)]
  by (auto simp: min_def)

definition wc_ok :: "wasapi_source \<Rightarrow> bool" where
  "wc_ok s \<longleftrightarrow> rb_ok (wc_ring s) \<and> rs64_ok (wc_resampler s)"

interpretation wasapi_mic: audio_source wc_read wc_ok
proof
  fix s :: wasapi_source and buf :: samples
  obtain got xs ring where q: "rb_readOrSilence 0 (length buf) (wc_ring s) = (got, xs, ring)" by (metis prod_cases3)
  assume "wc_ok s"
  then show "length (fst (wc_read buf s)) = length buf" "wc_ok (snd (snd (wc_read buf s)))"
    using rb_fill [of "wc_ring s" 0 "length buf", OF _ q]
    by (simp_all add: wc_read_def wc_ok_def q)
qed

interpretation wasapi_cable: audio_sink wr_write "\<lambda>s. rb_ok (wr_ring s)"
  by unfold_locales (auto simp: wr_write_def rb_write_correct)

interpretation live_mic: audio_source lm_read "\<lambda>s. rb_ok (lm_ring s)"
proof
  fix s :: "'c live_mic" and buf :: samples
  obtain got xs ring where q: "rb_readOrSilence 0 (length buf) (lm_ring s) = (got, xs, ring)" by (metis prod_cases3)
  assume "rb_ok (lm_ring s)"
  then show "length (fst (lm_read buf s)) = length buf" "rb_ok (lm_ring (snd (snd (lm_read buf s))))"
    using rb_fill [of "lm_ring s" 0 "length buf", OF _ q] by (simp_all add: lm_read_def q)
qed

text \<open>A device rate is a 32-bit number, and the whole capture pass returns.\<close>

lemma toMonoFloat_length [simp]: "length (toMonoFloat rf rd fmt n v) = n"
  by (simp add: toMonoFloat_def Let_def)

lemma wc_packets_return:
  "wc_ok s \<Longrightarrow> list_all (\<lambda>p. cp_frames p \<le> 2 ^ 31) ps \<Longrightarrow> \<exists>s'. wc_packets rf f64 fmt ps s = Some s' \<and> wc_ok s'"
proof (induction ps arbitrary: s)
  case (Cons p ps)
  let ?xs = "if cp_silent p then silence (cp_frames p) else toMonoFloat rf f64 fmt (cp_frames p) (cp_data p)"
  have len: "length ?xs \<le> 2 ^ 31" using Cons.prems(2) by simp
  obtain ys rs where r: "rs_process rf f64 ?xs [] (wc_resampler s) = Some ([] @ ys, rs)" "rs64_ok rs"
    using rs_process_f64 [OF _ len, of "wc_resampler s" rf "[]"] Cons.prems(1) unfolding wc_ok_def by blast
  then obtain s1 where "wc_packet rf f64 fmt p s = Some s1" "wc_ok s1"
    using Cons.prems(1) by (auto simp: wc_packet_def Let_def wc_ok_def rb_write_correct)
  with Cons.IH [of s1] Cons.prems(2) show ?case by simp
qed simp

lemma wc_start_ok: "wc_ok s \<Longrightarrow> wc_ok (snd (wc_start f64 a s))"
  by (auto simp: wc_start_def wc_ok_def Let_def rb_clear_correct rs64_ok_reset split: option.split)

text \<open>The enumeration never offers the SmartMic endpoint, however its name is capitalised.\<close>

lemma enumerated_marked:
  "d \<in> set (wasapi_enumerate c i) \<Longrightarrow> di_isSmartMicEndpoint d = looksLikeSmartMicEndpoint (di_id d) (di_name d)"
  by (auto simp: wasapi_enumerate_def device_of_def Let_def split: option.splits)

lemma enumerated_never_resolved:
  assumes "dr_resolveEffectiveInput (snd (dr_setDevices (wasapi_enumerate c i) reg)) = Some d"
  shows "\<not> looksLikeSmartMicEndpoint (di_id d) (di_name d)"
  using dr_resolve_usable [OF assms] enumerated_marked [of d c i] by (simp add: dr_setDevices_def Let_def)

text \<open>The diagnosis names the microphone ready exactly when the interface and the endpoint are there.\<close>

lemma diagnosis_ready:
  "dd_advice (diagnoseDriver service present endpoint) = [] \<longleftrightarrow> present \<and> fst endpoint"
  by (simp add: diagnoseDriver_def Let_def)

end
