(* ===== verification/RouterControl.thy ===== *)
theory RouterControl
  imports RouterLiveness HostSources
begin

text \<open>
  The control of the audio router as a machine of its own. \<open>router_control\<close> keeps what decides where
  the audio comes from, the mode machine, the queue of events, the clocks and the counters, and no
  samples, gains or rounding. With a crossfade no longer than a frame every call and every tick of the
  router refines a step of this machine. On it the scripted run of
  \<^verbatim>\<open>windows/audio-service/app/main.cpp\<close> is followed to its end.
\<close>

section \<open>The control machine\<close>

record router_control =
  rk_sm :: source_state_machine
  rk_queue :: "u32 list"
  rk_clock :: u64
  rk_produced :: u64
  rk_arm :: u64
  rk_beat :: u64
  rk_transitions :: u64
  rk_lost :: u64
  rk_armTimeouts :: u64
  rk_failures :: u64

definition control_of :: "('l, 'p, 'k) audio_router \<Rightarrow> router_control" where
  "control_of r =
     \<lparr>rk_sm = ar_sm r, rk_queue = rb_contents (ar_events r), rk_clock = ar_frameIndex r,
      rk_produced = ar_framesProduced r, rk_arm = ar_armStartedFrame r, rk_beat = ar_lastHeartbeatFrame r,
      rk_transitions = ar_transitions r, rk_lost = ar_phoneLost r, rk_armTimeouts = ar_armTimeouts r,
      rk_failures = ar_sourceFailures r\<rparr>"

definition control_init :: router_control where
  "control_init =
     \<lparr>rk_sm = sm_init, rk_queue = [], rk_clock = 0, rk_produced = 0, rk_arm = 0, rk_beat = 0,
      rk_transitions = 0, rk_lost = 0, rk_armTimeouts = 0, rk_failures = 0\<rparr>"

abbreviation ks :: "router_control \<Rightarrow> source_state" where
  "ks k \<equiv> sm_state (rk_sm k)"

definition k_event :: "event \<Rightarrow> router_control \<Rightarrow> router_control" where
  "k_event e k =
     (let (t, sm) = sm_apply e (rk_sm k); k1 = k\<lparr>rk_sm := sm\<rparr>
      in if \<not> tr_accepted t \<or> \<not> tr_changed t then k1
         else k1\<lparr>rk_transitions := rk_transitions k + 1,
                 rk_arm := (if tr_to t = PhoneArming then rk_clock k else rk_arm k)\<rparr>)"

definition k_raw :: "u32 \<Rightarrow> router_control \<Rightarrow> router_control" where
  "k_raw raw k = (case event_of_code raw of Some e \<Rightarrow> k_event e k | None \<Rightarrow> k)"

definition k_drain :: "router_control \<Rightarrow> router_control" where
  "k_drain k = fold k_raw (rk_queue k) (k\<lparr>rk_queue := []\<rparr>)"

text \<open>The queue holds 256 events; the oldest goes.\<close>

definition k_post :: "event \<Rightarrow> router_control \<Rightarrow> router_control" where
  "k_post e k = k\<lparr>rk_queue := q_keep 256 (rk_queue k @ [event_code e])\<rparr>"

definition k_timers :: "router_config \<Rightarrow> router_control \<Rightarrow> router_control" where
  "k_timers cfg k =
     (if ks k = ErrorRecovery then k_event Ev_Recovered k
      else if ks k = PhoneArming \<and> framesFor (rc_armTimeoutMs cfg) < rk_clock k - rk_arm k then
        k_event Ev_ArmTimeout (k\<lparr>rk_armTimeouts := rk_armTimeouts k + 1\<rparr>)
      else if ks k = PhoneActive \<and> rk_beat k < rk_clock k \<and>
              framesFor (rc_phoneLostTimeoutMs cfg) < rk_clock k - rk_beat k then
        k_event Ev_PhoneLost (k\<lparr>rk_lost := rk_lost k + 1\<rparr>)
      else k)"

text \<open>\<open>asked\<close>: the source is read; \<open>fails\<close>: its read would report a failure.\<close>

definition k_source :: "bool \<Rightarrow> bool \<Rightarrow> router_control \<Rightarrow> router_control" where
  "k_source asked fails k =
     (if asked \<and> fails then k_event Ev_SourceFailure (k\<lparr>rk_failures := rk_failures k + 1\<rparr>) else k)"

definition k_close :: "router_control \<Rightarrow> router_control" where
  "k_close k = (if ks k = ReturningToLocal then k_event Ev_FadeComplete k else k)"

text \<open>Both sources are also read while the gate moves, that is, when the frame starts or ends silence.\<close>

definition k_tick :: "router_config \<Rightarrow> bool \<Rightarrow> bool \<Rightarrow> router_control \<Rightarrow> router_control" where
  "k_tick cfg lfails pfails k =
     (let k1 = k_timers cfg (k_drain k);
          moving = (silent_state (ks k1) \<noteq> silent_state (ks k));
          k2 = k_source (wantsLocal (ks k1) \<or> moving) lfails k1;
          k3 = k_source (wantsPhone (ks k2) \<or> moving) pfails k2
      in k_close (k3\<lparr>rk_clock := rk_clock k3 + 1, rk_produced := rk_clock k3 + 1\<rparr>))"

fun k_step :: "router_config \<Rightarrow> bool \<Rightarrow> bool \<Rightarrow> router_call \<Rightarrow> router_control \<Rightarrow> router_control" where
  "k_step cfg lf pf (RC_SetMode m) k = k_post (mode_event m) k"
| "k_step cfg lf pf RC_StartPtt k = k_post Ev_StartPtt (k\<lparr>rk_beat := rk_produced k\<rparr>)"
| "k_step cfg lf pf RC_StopPtt k = k_post Ev_StopPtt k"
| "k_step cfg lf pf RC_PhoneReady k = k_post Ev_PhoneReady (k\<lparr>rk_beat := rk_produced k\<rparr>)"
| "k_step cfg lf pf RC_Heartbeat k = k\<lparr>rk_beat := rk_produced k\<rparr>"
| "k_step cfg lf pf RC_PhoneGone k = k_post Ev_PhoneLost k"
| "k_step cfg lf pf RC_Tick k = k_tick cfg lf pf k"

section \<open>The refinement\<close>

lemmas control_fields = control_of_def k_event_def

lemma control_applyEvent: "control_of (applyEvent fl e r) = k_event e (control_of r)"
proof -
  obtain t sm where t: "sm_apply e (ar_sm r) = (t, sm)" by (metis prod.exhaust)
  show ?thesis
    by (cases "tr_to t") (simp_all add: applyEvent_def t Let_def control_of_def k_event_def ar_note_def)
qed

lemma control_note: "control_of (ar_note l m r) = control_of r"
  by (simp add: control_of_def ar_note_def)

lemma control_applyRaw: "control_of (applyRaw fl raw r) = k_raw raw (control_of r)"
  by (simp add: applyRaw_def k_raw_def control_applyEvent split: option.split)

text \<open>Inside a tick the gate keeps its value, and stands still exactly when it is where it should be.\<close>

definition gate_at :: "real \<Rightarrow> ('l, 'p, 'k) audio_router \<Rightarrow> bool" where
  "gate_at v r \<longleftrightarrow> gate_ok r \<and> gr_value (ar_gate r) = v \<and>
     (gr_remaining (ar_gate r) = 0 \<longleftrightarrow> v = gr_target (ar_gate r))"

lemma applyEvent_gate:
  "ar_gate (applyEvent fl e r) =
     (if tr_accepted (sm_trans e (ar_sm r)) \<and> tr_changed (sm_trans e (ar_sm r))
      then gr_rampTo fl (if silent_state (tr_to (sm_trans e (ar_sm r))) then 0 else 1) (rc_crossfadeMs (ar_config r)) (ar_gate r)
      else ar_gate r)"
  by (cases "sm_apply e (ar_sm r)") (simp add: applyEvent_def Let_def ar_note_def ar_enter_frame)

lemma gr_rampTo_there:
  "t \<in> {0, 1} \<Longrightarrow> gr_target (gr_rampTo fl t ms g) = t \<and> gr_value (gr_rampTo fl t ms g) = gr_value g"
  "t \<in> {0, 1} \<Longrightarrow> gr_value g = t \<Longrightarrow> gr_remaining (gr_rampTo f32 t ms g) = 0"
  by (auto simp: gr_rampTo_def Let_def clamp_def f32.fl_0)

lemma gate_at_event:
  assumes "gate_at v r"
  shows "gate_at v (applyEvent f32 e r)"
proof -
  have g: "gate_ok (applyEvent f32 e r)" using assms unfolding gate_at_def by (intro gate_ok_applyEvent) simp
  have v: "gr_value (ar_gate (applyEvent f32 e r)) = v"
    using assms by (auto simp: applyEvent_gate gr_rampTo_there gate_at_def)
  have "gr_remaining (ar_gate (applyEvent f32 e r)) = 0" if "gr_target (ar_gate (applyEvent f32 e r)) = v"
    using that assms by (auto simp: applyEvent_gate gr_rampTo_there gate_at_def split: if_splits)
  then show ?thesis using g v unfolding gate_at_def gate_ok_def by metis
qed

lemma gate_at_frame:
  "ar_gate q = ar_gate r \<Longrightarrow> ar_sm q = ar_sm r \<Longrightarrow> ar_config q = ar_config r \<Longrightarrow> gate_at v r \<Longrightarrow> gate_at v q"
  by (auto simp: gate_at_def gate_ok_def)

lemma gate_at_raw: "gate_at v r \<Longrightarrow> gate_at v (applyRaw f32 raw r)"
  by (simp add: applyRaw_def gate_at_event split: option.split)

lemma gate_at_moving:
  "gate_at v r \<Longrightarrow> gate_at v q \<Longrightarrow> gr_remaining (ar_gate q) = 0 \<Longrightarrow>
     gr_active (ar_gate r) \<longleftrightarrow> silent_state (st r) \<noteq> silent_state (st q)"
  by (auto simp: gate_at_def gate_ok_def gr_active_def split: if_splits)

lemma drain_refines:
  "rb_ok (ar_events r) \<Longrightarrow> gate_at v r \<Longrightarrow>
     control_of (drainEvents f32 r) = k_drain (control_of r) \<and> gate_at v (drainEvents f32 r)"
proof (induction "rb_available (ar_events r)" arbitrary: r rule: less_induct)
  case less
  obtain raws q where rd: "rb_read 1 (ar_events r) = (raws, q)" by (metis prod.exhaust)
  have q: "rb_ok q" "raws = take 1 (rb_contents (ar_events r))" "rb_contents q = drop 1 (rb_contents (ar_events r))"
    using rb_read_correct [OF less.prems(1), of 1] rd by simp_all
  define r1 where "r1 = r\<lparr>ar_events := q\<rparr>"
  have r1: "gate_at v r1" by (rule gate_at_frame [OF _ _ _ less.prems(2)]) (simp_all add: r1_def)
  show ?case
  proof (cases "rb_contents (ar_events r)")
    case Nil
    then have "drainEvents f32 r = r1" using drainEvents_idle [of r f32] rd by (simp add: r1_def)
    moreover have "control_of r1 = k_drain (control_of r)"
      using Nil q(3) by (simp add: r1_def control_of_def k_drain_def)
    ultimately show ?thesis using r1 by simp
  next
    case (Cons raw rest)
    define r2 where "r2 = applyRaw f32 raw r1"
    have av: "rb_available (ar_events r) = Suc (length rest)"
      using Cons by (metis length_Cons length_rb_contents)
    have "raws ! 0 = raw" using Cons q(2) by simp
    then have d: "drainEvents f32 r = drainEvents f32 r2"
      using rd av by (subst drainEvents.simps) (simp add: r1_def r2_def)
    have e: "ar_events r2 = q" by (simp add: r2_def r1_def applyRaw_frame)
    have "rb_available q = length rest" using q(3) Cons by (metis drop_Suc_Cons drop0 length_rb_contents One_nat_def)
    then have "control_of (drainEvents f32 r2) = k_drain (control_of r2) \<and> gate_at v (drainEvents f32 r2)"
      using av e q(1) gate_at_raw [OF r1, of raw] by (intro less.hyps) (simp_all add: r2_def)
    moreover have "k_drain (control_of r2) = k_drain (control_of r)"
    proof -
      have qu: "rk_queue (k_raw x k) = rk_queue k" "k_raw x (k\<lparr>rk_queue := u\<rparr>) = (k_raw x k)\<lparr>rk_queue := u\<rparr>" for x k u
        by (simp_all add: k_raw_def k_event_def Let_def split: option.split prod.split)
      have c: "control_of r1 = (control_of r)\<lparr>rk_queue := rest\<rparr>"
        using Cons q(3) by (simp add: r1_def control_of_def)
      have "rk_queue (control_of r) = raw # rest" using Cons by (simp add: control_of_def)
      then show ?thesis by (simp add: k_drain_def r2_def control_applyRaw c qu)
    qed
    ultimately show ?thesis by (simp add: d)
  qed
qed

lemma timers_refine:
  "control_of (updateTimers fl r) = k_timers (ar_config r) (control_of r)"
proof -
  have c: "control_of (r\<lparr>ar_armTimeouts := n\<rparr>) = (control_of r)\<lparr>rk_armTimeouts := n\<rparr>"
    "control_of (r\<lparr>ar_phoneLost := n\<rparr>) = (control_of r)\<lparr>rk_lost := n\<rparr>" for n
    by (simp_all add: control_of_def)
  have f: "rk_sm (control_of r) = ar_sm r" "rk_clock (control_of r) = ar_frameIndex r" "rk_arm (control_of r) = ar_armStartedFrame r"
    "rk_beat (control_of r) = ar_lastHeartbeatFrame r" "rk_armTimeouts (control_of r) = ar_armTimeouts r" "rk_lost (control_of r) = ar_phoneLost r"
    by (simp_all add: control_of_def)
  show ?thesis
    unfolding updateTimers_def k_timers_def f by (auto simp: c control_applyEvent control_note)
qed

lemma gate_at_timers: "gate_at v r \<Longrightarrow> gate_at v (updateTimers f32 r)"
  unfolding updateTimers_def
  by (auto intro!: gate_at_event intro: gate_at_frame [of _ r] simp: ar_note_frame)

text \<open>Whether the read of a source, if made now, would report a failure.\<close>

definition would_fail :: "'s source_ops \<Rightarrow> 's option \<Rightarrow> samples \<Rightarrow> bool" where
  "would_fail ops s buf = (case s of None \<Rightarrow> False | Some x \<Rightarrow> fst (snd (so_read ops buf x)) = Src_Failed)"

lemma sourceFailed_refines:
  "control_of (ar_sourceFailed fl i r) = k_event Ev_SourceFailure ((control_of r)\<lparr>rk_failures := ar_sourceFailures r + 1\<rparr>)"
  unfolding ar_sourceFailed_def control_applyEvent control_note by (simp add: control_of_def)

lemma fill_refines:
  "control_of (fillLocal fl lops b r) = k_source b (would_fail lops (ar_local r) (ar_localBuf r)) (control_of r)"
  "control_of (fillPhone fl pops b r) = k_source b (would_fail pops (ar_phone r) (ar_phoneBuf r)) (control_of r)"
proof -
  have f: "rk_failures (control_of r) = ar_sourceFailures r"
    "control_of (r\<lparr>ar_local := l, ar_localBuf := x\<rparr>) = control_of r" "control_of (r\<lparr>ar_localBuf := x\<rparr>) = control_of r"
    "control_of (r\<lparr>ar_phone := p, ar_phoneBuf := x\<rparr>) = control_of r" "control_of (r\<lparr>ar_phoneBuf := x\<rparr>) = control_of r" for l p x
    by (simp_all add: control_of_def)
  show "control_of (fillLocal fl lops b r) = k_source b (would_fail lops (ar_local r) (ar_localBuf r)) (control_of r)"
    by (cases "ar_local r"; cases b)
       (simp_all add: fillLocal_def k_source_def would_fail_def f sourceFailed_refines split: prod.split)
  show "control_of (fillPhone fl pops b r) = k_source b (would_fail pops (ar_phone r) (ar_phoneBuf r)) (control_of r)"
    by (cases "ar_phone r"; cases b)
       (simp_all add: fillPhone_def k_source_def would_fail_def f sourceFailed_refines split: prod.split)
qed

text \<open>What a router keeps between calls when its crossfade is no longer than a frame.\<close>

definition short_fades :: "('l \<Rightarrow> bool) \<Rightarrow> ('p \<Rightarrow> bool) \<Rightarrow> ('l, 'p, 'k) audio_router \<Rightarrow> bool" where
  "short_fades lok pok r \<longleftrightarrow> router_ok lok pok r \<and> gate_ok r \<and> fade_bounded r \<and> max_fade (ar_config r) \<le> kFrameSamples \<and>
     gr_remaining (ar_gate r) = 0 \<and> rb_capacity (ar_events r) = 256"

lemma short_fades_gate: "short_fades lok pok r \<Longrightarrow> gate_at (gr_value (ar_gate r)) r"
  by (auto simp: short_fades_def gate_at_def gate_ok_def)

text \<open>The control after the events and timers, and after the local source.\<close>

lemma tick_stages:
  fixes r :: "('l, 'p, 'k) audio_router" and lops :: "'l source_ops"
  assumes sf: "short_fades lok pok r"
  defines "r2 \<equiv> updateTimers f32 (drainEvents f32 r)"
  defines "r3 \<equiv> fillLocal f32 lops (wantsLocal (st r2) \<or> gr_active (ar_gate r2)) r2"
  shows "control_of r2 = k_timers (ar_config r) (k_drain (control_of r))"
    and "gr_active (ar_gate r2) \<longleftrightarrow> silent_state (st r2) \<noteq> silent_state (st r)"
    and "control_of r3 = k_source (wantsLocal (st r2) \<or> gr_active (ar_gate r2)) (would_fail lops (ar_local r) (ar_localBuf r)) (control_of r2)"
    and "ar_phone r3 = ar_phone r \<and> ar_phoneBuf r3 = ar_phoneBuf r \<and> ar_config r3 = ar_config r \<and>
      ar_frameIndex r3 = ar_frameIndex r \<and> rb_capacity (ar_events r3) = 256"
proof -
  have ok: "rb_ok (ar_events r)" "gr_remaining (ar_gate r) = 0"
    using sf by (simp_all add: short_fades_def router_ok_def)
  define v where "v = gr_value (ar_gate r)"
  have g0: "gate_at v r" using short_fades_gate [OF sf] by (simp add: v_def)
  have d: "control_of (drainEvents f32 r) = k_drain (control_of r)" "gate_at v (drainEvents f32 r)"
    using drain_refines [OF ok(1) g0] by simp_all
  have t: "control_of r2 = k_timers (ar_config r) (k_drain (control_of r))" "gate_at v r2"
    using timers_refine [of f32 "drainEvents f32 r"] gate_at_timers [OF d(2)] drainEvents_result [OF ok(1), of f32]
    by (simp_all add: r2_def d(1))
  then show "control_of r2 = k_timers (ar_config r) (k_drain (control_of r))" by simp
  show "gr_active (ar_gate r2) \<longleftrightarrow> silent_state (st r2) \<noteq> silent_state (st r)"
    by (rule gate_at_moving [OF t(2) g0 ok(2)])
  have same: "ar_local r2 = ar_local r" "ar_localBuf r2 = ar_localBuf r"
    using drainEvents_result [OF ok(1), of f32] by (simp_all add: r2_def step_simps)
  show "control_of r3 = k_source (wantsLocal (st r2) \<or> gr_active (ar_gate r2)) (would_fail lops (ar_local r) (ar_localBuf r)) (control_of r2)"
    by (simp add: r3_def fill_refines same)
  show "ar_phone r3 = ar_phone r \<and> ar_phoneBuf r3 = ar_phoneBuf r \<and> ar_config r3 = ar_config r \<and>
      ar_frameIndex r3 = ar_frameIndex r \<and> rb_capacity (ar_events r3) = 256"
    using drainEvents_result [OF ok(1), of f32] sf by (simp add: r3_def r2_def step_simps short_fades_def)
qed

lemma tick_refines:
  fixes r :: "('l, 'p, 'k) audio_router" and lops :: "'l source_ops" and pops :: "'p source_ops" and kops :: "'k sink_ops"
  assumes src: "audio_source (so_read lops) lok" "audio_source (so_read pops) pok" and sf: "short_fades lok pok r"
  defines "r' \<equiv> snd (tick f32 lops pops kops r)"
  shows "control_of r' = k_tick (ar_config r) (would_fail lops (ar_local r) (ar_localBuf r))
      (would_fail pops (ar_phone r) (ar_phoneBuf r)) (control_of r)"
    and "short_fades lok pok r'"
proof -
  have ok: "router_ok lok pok r" "gate_ok r" "fade_bounded r" "rb_ok (ar_events r)"
    using sf by (simp_all add: short_fades_def router_ok_def)
  define r1 r2 where "r1 = drainEvents f32 r" and "r2 = updateTimers f32 r1"
  define r3 where "r3 = fillLocal f32 lops (wantsLocal (st r2) \<or> gr_active (ar_gate r2)) r2"
  define r4 where "r4 = fillPhone f32 pops (wantsPhone (st r3) \<or> gr_active (ar_gate r2)) r3"
  note stages = tick_stages(1,2) [OF sf, folded r1_def, folded r2_def] tick_stages(3,4) [where lops = lops, OF sf, folded r1_def, folded r2_def, folded r3_def]
  note t = stages(1) and mv = stages(2)
  have same: "ar_phone r3 = ar_phone r" "ar_phoneBuf r3 = ar_phoneBuf r"
    "ar_config r4 = ar_config r" "ar_frameIndex r4 = ar_frameIndex r" "rb_capacity (ar_events r4) = 256"
    using stages(4) by (simp_all add: r4_def step_simps)
  have sk: "ks (control_of q) = st q" for q :: "('l, 'p, 'k) audio_router" by (simp add: control_of_def)
  have f: "control_of r4 = k_source (wantsPhone (st r3) \<or> gr_active (ar_gate r2)) (would_fail pops (ar_phone r) (ar_phoneBuf r))
      (k_source (wantsLocal (st r2) \<or> gr_active (ar_gate r2)) (would_fail lops (ar_local r) (ar_localBuf r)) (control_of r2))"
    "control_of r3 = k_source (wantsLocal (st r2) \<or> gr_active (ar_gate r2)) (would_fail lops (ar_local r) (ar_localBuf r)) (control_of r2)"
    by (simp_all add: r4_def fill_refines same stages(3))
  define q where "q = snd (ar_writeSink kops ((mixAndWrite f32 r4)\<lparr>ar_frameIndex := ar_frameIndex (mixAndWrite f32 r4) + 1,
       ar_framesProduced := ar_frameIndex (mixAndWrite f32 r4) + 1\<rparr>))"
  have mixed: "tick_mixed f32 lops pops r = mixAndWrite f32 r4"
    by (simp add: tick_mixed_def readSources_def Let_def r4_def r3_def r2_def r1_def)
  have r': "r' = ar_closeFade f32 q" by (simp add: r'_def tick_eq mixed q_def)
  have oks: "router_ok lok pok r1" "router_ok lok pok r2" "router_ok lok pok r3"
    unfolding r3_def r2_def r1_def
    by (intro router_ok_fillLocal router_ok_updateTimers router_ok_drainEvents src ok)+
  then have cf: "cf_ok (ar_fade r)" "gr_ok (ar_gate r)" "cf_ok (ar_fade r1)" "cf_ok (ar_fade r2)" "cf_ok (ar_fade r3)"
    using ok(1) by (simp_all add: router_ok_def)
  have inv: "fade_bounded r4" "gate_ok r4"
    unfolding r4_def r3_def r2_def r1_def
    by (intro fade_bound.I_fillPhone fade_bound.I_fillLocal fade_bound.I_timers fade_bound.I_drain
        gate.I_fillPhone gate.I_fillLocal gate.I_timers gate.I_drain cf [unfolded r3_def r2_def r1_def] ok(2,3))+
  have max: "max_fade (ar_config r) \<le> kFrameSamples" using sf by (simp add: short_fades_def)
  have q: "control_of q = (control_of r4)\<lparr>rk_clock := ar_frameIndex r4 + 1, rk_produced := ar_frameIndex r4 + 1\<rparr>"
    "cf_remaining (ar_fade q) = 0" "gr_remaining (ar_gate q) = 0" "ar_sm q = ar_sm r4"
  proof -
    show "control_of q = (control_of r4)\<lparr>rk_clock := ar_frameIndex r4 + 1, rk_produced := ar_frameIndex r4 + 1\<rparr>"
      by (simp add: q_def ar_writeSink_def mixAndWrite_def control_of_def split: option.split prod.split)
    show "cf_remaining (ar_fade q) = 0" "gr_remaining (ar_gate q) = 0" "ar_sm q = ar_sm r4"
      using inv max same(3)
      by (simp_all add: q_def step_simps mixAndWrite_result fade_bounded_def gate_ok_def del: kFrameSamples_960)
  qed
  show "control_of r' = k_tick (ar_config r) (would_fail lops (ar_local r) (ar_localBuf r))
      (would_fail pops (ar_phone r) (ar_phoneBuf r)) (control_of r)"
  proof -
    have "control_of r' = k_close (control_of q)"
      using q(2) by (simp add: r' ar_closeFade_def k_close_def sk control_applyEvent cf_active_def)
    moreover have "rk_clock (control_of r4) = ar_frameIndex r4" by (simp add: control_of_def)
    ultimately show ?thesis
      unfolding k_tick_def Let_def q(1) t [symmetric] sk f(2) [symmetric] mv [symmetric]
        f(1) [unfolded f(2) [symmetric], symmetric] by simp
  qed
  have gq: "gate_at (gr_value (ar_gate q)) q"
  proof -
    have "gate_ok (mixAndWrite f32 r4)" by (rule gate.I_mix [OF inv(2)])
    then have "gate_ok q" by (rule gate.I_frame [rotated 4]) (simp_all add: q_def ar_writeSink_frame)
    then show ?thesis using q(3) by (auto simp: gate_at_def gate_ok_def)
  qed
  have "gr_remaining (ar_gate r') = 0"
  proof (cases "st q = ReturningToLocal")
    case True
    then have e: "r' = applyEvent f32 Ev_FadeComplete q"
      using q(2) by (simp add: r' ar_closeFade_def cf_active_def)
    then have "gate_at (gr_value (ar_gate q)) r'" by (simp add: gate_at_event [OF gq])
    moreover have "st r' = LocalActive"
      using True by (simp add: e applyEvent_sm sm_apply_def del: sm_apply_fields)
    ultimately have "\<not> gr_active (ar_gate r')"
      using gate_at_moving [OF _ gq q(3), of r'] True by (simp add: silent_state_def)
    then show ?thesis by (simp add: gr_active_def)
  qed (simp add: r' ar_closeFade_def q(3))
  moreover have "ar_config r' = ar_config r" "rb_capacity (ar_events r') = 256"
    using same(3,5) by (simp_all add: r' q_def step_simps)
  ultimately show "short_fades lok pok r'"
    using router_ok_tick [OF src ok(1), of f32 kops] gate.I_tick [OF src ok(1,2), of kops]
      fade_bound.I_tick [OF src ok(1,3), of kops] max
    unfolding short_fades_def r'_def by simp
qed

text \<open>The phone source is left alone unless it is wanted, or the gate moves.\<close>

lemma tick_phone_unread:
  fixes r :: "('l, 'p, 'k) audio_router" and lops :: "'l source_ops" and pops :: "'p source_ops"
  assumes sf: "short_fades lok pok r"
  defines "k1 \<equiv> k_timers (ar_config r) (k_drain (control_of r))"
  defines "moving \<equiv> silent_state (ks k1) \<noteq> silent_state (ks (control_of r))"
  assumes idle: "\<not> wantsPhone (ks (k_source (wantsLocal (ks k1) \<or> moving) (would_fail lops (ar_local r) (ar_localBuf r)) k1))"
    and still: "\<not> moving"
  shows "ar_phone (snd (tick f32 lops pops kops r)) = ar_phone r"
proof -
  define r2 where "r2 = updateTimers f32 (drainEvents f32 r)"
  define r3 where "r3 = fillLocal f32 lops (wantsLocal (st r2) \<or> gr_active (ar_gate r2)) r2"
  note stages = tick_stages(1,2) [OF sf, folded r2_def] tick_stages(3,4) [where lops = lops, OF sf, folded r2_def, folded r3_def]
  have sk: "st q = ks (control_of q)" for q :: "('l, 'p, 'k) audio_router" by (simp add: control_of_def)
  have "moving \<longleftrightarrow> gr_active (ar_gate r2)" using stages(2) by (simp add: moving_def k1_def stages(1) [symmetric] sk)
  moreover have "\<not> wantsPhone (st r3)" using idle stages(1,3) calculation by (simp add: sk k1_def)
  ultimately have "fillPhone f32 pops (wantsPhone (st r3) \<or> gr_active (ar_gate r2)) r3 = r3\<lparr>ar_phoneBuf := silence (length (ar_phoneBuf r3))\<rparr>"
    using still by (simp add: fillPhone_def)
  then have "ar_phone (readSources f32 lops pops r2) = ar_phone r"
    using stages(4) by (simp add: readSources_def Let_def r3_def)
  then show ?thesis
    by (simp add: tick_eq tick_mixed_def r2_def [symmetric] ar_closeFade_frame ar_writeSink_def mixAndWrite_def
        split: prod.split option.split)
qed

lemma post_refines:
  assumes "rb_ok (ar_events r)" and "rb_capacity (ar_events r) = 256"
  shows "control_of (r\<lparr>ar_events := post e (ar_events r)\<rparr>) = k_post e (control_of r)"
    and "rb_capacity (post e (ar_events r)) = 256"
  using rb_write_correct [OF assms(1), of "[event_code e]"] assms(2)
  by (simp_all add: post_def control_of_def k_post_def Let_def)

lemma call_refines:
  fixes r :: "('l, 'p, 'k) audio_router" and lops :: "'l source_ops" and pops :: "'p source_ops" and kops :: "'k sink_ops"
  assumes src: "audio_source (so_read lops) lok" "audio_source (so_read pops) pok" and sf: "short_fades lok pok r"
  shows "control_of (router_step f32 lops pops kops c r) =
      k_step (ar_config r) (would_fail lops (ar_local r) (ar_localBuf r)) (would_fail pops (ar_phone r) (ar_phoneBuf r)) c (control_of r)"
    and "short_fades lok pok (router_step f32 lops pops kops c r)"
proof -
  have ok: "rb_ok (ar_events r)" "rb_capacity (ar_events r) = 256" "router_ok lok pok r" "gate_ok r" "fade_bounded r"
    using sf by (simp_all add: short_fades_def router_ok_def)
  have b: "control_of (r\<lparr>ar_lastHeartbeatFrame := f\<rparr>) = (control_of r)\<lparr>rk_beat := f\<rparr>" "rk_produced (control_of r) = ar_framesProduced r"
    "control_of (r\<lparr>ar_lastHeartbeatFrame := f, ar_events := post e (ar_events r)\<rparr>) = k_post e ((control_of r)\<lparr>rk_beat := f\<rparr>)" for f e
    using post_refines(1) [of "r\<lparr>ar_lastHeartbeatFrame := f\<rparr>" e] ok(1,2) by (simp_all add: control_of_def)
  show "control_of (router_step f32 lops pops kops c r) =
      k_step (ar_config r) (would_fail lops (ar_local r) (ar_localBuf r)) (would_fail pops (ar_phone r) (ar_phoneBuf r)) c (control_of r)"
    using tick_refines(1) [OF src sf] post_refines(1) [OF ok(1,2)] b
    by (cases c) (simp_all add: router_setMode_def startPtt_def stopPtt_def notifyPhoneReady_def notifyPhoneHeartbeat_def notifyPhoneGone_def)
  show "short_fades lok pok (router_step f32 lops pops kops c r)"
  proof (cases "c = RC_Tick")
    case True
    then show ?thesis using tick_refines(2) [OF src sf] by simp
  next
    case False
    then have "ar_gate (router_step f32 lops pops kops c r) = ar_gate r" "ar_config (router_step f32 lops pops kops c r) = ar_config r"
      "rb_capacity (ar_events (router_step f32 lops pops kops c r)) = 256"
      using ok(2) post_refines(2) [OF ok(1,2)]
      by (cases c; simp add: router_setMode_def startPtt_def stopPtt_def notifyPhoneReady_def notifyPhoneHeartbeat_def notifyPhoneGone_def)+
    then show ?thesis
      using router_ok_step [OF src ok(3)] gate.I_step [OF src ok(3,4)] fade_bound.I_step [OF src ok(3,5)] sf
      by (simp add: short_fades_def)
  qed
qed

section \<open>Histories\<close>

definition k_run :: "router_config \<Rightarrow> router_call list \<Rightarrow> router_control \<Rightarrow> router_control" where
  "k_run cfg cs k = fold (k_step cfg False False) cs k"

lemma max_fade_frame: "unat ms \<le> 20 \<Longrightarrow> rc_crossfadeMs cfg = ms \<Longrightarrow> max_fade cfg \<le> kFrameSamples"
proof -
  assume a: "unat ms \<le> 20" "rc_crossfadeMs cfg = ms"
  define n where "n = max 1 (millisToSamples ms)"
  have n: "n \<le> 960" using a(1) by (simp add: n_def millisToSamples_eq)
  have "f32 (real n) = real n" using f32_int [of "int n"] n by simp
  then have "max_fade cfg = max 1 n" by (simp add: max_fade_def a(2) n_def)
  then show ?thesis using n by simp
qed

lemma wired_short_fades:
  assumes "router_wired cfg l p k = Some r" and "\<forall>s. l = Some s \<longrightarrow> lok s" and "\<forall>s. p = Some s \<longrightarrow> pok s"
    and "unat (rc_crossfadeMs cfg) \<le> 20"
  shows "short_fades lok pok r \<and> control_of r = control_init \<and> ar_config r = cfg"
proof -
  obtain rb :: "u32 ring_buffer" where rb: "rb_new 0 256 = Some rb" "rb_contents rb = []"
      "256 \<le> rb_capacity rb" "rb_capacity rb < 2 * 256" "rb_ok rb"
    using rb_new_correct [of 256 0] by auto
  obtain e where e: "rb_capacity rb = 2 ^ e" using rb(5) by (auto simp: rb_ok_def)
  have "(2::nat) ^ 8 \<le> 2 ^ e" "(2::nat) ^ e < 2 ^ 9" using rb(3,4) e by simp_all
  then have "8 \<le> e" "e < 9" by (simp_all only: power_increasing_iff power_strict_increasing_iff)
  then have "e = 8" by simp
  then have cap: "rb_capacity rb = 256" using e by simp
  have "control_of r = control_init \<and> rb_capacity (ar_events r) = 256 \<and> gr_remaining (ar_gate r) = 0"
    using assms(1) rb(1,2) cap
    by (auto simp: router_wired_def router_new_def setSink_def setPhoneSource_def setLocalSource_def
        control_of_def control_init_def gr_new_def)
  then show ?thesis
    using router_wired_ok [OF assms(1-3)] gate_ok_wired [OF assms(1)] max_fade_frame [OF assms(4) refl]
    by (simp add: short_fades_def)
qed

lemma run_refines:
  fixes r :: "('l, 'p, 'k) audio_router" and lops :: "'l source_ops" and pops :: "'p source_ops" and kops :: "'k sink_ops"
  assumes src: "audio_source (so_read lops) lok" "audio_source (so_read pops) pok"
  shows "short_fades lok pok r \<Longrightarrow> short_fades lok pok (router_run f32 lops pops kops cs r) \<and>
      ar_config (router_run f32 lops pops kops cs r) = ar_config r \<and>
      (never_fails lops lok \<and> never_fails pops pok \<longrightarrow>
        control_of (router_run f32 lops pops kops cs r) = k_run (ar_config r) cs (control_of r))"
proof (induction cs arbitrary: r)
  case Nil
  then show ?case by (simp add: router_run_def k_run_def)
next
  case (Cons c cs)
  let ?r = "router_step f32 lops pops kops c r"
  note cr = call_refines [OF src Cons.prems, of kops c]
  have cfg: "ar_config ?r = ar_config r"
    using Cons.prems
    by (cases c) (simp_all add: short_fades_def router_ok_def tick_clock router_setMode_def startPtt_def stopPtt_def
        notifyPhoneReady_def notifyPhoneHeartbeat_def notifyPhoneGone_def)
  have nf: "never_fails lops lok \<Longrightarrow> \<not> would_fail lops (ar_local r) (ar_localBuf r)"
    "never_fails pops pok \<Longrightarrow> \<not> would_fail pops (ar_phone r) (ar_phoneBuf r)"
    using Cons.prems by (auto simp: would_fail_def never_fails_def short_fades_def router_ok_def split: option.split)
  have run: "router_run f32 lops pops kops (c # cs) r = router_run f32 lops pops kops cs ?r"
    "k_run (ar_config r) (c # cs) k = k_run (ar_config r) cs (k_step (ar_config r) False False c k)" for k
    by (simp_all add: router_run_def k_run_def)
  show ?case
    using Cons.IH [OF cr(2)] cfg nf cr(1) unfolding run by simp
qed

section \<open>The scripted run\<close>

definition demo_hold :: "nat \<Rightarrow> bool \<Rightarrow> router_call list" where
  "demo_hold frames heartbeat = concat (replicate frames (if heartbeat then [RC_Heartbeat, RC_Tick] else [RC_Tick]))"

text \<open>\<open>seconds\<close>: the argument is a \<open>double\<close> literal.\<close>

definition demo_seconds :: "(real \<Rightarrow> real) \<Rightarrow> real \<Rightarrow> nat" where
  "demo_seconds rd s = nat (trunc (rd (rd (rd s * 1000) / real kFrameMillis)))"

definition demo_script :: "(real \<Rightarrow> real) \<Rightarrow> router_call list" where
  "demo_script rd =
     (let seconds = demo_seconds rd
      in demo_hold (seconds 1) False @
         [RC_StartPtt, RC_Tick, RC_PhoneReady] @ demo_hold (seconds (3 / 2)) True @
         [RC_StopPtt] @ demo_hold (seconds 1) False @
         [RC_StartPtt, RC_Tick, RC_PhoneReady] @ demo_hold (seconds 1) True @ demo_hold (seconds (3 / 2)) False @
         [RC_SetMode Mode_Mute] @ demo_hold (seconds (6 / 10)) False @
         [RC_SetMode Mode_LocalOnly] @ demo_hold (seconds (6 / 10)) False @
         [RC_SetMode Mode_Auto] @ demo_hold (seconds (8 / 10)) False)"

definition tone_ops :: "(real \<Rightarrow> real) \<Rightarrow> (real \<Rightarrow> real) \<Rightarrow> tone_source source_ops" where
  "tone_ops rf rd = \<lparr>so_id = tn_id, so_read = tone_read rf rd\<rparr>"

definition wav_ops :: "(real \<Rightarrow> real) \<Rightarrow> wav_file_sink sink_ops" where
  "wav_ops rf = \<lparr>ko_write = wk_write rf\<rparr>"

definition demo_devices :: "device_info list" where
  "demo_devices =
     [\<lparr>di_id = ''{local}'', di_name = ''Simulated local microphone (220 Hz)'', di_isDefault = True,
       di_isSmartMicEndpoint = False, di_nativeRate = 48000, di_nativeChannels = 1\<rparr>,
      \<lparr>di_id = ''{smartmic}'', di_name = ''Smart Microphone'', di_isDefault = False,
       di_isSmartMicEndpoint = True, di_nativeRate = 48000, di_nativeChannels = 1\<rparr>]"

definition demo_registry :: "'cb device_registry" where
  "demo_registry = snd (dr_setPreferredInput ''{local}'' (snd (dr_setDevices demo_devices dr_init)))"

definition demo_config :: router_config where
  "demo_config = default_router_config\<lparr>rc_crossfadeMs := 15\<rparr>"

text \<open>
  \<open>runDemo\<close>: the exit code, the normal source it prints, and, when the file was created, the
  statistics it prints and the closed sink.
\<close>

definition runDemo ::
  "(real \<Rightarrow> real) \<Rightarrow> (real \<Rightarrow> real) \<Rightarrow> bool \<Rightarrow> nat \<Rightarrow> string
   \<Rightarrow> (int \<times> string \<times> (router_stats \<times> wav_file_sink) option) option" where
  "runDemo rf rd created size_limit outPath =
     (let loc = tone_new ''local'' 220 (rf (45 / 100));
          phone = tone_new ''phone'' 660 (rf (45 / 100));
          name = effectiveInputName (Some (demo_registry :: unit device_registry));
          (ok, snk) = wk_start created (wk_new ''wav'' outPath size_limit)
      in if \<not> ok then Some (1, [], None)
         else
           map_option (\<lambda>r0.
             let r = router_run rf (tone_ops rf rd) (tone_ops rf rd) (wav_ops rf) (demo_script rd) r0;
                 snk' = (case ar_sink r of Some k \<Rightarrow> wk_stop k | None \<Rightarrow> snk);
                 s = router_stats_of r
             in (if st_phoneLostEvents s \<noteq> 1 then 1 else 0, name, Some (s, snk')))
             (router_wired demo_config (Some (snd (tone_start loc))) (Some (snd (tone_start phone))) (Some snk)))"

section \<open>Its durations\<close>

lemma rne_near: "\<bar>x - of_int n\<bar> < 1 / 2 \<Longrightarrow> rne x = n"
  using rne_bounds [of x] by linarith

lemma rnd_near:
  assumes "2 powi (int p + k - 1) \<le> x" and "x < 2 powi (int p + k)" and "emin < k" and "k \<le> emax"
    and "\<bar>x - of_int n * 2 powi k\<bar> < 2 powi k / 2"
  shows "rnd p emin emax x = of_int n * 2 powi k"
proof -
  have pos: "(0::real) < 2 powi (int p + k - 1)" "(0::real) < 2 powi k" by simp_all
  then have x: "0 < x" using assms(1) by linarith
  have le: "flexp p emin emax x \<le> k" by (rule flexp_le) (use assms x in simp_all)
  have e: "flexp p emin emax x = k"
  proof (rule ccontr)
    assume "flexp p emin emax x \<noteq> k"
    with le have l: "flexp p emin emax x < k" by simp
    then have "\<bar>x\<bar> < 2 powi (int p + flexp p emin emax x)" by (intro flexp_fits) (use assms(4) in simp)
    also have "\<dots> \<le> 2 powi (int p + k - 1)" by (rule power_int_increasing) (use l in simp_all)
    finally show False using assms(1) x by simp
  qed
  have "\<bar>x / 2 powi k - of_int n\<bar> * 2 powi k < 1 / 2 * 2 powi k"
  proof -
    have "(x / 2 powi k - of_int n) * 2 powi k = x - of_int n * 2 powi k" by (simp add: left_diff_distrib)
    then have "\<bar>x / 2 powi k - of_int n\<bar> * \<bar>2 powi k\<bar> = \<bar>x - of_int n * 2 powi k\<bar>" by (simp only: abs_mult [symmetric])
    then show ?thesis using assms(5) by simp
  qed
  then have "\<bar>x / 2 powi k - of_int n\<bar> < 1 / 2" by (rule mult_right_less_imp_less) simp
  then have "rne (\<bar>x\<bar> / 2 powi k) = n" using x by (intro rne_near) simp
  then show ?thesis using x by (simp add: rnd_def Let_def e)
qed

lemma demo_tenths:
  assumes "m \<in> {6, 8 :: int}"
  shows "f64 (f64 (of_int m / 10) * 1000) = of_int (100 * m)"
proof -
  define x where "x = f64 (of_int m / 10)"
  have "\<bar>x - of_int m / 10\<bar> \<le> 2 powi (- 53) / 2"
    unfolding x_def f64_def by (rule rnd_error) (use assms in auto)
  then have x: "\<bar>x - of_int m / 10\<bar> \<le> 1 / 2 ^ 54" by (simp add: power_int_minus)
  then have d: "\<bar>x * 1000 - of_int (100 * m)\<bar> \<le> 1000 / 2 ^ 54" unfolding abs_le_iff by simp
  have k: "(2::real) powi (- 43) = 1 / 2 ^ 43" by (simp add: power_int_minus)
  have "f64 (x * 1000) = of_int (100 * m * 2 ^ 43) * 2 powi (- 43)"
    unfolding f64_def
  proof (rule rnd_near)
    show "2 powi (int 53 + (- 43) - 1) \<le> x * 1000" "x * 1000 < 2 powi (int 53 + (- 43))"
      using d assms unfolding abs_le_iff by auto
    show "\<bar>x * 1000 - of_int (100 * m * 2 ^ 43) * 2 powi (- 43)\<bar> < 2 powi (- 43) / 2"
      using d by (simp add: k)
  qed simp_all
  then show ?thesis by (simp add: x_def k)
qed

lemma demo_seconds_f64:
  "demo_seconds f64 1 = 50" "demo_seconds f64 (3 / 2) = 75" "demo_seconds f64 (6 / 10) = 30" "demo_seconds f64 (8 / 10) = 40"
proof -
  have i: "f64 (of_int m) = of_int m" if "\<bar>m\<bar> < 2 ^ 53" for m using f64_div [of m 0] that by simp
  have n: "f64 1000 = 1000" "f64 50 = 50" "f64 1500 = 1500" "f64 75 = 75" "f64 30 = 30" "f64 40 = 40" "f64 (3 / 2) = 3 / 2"
    using i [of 1000] i [of 50] i [of 1500] i [of 75] i [of 30] i [of 40] f64_div [of 3 1] by simp_all
  have t: "f64 (f64 (3 / 5) * 1000) = 600" "f64 (f64 (4 / 5) * 1000) = 800"
    using demo_tenths [of 6] demo_tenths [of 8] by simp_all
  show "demo_seconds f64 1 = 50" "demo_seconds f64 (3 / 2) = 75" "demo_seconds f64 (6 / 10) = 30" "demo_seconds f64 (8 / 10) = 40"
    by (simp_all add: demo_seconds_def n t f64.fl_1 kFrameMillis_def trunc_def)
qed
section \<open>Its course\<close>

text \<open>The control machine between calls of the script; clocks are small numbers.\<close>

definition kk :: "source_state \<Rightarrow> routing_mode \<Rightarrow> nat \<Rightarrow> nat \<Rightarrow> nat \<Rightarrow> u64 \<Rightarrow> u64 \<Rightarrow> router_control" where
  "kk s m c a b tr lo =
     \<lparr>rk_sm = \<lparr>sm_state = s, sm_mode = m\<rparr>, rk_queue = [], rk_clock = of_nat c, rk_produced = of_nat c, rk_arm = of_nat a,
      rk_beat = of_nat b, rk_transitions = tr, rk_lost = lo, rk_armTimeouts = 0, rk_failures = 0\<rparr>"

lemma framesFor_demo: "framesFor (rc_phoneLostTimeoutMs demo_config) = 30" "framesFor (rc_armTimeoutMs demo_config) = 75"
  by (simp_all add: framesFor_def demo_config_def default_router_config_def kFrameMillis_def)

lemmas k_steps = k_post_def q_keep_def k_tick_def k_drain_def k_timers_def k_source_def k_close_def k_raw_def k_event_def
  sm_apply_def Let_def kk_def silent_state_def framesFor_demo

lemma of_nat_diff_less:
  assumes "b \<le> c" and "c < 2 ^ 32"
  shows "(of_nat b :: u64) < of_nat c \<longleftrightarrow> b < c" and "(30 :: u64) < of_nat c - of_nat b \<longleftrightarrow> 30 < c - b"
proof -
  have u: "unat (of_nat n :: u64) = n" if "n \<le> c" for n using that assms(2) by (intro unat_of_nat_u64) simp
  show "(of_nat b :: u64) < of_nat c \<longleftrightarrow> b < c" using assms(1) by (simp add: word_less_nat_alt u)
  have "(of_nat c :: u64) - of_nat b = of_nat (c - b)" using assms(1) by (simp add: of_nat_diff)
  then show "(30 :: u64) < of_nat c - of_nat b \<longleftrightarrow> 30 < c - b"
    using u [of "c - b"] by (simp add: word_less_nat_alt)
qed

lemma kk_rest:
  "s \<in> {LocalActive, LocalOnly, Muted} \<Longrightarrow> k_run demo_config (demo_hold n False) (kk s m c a b tr lo) = kk s m (c + n) a b tr lo"
proof (induction n arbitrary: c)
  case (Suc n)
  then have "k_step demo_config False False RC_Tick (kk s m c a b tr lo) = kk s m (Suc c) a b tr lo"
    by (auto simp: k_steps)
  then show ?case using Suc.IH [of "Suc c"] Suc.prems by (simp add: k_run_def demo_hold_def)
qed (simp add: k_run_def demo_hold_def)

lemma kk_arm:
  "k_run demo_config [RC_StartPtt, RC_Tick] (kk LocalActive Mode_Auto c a b tr lo) =
   kk PhoneArming Mode_Auto (c + 1) c c (tr + 1) lo"
  by (simp add: k_run_def k_steps del: event_code.simps)

lemma kk_ready:
  "k_run demo_config [RC_PhoneReady, RC_Heartbeat, RC_Tick] (kk PhoneArming Mode_Auto c a b tr lo) =
   kk PhoneActive Mode_Auto (c + 1) a c (tr + 1) lo"
  by (simp add: k_run_def k_steps del: event_code.simps)

lemma kk_beats:
  "k_run demo_config (demo_hold n True) (kk PhoneActive Mode_Auto (Suc c) a c tr lo) =
   kk PhoneActive Mode_Auto (Suc (c + n)) a (c + n) tr lo"
proof (induction n arbitrary: c)
  case (Suc n)
  have "k_run demo_config [RC_Heartbeat, RC_Tick] (kk PhoneActive Mode_Auto (Suc c) a c tr lo) =
      kk PhoneActive Mode_Auto (Suc (Suc c)) a (Suc c) tr lo"
    by (simp add: k_run_def k_steps del: event_code.simps)
  then show ?case using Suc.IH [of "Suc c"] by (simp add: k_run_def demo_hold_def)
qed (simp add: k_run_def demo_hold_def)

lemma kk_release:
  "k_run demo_config [RC_StopPtt, RC_Tick] (kk PhoneActive Mode_Auto c a b tr lo) = kk LocalActive Mode_Auto (c + 1) a b (tr + 2) lo"
  by (simp add: k_run_def k_steps del: event_code.simps)

lemma kk_silent:
  "b \<le> c \<Longrightarrow> c + n < 2 ^ 32 \<Longrightarrow> c + n - b \<le> 31 \<Longrightarrow>
   k_run demo_config (demo_hold n False) (kk PhoneActive Mode_Auto c a b tr lo) = kk PhoneActive Mode_Auto (c + n) a b tr lo"
proof (induction n arbitrary: c)
  case (Suc n)
  have "k_step demo_config False False RC_Tick (kk PhoneActive Mode_Auto c a b tr lo) = kk PhoneActive Mode_Auto (Suc c) a b tr lo"
  proof -
    have "b \<le> c" "c < 2 ^ 32" "\<not> 30 < c - b" using Suc.prems by linarith+
    then show ?thesis using of_nat_diff_less [of b c] by (auto simp: k_steps)
  qed
  then show ?case using Suc.IH [of "Suc c"] Suc.prems by (simp add: k_run_def demo_hold_def)
qed (simp add: k_run_def demo_hold_def)

lemma kk_lost:
  "b + 30 < c \<Longrightarrow> c < 2 ^ 32 \<Longrightarrow>
   k_run demo_config [RC_Tick] (kk PhoneActive Mode_Auto c a b tr lo) = kk LocalActive Mode_Auto (c + 1) a b (tr + 2) (lo + 1)"
  using of_nat_diff_less [of b c] by (simp add: k_run_def k_steps del: event_code.simps)

lemma kk_mode:
  "k_run demo_config [RC_SetMode Mode_Mute, RC_Tick] (kk LocalActive Mode_Auto c a b tr lo) = kk Muted Mode_Mute (c + 1) a b (tr + 1) lo"
  "k_run demo_config [RC_SetMode Mode_LocalOnly, RC_Tick] (kk Muted Mode_Mute c a b tr lo) = kk LocalOnly Mode_LocalOnly (c + 1) a b (tr + 1) lo"
  "k_run demo_config [RC_SetMode Mode_Auto, RC_Tick] (kk LocalOnly Mode_LocalOnly c a b tr lo) = kk LocalActive Mode_Auto (c + 1) a b (tr + 1) lo"
  by (simp_all add: k_run_def k_steps del: event_code.simps)
lemma k_run_append: "k_run cfg (xs @ ys) k = k_run cfg ys (k_run cfg xs k)"
  by (simp add: k_run_def)

lemma demo_hold_add: "demo_hold (m + n) hb = demo_hold m hb @ demo_hold n hb"
  by (simp add: demo_hold_def replicate_add)

text \<open>The script cut where the machine changes state.\<close>

lemma demo_script_cut:
  "demo_script f64 =
     demo_hold 50 False @ [RC_StartPtt, RC_Tick] @ [RC_PhoneReady, RC_Heartbeat, RC_Tick] @ demo_hold 74 True @
     [RC_StopPtt, RC_Tick] @ demo_hold 49 False @ [RC_StartPtt, RC_Tick] @ [RC_PhoneReady, RC_Heartbeat, RC_Tick] @
     demo_hold 49 True @ demo_hold 30 False @ [RC_Tick] @ demo_hold 44 False @
     [RC_SetMode Mode_Mute, RC_Tick] @ demo_hold 29 False @ [RC_SetMode Mode_LocalOnly, RC_Tick] @ demo_hold 29 False @
     [RC_SetMode Mode_Auto, RC_Tick] @ demo_hold 39 False"
proof -
  have one: "demo_hold 1 True = [RC_Heartbeat, RC_Tick]" "demo_hold 1 False = [RC_Tick]" by (simp_all add: demo_hold_def)
  have h: "demo_hold 75 True = [RC_Heartbeat, RC_Tick] @ demo_hold 74 True" "demo_hold 50 True = [RC_Heartbeat, RC_Tick] @ demo_hold 49 True"
    "[RC_StopPtt] @ demo_hold 50 False @ xs = [RC_StopPtt, RC_Tick] @ demo_hold 49 False @ xs"
    "[RC_SetMode m] @ demo_hold 30 False @ xs = [RC_SetMode m, RC_Tick] @ demo_hold 29 False @ xs"
    "[RC_SetMode m] @ demo_hold 40 False = [RC_SetMode m, RC_Tick] @ demo_hold 39 False" for m xs
    using demo_hold_add [of 1 74 True] demo_hold_add [of 1 49 True] demo_hold_add [of 1 29 False] demo_hold_add [of 1 39 False]
      demo_hold_add [of 1 49 False] one by simp_all
  have l: "demo_hold 75 False = demo_hold 30 False @ [RC_Tick] @ demo_hold 44 False"
    using demo_hold_add [of 30 45 False] demo_hold_add [of 1 44 False] one by simp
  show ?thesis
    unfolding demo_script_def Let_def demo_seconds_f64 h l by simp
qed

lemma demo_course: "k_run demo_config (demo_script f64) control_init = kk LocalActive Mode_Auto 402 176 226 11 1"
proof -
  have i: "control_init = kk LocalActive Mode_Auto 0 0 0 0 0" by (simp add: control_init_def kk_def sm_init_def)
  have b: "k_run demo_config (demo_hold 74 True) (kk PhoneActive Mode_Auto 52 a 51 tr lo) = kk PhoneActive Mode_Auto 126 a 125 tr lo"
    "k_run demo_config (demo_hold 49 True) (kk PhoneActive Mode_Auto 178 a 177 tr lo) = kk PhoneActive Mode_Auto 227 a 226 tr lo" for a tr lo
    using kk_beats [of 74 51 a tr lo] kk_beats [of 49 177 a tr lo] by simp_all
  show ?thesis
    unfolding demo_script_cut i
    by (simp only: k_run_append)
       (simp add: kk_rest kk_arm kk_ready b kk_release kk_silent kk_lost kk_mode)
qed

section \<open>What the sink holds\<close>

lemma wav_tick:
  assumes "router_ok lok pok r" and "audio_source (so_read lops) lok" and "audio_source (so_read pops) pok"
    and "ar_sink r = Some s" and "wk_holds ws s" and "44 + 2 * (length ws + 960) \<le> wk_size s"
  shows "\<exists>s' ws'. ar_sink (snd (tick f32 lops pops (wav_ops f32) r)) = Some s' \<and> wk_holds ws' s' \<and>
    length ws' = length ws + 960 \<and> wk_size s' = wk_size s"
proof -
  let ?m = "tick_mixed f32 lops pops r"
  have len: "length (ar_outBuf ?m) = 960" unfolding tick_mixed_def mixAndWrite_result by simp
  have snk: "ar_sink ?m = Some s"
    using assms(1,4) drainEvents_result [of r f32] by (simp add: tick_mixed_def step_simps router_ok_def)
  have "44 + 2 * (length ws + length (ar_outBuf ?m)) \<le> wk_size s" using len assms(6) by simp
  note w = wk_write_holds [OF assms(5) this, of f32]
  show ?thesis
    unfolding tick_eq using w snk len
    by (intro exI [of _ "snd (wk_write f32 (ar_outBuf ?m) s)"] exI [of _ "ws @ map (wk_pcm f32) (ar_outBuf ?m)"])
       (simp add: ar_closeFade_frame ar_writeSink_def wav_ops_def split: prod.split)
qed

fun tick_count :: "router_call list \<Rightarrow> nat" where
  "tick_count [] = 0"
| "tick_count (c # cs) = (if c = RC_Tick then 1 else 0) + tick_count cs"

lemma tick_count_append [simp]: "tick_count (xs @ ys) = tick_count xs + tick_count ys"
  by (induction xs) simp_all

lemma tick_count_hold [simp]: "tick_count (demo_hold n hb) = n"
  by (induction n) (simp_all add: demo_hold_def)

lemma wav_run:
  fixes lops :: "'l source_ops" and pops :: "'p source_ops"
  assumes src: "audio_source (so_read lops) lok" "audio_source (so_read pops) pok"
  shows "router_ok lok pok r \<Longrightarrow> ar_sink r = Some s \<Longrightarrow> wk_holds ws s \<Longrightarrow>
    44 + 2 * (length ws + 960 * tick_count cs) \<le> wk_size s \<Longrightarrow>
    \<exists>s' ws'. ar_sink (router_run f32 lops pops (wav_ops f32) cs r) = Some s' \<and> wk_holds ws' s' \<and>
      length ws' = length ws + 960 * tick_count cs"
proof (induction cs arbitrary: r s ws)
  case Nil
  then show ?case by (auto simp: router_run_def)
next
  case (Cons c cs)
  let ?r = "router_step f32 lops pops (wav_ops f32) c r"
  have ok: "router_ok lok pok ?r" by (rule router_ok_step [OF src Cons.prems(1)])
  have run: "router_run f32 lops pops (wav_ops f32) (c # cs) r = router_run f32 lops pops (wav_ops f32) cs ?r"
    by (simp add: router_run_def)
  show ?case
  proof (cases "c = RC_Tick")
    case True
    obtain s1 ws1 where w: "ar_sink ?r = Some s1" "wk_holds ws1 s1" "length ws1 = length ws + 960" "wk_size s1 = wk_size s"
      using wav_tick [OF Cons.prems(1) src Cons.prems(2,3)] Cons.prems(4) True by auto
    show ?thesis unfolding run using Cons.IH [OF ok w(1,2)] w(3,4) Cons.prems(4) True by (simp add: add.assoc)
  next
    case False
    then have "ar_sink ?r = Some s"
      using Cons.prems(2) by (cases c) (simp_all add: router_setMode_def startPtt_def stopPtt_def notifyPhoneReady_def
          notifyPhoneHeartbeat_def notifyPhoneGone_def)
    then show ?thesis unfolding run using Cons.IH [OF ok _ Cons.prems(3)] Cons.prems(4) False by simp
  qed
qed
lemma tone_ops_source: "audio_source (so_read (tone_ops rf rd)) (\<lambda>s. \<not> tn_failed s)"
proof
  show "length (fst (so_read (tone_ops rf rd) buf s)) = length buf" for buf s
    using tone.read_length [where rf = rf and rd = rd and buf = buf and s = s] by (simp add: tone_ops_def)
  show "\<not> tn_failed s \<Longrightarrow> \<not> tn_failed (snd (snd (so_read (tone_ops rf rd) buf s)))" for buf s
    by (simp add: tone_ops_def tone_read_def Let_def split: prod.split)
qed

section \<open>Properties\<close>

text \<open>
  C39: the router's control is a machine without audio. With a crossfade of at most a frame and any
  well-behaved sources and sink, a wired router starts as the control machine does, and after any
  history of calls and ticks the next one changes the mode machine, the queue of events, the clocks
  and the counters as the step of that machine does, which sees of the samples only whether a source
  would report a failure. When the sources never fail, whole histories agree.
\<close>

theorem router_control_refines:
  fixes lops :: "'l source_ops" and pops :: "'p source_ops" and kops :: "'k sink_ops"
  assumes "audio_source (so_read lops) lok" and "audio_source (so_read pops) pok"
    and "router_wired cfg l p k = Some r0"
    and "\<forall>s. l = Some s \<longrightarrow> lok s" and "\<forall>s. p = Some s \<longrightarrow> pok s" and "unat (rc_crossfadeMs cfg) \<le> 20"
  shows "control_of r0 = control_init \<and>
    (\<forall>cs c. let r = router_run f32 lops pops kops cs r0
            in control_of (router_step f32 lops pops kops c r) =
               k_step cfg (would_fail lops (ar_local r) (ar_localBuf r)) (would_fail pops (ar_phone r) (ar_phoneBuf r)) c
                 (control_of r)) \<and>
    (never_fails lops lok \<and> never_fails pops pok \<longrightarrow>
       (\<forall>cs. control_of (router_run f32 lops pops kops cs r0) = k_run cfg cs control_init))"
proof -
  have w: "short_fades lok pok r0" "control_of r0 = control_init" "ar_config r0 = cfg"
    using wired_short_fades [OF assms(3-6)] by simp_all
  note run = run_refines [OF assms(1,2) w(1), of kops]
  show ?thesis
    using w(2,3) run call_refines(1) [OF assms(1,2), of _ kops] by (simp add: Let_def)
qed

text \<open>
  The scripted run ends well. With room for the file, the program exits with 0: it has seen exactly one
  loss of the phone, is back on the local microphone after 402 frames and 11 transitions, no source
  has failed and no arming has timed out, and the file holds 402 frames of 960 samples.
\<close>

theorem router_control_refines_witness:
  "\<exists>s snk ws. runDemo f32 f64 True 771884 ''demo.wav'' =
       Some (0, ''Simulated local microphone (220 Hz)'', Some (s, snk)) \<and>
     st_framesProduced s = 402 \<and> st_transitions s = 11 \<and> st_phoneLostEvents s = 1 \<and> st_armTimeouts s = 0 \<and>
     st_sourceFailures s = 0 \<and> st_state s = LocalActive \<and> st_mode s = Mode_Auto \<and>
     wk_disk snk = wav_image ws \<and> length ws = 402 * 960"
proof -
  let ?ops = "tone_ops f32 f64" and ?ok = "\<lambda>s. \<not> tn_failed s"
  let ?l = "snd (tone_start (tone_new ''local'' 220 (f32 (45 / 100))))"
  let ?p = "snd (tone_start (tone_new ''phone'' 660 (f32 (45 / 100))))"
  obtain k0 where st: "wk_start True (wk_new ''wav'' ''demo.wav'' 771884) = (True, k0)" by (simp add: wk_start_def)
  have src: "audio_source (so_read ?ops) ?ok" by (rule tone_ops_source)
  have nf: "never_fails ?ops ?ok"
    by (auto simp: never_fails_def tone_ops_def tone_read_def Let_def split: prod.split)
  obtain r0 where r0: "router_wired demo_config (Some ?l) (Some ?p) (Some k0) = Some r0" using router_wired_Some by blast
  have good: "\<forall>s. Some ?l = Some s \<longrightarrow> ?ok s" "\<forall>s. Some ?p = Some s \<longrightarrow> ?ok s" "unat (rc_crossfadeMs demo_config) \<le> 20"
    by (simp_all add: tone_start_def tone_new_def demo_config_def)
  define r where "r = router_run f32 ?ops ?ops (wav_ops f32) (demo_script f64) r0"
  have c: "control_of r = kk LocalActive Mode_Auto 402 176 226 11 1"
    using router_control_refines [OF src src r0 good, of "wav_ops f32"] nf demo_course by (simp add: r_def)
  have "router_ok ?ok ?ok r0" "ar_sink r0 = Some k0"
    using router_wired_ok [OF r0 good(1,2)] r0
    by (auto simp: router_wired_def setSink_def setPhoneSource_def setLocalSource_def)
  moreover have "wk_holds [] k0" "wk_size k0 = 771884"
    using wk_start_holds [of 771884 "''wav''" "''demo.wav''"] wk_start_size [of "''wav''" "''demo.wav''" 771884] st by simp_all
  moreover have n: "tick_count (demo_script f64) = 402" by (simp add: demo_script_cut)
  ultimately obtain k ws where k: "ar_sink r = Some k" "wk_holds ws k" "length ws = 402 * 960"
    using wav_run [OF src src, of r0 k0 "[]" "demo_script f64"] unfolding r_def by auto
  have name: "effectiveInputName (Some (demo_registry :: unit device_registry)) = ''Simulated local microphone (220 Hz)''"
    by (simp add: effectiveInputName_def demo_registry_def dr_setDevices_def demo_devices_def dr_setPreferredInput_def
        dr_init_def dr_resolveEffectiveInput_def Let_def)
  have run: "runDemo f32 f64 True 771884 ''demo.wav'' =
      Some (if st_phoneLostEvents (router_stats_of r) \<noteq> 1 then 1 else 0, ''Simulated local microphone (220 Hz)'',
        Some (router_stats_of r, wk_stop k))"
    by (simp only: runDemo_def Let_def name st prod.case not_True_eq_False if_False r0 option.map r_def [symmetric]
        k(1) option.case)
  show ?thesis
    using c by (intro exI [of _ "router_stats_of r"] exI [of _ "wk_stop k"] exI [of _ ws])
      (simp add: run wk_stop_image [OF k(2)] k(3) router_stats_of_def control_of_def kk_def)
qed

end
