(* ===== verification/RouterApp.thy ===== *)
theory RouterApp
  imports RouterControl DeviceAudio
begin

text \<open>
  The command line of \<^verbatim>\<open>windows/audio-service/app/main.cpp\<close> and its live mode on Windows: a capture
  device, a tone in the place of the phone and the render sink around the router, driven by lines of
  text. The lemmas show that a press is never answered there, so that the tone is never heard.
\<close>

section \<open>The command line\<close>

datatype app_command = App_Usage | App_Demo string | App_List | App_Run string string

fun run_options :: "string list \<Rightarrow> string \<times> string \<Rightarrow> string \<times> string" where
  "run_options (k # v # rest) (inId, outId) =
     run_options rest (if k = ''--in'' then (v, outId) else if k = ''--out'' then (inId, v) else (inId, outId))"
| "run_options _ io = io"

text \<open>\<open>wasapi\<close>: the program is built with the Windows back end.\<close>

definition app_main :: "bool \<Rightarrow> string list \<Rightarrow> app_command" where
  "app_main wasapi argv =
     (if length argv < 2 then App_Usage
      else
        let cmd = argv ! 1
        in if cmd = ''demo'' then (if length argv < 3 then App_Usage else App_Demo (argv ! 2))
           else if wasapi \<and> cmd = ''list'' then App_List
           else if wasapi \<and> cmd = ''run'' then
             (let (inId, outId) = run_options (drop 2 argv) ([], [])
              in if inId = [] \<or> outId = [] then App_Usage else App_Run inId outId)
           else App_Usage)"

section \<open>The live mode\<close>

type_synonym live_router = "(wasapi_source, tone_source, wasapi_sink) audio_router"

definition mic_ops :: "wasapi_source source_ops" where
  "mic_ops = \<lparr>so_id = wc_id, so_read = wc_read\<rparr>"

definition cable_ops :: "wasapi_sink sink_ops" where
  "cable_ops = \<lparr>ko_write = wr_write\<rparr>"

text \<open>
  Setting up: the enumerator comes up or not, the devices it lists, what the system answers for the two
  streams. \<open>Inl\<close> is the exit code of a run that ends here.
\<close>

definition live_start ::
  "(real \<Rightarrow> real) \<Rightarrow> (real \<Rightarrow> real) \<Rightarrow> bool \<Rightarrow> device_info list \<Rightarrow> wasapi_answer \<Rightarrow> wasapi_answer \<Rightarrow> string \<Rightarrow> string
   \<Rightarrow> (int + live_router \<times> unit device_registry) option" where
  "live_start rf rd en_ok devices la sa inId outId =
     (if \<not> en_ok then Some (Inl 1)
      else
        let (picked, reg) = dr_setPreferredInput inId (snd (dr_setDevices devices dr_init))
        in if \<not> picked then Some (Inl 1)
           else
             (case (wc_new ''local'' inId, wr_new ''cable'' outId) of
                (Some l0, Some k0) \<Rightarrow>
                  let (lok, l) = wc_start rd la l0
                  in if \<not> lok then Some (Inl 1)
                     else
                       let (kok, k) = wr_start sa k0
                       in if \<not> kok then Some (Inl 1)
                          else
                            let p = snd (tone_start (tone_new ''phone'' 660 (rf (4 / 10))))
                            in map_option (\<lambda>r. Inr (r, reg)) (router_wired default_router_config (Some l) (Some p) (Some k))
              | _ \<Rightarrow> None))"

text \<open>\<open>onDevicesChanged\<close>\<close>

definition live_devices :: "device_info list \<Rightarrow> unit device_registry \<Rightarrow> unit device_registry" where
  "live_devices devices reg = snd (dr_setDevices devices reg)"

text \<open>One line of input as calls of the router; \<open>None\<close> is \<open>q\<close>.\<close>

definition live_line :: "string \<Rightarrow> router_call list option" where
  "live_line s =
     (if s = ''p'' then Some [RC_StartPtt] else if s = ''r'' then Some [RC_StopPtt]
      else if s = ''1'' then Some [RC_SetMode Mode_Auto] else if s = ''2'' then Some [RC_SetMode Mode_PhoneOnly]
      else if s = ''3'' then Some [RC_SetMode Mode_LocalOnly] else if s = ''4'' then Some [RC_SetMode Mode_Mute]
      else if s = ''q'' then None else Some [])"

text \<open>One pass of the audio thread.\<close>

definition live_pass :: "(real \<Rightarrow> real) \<Rightarrow> (real \<Rightarrow> real) \<Rightarrow> live_router \<Rightarrow> live_router" where
  "live_pass rf rd r =
     (let r1 = snd (tick rf mic_ops (tone_ops rf rd) cable_ops r)
      in if sm_state (ar_sm r1) = PhoneActive then notifyPhoneHeartbeat r1 else r1)"

text \<open>What happens to the router: a line, or a pass.\<close>

datatype live_step = LS_Line string | LS_Pass

fun live_do :: "(real \<Rightarrow> real) \<Rightarrow> (real \<Rightarrow> real) \<Rightarrow> live_step \<Rightarrow> live_router \<Rightarrow> live_router" where
  "live_do rf rd (LS_Line s) r =
     (case live_line s of Some cs \<Rightarrow> router_run rf mic_ops (tone_ops rf rd) cable_ops cs r | None \<Rightarrow> r)"
| "live_do rf rd LS_Pass r = live_pass rf rd r"

definition live_stop :: "live_router \<Rightarrow> live_router" where
  "live_stop r = r\<lparr>ar_local := map_option wc_stop (ar_local r), ar_sink := map_option wr_stop (ar_sink r)\<rparr>"

section \<open>A press is never answered\<close>

lemma mic_ops_source: "audio_source (so_read mic_ops) wc_ok"
  by unfold_locales (simp_all add: mic_ops_def wasapi_mic.read_length wasapi_mic.read_ok)

text \<open>No acknowledgement is queued, and the phone is not on.\<close>

definition unanswered :: "router_control \<Rightarrow> bool" where
  "unanswered k \<longleftrightarrow> event_code Ev_PhoneReady \<notin> set (rk_queue k) \<and> ks k \<noteq> PhoneActive"

lemma k_event_off: "ks k \<noteq> PhoneActive \<Longrightarrow> e \<noteq> Ev_PhoneReady \<Longrightarrow> ks (k_event e k) \<noteq> PhoneActive"
  using sm_next_not_PhoneActive [of e "rk_sm k"] by (auto simp add: k_event_def Let_def split: prod.split)

lemma k_event_queue [simp]: "rk_queue (k_event e k) = rk_queue k"
  by (simp add: k_event_def Let_def split: prod.split)

lemma ready_is_second: "list_all (\<lambda>n. events_in_order ! n = Ev_PhoneReady \<longrightarrow> n = 2) [0..<12]"
  by code_simp

lemma event_of_code_ready: "event_of_code c = Some Ev_PhoneReady \<Longrightarrow> c = event_code Ev_PhoneReady"
proof -
  assume a: "event_of_code c = Some Ev_PhoneReady"
  then have "unat c < 12" "events_in_order ! unat c = Ev_PhoneReady" by (auto simp: event_of_code_def split: if_splits)
  then have "unat c = 2" using ready_is_second by (simp only: list_all_iff atLeastLessThan_upt [symmetric] atLeastLessThan_iff) auto
  then show ?thesis by (simp add: word_unat_eq_iff)
qed

lemma k_raw_off:
  assumes "ks k \<noteq> PhoneActive" and "c \<noteq> event_code Ev_PhoneReady"
  shows "ks (k_raw c k) \<noteq> PhoneActive" and "rk_queue (k_raw c k) = rk_queue k"
proof -
  show "rk_queue (k_raw c k) = rk_queue k" by (simp add: k_raw_def split: option.split)
  show "ks (k_raw c k) \<noteq> PhoneActive"
  proof (cases "event_of_code c")
    case (Some e)
    then have "e \<noteq> Ev_PhoneReady" using event_of_code_ready [of c] assms(2) by blast
    then show ?thesis using k_event_off [OF assms(1)] Some by (simp add: k_raw_def)
  qed (use assms(1) in \<open>simp add: k_raw_def\<close>)
qed

lemma k_raws_off:
  "ks k \<noteq> PhoneActive \<Longrightarrow> event_code Ev_PhoneReady \<notin> set q \<Longrightarrow>
   ks (fold k_raw q k) \<noteq> PhoneActive \<and> rk_queue (fold k_raw q k) = rk_queue k"
proof (induction q arbitrary: k)
  case (Cons c q)
  have c: "c \<noteq> event_code Ev_PhoneReady" "event_code Ev_PhoneReady \<notin> set q" using Cons.prems(2) by auto
  show ?case using Cons.IH [OF k_raw_off(1) [OF Cons.prems(1) c(1)] c(2)] k_raw_off(2) [OF Cons.prems(1) c(1)] by simp
qed simp

lemma k_tick_off:
  assumes "unanswered k"
  shows "unanswered (k_tick cfg lf pf k)"
proof -
  define k1 where "k1 = k_drain k"
  have k1: "ks k1 \<noteq> PhoneActive" "rk_queue k1 = []"
    using k_raws_off [of "k\<lparr>rk_queue := []\<rparr>" "rk_queue k"] assms by (simp_all add: k1_def k_drain_def unanswered_def)
  have t: "ks (k_timers cfg k') \<noteq> PhoneActive \<and> rk_queue (k_timers cfg k') = rk_queue k'" if "ks k' \<noteq> PhoneActive" for k'
    using that k_event_off by (auto simp: k_timers_def)
  have s: "ks (k_source a f k') \<noteq> PhoneActive \<and> rk_queue (k_source a f k') = rk_queue k'" if "ks k' \<noteq> PhoneActive" for a f k'
    using that k_event_off by (auto simp: k_source_def)
  have c: "ks (k_close k') \<noteq> PhoneActive \<and> rk_queue (k_close k') = rk_queue k'" if "ks k' \<noteq> PhoneActive" for k'
    using that k_event_off by (auto simp: k_close_def)
  show ?thesis
    unfolding unanswered_def k_tick_def Let_def k1_def [symmetric]
    using t [OF k1(1)] k1(2) s c by simp
qed

lemma k_post_off: "e \<noteq> Ev_PhoneReady \<Longrightarrow> unanswered k \<Longrightarrow> unanswered (k_post e k)"
  by (cases e) (auto simp: unanswered_def k_post_def q_keep_def dest: in_set_dropD)

lemma k_step_off: "c \<noteq> RC_PhoneReady \<Longrightarrow> unanswered k \<Longrightarrow> unanswered (k_step cfg lf pf c k)"
proof (cases c)
  case (RC_SetMode m)
  moreover assume "unanswered k"
  moreover have "mode_event m \<noteq> Ev_PhoneReady" by (cases m) simp_all
  ultimately show ?thesis by (simp add: k_post_off)
qed (auto simp: k_tick_off intro!: k_post_off, simp_all add: unanswered_def)

lemma live_line_quiet: "live_line s = Some cs \<Longrightarrow> RC_PhoneReady \<notin> set cs"
  by (auto simp: live_line_def split: if_splits)

text \<open>What a live router keeps.\<close>

definition live_ok :: "live_router \<Rightarrow> bool" where
  "live_ok r \<longleftrightarrow> short_fades wc_ok (\<lambda>t. \<not> tn_failed t) r \<and> unanswered (control_of r)"

lemma live_call_ok:
  assumes "live_ok r" and "c \<noteq> RC_PhoneReady"
  shows "live_ok (router_step f32 mic_ops (tone_ops f32 rd) cable_ops c r)"
proof -
  have sf: "short_fades wc_ok (\<lambda>t. \<not> tn_failed t) r" and un: "unanswered (control_of r)" using assms(1) by (simp_all add: live_ok_def)
  have "short_fades wc_ok (\<lambda>t. \<not> tn_failed t) (router_step f32 mic_ops (tone_ops f32 rd) cable_ops c r)"
    by (rule call_refines(2) [OF mic_ops_source tone_ops_source sf])
  moreover have "unanswered (control_of (router_step f32 mic_ops (tone_ops f32 rd) cable_ops c r))"
    unfolding call_refines(1) [OF mic_ops_source tone_ops_source sf] by (rule k_step_off [OF assms(2) un])
  ultimately show ?thesis by (simp add: live_ok_def)
qed

lemma live_calls_ok:
  "live_ok r \<Longrightarrow> RC_PhoneReady \<notin> set cs \<Longrightarrow> live_ok (router_run f32 mic_ops (tone_ops f32 rd) cable_ops cs r)"
proof (induction cs arbitrary: r)
  case (Cons c cs)
  have "live_ok (router_run f32 mic_ops (tone_ops f32 rd) cable_ops cs (router_step f32 mic_ops (tone_ops f32 rd) cable_ops c r))"
    using Cons.prems by (intro Cons.IH live_call_ok) auto
  then show ?case by (simp add: router_run_def)
qed (simp add: router_run_def)

lemma live_do_ok:
  assumes "live_ok r"
  shows "live_ok (live_do f32 rd s r)"
proof (cases s)
  case (LS_Line l)
  then show ?thesis using assms live_calls_ok live_line_quiet by (auto split: option.split)
next
  case LS_Pass
  have t: "live_ok (snd (tick f32 mic_ops (tone_ops f32 rd) cable_ops r))"
    using live_call_ok [OF assms, of RC_Tick rd] by simp
  then have "st (snd (tick f32 mic_ops (tone_ops f32 rd) cable_ops r)) \<noteq> PhoneActive"
    by (simp add: live_ok_def unanswered_def control_of_def)
  then show ?thesis using LS_Pass t by (simp add: live_pass_def Let_def)
qed

lemma wc_new_ok: "wc_new i d = Some l \<Longrightarrow> wc_ok l"
proof -
  assume l: "wc_new i d = Some l"
  obtain z :: "real ring_buffer" where z: "rb_new 0 (of_nat (millisToSamples 200)) = Some z" "rb_ok z"
    using rb_new_correct [of "of_nat (millisToSamples 200)" "0::real"] by (auto simp: millisToSamples_eq)
  show ?thesis using l z by (auto simp: wc_new_def wc_ok_def rs64_ok_def rs_init_def)
qed

lemma live_start_ok:
  assumes "live_start f32 f64 en devices la sa inId outId = Some (Inr (r, reg))"
  shows "live_ok r"
proof -
  define p where "p = snd (tone_start (tone_new ''phone'' 660 (f32 (4 / 10))))"
  have p: "\<not> tn_failed p" by (simp add: p_def tone_start_def tone_new_def)
  obtain l0 k1 where lk: "wc_new ''local'' inId = Some l0"
    "router_wired default_router_config (Some (snd (wc_start f64 la l0))) (Some p) (Some k1) = Some r"
    using assms unfolding live_start_def Let_def p_def [symmetric]
    by (auto split: if_splits option.splits prod.splits)
  have "wc_ok (snd (wc_start f64 la l0))" by (rule wc_start_ok [OF wc_new_ok [OF lk(1)]])
  then have "short_fades wc_ok (\<lambda>t. \<not> tn_failed t) r \<and> control_of r = control_init"
    using wired_short_fades [OF lk(2), of wc_ok "\<lambda>t. \<not> tn_failed t"] p by (simp add: default_router_config_def)
  then show ?thesis by (simp add: live_ok_def unanswered_def control_init_def sm_init_def)
qed

text \<open>
  In the live mode nothing acknowledges a press: whatever devices there are, whatever lines are typed
  and however they fall between the passes of the audio thread, the router never listens to the phone.
\<close>

theorem live_never_answers:
  assumes "live_start f32 f64 en devices la sa inId outId = Some (Inr (r, reg))"
  shows "st (fold (live_do f32 f64) steps r) \<noteq> PhoneActive"
proof -
  have "live_ok r \<Longrightarrow> live_ok (fold (live_do f32 f64) steps r)" for r
    by (induction steps arbitrary: r) (simp_all add: live_do_ok)
  then show ?thesis using live_start_ok [OF assms] by (simp add: live_ok_def unanswered_def control_of_def)
qed

end
