(* ===== verification/DriverFilters.thy ===== *)
theory DriverFilters
  imports WaveStream DriverControl
begin

text \<open>
  What the driver tells the audio system about itself: the filter descriptors and the answers to format
  and property requests of \<^verbatim>\<open>windows/driver/minwave.cpp\<close> and \<^verbatim>\<open>mintopo.cpp\<close>, and the registration of the
  two filters in \<^verbatim>\<open>adapter.cpp\<close>. GUIDs are names. What PortCls answers is an argument, and the calls the
  driver makes on objects are a log, so that the lemmas can count references.
\<close>

section \<open>Formats and ranges\<close>

datatype ks_guid =
    KSDATAFORMAT_TYPE_AUDIO | KSDATAFORMAT_SUBTYPE_PCM | KSDATAFORMAT_SUBTYPE_ANALOG
  | KSDATAFORMAT_SPECIFIER_WAVEFORMATEX | KSDATAFORMAT_SPECIFIER_NONE
  | KSCATEGORY_AUDIO | KSCATEGORY_CAPTURE | KSCATEGORY_REALTIME | KSCATEGORY_TOPOLOGY
  | KSNODETYPE_MICROPHONE | KSAUDFNAME_MICROPHONE | KSPROPSETID_Jack

text \<open>\<open>KSDATAFORMAT_WAVEFORMATEX\<close>, its flags, sample size and reserved field being 0.\<close>

record ks_format =
  kf_FormatSize :: u32
  kf_MajorFormat :: ks_guid
  kf_SubFormat :: ks_guid
  kf_Specifier :: ks_guid
  kf_wFormatTag :: u16
  kf_nChannels :: u16
  kf_nSamplesPerSec :: u32
  kf_nAvgBytesPerSec :: u32
  kf_nBlockAlign :: u16
  kf_wBitsPerSample :: u16
  kf_cbSize :: u16

definition WAVE_FORMAT_PCM :: u16 where "WAVE_FORMAT_PCM = 1"

text \<open>As in \<open>WaveStream\<close>, \<open>fmtSize\<close> is \<open>sizeof(KSDATAFORMAT_WAVEFORMATEX)\<close>.\<close>

definition SmartMicPcmFormat :: "u32 \<Rightarrow> ks_format" where
  "SmartMicPcmFormat fmtSize =
     \<lparr>kf_FormatSize = fmtSize, kf_MajorFormat = KSDATAFORMAT_TYPE_AUDIO, kf_SubFormat = KSDATAFORMAT_SUBTYPE_PCM,
      kf_Specifier = KSDATAFORMAT_SPECIFIER_WAVEFORMATEX, kf_wFormatTag = WAVE_FORMAT_PCM,
      kf_nChannels = ucast SMARTMIC_CHANNELS, kf_nSamplesPerSec = SMARTMIC_SAMPLE_RATE,
      kf_nAvgBytesPerSec = SMARTMIC_SAMPLE_RATE * SMARTMIC_BYTES_PER_FRAME,
      kf_nBlockAlign = ucast SMARTMIC_BYTES_PER_FRAME, kf_wBitsPerSample = ucast SMARTMIC_BITS, kf_cbSize = 0\<rparr>"

text \<open>A range of PCM formats, or the formless range of a bridge.\<close>

datatype ks_range =
    Range_Audio ks_guid ks_guid ks_guid (rg_MaximumChannels: u32) (rg_MinimumBits: u32) (rg_MaximumBits: u32)
      (rg_MinimumFrequency: u32) (rg_MaximumFrequency: u32)
  | Range_Plain ks_guid ks_guid ks_guid

definition SmartMicStreamDataRange :: ks_range where
  "SmartMicStreamDataRange =
     Range_Audio KSDATAFORMAT_TYPE_AUDIO KSDATAFORMAT_SUBTYPE_PCM KSDATAFORMAT_SPECIFIER_WAVEFORMATEX
       SMARTMIC_CHANNELS SMARTMIC_BITS SMARTMIC_BITS SMARTMIC_SAMPLE_RATE SMARTMIC_SAMPLE_RATE"

definition SmartMicBridgeDataRange :: ks_range where
  "SmartMicBridgeDataRange = Range_Plain KSDATAFORMAT_TYPE_AUDIO KSDATAFORMAT_SUBTYPE_ANALOG KSDATAFORMAT_SPECIFIER_NONE"

definition SmartMicTopoBridgeRange :: ks_range where
  "SmartMicTopoBridgeRange = Range_Plain KSDATAFORMAT_TYPE_AUDIO KSDATAFORMAT_SUBTYPE_ANALOG KSDATAFORMAT_SPECIFIER_NONE"

section \<open>Pins and filters\<close>

datatype ks_dataflow = KSPIN_DATAFLOW_IN | KSPIN_DATAFLOW_OUT
datatype ks_communication = KSPIN_COMMUNICATION_NONE | KSPIN_COMMUNICATION_SINK

text \<open>\<open>pd_MaxGlobal\<close> and \<open>pd_MaxFilter\<close> are the numbers of instances that may exist.\<close>

record pin_descriptor =
  pd_MaxGlobal :: u32
  pd_MaxFilter :: u32
  pd_MinFilter :: u32
  pd_ranges :: "ks_range list"
  pd_flow :: ks_dataflow
  pd_communication :: ks_communication
  pd_category :: ks_guid
  pd_name :: "ks_guid option"

definition KSPIN_WAVE_CAPTURE_SOURCE :: u32 where "KSPIN_WAVE_CAPTURE_SOURCE = 1"
definition KSPIN_TOPO_MIC_ELEMENT :: u32 where "KSPIN_TOPO_MIC_ELEMENT = 0"
definition KSPIN_TOPO_BRIDGE :: u32 where "KSPIN_TOPO_BRIDGE = 1"

definition SmartMicWavePins :: "pin_descriptor list" where
  "SmartMicWavePins =
     [\<lparr>pd_MaxGlobal = 1, pd_MaxFilter = 1, pd_MinFilter = 0, pd_ranges = [SmartMicStreamDataRange],
       pd_flow = KSPIN_DATAFLOW_OUT, pd_communication = KSPIN_COMMUNICATION_SINK,
       pd_category = KSCATEGORY_AUDIO, pd_name = None\<rparr>,
      \<lparr>pd_MaxGlobal = 0, pd_MaxFilter = 0, pd_MinFilter = 0, pd_ranges = [SmartMicBridgeDataRange],
       pd_flow = KSPIN_DATAFLOW_IN, pd_communication = KSPIN_COMMUNICATION_NONE,
       pd_category = KSCATEGORY_AUDIO, pd_name = None\<rparr>]"

definition SmartMicTopoPins :: "pin_descriptor list" where
  "SmartMicTopoPins =
     [\<lparr>pd_MaxGlobal = 0, pd_MaxFilter = 0, pd_MinFilter = 0, pd_ranges = [SmartMicTopoBridgeRange],
       pd_flow = KSPIN_DATAFLOW_IN, pd_communication = KSPIN_COMMUNICATION_NONE,
       pd_category = KSNODETYPE_MICROPHONE, pd_name = Some KSAUDFNAME_MICROPHONE\<rparr>,
      \<lparr>pd_MaxGlobal = 0, pd_MaxFilter = 0, pd_MinFilter = 0, pd_ranges = [SmartMicTopoBridgeRange],
       pd_flow = KSPIN_DATAFLOW_OUT, pd_communication = KSPIN_COMMUNICATION_NONE,
       pd_category = KSCATEGORY_AUDIO, pd_name = None\<rparr>]"

text \<open>
  A property is its set, its id (\<open>KSPROPERTY_JACK_DESCRIPTION\<close>) and the verbs it announces; a connection
  goes from a pin of the filter to another.
\<close>

definition KSPROPERTY_TYPE_GET :: u32 where "KSPROPERTY_TYPE_GET = 1"
definition KSPROPERTY_TYPE_BASICSUPPORT :: u32 where "KSPROPERTY_TYPE_BASICSUPPORT = 0x200"
definition KSPROPERTY_JACK_DESCRIPTION :: u32 where "KSPROPERTY_JACK_DESCRIPTION = 1"

record filter_descriptor =
  fd_properties :: "(ks_guid \<times> u32 \<times> u32) list"
  fd_pins :: "pin_descriptor list"
  fd_connections :: "(u32 \<times> u32) list"
  fd_categories :: "ks_guid list"

definition SmartMicWaveFilterDescriptor :: filter_descriptor where
  "SmartMicWaveFilterDescriptor =
     \<lparr>fd_properties = [], fd_pins = SmartMicWavePins,
      fd_connections = [(KSPIN_WAVE_CAPTURE_SOURCE, KSPIN_WAVE_CAPTURE_SINK)],
      fd_categories = [KSCATEGORY_AUDIO, KSCATEGORY_CAPTURE, KSCATEGORY_REALTIME]\<rparr>"

definition SmartMicTopoFilterDescriptor :: filter_descriptor where
  "SmartMicTopoFilterDescriptor =
     \<lparr>fd_properties = [(KSPROPSETID_Jack, KSPROPERTY_JACK_DESCRIPTION, KSPROPERTY_TYPE_GET OR KSPROPERTY_TYPE_BASICSUPPORT)],
      fd_pins = SmartMicTopoPins, fd_connections = [(KSPIN_TOPO_MIC_ELEMENT, KSPIN_TOPO_BRIDGE)],
      fd_categories = [KSCATEGORY_AUDIO, KSCATEGORY_TOPOLOGY]\<rparr>"

section \<open>Requests\<close>

text \<open>The status, the length reported and what is copied out.\<close>

definition wm_dataRangeIntersection :: "u32 \<Rightarrow> u32 \<Rightarrow> ntstatus \<times> u32 \<times> ks_format option" where
  "wm_dataRangeIntersection fmtSize outLen =
     (if outLen = 0 then (STATUS_BUFFER_OVERFLOW, fmtSize, None)
      else if outLen < fmtSize then (STATUS_BUFFER_TOO_SMALL, 0, None)
      else (STATUS_SUCCESS, fmtSize, Some ((SmartMicPcmFormat fmtSize)\<lparr>kf_FormatSize := fmtSize\<rparr>)))"

definition mt_dataRangeIntersection :: "u32 \<Rightarrow> ntstatus" where
  "mt_dataRangeIntersection outLen = STATUS_NOT_IMPLEMENTED"

text \<open>What \<open>Init\<close> of a stream reads of a format.\<close>

definition wave_format_of :: "ks_format \<Rightarrow> wave_format" where
  "wave_format_of f =
     \<lparr>wf_FormatSize = kf_FormatSize f, wf_nSamplesPerSec = kf_nSamplesPerSec f, wf_nChannels = kf_nChannels f,
      wf_wBitsPerSample = kf_wBitsPerSample f\<rparr>"

record jack_description =
  jd_ChannelMapping :: u32
  jd_Color :: u32
  jd_ConnectionType :: string
  jd_GeoLocation :: string
  jd_GenLocation :: string
  jd_PortConnection :: string
  jd_IsConnected :: bool

definition KSAUDIO_SPEAKER_MONO :: u32 where "KSAUDIO_SPEAKER_MONO = 4"

definition SmartMicJackDescription :: jack_description where
  "SmartMicJackDescription =
     \<lparr>jd_ChannelMapping = KSAUDIO_SPEAKER_MONO, jd_Color = 0, jd_ConnectionType = ''eConnTypeUnknown'',
      jd_GeoLocation = ''eGeoLocNotApplicable'', jd_GenLocation = ''eGenLocInternal'',
      jd_PortConnection = ''ePortConnIntegratedDevice'', jd_IsConnected = True\<rparr>"

text \<open>
  A property request: the node, the verb, the size and the first word of its instance, the size of the
  value. \<open>sizeof\<close> of the two structures written.
\<close>

record property_request =
  pq_Node :: u32
  pq_Verb :: u32
  pq_InstanceSize :: u32
  pq_Instance :: u32
  pq_ValueSize :: u32

definition sizeof_KSMULTIPLE_ITEM :: u32 where "sizeof_KSMULTIPLE_ITEM = 8"
definition sizeof_KSJACK_DESCRIPTION :: u32 where "sizeof_KSJACK_DESCRIPTION = 28"

text \<open>The status, the value size after it, and the item written: its size, its count and the description.\<close>

definition SmartMicPropertyJackDescription ::
  "property_request \<Rightarrow> ntstatus \<times> u32 \<times> (u32 \<times> u32 \<times> jack_description) option" where
  "SmartMicPropertyJackDescription q =
     (if pq_Node q \<noteq> - 1 then (STATUS_INVALID_DEVICE_REQUEST, pq_ValueSize q, None)
      else if pq_Verb q AND KSPROPERTY_TYPE_GET = 0 then (STATUS_INVALID_DEVICE_REQUEST, pq_ValueSize q, None)
      else if pq_InstanceSize q < 4 then (STATUS_BUFFER_TOO_SMALL, pq_ValueSize q, None)
      else if pq_Instance q \<noteq> KSPIN_TOPO_MIC_ELEMENT then (STATUS_INVALID_PARAMETER, pq_ValueSize q, None)
      else
        let needed = sizeof_KSMULTIPLE_ITEM + sizeof_KSJACK_DESCRIPTION
        in if pq_ValueSize q = 0 then (STATUS_BUFFER_OVERFLOW, needed, None)
           else if pq_ValueSize q < needed then (STATUS_BUFFER_TOO_SMALL, pq_ValueSize q, None)
           else (STATUS_SUCCESS, needed, Some (needed, 1, SmartMicJackDescription)))"

section \<open>Registration\<close>

text \<open>
  The calls made on a subdevice's port and miniport: taking a reference with a new object, giving it up,
  \<open>port->Init\<close>, \<open>PcRegisterSubdevice\<close>, \<open>PcRegisterPhysicalConnection\<close>.
\<close>

datatype com_object = Com_Port string | Com_Miniport string

datatype com_call =
    Com_New com_object
  | Com_Release com_object
  | Com_Init string
  | Com_Register string
  | Com_Connect string u32 string u32

definition SMARTMIC_WAVE_NAME :: string where "SMARTMIC_WAVE_NAME = ''Wave''"
definition SMARTMIC_TOPO_NAME :: string where "SMARTMIC_TOPO_NAME = ''Topology''"

text \<open>The two creators: \<open>alloc\<close> tells whether the object could be allocated.\<close>

definition CreateMiniport :: "bool \<Rightarrow> string \<Rightarrow> ntstatus \<times> com_call list" where
  "CreateMiniport alloc name =
     (if \<not> alloc then (STATUS_INSUFFICIENT_RESOURCES, []) else (STATUS_SUCCESS, [Com_New (Com_Miniport name)]))"

record subdevice_answer =
  sub_newPort :: ntstatus
  sub_alloc :: bool
  sub_init :: ntstatus
  sub_register :: ntstatus

text \<open>
  The status, whether the reference on the port went to the caller, and the calls. Both callers ask for
  the port.
\<close>

definition InstallSubdevice :: "string \<Rightarrow> subdevice_answer \<Rightarrow> ntstatus \<times> bool \<times> com_call list" where
  "InstallSubdevice name a =
     (if \<not> NT_SUCCESS (sub_newPort a) then (sub_newPort a, False, [])
      else
        let calls = [Com_New (Com_Port name)]
        in (case CreateMiniport (sub_alloc a) name of
              (status, made) \<Rightarrow>
                if \<not> NT_SUCCESS status then (status, False, calls @ made @ [Com_Release (Com_Port name)])
                else
                  let log1 = calls @ made @ [Com_Init name];
                      (status1, log2) =
                        (if NT_SUCCESS (sub_init a) then (sub_register a, log1 @ [Com_Register name]) else (sub_init a, log1));
                      log3 = log2 @ [Com_Release (Com_Miniport name)]
                  in if NT_SUCCESS status1 then (status1, True, log3)
                     else (status1, False, log3 @ [Com_Release (Com_Port name)])))"

definition SmartMicInstallSubdevices ::
  "subdevice_answer \<Rightarrow> subdevice_answer \<Rightarrow> ntstatus \<Rightarrow> driver \<Rightarrow> ntstatus \<times> com_call list" where
  "SmartMicInstallSubdevices ta wa linked d =
     (if (case d of None \<Rightarrow> True | Some ctx \<Rightarrow> dc_ring ctx = None) then (STATUS_DEVICE_NOT_READY, [])
      else
        (case InstallSubdevice SMARTMIC_TOPO_NAME ta of
           (status, _, made) \<Rightarrow>
             if \<not> NT_SUCCESS status then (status, made)
             else
               (case InstallSubdevice SMARTMIC_WAVE_NAME wa of
                  (status1, _, log1) \<Rightarrow>
                    if \<not> NT_SUCCESS status1 then (status1, made @ log1 @ [Com_Release (Com_Port SMARTMIC_TOPO_NAME)])
                    else (linked,
                      made @ log1 @
                      [Com_Connect SMARTMIC_TOPO_NAME KSPIN_TOPO_BRIDGE SMARTMIC_WAVE_NAME KSPIN_WAVE_CAPTURE_SOURCE,
                       Com_Release (Com_Port SMARTMIC_WAVE_NAME), Com_Release (Com_Port SMARTMIC_TOPO_NAME)]))))"

section \<open>References\<close>

text \<open>
  Walking through a log with the references held: every object is held when it is used or released.
  The result is what is held at the end.
\<close>

fun com_walk :: "com_call list \<Rightarrow> (com_object \<Rightarrow> nat) \<Rightarrow> (com_object \<Rightarrow> nat) option" where
  "com_walk [] h = Some h"
| "com_walk (Com_New x # cs) h = com_walk cs (h(x := Suc (h x)))"
| "com_walk (Com_Release x # cs) h = (if h x = 0 then None else com_walk cs (h(x := h x - 1)))"
| "com_walk (Com_Init n # cs) h =
     (if h (Com_Port n) = 0 \<or> h (Com_Miniport n) = 0 then None else com_walk cs h)"
| "com_walk (Com_Register n # cs) h = (if h (Com_Port n) = 0 then None else com_walk cs h)"
| "com_walk (Com_Connect a _ b _ # cs) h =
     (if h (Com_Port a) = 0 \<or> h (Com_Port b) = 0 then None else com_walk cs h)"

lemma com_walk_append: "com_walk (xs @ ys) h = Option.bind (com_walk xs h) (com_walk ys)"
  by (induction xs h rule: com_walk.induct) (simp_all add: fun_upd_def)

text \<open>Everything asked for on behalf of a subdevice was answered with success.\<close>

definition sub_ok :: "subdevice_answer \<Rightarrow> bool" where
  "sub_ok a \<longleftrightarrow> NT_SUCCESS (sub_newPort a) \<and> sub_alloc a \<and> NT_SUCCESS (sub_init a) \<and> NT_SUCCESS (sub_register a)"

lemma InstallSubdevice_walk:
  assumes "InstallSubdevice name a = (status, given, made)"
  shows "com_walk made h = Some (if given then h(Com_Port name := Suc (h (Com_Port name))) else h)"
    and "given \<longleftrightarrow> NT_SUCCESS status"
    and "NT_SUCCESS status \<longleftrightarrow> sub_ok a"
  using assms
  by (auto simp: sub_ok_def InstallSubdevice_def CreateMiniport_def Let_def NT_SUCCESS_def fun_upd_twist split: if_splits)

text \<open>Whatever fails, no call is made on an object that is not held, and nothing stays held.\<close>

lemma install_balanced: "com_walk (snd (SmartMicInstallSubdevices ta wa linked d)) h = Some h"
proof -
  obtain st gt lt where t: "InstallSubdevice SMARTMIC_TOPO_NAME ta = (st, gt, lt)" by (cases "InstallSubdevice SMARTMIC_TOPO_NAME ta")
  obtain sw gw lw where w: "InstallSubdevice SMARTMIC_WAVE_NAME wa = (sw, gw, lw)" by (cases "InstallSubdevice SMARTMIC_WAVE_NAME wa")
  have n: "SMARTMIC_TOPO_NAME \<noteq> SMARTMIC_WAVE_NAME" by (simp add: SMARTMIC_TOPO_NAME_def SMARTMIC_WAVE_NAME_def)
  show ?thesis
    using InstallSubdevice_walk(1,2) [OF t] InstallSubdevice_walk(1,2) [OF w] n
    by (simp add: SmartMicInstallSubdevices_def t w com_walk_append fun_upd_twist)
qed

text \<open>
  Started means registered: the installation succeeds exactly when everything it asked for did, and
  what it asked for is the registration of both filters, the topology first, and their connection.
\<close>

definition filters_up :: "com_call list \<Rightarrow> com_call list" where
  "filters_up made = filter (\<lambda>c. case c of Com_Register _ \<Rightarrow> True | Com_Connect _ _ _ _ \<Rightarrow> True | _ \<Rightarrow> False) made"

lemma start_registers:
  assumes "SmartMicInstallSubdevices ta wa linked d = (status, made)" and "NT_SUCCESS status"
  shows "filters_up made = [Com_Register SMARTMIC_TOPO_NAME, Com_Register SMARTMIC_WAVE_NAME,
    Com_Connect SMARTMIC_TOPO_NAME KSPIN_TOPO_BRIDGE SMARTMIC_WAVE_NAME KSPIN_WAVE_CAPTURE_SOURCE]"
  using assms
  by (auto simp: SmartMicInstallSubdevices_def InstallSubdevice_def CreateMiniport_def filters_up_def Let_def NT_SUCCESS_def
      split: if_splits option.splits prod.splits)

lemma install_success:
  assumes "SmartMicInstallSubdevices ta wa linked (Some ctx) = (status, made)" and "dc_ring ctx \<noteq> None"
  shows "NT_SUCCESS status \<longleftrightarrow> sub_ok ta \<and> sub_ok wa \<and> NT_SUCCESS linked"
proof -
  obtain st gt lt where t: "InstallSubdevice SMARTMIC_TOPO_NAME ta = (st, gt, lt)" by (cases "InstallSubdevice SMARTMIC_TOPO_NAME ta")
  obtain sw gw lw where w: "InstallSubdevice SMARTMIC_WAVE_NAME wa = (sw, gw, lw)" by (cases "InstallSubdevice SMARTMIC_WAVE_NAME wa")
  show ?thesis
    using assms InstallSubdevice_walk(3) [OF t] InstallSubdevice_walk(3) [OF w]
    by (auto simp: SmartMicInstallSubdevices_def t w split: if_splits)
qed

lemma InstallSubdevice_connects:
  "InstallSubdevice name a = (status, given, made) \<Longrightarrow> Com_Connect p i q j \<notin> set made \<and>
   (Com_Register n \<in> set made \<longrightarrow> n = name)"
  by (auto simp: InstallSubdevice_def CreateMiniport_def Let_def split: if_splits)

text \<open>Each step is taken only after the one before succeeded.\<close>

lemma install_order:
  assumes "SmartMicInstallSubdevices ta wa linked d = (status, made)"
  shows "(Com_Register SMARTMIC_WAVE_NAME \<in> set made \<longrightarrow> sub_ok ta) \<and>
    (Com_Connect p i q j \<in> set made \<longrightarrow> sub_ok ta \<and> sub_ok wa)"
proof -
  obtain st gt lt where t: "InstallSubdevice SMARTMIC_TOPO_NAME ta = (st, gt, lt)" by (cases "InstallSubdevice SMARTMIC_TOPO_NAME ta")
  obtain sw gw lw where w: "InstallSubdevice SMARTMIC_WAVE_NAME wa = (sw, gw, lw)" by (cases "InstallSubdevice SMARTMIC_WAVE_NAME wa")
  have n: "SMARTMIC_TOPO_NAME \<noteq> SMARTMIC_WAVE_NAME" by (simp add: SMARTMIC_TOPO_NAME_def SMARTMIC_WAVE_NAME_def)
  have "Com_Register SMARTMIC_WAVE_NAME \<notin> set lt" "Com_Connect p i q j \<notin> set lt" "Com_Connect p i q j \<notin> set lw"
    using InstallSubdevice_connects [OF t] InstallSubdevice_connects [OF w] n by metis+
  then show ?thesis
    using assms InstallSubdevice_walk(3) [OF t] InstallSubdevice_walk(3) [OF w]
    by (auto simp: SmartMicInstallSubdevices_def t w split: if_splits option.splits)
qed

section \<open>One format\<close>

text \<open>What the endpoint offers is what its streams accept, and they accept nothing else.\<close>

lemma stream_accepts:
  "fst (wm_newStream True fmtSize KSPIN_WAVE_CAPTURE_SINK True (wave_format_of f) m) = STATUS_SUCCESS \<longleftrightarrow>
   wm_stream m = None \<and> fmtSize \<le> kf_FormatSize f \<and> kf_nSamplesPerSec f = 48000 \<and> kf_nChannels f = 1 \<and> kf_wBitsPerSample f = 16"
proof -
  have c: "(ucast (kf_nChannels f) :: u32) = 1 \<longleftrightarrow> kf_nChannels f = 1"
    "(ucast (kf_wBitsPerSample f) :: u32) = 16 \<longleftrightarrow> kf_wBitsPerSample f = 16"
    by (simp_all add: word_unat_eq_iff unsigned_ucast_eq take_bit_nat_eq_self less_trans [OF unsigned_less])
  show ?thesis
    by (auto simp: wm_newStream_def ws_init_def wave_format_of_def Let_def ring_consts SMARTMIC_SAMPLE_RATE_def c not_less)
qed

lemma offered_opens:
  assumes "wm_dataRangeIntersection fmtSize n = (status, len, Some f)" and "wm_stream m = None"
  shows "fst (wm_newStream True fmtSize KSPIN_WAVE_CAPTURE_SINK True (wave_format_of f) m) = STATUS_SUCCESS"
  using assms
  by (auto simp: stream_accepts wm_dataRangeIntersection_def SmartMicPcmFormat_def ring_consts SMARTMIC_SAMPLE_RATE_def
      split: if_splits)

section \<open>Properties\<close>

text \<open>
  C20: the device starts whole or not at all. Whatever allocation or call of PortCls fails on the way, no
  call is made on an object that is not held and every reference taken is given up again. The start
  succeeds exactly when there is a ring and every call on the way succeeded: for both filters the port,
  the miniport, its initialisation and the registration, and after them the connection; the wave filter
  is registered only once the topology filter has been, and the two are connected only once both have.
  The private interface of an adapter is enabled by a start exactly in that case, if it was registered,
  and nothing else of the driver changes.
\<close>

theorem driver_starts_whole:
  assumes "SmartMicInstallSubdevices ta wa linked d = (status, calls)"
  shows "com_walk calls (\<lambda>_. 0) = Some (\<lambda>_. 0) \<and>
    (Com_Register SMARTMIC_WAVE_NAME \<in> set calls \<longrightarrow> sub_ok ta) \<and>
    (Com_Connect p i q j \<in> set calls \<longrightarrow> sub_ok ta \<and> sub_ok wa) \<and>
    (let whole = (\<exists>ctx. d = Some ctx \<and> dc_ring ctx \<noteq> None) \<and> sub_ok ta \<and> sub_ok wa \<and> NT_SUCCESS linked
     in (NT_SUCCESS status \<longleftrightarrow> whole) \<and>
       SmartMicStartDevice status d =
         (status, map_option (\<lambda>ctx. ctx\<lparr>dc_interfaceEnabled :=
            dc_interfaceEnabled ctx \<or> whole \<and> dc_interfaceRegistered ctx\<rparr>) d) \<and>
       (whole \<longrightarrow> filters_up calls = [Com_Register SMARTMIC_TOPO_NAME, Com_Register SMARTMIC_WAVE_NAME,
          Com_Connect SMARTMIC_TOPO_NAME KSPIN_TOPO_BRIDGE SMARTMIC_WAVE_NAME KSPIN_WAVE_CAPTURE_SOURCE]))"
proof -
  define whole where "whole \<longleftrightarrow> (\<exists>ctx. d = Some ctx \<and> dc_ring ctx \<noteq> None) \<and> sub_ok ta \<and> sub_ok wa \<and> NT_SUCCESS linked"
  have w: "NT_SUCCESS status \<longleftrightarrow> whole"
  proof (cases "\<exists>ctx. d = Some ctx \<and> dc_ring ctx \<noteq> None")
    case True
    then show ?thesis using install_success assms unfolding whole_def by blast
  next
    case False
    then have "status = STATUS_DEVICE_NOT_READY"
      using assms by (cases d) (auto simp: SmartMicInstallSubdevices_def)
    then show ?thesis using False by (auto simp: whole_def NT_SUCCESS_def)
  qed
  have "SmartMicStartDevice status d =
      (status, map_option (\<lambda>ctx. ctx\<lparr>dc_interfaceEnabled := dc_interfaceEnabled ctx \<or> whole \<and> dc_interfaceRegistered ctx\<rparr>) d)"
    by (cases d) (auto simp: SmartMicStartDevice_def w)
  moreover have "com_walk calls (\<lambda>_. 0) = Some (\<lambda>_. 0)"
    using install_balanced [of ta wa linked d "\<lambda>_. 0"] by (simp add: assms)
  ultimately show ?thesis
    using w start_registers [OF assms] install_order [OF assms]
    unfolding Let_def whole_def [symmetric] by blast
qed

theorem driver_starts_whole_witness:
  "let ok = \<lparr>sub_newPort = STATUS_SUCCESS, sub_alloc = True, sub_init = STATUS_SUCCESS, sub_register = STATUS_SUCCESS\<rparr>;
       bad = ok\<lparr>sub_register := STATUS_INSUFFICIENT_RESOURCES\<rparr>;
       d = Some \<lparr>dc_ring = Some kr_new, dc_interfaceRegistered = True, dc_interfaceEnabled = False\<rparr>;
       start = (\<lambda>ta wa linked. case SmartMicInstallSubdevices ta wa linked d of (status, calls) \<Rightarrow>
         map_option dc_interfaceEnabled (snd (SmartMicStartDevice status d)))
   in start ok ok STATUS_SUCCESS = Some True \<and> start ok bad STATUS_SUCCESS = Some False \<and>
      start bad ok STATUS_SUCCESS = Some False \<and> start ok ok STATUS_INSUFFICIENT_RESOURCES = Some False"
proof -
  define d :: driver where
    "d = Some \<lparr>dc_ring = Some kr_new, dc_interfaceRegistered = True, dc_interfaceEnabled = False\<rparr>"
  have s: "(case SmartMicInstallSubdevices ta wa linked d of (status, calls) \<Rightarrow>
      map_option dc_interfaceEnabled (snd (SmartMicStartDevice status d))) = Some (sub_ok ta \<and> sub_ok wa \<and> NT_SUCCESS linked)"
    for ta wa linked
  proof -
    obtain status calls where r: "SmartMicInstallSubdevices ta wa linked d = (status, calls)" by fastforce
    show ?thesis using driver_starts_whole [OF r] by (simp add: r Let_def) (simp add: d_def)
  qed
  show ?thesis
    unfolding Let_def d_def [symmetric] s
    by (simp add: sub_ok_def NT_SUCCESS_def)
qed

end
