(* ===== verification/DriverSearch.thy ===== *)
theory DriverSearch
  imports Logging Textual DriverLink
begin

text \<open>
  How the service finds the driver's control interface, and what it says when there is none: the first
  part of \<^verbatim>\<open>windows/audio-service/platform/windows/smartmic_driver_link.cpp\<close>. The answers of the Windows
  set-up and configuration calls are arguments; what is logged is part of the result. Paths are ASCII,
  so \<open>narrow\<close> is the identity.
\<close>

section \<open>Finding the interface\<close>

text \<open>
  The interfaces enumerated, each with the size its detail needs and, when it can be had, its path;
  \<open>None\<close> is an invalid set. An interface without a size or a detail is passed over.
\<close>

fun setupdi_loop :: "(u32 \<times> string option) list \<Rightarrow> string" where
  "setupdi_loop [] = []"
| "setupdi_loop ((needed, detail) # rest) =
     (if needed = 0 then setupdi_loop rest
      else case detail of Some path \<Rightarrow> path | None \<Rightarrow> setupdi_loop rest)"

definition findViaSetupDi :: "(u32 \<times> string option) list option \<Rightarrow> string" where
  "findViaSetupDi interfaces = (case interfaces of None \<Rightarrow> [] | Some is \<Rightarrow> setupdi_loop is)"

text \<open>
  The size of the list, when it can be had, and the buffer it is read into, a sequence of strings each
  ended by a NUL; the first one counts.
\<close>

definition NUL :: char where "NUL = CHR 0x00"

definition findViaCM :: "u32 option \<Rightarrow> string option \<Rightarrow> string" where
  "findViaCM bufSize buf =
     (case bufSize of
        None \<Rightarrow> []
      | Some n \<Rightarrow>
          if n \<le> 1 then []
          else (case buf of
                  Some cs \<Rightarrow> if cs \<noteq> [] \<and> hd cs \<noteq> NUL then takeWhile (\<lambda>c. c \<noteq> NUL) cs else []
                | None \<Rightarrow> []))"

section \<open>The diagnosis of the device node\<close>

definition DN_STARTED :: u32 where "DN_STARTED = 0x8"
definition DN_HAS_PROBLEM :: u32 where "DN_HAS_PROBLEM = 0x400"

type_synonym says = "(log_level \<times> string) list"

text \<open>A node's status and problem, or the error of asking for them.\<close>

type_synonym devnode = "u32 + u32 \<times> u32"

definition diagnose_problem :: "u32 \<Rightarrow> says" where
  "diagnose_problem problem =
     (if problem = 52 then
        [(LL_Error, ''DIAG: Problem 52 = driver signature enforcement is blocking it.''),
         (LL_Error, ''DIAG: FIX: Open an admin Command Prompt and run:''),
         (LL_Error, ''DIAG:   bcdedit /set testsigning on''),
         (LL_Error, ''DIAG: Then REBOOT. (Requires Secure Boot to be off in BIOS.)'')]
      else if problem = 31 then
        [(LL_Error, ''DIAG: Problem 31 = device not working properly.''),
         (LL_Error, ''DIAG: Try uninstalling and reinstalling the driver.'')]
      else
        [(LL_Error, ''DIAG: Look up CM_PROB code '' @ dec (unat problem) @ '' in Microsoft docs.'')])"

fun diagnose_node :: "devnode \<Rightarrow> says" where
  "diagnose_node (Inr (status, problem)) =
     (LL_Info, ''DIAG: SmartMic device node FOUND in Device Manager.'') #
     (if status AND DN_STARTED \<noteq> 0 then
        [(LL_Info, ''DIAG: Driver IS loaded and running (DN_STARTED).''),
         (LL_Error, ''DIAG: But the control interface GUID is not registered.''),
         (LL_Error, ''DIAG: The driver .sys may be an older version that does not''),
         (LL_Error, ''DIAG: call IoRegisterDeviceInterface. Reinstall the latest driver.'')]
      else if status AND DN_HAS_PROBLEM \<noteq> 0 then
        (LL_Error, ''DIAG: Driver has a PROBLEM. Code = '' @ dec (unat problem)) # diagnose_problem problem
      else
        [(LL_Error, ''DIAG: Device exists but is NOT started. Status flags = 0x'' @ dec (unat status))])"
| "diagnose_node (Inl cr) =
     [(LL_Info, ''DIAG: SmartMic device node FOUND in Device Manager.''),
      (LL_Error, ''DIAG: Could not query device status (CM error '' @ dec (unat cr) @ '').'')]"

text \<open>The nodes that are present and, when that set is invalid, all nodes.\<close>

definition diagnoseDeviceNode :: "devnode list option \<Rightarrow> devnode list option \<Rightarrow> says" where
  "diagnoseDeviceNode present all_nodes =
     (case (case present of None \<Rightarrow> all_nodes | Some ns \<Rightarrow> Some ns) of
        None \<Rightarrow> [(LL_Error, ''DIAG: Cannot enumerate devices at all (SetupDi error).'')]
      | Some ns \<Rightarrow>
          concat (map diagnose_node ns) @
          (if ns = [] then
             [(LL_Error, ''DIAG: SmartMic device node NOT FOUND in Device Manager.''),
              (LL_Error, ''DIAG: The driver is not installed. Install it via Device Manager:''),
              (LL_Error, ''DIAG:   Action > Add legacy hardware > Install from disk > smartmic.inf'')]
           else []))"

section \<open>The search\<close>

record search_answer =
  se_interfaces :: "(u32 \<times> string option) list option"
  se_cmSize :: "u32 option"
  se_cmList :: "string option"
  se_present :: "devnode list option"
  se_all :: "devnode list option"

definition findDevicePath :: "search_answer \<Rightarrow> string \<times> says" where
  "findDevicePath a =
     (let path = findViaSetupDi (se_interfaces a)
      in if path \<noteq> [] then (path, [(LL_Info, ''Found driver via SetupDi: '' @ path)])
         else
           let path2 = findViaCM (se_cmSize a) (se_cmList a)
           in if path2 \<noteq> [] then (path2, [(LL_Info, ''Found driver via CM (possibly disabled interface): '' @ path2)])
              else ([], (LL_Error, ''SmartMic driver interface not found. Running diagnostics...'') #
                        diagnoseDeviceNode (se_present a) (se_all a)))"

text \<open>\<open>openDevice\<close> as it is called by \<open>start\<close>: the search, then the handle, or the error of opening it.\<close>

definition search_openDevice :: "search_answer \<Rightarrow> u32 option \<Rightarrow> driver_link \<Rightarrow> (bool \<times> driver_link) \<times> says" where
  "search_openDevice a createError l =
     (case findDevicePath a of
        (path, says) \<Rightarrow>
          (dl_openDevice (path \<noteq> []) (createError = None) l,
           says @
           (if path = [] then [(LL_Error, ''Cannot proceed without the SmartMic driver.'')]
            else case createError of
                   None \<Rightarrow> []
                 | Some e \<Rightarrow> [(LL_Error, ''CreateFile failed on: '' @ path @ '' (error '' @ dec (unat e) @ '')'')])))"

section \<open>What the search promises\<close>

text \<open>The first interface that has a path wins, and the second list is asked only when none does.\<close>

lemma setupdi_first:
  "setupdi_loop is = (case find (\<lambda>i. fst i \<noteq> 0 \<and> snd i \<noteq> None) is of None \<Rightarrow> [] | Some i \<Rightarrow> the (snd i))"
  by (induction "is" rule: setupdi_loop.induct) (auto split: option.split)

text \<open>A failure is never silent: each node it finds adds a line that says what is wrong with it.\<close>

lemma diagnose_node_error: "\<exists>t. (LL_Error, t) \<in> set (diagnose_node n)"
  by (cases n rule: diagnose_node.cases) auto

lemma diagnosis_speaks:
  assumes "diagnoseDeviceNode present all_nodes = says"
  shows "\<exists>t. (LL_Error, t) \<in> set says"
proof (cases "case present of None \<Rightarrow> all_nodes | Some ns \<Rightarrow> Some ns")
  case None
  then show ?thesis using assms by (auto simp: diagnoseDeviceNode_def)
next
  case (Some ns)
  then show ?thesis
    using assms diagnose_node_error by (cases ns) (auto simp: diagnoseDeviceNode_def, blast)
qed

lemma open_or_says:
  assumes "search_openDevice a e l = ((opened, l'), says)"
  shows "opened \<or> (\<exists>t. (LL_Error, t) \<in> set says)"
  using assms by (auto simp: search_openDevice_def findDevicePath_def dl_openDevice_def Let_def split: if_splits option.splits)

end
