(* ===== verification/PushToTalk.thy ===== *)
theory PushToTalk
  imports PhoneRuntime Service RouterControl
begin

text \<open>
  The phone and the PC service joined by their session: \<^verbatim>\<open>apps/phone-core/phone_runtime.cpp\<close> against
  \<^verbatim>\<open>apps/service/main.cpp\<close>. A step is what one side does, with the datagrams it causes handed to the other
  side in order and without loss. The lemmas follow a press through the sessions, the jitter buffer and the
  router until the phone is live, and the release back to rest.
\<close>

section \<open>The two programs joined\<close>

record ('e, 'l, 'd, 'k, 'cb) duo =
  du_phone :: "'e sm_phone"
  du_service :: "('l, 'd, 'k, 'cb) service"
  du_said :: "message list"
  du_left :: "bytes list"
  du_threw :: bool

text \<open>\<open>du_said\<close>: the control messages of the PC; \<open>du_left\<close>: datagrams that the phone sends in answer to the PC.\<close>

fun to_service ::
  "('e, 'd, 'l, 'k) service_env \<Rightarrow> service_call \<Rightarrow> bytes list \<Rightarrow> ('l, 'd, 'k, 'cb) service \<Rightarrow> ('l, 'd, 'k, 'cb) service_run" where
  "to_service env vc [] v = vr_start v"
| "to_service env vc (d # ds) v =
     (let r = sv_onDatagram env vc d v
      in if vr_threw r then r
         else let r' = to_service env vc ds (vr_s r) in r'\<lparr>vr_out := vr_out r @ vr_out r'\<rparr>)"

fun to_phone :: "('e, 'd) phone_env \<Rightarrow> call \<Rightarrow> bytes list \<Rightarrow> 'e sm_phone \<Rightarrow> 'e phone_run" where
  "to_phone env cl [] p = pr_start p"
| "to_phone env cl (d # ds) p = pr_then (sp_onDatagram env cl d p) (to_phone env cl ds)"

definition sent_datagrams :: "service_out list \<Rightarrow> bytes list" where
  "sent_datagrams os = List.map_filter (\<lambda>x. case x of VO_Datagram b \<Rightarrow> Some b | VO_Say m \<Rightarrow> None) os"

definition said_messages :: "service_out list \<Rightarrow> message list" where
  "said_messages os = List.map_filter (\<lambda>x. case x of VO_Say m \<Rightarrow> Some m | VO_Datagram b \<Rightarrow> None) os"

text \<open>What the PC did goes to the phone; what the phone did goes to the PC, and the PC's answers back.\<close>

definition du_answer ::
  "('e, 'f) phone_env \<Rightarrow> call \<Rightarrow> ('l, 'd, 'k, 'cb) service_run \<Rightarrow> ('e, 'l, 'd, 'k, 'cb) duo \<Rightarrow> ('e, 'l, 'd, 'k, 'cb) duo" where
  "du_answer pe cl r d =
     (let r' = to_phone pe cl (sent_datagrams (vr_out r)) (du_phone d)
      in \<lparr>du_phone = pr_p r', du_service = vr_s r, du_said = du_said d @ said_messages (vr_out r),
          du_left = du_left d @ pr_sent r', du_threw = (du_threw d \<or> vr_threw r \<or> pr_threw r')\<rparr>)"

definition du_ask ::
  "('e, 'f) phone_env \<Rightarrow> ('g, 'd, 'l, 'k) service_env \<Rightarrow> call \<Rightarrow> service_call \<Rightarrow> 'e phone_run
   \<Rightarrow> ('e, 'l, 'd, 'k, 'cb) duo \<Rightarrow> ('e, 'l, 'd, 'k, 'cb) duo" where
  "du_ask pe se cl vc r d =
     du_answer pe cl (to_service se vc (pr_sent r) (du_service d))
       (d\<lparr>du_phone := pr_p r, du_threw := du_threw d \<or> pr_threw r\<rparr>)"

datatype duo_event =
    DE_Press call service_call
  | DE_Release call service_call
  | DE_Frame call service_call samples
  | DE_Loop call service_call transport_stats

fun du_step ::
  "('e, 'f) phone_env \<Rightarrow> ('g, 'd, 'l, 'k) service_env \<Rightarrow> duo_event \<Rightarrow> ('e, 'l, 'd, 'k, 'cb) duo \<Rightarrow> ('e, 'l, 'd, 'k, 'cb) duo" where
  "du_step pe se (DE_Press cl vc) d = du_ask pe se cl vc (sm_phone_press pe cl (du_phone d)) d"
| "du_step pe se (DE_Release cl vc) d = du_ask pe se cl vc (sm_phone_release pe cl (du_phone d)) d"
| "du_step pe se (DE_Frame cl vc pcm) d = du_ask pe se cl vc (sp_onCaptureFrame pe cl pcm (du_phone d)) d"
| "du_step pe se (DE_Loop cl vc ts) d = du_answer pe cl (sv_loop se vc ts (du_service d)) d"

definition du_run ::
  "('e, 'f) phone_env \<Rightarrow> ('g, 'd, 'l, 'k) service_env \<Rightarrow> duo_event list \<Rightarrow> ('e, 'l, 'd, 'k, 'cb) duo \<Rightarrow> ('e, 'l, 'd, 'k, 'cb) duo" where
  "du_run pe se es d = fold (du_step pe se) es d"

section \<open>One side hears the other\<close>

text \<open>Everything the window has accepted is below \<open>n\<close>.\<close>

definition heard_below :: "nat \<Rightarrow> u64 \<Rightarrow> replay_window \<Rightarrow> bool" where
  "heard_below W n rw \<longleftrightarrow> (\<exists>acc. rw_rel W acc rw \<and> (\<forall>a\<in>set acc. a < n))"

lemma heard_below_accept:
  assumes "0 < W" "W < 2 ^ 64" and "heard_below W n rw" and "unat n + 1 < 2 ^ 64"
  shows "fst (rw_accept W n rw)" and "heard_below W (n + 1) (snd (rw_accept W n rw))"
proof -
  obtain acc where acc: "rw_rel W acc rw" "\<forall>a\<in>set acc. a < n" using assms(3) by (auto simp: heard_below_def)
  have fresh: "rw_fresh W acc n" using acc(2) assms(1) by (auto simp: rw_fresh_def word_less_nat_alt)
  note ok = rw_accept_correct [OF assms(1,2) acc(1), of n]
  show "fst (rw_accept W n rw)" using ok(1) fresh by simp
  have up: "n < n + 1" using assms(4) by (simp add: word_less_nat_alt unat_word_ariths)
  show "heard_below W (n + 1) (snd (rw_accept W n rw))"
    unfolding heard_below_def
  proof (intro exI conjI)
    show "rw_rel W (n # acc) (snd (rw_accept W n rw))" using ok(2) fresh by simp
    show "\<forall>a\<in>set (n # acc). a < n + 1" using acc(2) up by (auto intro: less_trans)
  qed
qed

text \<open>\<open>a\<close> can send \<open>b\<close> so many more packets, each of which \<open>b\<close> will accept.\<close>

definition hears :: "nat \<Rightarrow> peer_session \<Rightarrow> peer_session \<Rightarrow> bool" where
  "hears room a b \<longleftrightarrow> ps_state a = Ses_Authenticated \<and> ps_state b = Ses_Authenticated \<and>
     sc_peer (ps_channel a) (ps_channel b) \<and>
     heard_below kReplayWidth (sc_counter (ps_channel a)) (sc_replay (ps_channel b)) \<and>
     heard_below kControlReplayWidth (ps_seq a + 1) (ps_controlReplay b) \<and>
     unat (sc_counter (ps_channel a)) + room + 1 < 2 ^ 64 \<and> unat (ps_seq a) + room + 1 < 2 ^ 64"

text \<open>A packet is heard, whatever else it carries.\<close>

lemma packet_opens:
  assumes so: "sodium_laws so" and h: "hears (Suc k) a b"
  defines "ch \<equiv> ps_channel b" and "n \<equiv> sc_counter (ps_channel a)"
  defines "ch' \<equiv> ch\<lparr>sc_replay := snd (rw_accept kReplayWidth n (sc_replay ch)), sc_opened := sc_opened ch + 1\<rparr>"
  shows "sc_open so (sc_packet so (ps_channel a) n m) [] ch = (True, m, ch')"
    and "heard_below kReplayWidth (n + 1) (sc_replay ch')"
proof -
  have hb: "heard_below kReplayWidth n (sc_replay ch)" "unat n + 1 < 2 ^ 64" "sc_peer (ps_channel a) ch"
    using h by (simp_all add: hears_def n_def ch_def)
  note acc = heard_below_accept [OF _ _ hb(1,2)]
  show "sc_open so (sc_packet so (ps_channel a) n m) [] ch = (True, m, ch')"
    using sc_open_genuine [OF so hb(3), of n m "[]"] acc(1) by (simp add: ch'_def kReplayWidth_def)
  show "heard_below kReplayWidth (n + 1) (sc_replay ch')"
    using acc(2) by (simp add: ch'_def kReplayWidth_def)
qed

lemma sealed_reaches:
  assumes so: "sodium_laws so" and h: "hears (Suc k) a b" and x: "ps_channel x = ps_channel a"
  defines "n \<equiv> sc_counter (ps_channel a)"
  shows "snd (ps_sealAndSend so sent tag plain x) =
    \<lparr>sr_out = [SO_Send (tag # sc_packet so (ps_channel a) n plain)],
     sr_s = x\<lparr>ps_channel := (ps_channel a)\<lparr>sc_counter := n + 1, sc_sealed := sc_sealed (ps_channel a) + 1\<rparr>\<rparr>, sr_threw = False\<rparr>"
proof -
  have "sc_initialised (ps_channel x)" using h x by (simp add: hears_def sc_peer_def)
  then show ?thesis
    by (simp add: ps_sealAndSend_def sc_seal_result [OF so] sendTagged_def sr_emit_def sr_start_def Let_def x n_def)
qed

text \<open>The other direction does not notice.\<close>

lemma hears_back:
  assumes "hears j b a"
    and "ps_state a' = ps_state a" "sc_replay (ps_channel a') = sc_replay (ps_channel a)" "ps_controlReplay a' = ps_controlReplay a"
    and "sc_initialised (ps_channel a')" "sc_recvKey (ps_channel a') = sc_recvKey (ps_channel a)"
    and "sc_recvNoncePrefix (ps_channel a') = sc_recvNoncePrefix (ps_channel a)"
    and "ps_state b' = ps_state b" "sc_counter (ps_channel b') = sc_counter (ps_channel b)" "ps_seq b' = ps_seq b"
    and "sc_initialised (ps_channel b')" "sc_sendKey (ps_channel b') = sc_sendKey (ps_channel b)"
    and "sc_sendNoncePrefix (ps_channel b') = sc_sendNoncePrefix (ps_channel b)"
  shows "hears j b' a'"
  using assms by (simp add: hears_def sc_peer_def)

definition text_ok :: "json_text \<Rightarrow> message \<Rightarrow> bool" where
  "text_ok t m \<longleftrightarrow> (\<exists>tx. encode t m = Some tx \<and> length tx \<le> kMaxMessageBytes) \<and>
     ms_protocolVersion m = kProtocolVersion \<and> is_object (ms_payload m)"

lemma text_ok_decodes:
  assumes "json_text_laws t" and "text_ok t m"
  obtains tx where "encode t m = Some tx" "decode_bytes t (bytes_of_string tx) = Inr m"
proof -
  obtain tx where x: "encode t m = Some tx" "length tx \<le> kMaxMessageBytes" using assms(2) by (auto simp: text_ok_def)
  have "jt_parse t tx = Some (encode_json m)" using assms(1) x(1) by (simp add: json_text_laws_def encode_def)
  then have "decode_bytes t (bytes_of_string tx) = Inr m"
    using x(2) decode_encode_json [of m] assms(2) by (simp add: decode_bytes_def decode_def text_ok_def)
  then show thesis using that x(1) by blast
qed

lemma control_reaches:
  assumes so: "sodium_laws so" and js: "json_text_laws t" and h: "hears (Suc k) a b"
    and cb: "scb_onControl (ps_cb b)" and m: "text_ok t m" "ms_seq m = ps_seq a + 1"
  obtains d a' b' where
    "\<forall>sent. snd (sendControl so t sent m (a\<lparr>ps_seq := ps_seq a + 1\<rparr>)) = \<lparr>sr_out = [SO_Send d], sr_s = a', sr_threw = False\<rparr>"
    "\<forall>c rand now. onDatagram c so t rand now d b = \<lparr>sr_out = [SO_Control m], sr_s = b', sr_threw = False\<rparr>"
    "hears k a' b'" "\<forall>j. hears j b a \<longrightarrow> hears j b' a'"
    "ps_cb a' = ps_cb a" "ps_cb b' = ps_cb b" "ps_seq a' = ps_seq a + 1" "ps_seq b' = ps_seq b"
    "ps_self a' = ps_self a" "ps_self b' = ps_self b"
proof -
  obtain tx where tx: "encode t m = Some tx" "decode_bytes t (bytes_of_string tx) = Inr m"
    using text_ok_decodes [OF js m(1)] by blast
  let ?n = "sc_counter (ps_channel a)" and ?plain = "bytes_of_string tx"
  define d where "d = tag_Control # sc_packet so (ps_channel a) ?n ?plain"
  define ch where "ch = (ps_channel b)\<lparr>sc_replay := snd (rw_accept kReplayWidth ?n (sc_replay (ps_channel b))),
    sc_opened := sc_opened (ps_channel b) + 1\<rparr>"
  define w where "w = rw_accept kControlReplayWidth (ms_seq m) (ps_controlReplay b)"
  define a' where "a' = a\<lparr>ps_seq := ps_seq a + 1,
    ps_channel := (ps_channel a)\<lparr>sc_counter := ?n + 1, sc_sealed := sc_sealed (ps_channel a) + 1\<rparr>\<rparr>"
  define b' where "b' = b\<lparr>ps_channel := ch, ps_controlReplay := snd w\<rparr>"
  have hs: "ps_state a = Ses_Authenticated" "ps_state b = Ses_Authenticated" "sc_peer (ps_channel a) (ps_channel b)"
    "heard_below kControlReplayWidth (ms_seq m) (ps_controlReplay b)" "unat (ps_seq a) + k + 2 < 2 ^ 64" "unat ?n + k + 2 < 2 ^ 64"
    using h m(2) by (simp_all add: hears_def)
  have up: "unat (ps_seq a + 1) = unat (ps_seq a) + 1" "unat (?n + 1) = unat ?n + 1"
    using hs(5,6) by (simp_all add: unat_word_ariths)
  have opens: "sc_open so (sc_packet so (ps_channel a) ?n ?plain) [] (ps_channel b) = (True, ?plain, ch)"
    "heard_below kReplayWidth (?n + 1) (sc_replay ch)"
    using packet_opens [OF so h] by (simp_all add: ch_def)
  have w: "fst w" "heard_below kControlReplayWidth (ms_seq m + 1) (snd w)"
    using heard_below_accept [OF _ _ hs(4)] up(1) hs(5) m(2) by (simp_all add: w_def kControlReplayWidth_def)
  have we: "rw_accept kControlReplayWidth (ms_seq m) (ps_controlReplay b) = (True, snd w)"
    using w(1) by (simp add: w_def prod_eq_iff)
  show thesis
  proof (rule that)
    show "\<forall>sent. snd (sendControl so t sent m (a\<lparr>ps_seq := ps_seq a + 1\<rparr>)) = \<lparr>sr_out = [SO_Send d], sr_s = a', sr_threw = False\<rparr>"
      using sealed_reaches [OF so h, of "a\<lparr>ps_seq := ps_seq a + 1\<rparr>"] hs(1)
      by (simp add: sendControl_def tx(1) d_def a'_def)
    show "\<forall>c rand now. onDatagram c so t rand now d b = \<lparr>sr_out = [SO_Control m], sr_s = b', sr_threw = False\<rparr>"
      using hs(2) opens(1) tx(2) we cb
      by (simp add: onDatagram_def d_def b'_def tag_Control_def tag_Pairing_def tag_Media_def Let_def
          sr_emit_def sr_upd_def sr_start_def)
    show "hears k a' b'"
      using hs opens(2) w(2) up m(2) by (simp add: hears_def a'_def b'_def sc_peer_def ch_def)
    have "hears j b' a'" if "hears j b a" for j
      by (rule hears_back [OF that]) (use hs(3) in \<open>simp_all add: a'_def b'_def ch_def sc_peer_def\<close>)
    then show "\<forall>j. hears j b a \<longrightarrow> hears j b' a'" by blast
  qed (simp_all add: a'_def b'_def)
qed

lemma media_reaches:
  assumes so: "sodium_laws so" and h: "hears (Suc k) a b" and cb: "scb_onMedia (ps_cb b)"
  obtains d a' b' where
    "\<forall>sent. snd (sendMedia so sent m a) = \<lparr>sr_out = [SO_Send d], sr_s = a', sr_threw = False\<rparr>"
    "\<forall>c t rand now. onDatagram c so t rand now d b = \<lparr>sr_out = [SO_Media m], sr_s = b', sr_threw = False\<rparr>"
    "hears k a' b'" "\<forall>j. hears j b a \<longrightarrow> hears j b' a'"
    "ps_cb a' = ps_cb a" "ps_cb b' = ps_cb b" "ps_seq a' = ps_seq a" "ps_seq b' = ps_seq b"
    "ps_self a' = ps_self a" "ps_self b' = ps_self b"
proof -
  let ?n = "sc_counter (ps_channel a)"
  define d where "d = tag_Media # sc_packet so (ps_channel a) ?n m"
  define ch where "ch = (ps_channel b)\<lparr>sc_replay := snd (rw_accept kReplayWidth ?n (sc_replay (ps_channel b))),
    sc_opened := sc_opened (ps_channel b) + 1\<rparr>"
  define a' where "a' = a\<lparr>ps_channel := (ps_channel a)\<lparr>sc_counter := ?n + 1, sc_sealed := sc_sealed (ps_channel a) + 1\<rparr>\<rparr>"
  define b' where "b' = b\<lparr>ps_channel := ch\<rparr>"
  have hs: "ps_state a = Ses_Authenticated" "ps_state b = Ses_Authenticated" "sc_peer (ps_channel a) (ps_channel b)"
    "unat ?n + k + 2 < 2 ^ 64"
    using h by (simp_all add: hears_def)
  have up: "unat (?n + 1) = unat ?n + 1" using hs(4) by (simp add: unat_word_ariths)
  have opens: "sc_open so (sc_packet so (ps_channel a) ?n m) [] (ps_channel b) = (True, m, ch)"
    "heard_below kReplayWidth (?n + 1) (sc_replay ch)"
    using packet_opens [OF so h] by (simp_all add: ch_def)
  show thesis
  proof (rule that)
    show "\<forall>sent. snd (sendMedia so sent m a) = \<lparr>sr_out = [SO_Send d], sr_s = a', sr_threw = False\<rparr>"
      using sealed_reaches [OF so h refl] hs(1) by (simp add: sendMedia_def d_def a'_def)
    show "\<forall>c t rand now. onDatagram c so t rand now d b = \<lparr>sr_out = [SO_Media m], sr_s = b', sr_threw = False\<rparr>"
      using hs(2) opens(1) cb
      by (simp add: onDatagram_def d_def b'_def tag_Media_def tag_Pairing_def Let_def sr_emit_def sr_upd_def sr_start_def)
    show "hears k a' b'"
      using h hs opens(2) up by (simp add: hears_def a'_def b'_def sc_peer_def ch_def)
    have "hears j b' a'" if "hears j b a" for j
      by (rule hears_back [OF that]) (use hs(3) in \<open>simp_all add: a'_def b'_def ch_def sc_peer_def\<close>)
    then show "\<forall>j. hears j b a \<longrightarrow> hears j b' a'" by blast
  qed (simp_all add: a'_def b'_def)
qed

section \<open>The steps of the two sides\<close>

lemma phone_sends:
  assumes "sp_peer p = Some s"
    and "snd (sendControl (pe_sodium env) (pe_text env) (cl_sent cl)
      (message_make (cl_rand cl) (cl_unixMs cl) ty (sp_sessionId p) (di_deviceId (pe_crypto env) (sp_identity p)) (ps_seq s + 1) payload)
      (s\<lparr>ps_seq := ps_seq s + 1\<rparr>)) = \<lparr>sr_out = [SO_Send d], sr_s = a', sr_threw = False\<rparr>"
  shows "sp_sendControl env cl ty payload p = \<lparr>pr_sent = [d], pr_p = p\<lparr>sp_peer := Some a'\<rparr>, pr_threw = False\<rparr>"
  using assms by (simp add: sp_sendControl_def sp_withPeer_def ps_nextSeq_def sp_absorb_def pr_start_def Let_def)

lemma phone_hears:
  assumes "sp_peer p = Some s"
    and "onDatagram (pe_crypto env) (pe_sodium env) (pe_text env) (cl_rand cl) (cl_unixMs cl) d s =
      \<lparr>sr_out = [SO_Control m], sr_s = b', sr_threw = False\<rparr>"
    and "sp_onControl (pe_text env) (cl_nowMs cl) m (p\<lparr>sp_peer := Some b'\<rparr>) = Some p'"
  shows "sp_onDatagram env cl d p = \<lparr>pr_sent = [], pr_p = p', pr_threw = False\<rparr>"
  using assms by (simp add: sp_onDatagram_def sp_absorb_def pr_start_def Let_def)

lemma service_hears:
  assumes "onDatagram (se_crypto env) (se_sodium env) (se_text env) (vc_rand vc) (vc_now vc) d (sv_peer v) =
      \<lparr>sr_out = [SO_Control m], sr_s = b', sr_threw = False\<rparr>"
  shows "sv_onDatagram env vc d v = sv_onControl env vc m (v\<lparr>sv_peer := b'\<rparr>)"
  using assms by (simp add: sv_onDatagram_def vr_start_def Let_def)

lemma service_hears_media:
  assumes "onDatagram (se_crypto env) (se_sodium env) (se_text env) (vc_rand vc) (vc_now vc) d (sv_peer v) =
      \<lparr>sr_out = [SO_Media x], sr_s = b', sr_threw = False\<rparr>"
  shows "sv_onDatagram env vc d v = vr_start (sv_onMedia env vc x (v\<lparr>sv_peer := b'\<rparr>))"
  using assms by (simp add: sv_onDatagram_def vr_start_def Let_def)

lemma service_says:
  assumes "snd (sendControl (se_sodium env) (se_text env) (vc_sent vc) m (sv_peer v)) =
      \<lparr>sr_out = [SO_Send d], sr_s = a', sr_threw = False\<rparr>"
  shows "sv_say env vc m v = \<lparr>vr_out = [VO_Say m, VO_Datagram d], vr_s = v\<lparr>sv_peer := a'\<rparr>, vr_threw = False\<rparr>"
  using assms by (simp add: sv_say_def datagrams_def List.map_filter_simps Let_def)

lemma service_replies:
  assumes "snd (sendControl (se_sodium env) (se_text env) (vc_sent vc) m' ((sv_peer v)\<lparr>ps_seq := ps_seq (sv_peer v) + 1\<rparr>)) =
      \<lparr>sr_out = [SO_Send d], sr_s = a', sr_threw = False\<rparr>"
    and "message_make (vc_rand vc) (vc_now vc) ty (ms_sessionId m) (di_deviceId (se_crypto env) (sv_identity v))
      (ps_seq (sv_peer v) + 1) payload = m'"
    and "v\<lparr>sv_peer := a'\<rparr> = v'"
  shows "sv_reply env vc m ty payload v = \<lparr>vr_out = [VO_Say m', VO_Datagram d], vr_s = v', vr_threw = False\<rparr>"
  using service_says [of env vc m' "v\<lparr>sv_peer := (sv_peer v)\<lparr>ps_seq := ps_seq (sv_peer v) + 1\<rparr>\<rparr>" d a'] assms
  by (simp add: sv_reply_def ps_nextSeq_def)

text \<open>The control messages of both sides.\<close>

definition phone_says :: "('e, 'd) phone_env \<Rightarrow> call \<Rightarrow> msg_type \<Rightarrow> json \<Rightarrow> 'e sm_phone \<Rightarrow> u64 \<Rightarrow> message" where
  "phone_says pe cl ty payload p seq = message_make (cl_rand cl) (cl_unixMs cl) ty (sp_sessionId p)
     (di_deviceId (pe_crypto pe) (sp_identity p)) seq payload"

definition pc_says ::
  "('e, 'd, 'l, 'k) service_env \<Rightarrow> service_call \<Rightarrow> msg_type \<Rightarrow> string \<Rightarrow> ('l, 'd, 'k, 'cb) service \<Rightarrow> u64 \<Rightarrow> message" where
  "pc_says se vc ty sid v seq = message_make (vc_rand vc) (vc_now vc) ty sid
     (di_deviceId (se_crypto se) (sv_identity v)) seq (json_obj [])"

lemma says_fields [simp]:
  "ms_type (phone_says pe cl ty payload p seq) = ty" "ms_seq (phone_says pe cl ty payload p seq) = seq"
  "ms_sessionId (phone_says pe cl ty payload p seq) = sp_sessionId p"
  "ms_type (pc_says se vc ty sid v seq) = ty" "ms_seq (pc_says se vc ty sid v seq) = seq"
  by (simp_all add: phone_says_def pc_says_def message_make_def)

lemma sent_said_simps [simp]:
  "sent_datagrams [] = []" "sent_datagrams (VO_Datagram b # os) = b # sent_datagrams os" "sent_datagrams (VO_Say m # os) = sent_datagrams os"
  "said_messages [] = []" "said_messages (VO_Datagram b # os) = said_messages os" "said_messages (VO_Say m # os) = m # said_messages os"
  by (simp_all add: sent_datagrams_def said_messages_def List.map_filter_simps)

text \<open>The two sessions of a pair that has finished its handshake, with room for so many packets each way.\<close>

definition joined :: "nat \<Rightarrow> peer_session \<Rightarrow> peer_session \<Rightarrow> bool" where
  "joined room s q \<longleftrightarrow> hears room s q \<and> hears room q s \<and> scb_onControl (ps_cb s) \<and> scb_onControl (ps_cb q) \<and> scb_onMedia (ps_cb q)"

lemma hears_less: "hears k a b \<Longrightarrow> j \<le> k \<Longrightarrow> hears j a b"
  by (auto simp: hears_def)

definition libraries :: "('e, 'f) phone_env \<Rightarrow> ('g, 'd, 'l, 'k) service_env \<Rightarrow> bool" where
  "libraries pe se \<longleftrightarrow> sodium_laws (pe_sodium pe) \<and> json_text_laws (pe_text pe) \<and>
     se_sodium se = pe_sodium pe \<and> se_text se = pe_text pe"

text \<open>A message of the phone and the PC's reply to it.\<close>

lemma exchange:
  assumes so: "sodium_laws so" and js: "json_text_laws t" and j: "joined (Suc k) s q"
    and m1: "text_ok t m1" "ms_seq m1 = ps_seq s + 1" and m2: "text_ok t m2" "ms_seq m2 = ps_seq q + 1"
  obtains d1 s1 q1 d2 s2 q2 where
    "\<forall>sent. snd (sendControl so t sent m1 (s\<lparr>ps_seq := ps_seq s + 1\<rparr>)) = \<lparr>sr_out = [SO_Send d1], sr_s = s1, sr_threw = False\<rparr>"
    "\<forall>c rand now. onDatagram c so t rand now d1 q = \<lparr>sr_out = [SO_Control m1], sr_s = q1, sr_threw = False\<rparr>"
    "\<forall>sent. snd (sendControl so t sent m2 (q1\<lparr>ps_seq := ps_seq q1 + 1\<rparr>)) = \<lparr>sr_out = [SO_Send d2], sr_s = q2, sr_threw = False\<rparr>"
    "\<forall>c rand now. onDatagram c so t rand now d2 s1 = \<lparr>sr_out = [SO_Control m2], sr_s = s2, sr_threw = False\<rparr>"
    "joined k s2 q2" "ps_seq q1 = ps_seq q" "ps_seq q2 = ps_seq q + 1" "ps_seq s2 = ps_seq s + 1"
proof -
  have hj: "hears (Suc k) s q" "hears (Suc k) q s" "scb_onControl (ps_cb s)" "scb_onControl (ps_cb q)" "scb_onMedia (ps_cb q)"
    using j by (simp_all add: joined_def)
  obtain d1 s1 q1 where a: "\<forall>sent. snd (sendControl so t sent m1 (s\<lparr>ps_seq := ps_seq s + 1\<rparr>)) =
      \<lparr>sr_out = [SO_Send d1], sr_s = s1, sr_threw = False\<rparr>"
    "\<forall>c rand now. onDatagram c so t rand now d1 q = \<lparr>sr_out = [SO_Control m1], sr_s = q1, sr_threw = False\<rparr>"
    "hears k s1 q1" "\<forall>j. hears j q s \<longrightarrow> hears j q1 s1" "ps_cb s1 = ps_cb s" "ps_cb q1 = ps_cb q"
    "ps_seq s1 = ps_seq s + 1" "ps_seq q1 = ps_seq q" "ps_self s1 = ps_self s" "ps_self q1 = ps_self q"
    by (rule control_reaches [OF so js hj(1,4) m1]; rule that; assumption)
  have h1: "hears (Suc k) q1 s1" "scb_onControl (ps_cb s1)" "ms_seq m2 = ps_seq q1 + 1"
    using a(4,5,8) hj(2,3) m2(2) by simp_all
  obtain d2 q2 s2 where b: "\<forall>sent. snd (sendControl so t sent m2 (q1\<lparr>ps_seq := ps_seq q1 + 1\<rparr>)) =
      \<lparr>sr_out = [SO_Send d2], sr_s = q2, sr_threw = False\<rparr>"
    "\<forall>c rand now. onDatagram c so t rand now d2 s1 = \<lparr>sr_out = [SO_Control m2], sr_s = s2, sr_threw = False\<rparr>"
    "hears k q2 s2" "\<forall>j. hears j s1 q1 \<longrightarrow> hears j s2 q2" "ps_cb q2 = ps_cb q1" "ps_cb s2 = ps_cb s1"
    "ps_seq q2 = ps_seq q1 + 1" "ps_seq s2 = ps_seq s1" "ps_self q2 = ps_self q1" "ps_self s2 = ps_self s1"
    by (rule control_reaches [OF so js h1(1,2) m2(1) h1(3)]; rule that; assumption)
  have "joined k s2 q2" using a(3) b(3,4) a(5,6) b(5,6) hj(3-5) by (simp add: joined_def)
  then show thesis using that a b by simp
qed

text \<open>A press reaches the PC, which asks its router for the phone and answers that it prepares.\<close>

lemma press_step:
  fixes d :: "('e, 'l, 'd, 'k, 'cb) duo" and cl :: call and vc :: service_call
  assumes lib: "libraries pe se" and j: "joined (Suc k) s q"
    and p: "du_phone d = p" "sp_peer p = Some s" "sp_connState p = SM_CONN_AUTHENTICATED" "\<not> sp_pressed p"
    and v: "du_service d = v" "sv_peer v = q"
  defines "m1 \<equiv> phone_says pe cl Msg_StartPtt (json_obj []) p (ps_seq s + 1)"
    and "m2 \<equiv> pc_says se vc Msg_PttPreparing (sp_sessionId p) v (ps_seq q + 1)"
  assumes speakable: "text_ok (pe_text pe) m1" "text_ok (pe_text pe) m2"
  obtains s' q' where
    "du_step pe se (DE_Press cl vc) d =
       d\<lparr>du_phone := p\<lparr>sp_pressed := True, sp_pressedAtMs := cl_nowMs cl, sp_pttState := SM_PTT_CONNECTING,
           sp_sender := msd_resetStream (sp_sender p), sp_peer := Some s'\<rparr>,
         du_service := v\<lparr>sv_pttRequested := True, sv_announcedReady := False, sv_router := startPtt (sv_router v), sv_peer := q'\<rparr>,
         du_said := du_said d @ [m2]\<rparr>"
    "joined k s' q'" "ps_seq q' = ps_seq q + 1" "ps_seq s' = ps_seq s + 1"
proof -
  have laws: "sodium_laws (pe_sodium pe)" "json_text_laws (pe_text pe)" "se_sodium se = pe_sodium pe" "se_text se = pe_text pe"
    using lib by (simp_all add: libraries_def)
  have sq: "ms_seq m1 = ps_seq s + 1" "ms_seq m2 = ps_seq q + 1" "ms_type m1 = Msg_StartPtt" "ms_type m2 = Msg_PttPreparing"
    by (simp_all add: m1_def m2_def)
  obtain d1 s1 q1 d2 s2 q2 where e:
    "\<forall>sent. snd (sendControl (pe_sodium pe) (pe_text pe) sent m1 (s\<lparr>ps_seq := ps_seq s + 1\<rparr>)) =
      \<lparr>sr_out = [SO_Send d1], sr_s = s1, sr_threw = False\<rparr>"
    "\<forall>c rand now. onDatagram c (pe_sodium pe) (pe_text pe) rand now d1 q = \<lparr>sr_out = [SO_Control m1], sr_s = q1, sr_threw = False\<rparr>"
    "\<forall>sent. snd (sendControl (pe_sodium pe) (pe_text pe) sent m2 (q1\<lparr>ps_seq := ps_seq q1 + 1\<rparr>)) =
      \<lparr>sr_out = [SO_Send d2], sr_s = q2, sr_threw = False\<rparr>"
    "\<forall>c rand now. onDatagram c (pe_sodium pe) (pe_text pe) rand now d2 s1 = \<lparr>sr_out = [SO_Control m2], sr_s = s2, sr_threw = False\<rparr>"
    "joined k s2 q2" "ps_seq q1 = ps_seq q" "ps_seq q2 = ps_seq q + 1" "ps_seq s2 = ps_seq s + 1"
    by (rule exchange [OF laws(1,2) j speakable(1) sq(1) speakable(2) sq(2)])
  let ?p = "p\<lparr>sp_pressed := True, sp_pressedAtMs := cl_nowMs cl, sp_pttState := SM_PTT_CONNECTING,
           sp_sender := msd_resetStream (sp_sender p)\<rparr>"
  let ?v = "v\<lparr>sv_peer := q1, sv_pttRequested := True, sv_announcedReady := False, sv_router := startPtt (sv_router v)\<rparr>"
  have press: "sm_phone_press pe cl p = \<lparr>pr_sent = [d1], pr_p = ?p\<lparr>sp_peer := Some s1\<rparr>, pr_threw = False\<rparr>"
    using phone_sends [of ?p s pe cl Msg_StartPtt "json_obj []" d1 s1] p e(1)
    by (simp add: sm_phone_press_def m1_def phone_says_def)
  have reply: "sv_onDatagram se vc d1 v = \<lparr>vr_out = [VO_Say m2, VO_Datagram d2], vr_s = ?v\<lparr>sv_peer := q2\<rparr>, vr_threw = False\<rparr>"
  proof -
    have "sv_onDatagram se vc d1 v = sv_onControl se vc m1 (v\<lparr>sv_peer := q1\<rparr>)"
      by (rule service_hears) (simp add: laws v e(2))
    also have "\<dots> = sv_reply se vc m1 Msg_PttPreparing (json_obj []) ?v"
      using sq(3) by (simp add: sv_onControl_def)
    also have "\<dots> = \<lparr>vr_out = [VO_Say m2, VO_Datagram d2], vr_s = ?v\<lparr>sv_peer := q2\<rparr>, vr_threw = False\<rparr>"
      by (rule service_replies) (use e(3) laws e(6) in \<open>simp_all add: m1_def m2_def pc_says_def\<close>)
    finally show ?thesis .
  qed
  have heard: "sp_onDatagram pe cl d2 (?p\<lparr>sp_peer := Some s1\<rparr>) = \<lparr>pr_sent = [], pr_p = ?p\<lparr>sp_peer := Some s2\<rparr>, pr_threw = False\<rparr>"
    by (rule phone_hears [of _ s1 _ _ _ m2 s2]) (simp_all add: e(4) sp_onControl_def sq(4))
  show thesis
    by (rule that [OF _ e(5,7,8)])
       (simp add: du_ask_def du_answer_def p(1) v(1) press reply heard pr_then_def pr_start_def vr_start_def Let_def)
qed

text \<open>A release reaches the PC, which takes the phone out and answers that it has stopped.\<close>

definition release_reason :: json where
  "release_reason = json_obj [(''reason'', JString ''release'')]"

lemma release_step:
  fixes d :: "('e, 'l, 'd, 'k, 'cb) duo" and cl :: call and vc :: service_call
  assumes lib: "libraries pe se" and j: "joined (Suc k) s q"
    and p: "du_phone d = p" "sp_peer p = Some s" "sp_connState p = SM_CONN_AUTHENTICATED" "sp_pttState p = SM_PTT_LIVE"
    and v: "du_service d = v" "sv_peer v = q"
  defines "m1 \<equiv> phone_says pe cl Msg_StopPtt release_reason p (ps_seq s + 1)"
    and "m2 \<equiv> pc_says se vc Msg_PttStopped (sp_sessionId p) v (ps_seq q + 1)"
  assumes speakable: "text_ok (pe_text pe) m1" "text_ok (pe_text pe) m2"
  obtains s' q' where
    "du_step pe se (DE_Release cl vc) d =
       d\<lparr>du_phone := p\<lparr>sp_pressed := False, sp_releasedAtMs := cl_nowMs cl, sp_pttState := SM_PTT_READY,
           sp_haptic := SM_HAPTIC_RETURNED, sp_peer := Some s'\<rparr>,
         du_service := v\<lparr>sv_pttRequested := False, sv_router := stopPtt (sv_router v), sv_peer := q'\<rparr>,
         du_said := du_said d @ [m2]\<rparr>"
    "joined k s' q'"
proof -
  have laws: "sodium_laws (pe_sodium pe)" "json_text_laws (pe_text pe)" "se_sodium se = pe_sodium pe" "se_text se = pe_text pe"
    using lib by (simp_all add: libraries_def)
  have sq: "ms_seq m1 = ps_seq s + 1" "ms_seq m2 = ps_seq q + 1" "ms_type m1 = Msg_StopPtt" "ms_type m2 = Msg_PttStopped"
    by (simp_all add: m1_def m2_def)
  obtain d1 s1 q1 d2 s2 q2 where e:
    "\<forall>sent. snd (sendControl (pe_sodium pe) (pe_text pe) sent m1 (s\<lparr>ps_seq := ps_seq s + 1\<rparr>)) =
      \<lparr>sr_out = [SO_Send d1], sr_s = s1, sr_threw = False\<rparr>"
    "\<forall>c rand now. onDatagram c (pe_sodium pe) (pe_text pe) rand now d1 q = \<lparr>sr_out = [SO_Control m1], sr_s = q1, sr_threw = False\<rparr>"
    "\<forall>sent. snd (sendControl (pe_sodium pe) (pe_text pe) sent m2 (q1\<lparr>ps_seq := ps_seq q1 + 1\<rparr>)) =
      \<lparr>sr_out = [SO_Send d2], sr_s = q2, sr_threw = False\<rparr>"
    "\<forall>c rand now. onDatagram c (pe_sodium pe) (pe_text pe) rand now d2 s1 = \<lparr>sr_out = [SO_Control m2], sr_s = s2, sr_threw = False\<rparr>"
    "joined k s2 q2" "ps_seq q1 = ps_seq q" "ps_seq q2 = ps_seq q + 1" "ps_seq s2 = ps_seq s + 1"
    by (rule exchange [OF laws(1,2) j speakable(1) sq(1) speakable(2) sq(2)])
  let ?p = "p\<lparr>sp_pressed := False, sp_releasedAtMs := cl_nowMs cl, sp_pttState := SM_PTT_RELEASING\<rparr>"
  let ?p2 = "p\<lparr>sp_pressed := False, sp_releasedAtMs := cl_nowMs cl, sp_pttState := SM_PTT_READY,
      sp_haptic := SM_HAPTIC_RETURNED, sp_peer := Some s2\<rparr>"
  let ?v = "v\<lparr>sv_peer := q1, sv_pttRequested := False, sv_router := stopPtt (sv_router v)\<rparr>"
  have release: "sm_phone_release pe cl p = \<lparr>pr_sent = [d1], pr_p = ?p\<lparr>sp_peer := Some s1\<rparr>, pr_threw = False\<rparr>"
    using phone_sends [of ?p s pe cl Msg_StopPtt release_reason d1 s1] p e(1)
    by (simp add: sm_phone_release_def m1_def phone_says_def release_reason_def Let_def)
  have reply: "sv_onDatagram se vc d1 v = \<lparr>vr_out = [VO_Say m2, VO_Datagram d2], vr_s = ?v\<lparr>sv_peer := q2\<rparr>, vr_threw = False\<rparr>"
  proof -
    have "sv_onDatagram se vc d1 v = sv_onControl se vc m1 (v\<lparr>sv_peer := q1\<rparr>)"
      by (rule service_hears) (simp add: laws v e(2))
    also have "\<dots> = sv_reply se vc m1 Msg_PttStopped (json_obj []) ?v"
      using sq(3) by (simp add: sv_onControl_def)
    also have "\<dots> = \<lparr>vr_out = [VO_Say m2, VO_Datagram d2], vr_s = ?v\<lparr>sv_peer := q2\<rparr>, vr_threw = False\<rparr>"
      by (rule service_replies) (use e(3) laws e(6) in \<open>simp_all add: m1_def m2_def pc_says_def\<close>)
    finally show ?thesis .
  qed
  have heard: "sp_onDatagram pe cl d2 (?p\<lparr>sp_peer := Some s1\<rparr>) = \<lparr>pr_sent = [], pr_p = ?p2, pr_threw = False\<rparr>"
    by (rule phone_hears [of _ s1 _ _ _ m2 s2]) (simp_all add: e(4) sp_onControl_def sq(4))
  show thesis
    by (rule that [OF _ e(5)])
       (simp add: du_ask_def du_answer_def p(1) v(1) release reply heard pr_then_def pr_start_def vr_start_def Let_def)
qed

section \<open>A router that waits for the phone\<close>

text \<open>Armed for so many frames; at zero the press is still in the queue.\<close>

definition armed_for :: "nat \<Rightarrow> router_control \<Rightarrow> bool" where
  "armed_for m k \<longleftrightarrow> sm_mode (rk_sm k) = Mode_Auto \<and> rk_produced k = rk_clock k \<and>
     (if m = 0 then ks k = LocalActive \<and> rk_queue k = [event_code Ev_StartPtt]
      else ks k = PhoneArming \<and> rk_queue k = [] \<and> rk_clock k = rk_arm k + of_nat m)"

lemma framesFor_default: "framesFor (rc_phoneLostTimeoutMs default_router_config) = 30" "framesFor (rc_armTimeoutMs default_router_config) = 75"
  by (simp_all add: framesFor_def default_router_config_def kFrameMillis_def)

lemmas waiting_steps = k_post_def q_keep_def k_tick_def k_drain_def k_timers_def k_source_def k_close_def k_raw_def k_event_def
  sm_apply_def Let_def silent_state_def framesFor_default armed_for_def

lemma armed_start:
  "sm_mode (rk_sm k) = Mode_Auto \<Longrightarrow> ks k = LocalActive \<Longrightarrow> rk_queue k = [] \<Longrightarrow> rk_produced k = rk_clock k \<Longrightarrow>
     armed_for 0 (k_step cfg lf pf RC_StartPtt k)"
  by (simp add: waiting_steps del: event_code.simps)

lemma armed_timers:
  assumes "armed_for m k" and "m \<le> 75"
  shows "ks (k_timers default_router_config (k_drain k)) = PhoneArming"
    and "armed_for (Suc m) (k_tick default_router_config False pf k)"
proof -
  have m: "\<not> 75 < (of_nat m :: u64)" using assms(2) by (simp add: word_less_nat_alt unat_of_nat_u64)
  show "ks (k_timers default_router_config (k_drain k)) = PhoneArming"
    using assms(1) m by (cases m) (auto simp: waiting_steps simp del: event_code.simps)
  show "armed_for (Suc m) (k_tick default_router_config False pf k)"
    using assms(1) m by (cases m) (auto simp: waiting_steps simp del: event_code.simps)
qed

text \<open>Playing the phone.\<close>

definition plays :: "router_control \<Rightarrow> bool" where
  "plays k \<longleftrightarrow> sm_mode (rk_sm k) = Mode_Auto \<and> ks k = PhoneActive \<and> rk_queue k = []"

lemma armed_ready:
  assumes "armed_for m k" and "0 < m" and "m \<le> 75"
  shows "plays (k_run default_router_config [RC_PhoneReady, RC_Tick] k)"
  using assms by (auto simp: k_run_def plays_def waiting_steps simp del: event_code.simps)

lemma plays_until_stop:
  assumes "plays k"
  shows "ks (k_run default_router_config [RC_StopPtt, RC_Tick] k) = LocalActive"
  using assms by (auto simp: k_run_def plays_def waiting_steps simp del: event_code.simps)

text \<open>The same on the router itself.\<close>

definition router_waits :: "('l \<Rightarrow> bool) \<Rightarrow> ('d phone_media_source \<Rightarrow> bool) \<Rightarrow> nat \<Rightarrow> ('l, 'd phone_media_source, 'k) audio_router \<Rightarrow> bool" where
  "router_waits lok pok m r \<longleftrightarrow>
     short_fades lok pok r \<and> ar_config r = default_router_config \<and> armed_for m (control_of r)"

lemma step_config: "ar_config (router_step fl lops pops kops c r) = ar_config r" if "rb_ok (ar_events r)"
  using that by (cases c) (simp_all add: tick_clock router_setMode_def startPtt_def stopPtt_def
      notifyPhoneReady_def notifyPhoneHeartbeat_def notifyPhoneGone_def)

lemma local_works:
  "never_fails lops lok \<Longrightarrow> short_fades lok pok r \<Longrightarrow> \<not> would_fail lops (ar_local r) buf"
  by (auto simp: would_fail_def never_fails_def short_fades_def router_ok_def split: option.split)

lemma waits_start:
  fixes lops :: "'l source_ops" and pops :: "'d phone_media_source source_ops" and kops :: "'k sink_ops"
  assumes src: "audio_source (so_read lops) lok" "audio_source (so_read pops) pok" and "short_fades lok pok r"
    and "ar_config r = default_router_config" and "sm_mode (ar_sm r) = Mode_Auto" "st r = LocalActive" "rb_contents (ar_events r) = []"
  shows "router_waits lok pok 0 (startPtt r)"
proof -
  have "rk_produced (control_of r) = rk_clock (control_of r)"
    using assms(3) by (simp add: control_of_def short_fades_def router_ok_def)
  then have "armed_for 0 (k_step (ar_config r) lf pf RC_StartPtt (control_of r))" for lf pf
    by (intro armed_start) (use assms(5-7) in \<open>simp_all add: control_of_def\<close>)
  then show ?thesis
    using call_refines [OF src assms(3), of undefined RC_StartPtt] assms(4)
    by (simp add: router_waits_def startPtt_def)
qed

lemma waits_tick:
  fixes lops :: "'l source_ops" and pops :: "'d phone_media_source source_ops" and kops :: "'k sink_ops"
  assumes src: "audio_source (so_read lops) lok" "audio_source (so_read pops) pok" and nf: "never_fails lops lok"
    and w: "router_waits lok pok m r" and "m \<le> 75"
  defines "r' \<equiv> snd (tick f32 lops pops kops r)"
  shows "router_waits lok pok (Suc m) r'" and "ar_phone r' = ar_phone r"
proof -
  have sf: "short_fades lok pok r" and cfg: "ar_config r = default_router_config" and arm: "armed_for m (control_of r)"
    using w by (simp_all add: router_waits_def)
  note t = armed_timers [OF arm assms(5)]
  have "ar_config r' = default_router_config"
    using step_config [of r f32 lops pops kops RC_Tick] sf cfg by (simp add: r'_def short_fades_def router_ok_def)
  then show "router_waits lok pok (Suc m) r'"
    using tick_refines [OF src sf, of kops] t(2) local_works [OF nf sf] cfg by (simp add: router_waits_def r'_def)
  have s: "ks (control_of r) \<in> {LocalActive, PhoneArming}" using arm by (simp add: armed_for_def split: if_splits)
  show "ar_phone r' = ar_phone r"
    unfolding r'_def
    by (rule tick_phone_unread [OF sf])
       (use t(1) local_works [OF nf sf] s in \<open>auto simp: cfg k_source_def silent_state_def\<close>)
qed

definition router_plays :: "('l \<Rightarrow> bool) \<Rightarrow> ('d phone_media_source \<Rightarrow> bool) \<Rightarrow> ('l, 'd phone_media_source, 'k) audio_router \<Rightarrow> bool" where
  "router_plays lok pok r \<longleftrightarrow> short_fades lok pok r \<and> ar_config r = default_router_config \<and> plays (control_of r)"

text \<open>The announcement and the next tick bring the phone in, a stop and the next tick take it out.\<close>

lemma waits_ready:
  fixes lops :: "'l source_ops" and pops :: "'d phone_media_source source_ops" and kops :: "'k sink_ops"
  assumes src: "audio_source (so_read lops) lok" "audio_source (so_read pops) pok"
    and nf: "never_fails lops lok" "never_fails pops pok" and w: "router_waits lok pok m r" and m: "0 < m" "m \<le> 75"
  shows "router_plays lok pok (snd (tick f32 lops pops kops (notifyPhoneReady r)))"
  using run_refines [OF src, of r kops "[RC_PhoneReady, RC_Tick]"] nf w armed_ready [OF _ m, of "control_of r"]
  by (simp add: router_waits_def router_plays_def router_run_def)

lemma plays_stop:
  fixes lops :: "'l source_ops" and pops :: "'d phone_media_source source_ops" and kops :: "'k sink_ops"
  assumes src: "audio_source (so_read lops) lok" "audio_source (so_read pops) pok"
    and nf: "never_fails lops lok" "never_fails pops pok" and w: "router_plays lok pok r"
  shows "st (snd (tick f32 lops pops kops (stopPtt r))) = LocalActive"
proof -
  have "control_of (snd (tick f32 lops pops kops (stopPtt r))) = k_run default_router_config [RC_StopPtt, RC_Tick] (control_of r)"
    using run_refines [OF src, of r kops "[RC_StopPtt, RC_Tick]"] nf w by (simp add: router_plays_def router_run_def)
  then have "ks (control_of (snd (tick f32 lops pops kops (stopPtt r)))) = LocalActive"
    using plays_until_stop w by (simp add: router_plays_def)
  then show ?thesis by (simp add: control_of_def)
qed

text \<open>Media changes the phone source and the heartbeat only.\<close>

lemma waits_media:
  assumes "router_waits lok pok m r" and "pok w"
  shows "router_waits lok pok m (notifyPhoneHeartbeat (r\<lparr>ar_phone := Some w\<rparr>))"
proof -
  let ?r = "notifyPhoneHeartbeat (r\<lparr>ar_phone := Some w\<rparr>)"
  have "short_fades lok pok r" using assms(1) by (simp add: router_waits_def)
  moreover have "gate_ok ?r = gate_ok r" "fade_bounded ?r = fade_bounded r"
    by (simp_all add: gate_ok_def fade_bounded_def notifyPhoneHeartbeat_def)
  ultimately have "short_fades lok pok ?r" using assms(2) by (simp add: short_fades_def router_ok_def notifyPhoneHeartbeat_def)
  moreover have "armed_for m (control_of ?r)"
    using assms by (simp add: router_waits_def armed_for_def control_of_def notifyPhoneHeartbeat_def split: if_splits)
  ultimately show ?thesis using assms by (simp add: router_waits_def notifyPhoneHeartbeat_def)
qed

section \<open>A spurt that fills the buffer\<close>

text \<open>The first so many packets of a spurt that starts at \<open>s0\<close> are queued, and nothing else.\<close>

definition holds_spurt :: "u32 \<Rightarrow> nat \<Rightarrow> 'd phone_media_source \<Rightarrow> bool" where
  "holds_spurt s0 n w \<longleftrightarrow> pm_started w \<and> jb_cfg (pm_buffer w) = default_jitter_config \<and>
     (if n = 0 then \<not> jb_ready (pm_buffer w)
      else jb_started (pm_buffer w) \<and> jb_nextSeq (pm_buffer w) = s0 \<and>
           length (jb_queue (pm_buffer w)) = n \<and> fst ` set (jb_queue (pm_buffer w)) = (\<lambda>i. s0 + of_nat i) ` {..<n})"

lemma maxEntries_default: "maxEntries default_jitter_config = 14"
  by (simp add: maxEntries_def default_jitter_config_def kFrameMs_def kFrameMillis_def)

lemma spurt_ready:
  assumes "holds_spurt s0 n w" and "n \<le> 14"
  shows "pm_ready w \<longleftrightarrow> 2 \<le> n"
proof -
  have "unat (of_nat n * 20 :: u32) = n * 20"
    using assms(2) unat_of_nat_u32 [of "n * 20"] by simp
  then have "(40 :: u32) \<le> of_nat n * 20 \<longleftrightarrow> 2 \<le> n" by (simp add: word_le_nat_alt)
  then show ?thesis
    using assms(1)
    by (auto simp: holds_spurt_def pm_ready_def jb_ready_def jb_depthMs_def kFrameMs_def kFrameMillis_def default_jitter_config_def
        split: if_splits)
qed

lemma spurt_arrives:
  assumes h: "holds_spurt s0 n w" and n: "n < 14" and p: "is_payload (s0 + of_nat n) (n = 0) p" "12 < length p"
  shows "holds_spurt s0 (Suc n) (snd (pm_onMediaPayload rd p t w))"
proof (cases n)
  case 0
  then have "snd (pm_onMediaPayload rd p t w) =
      w\<lparr>pm_lastPacketMs := t, pm_buffer := jb_push rd s0 (drop 12 p) t (jb_reset (pm_buffer w))\<rparr>"
    using pm_receive_step [of s0 True p rd t w] p by simp
  moreover have "jb_queue (jb_push rd s0 (drop 12 p) t (jb_reset (pm_buffer w))) = [(s0, \<lparr>je_payload = drop 12 p, je_arrivalMs = t\<rparr>)]"
    by (rule jb_push_first) (simp_all add: jb_reset_def)
  ultimately show ?thesis using h 0 by (simp add: holds_spurt_def jb_push_frame jb_reset_def lessThan_Suc)
next
  case (Suc j)
  let ?b = "pm_buffer w"
  have b: "pm_started w" "jb_cfg ?b = default_jitter_config" "jb_started ?b" "jb_nextSeq ?b = s0" "length (jb_queue ?b) = n"
    "fst ` set (jb_queue ?b) = (\<lambda>i. s0 + of_nat i) ` {..<n}"
    using h Suc by (simp_all add: holds_spurt_def)
  have "s0 + of_nat n \<noteq> (s0 + of_nat i :: u32)" if "i < n" for i
    using that n by (auto dest!: arg_cong [where f = unat] simp: unat_of_nat_u32)
  then have fresh: "s0 + of_nat n \<notin> fst ` set (jb_queue ?b)" using b(6) by auto
  have q: "jb_queue (jb_push rd (s0 + of_nat n) (drop 12 p) t ?b) =
      mq_insert (s0 + of_nat n) \<lparr>je_payload = drop 12 p, je_arrivalMs = t\<rparr> (jb_queue ?b)"
    by (rule jb_push_fits) (use b fresh n sint_of_nat_u32 [of n] in \<open>simp_all add: maxEntries_default\<close>)
  have "snd (pm_onMediaPayload rd p t w) =
      w\<lparr>pm_lastPacketMs := t, pm_buffer := jb_push rd (s0 + of_nat n) (drop 12 p) t ?b\<rparr>"
    using pm_receive_step [of "s0 + of_nat n" False p rd t w] p Suc by simp
  then show ?thesis
    using b q by (simp add: holds_spurt_def jb_push_frame lessThan_Suc)
qed

text \<open>An encoder that never fails and always has something to say.\<close>

definition encodes :: "('e, 'd) opus_ops \<Rightarrow> bool" where
  "encodes ops \<longleftrightarrow> (\<forall>pcm e. length pcm = kFrameSamples \<longrightarrow>
     (\<exists>bs e'. opus_encode ops pcm kMaxPacketBytes e = (Some bs, e') \<and> bs \<noteq> []))"

text \<open>The sender is at packet \<open>n\<close> of its spurt.\<close>

definition sends_spurt :: "u32 \<Rightarrow> nat \<Rightarrow> 'e media_sender \<Rightarrow> bool" where
  "sends_spurt s0 n s \<longleftrightarrow> oe_enc (msd_encoder s) \<noteq> None \<and> msd_seq s = s0 + of_nat n \<and> (msd_marker s \<longleftrightarrow> n = 0)"

lemma spurt_packs:
  assumes "encodes ops" and "sends_spurt s0 n s" and "length pcm = kFrameSamples"
  obtains p s' where "packFrame ops pcm True [] s = (True, p, s')" "is_payload (s0 + of_nat n) (n = 0) p" "12 < length p"
    "sends_spurt s0 (Suc n) s'"
proof -
  obtain e where e: "oe_enc (msd_encoder s) = Some e" using assms(2) by (auto simp: sends_spurt_def)
  obtain bs e' where bs: "opus_encode ops pcm kMaxPacketBytes e = (Some bs, e')" "bs \<noteq> []"
    using assms(1,3) unfolding encodes_def by blast
  have enc: "oe_encode ops pcm [] (msd_encoder s) = (True, bs, (msd_encoder s)\<lparr>oe_enc := Some e'\<rparr>)"
    using e bs assms(3) by (simp add: oe_encode_def)
  obtain ok p s' where p: "packFrame ops pcm True [] s = (ok, p, s')" by (metis prod_cases3)
  have ok: "ok" "12 < length p" "oe_enc (msd_encoder s') \<noteq> None"
    using p enc bs(2) by (auto simp: packFrame_def Let_def writeHeader_def)
  show thesis
  proof (rule that)
    show "packFrame ops pcm True [] s = (True, p, s')" using p ok by simp
    note pl = packFrame_payload [OF this]
    have s: "msd_seq s = s0 + of_nat n" "msd_marker s = (n = 0)" using assms(2) by (simp_all add: sends_spurt_def)
    show "is_payload (s0 + of_nat n) (n = 0) p" using pl unfolding s by simp
    have "s0 + of_nat n + 1 = s0 + (of_nat (Suc n) :: u32)" by simp
    then show "sends_spurt s0 (Suc n) s'" using pl ok(3) unfolding s by (simp add: sends_spurt_def)
  qed (rule ok(2))
qed

section \<open>Between the press and the answer\<close>

text \<open>What the run rests on: the libraries, the encoder, the decoder, and a local microphone that works.\<close>

definition equipped :: "('e, 'f) phone_env \<Rightarrow> ('g, 'd, 'l, 'k) service_env \<Rightarrow> ('l \<Rightarrow> bool) \<Rightarrow> bool" where
  "equipped pe se lok \<longleftrightarrow> libraries pe se \<and> encodes (pe_opus pe) \<and> opus_laws (se_opus se) \<and> se_rf se = f32 \<and>
     audio_source (so_read (se_local se)) lok \<and> never_fails (se_local se) lok"

text \<open>
  After \<open>m\<close> passes of the PC's loop and \<open>n\<close> frames of the phone. \<open>d0\<close> is the pair before the press, which
  fixes the identities, the offer and where the sequence numbers of the spurt and of both sides start.
\<close>

definition first_seq :: "('e, 'l, 'd, 'k, 'cb) duo \<Rightarrow> u32" where
  "first_seq d0 = msd_seq (sp_sender (du_phone d0))"

definition same_pair :: "('e, 'l, 'd, 'k, 'cb) duo \<Rightarrow> peer_session \<Rightarrow> ('e, 'l, 'd, 'k, 'cb) duo \<Rightarrow> bool" where
  "same_pair d0 s d \<longleftrightarrow> sp_peer (du_phone d) = Some s \<and>
     (\<exists>s0. sp_peer (du_phone d0) = Some s0 \<and> ps_seq s = ps_seq s0 + 1) \<and>
     sp_sessionId (du_phone d) = sp_sessionId (du_phone d0) \<and> sp_identity (du_phone d) = sp_identity (du_phone d0) \<and>
     sv_offer (du_service d) = sv_offer (du_service d0) \<and> sv_identity (du_service d) = sv_identity (du_service d0) \<and>
     sp_pressed (du_phone d) \<and> sp_connState (du_phone d) = SM_CONN_AUTHENTICATED \<and> \<not> du_threw d \<and> du_left d = []"

definition waiting ::
  "('l \<Rightarrow> bool) \<Rightarrow> ('e, 'l, 'd, 'k, 'cb) duo \<Rightarrow> nat \<Rightarrow> nat \<Rightarrow> ('e, 'l, 'd, 'k, 'cb) duo \<Rightarrow> bool" where
  "waiting lok d0 m n d \<longleftrightarrow>
     (\<exists>s w. same_pair d0 s d \<and> joined (17 - n) s (sv_peer (du_service d)) \<and>
        ar_phone (sv_router (du_service d)) = Some w \<and> holds_spurt (first_seq d0) n w) \<and>
     n \<le> 14 \<and> ps_seq (sv_peer (du_service d)) = ps_seq (sv_peer (du_service d0)) + 1 \<and>
     sends_spurt (first_seq d0) n (sp_sender (du_phone d)) \<and>
     sv_pttRequested (du_service d) \<and> \<not> sv_announcedReady (du_service d) \<and>
     router_waits lok pm_started m (sv_router (du_service d))"

text \<open>A started phone source keeps the contract of sources and never fails.\<close>

lemma phone_source_works:
  assumes "opus_laws ops"
  shows "audio_source (so_read (phone_source_ops ops)) pm_started" and "never_fails (phone_source_ops ops) pm_started"
proof -
  show "audio_source (so_read (phone_source_ops ops)) pm_started"
    by unfold_locales (simp_all add: phone_source_ops_def pm_read_length [OF assms], simp add: pm_read_def split: prod.split)
  show "never_fails (phone_source_ops ops) pm_started"
    by (auto simp: never_fails_def phone_source_ops_def pm_read_def split: prod.split)
qed

text \<open>A captured frame travels into the PC's buffer.\<close>

lemma frame_step:
  fixes d :: "('e, 'l, 'd, 'k, 'cb) duo"
  assumes eq: "equipped pe se lok" and w: "waiting lok d0 m n d" and n: "n < 14" and pcm: "length pcm = kFrameSamples"
  shows "waiting lok d0 m (Suc n) (du_step pe se (DE_Frame cl vc pcm) d)"
    and "du_said (du_step pe se (DE_Frame cl vc pcm) d) = du_said d"
proof -
  have laws: "sodium_laws (pe_sodium pe)" "se_sodium se = pe_sodium pe" "encodes (pe_opus pe)"
    using eq by (simp_all add: equipped_def libraries_def)
  define p v where "p = du_phone d" and "v = du_service d"
  define s0 where "s0 = first_seq d0"
  obtain s x where sm: "same_pair d0 s d" and s: "sp_peer p = Some s" "joined (17 - n) s (sv_peer v)" "ar_phone (sv_router v) = Some x"
    "holds_spurt s0 n x"
    using w by (auto simp: waiting_def p_def v_def same_pair_def s0_def)
  have p: "sp_pressed p" "sp_connState p = SM_CONN_AUTHENTICATED" "sends_spurt s0 n (sp_sender p)"
    "router_waits lok pm_started m (sv_router v)" "du_left d = []" "\<not> du_threw d"
    using w sm by (simp_all add: waiting_def same_pair_def p_def v_def s0_def)
  define k where "k = 16 - n"
  have k: "17 - n = Suc k" using n by (simp add: k_def)
  have hj: "hears (Suc k) s (sv_peer v)" "hears (Suc k) (sv_peer v) s" "scb_onControl (ps_cb s)" "scb_onControl (ps_cb (sv_peer v))"
    "scb_onMedia (ps_cb (sv_peer v))"
    using s(2) k by (simp_all add: joined_def)
  obtain b snd' where pk: "packFrame (pe_opus pe) pcm True [] (sp_sender p) = (True, b, snd')"
    "is_payload (s0 + of_nat n) (n = 0) b" "12 < length b" "sends_spurt s0 (Suc n) snd'"
    by (rule spurt_packs [OF laws(3) p(3) pcm])
  obtain d1 s1 q1 where a: "\<forall>sent. snd (sendMedia (pe_sodium pe) sent b s) = \<lparr>sr_out = [SO_Send d1], sr_s = s1, sr_threw = False\<rparr>"
    "\<forall>c t rand now. onDatagram c (pe_sodium pe) t rand now d1 (sv_peer v) = \<lparr>sr_out = [SO_Media b], sr_s = q1, sr_threw = False\<rparr>"
    "hears k s1 q1" "\<forall>j. hears j (sv_peer v) s \<longrightarrow> hears j q1 s1" "ps_cb s1 = ps_cb s" "ps_cb q1 = ps_cb (sv_peer v)"
    "ps_seq s1 = ps_seq s" "ps_seq q1 = ps_seq (sv_peer v)" "ps_self s1 = ps_self s" "ps_self q1 = ps_self (sv_peer v)"
    by (rule media_reaches [OF laws(1) hj(1,5)]; rule that; assumption)
  obtain lvl where sent: "sp_onCaptureFrame pe cl pcm p =
      \<lparr>pr_sent = [d1], pr_p = p\<lparr>sp_micLevel := lvl, sp_sender := snd', sp_peer := Some s1\<rparr>, pr_threw = False\<rparr>"
    using p(1,2) pcm pk(1) s(1) a(1)
    by (simp add: sp_onCaptureFrame_def sp_withPeer_def sp_absorb_def pr_start_def Let_def)
  define x' r' where "x' = snd (pm_onMediaPayload (se_rd se) b (vc_now vc) x)"
    and "r' = notifyPhoneHeartbeat ((sv_router v)\<lparr>ar_phone := Some x'\<rparr>)"
  have got: "sv_onDatagram se vc d1 v = vr_start (v\<lparr>sv_peer := q1, sv_lastMediaMs := vc_now vc, sv_router := r'\<rparr>)"
    using service_hears_media [of se vc d1 v b q1] a(2) laws(2) s(3) by (simp add: sv_onMedia_def r'_def x'_def)
  have run: "du_step pe se (DE_Frame cl vc pcm) d =
      d\<lparr>du_phone := p\<lparr>sp_micLevel := lvl, sp_sender := snd', sp_peer := Some s1\<rparr>,
        du_service := v\<lparr>sv_peer := q1, sv_lastMediaMs := vc_now vc, sv_router := r'\<rparr>\<rparr>"
    using p(6) by (simp add: du_ask_def du_answer_def p_def [symmetric] v_def [symmetric] sent got pr_start_def vr_start_def Let_def)
  then show "du_said (du_step pe se (DE_Frame cl vc pcm) d) = du_said d" by simp
  have "joined (17 - Suc n) s1 q1"
    using a(3,4,5,6) hj hears_less [of "Suc k" q1 s1 k] by (simp add: joined_def k_def)
  moreover have "ar_phone r' = Some x'" by (simp add: r'_def notifyPhoneHeartbeat_def)
  moreover have "holds_spurt s0 (Suc n) x'"
    unfolding x'_def by (rule spurt_arrives [OF s(4) n pk(2,3)])
  moreover have "router_waits lok pm_started m r'"
    unfolding r'_def by (rule waits_media [OF p(4)]) (use spurt_arrives [OF s(4) n pk(2,3)] in \<open>simp add: x'_def holds_spurt_def\<close>)
  moreover have "same_pair d0 s1 (du_step pe se (DE_Frame cl vc pcm) d)"
    using sm a(7) unfolding run same_pair_def by (simp add: p_def v_def)
  ultimately show "waiting lok d0 m (Suc n) (du_step pe se (DE_Frame cl vc pcm) d)"
    using w n pk(4) a(8) unfolding run waiting_def by (simp add: p_def v_def s0_def) blast
qed

text \<open>The message with which a pass of the loop answers a press on the pair \<open>d0\<close>.\<close>

definition answer_to :: "('g, 'd, 'l, 'k) service_env \<Rightarrow> ('l, 'd, 'k, 'cb) service \<Rightarrow> service_call \<Rightarrow> message" where
  "answer_to se v vc = makePttReady (vc_rand vc) (vc_now vc) (po_sessionId (sv_offer v))
     (di_deviceId (se_crypto se) (sv_identity v)) (ps_seq (sv_peer v) + 2) (vc_now vc)"

lemma equipped_sources:
  assumes "equipped pe se lok"
  shows "audio_source (so_read (se_local se)) lok" "audio_source (so_read (phone_source_ops (se_opus se))) pm_started"
    "never_fails (se_local se) lok" "never_fails (phone_source_ops (se_opus se)) pm_started" "se_rf se = f32"
  using assms phone_source_works [of "se_opus se"] by (simp_all add: equipped_def)

text \<open>A pass of the loop that finds too little audio, or the press still in the queue, changes nothing else.\<close>

lemma loop_waits:
  fixes d :: "('e, 'l, 'd, 'k, 'cb) duo"
  assumes eq: "equipped pe se lok" and w: "waiting lok d0 m n d" and m: "m \<le> 75" and early: "m = 0 \<or> n < 2"
  shows "waiting lok d0 (Suc m) n (du_step pe se (DE_Loop cl vc ts) d)"
    and "du_said (du_step pe se (DE_Loop cl vc ts) d) = du_said d"
proof -
  note src = equipped_sources [OF eq]
  define v where "v = du_service d"
  obtain s x where x: "same_pair d0 s d" "ar_phone (sv_router v) = Some x" "holds_spurt (first_seq d0) n x"
    "router_waits lok pm_started m (sv_router v)" "n \<le> 14"
    using w by (auto simp: waiting_def v_def)
  define v1 where "v1 = snd (sv_waiting vc ts v)"
  have v1: "sv_router v1 = sv_router v" "sv_peer v1 = sv_peer v" "sv_pttRequested v1 = sv_pttRequested v"
    "sv_announcedReady v1 = sv_announcedReady v" "sv_offer v1 = sv_offer v" "sv_identity v1 = sv_identity v"
    by (simp_all add: v1_def)
  have "st (sv_router v) = LocalActive" if "m = 0"
    using x(4) that by (simp add: router_waits_def armed_for_def control_of_def)
  then have "\<not> announce_due v1"
    using early spurt_ready [OF x(3,5)] x(2) by (auto simp: announce_due_def sv_phone_ready_def v1)
  then have loop: "sv_loop se vc ts v = vr_start (sv_tick se v1)"
    by (simp add: sv_loop_def sv_announce_run vr_start_def v1_def [symmetric])
  define r' where "r' = snd (tick f32 (se_local se) (phone_source_ops (se_opus se)) (se_sink se) (sv_router v))"
  note t = waits_tick [OF src(1,2,3) x(4) m, of "se_sink se", folded r'_def]
  have run: "du_step pe se (DE_Loop cl vc ts) d = d\<lparr>du_service := v1\<lparr>sv_router := r'\<rparr>\<rparr>"
    using x(1) by (simp add: du_answer_def v_def [symmetric] loop sv_tick_def src(5) v1 r'_def vr_start_def pr_start_def Let_def same_pair_def)
  then show "du_said (du_step pe se (DE_Loop cl vc ts) d) = du_said d" by simp
  show "waiting lok d0 (Suc m) n (du_step pe se (DE_Loop cl vc ts) d)"
    using w t unfolding run waiting_def same_pair_def by (simp add: v_def [symmetric] v1)
qed

text \<open>The pair in conversation.\<close>

definition talking :: "('l \<Rightarrow> bool) \<Rightarrow> ('e, 'l, 'd, 'k, 'cb) duo \<Rightarrow> ('e, 'l, 'd, 'k, 'cb) duo \<Rightarrow> bool" where
  "talking lok d0 d \<longleftrightarrow>
     (\<exists>s. same_pair d0 s d \<and> joined 2 s (sv_peer (du_service d))) \<and>
     ps_seq (sv_peer (du_service d)) = ps_seq (sv_peer (du_service d0)) + 2 \<and>
     sp_pttState (du_phone d) = SM_PTT_LIVE \<and> router_plays lok pm_started (sv_router (du_service d))"

lemma loop_answers:
  fixes d :: "('e, 'l, 'd, 'k, 'cb) duo" and cl :: call and ts :: transport_stats
  assumes eq: "equipped pe se lok" and w: "waiting lok d0 m n d" and m: "0 < m" "m \<le> 75" and n: "2 \<le> n"
    and speakable: "text_ok (pe_text pe) (answer_to se (du_service d0) vc)"
  shows "talking lok d0 (du_step pe se (DE_Loop cl vc ts) d)"
    and "du_said (du_step pe se (DE_Loop cl vc ts) d) = du_said d @ [answer_to se (du_service d0) vc]"
proof -
  note src = equipped_sources [OF eq]
  have laws: "sodium_laws (pe_sodium pe)" "json_text_laws (pe_text pe)" "se_sodium se = pe_sodium pe" "se_text se = pe_text pe"
    using eq by (simp_all add: equipped_def libraries_def)
  define p v where "p = du_phone d" and "v = du_service d"
  obtain s x where sm: "same_pair d0 s d" and x: "sp_peer p = Some s" "joined (17 - n) s (sv_peer v)" "ar_phone (sv_router v) = Some x"
    "holds_spurt (first_seq d0) n x"
    using w by (auto simp: waiting_def p_def v_def same_pair_def)
  have rw: "router_waits lok pm_started m (sv_router v)" "n \<le> 14" "ps_seq (sv_peer v) = ps_seq (sv_peer (du_service d0)) + 1"
    "sv_offer v = sv_offer (du_service d0)" "sv_identity v = sv_identity (du_service d0)"
    "sp_pressed p" "sv_pttRequested v" "\<not> sv_announcedReady v" "du_left d = []" "\<not> du_threw d"
    using w sm by (simp_all add: waiting_def same_pair_def p_def v_def)
  define v1 where "v1 = snd (sv_waiting vc ts v)"
  have v1: "sv_router v1 = sv_router v" "sv_peer v1 = sv_peer v" "sv_pttRequested v1 = sv_pttRequested v"
    "sv_announcedReady v1 = sv_announcedReady v" "sv_offer v1 = sv_offer v" "sv_identity v1 = sv_identity v"
    by (simp_all add: v1_def)
  have "st (sv_router v) = PhoneArming" using rw(1) m(1) by (simp add: router_waits_def armed_for_def control_of_def)
  then have due: "announce_due v1"
    using spurt_ready [OF x(4) rw(2)] x(3) n rw(7,8) by (simp add: announce_due_def sv_phone_ready_def v1)
  define a where "a = answer_to se (du_service d0) vc"
  have am: "ready_message se vc v1 = a" by (simp add: ready_message_def a_def answer_to_def v1 rw ac_simps)
  have asq: "ms_seq a = ps_seq (sv_peer v) + 1" "ms_type a = Msg_PttReady" "text_ok (pe_text pe) a"
    using speakable rw(3) by (simp_all add: a_def answer_to_def makePttReady_def message_make_def)
  define k where "k = 16 - n"
  have k: "17 - n = Suc k" "2 \<le> k" using rw(2) by (simp_all add: k_def)
  have hj: "hears (Suc k) (sv_peer v) s" "scb_onControl (ps_cb s)" "hears (Suc k) s (sv_peer v)" "scb_onControl (ps_cb (sv_peer v))"
    "scb_onMedia (ps_cb (sv_peer v))"
    using x(2) k by (simp_all add: joined_def)
  obtain d1 q1 s1 where b: "\<forall>sent. snd (sendControl (pe_sodium pe) (pe_text pe) sent a ((sv_peer v)\<lparr>ps_seq := ps_seq (sv_peer v) + 1\<rparr>)) =
      \<lparr>sr_out = [SO_Send d1], sr_s = q1, sr_threw = False\<rparr>"
    "\<forall>c rand now. onDatagram c (pe_sodium pe) (pe_text pe) rand now d1 s = \<lparr>sr_out = [SO_Control a], sr_s = s1, sr_threw = False\<rparr>"
    "hears k q1 s1" "\<forall>j. hears j s (sv_peer v) \<longrightarrow> hears j s1 q1" "ps_cb q1 = ps_cb (sv_peer v)" "ps_cb s1 = ps_cb s"
    "ps_seq q1 = ps_seq (sv_peer v) + 1" "ps_seq s1 = ps_seq s" "ps_self q1 = ps_self (sv_peer v)" "ps_self s1 = ps_self s"
    by (rule control_reaches [OF laws(1,2) hj(1,2) asq(3,1)]; rule that; assumption)
  let ?v2 = "v1\<lparr>sv_router := notifyPhoneReady (sv_router v), sv_peer := q1\<rparr>"
  have says: "ready_run se vc v1 = \<lparr>vr_out = [VO_Say a, VO_Datagram d1], vr_s = ?v2, vr_threw = False\<rparr>"
    using service_says [of se vc a "v1\<lparr>sv_router := notifyPhoneReady (sv_router v), sv_peer := (sv_peer v)\<lparr>ps_seq := ps_seq (sv_peer v) + 1\<rparr>\<rparr>" d1 q1] b(1)
    by (simp add: ready_run_def am v1 laws)
  define r' where "r' = snd (tick f32 (se_local se) (phone_source_ops (se_opus se)) (se_sink se) (notifyPhoneReady (sv_router v)))"
  have loop: "sv_loop se vc ts v =
      \<lparr>vr_out = [VO_Say a, VO_Datagram d1], vr_s = ?v2\<lparr>sv_announcedReady := True, sv_router := r'\<rparr>, vr_threw = False\<rparr>"
    using due by (simp add: sv_loop_def sv_announce_run v1_def [symmetric] says sv_tick_def src(5) r'_def)
  have heard: "sp_onDatagram pe cl d1 p =
      \<lparr>pr_sent = [], pr_p = p\<lparr>sp_peer := Some s1, sp_pttState := SM_PTT_LIVE, sp_haptic := SM_HAPTIC_WENT_LIVE\<rparr>, pr_threw = False\<rparr>"
    by (rule phone_hears [where m = a and b' = s1, OF x(1)]) (simp_all add: b(2) rw(6) asq(2) sp_onControl_def)
  have run: "du_step pe se (DE_Loop cl vc ts) d =
      d\<lparr>du_phone := p\<lparr>sp_peer := Some s1, sp_pttState := SM_PTT_LIVE, sp_haptic := SM_HAPTIC_WENT_LIVE\<rparr>,
        du_service := ?v2\<lparr>sv_announcedReady := True, sv_router := r'\<rparr>, du_said := du_said d @ [a]\<rparr>"
    using rw(9,10) by (simp add: du_answer_def v_def [symmetric] p_def [symmetric] loop heard pr_then_def pr_start_def Let_def)
  then show "du_said (du_step pe se (DE_Loop cl vc ts) d) = du_said d @ [answer_to se (du_service d0) vc]" by (simp add: a_def)
  have "joined 2 s1 q1"
    using b(3,4,5,6) hj hears_less [of k q1 s1 2] hears_less [of "Suc k" s1 q1 2] k(2) by (simp add: joined_def)
  moreover have "router_plays lok pm_started r'"
    unfolding r'_def by (rule waits_ready [OF src(1-4) rw(1) m])
  moreover have "same_pair d0 s1 (du_step pe se (DE_Loop cl vc ts) d)"
    using sm b(8) unfolding run same_pair_def by (simp add: p_def v_def v1)
  ultimately show "talking lok d0 (du_step pe se (DE_Loop cl vc ts) d)"
    unfolding talking_def run using b(7) rw(3) by auto
qed

section \<open>The schedule\<close>

text \<open>Between press and answer: full frames, and passes of the loop that can say the answer.\<close>

fun undisturbed :: "json_text \<Rightarrow> (service_call \<Rightarrow> message) \<Rightarrow> duo_event \<Rightarrow> bool" where
  "undisturbed t answer (DE_Frame cl vc pcm) \<longleftrightarrow> length pcm = kFrameSamples"
| "undisturbed t answer (DE_Loop cl vc ts) \<longleftrightarrow> text_ok t (answer vc)"
| "undisturbed t answer _ \<longleftrightarrow> False"

fun frames_in :: "duo_event list \<Rightarrow> nat" where
  "frames_in [] = 0"
| "frames_in (DE_Frame cl vc pcm # es) = Suc (frames_in es)"
| "frames_in (_ # es) = frames_in es"

fun loops_in :: "duo_event list \<Rightarrow> nat" where
  "loops_in [] = 0"
| "loops_in (DE_Loop cl vc ts # es) = Suc (loops_in es)"
| "loops_in (_ # es) = loops_in es"

text \<open>Two frames, and after them one more pass, two when the press is still in the queue.\<close>

definition enough :: "nat \<Rightarrow> nat \<Rightarrow> duo_event list \<Rightarrow> bool" where
  "enough m n es \<longleftrightarrow> (\<exists>xs ys. es = xs @ ys \<and> 2 \<le> n + frames_in xs \<and> (if m = 0 then 2 else 1) \<le> loops_in ys)"

lemma enoughI: "2 \<le> n + frames_in xs \<Longrightarrow> (if m = 0 then 2 else 1) \<le> loops_in ys \<Longrightarrow> enough m n (xs @ ys)"
  unfolding enough_def by blast

lemma enough_frame:
  assumes "enough m n (DE_Frame cl vc pcm # es)"
  shows "enough m (Suc n) es"
proof -
  obtain xs ys where x: "DE_Frame cl vc pcm # es = xs @ ys" "2 \<le> n + frames_in xs" "(if m = 0 then 2 else 1) \<le> loops_in ys"
    using assms by (auto simp: enough_def)
  show ?thesis
  proof (cases xs)
    case Nil
    then show ?thesis using x enoughI [of "Suc n" "[]" m es] by auto
  next
    case (Cons e xs')
    then show ?thesis using x enoughI [of "Suc n" xs' m ys] by auto
  qed
qed

lemma enough_loop:
  assumes "enough m n (DE_Loop cl vc ts # es)" and "m = 0 \<or> n < 2"
  shows "enough (Suc m) n es"
proof -
  obtain xs ys where x: "DE_Loop cl vc ts # es = xs @ ys" "2 \<le> n + frames_in xs" "(if m = 0 then 2 else 1) \<le> loops_in ys"
    using assms(1) by (auto simp: enough_def)
  show ?thesis
  proof (cases xs)
    case Nil
    then show ?thesis using x assms(2) enoughI [of n "[]" "Suc m" es] by auto
  next
    case (Cons e xs')
    then show ?thesis using x enoughI [of n xs' "Suc m" ys] by (auto split: if_splits)
  qed
qed

lemma not_enough [simp]: "\<not> enough m n []"
  by (auto simp: enough_def)

lemma waiting_ends:
  fixes d d0 :: "('e, 'l, 'd, 'k, 'cb) duo"
  assumes eq: "equipped pe se lok"
  defines "answer \<equiv> answer_to se (du_service d0)"
  shows "waiting lok d0 m n d \<Longrightarrow> \<forall>e\<in>set es. undisturbed (pe_text pe) answer e \<Longrightarrow>
    n + frames_in es \<le> 14 \<Longrightarrow> m + loops_in es \<le> 76 \<Longrightarrow> enough m n es \<Longrightarrow>
    \<exists>k vc. talking lok d0 (du_run pe se (take k es) d) \<and> du_said (du_run pe se (take k es) d) = du_said d @ [answer vc]"
proof (induction es arbitrary: m n d)
  case (Cons e es)
  have run: "du_run pe se (take (Suc k) (e # es)) d = du_run pe se (take k es) (du_step pe se e d)" for k
    by (simp add: du_run_def)
  have later: ?case
    if "\<exists>k vc. talking lok d0 (du_run pe se (take k es) (du_step pe se e d)) \<and>
        du_said (du_run pe se (take k es) (du_step pe se e d)) = du_said d @ [answer vc]"
    using that run by metis
  show ?case
  proof (cases e)
    case (DE_Frame cl vc pcm)
    have "length pcm = kFrameSamples" "n < 14" using Cons.prems(2,3) DE_Frame by simp_all
    note f = frame_step [OF eq Cons.prems(1) this(2,1), of cl vc]
    show ?thesis
      using Cons.IH [OF f(1)] Cons.prems(2-4) enough_frame [OF Cons.prems(5) [unfolded DE_Frame]] f(2)
      by (intro later) (auto simp: DE_Frame)
  next
    case (DE_Loop cl vc ts)
    have m: "m \<le> 75" using Cons.prems(4) DE_Loop by simp
    show ?thesis
    proof (cases "m = 0 \<or> n < 2")
      case True
      note l = loop_waits [OF eq Cons.prems(1) m True, of cl vc ts]
      show ?thesis
        using Cons.IH [OF l(1)] Cons.prems(2-4) enough_loop [OF Cons.prems(5) [unfolded DE_Loop] True] l(2)
        by (intro later) (auto simp: DE_Loop)
    next
      case False
      have "text_ok (pe_text pe) (answer_to se (du_service d0) vc)" using Cons.prems(2) DE_Loop by (simp add: answer_def)
      then show ?thesis
        using loop_answers [OF eq Cons.prems(1) _ m, of vc cl ts] False run [of 0]
        by (intro exI [of _ "Suc 0"] exI [of _ vc]) (simp add: du_run_def DE_Loop answer_def)
    qed
  qed (use Cons.prems(2) in auto)
qed simp

section \<open>A turn of push to talk\<close>

text \<open>
  Both sides at rest on an authenticated session: the phone's button is up and its encoder open, the
  PC's router hears the local microphone and has the running phone source, whose buffer is not yet ready.
\<close>

definition at_rest :: "('l \<Rightarrow> bool) \<Rightarrow> peer_session \<Rightarrow> ('e, 'l, 'd, 'k, 'cb) duo \<Rightarrow> bool" where
  "at_rest lok s d \<longleftrightarrow> \<not> du_threw d \<and> du_left d = [] \<and>
     sp_peer (du_phone d) = Some s \<and> joined 18 s (sv_peer (du_service d)) \<and>
     sp_connState (du_phone d) = SM_CONN_AUTHENTICATED \<and> \<not> sp_pressed (du_phone d) \<and>
     oe_enc (msd_encoder (sp_sender (du_phone d))) \<noteq> None \<and>
     short_fades lok pm_started (sv_router (du_service d)) \<and> ar_config (sv_router (du_service d)) = default_router_config \<and>
     sm_mode (ar_sm (sv_router (du_service d))) = Mode_Auto \<and> st (sv_router (du_service d)) = LocalActive \<and>
     rb_contents (ar_events (sv_router (du_service d))) = [] \<and>
     (\<exists>w. ar_phone (sv_router (du_service d)) = Some w \<and> pm_started w \<and> jb_cfg (pm_buffer w) = default_jitter_config \<and>
        \<not> jb_ready (pm_buffer w))"

text \<open>The four messages besides the PC's answer, for a press and a release at the given calls.\<close>

definition turn_messages ::
  "('e, 'f) phone_env \<Rightarrow> ('g, 'd, 'l, 'k) service_env \<Rightarrow> peer_session \<Rightarrow> ('e, 'l, 'd, 'k, 'cb) duo
   \<Rightarrow> call \<times> service_call \<Rightarrow> call \<times> service_call \<Rightarrow> message list" where
  "turn_messages pe se s d press release =
     [phone_says pe (fst press) Msg_StartPtt (json_obj []) (du_phone d) (ps_seq s + 1),
      pc_says se (snd press) Msg_PttPreparing (sp_sessionId (du_phone d)) (du_service d) (ps_seq (sv_peer (du_service d)) + 1),
      phone_says pe (fst release) Msg_StopPtt release_reason (du_phone d) (ps_seq s + 2),
      pc_says se (snd release) Msg_PttStopped (sp_sessionId (du_phone d)) (du_service d) (ps_seq (sv_peer (du_service d)) + 3)]"

lemma press_waits:
  fixes d :: "('e, 'l, 'd, 'k, 'cb) duo" and cl :: call and vc :: service_call
  assumes eq: "equipped pe se lok" and r: "at_rest lok s d"
    and speakable: "\<forall>m\<in>set (turn_messages pe se s d (cl, vc) rel). text_ok (pe_text pe) m"
  defines "d1 \<equiv> du_step pe se (DE_Press cl vc) d"
  shows "waiting lok d 0 0 d1" and "map ms_type (du_said d1) = map ms_type (du_said d) @ [Msg_PttPreparing]"
proof -
  define p v where "p = du_phone d" and "v = du_service d"
  have lib: "libraries pe se" using eq by (simp add: equipped_def)
  have j: "joined (Suc 17) s (sv_peer v)" and ph: "sp_peer p = Some s" "sp_connState p = SM_CONN_AUTHENTICATED" "\<not> sp_pressed p"
    and sv: "short_fades lok pm_started (sv_router v)" "ar_config (sv_router v) = default_router_config"
    "sm_mode (ar_sm (sv_router v)) = Mode_Auto" "st (sv_router v) = LocalActive" "rb_contents (ar_events (sv_router v)) = []"
    using r by (simp_all add: at_rest_def p_def v_def)
  have m: "text_ok (pe_text pe) (phone_says pe cl Msg_StartPtt (json_obj []) p (ps_seq s + 1))"
    "text_ok (pe_text pe) (pc_says se vc Msg_PttPreparing (sp_sessionId p) v (ps_seq (sv_peer v) + 1))"
    using speakable by (simp_all add: turn_messages_def p_def v_def)
  obtain s' q' where step: "d1 =
       d\<lparr>du_phone := p\<lparr>sp_pressed := True, sp_pressedAtMs := cl_nowMs cl, sp_pttState := SM_PTT_CONNECTING,
           sp_sender := msd_resetStream (sp_sender p), sp_peer := Some s'\<rparr>,
         du_service := v\<lparr>sv_pttRequested := True, sv_announcedReady := False, sv_router := startPtt (sv_router v), sv_peer := q'\<rparr>,
         du_said := du_said d @ [pc_says se vc Msg_PttPreparing (sp_sessionId p) v (ps_seq (sv_peer v) + 1)]\<rparr>"
    "joined 17 s' q'" "ps_seq q' = ps_seq (sv_peer v) + 1" "ps_seq s' = ps_seq s + 1"
    unfolding d1_def by (rule press_step [OF lib j p_def [symmetric] ph v_def [symmetric] refl m])
  show "map ms_type (du_said d1) = map ms_type (du_said d) @ [Msg_PttPreparing]"
    by (simp add: step(1))
  have "router_waits lok pm_started 0 (startPtt (sv_router v))"
    by (rule waits_start [OF equipped_sources(1,2) [OF eq] sv])
  moreover have "ar_phone (startPtt (sv_router v)) = ar_phone (sv_router v)" by (simp add: startPtt_def)
  moreover have "same_pair d s' d1"
    using r ph(2) step(4) unfolding step(1) same_pair_def by (simp add: at_rest_def p_def v_def)
  ultimately show "waiting lok d 0 0 d1"
    using r step(2,3) unfolding step(1)
    by (auto simp: waiting_def at_rest_def p_def v_def sends_spurt_def msd_resetStream_def holds_spurt_def first_seq_def)
qed

lemma talking_ends:
  fixes d d0 :: "('e, 'l, 'd, 'k, 'cb) duo" and cl cl' :: call and vc vc' :: service_call and ts :: transport_stats
  assumes eq: "equipped pe se lok" and r: "talking lok d0 d" and s0: "sp_peer (du_phone d0) = Some s0"
    and speakable: "\<forall>m\<in>set (turn_messages pe se s0 d0 prs (cl, vc)). text_ok (pe_text pe) m"
  defines "d' \<equiv> du_run pe se [DE_Release cl vc, DE_Loop cl' vc' ts] d"
  shows "sp_pttState (du_phone d') = SM_PTT_READY \<and> \<not> sp_pressed (du_phone d') \<and> st (sv_router (du_service d')) = LocalActive \<and>
    map ms_type (du_said d') = map ms_type (du_said d) @ [Msg_PttStopped] \<and> \<not> du_threw d' \<and> du_left d' = []"
proof -
  define p v where "p = du_phone d" and "v = du_service d"
  note src = equipped_sources [OF eq]
  have lib: "libraries pe se" using eq by (simp add: equipped_def)
  obtain s where sm: "same_pair d0 s d" and j: "joined (Suc 1) s (sv_peer v)"
    using r by (auto simp: talking_def v_def numeral_2_eq_2)
  have ph: "sp_peer p = Some s" "sp_connState p = SM_CONN_AUTHENTICATED" "sp_pttState p = SM_PTT_LIVE" "du_left d = []" "\<not> du_threw d"
    and sq: "ps_seq s = ps_seq s0 + 1" "ps_seq (sv_peer v) = ps_seq (sv_peer (du_service d0)) + 2"
    and rp: "router_plays lok pm_started (sv_router v)"
    using r sm s0 by (auto simp: talking_def same_pair_def p_def v_def)
  have "phone_says pe cl Msg_StopPtt release_reason p (ps_seq s + 1) = turn_messages pe se s0 d0 prs (cl, vc) ! 2"
    "pc_says se vc Msg_PttStopped (sp_sessionId p) v (ps_seq (sv_peer v) + 1) = turn_messages pe se s0 d0 prs (cl, vc) ! 3"
    using sm by (simp_all add: turn_messages_def same_pair_def phone_says_def pc_says_def p_def v_def sq [unfolded v_def] ac_simps)
  then have m: "text_ok (pe_text pe) (phone_says pe cl Msg_StopPtt release_reason p (ps_seq s + 1))"
    "text_ok (pe_text pe) (pc_says se vc Msg_PttStopped (sp_sessionId p) v (ps_seq (sv_peer v) + 1))"
    using speakable by (simp_all add: turn_messages_def)
  obtain s' q' where step: "du_step pe se (DE_Release cl vc) d =
       d\<lparr>du_phone := p\<lparr>sp_pressed := False, sp_releasedAtMs := cl_nowMs cl, sp_pttState := SM_PTT_READY,
           sp_haptic := SM_HAPTIC_RETURNED, sp_peer := Some s'\<rparr>,
         du_service := v\<lparr>sv_pttRequested := False, sv_router := stopPtt (sv_router v), sv_peer := q'\<rparr>,
         du_said := du_said d @ [pc_says se vc Msg_PttStopped (sp_sessionId p) v (ps_seq (sv_peer v) + 1)]\<rparr>"
    by (rule release_step [OF lib j p_def [symmetric] ph(1-3) v_def [symmetric] refl m])
  let ?v = "v\<lparr>sv_pttRequested := False, sv_router := stopPtt (sv_router v), sv_peer := q'\<rparr>"
  define v1 where "v1 = snd (sv_waiting vc' ts ?v)"
  have v1: "sv_router v1 = stopPtt (sv_router v)" "\<not> sv_pttRequested v1" by (simp_all add: v1_def)
  then have loop: "sv_loop se vc' ts ?v = vr_start (sv_tick se v1)"
    by (simp add: sv_loop_def sv_announce_run announce_due_def vr_start_def v1_def [symmetric])
  have "st (snd (tick f32 (se_local se) (phone_source_ops (se_opus se)) (se_sink se) (stopPtt (sv_router v)))) = LocalActive"
    by (rule plays_stop [OF src(1-4) rp])
  moreover have "d' = du_step pe se (DE_Loop cl' vc' ts) (du_step pe se (DE_Release cl vc) d)"
    by (simp add: d'_def du_run_def del: du_step.simps)
  ultimately show ?thesis
    using ph(4,5) unfolding step
    by (simp add: loop du_answer_def sv_tick_def src(5) v1 vr_start_def pr_start_def Let_def)
qed

text \<open>
  C1: a turn of push to talk. Phone and PC are at rest on an authenticated session, the libraries keep their
  laws, the encoder works and so does the PC's local microphone. The user presses the button, and then
  captured frames and passes of the PC's audio loop follow in any order: at most 14 frames, the capacity of
  the jitter buffer, at most 76 passes, the arming timeout, and among them two frames and, after these, two
  passes. Then at some point of this schedule the phone says LIVE and the router plays the phone. If the
  user lets go there, the phone is READY and after one pass of the loop the router is back at the local
  microphone. Up to there the PC has said PTT_PREPARING, PTT_READY and PTT_STOPPED, once each, nothing was
  thrown and the phone had nothing to send back.
\<close>

theorem push_to_talk_turn:
  fixes d :: "('e, 'l, 'd, 'k, 'cb) duo"
  assumes "equipped pe se lok" and "at_rest lok s d"
    and "\<forall>m\<in>set (turn_messages pe se s d (cl, vc) (cl', vc')). text_ok (pe_text pe) m"
    and "\<forall>e\<in>set (xs @ ys). undisturbed (pe_text pe) (answer_to se (du_service d)) e"
    and "frames_in (xs @ ys) \<le> 14" and "loops_in (xs @ ys) \<le> 76"
    and "2 \<le> frames_in xs" and "2 \<le> loops_in ys"
  shows "\<exists>k. let d1 = du_run pe se (DE_Press cl vc # take k (xs @ ys)) d;
                 d2 = du_run pe se [DE_Release cl' vc', DE_Loop cl'' vc'' ts] d1 in
    sp_pttState (du_phone d1) = SM_PTT_LIVE \<and> sm_state (ar_sm (sv_router (du_service d1))) = PhoneActive \<and>
    sp_pttState (du_phone d2) = SM_PTT_READY \<and> \<not> sp_pressed (du_phone d2) \<and>
    sm_state (ar_sm (sv_router (du_service d2))) = LocalActive \<and>
    map ms_type (du_said d2) = map ms_type (du_said d) @ [Msg_PttPreparing, Msg_PttReady, Msg_PttStopped] \<and>
    \<not> du_threw d2 \<and> du_left d2 = []"
proof -
  note w = press_waits [OF assms(1-3)]
  have "enough 0 0 (xs @ ys)" by (rule enoughI) (use assms(7,8) in simp_all)
  then obtain k vca where k: "talking lok d (du_run pe se (take k (xs @ ys)) (du_step pe se (DE_Press cl vc) d))"
      "du_said (du_run pe se (take k (xs @ ys)) (du_step pe se (DE_Press cl vc) d)) =
       du_said (du_step pe se (DE_Press cl vc) d) @ [answer_to se (du_service d) vca]"
    using waiting_ends [OF assms(1) w(1), of "xs @ ys"] assms(4-6) by auto
  define d1 where "d1 = du_run pe se (DE_Press cl vc # take k (xs @ ys)) d"
  have d1: "d1 = du_run pe se (take k (xs @ ys)) (du_step pe se (DE_Press cl vc) d)" by (simp add: d1_def du_run_def)
  have t: "talking lok d d1" using k(1) by (simp only: d1)
  have types: "map ms_type (du_said d1) = map ms_type (du_said d) @ [Msg_PttPreparing, Msg_PttReady]"
    unfolding d1 k(2) map_append w(2) by (simp add: answer_to_def makePttReady_def)
  have live: "sp_pttState (du_phone d1) = SM_PTT_LIVE" "st (sv_router (du_service d1)) = PhoneActive"
    using t by (simp_all add: talking_def router_plays_def plays_def control_of_def)
  have "sp_peer (du_phone d) = Some s" using assms(2) by (simp add: at_rest_def)
  note e = talking_ends [OF assms(1) t this assms(3), of cl'' vc'' ts]
  show ?thesis
    unfolding Let_def by (rule exI [of _ k], fold d1_def) (use e live types in simp)
qed

section \<open>A pair to run the statement on\<close>

text \<open>The demo phone and a freshly started service on one key, with a printer for the three messages of this press.\<close>

definition pair_session :: peer_session where
  "pair_session = demo_pc\<lparr>ps_state := Ses_Authenticated, ps_channel := snd (sc_init plain_sodium [] Dir_PcToPhone sc_new)\<rparr>"

definition pair_phone :: "unit sm_phone" where
  "pair_phone = (sp_new (di_generate toy_crypto (replicate 32 8)))
     \<lparr>sp_peer := Some demo_session, sp_connState := SM_CONN_AUTHENTICATED, sp_running := True,
      sp_sender := snd (msd_open plain_opus default_encoder_config msd_new)\<rparr>"

definition pair_call :: service_call where
  "pair_call = \<lparr>vc_rand = replicate 16 1, vc_now = 2000, vc_sent = True\<rparr>"

definition pair_senv :: "(unit, unit, unit, unit) service_env" where
  "pair_senv = demo_senv\<lparr>se_rf := f32\<rparr>"

definition pair_duo :: "(unit, unit, unit, unit) service \<Rightarrow> (unit, unit, unit, unit, unit) duo" where
  "pair_duo v = \<lparr>du_phone = pair_phone, du_service = v, du_said = [], du_left = [], du_threw = False\<rparr>"

definition pair_messages :: "(unit, unit, unit, unit) service \<Rightarrow> message list" where
  "pair_messages v = answer_to pair_senv v pair_call #
     turn_messages demo_env pair_senv demo_session (pair_duo v) (demo_call 5, pair_call) (demo_call 900, pair_call)"

definition pair_text :: "(unit, unit, unit, unit) service \<Rightarrow> json_text" where
  "pair_text v =
     \<lparr>jt_parse = map_of (zip [''1'', ''2'', ''3'', ''4'', ''5''] (map encode_json (pair_messages v))),
      jt_dump = map_of (zip (map encode_json (pair_messages v)) [''1'', ''2'', ''3'', ''4'', ''5''])\<rparr>"

lemma pair_messages_length: "length (pair_messages v) = 5"
  by (simp add: pair_messages_def turn_messages_def)

lemma pair_text_laws: "json_text_laws (pair_text v)"
proof -
  obtain a b c d e where "pair_messages v = [a, b, c, d, e]"
    using pair_messages_length [of v] by (auto simp: numeral_eq_Suc length_Suc_conv)
  then show ?thesis by (auto simp: json_text_laws_def pair_text_def split: if_splits)
qed

lemma pair_speaks:
  assumes "m \<in> set (pair_messages v)"
  shows "text_ok (pair_text v) m"
proof -
  have "is_object (ms_payload m) \<and> ms_protocolVersion m = kProtocolVersion"
    using assms by (auto simp: pair_messages_def turn_messages_def phone_says_def pc_says_def release_reason_def
        answer_to_def makePttReady_def message_make_def json_obj_def)
  moreover obtain a b c d e where "pair_messages v = [a, b, c, d, e]"
    using pair_messages_length [of v] by (auto simp: numeral_eq_Suc length_Suc_conv)
  ultimately show ?thesis
    using assms by (auto simp: text_ok_def pair_text_def encode_def kMaxMessageBytes_def)
qed

lemma fresh_channel_hears:
  assumes "a \<noteq> b"
  shows "sc_peer (snd (sc_init plain_sodium [] a sc_new)) (snd (sc_init plain_sodium [] b sc_new)) \<and>
    heard_below kReplayWidth n (sc_replay (snd (sc_init plain_sodium [] a sc_new))) \<and>
    sc_counter (snd (sc_init plain_sodium [] a sc_new)) = 0"
  using sc_init_peer [OF plain_sodium_laws, of "[]" a sc_new b sc_new] assms
  unfolding heard_below_def by fastforce

lemma pair_joined: "joined 18 demo_session pair_session"
proof -
  have "heard_below kControlReplayWidth n (rw_init kControlReplayWidth)" for n
    unfolding heard_below_def by (intro exI [of _ "[]"]) (simp add: rw_rel_init)
  then show ?thesis
    using fresh_channel_hears [of Dir_PhoneToPc Dir_PcToPhone] fresh_channel_hears [of Dir_PcToPhone Dir_PhoneToPc]
    by (simp add: joined_def hears_def demo_session_def pair_session_def demo_pc_def phone_session_def ps_setCallbacks_def ps_new_def)
qed

lemma pair_rests:
  assumes "service_start pair_senv opt sx i (dr_init :: unit device_registry) () () = Some v0"
  shows "at_rest (\<lambda>u. True) demo_session (pair_duo (v0\<lparr>sv_peer := pair_session\<rparr>))"
proof -
  let ?w = "snd (pm_start plain_opus (pm_new ''phone'' default_jitter_config))"
  have "router_wired default_router_config (Some ()) (Some ?w) (Some ()) = Some (sv_router v0)"
    using assms by (auto simp: service_start_def pair_senv_def demo_senv_def Let_def split: prod.splits)
  note wired = this
  have r: "short_fades (\<lambda>u. True) pm_started (sv_router v0) \<and> control_of (sv_router v0) = control_init \<and>
      ar_config (sv_router v0) = default_router_config"
    by (rule wired_short_fades [OF wired]) (simp_all add: default_router_config_def pm_start_def od_open_def plain_opus_def pm_new_def)
  have ph: "ar_phone (sv_router v0) = Some ?w"
    using wired by (auto simp: router_wired_def setSink_def setPhoneSource_def setLocalSource_def dest!: sym [of _ "sv_router v0"])
  have w: "pm_started ?w" "jb_cfg (pm_buffer ?w) = default_jitter_config" "\<not> jb_ready (pm_buffer ?w)"
    by (simp_all add: pm_start_def od_open_def plain_opus_def pm_new_def jb_reset_def jb_new_def jb_ready_def)
  have e: "oe_enc (msd_encoder (sp_sender pair_phone)) \<noteq> None"
    by (simp add: pair_phone_def msd_open_def oe_open_def plain_opus_def)
  show ?thesis
    using r ph w e pair_joined
    by (auto simp: at_rest_def pair_duo_def control_of_def control_init_def sm_init_def)
       (simp_all add: pair_phone_def sp_new_def)
qed

lemma pair_equipped:
  "equipped (demo_env\<lparr>pe_text := pair_text v\<rparr>) (pair_senv\<lparr>se_text := pair_text v\<rparr>) (\<lambda>u. True)"
proof -
  note pair_text_laws [of v]
  moreover have "audio_source (so_read (se_local pair_senv)) (\<lambda>u. True)"
    by unfold_locales (simp_all add: pair_senv_def demo_senv_def)
  moreover have "never_fails (se_local pair_senv) (\<lambda>u. True)" "encodes (pe_opus demo_env)"
    by (simp_all add: never_fails_def encodes_def pair_senv_def demo_senv_def demo_env_def plain_opus_def kMaxPacketBytes_def)
  moreover have "se_opus pair_senv = plain_opus" "se_sodium pair_senv = plain_sodium" "pe_sodium demo_env = plain_sodium"
    "se_rf pair_senv = f32"
    by (simp_all add: pair_senv_def demo_senv_def demo_env_def)
  ultimately show ?thesis
    using plain_opus_laws plain_sodium_laws by (simp add: equipped_def libraries_def)
qed

theorem push_to_talk_turn_witness:
  "\<exists>v es. let pe = demo_env\<lparr>pe_text := pair_text v\<rparr>; se = pair_senv\<lparr>se_text := pair_text v\<rparr>;
      loop = DE_Loop (demo_call 920) pair_call transport_stats_zero;
      d1 = du_run pe se (DE_Press (demo_call 5) pair_call # es) (pair_duo v);
      d2 = du_run pe se [DE_Release (demo_call 900) pair_call, loop] d1 in
    sp_pttState (du_phone (pair_duo v)) = SM_PTT_READY \<and> sp_pttState (du_phone d1) = SM_PTT_LIVE \<and>
    sp_pttState (du_phone d2) = SM_PTT_READY \<and>
    map ms_type (du_said d2) = [Msg_PttPreparing, Msg_PttReady, Msg_PttStopped] \<and> \<not> du_threw d2"
proof -
  obtain v0 where start: "service_start pair_senv (default_options ''state'') demo_start
       (di_generate toy_crypto (replicate 32 9)) (dr_init :: unit device_registry) () () = Some v0"
    using service_starts [of pair_senv "default_options ''state''" demo_start
        "di_generate toy_crypto (replicate 32 9)" "dr_init :: unit device_registry" "()" "()"] by (elim exE)
  define v where "v = v0\<lparr>sv_peer := pair_session\<rparr>"
  define pe se where "pe = demo_env\<lparr>pe_text := pair_text v\<rparr>" and "se = pair_senv\<lparr>se_text := pair_text v\<rparr>"
  let ?d = "pair_duo v" and ?xs = "replicate 2 (DE_Frame (demo_call 5) pair_call (silence 960))"
    and ?ys = "replicate 2 (DE_Loop (demo_call 5) pair_call transport_stats_zero)"
  have t: "pe_text pe = pair_text v" by (simp add: pe_def)
  have msgs: "turn_messages pe se demo_session ?d (demo_call 5, pair_call) (demo_call 900, pair_call) = tl (pair_messages v)"
    "answer_to se (du_service ?d) pair_call = hd (pair_messages v)"
    by (simp_all add: pair_messages_def turn_messages_def pair_duo_def pe_def se_def phone_says_def pc_says_def answer_to_def)
  have ne: "pair_messages v \<noteq> []" using pair_messages_length [of v] by auto
  have "\<exists>k. let d1 = du_run pe se (DE_Press (demo_call 5) pair_call # take k (?xs @ ?ys)) ?d;
         d2 = du_run pe se [DE_Release (demo_call 900) pair_call, DE_Loop (demo_call 920) pair_call transport_stats_zero] d1 in
    sp_pttState (du_phone d1) = SM_PTT_LIVE \<and> sm_state (ar_sm (sv_router (du_service d1))) = PhoneActive \<and>
    sp_pttState (du_phone d2) = SM_PTT_READY \<and> \<not> sp_pressed (du_phone d2) \<and>
    sm_state (ar_sm (sv_router (du_service d2))) = LocalActive \<and>
    map ms_type (du_said d2) = map ms_type (du_said ?d) @ [Msg_PttPreparing, Msg_PttReady, Msg_PttStopped] \<and>
    \<not> du_threw d2 \<and> du_left d2 = []"
  proof (rule push_to_talk_turn)
    show "equipped pe se (\<lambda>u. True)" unfolding pe_def se_def by (rule pair_equipped)
    show "at_rest (\<lambda>u. True) demo_session ?d" unfolding v_def by (rule pair_rests [OF start])
    show "\<forall>m\<in>set (turn_messages pe se demo_session ?d (demo_call 5, pair_call) (demo_call 900, pair_call)). text_ok (pe_text pe) m"
      unfolding msgs t using pair_speaks list.set_sel(2) [OF ne] by blast
    show "\<forall>e\<in>set (?xs @ ?ys). undisturbed (pe_text pe) (answer_to se (du_service ?d)) e"
      using pair_speaks [OF list.set_sel(1) [OF ne]] by (simp add: t msgs)
  qed (simp_all add: numeral_2_eq_2)
  then obtain k where k: "let d1 = du_run pe se (DE_Press (demo_call 5) pair_call # take k (?xs @ ?ys)) ?d;
         d2 = du_run pe se [DE_Release (demo_call 900) pair_call, DE_Loop (demo_call 920) pair_call transport_stats_zero] d1 in
    sp_pttState (du_phone d1) = SM_PTT_LIVE \<and> sm_state (ar_sm (sv_router (du_service d1))) = PhoneActive \<and>
    sp_pttState (du_phone d2) = SM_PTT_READY \<and> \<not> sp_pressed (du_phone d2) \<and>
    sm_state (ar_sm (sv_router (du_service d2))) = LocalActive \<and>
    map ms_type (du_said d2) = map ms_type (du_said ?d) @ [Msg_PttPreparing, Msg_PttReady, Msg_PttStopped] \<and>
    \<not> du_threw d2 \<and> du_left d2 = []" ..
  moreover have "sp_pttState (du_phone ?d) = SM_PTT_READY" "du_said ?d = []"
    by (simp_all add: pair_duo_def pair_phone_def sp_new_def)
  ultimately show ?thesis
    by (intro exI [of _ v] exI [of _ "take k (?xs @ ?ys)"]) (simp only: Let_def pe_def se_def append_Nil list.map(1) HOL.simp_thms)
qed

end
