(* ===== verification/PhoneSim.thy ===== *)
theory PhoneSim
  imports PhoneRuntime Service HostSources
begin

text \<open>
  The scripted phone, \<^verbatim>\<open>apps/phone-sim/main.cpp\<close>: options and pairing link, the callbacks of its session,
  the bounded wait for pairing, and one pass of the loop that presses, dies, releases and sends a tone on
  schedule. The network thread and the loop interleave at the granularity of one datagram and one pass; the
  clock, as seconds since the start, is an argument. What is printed is left out.
\<close>

section \<open>Options\<close>

datatype ptt_state = Ptt_Ready | Ptt_Connecting | Ptt_Live | Ptt_Releasing | Ptt_Failed

fun ptt_toStr :: "ptt_state \<Rightarrow> string" where
  "ptt_toStr Ptt_Ready = ''READY''"
| "ptt_toStr Ptt_Connecting = ''CONNECTING''"
| "ptt_toStr Ptt_Live = ''LIVE''"
| "ptt_toStr Ptt_Releasing = ''RELEASING''"
| "ptt_toStr Ptt_Failed = ''FAILED''"

record sim_options =
  mo_uri :: string
  mo_host :: string
  mo_port :: u16
  mo_sessionId :: string
  mo_code :: string
  mo_holdAfter :: real
  mo_holdFor :: real
  mo_gapFor :: real
  mo_presses :: int
  mo_duration :: real
  mo_dieDuringPtt :: bool
  mo_toneHz :: real

definition default_sim_options :: sim_options where
  "default_sim_options =
     \<lparr>mo_uri = [], mo_host = ''127.0.0.1'', mo_port = 47820, mo_sessionId = [], mo_code = [], mo_holdAfter = 1,
      mo_holdFor = 2, mo_gapFor = 1, mo_presses = 1, mo_duration = 6, mo_dieDuringPtt = False, mo_toneHz = 1093\<rparr>"

text \<open>
  \<open>std::stod\<close> on decimal numbers; \<open>None\<close> is \<open>std::invalid_argument\<close> or \<open>std::out_of_range\<close>, which the
  library reports for magnitudes beyond the normal range. Hexadecimal numbers and the names of infinity
  and NaN are left out.
\<close>

definition scan_exponent :: "string \<Rightarrow> int" where
  "scan_exponent s =
     (case s of
        [] \<Rightarrow> 0
      | c # cs \<Rightarrow>
          if c \<noteq> CHR ''e'' \<and> c \<noteq> CHR ''E'' then 0
          else
            let neg = (cs \<noteq> [] \<and> hd cs = CHR ''-'');
                ds = (if cs \<noteq> [] \<and> (hd cs = CHR ''-'' \<or> hd cs = CHR ''+'') then tl cs else cs)
            in (case scan_digits ds of None \<Rightarrow> 0 | Some (n, r) \<Rightarrow> if neg then - int n else int n))"

definition stod :: "(real \<Rightarrow> real) \<Rightarrow> string \<Rightarrow> real option" where
  "stod rd s =
     (let s1 = dropWhile is_space (c_str s);
          neg = (s1 \<noteq> [] \<and> hd s1 = CHR ''-'');
          s2 = (if s1 \<noteq> [] \<and> (hd s1 = CHR ''-'' \<or> hd s1 = CHR ''+'') then tl s1 else s1);
          whole = takeWhile is_digit s2;
          s3 = drop (length whole) s2;
          frac = (if s3 \<noteq> [] \<and> hd s3 = CHR ''.'' then takeWhile is_digit (tl s3) else []);
          s4 = (if s3 \<noteq> [] \<and> hd s3 = CHR ''.'' then drop (length frac) (tl s3) else s3)
      in if whole @ frac = [] then None
         else
           let exact = real (digits_value 0 (whole @ frac)) * 10 powi (scan_exponent s4 - int (length frac));
               v = rd exact
           in if 2 powi 1024 \<le> v \<or> exact \<noteq> 0 \<and> v < 2 powi (- 1022) then None
              else Some (if neg then - v else v))"

text \<open>An option that takes a value; \<open>Some None\<close> is an exception of the conversion.\<close>

definition sim_set_option :: "(real \<Rightarrow> real) \<Rightarrow> string \<Rightarrow> string \<Rightarrow> sim_options \<Rightarrow> sim_options option option" where
  "sim_set_option rd k v opt =
     (if k = ''--uri'' then Some (Some (opt\<lparr>mo_uri := v\<rparr>))
      else if k = ''--host'' then Some (Some (opt\<lparr>mo_host := v\<rparr>))
      else if k = ''--port'' then Some (map_option (\<lambda>n. opt\<lparr>mo_port := of_int n\<rparr>) (stoi v))
      else if k = ''--session'' then Some (Some (opt\<lparr>mo_sessionId := v\<rparr>))
      else if k = ''--code'' then Some (Some (opt\<lparr>mo_code := v\<rparr>))
      else if k = ''--hold-after'' then Some (map_option (\<lambda>x. opt\<lparr>mo_holdAfter := x\<rparr>) (stod rd v))
      else if k = ''--hold-for'' then Some (map_option (\<lambda>x. opt\<lparr>mo_holdFor := x\<rparr>) (stod rd v))
      else if k = ''--duration'' then Some (map_option (\<lambda>x. opt\<lparr>mo_duration := x\<rparr>) (stod rd v))
      else if k = ''--gap'' then Some (map_option (\<lambda>x. opt\<lparr>mo_gapFor := x\<rparr>) (stod rd v))
      else if k = ''--presses'' then Some (map_option (\<lambda>n. opt\<lparr>mo_presses := n\<rparr>) (stoi v))
      else if k = ''--tone'' then Some (map_option (\<lambda>x. opt\<lparr>mo_toneHz := x\<rparr>) (stod rd v))
      else None)"

text \<open>The loop over \<open>argv\<close>: an unknown option is skipped, and an exception leaves \<open>main\<close>.\<close>

fun sim_parse_args :: "(real \<Rightarrow> real) \<Rightarrow> string list \<Rightarrow> sim_options \<Rightarrow> sim_options option" where
  "sim_parse_args rd [] opt = Some opt"
| "sim_parse_args rd (k # args) opt =
     (case sim_set_option rd k (case args of [] \<Rightarrow> [] | v # _ \<Rightarrow> v) opt of
        Some r \<Rightarrow> Option.bind r (sim_parse_args rd (tl args))
      | None \<Rightarrow> sim_parse_args rd args (if k = ''--die-during-ptt'' then opt\<lparr>mo_dieDuringPtt := True\<rparr> else opt))"

text \<open>The pairing link and what must be there, or exit code 2. \<open>ul\<close> is as in \<open>parsePairingUri\<close>.\<close>

definition sim_link :: "nat \<Rightarrow> sim_options \<Rightarrow> int + sim_options" where
  "sim_link ul opt =
     (case (if mo_uri opt = [] then Some opt
            else map_option (\<lambda>u. opt\<lparr>mo_host := pu_host u, mo_port := pu_port u, mo_sessionId := pu_sessionId u,
                                     mo_code := pu_code u\<rparr>) (parsePairingUri ul (mo_uri opt))) of
        None \<Rightarrow> Inl 2
      | Some opt' \<Rightarrow> if mo_sessionId opt' = [] \<or> mo_code opt' = [] then Inl 2 else Inr opt')"

section \<open>The session\<close>

record 'e phone_sim =
  si_opt :: sim_options
  si_identity :: device_identity
  si_peer :: peer_session
  si_authenticated :: bool
  si_failed :: bool
  si_ptt :: ptt_state
  si_sender :: "'e media_sender"
  si_pressed :: bool
  si_dead :: bool
  si_pressesDone :: int
  si_phase :: real

definition sim_new :: "sim_options \<Rightarrow> device_identity \<Rightarrow> 'e phone_sim" where
  "sim_new opt i =
     \<lparr>si_opt = opt, si_identity = i,
      si_peer = ps_setCallbacks \<lparr>scb_onControl = True, scb_onMedia = False, scb_onStateChanged = True\<rparr> (ps_new i Initiator),
      si_authenticated = False, si_failed = False, si_ptt = Ptt_Ready, si_sender = msd_new, si_pressed = False,
      si_dead = False, si_pressesDone = 0, si_phase = 0\<rparr>"

text \<open>A step: the datagrams it sends, the control messages it asks the session for, and the media payloads.\<close>

record 'e sim_run =
  su_sent :: "bytes list"
  su_said :: "message list"
  su_media :: "bytes list"
  su_s :: "'e phone_sim"
  su_threw :: bool

definition su_start :: "'e phone_sim \<Rightarrow> 'e sim_run" where
  "su_start s = \<lparr>su_sent = [], su_said = [], su_media = [], su_s = s, su_threw = False\<rparr>"

definition su_then :: "'e sim_run \<Rightarrow> ('e phone_sim \<Rightarrow> 'e sim_run) \<Rightarrow> 'e sim_run" where
  "su_then r f =
     (if su_threw r then r
      else let r' = f (su_s r)
           in r'\<lparr>su_sent := su_sent r @ su_sent r', su_said := su_said r @ su_said r', su_media := su_media r @ su_media r'\<rparr>)"

definition sim_onStateChanged :: "session_state \<Rightarrow> 'e phone_sim \<Rightarrow> 'e phone_sim" where
  "sim_onStateChanged ss s =
     s\<lparr>si_authenticated := (si_authenticated s \<or> ss = Ses_Authenticated), si_failed := (si_failed s \<or> ss = Ses_Failed)\<rparr>"

definition sim_onControl :: "message \<Rightarrow> 'e phone_sim \<Rightarrow> 'e phone_sim" where
  "sim_onControl m s =
     (if ms_type m = Msg_PttReady then s\<lparr>si_ptt := Ptt_Live\<rparr>
      else if ms_type m = Msg_PttStopped then s\<lparr>si_ptt := Ptt_Ready\<rparr> else s)"

fun sim_callback :: "session_out \<Rightarrow> 'e sim_run \<Rightarrow> 'e sim_run" where
  "sim_callback (SO_Send b) r = r\<lparr>su_sent := su_sent r @ [b]\<rparr>"
| "sim_callback (SO_Control m) r = r\<lparr>su_s := sim_onControl m (su_s r)\<rparr>"
| "sim_callback (SO_Media x) r = r"
| "sim_callback (SO_State ss) r = r\<lparr>su_s := sim_onStateChanged ss (su_s r)\<rparr>"

definition sim_absorb :: "session_run \<Rightarrow> 'e phone_sim \<Rightarrow> 'e sim_run" where
  "sim_absorb sr s =
     (fold sim_callback (sr_out sr) (su_start (s\<lparr>si_peer := sr_s sr\<rparr>)))\<lparr>su_threw := sr_threw sr\<rparr>"

definition sim_onDatagram :: "('e, 'd) phone_env \<Rightarrow> call \<Rightarrow> bytes \<Rightarrow> 'e phone_sim \<Rightarrow> 'e sim_run" where
  "sim_onDatagram env cl data s =
     sim_absorb (onDatagram (pe_crypto env) (pe_sodium env) (pe_text env) (cl_rand cl) (cl_unixMs cl) data (si_peer s)) s"

text \<open>\<open>peer.sendControl(Message::make(...))\<close>.\<close>

definition sim_say :: "('e, 'd) phone_env \<Rightarrow> call \<Rightarrow> msg_type \<Rightarrow> json \<Rightarrow> 'e phone_sim \<Rightarrow> 'e sim_run" where
  "sim_say env cl ty payload s =
     (case ps_nextSeq (si_peer s) of
        (seq, p) \<Rightarrow>
          let m = message_make (cl_rand cl) (cl_unixMs cl) ty (mo_sessionId (si_opt s))
                    (di_deviceId (pe_crypto env) (si_identity s)) seq payload
          in (sim_absorb (snd (sendControl (pe_sodium env) (pe_text env) (cl_sent cl) m p)) s)\<lparr>su_said := [m]\<rparr>)"

section \<open>Pairing\<close>

fun sim_hear :: "('e, 'd) phone_env \<Rightarrow> (call \<times> bytes) list \<Rightarrow> 'e phone_sim \<Rightarrow> 'e sim_run" where
  "sim_hear env [] s = su_start s"
| "sim_hear env ((cl, b) # ds) s = su_then (sim_onDatagram env cl b s) (sim_hear env ds)"

text \<open>
  The wait of at most 100 rounds of 50 ms, with \<open>n\<close> rounds left; \<open>net i\<close> is what arrives in round \<open>i\<close>.
\<close>

fun sim_wait :: "('e, 'd) phone_env \<Rightarrow> (nat \<Rightarrow> (call \<times> bytes) list) \<Rightarrow> nat \<Rightarrow> 'e phone_sim \<Rightarrow> 'e sim_run" where
  "sim_wait env net 0 s = su_start s"
| "sim_wait env net (Suc n) s =
     (if si_authenticated s \<or> si_failed s then su_start s
      else
        let i = 100 - Suc n
        in su_then (su_then (sim_hear env (net i) s)
                     (\<lambda>s. if i mod 6 = 5 then sim_absorb (snd (resendPairingHello (si_peer s))) s else su_start s))
             (sim_wait env net n))"

text \<open>
  \<open>main\<close> up to its loop: exit code 1 when the PC cannot be reached or pairing fails, otherwise the paired
  phone with its sender opened. The second component is everything sent.
\<close>

definition sim_main ::
  "('e, 'd) phone_env \<Rightarrow> bool \<Rightarrow> bytes \<Rightarrow> bytes \<Rightarrow> (nat \<Rightarrow> (call \<times> bytes) list) \<Rightarrow> sim_options
   \<Rightarrow> (int + 'e phone_sim) option \<times> bytes list" where
  "sim_main env reachable keyRand scalarRand net opt =
     (if \<not> reachable then (Some (Inl 1), [])
      else
        let s = sim_new opt (di_generate (pe_crypto env) keyRand);
            r = su_then
                  (sim_absorb (beginPairing (pe_crypto env) (pe_text env) scalarRand (mo_sessionId opt) (mo_code opt) (si_peer s)) s)
                  (sim_wait env net 100)
        in (if su_threw r then None
            else if \<not> si_authenticated (su_s r) then Some (Inl 1)
            else Some (Inr ((su_s r)\<lparr>si_sender := snd (msd_open (pe_opus env) default_encoder_config (si_sender (su_s r)))\<rparr>)),
            su_sent r))"

section \<open>The script\<close>

definition sim_cycleStart :: "(real \<Rightarrow> real) \<Rightarrow> 'e phone_sim \<Rightarrow> real" where
  "sim_cycleStart rd s =
     (let opt = si_opt s
      in rd (mo_holdAfter opt + rd (of_int (si_pressesDone s) * rd (mo_holdFor opt + mo_gapFor opt))))"

definition sim_press :: "('e, 'd) phone_env \<Rightarrow> call \<Rightarrow> real \<Rightarrow> real \<Rightarrow> 'e phone_sim \<Rightarrow> 'e sim_run" where
  "sim_press env cl t cycleStart s =
     (if \<not> si_pressed s \<and> si_pressesDone s < mo_presses (si_opt s) \<and> t \<ge> cycleStart
      then sim_say env cl Msg_StartPtt (json_obj [])
             (s\<lparr>si_pressed := True, si_ptt := Ptt_Connecting, si_sender := msd_resetStream (si_sender s)\<rparr>)
      else su_start s)"

definition sim_die :: "(real \<Rightarrow> real) \<Rightarrow> real \<Rightarrow> real \<Rightarrow> 'e phone_sim \<Rightarrow> 'e phone_sim" where
  "sim_die rd t cycleStart s =
     (if si_pressed s \<and> \<not> si_dead s \<and> mo_dieDuringPtt (si_opt s) \<and>
         t \<ge> rd (cycleStart + rd (mo_holdFor (si_opt s) * (1 / 2)))
      then s\<lparr>si_dead := True, si_pressesDone := si_pressesDone s + 1\<rparr> else s)"

definition sim_release :: "('e, 'd) phone_env \<Rightarrow> call \<Rightarrow> real \<Rightarrow> real \<Rightarrow> 'e phone_sim \<Rightarrow> 'e sim_run" where
  "sim_release env cl t cycleStart s =
     (if si_pressed s \<and> \<not> si_dead s \<and> t \<ge> pe_rd env (cycleStart + mo_holdFor (si_opt s))
      then sim_say env cl Msg_StopPtt (json_obj [(''reason'', JString ''release'')])
             (s\<lparr>si_pressed := False, si_pressesDone := si_pressesDone s + 1, si_ptt := Ptt_Releasing\<rparr>)
      else su_start s)"

text \<open>The frame of the tone, whose phase is never wrapped.\<close>

fun sim_tone :: "(real \<Rightarrow> real) \<Rightarrow> (real \<Rightarrow> real) \<Rightarrow> real \<Rightarrow> nat \<Rightarrow> real \<Rightarrow> samples \<times> real" where
  "sim_tone rf rd inc 0 phase = ([], phase)"
| "sim_tone rf rd inc (Suc n) phase =
     (case sim_tone rf rd inc n (rd (phase + inc)) of (xs, q) \<Rightarrow> (rf (1 / 2 * rf (rd (sin phase))) # xs, q))"

definition sim_frame :: "('e, 'd) phone_env \<Rightarrow> call \<Rightarrow> 'e phone_sim \<Rightarrow> 'e sim_run" where
  "sim_frame env cl s =
     (if \<not> si_pressed s \<or> si_dead s then su_start s
      else
        let inc = pe_rd env (pe_rd env (kTwoPi * mo_toneHz (si_opt s)) / real kSampleRate)
        in (case sim_tone (pe_rf env) (pe_rd env) inc kFrameSamples (si_phase s) of
              (pcm, phase) \<Rightarrow>
                (case packFrame (pe_opus env) pcm True [] (si_sender s) of
                   (ok, payload, snd') \<Rightarrow>
                     let s1 = s\<lparr>si_phase := phase, si_sender := snd'\<rparr>
                     in if \<not> ok then su_start s1
                        else (sim_absorb (snd (sendMedia (pe_sodium env) (cl_sent cl) payload (si_peer s1))) s1)
                               \<lparr>su_media := [payload]\<rparr>)))"

text \<open>One pass at time \<open>t\<close>; \<open>None\<close> ends the loop, and with it the program, with exit code 0.\<close>

definition sim_pass :: "('e, 'd) phone_env \<Rightarrow> call \<Rightarrow> real \<Rightarrow> 'e phone_sim \<Rightarrow> 'e sim_run option" where
  "sim_pass env cl t s =
     (if t \<ge> mo_duration (si_opt s) then None
      else
        let c = sim_cycleStart (pe_rd env) s
        in Some (su_then
             (su_then
               (su_then (sim_press env cl t c s) (\<lambda>s. su_start (sim_die (pe_rd env) t c s)))
               (sim_release env cl t c))
             (sim_frame env cl)))"

section \<open>Histories\<close>

datatype sim_event = SE_Pass call real | SE_Datagram call bytes

fun sim_run_all :: "('e, 'd) phone_env \<Rightarrow> sim_event list \<Rightarrow> 'e phone_sim \<Rightarrow> 'e sim_run" where
  "sim_run_all env [] s = su_start s"
| "sim_run_all env (SE_Datagram cl b # es) s = su_then (sim_onDatagram env cl b s) (sim_run_all env es)"
| "sim_run_all env (SE_Pass cl t # es) s =
     (case sim_pass env cl t s of None \<Rightarrow> su_start s | Some r \<Rightarrow> su_then r (sim_run_all env es))"

section \<open>The script is followed\<close>

lemma su_then_simps:
  "su_threw (su_then r f) \<longleftrightarrow> su_threw r \<or> su_threw (f (su_s r))"
  "\<not> su_threw r \<Longrightarrow> su_s (su_then r f) = su_s (f (su_s r))"
  "\<not> su_threw r \<Longrightarrow> su_said (su_then r f) = su_said r @ su_said (f (su_s r))"
  "\<not> su_threw r \<Longrightarrow> su_media (su_then r f) = su_media r @ su_media (f (su_s r))"
  by (simp_all add: su_then_def Let_def)

lemma su_start_simps [simp]:
  "su_sent (su_start s) = []" "su_said (su_start s) = []" "su_media (su_start s) = []" "su_s (su_start s) = s" "\<not> su_threw (su_start s)"
  by (simp_all add: su_start_def)

text \<open>What the network changes of a phone: not its script.\<close>

lemma sim_callback_frame:
  "su_said (fold sim_callback xs r) = su_said r \<and> su_media (fold sim_callback xs r) = su_media r \<and>
   si_opt (su_s (fold sim_callback xs r)) = si_opt (su_s r) \<and> si_pressed (su_s (fold sim_callback xs r)) = si_pressed (su_s r) \<and>
   si_dead (su_s (fold sim_callback xs r)) = si_dead (su_s r) \<and>
   si_pressesDone (su_s (fold sim_callback xs r)) = si_pressesDone (su_s r)"
proof (induction xs arbitrary: r)
  case (Cons x xs)
  show ?case by (cases x) (simp_all add: Cons.IH sim_onControl_def sim_onStateChanged_def)
qed simp

lemma sim_absorb_frame [simp]:
  "su_said (sim_absorb sr s) = []" "su_media (sim_absorb sr s) = []" "si_opt (su_s (sim_absorb sr s)) = si_opt s"
  "si_pressed (su_s (sim_absorb sr s)) = si_pressed s" "si_dead (su_s (sim_absorb sr s)) = si_dead s"
  "si_pressesDone (su_s (sim_absorb sr s)) = si_pressesDone s"
  by (simp_all add: sim_absorb_def sim_callback_frame)

lemma sim_say_frame [simp]:
  "map ms_type (su_said (sim_say env cl ty payload s)) = [ty]" "su_media (sim_say env cl ty payload s) = []"
  "si_opt (su_s (sim_say env cl ty payload s)) = si_opt s" "si_pressed (su_s (sim_say env cl ty payload s)) = si_pressed s"
  "si_dead (su_s (sim_say env cl ty payload s)) = si_dead s" "si_pressesDone (su_s (sim_say env cl ty payload s)) = si_pressesDone s"
  by (simp_all add: sim_say_def ps_nextSeq_def Let_def)

lemma sim_frame_frame [simp]:
  "su_said (sim_frame env cl s) = []" "si_opt (su_s (sim_frame env cl s)) = si_opt s" "si_pressed (su_s (sim_frame env cl s)) = si_pressed s"
  "si_dead (su_s (sim_frame env cl s)) = si_dead s" "si_pressesDone (su_s (sim_frame env cl s)) = si_pressesDone s"
  by (simp_all add: sim_frame_def Let_def split: prod.split)

lemma sim_frame_media: "su_media (sim_frame env cl s) \<noteq> [] \<Longrightarrow> si_pressed s \<and> \<not> si_dead s"
  by (auto simp: sim_frame_def split: if_splits)

text \<open>
  What has been said after \<open>k\<close> whole turns: each a start and a stop, and one start more while the button is
  down. A phone that died keeps its button down and counts as a press.
\<close>

definition turns :: "nat \<Rightarrow> bool \<Rightarrow> msg_type list" where
  "turns k pressed = concat (replicate k [Msg_StartPtt, Msg_StopPtt]) @ (if pressed then [Msg_StartPtt] else [])"

definition on_script :: "msg_type list \<Rightarrow> 'e phone_sim \<Rightarrow> bool" where
  "on_script said s \<longleftrightarrow> (\<exists>k. said = turns k (si_pressed s) \<and> si_pressesDone s = int k + (if si_dead s then 1 else 0) \<and>
     (si_dead s \<longrightarrow> si_pressed s) \<and> int k + (if si_pressed s then 1 else 0) \<le> max 0 (mo_presses (si_opt s)))"

lemma turns_release: "turns k True @ [Msg_StopPtt] = turns (Suc k) False"
proof -
  have "replicate (Suc k) x = replicate k x @ [x]" for x :: "msg_type list" by (simp add: replicate_append_same)
  then show ?thesis by (simp add: turns_def del: replicate_Suc)
qed

lemma on_script_press:
  assumes "on_script said s"
  shows "on_script (said @ map ms_type (su_said (sim_press env cl t c s))) (su_s (sim_press env cl t c s))"
  using assms by (auto simp: on_script_def sim_press_def turns_def)

lemma on_script_die:
  assumes "on_script said s"
  shows "on_script said (sim_die rd t c s)"
  using assms by (auto simp: on_script_def sim_die_def)

lemma on_script_release:
  assumes "on_script said s"
  shows "on_script (said @ map ms_type (su_said (sim_release env cl t c s))) (su_s (sim_release env cl t c s))"
proof (cases "si_pressed s \<and> \<not> si_dead s \<and> t \<ge> pe_rd env (c + mo_holdFor (si_opt s))")
  case True
  then obtain k where "said = turns k True" "si_pressesDone s = int k" "int k + 1 \<le> max 0 (mo_presses (si_opt s))"
    using assms by (auto simp: on_script_def)
  then show ?thesis
    using True unfolding on_script_def
    by (intro exI [of _ "Suc k"]) (simp add: sim_release_def turns_release)
qed (use assms in \<open>auto simp: sim_release_def\<close>)

lemma on_script_pass:
  assumes "on_script said s" and "sim_pass env cl t s = Some r" and "\<not> su_threw r"
  shows "on_script (said @ map ms_type (su_said r)) (su_s r)" and "su_media r \<noteq> [] \<Longrightarrow> si_pressed (su_s r) \<and> \<not> si_dead (su_s r)"
proof -
  define c where "c = sim_cycleStart (pe_rd env) s"
  define r1 where "r1 = sim_press env cl t c s"
  define s2 where "s2 = sim_die (pe_rd env) t c (su_s r1)"
  define r3 where "r3 = sim_release env cl t c s2"
  define r4 where "r4 = sim_frame env cl (su_s r3)"
  have r: "r = su_then (su_then (su_then r1 (\<lambda>s. su_start (sim_die (pe_rd env) t c s))) (sim_release env cl t c)) (sim_frame env cl)"
    using assms(2) by (auto simp: sim_pass_def Let_def c_def r1_def split: if_splits)
  have ok: "\<not> su_threw r1" "\<not> su_threw r3" "\<not> su_threw r4"
    using assms(3) by (auto simp: r su_then_simps s2_def r3_def r4_def)
  have res: "su_s r = su_s r4" "su_said r = su_said r1 @ su_said r3" "su_media r = su_media r1 @ su_media r3 @ su_media r4"
    using ok by (simp_all add: r su_then_simps s2_def r3_def r4_def)
  have "on_script (said @ map ms_type (su_said r1)) s2"
    unfolding r1_def s2_def by (intro on_script_die on_script_press assms(1))
  then have "on_script ((said @ map ms_type (su_said r1)) @ map ms_type (su_said r3)) (su_s r3)"
    unfolding r3_def by (rule on_script_release)
  then show "on_script (said @ map ms_type (su_said r)) (su_s r)"
    by (simp add: res on_script_def r4_def)
  have "su_media r1 = []" "su_media r3 = []" by (simp_all add: r1_def r3_def sim_press_def sim_release_def)
  then show "su_media r \<noteq> [] \<Longrightarrow> si_pressed (su_s r) \<and> \<not> si_dead (su_s r)"
    using sim_frame_media [of env cl "su_s r3"] by (simp add: res r4_def)
qed

text \<open>In any history that does not throw, the script is followed.\<close>

lemma script_followed:
  "on_script said s \<Longrightarrow> \<not> su_threw (sim_run_all env es s) \<Longrightarrow>
   on_script (said @ map ms_type (su_said (sim_run_all env es s))) (su_s (sim_run_all env es s))"
proof (induction es arbitrary: said s)
  case (Cons e es)
  show ?case
  proof (cases e)
    case (SE_Pass cl t)
    show ?thesis
    proof (cases "sim_pass env cl t s")
      case None
      then show ?thesis using Cons.prems SE_Pass by simp
    next
      case (Some r)
      then have nt: "\<not> su_threw r" "\<not> su_threw (sim_run_all env es (su_s r))"
        using Cons.prems SE_Pass by (simp_all add: su_then_simps)
      show ?thesis
        using Cons.IH [OF on_script_pass(1) [OF Cons.prems(1) Some nt(1)] nt(2)] nt Some SE_Pass by (simp add: su_then_simps)
    qed
  next
    case (SE_Datagram cl b)
    let ?r = "sim_onDatagram env cl b s"
    have nt: "\<not> su_threw ?r" "\<not> su_threw (sim_run_all env es (su_s ?r))"
      using Cons.prems SE_Datagram by (simp_all add: su_then_simps)
    have said: "su_said ?r = []" by (simp add: sim_onDatagram_def)
    have "on_script said (su_s ?r)" using Cons.prems(1) by (simp add: sim_onDatagram_def on_script_def)
    then show ?thesis using Cons.IH [OF _ nt(2)] nt(1) said SE_Datagram by (simp add: su_then_simps)
  qed
qed simp

lemma sim_new_on_script: "on_script [] (sim_new opt i)"
  by (simp add: on_script_def sim_new_def turns_def)

text \<open>A dead phone neither speaks nor sends sound.\<close>

lemma dead_is_silent:
  assumes "si_dead s" and "si_pressed s" and "sim_pass env cl t s = Some r"
  shows "su_said r = [] \<and> su_media r = [] \<and> su_sent r = [] \<and> su_s r = s"
  using assms by (auto simp: sim_pass_def Let_def sim_press_def sim_die_def sim_release_def sim_frame_def su_then_def split: if_splits)
end
