(* ===== verification/ServiceMain.thy ===== *)
theory ServiceMain
  imports Service DeviceAudio DriverSearch HostSources
begin

text \<open>
  \<open>main\<close> of the PC service, \<^verbatim>\<open>apps/service/main.cpp\<close>, around the callbacks and the loop of \<open>Service\<close>: on
  Windows the diagnosis, the choice of the microphone and of the output, the objects it opens and what an
  early return leaves open, the deadline and the end; elsewhere the choice of the local source. The lemmas
  follow the driver's ring: who holds it while the service runs, and after it has stopped.
\<close>

section \<open>Outputs\<close>

datatype win_sink = WS_Render wasapi_sink | WS_File wav_file_sink | WS_Link driver_link

text \<open>An output together with the driver that the link, its other clients and the kernel share.\<close>

type_synonym win_out = "win_sink \<times> driver"

text \<open>
  The answers of Windows: to the enumeration, to opening the microphone and the cable, the file, the
  search for the driver's interface with its handle and mapping, the diagnosis, the key file, the socket.
\<close>

record windows_answers =
  xa_com :: bool
  xa_created :: bool
  xa_collection :: "endpoint_answer list option"
  xa_default :: "string option"
  xa_mic :: wasapi_answer
  xa_render :: wasapi_answer
  xa_file :: bool
  xa_disk :: nat
  xa_pid :: nat
  xa_search :: search_answer
  xa_opened :: bool
  xa_mapped :: "u64 option"
  xa_interruptTime :: u64
  xa_service :: "bool \<times> bool"
  xa_present :: bool
  xa_endpoint :: "bool \<times> string"
  xa_keyRand :: bytes
  xa_keyFile :: "bytes option"
  xa_socket :: "int option"
  xa_bound :: bool
  xa_sockname :: "u16 option"

definition xa_link_start :: "windows_answers \<Rightarrow> driver_link \<times> driver \<Rightarrow> bool \<times> driver_link \<times> driver" where
  "xa_link_start x =
     dl_start (xa_pid x) (fst (findDevicePath (xa_search x)) \<noteq> []) (xa_opened x) (xa_mapped x) (xa_interruptTime x)"

text \<open>The virtual calls of the output.\<close>

fun ws_start :: "windows_answers \<Rightarrow> win_out \<Rightarrow> bool \<times> win_out" where
  "ws_start x (WS_Render s, d) = (case wr_start (xa_render x) s of (ok, s') \<Rightarrow> (ok, WS_Render s', d))"
| "ws_start x (WS_File s, d) = (case wk_start (xa_file x) s of (ok, s') \<Rightarrow> (ok, WS_File s', d))"
| "ws_start x (WS_Link l, d) = (case xa_link_start x (l, d) of (ok, l', d') \<Rightarrow> (ok, WS_Link l', d'))"

fun ws_write :: "(real \<Rightarrow> real) \<Rightarrow> u64 \<Rightarrow> samples \<Rightarrow> win_out \<Rightarrow> bool \<times> win_out" where
  "ws_write rf now xs (WS_Render s, d) = (case wr_write xs s of (ok, s') \<Rightarrow> (ok, WS_Render s', d))"
| "ws_write rf now xs (WS_File s, d) = (case wk_write rf xs s of (ok, s') \<Rightarrow> (ok, WS_File s', d))"
| "ws_write rf now xs (WS_Link l, d) = (case dl_write rf now xs (l, d) of (ok, l', d') \<Rightarrow> (ok, WS_Link l', d'))"

fun ws_stop :: "nat \<Rightarrow> win_out \<Rightarrow> win_out" where
  "ws_stop pid (WS_Render s, d) = (WS_Render (wr_stop s), d)"
| "ws_stop pid (WS_File s, d) = (WS_File (wk_stop s), d)"
| "ws_stop pid (WS_Link l, d) = (case dl_stop pid (l, d) of (l', d') \<Rightarrow> (WS_Link l', d'))"

section \<open>Opening the audio\<close>

text \<open>The driver is tried unless another output was asked for; a link that did not start is destroyed.\<close>

definition windows_link :: "windows_answers \<Rightarrow> options \<Rightarrow> driver \<Rightarrow> driver_link option \<times> driver" where
  "windows_link x opt d =
     (if op_sink opt = Sink_Cable \<or> op_sink opt = Sink_Wav then (None, d)
      else (case xa_link_start x (dl_new ''driver'', d) of
              (ok, l, d1) \<Rightarrow> if ok then (Some l, d1) else (None, snd (dl_stop (xa_pid x) (l, d1)))))"

text \<open>The output and its label, or the exit code; \<open>None\<close> is the exception of a ring's constructor.\<close>

definition windows_sink :: "windows_answers \<Rightarrow> options \<Rightarrow> driver_link option \<Rightarrow> (int + win_sink \<times> string) option" where
  "windows_sink x opt link =
     (case pick_sink opt (map_option dl_driverVersion link) of
        (Pick_Cable device, label) \<Rightarrow> map_option (\<lambda>s. Inr (WS_Render s, label)) (wr_new ''cable'' device)
      | (Pick_Wav path, label) \<Rightarrow> Some (Inr (WS_File (wk_new ''wav'' path (xa_disk x)), label))
      | (Pick_Driver, label) \<Rightarrow> map_option (\<lambda>l. Inr (WS_Link l, label)) link
      | (Pick_Exit, label) \<Rightarrow> Some (Inl 1))"

definition windows_registry :: "windows_answers \<Rightarrow> unit device_registry" where
  "windows_registry x =
     snd (dr_setDevices (en_enumerate (xa_collection x) (xa_default x) (snd (en_initialise (xa_com x) (xa_created x) (en_new :: unit wasapi_enumerator))))
            dr_init)"

text \<open>
  The microphone and the output, both started, or the exit code with the driver as the destructors
  leave it. Only the driver link has been started when it is chosen.
\<close>

definition windows_audio ::
  "(real \<Rightarrow> real) \<Rightarrow> windows_answers \<Rightarrow> options \<Rightarrow> driver
   \<Rightarrow> (int \<times> driver + wasapi_source \<times> win_out \<times> string) option" where
  "windows_audio rd x opt d =
     (case dr_resolveEffectiveInput (windows_registry x) of
        None \<Rightarrow> Some (Inl (1, d))
      | Some chosen \<Rightarrow>
          Option.bind (wc_new ''local'' (di_id chosen)) (\<lambda>mic.
            case windows_link x opt d of
              (link, d1) \<Rightarrow>
                Option.bind (windows_sink x opt link) (\<lambda>picked. Some
                  (case picked of
                     Inl code \<Rightarrow> Inl (code, d1)
                   | Inr (snk, label) \<Rightarrow>
                       (case (if link \<noteq> None then (True, snk, d1) else ws_start x (snk, d1)) of
                          (sinkOk, out) \<Rightarrow>
                            if \<not> sinkOk then Inl (1, snd (ws_stop (xa_pid x) out))
                            else
                              (case wc_start rd (xa_mic x) mic of
                                 (micOk, mic1) \<Rightarrow>
                                   if \<not> micOk then Inl (1, snd (ws_stop (xa_pid x) out))
                                   else Inr (mic1, out, label)))))))"

section \<open>The program\<close>

record 'd windows_service =
  xs_service :: "(wasapi_source, 'd, win_out, unit) service"
  xs_transport :: udp
  xs_label :: string

text \<open>\<open>main\<close> with its options: an exit code with the driver it leaves, or the running service.\<close>

definition windows_main ::
  "('e, 'd, wasapi_source, win_out) service_env \<Rightarrow> windows_answers \<Rightarrow> start_env \<Rightarrow> options \<Rightarrow> driver
   \<Rightarrow> (int \<times> driver + 'd windows_service) option" where
  "windows_main env x sx opt d =
     (if op_diagnoseOnly opt
      then Some (Inl (if dd_interfacePresent (diagnoseDriver (xa_service x) (xa_present x) (xa_endpoint x)) then 0 else 1, d))
      else
        let identity = fst (service_identity (se_crypto env) (xa_keyRand x) (xa_keyFile x))
        in (case windows_audio (se_rd env) x opt d of
              None \<Rightarrow> None
            | Some (Inl r) \<Rightarrow> Some (Inl r)
            | Some (Inr (mic, out, label)) \<Rightarrow>
                (case ut_start (xa_socket x) (xa_bound x) (xa_sockname x) (ut_new ''service'' (op_port opt)) of
                   (ok, u) \<Rightarrow>
                     if \<not> ok then Some (Inl (1, snd (ws_stop (xa_pid x) out)))
                     else map_option (\<lambda>v. Inr \<lparr>xs_service = v, xs_transport = u, xs_label = label\<rparr>)
                       (service_start env opt (sx\<lparr>sx_localPort := ut_boundPort u\<rparr>) identity (windows_registry x) mic out))))"

definition windows_program ::
  "('e, 'd, wasapi_source, win_out) service_env \<Rightarrow> windows_answers \<Rightarrow> start_env \<Rightarrow> string \<Rightarrow> string list \<Rightarrow> driver
   \<Rightarrow> (int \<times> driver + 'd windows_service) option" where
  "windows_program env x sx stateDir args d =
     (case parse_args args (default_options stateDir) of
        Parsed_Help \<Rightarrow> Some (Inl (0, d))
      | Parsed_BadSink v \<Rightarrow> Some (Inl (2, d))
      | Parsed_Unknown k \<Rightarrow> Some (Inl (2, d))
      | Parsed_Throws \<Rightarrow> None
      | Parsed_Options opt \<Rightarrow> windows_main env x sx opt d)"

text \<open>The loop's condition: the signal flag and the deadline, in nanoseconds of the steady clock.\<close>

definition service_deadline :: "int \<Rightarrow> options \<Rightarrow> int" where
  "service_deadline now opt =
     (if op_durationSeconds opt > 0 then now + op_durationSeconds opt * 1000000000 else 2 ^ 63 - 1)"

definition service_goes_on :: "bool \<Rightarrow> int \<Rightarrow> int \<Rightarrow> bool" where
  "service_goes_on g_stop now deadline \<longleftrightarrow> \<not> g_stop \<and> now < deadline"

text \<open>After the loop; the destructors that follow stop what is stopped.\<close>

definition windows_finish :: "nat \<Rightarrow> 'd windows_service \<Rightarrow> 'd windows_service" where
  "windows_finish pid p =
     (let v = xs_service p; r = sv_router v;
          r1 = r\<lparr>ar_sink := map_option (ws_stop pid) (ar_sink r)\<rparr>;
          r2 = r1\<lparr>ar_local := map_option wc_stop (ar_local r1)\<rparr>;
          r3 = r2\<lparr>ar_phone := map_option pm_stop (ar_phone r2)\<rparr>
      in p\<lparr>xs_service := v\<lparr>sv_router := r3\<rparr>, xs_transport := ut_stop (xs_transport p)\<rparr>)"

section \<open>Other platforms\<close>

definition host_registry :: "unit device_registry" where
  "host_registry =
     snd (dr_setPreferredInput ''{local}'' (snd (dr_setDevices
       [\<lparr>di_id = ''{local}'', di_name = ''Simulated local microphone (317 Hz)'', di_isDefault = True,
         di_isSmartMicEndpoint = False, di_nativeRate = 48000, di_nativeChannels = 1\<rparr>,
        \<lparr>di_id = ''{smartmic}'', di_name = ''Smart Microphone'', di_isDefault = False,
         di_isSmartMicEndpoint = True, di_nativeRate = 48000, di_nativeChannels = 1\<rparr>] dr_init)))"

datatype 'c host_local = HL_Mic "'c live_mic" | HL_Tone tone_source

text \<open>
  The machine's microphone where the build has one (\<open>live\<close>) and it starts, else a tone. The result is
  the source and whether it is already started; \<open>None\<close> is the exception of its ring.
\<close>

definition host_local_source ::
  "(real \<Rightarrow> real) \<Rightarrow> bool \<Rightarrow> 'c option \<Rightarrow> ('c \<Rightarrow> bool \<times> 'c) \<Rightarrow> ('c host_local \<times> bool) option" where
  "host_local_source rf live c0 cap_start =
     (let tone = (HL_Tone (tone_new ''local'' 317 (rf (45 / 100))), False)
      in if \<not> live then Some tone
         else map_option (\<lambda>mic. case lm_start c0 cap_start mic of
                            (ok, mic1) \<Rightarrow> if ok then (HL_Mic mic1, True) else tone)
                (lm_new ''local''))"

text \<open>The file and the local source, started, or exit code 1.\<close>

definition host_audio ::
  "(real \<Rightarrow> real) \<Rightarrow> bool \<Rightarrow> 'c option \<Rightarrow> ('c \<Rightarrow> bool \<times> 'c) \<Rightarrow> bool \<Rightarrow> nat \<Rightarrow> options
   \<Rightarrow> (int + 'c host_local \<times> wav_file_sink) option" where
  "host_audio rf live c0 cap_start created disk opt =
     map_option (\<lambda>(loc, started).
       case wk_start created (wk_new ''wav'' (op_outWav opt) disk) of
         (sinkOk, snk) \<Rightarrow>
           if \<not> sinkOk then Inl 1
           else
             (case (if started then (True, loc)
                    else case loc of HL_Mic mic \<Rightarrow> (case lm_start c0 cap_start mic of (ok, mic1) \<Rightarrow> (ok, HL_Mic mic1))
                       | HL_Tone tn \<Rightarrow> (case tone_start tn of (ok, tn1) \<Rightarrow> (ok, HL_Tone tn1))) of
                (ok, loc1) \<Rightarrow> if \<not> ok then Inl 1 else Inr (loc1, snk)))
       (host_local_source rf live c0 cap_start)"

section \<open>Histories\<close>

text \<open>
  What happens to a running service: a datagram or a pass of the loop, at an interrupt time, or a request
  to the driver by another of its clients or the kernel.
\<close>

definition windows_env ::
  "u64 \<Rightarrow> ('e, 'd, wasapi_source, win_out) service_env \<Rightarrow> ('e, 'd, wasapi_source, win_out) service_env" where
  "windows_env now env =
     env\<lparr>se_local := \<lparr>so_id = wc_id, so_read = wc_read\<rparr>, se_sink := \<lparr>ko_write = ws_write (se_rf env) now\<rparr>\<rparr>"

datatype windows_event = XE_Service u64 service_event | XE_Driver driver_call

fun windows_run ::
  "('e, 'd, wasapi_source, win_out) service_env \<Rightarrow> windows_event list \<Rightarrow> 'd windows_service \<Rightarrow> 'd windows_service" where
  "windows_run env [] p = p"
| "windows_run env (XE_Service now e # es) p =
     (let r = service_step (windows_env now env) e (xs_service p);
          p1 = p\<lparr>xs_service := vr_s r\<rparr>
      in if vr_threw r then p1 else windows_run env es p1)"
| "windows_run env (XE_Driver c # es) p =
     (let v = xs_service p; r = sv_router v
      in windows_run env es
           (p\<lparr>xs_service := v\<lparr>sv_router := r\<lparr>ar_sink := map_option (\<lambda>(s, d). (s, snd (drv_step c d))) (ar_sink r)\<rparr>\<rparr>\<rparr>))"

section \<open>The output of the router\<close>

text \<open>Only the tick calls the sink, once; whatever its writes keep, a step of the service keeps.\<close>

lemma drainEvents_sink [simp]: "ar_sink (drainEvents fl r) = ar_sink r"
proof (induction fl r rule: drainEvents.induct)
  case (1 fl r)
  then show ?case by (subst drainEvents.simps) (simp add: Let_def step_simps split: prod.split)
qed

lemma tick_sink:
  "\<exists>xs. ar_sink (snd (tick fl lops pops kops r)) = map_option (\<lambda>s. snd (ko_write kops xs s)) (ar_sink r)"
proof (cases "ar_sink r")
  case (Some s)
  let ?m = "tick_mixed fl lops pops r"
  have "ar_sink (snd (tick fl lops pops kops r)) = Some (snd (ko_write kops (take kFrameSamples (ar_outBuf ?m)) s))"
    using Some by (simp add: tick_eq tick_mixed_def step_simps ar_writeSink_def split: prod.split)
  then show ?thesis using Some by auto
qed (auto simp: tick_eq tick_mixed_def step_simps ar_writeSink_def)

definition sink_has :: "('k \<Rightarrow> bool) \<Rightarrow> ('l, 'd, 'k, 'cb) service \<Rightarrow> bool" where
  "sink_has P v \<longleftrightarrow> (\<exists>s. ar_sink (sv_router v) = Some s \<and> P s)"

lemma pushes_sink [simp]:
  "ar_sink (startPtt r) = ar_sink r" "ar_sink (stopPtt r) = ar_sink r" "ar_sink (router_setMode m r) = ar_sink r"
  "ar_sink (notifyPhoneHeartbeat r) = ar_sink r" "ar_sink (notifyPhoneReady r) = ar_sink r"
  by (simp_all add: startPtt_def stopPtt_def router_setMode_def notifyPhoneHeartbeat_def notifyPhoneReady_def)

lemma sv_reply_sink [simp]: "ar_sink (sv_router (vr_s (sv_reply env vc m ty p v))) = ar_sink (sv_router v)"
  by (simp add: sv_reply_def sv_say_def ps_nextSeq_def Let_def)

lemma sv_callback_sink [simp]: "ar_sink (sv_router (vr_s (sv_callback env vc x v))) = ar_sink (sv_router v)"
  by (cases x) (auto simp: vr_start_def sv_onMedia_def sv_onControl_def Let_def split: msg_type.split sum.split)

lemma sv_callbacks_sink [simp]: "ar_sink (sv_router (vr_s (sv_callbacks env vc xs v))) = ar_sink (sv_router v)"
  by (induction xs arbitrary: v) (simp_all add: vr_start_def Let_def)

lemma service_step_sink:
  assumes "sink_has P v" and "\<And>xs s. P s \<Longrightarrow> P (snd (ko_write (se_sink env) xs s))"
  shows "sink_has P (vr_s (service_step env e v))"
proof (cases e)
  case (VE_Datagram vc d)
  then show ?thesis using assms(1) by (simp add: sink_has_def sv_onDatagram_def Let_def)
next
  case (VE_Loop vc ts)
  let ?a = "sv_announce env vc (snd (sv_waiting vc ts v))"
  have a: "ar_sink (sv_router (vr_s ?a)) = ar_sink (sv_router v)"
    by (simp add: sv_announce_run ready_run_def sv_say_def vr_start_def Let_def)
  obtain xs where "ar_sink (sv_router (sv_tick env (vr_s ?a))) =
      map_option (\<lambda>s. snd (ko_write (se_sink env) xs s)) (ar_sink (sv_router (vr_s ?a)))"
    using tick_sink unfolding sv_tick_def by fastforce
  then show ?thesis
    using VE_Loop assms a by (auto simp: sink_has_def sv_loop_def Let_def)
qed

section \<open>The claim on the ring\<close>

lemma owner_setMem [simp]: "drv_owner (drv_setMem m d) = drv_owner d" "drv_ok (drv_setMem m d) = drv_ok d"
  by (cases d; cases "dc_ring (the d)"; simp add: drv_owner_def drv_ok_def drv_ring_def drv_setMem_def kr_claim_ok_def)+

lemma ioctl_ok: "drv_ok d \<Longrightarrow> drv_ok (snd (SmartMicDeviceControl mapped i d))"
  using drv_step_ring(1) [of "DC_Ioctl mapped i" d] by (cases "SmartMicDeviceControl mapped i d") simp

lemma close_ok: "drv_ok d \<Longrightarrow> drv_ok (snd (snd (SmartMicClose i d)))"
  using drv_step_ring(1) [of "DC_Close i" d] by simp

lemma close_owner: "drv_owner (snd (snd (SmartMicClose i d))) \<noteq> Some (ir_pid i)"
proof -
  have "kr_clientProcess (kr_releaseClaimIfOwner pid r) \<noteq> Some pid" for pid r by (simp add: kr_releaseClaimIfOwner_def)
  then show ?thesis by (auto simp: SmartMicClose_def Let_def drv_owner_def drv_ring_def bind_eq_Some_conv)
qed

lemma dl_closeDevice_owner:
  assumes "drv_ok d" and "dl_device l \<or> drv_owner d \<noteq> Some pid"
  shows "drv_ok (snd (dl_closeDevice pid (l, d)))" and "drv_owner (snd (dl_closeDevice pid (l, d))) \<noteq> Some pid"
  using assms close_ok [OF ioctl_ok [OF assms(1)]] close_owner [of "dl_irp pid 0 0"]
  by (auto simp: dl_closeDevice_def Let_def dl_irp_def split: if_splits)

lemma map_owner:
  assumes "SmartMicDeviceControl mapped i d = (Completed status n (Out_Map va tot), d')"
  shows "drv_owner d' = Some (ir_pid i)"
  using assms
  by (auto simp: SmartMicDeviceControl_def SmartMicHandlePrivateIoctl_def drv_owner_def drv_ring_def kr_map_def Let_def
      NT_SUCCESS_def split: option.splits if_splits prod.splits)

lemma dl_start_owner:
  assumes "dl_start pid found created mapped now (l, d) = (ok, l', d')" and "drv_ok d" and "drv_owner d \<noteq> Some pid"
    and "\<not> dl_ring l"
  shows "drv_ok d'" and "ok \<Longrightarrow> dl_ring l' \<and> dl_device l' \<and> drv_owner d' = Some pid"
    and "\<not> ok \<Longrightarrow> drv_owner d' \<noteq> Some pid"
proof -
  obtain opened l1 where o: "dl_openDevice found created l = (opened, l1)" by (metis prod.exhaust)
  have l1: "opened \<Longrightarrow> dl_device l1" using o by (auto simp: dl_openDevice_def split: if_splits)
  obtain r1 d1 where v: "SmartMicDeviceControl None (dl_irp pid IOCTL_SMARTMIC_GET_VERSION sizeof_version_info) d = (r1, d1)"
    by (metis prod.exhaust)
  obtain r2 d2 where m: "SmartMicDeviceControl mapped (dl_irp pid IOCTL_SMARTMIC_MAP_RING sizeof_map_result) d1 = (r2, d2)"
    by (metis prod.exhaust)
  have oks: "drv_ok d1" "drv_ok d2"
    using ioctl_ok [OF assms(2), of None "dl_irp pid IOCTL_SMARTMIC_GET_VERSION sizeof_version_info"]
      ioctl_ok [of d1 mapped "dl_irp pid IOCTL_SMARTMIC_MAP_RING sizeof_map_result"] v m by simp_all
  have own: "r2 = Completed status n (Out_Map va tot) \<Longrightarrow> drv_owner d2 = Some pid" for status n va tot
    using map_owner [of mapped "dl_irp pid IOCTL_SMARTMIC_MAP_RING sizeof_map_result" d1 status n va tot d2] m by (simp add: dl_irp_def)
  define Q where "Q = (\<lambda>(ok, l' :: driver_link, d'). drv_ok d' \<and>
    (if ok then dl_ring l' \<and> dl_device l' \<and> drv_owner d' = Some pid else drv_owner d' \<noteq> Some pid))"
  have close: "Q (False, dl_closeDevice pid (k, e))" if "dl_device k" "drv_ok e" for k e
    using dl_closeDevice_owner [of e k pid] that by (cases "dl_closeDevice pid (k, e)") (simp add: Q_def)
  have started: "Q (True, k, drv_setMem mem d2)" if "dl_ring k" "dl_device k" "r2 = Completed status n (Out_Map va tot)"
    for k mem status n va tot
    using that own oks by (simp add: Q_def)
  have "Q (dl_start pid found created mapped now (l, d))"
  proof (cases opened)
    case True
    then show ?thesis
      using assms(4) oks l1 close started
      by (simp add: dl_start_def o v m Let_def split: irp_result.split ioctl_out.split option.split prod.split)
        (auto intro!: started)
  next
    case False
    then have "l1 = l \<or> l1 = l\<lparr>dl_device := False\<rparr>" using o by (auto simp: dl_openDevice_def split: if_splits)
    then show ?thesis using False assms by (auto simp: dl_start_def o Q_def)
  qed
  then have all: "drv_ok d' \<and> (if ok then dl_ring l' \<and> dl_device l' \<and> drv_owner d' = Some pid else drv_owner d' \<noteq> Some pid)"
    by (simp add: assms(1) Q_def)
  then show "drv_ok d'" and "ok \<Longrightarrow> dl_ring l' \<and> dl_device l' \<and> drv_owner d' = Some pid"
    and "\<not> ok \<Longrightarrow> drv_owner d' \<noteq> Some pid"
    by simp_all
qed
lemma dl_write_owner:
  assumes "dl_write fl now xs (l, d) = (ok, l', d')"
  shows "l' = l" and "drv_owner d' = drv_owner d" and "drv_ok d' = drv_ok d"
  using assms by (auto simp: dl_write_def split: if_splits option.splits)

text \<open>A request that is not the process's own and does not take the device away.\<close>

fun foreign :: "nat \<Rightarrow> driver_call \<Rightarrow> bool" where
  "foreign pid (DC_Ioctl mapped i) \<longleftrightarrow> ir_pid i \<noteq> pid"
| "foreign pid (DC_Close i) \<longleftrightarrow> ir_pid i \<noteq> pid"
| "foreign pid (DC_Pnp minor) \<longleftrightarrow> minor \<noteq> IRP_MN_REMOVE_DEVICE \<and> minor \<noteq> IRP_MN_SURPRISE_REMOVAL"
| "foreign pid _ \<longleftrightarrow> True"

lemma foreign_new_owner:
  assumes "foreign pid c" and "drv_owner d \<noteq> Some pid"
  shows "drv_owner (snd (drv_step c d)) \<noteq> Some pid"
proof (cases c)
  case (DC_Ioctl mapped i)
  show ?thesis
  proof (cases "drv_ring d")
    case None
    then show ?thesis
      using DC_Ioctl assms(2)
      by (auto simp: drv_ring_def SmartMicDeviceControl_def SmartMicHandlePrivateIoctl_def split: option.splits)
  next
    case (Some r)
    then obtain ctx where d: "d = Some ctx" "dc_ring ctx = Some r" by (auto simp: drv_ring_def bind_eq_Some_conv)
    have r: "kr_clientProcess r \<noteq> Some pid" using assms(2) d by (simp add: drv_owner_def drv_ring_def)
    obtain st1 base tot r1 where m: "kr_map mapped (ir_pid i) r = (st1, base, tot, r1)" by (metis prod_cases4)
    obtain st2 r2 where u: "kr_unmap (ir_pid i) r = (st2, r2)" by (metis prod.exhaust)
    have "kr_clientProcess r1 \<noteq> Some pid" "kr_clientProcess r2 \<noteq> Some pid"
      using m u r assms(1) DC_Ioctl by (auto simp: kr_map_def kr_unmap_def Let_def split: option.splits if_splits)
    then show ?thesis
      using DC_Ioctl r m u d
      by (cases base; cases "NT_SUCCESS st1")
        (simp_all add: SmartMicDeviceControl_def SmartMicHandlePrivateIoctl_def drv_owner_def drv_ring_def Let_def)
  qed
next
  case (DC_Close i)
  have "kr_clientProcess (kr_releaseClaimIfOwner p r) \<noteq> Some pid" if "kr_clientProcess r \<noteq> Some pid" for p r
    using that by (simp add: kr_releaseClaimIfOwner_def)
  then show ?thesis
    using assms(2) DC_Close by (auto simp: SmartMicClose_def drv_owner_def drv_ring_def Let_def bind_eq_Some_conv)
qed (use assms in \<open>auto simp: SmartMicPnpHandler_def drv_owner_def drv_ring_def\<close>)

lemma foreign_step:
  assumes "foreign pid c" and "drv_ok d"
  shows "drv_ok (snd (drv_step c d))" and "drv_owner (snd (drv_step c d)) = Some pid \<longleftrightarrow> drv_owner d = Some pid"
proof -
  obtain res d' where s: "drv_step c d = (res, d')" by (metis prod.exhaust)
  have "\<not> drv_releases pid c" using assms(1) by (cases c) auto
  then show "drv_ok (snd (drv_step c d))" "drv_owner (snd (drv_step c d)) = Some pid \<longleftrightarrow> drv_owner d = Some pid"
    using drv_step_ring(1,2) [OF s assms(2)] foreign_new_owner [OF assms(1), of d] s by auto
qed

section \<open>The output of a running service\<close>

text \<open>The link is an output that holds the ring; any other leaves it alone.\<close>

fun held :: "nat \<Rightarrow> win_out \<Rightarrow> bool" where
  "held pid (WS_Link l, d) \<longleftrightarrow> drv_ok d \<and> dl_ring l \<and> dl_device l \<and> drv_owner d = Some pid"
| "held pid (_, d) \<longleftrightarrow> drv_ok d \<and> drv_owner d \<noteq> Some pid"

definition is_link :: "win_out \<Rightarrow> bool" where
  "is_link out = (case fst out of WS_Link l \<Rightarrow> True | _ \<Rightarrow> False)"

lemma is_link_simps [simp]:
  "is_link (WS_Link l, d)" "\<not> is_link (WS_Render s, d)" "\<not> is_link (WS_File f, d)"
  by (simp_all add: is_link_def)

lemma held_write: "held pid out \<Longrightarrow> held pid (snd (ws_write rf now xs out)) \<and> is_link (snd (ws_write rf now xs out)) = is_link out"
proof -
  assume h: "held pid out"
  obtain s d where out: "out = (s, d)" by (metis prod.exhaust)
  show ?thesis
    using h unfolding out by (cases s) (auto split: prod.split dest: dl_write_owner)
qed

lemma held_foreign:
  assumes "held pid (s, d)" and "foreign pid c"
  shows "held pid (s, snd (drv_step c d))"
  using assms foreign_step [OF assms(2), of d] by (cases s) auto

lemma held_stop: "held pid out \<Longrightarrow> drv_ok (snd (ws_stop pid out)) \<and> drv_owner (snd (ws_stop pid out)) \<noteq> Some pid"
proof -
  assume h: "held pid out"
  obtain s d where out: "out = (s, d)" by (metis prod.exhaust)
  show ?thesis
    using h dl_closeDevice_owner [of d] unfolding out
    by (cases s) (auto simp: dl_stop_def split: prod.split, metis snd_conv, metis snd_conv)
qed

interpretation win_output: audio_sink "ws_write rf now" "\<lambda>out. held pid out"
  for rf :: "real \<Rightarrow> real" and now :: u64 and pid :: nat
  by unfold_locales (simp add: held_write)

section \<open>The start\<close>

lemma rings_made:
  "\<exists>s. wc_new i device = Some s" "\<exists>s. wr_new i device = Some s"
  using rb_new_correct [of "of_nat (millisToSamples 200)" "0::real"]
  by (auto simp: wc_new_def wr_new_def millisToSamples_eq)

lemma windows_link_owner:
  assumes "windows_link x opt d = (link, d1)" and "drv_ok d" and "drv_owner d \<noteq> Some (xa_pid x)"
  shows "drv_ok d1" and "link = Some l \<Longrightarrow> held (xa_pid x) (WS_Link l, d1)"
    and "link = None \<Longrightarrow> drv_owner d1 \<noteq> Some (xa_pid x)"
    and "op_sink opt = Sink_Cable \<or> op_sink opt = Sink_Wav \<Longrightarrow> link = None"
proof -
  obtain ok l1 d2 where s: "xa_link_start x (dl_new ''driver'', d) = (ok, l1, d2)" by (metis prod_cases3)
  note own = dl_start_owner [OF s [unfolded xa_link_start_def] assms(2,3)]
  have new: "\<not> dl_ring (dl_new ''driver'')" by (simp add: dl_new_def)
  note stop = dl_closeDevice_owner [OF own(1) [OF new], of l1 "xa_pid x"]
  show "drv_ok d1" and "link = Some l \<Longrightarrow> held (xa_pid x) (WS_Link l, d1)"
    and "link = None \<Longrightarrow> drv_owner d1 \<noteq> Some (xa_pid x)"
    and "op_sink opt = Sink_Cable \<or> op_sink opt = Sink_Wav \<Longrightarrow> link = None"
    using assms own [OF new] stop s by (auto simp: windows_link_def dl_stop_def split: if_splits)
qed

text \<open>Which output is picked, and that it is not a link unless one has been started.\<close>

lemma windows_sink_cases:
  "(windows_sink x opt link = Some (Inl 1) \<and> link = None \<and> op_sink opt = Sink_Driver) \<or>
   (\<exists>l label. windows_sink x opt link = Some (Inr (WS_Link l, label)) \<and> link = Some l \<and> op_sink opt \<in> {Sink_Auto, Sink_Driver}) \<or>
   (\<exists>s label. windows_sink x opt link = Some (Inr (s, label)) \<and> (\<forall>l. s \<noteq> WS_Link l) \<and> op_sink opt \<noteq> Sink_Driver \<and>
      (op_sink opt = Sink_Auto \<longrightarrow> link = None))"
  using rings_made(2) [of "''cable''" "op_outWav opt"]
  by (cases "op_sink opt"; cases link) (auto simp: windows_sink_def pick_sink_def)

lemma ws_start_plain:
  "\<forall>l. s \<noteq> WS_Link l \<Longrightarrow> ws_start x (s, d) = (ok, s', d') \<Longrightarrow> d' = d \<and> (\<forall>l. s' \<noteq> WS_Link l)"
  by (cases s) (auto split: prod.splits)

lemma held_plain: "\<forall>l. s \<noteq> WS_Link l \<Longrightarrow> held pid (s, d) \<longleftrightarrow> drv_ok d \<and> drv_owner d \<noteq> Some pid"
  by (cases s) auto

lemma wc_start_device: "wc_start rd a s = (ok, s') \<Longrightarrow> wc_deviceId s' = wc_deviceId s"
  by (auto simp: wc_start_def Let_def split: if_splits option.splits)

definition audio_outcome :: "windows_answers \<Rightarrow> options \<Rightarrow> int \<times> driver + wasapi_source \<times> win_out \<times> string \<Rightarrow> bool" where
  "audio_outcome x opt r =
     (case r of
        Inl (code, d') \<Rightarrow> drv_ok d' \<and> drv_owner d' \<noteq> Some (xa_pid x)
      | Inr (mic, out, label) \<Rightarrow>
          held (xa_pid x) out \<and> (op_sink opt = Sink_Driver \<longrightarrow> is_link out) \<and>
          (op_sink opt = Sink_Cable \<or> op_sink opt = Sink_Wav \<longrightarrow> \<not> is_link out) \<and>
          (\<exists>chosen. dr_resolveEffectiveInput (windows_registry x) = Some chosen \<and> wc_deviceId mic = di_id chosen))"

lemma windows_audio_outcome:
  assumes "drv_ok d" and "drv_owner d \<noteq> Some (xa_pid x)"
  shows "\<exists>r. windows_audio rd x opt d = Some r \<and> audio_outcome x opt r"
proof (cases "dr_resolveEffectiveInput (windows_registry x)")
  case None
  then show ?thesis using assms by (simp add: windows_audio_def audio_outcome_def)
next
  case (Some chosen)
  obtain mic where mic: "wc_new ''local'' (di_id chosen) = Some mic" using rings_made(1) by blast
  then have dev: "wc_deviceId mic = di_id chosen" by (auto simp: wc_new_def)
  obtain link d1 where link: "windows_link x opt d = (link, d1)" by (metis prod.exhaust)
  note own = windows_link_owner [OF link assms]
  obtain micOk mic1 where start: "wc_start rd (xa_mic x) mic = (micOk, mic1)" by (metis prod.exhaust)
  have dev1: "wc_deviceId mic1 = di_id chosen" using wc_start_device [OF start] dev by simp
  have step: "\<exists>r. windows_audio rd x opt d = Some r \<and> audio_outcome x opt r"
    if "windows_sink x opt link = Some (Inr (s, label))"
      and "(if link \<noteq> None then (True, s, d1) else ws_start x (s, d1)) = (ok, out)" and "held (xa_pid x) out"
      and "op_sink opt = Sink_Driver \<longrightarrow> is_link out" and "op_sink opt = Sink_Cable \<or> op_sink opt = Sink_Wav \<longrightarrow> \<not> is_link out"
    for s label ok out
  proof -
    have "drv_ok (snd (ws_stop (xa_pid x) out)) \<and> drv_owner (snd (ws_stop (xa_pid x) out)) \<noteq> Some (xa_pid x)"
      using that(3) held_stop by blast
    then show ?thesis
      using that Some mic link start dev1 by (auto simp: windows_audio_def audio_outcome_def)
  qed
  from windows_sink_cases [of x opt link] show ?thesis
  proof (elim disjE exE conjE)
    assume "windows_sink x opt link = Some (Inl 1)" "link = None"
    then show ?thesis using Some mic link own by (simp add: windows_audio_def audio_outcome_def)
  next
    fix l label
    assume "windows_sink x opt link = Some (Inr (WS_Link l, label))" "link = Some l" "op_sink opt \<in> {Sink_Auto, Sink_Driver}"
    then show ?thesis using own(2) [of l] by (intro step [of "WS_Link l" label True "(WS_Link l, d1)"]) auto
  next
    fix s label
    assume s: "windows_sink x opt link = Some (Inr (s, label))" "\<forall>l. s \<noteq> WS_Link l" "op_sink opt \<noteq> Sink_Driver"
      "op_sink opt = Sink_Auto \<longrightarrow> link = None"
    then have none: "link = None" using own(4) by (cases "op_sink opt") auto
    obtain ok s' d' where st: "ws_start x (s, d1) = (ok, s', d')" by (metis prod_cases3)
    then have "d' = d1" "\<forall>l. s' \<noteq> WS_Link l" using ws_start_plain [OF s(2) st] by simp_all
    then have "held (xa_pid x) (s', d')" "\<not> is_link (s', d')"
      using own(1) own(3) [OF none] by (simp_all add: held_plain is_link_def split: win_sink.split)
    then show ?thesis using s none st by (intro step [of s label ok "(s', d')"]) simp_all
  qed
qed

lemma router_wired_parts:
  "router_wired cfg l p k = Some r \<Longrightarrow> ar_local r = l \<and> ar_sink r = k"
  by (auto simp: router_wired_def setSink_def setPhoneSource_def setLocalSource_def)

lemma service_start_parts:
  assumes "service_start env opt sx identity registry loc snk = Some v"
  shows "ar_local (sv_router v) = Some loc" and "ar_sink (sv_router v) = Some snk" and "sv_registry v = registry"
  using assms by (auto simp: service_start_def Let_def dest!: router_wired_parts split: prod.splits)

definition output_ok :: "nat \<Rightarrow> options \<Rightarrow> win_out \<Rightarrow> bool" where
  "output_ok pid opt out \<longleftrightarrow> held pid out \<and> (op_sink opt = Sink_Driver \<longrightarrow> is_link out) \<and>
     (op_sink opt = Sink_Cable \<or> op_sink opt = Sink_Wav \<longrightarrow> \<not> is_link out)"

fun event_foreign :: "nat \<Rightarrow> windows_event \<Rightarrow> bool" where
  "event_foreign pid (XE_Driver c) \<longleftrightarrow> foreign pid c"
| "event_foreign pid (XE_Service now e) \<longleftrightarrow> True"

lemma windows_run_output:
  "sink_has (output_ok pid opt) (xs_service p) \<Longrightarrow> list_all (event_foreign pid) es \<Longrightarrow>
   sink_has (output_ok pid opt) (xs_service (windows_run env es p))"
proof (induction es arbitrary: p)
  case (Cons e es)
  show ?case
  proof (cases e)
    case (XE_Service now se)
    have "sink_has (output_ok pid opt) (vr_s (service_step (windows_env now env) se (xs_service p)))"
      by (rule service_step_sink [OF Cons.prems(1)]) (auto simp: windows_env_def output_ok_def held_write)
    then show ?thesis using Cons XE_Service by (simp add: Let_def)
  next
    case (XE_Driver c)
    have "output_ok pid opt (s, snd (drv_step c d))" if "output_ok pid opt (s, d)" for s d
      using that held_foreign [of pid s d c] Cons.prems(2) XE_Driver by (simp add: output_ok_def is_link_def)
    then have "sink_has (output_ok pid opt) ((xs_service p)\<lparr>sv_router := (sv_router (xs_service p))
        \<lparr>ar_sink := map_option (\<lambda>(s, d). (s, snd (drv_step c d))) (ar_sink (sv_router (xs_service p)))\<rparr>\<rparr>)"
      using Cons.prems(1) by (auto simp: sink_has_def)
    then show ?thesis using Cons XE_Driver by (simp add: Let_def)
  qed
qed simp

lemma windows_main_outcome:
  assumes "drv_ok d" and "drv_owner d \<noteq> Some (xa_pid x)"
  shows "\<exists>r. windows_main env x sx opt d = Some r \<and>
    (case r of Inl (code, d') \<Rightarrow> drv_owner d' \<noteq> Some (xa_pid x)
     | Inr p \<Rightarrow> sink_has (output_ok (xa_pid x) opt) (xs_service p) \<and>
         (\<exists>chosen mic. dr_resolveEffectiveInput (windows_registry x) = Some chosen \<and>
            ar_local (sv_router (xs_service p)) = Some mic \<and> wc_deviceId mic = di_id chosen))"
proof -
  obtain r where r: "windows_audio (se_rd env) x opt d = Some r" "audio_outcome x opt r"
    using windows_audio_outcome [OF assms] by blast
  show ?thesis
  proof (cases "op_diagnoseOnly opt")
    case True
    then show ?thesis using assms(2) by (simp add: windows_main_def)
  next
    case False
    show ?thesis
    proof (cases r)
      case (Inl e)
      then show ?thesis using False r by (cases e) (simp add: windows_main_def audio_outcome_def Let_def)
    next
      case (Inr t)
      obtain mic out label where t: "t = (mic, out, label)" by (metis prod_cases3)
      obtain ok u where u: "ut_start (xa_socket x) (xa_bound x) (xa_sockname x) (ut_new ''service'' (op_port opt)) = (ok, u)"
        by (metis prod.exhaust)
      obtain v where v: "service_start env opt (sx\<lparr>sx_localPort := ut_boundPort u\<rparr>)
          (fst (service_identity (se_crypto env) (xa_keyRand x) (xa_keyFile x))) (windows_registry x) mic out = Some v"
        using service_starts [of env opt "sx\<lparr>sx_localPort := ut_boundPort u\<rparr>"] by blast
      show ?thesis
        using False r Inr t u v service_start_parts [OF v] held_stop [of "xa_pid x" out]
        by (cases ok) (auto simp: windows_main_def audio_outcome_def output_ok_def sink_has_def Let_def)
    qed
  qed
qed

lemma windows_registry_safe:
  "dr_resolveEffectiveInput (windows_registry x) = Some d \<Longrightarrow> \<not> looksLikeSmartMicEndpoint (di_id d) (di_name d)"
proof (cases "en_enumerator (snd (en_initialise (xa_com x) (xa_created x) (en_new :: unit wasapi_enumerator)))")
  case True
  then have w: "windows_registry x = snd (dr_setDevices (wasapi_enumerate (xa_collection x) (xa_default x)) dr_init)"
    by (simp add: windows_registry_def en_enumerate_def)
  assume "dr_resolveEffectiveInput (windows_registry x) = Some d"
  then show ?thesis using enumerated_never_resolved unfolding w by blast
qed (simp add: windows_registry_def en_enumerate_def dr_setDevices_def dr_resolveEffectiveInput_def dr_init_def)

section \<open>A service to run the statement on\<close>

definition demo_wenv :: "(unit, unit, wasapi_source, win_out) service_env" where
  "demo_wenv = \<lparr>se_crypto = toy_crypto, se_sodium = plain_sodium,
     se_text = \<lparr>jt_parse = (\<lambda>s. None), jt_dump = (\<lambda>j. Some ''x'')\<rparr>, se_opus = plain_opus, se_rd = (\<lambda>x. x),
     se_rf = (\<lambda>x. x), se_local = \<lparr>so_id = wc_id, so_read = wc_read\<rparr>, se_sink = \<lparr>ko_write = ws_write (\<lambda>x. x) 0\<rparr>\<rparr>"

definition demo_wasapi :: wasapi_answer where
  "demo_wasapi = \<lparr>wa_enumerator = True, wa_device = True, wa_client = True,
     wa_mix = Some \<lparr>mf_tag = 3, mf_channels = 1, mf_rate = 48000, mf_blockAlign = 4, mf_bits = 32, mf_subFloat = False\<rparr>, wa_initialize = True,
     wa_event = True, wa_setEvent = True, wa_bufferSize = Some 480, wa_service = True, wa_started = True\<rparr>"

definition demo_answers :: windows_answers where
  "demo_answers = \<lparr>xa_com = True, xa_created = True,
     xa_collection = Some [\<lparr>ea_item = True, ea_id = Some ''mic'', ea_name = Some ''USB'', ea_mix = None\<rparr>],
     xa_default = None, xa_mic = demo_wasapi, xa_render = demo_wasapi, xa_file = True, xa_disk = 1000, xa_pid = 1,
     xa_search = \<lparr>se_interfaces = Some [(8, Some ''path'')], se_cmSize = None, se_cmList = None, se_present = None, se_all = None\<rparr>,
     xa_opened = True, xa_mapped = Some 4096, xa_interruptTime = 10, xa_service = (True, True), xa_present = True,
     xa_endpoint = (True, ''Smart Microphone''), xa_keyRand = [1], xa_keyFile = None, xa_socket = Some 3,
     xa_bound = True, xa_sockname = Some 47820\<rparr>"

lemma demo_input: "\<exists>c. dr_resolveEffectiveInput (windows_registry demo_answers) = Some c"
proof -
  have "\<not> looksLikeSmartMicEndpoint ''mic'' ''USB''" by code_simp
  then show ?thesis
    by (simp add: windows_registry_def demo_answers_def en_enumerate_def en_initialise_def wasapi_enumerate_def device_of_def
        dr_setDevices_def dr_resolveEffectiveInput_def dr_init_def Let_def)
qed

lemma demo_runs:
  assumes "SmartMicAddDevice True True True True STATUS_SUCCESS STATUS_SUCCESS None = (STATUS_SUCCESS, d)"
  shows "\<exists>p. windows_main demo_wenv demo_answers demo_start ((default_options ''state'')\<lparr>op_sink := Sink_Driver\<rparr>) d = Some (Inr p)"
proof -
  let ?opt = "(default_options ''state'')\<lparr>op_sink := Sink_Driver\<rparr>"
  obtain c mic where c: "dr_resolveEffectiveInput (windows_registry demo_answers) = Some c"
    and mic: "wc_new ''local'' (di_id c) = Some mic"
    using demo_input rings_made(1) by blast
  have run: "\<not> wc_running mic" using mic by (auto simp: wc_new_def)
  obtain mic1 where start: "wc_start (\<lambda>x. x) demo_wasapi mic = (True, mic1)"
    using run by (simp add: wc_start_def demo_wasapi_def Let_def)
  have "fst (findDevicePath (xa_search demo_answers)) \<noteq> []"
    by (simp add: findDevicePath_def demo_answers_def findViaSetupDi_def Let_def)
  then have "xa_link_start demo_answers = dl_start 1 True True (Some 4096) 10"
    by (simp add: xa_link_start_def) (simp add: demo_answers_def)
  moreover obtain ok l d1 where s: "dl_start 1 True True (Some 4096) 10 (dl_new ''driver'', d) = (ok, l, d1)"
    by (metis prod_cases3)
  ultimately have "xa_link_start demo_answers (dl_new ''driver'', d) = (True, l, d1)"
    using dl_start_tape(1) [OF assms, of 4096 1 10 "''driver''"] by simp
  then have link: "windows_link demo_answers ?opt d = (Some l, d1)" by (simp add: windows_link_def)
  obtain label where snk: "windows_sink demo_answers ?opt (Some l) = Some (Inr (WS_Link l, label))"
    by (simp add: windows_sink_def pick_sink_def)
  obtain u where u: "ut_start (xa_socket demo_answers) (xa_bound demo_answers) (xa_sockname demo_answers)
      (ut_new ''service'' (op_port ?opt)) = (True, u)"
    by (simp add: ut_start_def ut_new_def demo_answers_def)
  obtain v where v: "service_start demo_wenv ?opt (demo_start\<lparr>sx_localPort := ut_boundPort u\<rparr>)
      (fst (service_identity (se_crypto demo_wenv) (xa_keyRand demo_answers) (xa_keyFile demo_answers)))
      (windows_registry demo_answers) mic1 (WS_Link l, d1) = Some v"
    using service_starts [of demo_wenv ?opt "demo_start\<lparr>sx_localPort := ut_boundPort u\<rparr>"] by blast
  have "windows_audio (se_rd demo_wenv) demo_answers ?opt d = Some (Inr (mic1, (WS_Link l, d1), label))"
    using c mic link snk start by (simp add: windows_audio_def demo_wenv_def) (simp add: demo_answers_def)
  then show ?thesis
    using u v by (simp add: windows_main_def default_options_def Let_def)
qed

section \<open>Properties\<close>

text \<open>
  C36: the service holds the driver's ring exactly while it plays into it. On a device that was added,
  with any history of requests that leaves the ring to others or to nobody, \<open>main\<close> either ends with an
  exit code and does not hold the ring, or runs. A running service captures the device the registry
  resolved, which does not look like the SmartMic endpoint; after any datagrams, passes of the loop and
  requests of other processes, the device staying in place, it holds the ring if its output is the driver
  link and not otherwise, and the output is the link when \<open>--sink driver\<close> was given and is not when
  another was. After the end it does not hold the ring.
\<close>

theorem service_holds_driver:
  fixes env :: "('e, 'd, wasapi_source, win_out) service_env"
  assumes "SmartMicAddDevice ctxMem ringMem alloc mdl added registered None = (STATUS_SUCCESS, d0)"
    and "drv_owner (snd (drv_run cs d0)) \<noteq> Some (xa_pid x)" and "list_all (event_foreign (xa_pid x)) es"
  shows "\<exists>r. windows_main env x sx opt (snd (drv_run cs d0)) = Some r \<and>
    (case r of
       Inl (code, d) \<Rightarrow> drv_owner d \<noteq> Some (xa_pid x)
     | Inr p \<Rightarrow>
         (\<exists>chosen mic. ar_local (sv_router (xs_service p)) = Some mic \<and> wc_deviceId mic = di_id chosen \<and>
            dr_resolveEffectiveInput (windows_registry x) = Some chosen \<and>
            \<not> looksLikeSmartMicEndpoint (di_id chosen) (di_name chosen)) \<and>
         (\<exists>out. ar_sink (sv_router (xs_service (windows_run env es p))) = Some out \<and>
            (drv_owner (snd out) = Some (xa_pid x) \<longleftrightarrow> is_link out) \<and> (op_sink opt = Sink_Driver \<longrightarrow> is_link out) \<and>
            (op_sink opt = Sink_Cable \<or> op_sink opt = Sink_Wav \<longrightarrow> \<not> is_link out)) \<and>
         (\<exists>out. ar_sink (sv_router (xs_service (windows_finish (xa_pid x) (windows_run env es p)))) = Some out \<and>
            drv_owner (snd out) \<noteq> Some (xa_pid x)))"
proof -
  let ?pid = "xa_pid x" and ?d = "snd (drv_run cs d0)"
  obtain r where r: "windows_main env x sx opt ?d = Some r"
    and out: "case r of Inl (code, d') \<Rightarrow> drv_owner d' \<noteq> Some ?pid
     | Inr p \<Rightarrow> sink_has (output_ok ?pid opt) (xs_service p) \<and>
         (\<exists>chosen mic. dr_resolveEffectiveInput (windows_registry x) = Some chosen \<and>
            ar_local (sv_router (xs_service p)) = Some mic \<and> wc_deviceId mic = di_id chosen)"
    using windows_main_outcome [OF drv_run_ok [OF drv_ok_added [OF assms(1)]] assms(2)] by blast
  have run: "(\<exists>out. ar_sink (sv_router (xs_service (windows_run env es p))) = Some out \<and>
            (drv_owner (snd out) = Some ?pid \<longleftrightarrow> is_link out) \<and> (op_sink opt = Sink_Driver \<longrightarrow> is_link out) \<and>
            (op_sink opt = Sink_Cable \<or> op_sink opt = Sink_Wav \<longrightarrow> \<not> is_link out)) \<and>
         (\<exists>out. ar_sink (sv_router (xs_service (windows_finish ?pid (windows_run env es p)))) = Some out \<and>
            drv_owner (snd out) \<noteq> Some ?pid)"
    if has: "sink_has (output_ok ?pid opt) (xs_service p)" for p
  proof -
    obtain s d where o: "ar_sink (sv_router (xs_service (windows_run env es p))) = Some (s, d)" "output_ok ?pid opt (s, d)"
      using windows_run_output [OF has assms(3), of env] by (auto simp: sink_has_def)
    then have "drv_owner d = Some ?pid \<longleftrightarrow> is_link (s, d)" by (cases s) (auto simp: output_ok_def)
    then show ?thesis
      using o held_stop [of ?pid "(s, d)"] by (auto simp: output_ok_def windows_finish_def Let_def)
  qed
  show ?thesis
  proof (cases r)
    case (Inl e)
    then show ?thesis using r out by auto
  next
    case (Inr p)
    then show ?thesis using r out run [of p] windows_registry_safe by fastforce
  qed
qed

theorem service_holds_driver_witness:
  "let d = snd (SmartMicAddDevice True True True True STATUS_SUCCESS STATUS_SUCCESS None);
       es = [XE_Service 20 (VE_Loop \<lparr>vc_rand = [1], vc_now = 2000, vc_sent = True\<rparr> transport_stats_zero),
             XE_Driver (DC_Ioctl (Some 8192) (dl_irp 2 IOCTL_SMARTMIC_MAP_RING sizeof_map_result))]
   in \<exists>p out. windows_main demo_wenv demo_answers demo_start ((default_options ''state'')\<lparr>op_sink := Sink_Driver\<rparr>) d = Some (Inr p) \<and>
        ar_sink (sv_router (xs_service (windows_run demo_wenv es p))) = Some out \<and> is_link out \<and> drv_owner (snd out) = Some 1"
proof -
  let ?d = "snd (SmartMicAddDevice True True True True STATUS_SUCCESS STATUS_SUCCESS None)"
  let ?opt = "(default_options ''state'')\<lparr>op_sink := Sink_Driver\<rparr>"
  let ?es = "[XE_Service 20 (VE_Loop \<lparr>vc_rand = [1], vc_now = 2000, vc_sent = True\<rparr> transport_stats_zero),
             XE_Driver (DC_Ioctl (Some 8192) (dl_irp 2 IOCTL_SMARTMIC_MAP_RING sizeof_map_result))]"
  have d: "SmartMicAddDevice True True True True STATUS_SUCCESS STATUS_SUCCESS None = (STATUS_SUCCESS, ?d)"
    by (simp add: SmartMicAddDevice_def kr_initialize_def NT_SUCCESS_def)
  then have free: "drv_owner (snd (drv_run [] ?d)) \<noteq> Some (xa_pid demo_answers)"
    by (simp add: SmartMicAddDevice_def kr_initialize_def NT_SUCCESS_def kr_new_def drv_owner_def drv_ring_def)
  have pid: "xa_pid demo_answers = 1" by (simp add: demo_answers_def)
  obtain p where p: "windows_main demo_wenv demo_answers demo_start ?opt ?d = Some (Inr p)"
    using demo_runs [OF d] by blast
  have "list_all (event_foreign (xa_pid demo_answers)) ?es" by (simp add: pid dl_irp_def)
  from service_holds_driver [OF d free this, of demo_wenv demo_start ?opt] p
  show ?thesis unfolding Let_def pid by auto
qed

end
