(* ===== verification/DriverObjects.thy ===== *)
theory DriverObjects
  imports DriverFilters
begin

text \<open>
  The driver's miniports and the capture stream as counted objects: creation, interface queries, the
  references they keep on their port and on each other, and what their destructors give back
  (\<^verbatim>\<open>windows/driver/minwave.cpp\<close>, \<^verbatim>\<open>mintopo.cpp\<close>, \<^verbatim>\<open>minwavestream.cpp\<close>). An object's count is that of the
  support library's \<open>CUnknown\<close>: a reference is added or released, and the last release destroys. The lemma
  \<open>objects_give_back\<close> shows that a client that releases what it was given leaves nothing held.
\<close>

section \<open>Interfaces\<close>

datatype com_iid =
    IID_IUnknown | IID_IMiniport | IID_IMiniportWaveRT | IID_IMiniportTopology
  | IID_IMiniportWaveRTStream | IID_IMiniportWaveRTStreamNotification | IID_Other

text \<open>The pointer a query gives, named by its interface; \<open>None\<close> is \<open>STATUS_INVALID_PARAMETER\<close>.\<close>

fun wm_query :: "com_iid \<Rightarrow> com_iid option" where
  "wm_query IID_IUnknown = Some IID_IMiniportWaveRT"
| "wm_query IID_IMiniport = Some IID_IMiniport"
| "wm_query IID_IMiniportWaveRT = Some IID_IMiniportWaveRT"
| "wm_query _ = None"

fun mt_query :: "com_iid \<Rightarrow> com_iid option" where
  "mt_query IID_IUnknown = Some IID_IMiniportTopology"
| "mt_query IID_IMiniport = Some IID_IMiniport"
| "mt_query IID_IMiniportTopology = Some IID_IMiniportTopology"
| "mt_query _ = None"

fun wst_query :: "com_iid \<Rightarrow> com_iid option" where
  "wst_query IID_IUnknown = Some IID_IMiniportWaveRTStream"
| "wst_query IID_IMiniportWaveRTStream = Some IID_IMiniportWaveRTStream"
| "wst_query IID_IMiniportWaveRTStreamNotification = Some IID_IMiniportWaveRTStreamNotification"
| "wst_query _ = None"

section \<open>The topology miniport\<close>

text \<open>Its count, \<open>m_port\<close>, and the references it has on the port.\<close>

record topo_object =
  to_refs :: nat
  to_port :: bool
  to_portRefs :: nat

definition mt_create :: "bool \<Rightarrow> ntstatus \<times> topo_object option" where
  "mt_create alloc =
     (if \<not> alloc then (STATUS_INSUFFICIENT_RESOURCES, None)
      else (STATUS_SUCCESS, Some \<lparr>to_refs = 1, to_port = False, to_portRefs = 0\<rparr>))"

definition mt_destroy :: "topo_object \<Rightarrow> topo_object" where
  "mt_destroy t = (if to_port t then t\<lparr>to_portRefs := to_portRefs t - 1, to_port := False\<rparr> else t)"

definition mt_release :: "topo_object \<Rightarrow> topo_object" where
  "mt_release t = (let t1 = t\<lparr>to_refs := to_refs t - 1\<rparr> in if to_refs t1 = 0 then mt_destroy t1 else t1)"

definition mt_queryInterface :: "com_iid \<Rightarrow> topo_object \<Rightarrow> (ntstatus \<times> com_iid option) \<times> topo_object" where
  "mt_queryInterface iid t =
     (case mt_query iid of
        Some p \<Rightarrow> ((STATUS_SUCCESS, Some p), t\<lparr>to_refs := to_refs t + 1\<rparr>)
      | None \<Rightarrow> ((STATUS_INVALID_PARAMETER, None), t))"

definition mt_init :: "topo_object \<Rightarrow> ntstatus \<times> topo_object" where
  "mt_init t = (STATUS_SUCCESS, t\<lparr>to_port := True, to_portRefs := to_portRefs t + 1\<rparr>)"

definition mt_getDescription :: "ntstatus \<times> filter_descriptor" where
  "mt_getDescription = (STATUS_SUCCESS, SmartMicTopoFilterDescriptor)"

section \<open>The wave miniport and its stream\<close>

text \<open>
  The miniport with its stream and ring, the counts of both objects, \<open>m_port\<close>, and the references that
  the miniport has on its port and the stream on its own.
\<close>

record wave_objects =
  wo_mini :: wave_miniport
  wo_refs :: nat
  wo_port :: bool
  wo_portRefs :: nat
  wo_streamRefs :: nat
  wo_streamPortRefs :: nat

definition wm_create :: "bool \<Rightarrow> driver_ring \<Rightarrow> ntstatus \<times> wave_objects option" where
  "wm_create alloc ring =
     (if \<not> alloc then (STATUS_INSUFFICIENT_RESOURCES, None)
      else (STATUS_SUCCESS, Some \<lparr>wo_mini = \<lparr>wm_stream = None, wm_ring = ring\<rparr>, wo_refs = 1, wo_port = False,
                                  wo_portRefs = 0, wo_streamRefs = 0, wo_streamPortRefs = 0\<rparr>))"

definition wm_destroy :: "wave_objects \<Rightarrow> wave_objects" where
  "wm_destroy w = (if wo_port w then w\<lparr>wo_portRefs := wo_portRefs w - 1, wo_port := False\<rparr> else w)"

definition wm_release :: "wave_objects \<Rightarrow> wave_objects" where
  "wm_release w = (let w1 = w\<lparr>wo_refs := wo_refs w - 1\<rparr> in if wo_refs w1 = 0 then wm_destroy w1 else w1)"

definition wm_queryInterface :: "com_iid \<Rightarrow> wave_objects \<Rightarrow> (ntstatus \<times> com_iid option) \<times> wave_objects" where
  "wm_queryInterface iid w =
     (case wm_query iid of
        Some p \<Rightarrow> ((STATUS_SUCCESS, Some p), w\<lparr>wo_refs := wo_refs w + 1\<rparr>)
      | None \<Rightarrow> ((STATUS_INVALID_PARAMETER, None), w))"

definition wm_init :: "wave_objects \<Rightarrow> ntstatus \<times> wave_objects" where
  "wm_init w =
     (STATUS_SUCCESS,
      w\<lparr>wo_port := True, wo_portRefs := wo_portRefs w + 1, wo_mini := (wo_mini w)\<lparr>wm_stream := None\<rparr>\<rparr>)"

definition wm_getDescription :: "ntstatus \<times> filter_descriptor" where
  "wm_getDescription = (STATUS_SUCCESS, SmartMicWaveFilterDescriptor)"

record device_description =
  dv_Master :: bool
  dv_ScatterGather :: bool
  dv_Dma32BitAddresses :: bool
  dv_InterfaceType :: string
  dv_MaximumLength :: u32

definition wm_getDeviceDescription :: "ntstatus \<times> device_description" where
  "wm_getDeviceDescription =
     (STATUS_SUCCESS, \<lparr>dv_Master = True, dv_ScatterGather = True, dv_Dma32BitAddresses = True,
                       dv_InterfaceType = ''PCIBus'', dv_MaximumLength = 0xFFFFFFFF\<rparr>)"

text \<open>The stream's destructor, after its timer and buffer: the ring, its port, then the miniport.\<close>

definition wst_destroy :: "wave_objects \<Rightarrow> wave_objects" where
  "wst_destroy w =
     wm_release (w\<lparr>wo_mini := wm_closeStream (wo_mini w), wo_streamPortRefs := wo_streamPortRefs w - 1\<rparr>)"

definition wst_release :: "wave_objects \<Rightarrow> wave_objects" where
  "wst_release w =
     (let w1 = w\<lparr>wo_streamRefs := wo_streamRefs w - 1\<rparr> in if wo_streamRefs w1 = 0 then wst_destroy w1 else w1)"

definition wst_queryInterface :: "com_iid \<Rightarrow> wave_objects \<Rightarrow> (ntstatus \<times> com_iid option) \<times> wave_objects" where
  "wst_queryInterface iid w =
     (case wst_query iid of
        Some p \<Rightarrow> ((STATUS_SUCCESS, Some p), w\<lparr>wo_streamRefs := wo_streamRefs w + 1\<rparr>)
      | None \<Rightarrow> ((STATUS_INVALID_PARAMETER, None), w))"

text \<open>\<open>NewStream\<close>: a stream that was made takes its references before it looks at the format.\<close>

definition wm_newStreamObject ::
  "bool \<Rightarrow> u32 \<Rightarrow> u32 \<Rightarrow> bool \<Rightarrow> wave_format \<Rightarrow> wave_objects \<Rightarrow> ntstatus \<times> wave_objects" where
  "wm_newStreamObject alloc fmtSize pin capture f w =
     (let made = (pin = KSPIN_WAVE_CAPTURE_SINK \<and> capture \<and> wm_stream (wo_mini w) = None \<and> alloc)
      in (case wm_newStream alloc fmtSize pin capture f (wo_mini w) of
            (status, m) \<Rightarrow>
              if \<not> made then (status, w\<lparr>wo_mini := m\<rparr>)
              else
                let w1 = w\<lparr>wo_mini := m, wo_streamRefs := 1, wo_refs := wo_refs w + 1,
                           wo_streamPortRefs := wo_streamPortRefs w + 1\<rparr>
                in (status, if NT_SUCCESS status then w1 else wst_release w1)))"

section \<open>Clients\<close>

text \<open>
  The calls on the two objects. A client has so many references on the miniport and so many on the
  stream; it calls an object only while it has one, or not at all (\<open>None\<close>).
\<close>

datatype wave_call =
    WV_Query com_iid
  | WV_AddRef
  | WV_Release
  | WV_NewStream bool u32 u32 bool wave_format
  | WV_StreamQuery com_iid
  | WV_StreamAddRef
  | WV_StreamRelease

fun wv_step :: "wave_call \<Rightarrow> nat \<times> nat \<times> wave_objects \<Rightarrow> (nat \<times> nat \<times> wave_objects) option" where
  "wv_step (WV_Query iid) (m, s, w) =
     (if m = 0 then None
      else (case wm_queryInterface iid w of (r, w') \<Rightarrow> Some (if NT_SUCCESS (fst r) then m + 1 else m, s, w')))"
| "wv_step WV_AddRef (m, s, w) = (if m = 0 then None else Some (m + 1, s, w\<lparr>wo_refs := wo_refs w + 1\<rparr>))"
| "wv_step WV_Release (m, s, w) = (if m = 0 then None else Some (m - 1, s, wm_release w))"
| "wv_step (WV_NewStream alloc fmtSize pin capture f) (m, s, w) =
     (if m = 0 then None
      else (case wm_newStreamObject alloc fmtSize pin capture f w of
              (status, w') \<Rightarrow> Some (m, if NT_SUCCESS status then s + 1 else s, w')))"
| "wv_step (WV_StreamQuery iid) (m, s, w) =
     (if s = 0 then None
      else (case wst_queryInterface iid w of (r, w') \<Rightarrow> Some (m, if NT_SUCCESS (fst r) then s + 1 else s, w')))"
| "wv_step WV_StreamAddRef (m, s, w) =
     (if s = 0 then None else Some (m, s + 1, w\<lparr>wo_streamRefs := wo_streamRefs w + 1\<rparr>))"
| "wv_step WV_StreamRelease (m, s, w) = (if s = 0 then None else Some (m, s - 1, wst_release w))"

fun wv_run :: "wave_call list \<Rightarrow> nat \<times> nat \<times> wave_objects \<Rightarrow> (nat \<times> nat \<times> wave_objects) option" where
  "wv_run [] x = Some x"
| "wv_run (c # cs) x = Option.bind (wv_step c x) (wv_run cs)"

text \<open>Every count is what the client has, and the stream's reference on the miniport.\<close>

fun wv_ok :: "nat \<times> nat \<times> wave_objects \<Rightarrow> bool" where
  "wv_ok (m, s, w) \<longleftrightarrow>
     wo_refs w = m + (if s > 0 then 1 else 0) \<and> wo_streamRefs w = s \<and>
     wo_streamPortRefs w = (if s > 0 then 1 else 0) \<and> (wm_stream (wo_mini w) \<noteq> None \<longleftrightarrow> s > 0) \<and>
     (wo_port w \<longleftrightarrow> wo_refs w > 0) \<and> wo_portRefs w = (if wo_refs w > 0 then 1 else 0)"

lemma wm_newStream_status:
  assumes "wm_newStream alloc fmtSize pin capture f m = (status, m')"
  shows "NT_SUCCESS status \<Longrightarrow> pin = KSPIN_WAVE_CAPTURE_SINK \<and> capture \<and> wm_stream m = None \<and> alloc \<and> wm_stream m' \<noteq> None"
    and "\<not> NT_SUCCESS status \<Longrightarrow> wm_stream m' = wm_stream m"
  using assms by (auto simp: wm_newStream_def NT_SUCCESS_def split: if_splits prod.splits)

lemma wv_step_ok:
  assumes "wv_ok (m, s, w)" and "wv_step c (m, s, w) = Some x"
  shows "wv_ok x"
proof (cases c)
  case (WV_NewStream alloc fmtSize pin capture f)
  obtain status m' where n: "wm_newStream alloc fmtSize pin capture f (wo_mini w) = (status, m')" by (metis prod.exhaust)
  show ?thesis
    using assms WV_NewStream n wm_newStream_status [OF n]
    by (auto simp: wm_newStreamObject_def wst_release_def wst_destroy_def wm_release_def wm_destroy_def
        wm_closeStream_def Let_def split: if_splits)
qed (use assms in \<open>auto simp: wm_queryInterface_def wst_queryInterface_def wst_release_def wst_destroy_def wm_release_def
      wm_destroy_def wm_closeStream_def NT_SUCCESS_def Let_def split: option.splits if_splits\<close>)

lemma wv_run_ok: "wv_ok x \<Longrightarrow> wv_run cs x = Some y \<Longrightarrow> wv_ok y"
proof (induction cs arbitrary: x)
  case (Cons c cs)
  obtain m s w where x: "x = (m, s, w)" by (metis prod_cases3)
  obtain x' where "wv_step c x = Some x'" "wv_run cs x' = Some y"
    using Cons.prems(2) by (auto simp: bind_eq_Some_conv)
  then show ?case using Cons.IH wv_step_ok [of m s w c x'] Cons.prems(1) x by blast
qed simp

lemma objects_give_back:
  assumes "wm_create True ring = (STATUS_SUCCESS, Some w)" and "wv_run cs (1, 0, snd (wm_init w)) = Some (m, s, v)"
  shows "(s > 0 \<longleftrightarrow> wm_stream (wo_mini v) \<noteq> None) \<and> (m = 0 \<and> s = 0 \<longleftrightarrow> wo_refs v = 0) \<and>
    (wo_refs v = 0 \<longrightarrow> wo_portRefs v = 0 \<and> wo_streamPortRefs v = 0 \<and> wo_streamRefs v = 0)"
proof -
  have "wv_ok (1, 0, snd (wm_init w))"
    using assms(1) by (auto simp: wm_create_def wm_init_def)
  then have "wv_ok (m, s, v)" using assms(2) wv_run_ok by blast
  then show ?thesis by (auto split: if_splits)
qed

end
