(* ===== verification/Spec2Isabelle.thy ===== *)
theory Spec2Isabelle
  imports SourceStateMachine RingBuffer Crossfade RouterLiveness Logging
    ReplayWindow MediaPacket SecureChannel Codec JitterBuffer PhoneMedia Transport
    Pairing Handshake DriverLink DriverStream PhoneRuntime Service
    HostSources Capture DeviceAudio RouterControl RouterApp DriverFilters DriverSearch PushToTalk
    PhoneSim ServiceMain DriverObjects
begin

text \<open>
  SmartMic turns a phone into a push-to-talk microphone of a Windows PC. The phone captures its
  microphone and sends Opus packets over UDP, through an authenticated channel that a pairing exchange
  sets up; a service on the PC plays them into a virtual capture device, and falls back to the local
  microphone whenever the phone is not heard. This development models its C++ code and proves what
  makes it correct. Paths are below \<^verbatim>\<open>src/\<close>.

  \<^bold>\<open>The audio path of the PC\<close>, \<^verbatim>\<open>windows/audio-service\<close>. \<open>SourceStateMachine\<close> is the machine that
  decides which source is heard (\<^verbatim>\<open>src/source_state_machine.cpp\<close>). \<open>RingBuffer\<close>, \<open>Crossfade\<close> and
  \<open>Resampler\<close> are the building blocks of the same names, \<open>Logging\<close> and \<open>DeviceRegistry\<close> the log and the
  inventory of devices. \<open>Router\<close> is the audio router with its event queue, timers, fades and limiter,
  one frame of 960 samples per \<open>tick\<close>; \<open>RouterLiveness\<close> shows what it guarantees on its own clock, and
  \<open>RouterControl\<close> that its control is a machine that sees no samples (\<open>k_step\<close>, the abstract
  specification), which also computes the course of the scripted demo of \<^verbatim>\<open>app/main.cpp\<close>. \<open>RouterApp\<close> is
  the rest of that program. \<open>HostSources\<close> are the tone, WAV and memory sources and sinks, \<open>DeviceAudio\<close>
  the WASAPI streams, the live microphone, the enumeration of devices and the driver diagnosis. Sources
  and sinks meet the router through the locales \<open>audio_source\<close> and \<open>audio_sink\<close> of \<open>AudioIO\<close>, which are
  interpreted on all of them.

  \<^bold>\<open>The network path\<close>, \<^verbatim>\<open>shared\<close>. \<open>Json\<close> and \<open>Codec\<close> are the control messages, \<open>MediaPacket\<close> the binary
  header, \<open>ReplayWindow\<close> and \<open>SecureChannel\<close> the authenticated framing, \<open>JitterBuffer\<close> and \<open>PhoneMedia\<close>
  the way from packets to samples, \<open>Transport\<close> the three transports. \<open>Identity\<close> and \<open>Pairing\<close> are the
  device keys, the offers and the exchange; \<open>PeerSession\<close> is the session that ties them together and
  \<open>Handshake\<close> runs two of them against each other and one against the world.

  \<^bold>\<open>The driver\<close>, \<^verbatim>\<open>windows/driver\<close>. \<open>DriverRing\<close> is the ring shared by driver and service,
  \<open>DriverControl\<close> the private control channel with the claim on the ring, \<open>WaveStream\<close> the capture
  stream, \<open>DriverFilters\<close> the descriptors of the two filters, their answers to format and jack requests and
  their registration, \<open>DriverObjects\<close> the references that its objects keep on each other, \<open>DriverLink\<close> the
  service's end (\<^verbatim>\<open>platform/windows/smartmic_driver_link.cpp\<close>) and \<open>DriverSearch\<close>
  how that end finds the driver and says why it cannot. \<open>DriverStream\<close> puts the two ends together: timer
  ticks and writes in any order, from the tape the service writes to the periods an application records.

  \<^bold>\<open>The programs\<close>, \<^verbatim>\<open>apps\<close>. \<open>PhoneRuntime\<close> is the engine behind the C interface of the phone
  (\<^verbatim>\<open>phone-core/phone_runtime.cpp\<close>), \<open>Capture\<close> its three microphone captures, \<open>Service\<close> and \<open>ServiceMain\<close>
  the PC service (\<^verbatim>\<open>service/main.cpp\<close>): its callbacks and loop, and its start and end on each platform.
  \<open>PushToTalk\<close> joins phone and service to the network and follows a turn of push to
  talk from the press to the router and back. \<open>PhoneSim\<close> is the scripted phone (\<^verbatim>\<open>phone-sim/main.cpp\<close>).

  \<^bold>\<open>How the code is rendered.\<close> A class is a record with its members, a method a function that returns
  the changed record; machine integers are words. A \<open>float\<close> is the real number it denotes and every
  operation rounds through \<open>rf\<close> (or \<open>rd\<close> for \<open>double\<close>); \<open>Floats\<close> gives binary32 and binary64 rounding
  as \<open>f32\<close> and \<open>f64\<close>, with the error bounds that the properties need; overflow to infinity and NaN are
  not in it. What the program calls but does not contain is an argument: the libsodium primitives
  (a record whose documented laws, within the sizes and arguments the documentation admits, are
  hypotheses: scalars, for instance, are non-zero and below the group order), the JSON text parser, Opus, the clock, the answers of
  Windows, Android and Apple audio. Calls that the code makes from several threads are steps in any
  order; a property over histories quantifies over all of them. Where a loop of the code may not end
  the function is a \<open>partial_function (option)\<close> and returning is proved: \<open>rs_process\<close> returns on every
  block (\<open>resampler_f64_terminates\<close>), \<open>wf_refill\<close> exactly under the condition of
  \<open>wav_refill_returns\<close>. No fuel is used: every other recursion is structural or has a measure.

  \<^bold>\<open>What the lemmas show.\<close> Each theory first gives the definitions in the order of the code, then the
  invariant of its state and that every operation keeps it, then the functional lemmas, and last its
  properties, each with the text that states it and, where it has hypotheses, a witness that applies it
  to concrete values. The locales carry what a client needs of a provider: \<open>audio_source\<close> and
  \<open>audio_sink\<close> for the router, \<open>router_invariant\<close> for what every history of the router keeps,
  \<open>drop_oldest_queue\<close> for the rings, \<open>packet_sender\<close> for the transports, \<open>framer\<close> for the captures,
  \<open>rounding\<close> for the two float formats.

  \<^bold>\<open>Not modelled.\<close> The Dart application with its bindings; printing; memory ordering inside
  the lock-free rings, whose calls are taken as atomic; third-party code, tests and installers.
\<close>

end
